(* ===== verification/Filum_Prelude.thy ===== *)
theory Filum_Prelude
  imports Main "HOL-Library.Word" "HOL-Library.Monad_Syntax"
begin

text \<open>
  Shared vocabulary of the development: the fixed-width integer types of
  \<^verbatim>\<open>stdint.h\<close>, little-endian byte codecs, C arrays as lists with checked
  access, and the \<^verbatim>\<open>for\<close> loop.

  A C operation that can have undefined behaviour (an access outside an array, a
  conversion of a float that does not fit) is a function into \<open>'a option\<close>:
  \<open>None\<close> stands for undefined behaviour and for nothing else, so \<open>f x \<noteq> None\<close>
  is memory safety and \<open>f x = Some y\<close> total correctness.
\<close>

unbundle bit_operations_syntax

named_theorems ub_simps \<open>unfolding of the checked memory operations\<close>
named_theorems byte_simps \<open>round trips and lengths of the little-endian codecs\<close>

section \<open>Integers of \<^verbatim>\<open>stdint.h\<close>\<close>

type_synonym u8 = "8 word"
type_synonym u16 = "16 word"
type_synonym u32 = "32 word"
type_synonym u64 = "64 word"
type_synonym u128 = "128 word"
type_synonym i8 = "8 word"  \<comment> \<open>read through \<open>sint\<close>\<close>
type_synonym bytes = "u8 list"

section \<open>Little-endian codecs\<close>

definition le16 :: "u16 \<Rightarrow> bytes" where
  "le16 x = [ucast x, ucast (drop_bit 8 x)]"

definition of_le16 :: "u8 \<Rightarrow> u8 \<Rightarrow> u16" where
  "of_le16 a b = ucast a OR push_bit 8 (ucast b)"

definition le32 :: "u32 \<Rightarrow> bytes" where
  "le32 x = [ucast x, ucast (drop_bit 8 x), ucast (drop_bit 16 x), ucast (drop_bit 24 x)]"

definition of_le32 :: "u8 \<Rightarrow> u8 \<Rightarrow> u8 \<Rightarrow> u8 \<Rightarrow> u32" where
  "of_le32 a b c d =
     ucast a OR push_bit 8 (ucast b) OR push_bit 16 (ucast c) OR push_bit 24 (ucast d)"

lemma length_le16 [simp, byte_simps]: "length (le16 x) = 2"
  by (simp add: le16_def)

lemma length_le32 [simp, byte_simps]: "length (le32 x) = 4"
  by (simp add: le32_def)

lemma of_le16_le16 [simp, byte_simps]:
  "of_le16 (ucast x) (ucast (drop_bit 8 x)) = x"
  unfolding of_le16_def
  by (rule bit_word_eqI) (auto simp: bit_simps)

lemma le16_of_le16 [simp, byte_simps]: "le16 (of_le16 a b) = [a, b]"
proof -
  have "ucast (of_le16 a b) = a"
    unfolding of_le16_def by (rule bit_word_eqI) (auto simp: bit_simps)
  moreover have "ucast (drop_bit 8 (of_le16 a b)) = b"
    unfolding of_le16_def by (rule bit_word_eqI) (auto simp: bit_simps dest: bit_imp_le_length)
  ultimately show ?thesis by (simp add: le16_def)
qed

lemma of_le32_le32 [simp, byte_simps]:
  "of_le32 (ucast x) (ucast (drop_bit 8 x)) (ucast (drop_bit 16 x)) (ucast (drop_bit 24 x)) = x"
proof (rule bit_word_eqI)
  fix n
  assume "n < LENGTH(32)"
  then show "bit (of_le32 (ucast x) (ucast (drop_bit 8 x)) (ucast (drop_bit 16 x))
      (ucast (drop_bit 24 x))) n = bit x n"
    unfolding of_le32_def by (cases "24 \<le> n"; cases "16 \<le> n") (auto simp: bit_simps)
qed

lemma le32_of_le32 [simp, byte_simps]: "le32 (of_le32 a b c d) = [a, b, c, d]"
proof -
  have "ucast (of_le32 a b c d) = a"
    unfolding of_le32_def by (rule bit_word_eqI) (auto simp: bit_simps)
  moreover have "ucast (drop_bit 8 (of_le32 a b c d)) = b"
    unfolding of_le32_def by (rule bit_word_eqI) (auto simp: bit_simps dest: bit_imp_le_length)
  moreover have "ucast (drop_bit 16 (of_le32 a b c d)) = c"
    unfolding of_le32_def by (rule bit_word_eqI) (auto simp: bit_simps dest: bit_imp_le_length)
  moreover have "ucast (drop_bit 24 (of_le32 a b c d)) = d"
    unfolding of_le32_def by (rule bit_word_eqI) (auto simp: bit_simps dest: bit_imp_le_length)
  ultimately show ?thesis by (simp add: le32_def)
qed

lemma of_le16_inject [simp]: "of_le16 a b = of_le16 c d \<longleftrightarrow> a = c \<and> b = d"
  by (metis le16_of_le16 list.inject)

lemma le16_inject [simp]: "le16 x = le16 y \<longleftrightarrow> x = y"
proof
  assume "le16 x = le16 y"
  then have "ucast x = (ucast y :: u8)" "ucast (drop_bit 8 x) = (ucast (drop_bit 8 y) :: u8)"
    by (simp_all only: le16_def list.inject)
  then have "of_le16 (ucast x) (ucast (drop_bit 8 x)) = of_le16 (ucast y) (ucast (drop_bit 8 y))"
    by (simp only:)
  then show "x = y" by (simp only: of_le16_le16)
qed simp

lemma le32_inject [simp]: "le32 x = le32 y \<longleftrightarrow> x = y"
proof
  assume "le32 x = le32 y"
  then have "ucast x = (ucast y :: u8)" "ucast (drop_bit 8 x) = (ucast (drop_bit 8 y) :: u8)"
    "ucast (drop_bit 16 x) = (ucast (drop_bit 16 y) :: u8)"
    "ucast (drop_bit 24 x) = (ucast (drop_bit 24 y) :: u8)"
    by (simp_all only: le32_def list.inject)
  then have "of_le32 (ucast x) (ucast (drop_bit 8 x)) (ucast (drop_bit 16 x)) (ucast (drop_bit 24 x))
      = of_le32 (ucast y) (ucast (drop_bit 8 y)) (ucast (drop_bit 16 y)) (ucast (drop_bit 24 y))"
    by (simp only:)
  then show "x = y" by (simp only: of_le32_le32)
qed simp

section \<open>Arrays with checked access\<close>

definition rd :: "'a list \<Rightarrow> nat \<Rightarrow> 'a option" where
  "rd a i = (if i < length a then Some (a ! i) else None)"

definition wr :: "'a list \<Rightarrow> nat \<Rightarrow> 'a \<Rightarrow> 'a list option" where
  "wr a i v = (if i < length a then Some (a[i := v]) else None)"

definition memcpy_at :: "'a list \<Rightarrow> nat \<Rightarrow> 'a list \<Rightarrow> 'a list option" where
  "memcpy_at dst off src =
     (if off + length src \<le> length dst
      then Some (take off dst @ src @ drop (off + length src) dst) else None)"

definition rd_slice :: "'a list \<Rightarrow> nat \<Rightarrow> nat \<Rightarrow> 'a list option" where
  "rd_slice a off n = (if off + n \<le> length a then Some (take n (drop off a)) else None)"

lemma rd_Some [simp]: "i < length a \<Longrightarrow> rd a i = Some (a ! i)"
  by (simp add: rd_def)

lemma wr_Some [simp]: "i < length a \<Longrightarrow> wr a i v = Some (a[i := v])"
  by (simp add: wr_def)

lemma rd_None [simp]: "length a \<le> i \<Longrightarrow> rd a i = None"
  by (simp add: rd_def)

lemma wr_None [simp]: "length a \<le> i \<Longrightarrow> wr a i v = None"
  by (simp add: wr_def)

lemma wr_None_iff [simp]: "wr a i v = None \<longleftrightarrow> length a \<le> i"
  by (auto simp: wr_def)

lemma rd_None_iff [simp]: "rd a i = None \<longleftrightarrow> length a \<le> i"
  by (auto simp: rd_def)

lemma rd_slice_0 [simp]: "n \<le> length a \<Longrightarrow> rd_slice a 0 n = Some (take n a)"
  by (simp add: rd_slice_def)

lemma memcpy_at_0 [simp]:
  "length src \<le> length dst \<Longrightarrow> memcpy_at dst 0 src = Some (src @ drop (length src) dst)"
  by (simp add: memcpy_at_def)

lemma length_memcpy_at: "memcpy_at dst off src = Some r \<Longrightarrow> length r = length dst"
  by (auto simp: memcpy_at_def split: if_splits)

declare rd_def [ub_simps] wr_def [ub_simps] memcpy_at_def [ub_simps] rd_slice_def [ub_simps]

section \<open>The counting loop \<^verbatim>\<open>for (i = 0; i < n; i++)\<close>\<close>

fun for_from :: "nat \<Rightarrow> nat \<Rightarrow> (nat \<Rightarrow> 's \<Rightarrow> 's option) \<Rightarrow> 's \<Rightarrow> 's option" where
  "for_from i 0 f s = Some s"
| "for_from i (Suc n) f s = (case f i s of None \<Rightarrow> None | Some s' \<Rightarrow> for_from (Suc i) n f s')"

definition for_lt :: "nat \<Rightarrow> (nat \<Rightarrow> 's \<Rightarrow> 's option) \<Rightarrow> 's \<Rightarrow> 's option" where
  "for_lt n f s = for_from 0 n f s"

lemma for_from_inv:
  assumes "P i s"
    and "\<And>j s. i \<le> j \<Longrightarrow> j < i + n \<Longrightarrow> P j s \<Longrightarrow> \<exists>s'. f j s = Some s' \<and> P (Suc j) s'"
  shows "\<exists>s'. for_from i n f s = Some s' \<and> P (i + n) s'"
  using assms
proof (induction n arbitrary: i s)
  case 0
  then show ?case by simp
next
  case (Suc n)
  obtain s1 where s1: "f i s = Some s1" "P (Suc i) s1"
    using Suc.prems(2) [of i s] Suc.prems(1) by auto
  have "\<exists>s'. for_from (Suc i) n f s1 = Some s' \<and> P (Suc i + n) s'"
    by (rule Suc.IH [OF s1(2)]) (use Suc.prems(2) in auto)
  with s1 show ?case by simp
qed

text \<open>The rule every loop proof uses: an invariant indexed by the loop counter.\<close>

lemma for_lt_inv:
  assumes "P 0 s"
    and "\<And>j s. j < n \<Longrightarrow> P j s \<Longrightarrow> \<exists>s'. f j s = Some s' \<and> P (Suc j) s'"
  shows "\<exists>s'. for_lt n f s = Some s' \<and> P n s'"
  using for_from_inv [of P 0 s n f] assms by (simp add: for_lt_def)

lemma for_lt_0 [simp]: "for_lt 0 f s = Some s"
  by (simp add: for_lt_def)

lemma for_from_snoc:
  "for_from i (Suc n) f s =
     (case for_from i n f s of None \<Rightarrow> None | Some s' \<Rightarrow> f (i + n) s')"
proof (induction n arbitrary: i s)
  case 0
  then show ?case by (simp split: option.split)
next
  case (Suc n)
  show ?case
    unfolding for_from.simps(2) [of i "Suc n"] for_from.simps(2) [of i n]
    by (cases "f i s") (simp_all only: Suc option.case add_Suc_shift)
qed

lemma for_lt_Suc:
  "for_lt (Suc n) f s = (case for_lt n f s of None \<Rightarrow> None | Some s' \<Rightarrow> f n s')"
  unfolding for_lt_def by (simp only: for_from_snoc add_0)

lemma for_lt_cong:
  assumes "\<And>i s. i < n \<Longrightarrow> f i s = g i s"
  shows "for_lt n f s = for_lt n g s"
  using assms by (induction n) (auto simp: for_lt_Suc split: option.splits)

text \<open>A loop that updates each cell of an array from its old value.\<close>

definition map_prefix :: "nat \<Rightarrow> (nat \<Rightarrow> 'a \<Rightarrow> 'a) \<Rightarrow> 'a list \<Rightarrow> 'a list" where
  "map_prefix n g a = map (\<lambda>i. if i < n then g i (a ! i) else a ! i) [0..<length a]"

lemma length_map_prefix [simp]: "length (map_prefix n g a) = length a"
  by (simp add: map_prefix_def)

lemma nth_map_prefix [simp]:
  "i < length a \<Longrightarrow> map_prefix n g a ! i = (if i < n then g i (a ! i) else a ! i)"
  by (simp add: map_prefix_def)

lemma map_prefix_0 [simp]: "map_prefix 0 g a = a"
  by (simp add: list_eq_iff_nth_eq)

lemma for_lt_map:
  assumes "n \<le> length a"
    and "\<And>i b. i < n \<Longrightarrow> i < length b \<Longrightarrow> f i b = Some (b[i := g i (b ! i)])"
  shows "for_lt n f a = Some (map_prefix n g a)"
  using assms
proof (induction n)
  case 0
  then show ?case by simp
next
  case (Suc n)
  then have IH: "for_lt n f a = Some (map_prefix n g a)" by simp
  have "f n (map_prefix n g a) = Some ((map_prefix n g a)[n := g n (map_prefix n g a ! n)])"
    using Suc.prems by simp
  moreover have "(map_prefix n g a)[n := g n (map_prefix n g a ! n)] = map_prefix (Suc n) g a"
    using Suc.prems(1) by (auto simp: list_eq_iff_nth_eq nth_list_update less_Suc_eq)
  ultimately show ?case by (simp add: for_lt_Suc IH)
qed

text \<open>The same for the cells of a window.\<close>

lemma for_lt_window:
  assumes "off + n \<le> length a"
    and "\<And>i b. i < n \<Longrightarrow> off + i < length b \<Longrightarrow> f i b = Some (b[off + i := g i (b ! (off + i))])"
  shows "for_lt n f a
    = Some (map (\<lambda>j. if off \<le> j \<and> j < off + n then g (j - off) (a ! j) else a ! j) [0..<length a])"
  using assms
proof (induction n)
  case 0
  then show ?case by (auto intro!: nth_equalityI)
next
  case (Suc n)
  let ?r = "\<lambda>n. map (\<lambda>j. if off \<le> j \<and> j < off + n then g (j - off) (a ! j) else a ! j) [0..<length a]"
  have IH: "for_lt n f a = Some (?r n)" using Suc by simp
  have n: "off + n < length a" using Suc.prems(1) by simp
  have step: "f n (?r n) = Some ((?r n)[off + n := g n (?r n ! (off + n))])"
    by (rule Suc.prems(2)) (use n in simp_all)
  have "(?r n)[off + n := g n (?r n ! (off + n))] = ?r (Suc n)"
  proof (rule nth_equalityI)
    fix j assume "j < length ((?r n)[off + n := g n (?r n ! (off + n))])"
    then have "j < length a" by simp
    then show "(?r n)[off + n := g n (?r n ! (off + n))] ! j = ?r (Suc n) ! j"
      using n by (cases "j = off + n") auto
  qed simp
  then show ?case by (simp add: for_lt_Suc IH step)
qed

text \<open>An out-of-range loop body makes the whole loop undefined.\<close>

lemma for_lt_None:
  assumes "j < n" and "\<And>s. f j s = None"
  shows "for_lt n f s = None"
  using assms
proof (induction n)
  case 0
  then show ?case by simp
next
  case (Suc n)
  then show ?case
    by (cases "j = n") (auto simp: for_lt_Suc split: option.splits)
qed

text \<open>The same loop over a total body.\<close>

fun fold_lt :: "nat \<Rightarrow> (nat \<Rightarrow> 's \<Rightarrow> 's) \<Rightarrow> 's \<Rightarrow> 's" where
  "fold_lt 0 f s = s"
| "fold_lt (Suc n) f s = f n (fold_lt n f s)"

lemma for_lt_total:
  "(\<And>i s. i < n \<Longrightarrow> f i s = Some (g i s)) \<Longrightarrow> for_lt n f s = Some (fold_lt n g s)"
  by (induction n) (auto simp: for_lt_Suc)

lemma fold_lt_inv:
  assumes "P 0 s" and "\<And>j s. j < n \<Longrightarrow> P j s \<Longrightarrow> P (Suc j) (f j s)"
  shows "P n (fold_lt n f s)"
  using assms by (induction n) auto

section \<open>Words\<close>

lemma funpow_8: "(f ^^ 8) x = f (f (f (f (f (f (f (f x)))))))"
  by (simp add: numeral_eq_Suc)

lemma unat_drop_bit: "unat (drop_bit n x) = unat x div 2 ^ n"
proof -
  have "take_bit (LENGTH('a)) (unat (x :: 'a::len word)) = unat x"
    by (rule take_bit_nat_eq_self) (rule unsigned_less)
  then show ?thesis
    by (simp only: unsigned_drop_bit_eq) (simp only: drop_bit_eq_div [where 'a = nat])
qed

lemma unat_eqI: "unat x = unat y \<Longrightarrow> x = (y :: 'a::len word)"
  by (rule unsigned_word_eqI)

lemma unat_u8_less [simp]: "unat (x :: u8) < 256"
  using unsigned_less [of x] by simp

lemma unat_u16_less [simp]: "unat (x :: u16) < 65536"
  using unsigned_less [of x] by simp

lemma unat_u32_less [simp]: "unat (x :: u32) < 4294967296"
  using unsigned_less [of x] by simp

lemma unat_ucast_u8_u16 [simp]: "unat (ucast (x :: u8) :: u16) = unat x"
proof -
  have "unat x < 65536" using unat_u8_less [of x] by linarith
  then show ?thesis by (simp add: unsigned_ucast_eq take_bit_nat_eq_self_iff)
qed

lemma xor_left_cancel [simp]: "a XOR b = a XOR c \<longleftrightarrow> b = c" for a b c :: "'a::len word"
proof
  assume "a XOR b = a XOR c"
  then have "a XOR (a XOR b) = a XOR (a XOR c)" by simp
  then show "b = c" by (simp flip: xor.assoc)
qed simp

lemma xor_right_cancel [simp]: "b XOR a = c XOR a \<longleftrightarrow> b = c" for a b c :: "'a::len word"
  by (simp add: xor.commute [of _ a])

lemma xor_eq_0_iff [simp]: "a XOR b = 0 \<longleftrightarrow> a = b" for a b :: "'a::len word"
  using xor_right_cancel [of a b b] by simp

lemma xor_left_self [simp]: "a XOR (a XOR b) = b" for a b :: "'a::len word"
  by (simp flip: xor.assoc)

lemma xor_common [simp]: "(s XOR a) XOR (s XOR b) = a XOR b" for a b s :: "'a::len word"
  by (simp add: ac_simps)

lemma xor_common_right [simp]: "(a XOR s) XOR (b XOR s) = a XOR b" for a b s :: "'a::len word"
  by (simp add: ac_simps)

lemma xor_self_right [simp]: "(a XOR s) XOR s = a" for a s :: "'a::len word"
  by (simp add: xor.assoc)

lemma xor_swap: "a XOR b = c XOR d \<longleftrightarrow> a XOR c = b XOR d" for a b c d :: "'a::len word"
proof -
  have "a XOR b = c XOR d \<longleftrightarrow> (a XOR b) XOR (b XOR c) = (c XOR d) XOR (b XOR c)" by simp
  also have "(a XOR b) XOR (b XOR c) = a XOR c" by (simp add: xor.assoc)
  also have "(c XOR d) XOR (b XOR c) = b XOR d" by (simp add: ac_simps)
  finally show ?thesis .
qed

lemma ucast_push8_inj [simp]:
  "push_bit 8 (ucast (a :: u8) :: u16) = push_bit 8 (ucast b) \<longleftrightarrow> a = b"
proof
  assume eq: "push_bit 8 (ucast a :: u16) = push_bit 8 (ucast b)"
  have "bit c n \<longleftrightarrow> bit (push_bit 8 (ucast c :: u16)) (n + 8)" if "n < 8" for n and c :: u8
    using that by (auto simp: bit_simps)
  with eq show "a = b" by (intro bit_word_eqI) auto
qed simp

lemma ucast_push8_xor:
  "push_bit 8 (ucast (a :: u8) :: u16) XOR push_bit 8 (ucast b) = push_bit 8 (ucast (a XOR b))"
  by (rule bit_word_eqI) (auto simp: bit_simps)


lemma unat_of_nat_u8: "m < 256 \<Longrightarrow> unat (of_nat m :: u8) = m"
  by (simp add: unsigned_of_nat take_bit_nat_eq_self_iff)

lemma unat_of_nat_u16: "m < 65536 \<Longrightarrow> unat (of_nat m :: u16) = m"
  by (simp add: unsigned_of_nat take_bit_nat_eq_self_iff)

lemma of_nat_u16_inject: "m < 65536 \<Longrightarrow> k < 65536 \<Longrightarrow> of_nat m = (of_nat k :: u16) \<longleftrightarrow> m = k"
  by (metis unat_of_nat_u16)

section \<open>Bitmaps\<close>

text \<open>The idiom \<^verbatim>\<open>bm[i / 8] & (1u << (i % 8))\<close> and its update with \<^verbatim>\<open>|=\<close>. The access
  is checked: a bit beyond the array is undefined.\<close>

definition bm_test :: "bytes \<Rightarrow> nat \<Rightarrow> bool option" where
  "bm_test bm i = do { b \<leftarrow> rd bm (i div 8); Some (ucast b AND push_bit (i mod 8) (1 :: u32) \<noteq> 0) }"

definition bm_set :: "bytes \<Rightarrow> nat \<Rightarrow> bytes option" where
  "bm_set bm i =
     do { b \<leftarrow> rd bm (i div 8); wr bm (i div 8) (b OR ucast (push_bit (i mod 8) (1 :: u32))) }"

definition bm_mem :: "bytes \<Rightarrow> nat \<Rightarrow> bool" where
  "bm_mem bm i \<longleftrightarrow> bit (bm ! (i div 8)) (i mod 8)"

lemma and_push_bit_1: "ucast (b :: u8) AND push_bit k (1 :: u32) \<noteq> 0 \<longleftrightarrow> bit b k" if "k < 8"
proof -
  have "ucast b AND push_bit k (1 :: u32) \<noteq> 0 \<longleftrightarrow> bit (ucast b :: u32) k"
    unfolding push_bit_eq_mult by (simp add: and_exp_eq_0_iff_not_bit)
  also have "\<dots> \<longleftrightarrow> bit b k" using that by (simp add: bit_simps)
  finally show ?thesis .
qed

lemma bm_test_mem [simp]: "i div 8 < length bm \<Longrightarrow> bm_test bm i = Some (bm_mem bm i)"
  by (simp only: bm_test_def bm_mem_def rd_Some bind.bind_lunit and_push_bit_1 mod_less_divisor zero_less_numeral)

lemma bm_set_total:
  assumes "i div 8 < length bm"
  obtains bm' where "bm_set bm i = Some bm'" and "length bm' = length bm"
    and "\<And>j. bm_mem bm' j \<longleftrightarrow> i = j \<or> bm_mem bm j"
proof -
  let ?bm = "bm[i div 8 := bm ! (i div 8) OR ucast (push_bit (i mod 8) (1 :: u32))]"
  have "bm_mem ?bm j \<longleftrightarrow> i = j \<or> bm_mem bm j" for j
  proof (cases "j div 8 = i div 8")
    case True
    then have "i = j \<longleftrightarrow> i mod 8 = j mod 8" by (metis div_mult_mod_eq)
    moreover have "bit (ucast (push_bit (i mod 8) (1 :: u32)) :: u8) (j mod 8) \<longleftrightarrow> i mod 8 = j mod 8"
      by (auto simp: bit_simps)
    ultimately show ?thesis using True assms by (auto simp: bm_mem_def bit_or_iff)
  next
    case False
    then show ?thesis by (auto simp: bm_mem_def)
  qed
  moreover have "bm_set bm i = Some ?bm" using assms by (simp add: bm_set_def)
  ultimately show ?thesis using that by simp
qed

lemma bm_mem_replicate [simp]: "i div 8 < n \<Longrightarrow> \<not> bm_mem (replicate n 0) i"
  by (simp add: bm_mem_def)

end
