(* ===== verification/Float32.thy ===== *)
theory Float32
  imports Filum_Prelude
begin

text \<open>
  The C type \<^verbatim>\<open>float\<close>: IEEE 754 binary32 with round-to-nearest-even, as an
  executable model on the 32-bit pattern. The magnitude of a finite float is a whole
  number of units of \<open>2^-149\<close>, so every operation is an exact computation on \<open>nat\<close>
  followed by one call of \<open>round_bits\<close>.

  This is the language the program is written in, not code of the repository. It
  assumes what the build targets give: \<^verbatim>\<open>FLT_EVAL_METHOD\<close> 0 and no contraction of
  \<^verbatim>\<open>a * b + c\<close> into a fused operation. A NaN result is the default quiet NaN;
  nothing below depends on its payload.
\<close>

datatype f32 = F32 (f32_bits: u32)

section \<open>Fields of the bit pattern\<close>

definition f_code :: "f32 \<Rightarrow> nat" where
  "f_code x = unat (f32_bits x) mod 2 ^ 31"

definition f_sign :: "f32 \<Rightarrow> bool" where
  "f_sign x \<longleftrightarrow> 2 ^ 31 \<le> unat (f32_bits x)"

text \<open>The magnitude, in units of \<open>2^-149\<close>, of the pattern with biased exponent and
  fraction packed in \<open>k\<close>.\<close>

definition code_mag :: "nat \<Rightarrow> nat" where
  "code_mag k = (if k < 2 ^ 23 then k else (2 ^ 23 + k mod 2 ^ 23) * 2 ^ (k div 2 ^ 23 - 1))"

definition inf_code :: nat where
  "inf_code = 255 * 2 ^ 23"

definition f_nan :: "f32 \<Rightarrow> bool" where
  "f_nan x \<longleftrightarrow> inf_code < f_code x"

definition f_inf :: "f32 \<Rightarrow> bool" where
  "f_inf x \<longleftrightarrow> f_code x = inf_code"

definition f_mag :: "f32 \<Rightarrow> nat" where
  "f_mag x = code_mag (f_code x)"

definition f_ord :: "f32 \<Rightarrow> int" where
  "f_ord x = (if f_sign x then - int (f_mag x) else int (f_mag x))"

definition f_mk :: "bool \<Rightarrow> nat \<Rightarrow> f32" where
  "f_mk s k = F32 (of_nat (k + (if s then 2 ^ 31 else 0)))"

definition f_qnan :: f32 where
  "f_qnan = F32 0x7FC00000"

section \<open>Rounding\<close>

fun nbits :: "nat \<Rightarrow> nat" where
  "nbits n = (if n = 0 then 0 else Suc (nbits (n div 2)))"

declare nbits.simps [simp del]

text \<open>The code of the float nearest to \<open>n / d\<close> units, ties to even, overflow to infinity.\<close>

definition round_exp :: "nat \<Rightarrow> nat \<Rightarrow> nat" where
  "round_exp n d = nbits (n div d) - 24"

definition round_bits :: "nat \<Rightarrow> nat \<Rightarrow> nat" where
  "round_bits n d =
     (let e = round_exp n d; D = d * 2 ^ e; q = n div D; r = n mod D;
          q' = (if D < 2 * r \<or> (2 * r = D \<and> odd q) then q + 1 else q)
      in min inf_code (e * 2 ^ 23 + q'))"

section \<open>Operations\<close>

definition f_add :: "f32 \<Rightarrow> f32 \<Rightarrow> f32" where
  "f_add x y =
     (if f_nan x \<or> f_nan y then f_qnan
      else if f_inf x then (if f_inf y \<and> f_sign x \<noteq> f_sign y then f_qnan else x)
      else if f_inf y then y
      else let s = f_ord x + f_ord y
           in if s = 0 then f_mk (f_sign x \<and> f_sign y) 0
              else f_mk (s < 0) (round_bits (nat \<bar>s\<bar>) 1))"

definition f_neg :: "f32 \<Rightarrow> f32" where
  "f_neg x = F32 (f32_bits x XOR 0x80000000)"

definition f_sub :: "f32 \<Rightarrow> f32 \<Rightarrow> f32" where
  "f_sub x y = f_add x (f_neg y)"

definition f_mul :: "f32 \<Rightarrow> f32 \<Rightarrow> f32" where
  "f_mul x y =
     (let s = (f_sign x \<noteq> f_sign y) in
      if f_nan x \<or> f_nan y then f_qnan
      else if f_inf x \<or> f_inf y then
        (if f_mag x = 0 \<or> f_mag y = 0 then f_qnan else f_mk s inf_code)
      else f_mk s (round_bits (f_mag x * f_mag y) (2 ^ 149)))"

definition f_div :: "f32 \<Rightarrow> f32 \<Rightarrow> f32" where
  "f_div x y =
     (let s = (f_sign x \<noteq> f_sign y) in
      if f_nan x \<or> f_nan y \<or> (f_inf x \<and> f_inf y) \<or> (f_mag x = 0 \<and> f_mag y = 0) then f_qnan
      else if f_inf x \<or> f_mag y = 0 then f_mk s inf_code
      else if f_inf y then f_mk s 0
      else f_mk s (round_bits (f_mag x * 2 ^ 149) (f_mag y)))"

definition f_lt :: "f32 \<Rightarrow> f32 \<Rightarrow> bool" where
  "f_lt x y \<longleftrightarrow> \<not> f_nan x \<and> \<not> f_nan y \<and> f_ord x < f_ord y"

definition f_le :: "f32 \<Rightarrow> f32 \<Rightarrow> bool" where
  "f_le x y \<longleftrightarrow> \<not> f_nan x \<and> \<not> f_nan y \<and> f_ord x \<le> f_ord y"

definition f_eq :: "f32 \<Rightarrow> f32 \<Rightarrow> bool" where
  "f_eq x y \<longleftrightarrow> \<not> f_nan x \<and> \<not> f_nan y \<and> f_ord x = f_ord y"

text \<open>C's operators on \<^verbatim>\<open>float\<close>, through the library's syntactic classes. The order is
  only \<open>ord\<close>: with NaN it is not even a preorder.\<close>

instantiation f32 :: "{zero, one, plus, minus, uminus, times, ord}"
begin

definition zero_f32_def: "0 = F32 0"
definition one_f32_def: "1 = F32 0x3F800000"
definition plus_f32_def: "x + y = f_add x y"
definition minus_f32_def: "x - y = f_sub x y"
definition uminus_f32_def: "- x = f_neg x"
definition times_f32_def: "x * y = f_mul x y"
definition less_f32_def: "x < y \<longleftrightarrow> f_lt x y"
definition less_eq_f32_def: "x \<le> y \<longleftrightarrow> f_le x y"

instance ..

end

definition f_of_int :: "int \<Rightarrow> f32" where
  "f_of_int i = f_mk (i < 0) (round_bits (nat \<bar>i\<bar> * 2 ^ 149) 1)"

text \<open>The conversion \<^verbatim>\<open>(int32_t)x\<close>: truncation, undefined when the value does not fit.\<close>

definition f_to_i32 :: "f32 \<Rightarrow> int option" where
  "f_to_i32 x =
     (let t = f_mag x div 2 ^ 149; i = (if f_sign x then - int t else int t)
      in if f_nan x \<or> f_inf x \<or> i < - (2 ^ 31) \<or> 2 ^ 31 \<le> i then None else Some i)"

text \<open>The functions of \<^verbatim>\<open>math.h\<close> the program calls. The C standard leaves their
  accuracy to the implementation, so they are a parameter of every definition that
  calls one.\<close>

record libm =
  m_sqrtf :: "f32 \<Rightarrow> f32"
  m_expf :: "f32 \<Rightarrow> f32"
  m_logf :: "f32 \<Rightarrow> f32"
  m_cosf :: "f32 \<Rightarrow> f32"
  m_tanhf :: "f32 \<Rightarrow> f32"

named_theorems f32_eval \<open>definitions that evaluate a float operation on numerals\<close>

declare f_code_def [f32_eval] f_sign_def [f32_eval] code_mag_def [f32_eval]
  inf_code_def [f32_eval] f_nan_def [f32_eval] f_inf_def [f32_eval] f_mag_def [f32_eval]
  f_ord_def [f32_eval] f_mk_def [f32_eval] f_qnan_def [f32_eval] nbits.simps [f32_eval]
  round_exp_def [f32_eval] round_bits_def [f32_eval] f_add_def [f32_eval]
  f_neg_def [f32_eval] f_sub_def [f32_eval] f_mul_def [f32_eval] f_div_def [f32_eval]
  f_lt_def [f32_eval] f_le_def [f32_eval] f_eq_def [f32_eval] zero_f32_def [f32_eval]
  one_f32_def [f32_eval] plus_f32_def [f32_eval] minus_f32_def [f32_eval]
  uminus_f32_def [f32_eval] times_f32_def [f32_eval] less_f32_def [f32_eval]
  less_eq_f32_def [f32_eval] f_of_int_def [f32_eval] f_to_i32_def [f32_eval]
  Let_def [f32_eval]


section \<open>The grid of representable magnitudes\<close>

lemma code_mag_pack:
  assumes "q \<le> 2 ^ 24" and "e = 0 \<or> 2 ^ 23 \<le> q"
  shows "code_mag (e * 2 ^ 23 + q) = q * 2 ^ e"
proof (cases "q < 2 ^ 23")
  case True
  with assms show ?thesis by (simp add: code_mag_def)
next
  case False
  show ?thesis
  proof (cases "q = 2 ^ 24")
    case True
    then have "e * 2 ^ 23 + q = (e + 2) * 2 ^ 23" by simp
    then show ?thesis using True by (simp add: code_mag_def)
  next
    case neq: False
    define f where "f = q - 2 ^ 23"
    have q: "q = 2 ^ 23 + f" and f: "f < 2 ^ 23"
      using False neq assms(1) by (auto simp: f_def)
    have k: "e * 2 ^ 23 + q = f + (e + 1) * 2 ^ 23" by (simp add: q)
    have "(f + (e + 1) * 2 ^ 23) div 2 ^ 23 = e + 1"
      using f by (subst div_mult_self1) simp_all
    moreover have "(f + (e + 1) * 2 ^ 23) mod 2 ^ 23 = f"
      using f by (subst mod_mult_self1) simp
    ultimately show ?thesis
      by (simp add: code_mag_def k q)
  qed
qed

lemma code_unpack:
  fixes k :: nat
  obtains e q where "k = e * 2 ^ 23 + q" and "q < 2 ^ 24" and "e = 0 \<or> 2 ^ 23 \<le> q"
proof (cases "k < 2 ^ 24")
  case True
  then show ?thesis using that [of 0 k] by simp
next
  case False
  define e where "e = k div 2 ^ 23 - 1"
  define q where "q = k mod 2 ^ 23 + 2 ^ 23"
  have d: "1 \<le> k div 2 ^ 23" using False by (simp add: less_eq_div_iff_mult_less_eq)
  have "k = (k div 2 ^ 23) * 2 ^ 23 + k mod 2 ^ 23" by simp
  also have "\<dots> = e * 2 ^ 23 + q"
    using d unfolding e_def q_def by (simp add: algebra_simps diff_mult_distrib)
  finally have "k = e * 2 ^ 23 + q" .
  moreover have "k mod 2 ^ 23 < 2 ^ 23" by simp
  then have "q < 2 ^ 24" unfolding q_def by simp
  moreover have "2 ^ 23 \<le> q" unfolding q_def by simp
  ultimately show ?thesis using that by blast
qed

lemma code_mag_Suc_eq:
  assumes "q < 2 ^ 24" and "e = 0 \<or> 2 ^ 23 \<le> q"
  shows "code_mag (Suc (e * 2 ^ 23 + q)) = code_mag (e * 2 ^ 23 + q) + 2 ^ e"
proof -
  have "Suc (e * 2 ^ 23 + q) = e * 2 ^ 23 + Suc q" by simp
  moreover have "code_mag (e * 2 ^ 23 + Suc q) = Suc q * 2 ^ e"
    using assms by (intro code_mag_pack) auto
  moreover have "code_mag (e * 2 ^ 23 + q) = q * 2 ^ e"
    using assms by (intro code_mag_pack) auto
  ultimately show ?thesis by simp
qed

lemma code_mag_Suc: "code_mag k < code_mag (Suc k)"
proof -
  obtain e q where k: "k = e * 2 ^ 23 + q" "q < 2 ^ 24" "e = 0 \<or> 2 ^ 23 \<le> q"
    by (rule code_unpack)
  show ?thesis unfolding k(1) code_mag_Suc_eq [OF k(2,3)] by simp
qed

lemma code_mag_strict_mono: "strict_mono code_mag"
  by (simp add: strict_mono_Suc_iff code_mag_Suc)

lemma code_mag_less_iff [simp]: "code_mag k < code_mag l \<longleftrightarrow> k < l"
  by (rule strict_mono_less [OF code_mag_strict_mono])

lemma code_mag_le_iff [simp]: "code_mag k \<le> code_mag l \<longleftrightarrow> k \<le> l"
  by (rule strict_mono_less_eq [OF code_mag_strict_mono])

lemma code_mag_eq_iff [simp]: "code_mag k = code_mag l \<longleftrightarrow> k = l"
  by (rule strict_mono_eq [OF code_mag_strict_mono])

lemma code_mag_0 [simp]: "code_mag 0 = 0"
  by (simp add: code_mag_def)

lemma code_mag_eq_0_iff [simp]: "code_mag k = 0 \<longleftrightarrow> k = 0"
  using code_mag_eq_iff [of k 0] by (simp del: code_mag_eq_iff)

lemma code_mag_inf_code: "code_mag inf_code = 2 ^ 277"
  by (simp add: code_mag_def inf_code_def)

section \<open>Rounding is exact on the grid and monotone\<close>

lemma nbits_bounds: "n < 2 ^ nbits n \<and> (0 < n \<longrightarrow> 2 ^ (nbits n - 1) \<le> n)"
proof (induction n rule: nbits.induct)
  case (1 n)
  show ?case
  proof (cases "n = 0")
    case True
    then show ?thesis by (simp add: nbits.simps [of n])
  next
    case False
    then have IH: "n div 2 < 2 ^ nbits (n div 2)"
      "0 < n div 2 \<longrightarrow> 2 ^ (nbits (n div 2) - 1) \<le> n div 2"
      using 1 by auto
    have nb: "nbits n = Suc (nbits (n div 2))" using False by (simp add: nbits.simps [of n])
    have "n < 2 ^ Suc (nbits (n div 2))" using IH(1) by simp
    moreover have "2 ^ nbits (n div 2) \<le> n"
    proof (cases "n div 2 = 0")
      case True
      then show ?thesis using False by (simp add: nbits.simps [of 0])
    next
      case nz: False
      then have "0 < nbits (n div 2)" by (simp add: nbits.simps [of "n div 2"])
      then have "2 ^ nbits (n div 2) = 2 * (2::nat) ^ (nbits (n div 2) - 1)"
        by (cases "nbits (n div 2)") auto
      then show ?thesis using IH(2) nz by simp
    qed
    ultimately show ?thesis by (simp add: nb)
  qed
qed

lemma nbits_eqI: "2 ^ j \<le> n \<Longrightarrow> n < 2 ^ Suc j \<Longrightarrow> nbits n = Suc j"
proof -
  assume a: "2 ^ j \<le> n" "n < 2 ^ Suc j"
  then have n: "0 < n" using le_less_trans [of 0 "2 ^ j" n] by (cases "n = 0") auto
  have b: "n < 2 ^ nbits n" "2 ^ (nbits n - 1) \<le> n" using nbits_bounds [of n] n by auto
  have "(2::nat) ^ j < 2 ^ nbits n" using a b by linarith
  then have "j < nbits n" by simp
  moreover have "(2::nat) ^ (nbits n - 1) < 2 ^ Suc j" using a b by linarith
  then have "nbits n - 1 < Suc j" by (simp only: power_strict_increasing_iff)
  ultimately show ?thesis by linarith
qed

text \<open>The cell of the grid that holds \<open>n / d\<close>, as \<open>round_bits\<close> computes it.\<close>

definition cell :: "nat \<Rightarrow> nat \<Rightarrow> nat" where
  "cell n d = round_exp n d * 2 ^ 23 + n div (d * 2 ^ round_exp n d)"

lemma cell_quot:
  fixes n d :: nat
  assumes "0 < d" and e_def: "e = round_exp n d"
  shows "n div (d * 2 ^ e) < 2 ^ 24" and "e = 0 \<or> 2 ^ 23 \<le> n div (d * 2 ^ e)"
proof -
  define m where "m = n div d"
  have q: "n div (d * 2 ^ e) = m div 2 ^ e" by (simp add: m_def div_mult2_eq)
  have e: "e = nbits m - 24" by (simp add: e_def round_exp_def m_def)
  have m: "m < 2 ^ nbits m" "0 < m \<longrightarrow> 2 ^ (nbits m - 1) \<le> m" using nbits_bounds [of m] by auto
  have "nbits m \<le> 24 + e" by (simp add: e)
  then have "(2::nat) ^ nbits m \<le> 2 ^ (24 + e)" by (intro power_increasing) auto
  then have "m < 2 ^ 24 * 2 ^ e" using m(1) by (simp add: power_add)
  then have "m div 2 ^ e < 2 ^ 24" by (simp add: less_mult_imp_div_less)
  then show "n div (d * 2 ^ e) < 2 ^ 24" by (simp add: q)
  show "e = 0 \<or> 2 ^ 23 \<le> n div (d * 2 ^ e)"
  proof (cases "e = 0")
    case False
    then have nb: "nbits m = 24 + e" by (simp add: e)
    then have "0 < m" by (cases "m = 0") (auto simp: nbits.simps [of 0])
    then have "2 ^ (23 + e) \<le> m" using m(2) nb by simp
    then have "2 ^ 23 \<le> m div 2 ^ e" by (simp add: less_eq_div_iff_mult_less_eq power_add)
    then show ?thesis by (simp add: q)
  qed simp
qed

lemma cell_bounds:
  assumes "0 < d"
  shows "code_mag (cell n d) * d \<le> n" and "n < code_mag (Suc (cell n d)) * d"
    and "code_mag (Suc (cell n d)) = code_mag (cell n d) + 2 ^ round_exp n d"
    and "code_mag (cell n d) = n div (d * 2 ^ round_exp n d) * 2 ^ round_exp n d"
proof -
  define e where "e = round_exp n d"
  define q where "q = n div (d * 2 ^ e)"
  note qe = cell_quot [OF assms e_def, folded q_def]
  have c: "cell n d = e * 2 ^ 23 + q" by (simp add: cell_def e_def q_def)
  have cm: "code_mag (cell n d) = q * 2 ^ e"
    unfolding c using qe by (intro code_mag_pack) auto
  then show "code_mag (cell n d) = n div (d * 2 ^ round_exp n d) * 2 ^ round_exp n d"
    by (simp add: q_def e_def)
  show cs: "code_mag (Suc (cell n d)) = code_mag (cell n d) + 2 ^ round_exp n d"
    using code_mag_Suc_eq [OF qe] by (simp add: c e_def)
  have D: "0 < d * 2 ^ e" using assms by simp
  have "q * (d * 2 ^ e) \<le> n" by (simp add: q_def)
  then show "code_mag (cell n d) * d \<le> n" by (simp add: cm mult_ac)
  have "n < Suc q * (d * 2 ^ e)" using dividend_less_times_div [OF D, of n] by (simp add: q_def mult_ac)
  then show "n < code_mag (Suc (cell n d)) * d"
    by (simp add: cs cm e_def [symmetric] algebra_simps)
qed

lemma cell_unique:
  assumes "0 < d" and "code_mag k * d \<le> n" and "n < code_mag (Suc k) * d"
  shows "cell n d = k"
proof -
  note b = cell_bounds(1,2) [OF assms(1), of n]
  have "code_mag (cell n d) * d < code_mag (Suc k) * d" using b(1) assms(3) by linarith
  then have "cell n d < Suc k" using assms(1) by simp
  moreover have "code_mag k * d < code_mag (Suc (cell n d)) * d" using b(2) assms(2) by linarith
  then have "k < Suc (cell n d)" using assms(1) by simp
  ultimately show ?thesis by simp
qed

lemma cell_mono:
  assumes "0 < d1" "0 < d2" and "n1 * d2 \<le> n2 * d1"
  shows "cell n1 d1 \<le> cell n2 d2"
proof -
  have "code_mag (cell n1 d1) * d1 * d2 \<le> n1 * d2"
    using cell_bounds(1) [OF assms(1)] by simp
  also have "\<dots> \<le> n2 * d1" by (rule assms(3))
  also have "\<dots> < code_mag (Suc (cell n2 d2)) * d2 * d1"
    using cell_bounds(2) [OF assms(2)] assms(1) by simp
  finally have "code_mag (cell n1 d1) < code_mag (Suc (cell n2 d2))"
    by (simp add: mult_ac)
  then show ?thesis by simp
qed

definition rounds_up :: "nat \<Rightarrow> nat \<Rightarrow> bool" where
  "rounds_up n d \<longleftrightarrow>
     (let k = cell n d; mid = (code_mag k + code_mag (Suc k)) * d
      in mid < 2 * n \<or> (mid = 2 * n \<and> odd k))"

lemma round_bits_cell:
  assumes "0 < d"
  shows "round_bits n d = min inf_code (cell n d + (if rounds_up n d then 1 else 0))"
proof -
  define e where "e = round_exp n d"
  define D where "D = d * 2 ^ e"
  have n: "n = n div D * D + n mod D" by simp
  have cm: "code_mag (cell n d) = n div D * 2 ^ e"
    using cell_bounds(4) [OF assms, of n] by (simp add: D_def e_def)
  have "(code_mag (cell n d) + code_mag (Suc (cell n d))) * d = 2 * (n div D * D) + D"
    using cell_bounds(3) [OF assms, of n] by (simp add: cm D_def e_def algebra_simps)
  moreover have "2 * n = 2 * (n div D * D) + 2 * (n mod D)" by (subst n) (simp only: distrib_left)
  ultimately have "rounds_up n d \<longleftrightarrow> D < 2 * (n mod D) \<or> (2 * (n mod D) = D \<and> odd (cell n d))"
    unfolding rounds_up_def Let_def by (auto simp del: times_div_less_eq_dividend)
  moreover have "odd (cell n d) = odd (n div D)"
    by (simp add: cell_def e_def [symmetric] D_def)
  ultimately have "round_bits n d =
      min inf_code (e * 2 ^ 23 + (n div D + (if rounds_up n d then 1 else 0)))"
    unfolding round_bits_def Let_def e_def [symmetric] D_def [symmetric] by simp
  then show ?thesis by (simp add: cell_def e_def D_def)
qed

lemma round_bits_exact:
  assumes "0 < d" and "k \<le> inf_code" and "n = code_mag k * d"
  shows "round_bits n d = k"
proof -
  have "n < code_mag (Suc k) * d" using assms by simp
  then have c: "cell n d = k" using assms by (intro cell_unique) auto
  have "code_mag k * d < code_mag (Suc k) * d" using assms(1) by simp
  then have "\<not> rounds_up n d"
    unfolding rounds_up_def Let_def c using assms(3) by (simp add: algebra_simps)
  then show ?thesis using assms(2) by (simp add: round_bits_cell [OF assms(1)] c)
qed

theorem round_bits_mono:
  assumes "0 < d1" "0 < d2" and "n1 * d2 \<le> n2 * d1"
  shows "round_bits n1 d1 \<le> round_bits n2 d2"
proof -
  have le: "cell n1 d1 \<le> cell n2 d2" by (rule cell_mono [OF assms])
  have "cell n1 d1 + (if rounds_up n1 d1 then 1 else 0)
      \<le> cell n2 d2 + (if rounds_up n2 d2 then 1 else 0)"
  proof (cases "cell n1 d1 = cell n2 d2 \<and> rounds_up n1 d1")
    case True
    define m where "m = code_mag (cell n1 d1) + code_mag (Suc (cell n1 d1))"
    have "m * d1 \<le> 2 * n1" using True by (auto simp: rounds_up_def Let_def m_def)
    then have 1: "m * d1 * d2 \<le> 2 * n1 * d2" by simp
    have 2: "2 * n1 * d2 \<le> 2 * n2 * d1" using assms(3) by (simp only: mult.assoc mult_le_mono2)
    have swap: "m * d2 * d1 = m * d1 * d2" by (simp only: mult_ac)
    have "rounds_up n2 d2"
    proof (cases "m * d1 = 2 * n1")
      case tie: True
      then have "odd (cell n1 d1)" using True by (auto simp: rounds_up_def Let_def m_def)
      moreover have "m * d2 * d1 \<le> 2 * n2 * d1" using 1 2 swap by linarith
      then have "m * d2 \<le> 2 * n2" using assms(1) by (simp only: mult_le_cancel2)
      ultimately show ?thesis using True by (auto simp: rounds_up_def Let_def m_def)
    next
      case False
      then have "m * d1 < 2 * n1" using \<open>m * d1 \<le> 2 * n1\<close> by simp
      then have "m * d1 * d2 < 2 * n1 * d2" using assms(2) by simp
      then have "m * d2 * d1 < 2 * n2 * d1" using 2 swap by linarith
      then have "m * d2 < 2 * n2" by (simp only: mult_less_cancel2)
      then show ?thesis using True by (auto simp: rounds_up_def Let_def m_def)
    qed
    with True show ?thesis by simp
  next
    case False
    then show ?thesis using le by auto
  qed
  then show ?thesis
    by (simp add: round_bits_cell [OF assms(1)] round_bits_cell [OF assms(2)])
qed

section \<open>Fields of constructed floats\<close>

lemma f_code_take_bit: "f_code x = unat (take_bit 31 (f32_bits x))"
  unfolding f_code_def unsigned_take_bit_eq by (simp only: take_bit_eq_mod)

lemma f_sign_bit: "f_sign x \<longleftrightarrow> bit (f32_bits x) 31"
proof -
  have "bit (f32_bits x) 31 \<longleftrightarrow> odd (unat (f32_bits x) div 2 ^ 31)"
    unfolding bit_iff_odd [symmetric] by (simp add: bit_unsigned_iff)
  moreover have "unat (f32_bits x) div 2 ^ 31 < 2"
    using unat_u32_less [of "f32_bits x"] by (simp add: less_mult_imp_div_less)
  moreover have "f_sign x \<longleftrightarrow> 1 \<le> unat (f32_bits x) div 2 ^ 31"
    by (simp add: f_sign_def less_eq_div_iff_mult_less_eq)
  ultimately show ?thesis by (auto simp: less_2_cases_iff)
qed

lemma f_code_less: "f_code x < 2 ^ 31"
  by (simp add: f_code_def)

lemma unat_of_nat_u32: "m < 2 ^ 32 \<Longrightarrow> unat (of_nat m :: u32) = m"
  by (simp add: unsigned_of_nat take_bit_nat_eq_self_iff)

lemma unat_f_mk: "k < 2 ^ 31 \<Longrightarrow> unat (f32_bits (f_mk s k)) = k + (if s then 2 ^ 31 else 0)"
  unfolding f_mk_def f32.sel by (rule unat_of_nat_u32) simp

lemma f_code_mk [simp]: "k < 2 ^ 31 \<Longrightarrow> f_code (f_mk s k) = k"
  unfolding f_code_def by (subst unat_f_mk) simp_all

lemma f_sign_mk [simp]: "k < 2 ^ 31 \<Longrightarrow> f_sign (f_mk s k) = s"
  unfolding f_sign_def by (subst unat_f_mk) simp_all

lemma f_mk_self [simp]: "f_mk (f_sign x) (f_code x) = x"
proof -
  have "unat (f32_bits x) = f_code x + (if f_sign x then 2 ^ 31 else 0)"
  proof (cases "f_sign x")
    case True
    then have "unat (f32_bits x) div 2 ^ 31 = 1"
      using unat_u32_less [of "f32_bits x"] by (simp add: f_sign_def div_nat_eqI)
    then show ?thesis using True div_mult_mod_eq [of "unat (f32_bits x)" "2 ^ 31"]
      by (simp add: f_code_def)
  next
    case False
    then show ?thesis by (simp add: f_sign_def f_code_def)
  qed
  then have "f_mk (f_sign x) (f_code x) = F32 (of_nat (unat (f32_bits x)))"
    by (simp add: f_mk_def)
  then show ?thesis by simp
qed

lemma f32_eqI: "f_sign x = f_sign y \<Longrightarrow> f_code x = f_code y \<Longrightarrow> x = y"
proof -
  assume a: "f_sign x = f_sign y" "f_code x = f_code y"
  have "x = f_mk (f_sign x) (f_code x)" by simp
  also have "\<dots> = y" unfolding a by simp
  finally show ?thesis .
qed

lemma round_bits_le_inf: "round_bits n d \<le> inf_code"
  by (simp add: round_bits_def Let_def)

lemma inf_code_less: "inf_code < 2 ^ 31"
  by (simp add: inf_code_def)

lemma round_bits_less [simp]: "round_bits n d < 2147483648"
  using le_less_trans [OF round_bits_le_inf inf_code_less, of n d] by simp

lemma f_nan_mk_round [simp]: "\<not> f_nan (f_mk s (round_bits n d))"
  using round_bits_le_inf [of n d] by (simp add: f_nan_def)

lemma f_nan_mk_inf [simp]: "\<not> f_nan (f_mk s inf_code)" "\<not> f_nan (f_mk s 0)"
  using inf_code_less by (simp_all add: f_nan_def)

lemma f_mag_mk_round [simp]: "f_mag (f_mk s (round_bits n d)) = code_mag (round_bits n d)"
  by (simp add: f_mag_def)

lemma f_mk_0 [simp]: "f_mag (f_mk s 0) = 0" "f_ord (f_mk s 0) = 0"
  by (simp_all add: f_ord_def f_mag_def)

lemma f_ord_mk_round [simp]:
  "f_ord (f_mk s (round_bits n d)) = (if s then - 1 else 1) * int (code_mag (round_bits n d))"
  by (simp add: f_ord_def)

lemma f_zero [simp]: "\<not> f_nan 0" "f_ord 0 = 0" "f_mag 0 = 0" "\<not> f_inf 0" "\<not> f_sign 0"
  by (simp_all add: f32_eval)

lemma f_one [simp]: "\<not> f_nan 1" "f_ord 1 = 2 ^ 149" "f_mag 1 = 2 ^ 149" "\<not> f_inf 1" "\<not> f_sign 1"
  by (simp_all add: f32_eval)

lemma f_code_neg [simp]: "f_code (- x) = f_code x"
proof -
  have "take_bit 31 (f32_bits x XOR 0x80000000) = take_bit 31 (f32_bits x)"
    by (simp add: take_bit_xor)
  then show ?thesis by (simp add: f_code_take_bit uminus_f32_def f_neg_def)
qed

lemma f_sign_neg [simp]: "f_sign (- x) \<longleftrightarrow> \<not> f_sign x"
proof -
  have "bit (0x80000000 :: u32) 31" by simp
  then show ?thesis by (simp add: f_sign_bit uminus_f32_def f_neg_def bit_xor_iff)
qed

lemma f_neg_simps [simp]: "f_nan (- x) = f_nan x" "f_inf (- x) = f_inf x" "f_mag (- x) = f_mag x"
  "f_ord (- x) = - f_ord x"
  by (simp_all add: f_nan_def f_inf_def f_mag_def f_ord_def)

lemma f_ord_abs: "\<bar>f_ord x\<bar> = int (f_mag x)"
  by (simp add: f_ord_def)

lemma f_ord_eq_0_iff: "f_ord x = 0 \<longleftrightarrow> f_mag x = 0"
  by (simp add: f_ord_def)

lemma f_mag_finite: "\<not> f_nan x \<Longrightarrow> \<not> f_inf x \<longleftrightarrow> f_mag x < 2 ^ 277"
  unfolding code_mag_inf_code [symmetric] f_mag_def
  by (auto simp: f_nan_def f_inf_def)

section \<open>Comparisons\<close>

lemma less_f32_iff: "x < y \<longleftrightarrow> \<not> f_nan x \<and> \<not> f_nan y \<and> f_ord x < f_ord y" for x y :: f32
  by (simp add: less_f32_def f_lt_def)

lemma le_f32_iff: "x \<le> y \<longleftrightarrow> \<not> f_nan x \<and> \<not> f_nan y \<and> f_ord x \<le> f_ord y" for x y :: f32
  by (simp add: less_eq_f32_def f_le_def)

text \<open>The idiom \<^verbatim>\<open>v < 0.0f ? -v : v\<close>.\<close>

definition f_abs :: "f32 \<Rightarrow> f32" where
  "f_abs v = (if v < 0 then - v else v)"

declare f_abs_def [f32_eval]

lemma f_abs_nan [simp]: "f_nan (f_abs x) = f_nan x"
  by (simp add: f_abs_def)

lemma f_abs_ord: "\<not> f_nan x \<Longrightarrow> f_ord (f_abs x) = \<bar>f_ord x\<bar>"
  by (auto simp: f_abs_def less_f32_iff)

section \<open>Exact results\<close>

lemma round_bits_repr:
  assumes d: "0 < d" and q: "q < 2 ^ 24" and lt: "q * 2 ^ j < 2 ^ 277" and n: "n = q * 2 ^ j * d"
  shows "code_mag (round_bits n d) = q * 2 ^ j" and "round_bits n d < inf_code"
proof -
  have ex: "\<exists>k. code_mag k = q * 2 ^ j" using q
  proof (induction j arbitrary: q)
    case 0
    then have "code_mag (0 * 2 ^ 23 + q) = q * 2 ^ 0" by (intro code_mag_pack) auto
    then show ?case by (intro exI) simp
  next
    case (Suc j)
    show ?case
    proof (cases "q < 2 ^ 23")
      case True
      then have "2 * q < 2 ^ 24" by simp
      then obtain k where "code_mag k = 2 * q * 2 ^ j" using Suc.IH by blast
      then show ?thesis by (intro exI [of _ k]) simp
    next
      case False
      then have "code_mag (Suc j * 2 ^ 23 + q) = q * 2 ^ Suc j"
        using Suc.prems by (intro code_mag_pack) auto
      then show ?thesis by blast
    qed
  qed
  then obtain k where k: "code_mag k = q * 2 ^ j" by blast
  then have "code_mag k < code_mag inf_code" using lt by (simp only: code_mag_inf_code)
  then have kl: "k < inf_code" by simp
  have "round_bits n d = k" using d kl k n by (intro round_bits_exact) simp_all
  then show "code_mag (round_bits n d) = q * 2 ^ j" "round_bits n d < inf_code"
    using k kl by simp_all
qed

lemma f_mag_repr:
  assumes "\<not> f_nan x" and "\<not> f_inf x"
  obtains q e where "f_mag x = q * 2 ^ e" and "q < 2 ^ 24"
proof -
  obtain e q where "f_code x = e * 2 ^ 23 + q" "q < 2 ^ 24" "e = 0 \<or> 2 ^ 23 \<le> q"
    by (rule code_unpack)
  then have "f_mag x = q * 2 ^ e" unfolding f_mag_def by (simp only: code_mag_pack less_imp_le)
  then show ?thesis using that \<open>q < 2 ^ 24\<close> by blast
qed

lemma f_of_int_exact:
  assumes "\<bar>i\<bar> < 2 ^ 24"
  shows "f_ord (f_of_int i) = i * 2 ^ 149" and "\<not> f_nan (f_of_int i)" and "\<not> f_inf (f_of_int i)"
proof -
  define q where "q = nat \<bar>i\<bar>"
  have q: "q < 2 ^ 24" using assms by (simp add: q_def nat_less_iff)
  then have "q * 2 ^ 149 < 2 ^ 24 * 2 ^ 149" by simp
  also have "\<dots> < (2::nat) ^ 277" by simp
  finally have "q * 2 ^ 149 < 2 ^ 277" .
  note r = round_bits_repr [OF _ q this, of 1 "q * 2 ^ 149"]
  have "code_mag (round_bits (q * 2 ^ 149) 1) = q * 2 ^ 149" using r(1) by simp
  then show "f_ord (f_of_int i) = i * 2 ^ 149"
    by (simp add: f_of_int_def q_def [symmetric]) (simp add: q_def)
  show "\<not> f_nan (f_of_int i)" by (simp add: f_of_int_def)
  have "round_bits (q * 2 ^ 149) 1 < inf_code" using r(2) by simp
  then show "\<not> f_inf (f_of_int i)" by (simp add: f_of_int_def f_inf_def q_def)
qed

text \<open>Scaling by a power of two is exact while the magnitude stays finite and on the grid.\<close>

lemma f_mul_pow2:
  assumes "\<not> f_nan x" "\<not> f_inf x" and c: "\<not> f_nan c" "\<not> f_inf c" "\<not> f_sign c"
    and cm: "f_mag c = 2 ^ (149 + j)" and lt: "f_mag x * 2 ^ j < 2 ^ 277"
  shows "f_ord (x * c) = f_ord x * 2 ^ j" and "\<not> f_nan (x * c)" and "\<not> f_inf (x * c)"
proof -
  obtain q e where qe: "f_mag x = q * 2 ^ e" "q < 2 ^ 24" by (rule f_mag_repr [OF assms(1,2)])
  have prod: "f_mag x * f_mag c = q * 2 ^ (e + j) * 2 ^ 149"
    by (simp only: qe cm power_add mult_ac)
  have "q * 2 ^ (e + j) < 2 ^ 277" using lt by (simp add: qe power_add mult_ac)
  note r = round_bits_repr [OF _ qe(2) this prod]
  have eq: "x * c = f_mk (f_sign x) (round_bits (f_mag x * f_mag c) (2 ^ 149))"
    using assms by (simp add: times_f32_def f_mul_def Let_def)
  have "code_mag (round_bits (f_mag x * f_mag c) (2 ^ 149)) = f_mag x * 2 ^ j"
    using r(1) by (simp add: qe power_add mult_ac)
  then show "f_ord (x * c) = f_ord x * 2 ^ j"
    unfolding eq f_ord_mk_round by (simp add: f_ord_def)
  show "\<not> f_nan (x * c)" unfolding eq by simp
  show "\<not> f_inf (x * c)" unfolding eq using r(2) by (simp add: f_inf_def)
qed

lemma f_add_0_left: "\<not> f_nan x \<Longrightarrow> f_mag x \<noteq> 0 \<Longrightarrow> 0 + x = x"
proof -
  assume x: "\<not> f_nan x" "f_mag x \<noteq> 0"
  have "round_bits (f_mag x) 1 = f_code x"
    using x(1) by (intro round_bits_exact) (simp_all add: f_mag_def f_nan_def)
  moreover have "nat \<bar>f_ord x\<bar> = f_mag x" by (simp add: f_ord_abs)
  moreover have "f_ord x < 0 \<longleftrightarrow> f_sign x" using x(2) by (simp add: f_ord_def)
  moreover have "f_ord x \<noteq> 0" using x(2) by (simp add: f_ord_eq_0_iff)
  ultimately show ?thesis using x by (simp add: plus_f32_def f_add_def Let_def)
qed

section \<open>Monotone rounding\<close>

text \<open>The value of a rounded signed quotient, and the float operations that are one rounding.\<close>

definition rnd :: "int \<Rightarrow> nat \<Rightarrow> int" where
  "rnd s d = (if s < 0 then - int (code_mag (round_bits (nat (- s)) d))
              else int (code_mag (round_bits (nat s) d)))"

lemma round_bits_zero [simp]: "0 < d \<Longrightarrow> round_bits 0 d = 0"
  using round_bits_exact [of d 0 0] by simp

lemma rnd_mono: "0 < d \<Longrightarrow> s \<le> t \<Longrightarrow> rnd s d \<le> rnd t d"
proof -
  assume d: "0 < d" and st: "s \<le> t"
  have m: "round_bits u d \<le> round_bits v d" if "u \<le> v" for u v
    using round_bits_mono [OF d d, of u v] that d by simp
  have "0 \<le> int k" "- int k \<le> 0" for k by simp_all
  then show ?thesis
    using st m [of "nat s" "nat t"] m [of "nat (- t)" "nat (- s)"]
    by (auto simp: rnd_def nat_le_iff intro: order.trans [of _ 0])
qed

lemma rnd_exact:
  assumes "0 < d" "q < 2 ^ 24" "q * 2 ^ j < 2 ^ 277" "\<bar>v\<bar> = int (q * 2 ^ j)" "s = v * int d"
  shows "rnd s d = v"
proof -
  have "nat \<bar>s\<bar> = q * 2 ^ j * d" using assms(4,5) by (simp add: abs_mult nat_mult_distrib)
  then have "code_mag (round_bits (nat \<bar>s\<bar>) d) = q * 2 ^ j"
    using round_bits_repr(1) [OF assms(1-3)] by simp
  moreover have "s < 0 \<longleftrightarrow> v < 0" using assms(1,5) by (simp add: mult_less_0_iff)
  ultimately show ?thesis using assms(4) by (auto simp: rnd_def abs_if split: if_splits)
qed

lemma f_ord_add:
  assumes "\<not> f_nan a" "\<not> f_inf a" "\<not> f_nan b" "\<not> f_inf b"
  shows "f_ord (a + b) = rnd (f_ord a + f_ord b) 1" and "\<not> f_nan (a + b)"
proof -
  let ?s = "f_ord a + f_ord b"
  have e: "a + b = (if ?s = 0 then f_mk (f_sign a \<and> f_sign b) 0
      else f_mk (?s < 0) (round_bits (nat \<bar>?s\<bar>) 1))"
    using assms by (simp add: plus_f32_def f_add_def Let_def)
  show "f_ord (a + b) = rnd ?s 1"
    unfolding e by (cases "?s = 0"; cases "?s < 0") (simp_all only: if_True if_False f_mk_0
        f_ord_mk_round rnd_def, simp_all)
  show "\<not> f_nan (a + b)" unfolding e by simp
qed

end
