(* ===== verification/Hal.thy ===== *)
theory Hal
  imports Filum_Prelude Float32
begin

text \<open>
  The hardware abstraction of the shard, \<^verbatim>\<open>shard/hal/hal.h\<close>: a table of functions. Each works
  on an environment of type \<open>'e\<close>, the hardware and the other end of the radio link; an entry the
  code compares with \<^verbatim>\<open>NULL\<close> is an option.
\<close>

abbreviation FL_HAL_OK :: int where "FL_HAL_OK \<equiv> 0"
abbreviation FL_HAL_TIMEOUT :: int where "FL_HAL_TIMEOUT \<equiv> 1"
abbreviation FL_HAL_ERROR :: int where "FL_HAL_ERROR \<equiv> - 1"

text \<open>The arguments behind the format string of \<^verbatim>\<open>log\<close>.\<close>

datatype log_arg = Log_Int int | Log_Float f32 | Log_Str string

text \<open>\<^verbatim>\<open>lora_recv\<close> gets the buffer and \<^verbatim>\<open>*len\<close> as they are and gives them as it left them;
  \<^verbatim>\<open>nvs_read\<close> likewise. \<open>None\<close> is an access outside a buffer.\<close>

record 'e FLHal =
  hal_lora_send :: "bytes \<Rightarrow> u8 \<Rightarrow> 'e \<Rightarrow> (int \<times> 'e) option"
  hal_lora_recv :: "bytes \<Rightarrow> u8 \<Rightarrow> u32 \<Rightarrow> 'e \<Rightarrow> (int \<times> bytes \<times> u8 \<times> 'e) option"
  hal_lora_set_sf :: "(u8 \<Rightarrow> 'e \<Rightarrow> int \<times> 'e) option"
  hal_sleep_ms :: "u32 \<Rightarrow> 'e \<Rightarrow> 'e"
  hal_deep_sleep_rtc :: "(u32 \<Rightarrow> 'e \<Rightarrow> 'e) option"
  hal_get_tick_ms :: "'e \<Rightarrow> u32 \<times> 'e"
  hal_nvs_write :: "(u32 \<Rightarrow> bytes \<Rightarrow> nat \<Rightarrow> 'e \<Rightarrow> (int \<times> 'e) option) option"
  hal_nvs_read :: "(u32 \<Rightarrow> bytes \<Rightarrow> nat \<Rightarrow> 'e \<Rightarrow> (int \<times> bytes \<times> 'e) option) option"
  hal_log :: "(string \<Rightarrow> log_arg list \<Rightarrow> 'e \<Rightarrow> 'e) option"

definition hal_print :: "'e FLHal \<Rightarrow> string \<Rightarrow> log_arg list \<Rightarrow> 'e \<Rightarrow> 'e" where
  "hal_print hal fmt args e = (case hal_log hal of None \<Rightarrow> e | Some l \<Rightarrow> l fmt args e)"

end
