(* ===== verification/Filum_Error.thy ===== *)
theory Filum_Error
  imports Filum_Prelude
begin

text \<open>
  Error codes (\<^verbatim>\<open>fl_error.h\<close>, \<^verbatim>\<open>fl_error.c\<close>), library version
  (\<^verbatim>\<open>fl_version.h\<close>, \<^verbatim>\<open>fl_version.c\<close>) and the compile-time capacities of
  \<^verbatim>\<open>fl_config.h\<close>.
\<close>

section \<open>Error codes\<close>

datatype FLError =
    FL_OK | FL_AGAIN | FL_TIMEOUT | FL_PENDING
  | FL_ERR | FL_ERR_INVALID_ARG | FL_ERR_BUFFER_TOO_SMALL | FL_ERR_CAPACITY | FL_ERR_CRC
  | FL_ERR_BAD_MAGIC | FL_ERR_AUTH | FL_ERR_NO_SESSION | FL_ERR_HAL | FL_ERR_NVS
  | FL_ERR_POOL_FULL | FL_ERR_DUPLICATE | FL_ERR_TRANSPORT | FL_ERR_STATE | FL_ERR_DISABLED

text \<open>The enumerator values; C code passes them around as \<^verbatim>\<open>int\<close>.\<close>

fun err_code :: "FLError \<Rightarrow> int" where
  "err_code FL_OK = 0"
| "err_code FL_AGAIN = 1"
| "err_code FL_TIMEOUT = 2"
| "err_code FL_PENDING = 3"
| "err_code FL_ERR = -1"
| "err_code FL_ERR_INVALID_ARG = -2"
| "err_code FL_ERR_BUFFER_TOO_SMALL = -3"
| "err_code FL_ERR_CAPACITY = -4"
| "err_code FL_ERR_CRC = -5"
| "err_code FL_ERR_BAD_MAGIC = -6"
| "err_code FL_ERR_AUTH = -7"
| "err_code FL_ERR_NO_SESSION = -8"
| "err_code FL_ERR_HAL = -9"
| "err_code FL_ERR_NVS = -10"
| "err_code FL_ERR_POOL_FULL = -11"
| "err_code FL_ERR_DUPLICATE = -12"
| "err_code FL_ERR_TRANSPORT = -13"
| "err_code FL_ERR_STATE = -14"
| "err_code FL_ERR_DISABLED = -15"

definition fl_strerror :: "int \<Rightarrow> string" where
  "fl_strerror err =
     (if err = err_code FL_OK then ''FL_OK''
      else if err = err_code FL_AGAIN then ''FL_AGAIN''
      else if err = err_code FL_TIMEOUT then ''FL_TIMEOUT''
      else if err = err_code FL_PENDING then ''FL_PENDING''
      else if err = err_code FL_ERR then ''FL_ERR''
      else if err = err_code FL_ERR_INVALID_ARG then ''FL_ERR_INVALID_ARG''
      else if err = err_code FL_ERR_BUFFER_TOO_SMALL then ''FL_ERR_BUFFER_TOO_SMALL''
      else if err = err_code FL_ERR_CAPACITY then ''FL_ERR_CAPACITY''
      else if err = err_code FL_ERR_CRC then ''FL_ERR_CRC''
      else if err = err_code FL_ERR_BAD_MAGIC then ''FL_ERR_BAD_MAGIC''
      else if err = err_code FL_ERR_AUTH then ''FL_ERR_AUTH''
      else if err = err_code FL_ERR_NO_SESSION then ''FL_ERR_NO_SESSION''
      else if err = err_code FL_ERR_HAL then ''FL_ERR_HAL''
      else if err = err_code FL_ERR_NVS then ''FL_ERR_NVS''
      else if err = err_code FL_ERR_POOL_FULL then ''FL_ERR_POOL_FULL''
      else if err = err_code FL_ERR_DUPLICATE then ''FL_ERR_DUPLICATE''
      else if err = err_code FL_ERR_TRANSPORT then ''FL_ERR_TRANSPORT''
      else if err = err_code FL_ERR_STATE then ''FL_ERR_STATE''
      else if err = err_code FL_ERR_DISABLED then ''FL_ERR_DISABLED''
      else ''FL_ERR_UNKNOWN'')"

definition fl_ok :: "FLError \<Rightarrow> bool" where
  "fl_ok err \<longleftrightarrow> 0 \<le> err_code err"

lemma fl_ok_iff: "fl_ok e \<longleftrightarrow> e \<in> {FL_OK, FL_AGAIN, FL_TIMEOUT, FL_PENDING}"
  by (cases e) (simp_all add: fl_ok_def)

lemma err_code_inject [simp]: "err_code a = err_code b \<longleftrightarrow> a = b"
  by (cases a; cases b) simp_all

text \<open>The codes order the errors, so that sets of them can be sorted and compared.\<close>

instantiation FLError :: linorder
begin

definition less_eq_FLError_def: "a \<le> b \<longleftrightarrow> err_code a \<le> err_code b"
definition less_FLError_def: "a < b \<longleftrightarrow> err_code a < err_code b"

instance
proof
  fix a b c :: FLError
  show "(a < b) = (a \<le> b \<and> \<not> b \<le> a)"
    by (auto simp: less_eq_FLError_def less_FLError_def)
  show "a \<le> a" by (simp add: less_eq_FLError_def)
  show "a \<le> b \<Longrightarrow> b \<le> c \<Longrightarrow> a \<le> c" by (simp add: less_eq_FLError_def)
  show "a \<le> b \<Longrightarrow> b \<le> a \<Longrightarrow> a = b" by (simp add: less_eq_FLError_def flip: err_code_inject)
  show "a \<le> b \<or> b \<le> a" by (auto simp: less_eq_FLError_def)
qed

end

lemma fl_ok_ge: "fl_ok e \<longleftrightarrow> FL_OK \<le> e"
  by (simp add: fl_ok_def less_eq_FLError_def)

section \<open>Version\<close>

definition FL_VERSION_ENCODE :: "u32 \<Rightarrow> u32 \<Rightarrow> u32 \<Rightarrow> u32" where
  "FL_VERSION_ENCODE maj mnr pat = (push_bit 16 maj OR push_bit 8 mnr) OR pat"

text \<open>The three output pointers may be NULL (\<open>None\<close>).\<close>

definition fl_version ::
  "u32 option \<Rightarrow> u32 option \<Rightarrow> u32 option \<Rightarrow> u32 \<times> u32 option \<times> u32 option \<times> u32 option" where
  "fl_version major minor patch =
     (FL_VERSION_ENCODE 0 2 0, map_option (\<lambda>_. 0) major, map_option (\<lambda>_. 2) minor,
      map_option (\<lambda>_. 0) patch)"

definition fl_version_string :: string where
  "fl_version_string = ''0.2.0''"

definition fl_version_compatible :: int where
  "fl_version_compatible = (if (0 :: int) = 0 then 1 else 0)"

lemma unat_FL_VERSION_ENCODE:
  assumes "unat maj < 2 ^ 16" "unat mnr < 2 ^ 8" "unat pat < 2 ^ 8"
  shows "unat (FL_VERSION_ENCODE maj mnr pat) = unat maj * 2 ^ 16 + unat mnr * 2 ^ 8 + unat pat"
proof -
  have b: "\<not> bit mnr n" if "8 \<le> n" for n
  proof -
    have "take_bit 8 (unat mnr) = unat mnr" using assms(2) by (simp add: take_bit_nat_eq_self)
    then have "\<not> bit (unat mnr) n" using that by (metis bit_take_bit_iff not_le)
    then show ?thesis by (auto simp: bit_unsigned_iff dest: bit_imp_le_length)
  qed
  have c: "\<not> bit pat n" if "8 \<le> n" for n
  proof -
    have "take_bit 8 (unat pat) = unat pat" using assms(3) by (simp add: take_bit_nat_eq_self)
    then have "\<not> bit (unat pat) n" using that by (metis bit_take_bit_iff not_le)
    then show ?thesis by (auto simp: bit_unsigned_iff dest: bit_imp_le_length)
  qed
  have "(push_bit 16 maj OR push_bit 8 mnr) + pat = (push_bit 16 maj OR push_bit 8 mnr) OR pat"
    by (rule disjunctive_add) (auto simp: bit_simps c)
  moreover have "push_bit 16 maj + push_bit 8 mnr = push_bit 16 maj OR push_bit 8 mnr"
    by (rule disjunctive_add) (auto simp: bit_simps b)
  ultimately have "FL_VERSION_ENCODE maj mnr pat = push_bit 16 maj + push_bit 8 mnr + pat"
    by (simp add: FL_VERSION_ENCODE_def)
  moreover have "unat (push_bit 16 maj) = unat maj * 2 ^ 16"
    using assms by (simp add: push_bit_eq_mult unat_word_ariths)
  moreover have "unat (push_bit 8 mnr) = unat mnr * 2 ^ 8"
    using assms by (simp add: push_bit_eq_mult unat_word_ariths)
  ultimately show ?thesis using assms by (simp add: unat_word_ariths)
qed

section \<open>Capacities\<close>

datatype preset = TINY | SMALL | LARGE | DEFAULT

record capacities =
  cap_params :: nat
  cap_layers :: nat
  cap_sparse :: nat
  cap_median_shards :: nat
  cap_pool_shards :: nat
  cap_pool_frags :: nat

fun fl_config :: "preset \<Rightarrow> capacities" where
  "fl_config TINY = \<lparr>cap_params = 64, cap_layers = 4, cap_sparse = 32,
     cap_median_shards = 16, cap_pool_shards = 64, cap_pool_frags = 32\<rparr>"
| "fl_config SMALL = \<lparr>cap_params = 256, cap_layers = 8, cap_sparse = 128,
     cap_median_shards = 32, cap_pool_shards = 64, cap_pool_frags = 32\<rparr>"
| "fl_config LARGE = \<lparr>cap_params = 16384, cap_layers = 32, cap_sparse = 2048,
     cap_median_shards = 64, cap_pool_shards = 64, cap_pool_frags = 32\<rparr>"
| "fl_config DEFAULT = \<lparr>cap_params = 4096, cap_layers = 16, cap_sparse = 1024,
     cap_median_shards = 64, cap_pool_shards = 64, cap_pool_frags = 32\<rparr>"

definition FL_RAM_MODEL :: "capacities \<Rightarrow> nat" where
  "FL_RAM_MODEL c = cap_params c * 8 + cap_layers c * 16 + 16"

definition FL_RAM_SHARD :: "capacities \<Rightarrow> nat" where
  "FL_RAM_SHARD c = cap_sparse c * 6 + cap_params c * 4 + 224 + 64"

definition FL_RAM_AGGREGATOR :: "capacities \<Rightarrow> nat" where
  "FL_RAM_AGGREGATOR c = cap_median_shards c * cap_params c * 4 + cap_params c * 8 + 16"

text \<open>The development is over the default build.\<close>

abbreviation FL_MODEL_MAX_PARAMS :: nat where "FL_MODEL_MAX_PARAMS \<equiv> 4096"
abbreviation FL_MODEL_MAX_LAYERS :: nat where "FL_MODEL_MAX_LAYERS \<equiv> 16"
abbreviation FL_SPARSE_MAX_ENTRIES :: nat where "FL_SPARSE_MAX_ENTRIES \<equiv> 1024"
abbreviation FL_AGG_MEDIAN_MAX_SHARDS :: nat where "FL_AGG_MEDIAN_MAX_SHARDS \<equiv> 64"
abbreviation FL_POOL_MAX_SHARDS :: nat where "FL_POOL_MAX_SHARDS \<equiv> 64"
abbreviation FL_POOL_MAX_FRAGS :: nat where "FL_POOL_MAX_FRAGS \<equiv> 32"

lemma default_capacities:
  "fl_config DEFAULT = \<lparr>cap_params = FL_MODEL_MAX_PARAMS, cap_layers = FL_MODEL_MAX_LAYERS,
     cap_sparse = FL_SPARSE_MAX_ENTRIES, cap_median_shards = FL_AGG_MEDIAN_MAX_SHARDS,
     cap_pool_shards = FL_POOL_MAX_SHARDS, cap_pool_frags = FL_POOL_MAX_FRAGS\<rparr>"
  by simp

end
