(* ===== verification/Frame.thy ===== *)
theory Frame
  imports Filum_Error Float32
begin

text \<open>
  The wire format: the CRC (\<^verbatim>\<open>fl_crc.c\<close>), the packed frame and its payload
  structures (\<^verbatim>\<open>fl_frame.h\<close>), encoding and decoding (\<^verbatim>\<open>fl_frame.c\<close>).
\<close>

section \<open>CRC-16/CCITT-FALSE\<close>

definition crc_bit :: "u16 \<Rightarrow> u16" where
  "crc_bit crc =
     (if crc AND 0x8000 \<noteq> 0 then push_bit 1 crc XOR 0x1021 else push_bit 1 crc)"

definition crc_byte :: "u16 \<Rightarrow> u8 \<Rightarrow> u16" where
  "crc_byte crc b = (crc_bit ^^ 8) (crc XOR push_bit 8 (ucast b))"

definition fl_crc16 :: "bytes \<Rightarrow> u16" where
  "fl_crc16 data = foldl crc_byte 0xFFFF data"

lemmas crc_eval = fl_crc16_def crc_byte_def crc_bit_def funpow_8

text \<open>What error detection needs of a shift register: each step loses no information,
  about the state or about the symbol.\<close>

locale shift_register =
  fixes step :: "'s \<Rightarrow> 'b \<Rightarrow> 's"
  assumes inj_state: "step s b = step t b \<Longrightarrow> s = t"
    and inj_symbol: "step s a = step s b \<Longrightarrow> a = b"
begin

lemma foldl_inj_state: "foldl step s xs = foldl step t xs \<Longrightarrow> s = t"
  by (induction xs arbitrary: s t) (auto dest: inj_state)

lemma single_symbol_error:
  assumes "i < length xs" and "x \<noteq> xs ! i"
  shows "foldl step s (xs[i := x]) \<noteq> foldl step s xs"
proof
  assume eq: "foldl step s (xs[i := x]) = foldl step s xs"
  let ?p = "foldl step s (take i xs)"
  have "foldl step (step ?p x) (drop (Suc i) xs) = foldl step (step ?p (xs ! i)) (drop (Suc i) xs)"
    using eq assms(1) id_take_nth_drop [OF assms(1)]
    by (metis foldl_Cons foldl_append upd_conv_take_nth_drop)
  then have "step ?p x = step ?p (xs ! i)" by (rule foldl_inj_state)
  then show False using inj_symbol assms(2) by blast
qed

end

locale burst_register = shift_register +
  assumes inj_pair: "step (step s a) b = step (step s a') b' \<Longrightarrow> a = a' \<and> b = b'"
begin

lemma adjacent_symbols_error:
  assumes "Suc i < length xs" and "x \<noteq> xs ! i \<or> y \<noteq> xs ! Suc i"
  shows "foldl step s (xs[i := x, Suc i := y]) \<noteq> foldl step s xs"
proof
  assume eq: "foldl step s (xs[i := x, Suc i := y]) = foldl step s xs"
  let ?p = "foldl step s (take i xs)" and ?r = "drop (Suc (Suc i)) xs"
  have xs: "xs = take i xs @ xs ! i # xs ! Suc i # ?r"
    using assms(1) by (metis Cons_nth_drop_Suc Suc_lessD append_take_drop_id)
  have ys: "xs[i := x, Suc i := y] = take i xs @ x # y # ?r"
    using assms(1) by (subst xs) (simp add: list_update_append min_def)
  have "foldl step (step (step ?p x) y) ?r = foldl step (step (step ?p (xs ! i)) (xs ! Suc i)) ?r"
    using eq by (subst (asm) ys, subst (asm) (3) xs) simp
  then have "step (step ?p x) y = step (step ?p (xs ! i)) (xs ! Suc i)" by (rule foldl_inj_state)
  then show False using inj_pair assms(2) by blast
qed

end

lemma crc_bit_if: "crc_bit x = (if bit x 15 then push_bit 1 x XOR 0x1021 else push_bit 1 x)"
proof -
  have "(0x8000 :: u16) = 2 ^ 15" by simp
  then have "x AND 0x8000 \<noteq> 0 \<longleftrightarrow> bit x 15" by (metis and_exp_eq_0_iff_not_bit)
  then show ?thesis by (simp add: crc_bit_def)
qed

lemma bit_push_bit_1: "bit (push_bit 1 (x :: u16)) n \<longleftrightarrow> 0 < n \<and> n < 16 \<and> bit x (n - 1)"
  by (auto simp only: bit_push_bit_iff possible_bit_word len_of_numeral_defs)

lemma crc_bit_bit0: "bit (crc_bit x) 0 \<longleftrightarrow> bit x 15"
proof -
  have "bit (0x1021 :: u16) 0" by simp
  then show ?thesis
    unfolding crc_bit_if by (simp only: bit_xor_iff bit_push_bit_1 split: if_split) blast
qed

lemma push_bit_1_inj:
  assumes "push_bit 1 x = push_bit 1 (y :: u16)" and b15: "bit x 15 \<longleftrightarrow> bit y 15"
  shows "x = y"
proof (rule bit_word_eqI)
  fix n assume n: "n < LENGTH(16)"
  have "bit (push_bit 1 x) (Suc n) \<longleftrightarrow> bit (push_bit 1 y) (Suc n)" using assms(1) by simp
  then show "bit x n \<longleftrightarrow> bit y n"
    unfolding bit_push_bit_1 using n b15 by (cases "n = 15") auto
qed

lemma crc_bit_inj: "crc_bit x = crc_bit y \<Longrightarrow> x = y"
proof -
  assume eq: "crc_bit x = crc_bit y"
  then have b15: "bit x 15 \<longleftrightarrow> bit y 15" by (metis crc_bit_bit0)
  have "push_bit 1 x = push_bit 1 y"
  proof (cases "bit x 15")
    case True
    with eq b15 have "(push_bit 1 x XOR 0x1021) XOR 0x1021 = (push_bit 1 y XOR 0x1021) XOR 0x1021"
      by (simp only: crc_bit_if if_True)
    then show ?thesis by (simp only: xor.assoc xor_self_eq xor.right_neutral)
  next
    case False
    with eq b15 show ?thesis by (simp only: crc_bit_if if_False)
  qed
  then show ?thesis using b15 by (rule push_bit_1_inj)
qed

lemma crc_bit_xor: "crc_bit (x XOR y) = crc_bit x XOR crc_bit y"
proof -
  have d: "push_bit 1 (x XOR y) = push_bit 1 x XOR push_bit 1 y" by (rule push_bit_xor)
  show ?thesis unfolding crc_bit_if d bit_xor_iff
    by (cases "bit x 15"; cases "bit y 15") (simp_all add: ac_simps flip: xor.assoc)
qed

lemma crc_bits_inj: "(crc_bit ^^ n) x = (crc_bit ^^ n) y \<Longrightarrow> x = y"
  by (induction n) (auto dest: crc_bit_inj)

lemma crc_bits_xor: "(crc_bit ^^ n) (x XOR y) = (crc_bit ^^ n) x XOR (crc_bit ^^ n) y"
  by (induction n) (simp_all add: crc_bit_xor)

lemma crc_bits_0 [simp]: "(crc_bit ^^ n) 0 = 0"
  by (induction n) (simp_all add: crc_bit_def)

text \<open>If the low bits of the register are clear after \<open>n\<close> steps, no step has fed back.\<close>

lemma crc_bits_no_feedback:
  "n \<le> 16 \<Longrightarrow> (\<And>k. k < n \<Longrightarrow> \<not> bit ((crc_bit ^^ n) x) k) \<Longrightarrow> (crc_bit ^^ n) x = push_bit n x"
proof (induction n)
  case 0
  then show ?case by simp
next
  case (Suc n)
  let ?y = "(crc_bit ^^ n) x"
  have "\<not> bit (crc_bit ?y) 0" using Suc.prems(2) [of 0] by simp
  then have "\<not> bit ?y 15" unfolding crc_bit_bit0 .
  then have y: "crc_bit ?y = push_bit 1 ?y" unfolding crc_bit_if by (rule if_not_P)
  have "\<not> bit ?y k" if "k < n" for k
    using Suc.prems(2) [of "Suc k"] Suc.prems(1) that
    by (simp only: funpow.simps o_apply y bit_push_bit_1) auto
  then have "?y = push_bit n x" using Suc.prems(1) by (intro Suc.IH) auto
  with y show ?case by (simp only: funpow.simps o_apply push_bit_push_bit plus_1_eq_Suc)
qed

lemma crc_byte_inj_state: "crc_byte s b = crc_byte t b \<Longrightarrow> s = t"
  unfolding crc_byte_def by (drule crc_bits_inj) simp

lemma crc_byte_inj_symbol: "crc_byte s a = crc_byte s b \<Longrightarrow> a = b"
  unfolding crc_byte_def by (drule crc_bits_inj) (simp only: xor_left_cancel ucast_push8_inj)

lemma crc_byte_inj_pair:
  assumes "crc_byte (crc_byte s a) b = crc_byte (crc_byte s a') b'"
  shows "a = a' \<and> b = b'"
proof -
  let ?A = "push_bit 8 (ucast (a XOR a')) :: u16" and ?B = "push_bit 8 (ucast (b XOR b')) :: u16"
  have "crc_byte s a XOR push_bit 8 (ucast b) = crc_byte s a' XOR push_bit 8 (ucast b')"
    by (rule crc_bits_inj [of 8]) (use assms in \<open>simp only: crc_byte_def\<close>)
  then have "crc_byte s a XOR crc_byte s a' = ?B"
    by (simp only: xor_swap [of "crc_byte s a"] ucast_push8_xor)
  moreover have "crc_byte s a XOR crc_byte s a'
      = (crc_bit ^^ 8) ((s XOR push_bit 8 (ucast a)) XOR (s XOR push_bit 8 (ucast a')))"
    by (simp only: crc_byte_def crc_bits_xor)
  moreover have "(s XOR push_bit 8 (ucast a)) XOR (s XOR push_bit 8 (ucast a')) = ?A"
    by (simp only: xor_common ucast_push8_xor)
  ultimately have AB: "(crc_bit ^^ 8) ?A = ?B" by simp
  have "(crc_bit ^^ 8) ?A = push_bit 8 ?A"
    by (rule crc_bits_no_feedback) (simp_all only: AB bit_push_bit_iff, simp_all)
  also have "push_bit 8 ?A = 0" by (rule bit_word_eqI) (auto simp: bit_simps)
  finally have "(crc_bit ^^ 8) ?A = (crc_bit ^^ 8) 0" by (simp only: crc_bits_0)
  then have A: "?A = 0" by (rule crc_bits_inj)
  then have B: "?B = 0" using AB by (simp only: crc_bits_0)
  have z: "(0 :: u16) = push_bit 8 (ucast (0 :: u8))" by simp
  show ?thesis using A B by (simp only: z ucast_push8_inj xor_eq_0_iff)
qed

interpretation crc: burst_register crc_byte
  by unfold_locales (fact crc_byte_inj_state crc_byte_inj_symbol crc_byte_inj_pair)+

section \<open>The packed frame\<close>

abbreviation FL_MAGIC :: u16 where "FL_MAGIC \<equiv> 0x464C"
abbreviation FL_HEADER_SIZE :: nat where "FL_HEADER_SIZE \<equiv> 10"
abbreviation FL_PAYLOAD_MAX :: nat where "FL_PAYLOAD_MAX \<equiv> 214"
abbreviation FL_FRAME_MAX_SIZE :: nat where "FL_FRAME_MAX_SIZE \<equiv> 224"
abbreviation FL_SHARD_ID_HERALD :: u16 where "FL_SHARD_ID_HERALD \<equiv> 0xFFFF"
abbreviation FL_ROUND_ID_NONE :: u8 where "FL_ROUND_ID_NONE \<equiv> 0xFF"

text \<open>Frame types. The field of the frame is a byte; a byte that is no enumerator takes the
  \<^verbatim>\<open>default\<close> branch of every \<^verbatim>\<open>switch\<close>.\<close>

datatype FLFrameType =
    FL_FRAME_BEACON | FL_FRAME_DELTA | FL_FRAME_UPDATE | FL_FRAME_ACK | FL_FRAME_ROUND_CLOSE
  | FL_FRAME_HANDSHAKE | FL_FRAME_HANDSHAKE_ACK

fun type_code :: "FLFrameType \<Rightarrow> u8" where
  "type_code FL_FRAME_BEACON = 1"
| "type_code FL_FRAME_DELTA = 2"
| "type_code FL_FRAME_UPDATE = 3"
| "type_code FL_FRAME_ACK = 4"
| "type_code FL_FRAME_ROUND_CLOSE = 5"
| "type_code FL_FRAME_HANDSHAKE = 6"
| "type_code FL_FRAME_HANDSHAKE_ACK = 7"

definition frame_type_of :: "u8 \<Rightarrow> FLFrameType option" where
  "frame_type_of b =
     (if b = 1 then Some FL_FRAME_BEACON else if b = 2 then Some FL_FRAME_DELTA
      else if b = 3 then Some FL_FRAME_UPDATE else if b = 4 then Some FL_FRAME_ACK
      else if b = 5 then Some FL_FRAME_ROUND_CLOSE else if b = 6 then Some FL_FRAME_HANDSHAKE
      else if b = 7 then Some FL_FRAME_HANDSHAKE_ACK else None)"

lemma frame_type_of_code [simp]: "frame_type_of (type_code t) = Some t"
  by (cases t) (simp_all add: frame_type_of_def)

fun fl_frame_type_str :: "FLFrameType option \<Rightarrow> string" where
  "fl_frame_type_str (Some FL_FRAME_BEACON) = ''BEACON''"
| "fl_frame_type_str (Some FL_FRAME_DELTA) = ''DELTA''"
| "fl_frame_type_str (Some FL_FRAME_UPDATE) = ''UPDATE''"
| "fl_frame_type_str (Some FL_FRAME_ACK) = ''ACK''"
| "fl_frame_type_str (Some FL_FRAME_ROUND_CLOSE) = ''ROUND_CLOSE''"
| "fl_frame_type_str (Some FL_FRAME_HANDSHAKE) = ''HANDSHAKE''"
| "fl_frame_type_str (Some FL_FRAME_HANDSHAKE_ACK) = ''HANDSHAKE_ACK''"
| "fl_frame_type_str None = ''UNKNOWN''"

record FLFrame =
  fr_magic :: u16
  fr_type :: u8
  fr_shard_id :: u16
  fr_round_id :: u8
  fr_frag_index :: u8
  fr_frag_total :: u8
  fr_crc16 :: u16
  fr_payload :: bytes

text \<open>The bytes of the packed struct, on the little-endian targets.\<close>

definition frame_head :: "FLFrame \<Rightarrow> bytes" where
  "frame_head f = le16 (fr_magic f) @ [fr_type f] @ le16 (fr_shard_id f)
     @ [fr_round_id f, fr_frag_index f, fr_frag_total f]"

definition frame_bytes :: "FLFrame \<Rightarrow> bytes" where
  "frame_bytes f = frame_head f @ le16 (fr_crc16 f) @ fr_payload f"

fun frame_of_bytes :: "bytes \<Rightarrow> FLFrame option" where
  "frame_of_bytes (a0 # a1 # a2 # a3 # a4 # a5 # a6 # a7 # a8 # a9 # p) =
     Some \<lparr>fr_magic = of_le16 a0 a1, fr_type = a2, fr_shard_id = of_le16 a3 a4,
       fr_round_id = a5, fr_frag_index = a6, fr_frag_total = a7, fr_crc16 = of_le16 a8 a9,
       fr_payload = p\<rparr>"
| "frame_of_bytes _ = None"

definition wf_frame :: "FLFrame \<Rightarrow> bool" where
  "wf_frame f \<longleftrightarrow> length (fr_payload f) = FL_PAYLOAD_MAX"

lemma length_frame_head [simp]: "length (frame_head f) = 8"
  by (simp add: frame_head_def)

lemma length_frame_bytes [simp]: "length (frame_bytes f) = 10 + length (fr_payload f)"
  by (simp add: frame_bytes_def)

lemma frame_of_bytes_frame_bytes [simp]: "frame_of_bytes (frame_bytes f) = Some f"
  by (simp add: frame_bytes_def frame_head_def le16_def)

lemma frame_of_bytes_split:
  assumes "10 \<le> length bs"
  obtains f where "frame_of_bytes bs = Some f" and "frame_bytes f = bs"
proof -
  obtain a0 a1 a2 a3 a4 a5 a6 a7 a8 a9 p where bs: "bs = a0 # a1 # a2 # a3 # a4 # a5 # a6 # a7 # a8 # a9 # p"
    using assms by (auto simp: numeral_eq_Suc Suc_le_length_iff)
  let ?f = "\<lparr>fr_magic = of_le16 a0 a1, fr_type = a2, fr_shard_id = of_le16 a3 a4,
       fr_round_id = a5, fr_frag_index = a6, fr_frag_total = a7, fr_crc16 = of_le16 a8 a9,
       fr_payload = p\<rparr>"
  have "frame_bytes ?f = bs" by (simp add: frame_bytes_def frame_head_def bs)
  then show ?thesis using that [of ?f] by (simp add: bs)
qed

text \<open>\<^verbatim>\<open>frame_crc\<close>: the eight header bytes, then \<open>n\<close> bytes of the payload array,
  each read checked.\<close>

definition frame_crc :: "FLFrame \<Rightarrow> nat \<Rightarrow> u16 option" where
  "frame_crc f n =
     (do { crc \<leftarrow> for_lt 8 (\<lambda>i crc. do { b \<leftarrow> rd (frame_head f) i; Some (crc_byte crc b) }) 0xFFFF;
           for_lt n (\<lambda>i crc. do { b \<leftarrow> rd (fr_payload f) i; Some (crc_byte crc b) }) crc })"

lemma for_lt_crc:
  "n \<le> length bs \<Longrightarrow>
     for_lt n (\<lambda>i crc. do { b \<leftarrow> rd bs i; Some (crc_byte crc b) }) c
       = Some (foldl crc_byte c (take n bs))"
  by (induction n) (auto simp: for_lt_Suc take_Suc_conv_app_nth)

lemma frame_crc_fl_crc16:
  "frame_crc f n =
     (if n \<le> length (fr_payload f) then Some (fl_crc16 (frame_head f @ take n (fr_payload f)))
      else None)"
proof (cases "n \<le> length (fr_payload f)")
  case True
  then show ?thesis by (simp add: frame_crc_def for_lt_crc fl_crc16_def)
next
  case False
  have "for_lt n (\<lambda>i crc. do { b \<leftarrow> rd (fr_payload f) i; Some (crc_byte crc b) }) c = None" for c
    by (rule for_lt_None [where j = "length (fr_payload f)"]) (use False in auto)
  with False show ?thesis by (simp add: frame_crc_def for_lt_crc)
qed

section \<open>Encoding and decoding\<close>

text \<open>A pointer argument that may be \<^verbatim>\<open>NULL\<close> is an \<open>option\<close>. The result pairs the error code
  with the object behind the frame pointer after the call.\<close>

type_synonym 'a ptr = "'a option"

definition fl_frame_encode ::
  "FLFrame ptr \<Rightarrow> FLFrameType \<Rightarrow> u16 \<Rightarrow> u8 \<Rightarrow> u8 \<Rightarrow> u8 \<Rightarrow> bytes ptr \<Rightarrow> u8
     \<Rightarrow> (FLError \<times> FLFrame ptr) option" where
  "fl_frame_encode frame type shard_id round_id frag_index frag_total payload payload_len =
     (case frame of
        None \<Rightarrow> Some (FL_ERR_INVALID_ARG, None)
      | Some f \<Rightarrow>
          if FL_PAYLOAD_MAX < unat payload_len then Some (FL_ERR_BUFFER_TOO_SMALL, Some f)
          else do {
            let f1 = f\<lparr>fr_magic := FL_MAGIC, fr_type := type_code type, fr_shard_id := shard_id,
              fr_round_id := round_id, fr_frag_index := frag_index, fr_frag_total := frag_total,
              fr_payload := replicate FL_PAYLOAD_MAX 0\<rparr>;
            p \<leftarrow> (case payload of
                    None \<Rightarrow> Some (fr_payload f1)
                  | Some src \<Rightarrow>
                      if 0 < payload_len then do {
                        bs \<leftarrow> rd_slice src 0 (unat payload_len);
                        memcpy_at (fr_payload f1) 0 bs }
                      else Some (fr_payload f1));
            let f2 = f1\<lparr>fr_payload := p\<rparr>;
            crc \<leftarrow> frame_crc f2 (unat payload_len);
            Some (FL_OK, Some (f2\<lparr>fr_crc16 := crc\<rparr>)) })"

definition fl_frame_decode ::
  "bytes ptr \<Rightarrow> nat \<Rightarrow> FLFrame ptr \<Rightarrow> (FLError \<times> FLFrame ptr) option" where
  "fl_frame_decode raw raw_len frame =
     (case (raw, frame) of
        (Some src, Some f) \<Rightarrow>
          if raw_len < FL_HEADER_SIZE then Some (FL_ERR_CAPACITY, Some f)
          else do {
            bs \<leftarrow> rd_slice src 0 (if raw_len < FL_FRAME_MAX_SIZE then raw_len else FL_FRAME_MAX_SIZE);
            obj \<leftarrow> memcpy_at (frame_bytes f) 0 bs;
            f1 \<leftarrow> frame_of_bytes obj;
            if fr_magic f1 \<noteq> FL_MAGIC then Some (FL_ERR_BAD_MAGIC, Some f1)
            else do {
              let payload_len = unat (of_nat (raw_len - FL_HEADER_SIZE) :: u8);
              expected \<leftarrow> frame_crc f1 payload_len;
              if fr_crc16 f1 \<noteq> expected then Some (FL_ERR_CRC, Some f1)
              else Some (FL_OK, Some f1) } }
      | _ \<Rightarrow> Some (FL_ERR_INVALID_ARG, frame))"

section \<open>What a receiver accepts\<close>

text \<open>The abstract specification of decoding: a status of the received bytes alone.\<close>

definition wire_data :: "bytes \<Rightarrow> bytes" where
  "wire_data w = take 8 w @ drop 10 w"

definition wire_status :: "bytes \<Rightarrow> FLError" where
  "wire_status w =
     (if length w < FL_HEADER_SIZE then FL_ERR_CAPACITY
      else if of_le16 (w ! 0) (w ! 1) \<noteq> FL_MAGIC then FL_ERR_BAD_MAGIC
      else if of_le16 (w ! 8) (w ! 9) \<noteq> fl_crc16 (wire_data w) then FL_ERR_CRC
      else FL_OK)"

lemma frame_bytes_nth:
  "frame_bytes f ! 0 = ucast (fr_magic f)" "frame_bytes f ! 1 = ucast (drop_bit 8 (fr_magic f))"
  "frame_bytes f ! 8 = ucast (fr_crc16 f)" "frame_bytes f ! 9 = ucast (drop_bit 8 (fr_crc16 f))"
  by (simp_all add: frame_bytes_def frame_head_def le16_def nth_append)

lemma frame_bytes_parts: "take 8 (frame_bytes f) = frame_head f" "drop 10 (frame_bytes f) = fr_payload f"
  by (simp_all add: frame_bytes_def)

text \<open>The frame the receiver holds after the copy: \<open>w\<close> over the old contents of the buffer.\<close>

lemma decode_copy:
  assumes "10 \<le> n" "n \<le> 224" "n \<le> length src" "wf_frame f"
  obtains g where "memcpy_at (frame_bytes f) 0 (take n src) = Some (frame_bytes g)"
    and "wf_frame g" and "frame_bytes g = take n src @ drop n (frame_bytes f)"
proof -
  let ?bs = "take n src @ drop n (frame_bytes f)"
  have len: "length ?bs = 224" using assms by (simp add: wf_frame_def)
  then have "10 \<le> length ?bs" by simp
  then obtain g where g: "frame_of_bytes ?bs = Some g" "frame_bytes g = ?bs"
    by (rule frame_of_bytes_split)
  have "wf_frame g"
    using arg_cong [OF g(2), of length] len by (simp add: wf_frame_def)
  moreover have "memcpy_at (frame_bytes f) 0 (take n src) = Some ?bs"
    using assms by (simp add: wf_frame_def)
  ultimately show ?thesis using that g(2) by simp
qed

lemma decode_status:
  assumes "n \<le> 224" "n \<le> length src" "wf_frame f"
  shows "\<exists>g. fl_frame_decode (Some src) n (Some f) = Some (wire_status (take n src), Some g)
    \<and> wf_frame g \<and> (10 \<le> n \<longrightarrow> take n (frame_bytes g) = take n src)"
proof (cases "n < 10")
  case True
  with assms show ?thesis by (auto simp: fl_frame_decode_def wire_status_def)
next
  case False
  then have n: "10 \<le> n" by simp
  obtain g where g: "memcpy_at (frame_bytes f) 0 (take n src) = Some (frame_bytes g)"
    "wf_frame g" "frame_bytes g = take n src @ drop n (frame_bytes f)"
    by (rule decode_copy [OF n assms])
  let ?w = "take n src"
  have w: "take n (frame_bytes g) = ?w" using g(3) assms by simp
  have nth: "?w ! i = frame_bytes g ! i" if "i < n" for i
    using w that by (metis nth_take)
  have m: "of_le16 (?w ! 0) (?w ! 1) = fr_magic g" "of_le16 (?w ! 8) (?w ! 9) = fr_crc16 g"
    using n by (simp_all only: nth frame_bytes_nth of_le16_le16)
  have pl: "unat (of_nat (n - 10) :: u8) = n - 10"
    by (rule unat_of_nat_u8) (use assms in simp)
  have "wire_data ?w = frame_head g @ take (n - 10) (fr_payload g)"
    using n by (simp add: wire_data_def w [symmetric] frame_bytes_parts drop_take min_def)
  moreover have "frame_crc g (n - 10) = Some (fl_crc16 (frame_head g @ take (n - 10) (fr_payload g)))"
    using g(2) assms(1) by (simp add: frame_crc_fl_crc16 wf_frame_def)
  ultimately have crc: "frame_crc g (n - 10) = Some (fl_crc16 (wire_data ?w))" by simp
  have "(if n < 224 then n else 224) = n" using assms(1) by simp
  then have "fl_frame_decode (Some src) n (Some f) =
      (if fr_magic g \<noteq> FL_MAGIC then Some (FL_ERR_BAD_MAGIC, Some g)
       else if fr_crc16 g \<noteq> fl_crc16 (wire_data ?w) then Some (FL_ERR_CRC, Some g)
       else Some (FL_OK, Some g))"
    using n assms g(1) by (simp add: fl_frame_decode_def Let_def pl crc del: of_nat_diff)
  moreover have "wire_status ?w =
      (if fr_magic g \<noteq> FL_MAGIC then FL_ERR_BAD_MAGIC
       else if fr_crc16 g \<noteq> fl_crc16 (wire_data ?w) then FL_ERR_CRC else FL_OK)"
    using n assms m by (simp add: wire_status_def)
  ultimately show ?thesis using g(2) w by auto
qed

lemma wire_status_OK:
  "wire_status w = FL_OK \<longleftrightarrow> 10 \<le> length w \<and> of_le16 (w ! 0) (w ! 1) = FL_MAGIC
     \<and> of_le16 (w ! 8) (w ! 9) = fl_crc16 (wire_data w)"
  by (simp add: wire_status_def)

text \<open>What the encoder leaves in the frame.\<close>

definition encoded_frame ::
  "FLFrameType \<Rightarrow> u16 \<Rightarrow> u8 \<Rightarrow> u8 \<Rightarrow> u8 \<Rightarrow> bytes \<Rightarrow> FLFrame" where
  "encoded_frame t sid rid fi ft data =
     (let f = \<lparr>fr_magic = FL_MAGIC, fr_type = type_code t, fr_shard_id = sid, fr_round_id = rid,
                fr_frag_index = fi, fr_frag_total = ft, fr_crc16 = 0,
                fr_payload = data @ replicate (FL_PAYLOAD_MAX - length data) 0\<rparr>
      in f\<lparr>fr_crc16 := fl_crc16 (frame_head f @ data)\<rparr>)"

lemma encoded_frame_simps [simp]:
  "fr_magic (encoded_frame t sid rid fi ft data) = FL_MAGIC"
  "fr_type (encoded_frame t sid rid fi ft data) = type_code t"
  "fr_shard_id (encoded_frame t sid rid fi ft data) = sid"
  "fr_round_id (encoded_frame t sid rid fi ft data) = rid"
  "fr_frag_index (encoded_frame t sid rid fi ft data) = fi"
  "fr_frag_total (encoded_frame t sid rid fi ft data) = ft"
  "fr_payload (encoded_frame t sid rid fi ft data)
     = data @ replicate (FL_PAYLOAD_MAX - length data) 0"
  by (simp_all add: encoded_frame_def Let_def)

lemma encoded_frame_crc:
  "fr_crc16 (encoded_frame t sid rid fi ft data)
     = fl_crc16 (frame_head (encoded_frame t sid rid fi ft data) @ data)"
  by (simp add: encoded_frame_def Let_def frame_head_def)

lemma fl_frame_encode_eq:
  assumes "unat n \<le> 214" and "unat n \<le> length src"
  shows "fl_frame_encode (Some f) t sid rid fi ft (Some src) n
    = Some (FL_OK, Some (encoded_frame t sid rid fi ft (take (unat n) src)))"
proof (cases "n = 0")
  case True
  then show ?thesis
    by (simp add: fl_frame_encode_def Let_def frame_crc_fl_crc16 encoded_frame_def frame_head_def)
next
  case False
  then have "0 < n" by (simp add: word_gt_0)
  with assms show ?thesis
    by (simp add: fl_frame_encode_def Let_def frame_crc_fl_crc16 encoded_frame_def frame_head_def
        memcpy_at_def)
qed

lemma fl_frame_encode_empty:
  "fl_frame_encode (Some f) t sid rid fi ft None 0
    = Some (FL_OK, Some (encoded_frame t sid rid fi ft []))"
  by (simp add: fl_frame_encode_def Let_def frame_crc_fl_crc16 encoded_frame_def frame_head_def)

text \<open>The bytes on the air for a frame with \<open>n\<close> payload bytes.\<close>

definition wire_of :: "FLFrame \<Rightarrow> nat \<Rightarrow> bytes" where
  "wire_of f n = take (FL_HEADER_SIZE + n) (frame_bytes f)"

lemma wire_of_encoded:
  "wire_of (encoded_frame t sid rid fi ft data) (length data)
     = frame_head (encoded_frame t sid rid fi ft data)
       @ le16 (fr_crc16 (encoded_frame t sid rid fi ft data)) @ data"
  by (simp add: wire_of_def frame_bytes_def)

lemma wire_data_append [simp]:
  "wire_data (frame_head f @ le16 c @ data) = frame_head f @ data"
  by (simp add: wire_data_def)

lemma wire_status_encoded:
  "wire_status (wire_of (encoded_frame t sid rid fi ft data) (length data)) = FL_OK"
proof -
  let ?f = "encoded_frame t sid rid fi ft data"
  let ?w = "wire_of ?f (length data)"
  have "?w ! 8 = ucast (fr_crc16 ?f)" "?w ! 9 = ucast (drop_bit 8 (fr_crc16 ?f))"
    "?w ! 0 = ucast (fr_magic ?f)" "?w ! 1 = ucast (drop_bit 8 (fr_magic ?f))"
    by (simp_all only: wire_of_encoded)
       (simp_all add: frame_head_def le16_def nth_append)
  moreover have "wire_data ?w = frame_head ?f @ data" "length ?w = 10 + length data"
    by (simp_all add: wire_of_encoded)
  ultimately show ?thesis
    by (simp only: wire_status_OK of_le16_le16 encoded_frame_crc encoded_frame_simps) simp
qed

section \<open>Payload structures\<close>

text \<open>A packed struct that is copied to and from the payload with \<^verbatim>\<open>memcpy\<close>: its bytes
  determine it, and every block of its size is one. An array of them is read back
  entry by entry.\<close>

locale packed_struct =
  fixes enc :: "'a \<Rightarrow> bytes" and dec :: "bytes \<Rightarrow> 'a option" and size_of :: nat
  assumes length_enc [simp]: "length (enc x) = size_of"
    and dec_enc [simp]: "dec (enc x) = Some x"
begin

lemma enc_inject: "enc x = enc y \<longleftrightarrow> x = y"
  by (metis dec_enc option.inject)

lemma length_concat_enc [simp]: "length (concat (map enc xs)) = length xs * size_of"
  by (induction xs) simp_all

lemma concat_enc_nth:
  "i < length xs \<Longrightarrow> take size_of (drop (i * size_of) (concat (map enc xs) @ rest)) = enc (xs ! i)"
proof (induction xs arbitrary: i)
  case (Cons x xs)
  then show ?case by (cases i) (simp_all add: add.commute)
qed simp

lemma rd_array:
  assumes "i < length xs"
  shows "do { bs \<leftarrow> rd_slice (concat (map enc xs) @ rest) (i * size_of) size_of; dec bs }
    = Some (xs ! i)"
proof -
  have "Suc i * size_of \<le> length xs * size_of" using assms by (intro mult_le_mono1) simp
  then have "i * size_of + size_of \<le> length (concat (map enc xs) @ rest)" by simp
  then have "rd_slice (concat (map enc xs) @ rest) (i * size_of) size_of = Some (enc (xs ! i))"
    unfolding rd_slice_def concat_enc_nth [OF assms] by (rule if_P)
  then show ?thesis by simp
qed

end

record FLGradientEntry =
  ge_param_index :: u16
  ge_delta_q8 :: i8

abbreviation FL_SIZEOF_GRADIENT_ENTRY :: nat where "FL_SIZEOF_GRADIENT_ENTRY \<equiv> 3"
abbreviation FL_GRADIENT_ENTRIES_PER_FRAME :: nat where
  "FL_GRADIENT_ENTRIES_PER_FRAME \<equiv> 71"  \<comment> \<open>\<open>214 / 3\<close>\<close>

definition entry_bytes :: "FLGradientEntry \<Rightarrow> bytes" where
  "entry_bytes e = le16 (ge_param_index e) @ [ge_delta_q8 e]"

fun entry_of_bytes :: "bytes \<Rightarrow> FLGradientEntry option" where
  "entry_of_bytes [a, b, c] = Some \<lparr>ge_param_index = of_le16 a b, ge_delta_q8 = c\<rparr>"
| "entry_of_bytes _ = None"

record FLBeaconPayload =
  bp_round_id :: u8
  bp_window_seconds :: u32
  bp_model_param_count :: u16
  bp_min_shards :: u8
  bp_local_epochs :: u8
  bp_learning_rate :: f32
  bp_dp_sigma :: f32

definition beacon_bytes :: "FLBeaconPayload \<Rightarrow> bytes" where
  "beacon_bytes p = [bp_round_id p] @ le32 (bp_window_seconds p) @ le16 (bp_model_param_count p)
     @ [bp_min_shards p, bp_local_epochs p] @ le32 (f32_bits (bp_learning_rate p))
     @ le32 (f32_bits (bp_dp_sigma p))"

fun beacon_of_bytes :: "bytes \<Rightarrow> FLBeaconPayload option" where
  "beacon_of_bytes [r, w0, w1, w2, w3, c0, c1, m, e, l0, l1, l2, l3, s0, s1, s2, s3] =
     Some \<lparr>bp_round_id = r, bp_window_seconds = of_le32 w0 w1 w2 w3,
       bp_model_param_count = of_le16 c0 c1, bp_min_shards = m, bp_local_epochs = e,
       bp_learning_rate = F32 (of_le32 l0 l1 l2 l3), bp_dp_sigma = F32 (of_le32 s0 s1 s2 s3)\<rparr>"
| "beacon_of_bytes _ = None"

record FLRoundClosePayload =
  rcp_round_id :: u8
  rcp_shards_aggregated :: u8
  rcp_next_round_in_sec :: u32

definition round_close_bytes :: "FLRoundClosePayload \<Rightarrow> bytes" where
  "round_close_bytes p =
     [rcp_round_id p, rcp_shards_aggregated p] @ le32 (rcp_next_round_in_sec p)"

fun round_close_of_bytes :: "bytes \<Rightarrow> FLRoundClosePayload option" where
  "round_close_of_bytes [r, n, a, b, c, d] =
     Some \<lparr>rcp_round_id = r, rcp_shards_aggregated = n, rcp_next_round_in_sec = of_le32 a b c d\<rparr>"
| "round_close_of_bytes _ = None"

interpretation gradient_entry: packed_struct entry_bytes entry_of_bytes FL_SIZEOF_GRADIENT_ENTRY
  by unfold_locales (simp_all add: entry_bytes_def le16_def)

interpretation beacon: packed_struct beacon_bytes beacon_of_bytes 17
  by unfold_locales (simp_all add: beacon_bytes_def le16_def le32_def)

interpretation round_close: packed_struct round_close_bytes round_close_of_bytes 6
  by unfold_locales (simp_all add: round_close_bytes_def le32_def)

text \<open>A \<^verbatim>\<open>memcpy\<close> of a struct out of the payload.\<close>

definition rd_entry :: "bytes \<Rightarrow> nat \<Rightarrow> FLGradientEntry option" where
  "rd_entry bs i =
     do { b \<leftarrow> rd_slice bs (i * FL_SIZEOF_GRADIENT_ENTRY) FL_SIZEOF_GRADIENT_ENTRY;
          entry_of_bytes b }"

definition rd_beacon :: "bytes \<Rightarrow> FLBeaconPayload option" where
  "rd_beacon bs = do { b \<leftarrow> rd_slice bs 0 17; beacon_of_bytes b }"

definition rd_round_close :: "bytes \<Rightarrow> FLRoundClosePayload option" where
  "rd_round_close bs = do { b \<leftarrow> rd_slice bs 0 6; round_close_of_bytes b }"

lemma rd_entry_concat:
  "i < length xs \<Longrightarrow> rd_entry (concat (map entry_bytes xs) @ rest) i = Some (xs ! i)"
  unfolding rd_entry_def by (rule gradient_entry.rd_array)

lemma rd_beacon_bytes [simp]: "rd_beacon (beacon_bytes p @ rest) = Some p"
  using beacon.rd_array [of 0 "[p]" rest] by (simp add: rd_beacon_def)

lemma rd_round_close_bytes [simp]: "rd_round_close (round_close_bytes p @ rest) = Some p"
  using round_close.rd_array [of 0 "[p]" rest] by (simp add: rd_round_close_def)

lemma triple_exhaust: "length bs = 3 \<Longrightarrow> \<exists>a b c. bs = [a, b, c]"
  by (auto simp: numeral_eq_Suc length_Suc_conv)

lemma rd_entry_defined:
  "(i + 1) * 3 \<le> length bs \<Longrightarrow> \<exists>e. rd_entry bs i = Some e"
  using triple_exhaust [of "take 3 (drop (i * 3) bs)"]
  by (auto simp: rd_entry_def rd_slice_def)

lemma rd_beacon_defined: "17 \<le> length bs \<Longrightarrow> \<exists>p. rd_beacon bs = Some p"
  by (auto simp: rd_beacon_def numeral_eq_Suc Suc_le_length_iff)

lemma rd_round_close_defined: "6 \<le> length bs \<Longrightarrow> \<exists>p. rd_round_close bs = Some p"
  by (auto simp: rd_round_close_def numeral_eq_Suc Suc_le_length_iff)

section \<open>Properties of the codec\<close>

text \<open>C11: A frame that was encoded with \<open>n \<le> 214\<close> payload bytes and sent as its first
  \<open>10 + n\<close> bytes is accepted by the decoder of any receiver, whatever was in the receiver's
  buffer, and the receiver reads back every header field, the frame type and the payload.\<close>

theorem frame_roundtrip:
  assumes "unat n \<le> 214" and "unat n \<le> length src" and "wf_frame g"
  shows "\<exists>h g'. fl_frame_encode (Some f) t sid rid fi ft (Some src) n = Some (FL_OK, Some h)
    \<and> fl_frame_decode (Some (wire_of h (unat n))) (10 + unat n) (Some g) = Some (FL_OK, Some g')
    \<and> frame_type_of (fr_type g') = Some t \<and> fr_shard_id g' = sid \<and> fr_round_id g' = rid
    \<and> fr_frag_index g' = fi \<and> fr_frag_total g' = ft
    \<and> take (unat n) (fr_payload g') = take (unat n) src"
proof -
  let ?d = "take (unat n) src"
  let ?h = "encoded_frame t sid rid fi ft ?d"
  let ?w = "wire_of ?h (unat n)"
  have l: "length ?d = unat n" using assms(2) by simp
  have w: "?w = frame_head ?h @ le16 (fr_crc16 ?h) @ ?d"
    using wire_of_encoded [of t sid rid fi ft ?d] l by simp
  have ok: "wire_status ?w = FL_OK"
    using wire_status_encoded [of t sid rid fi ft ?d] l by simp
  have len: "length ?w = 10 + unat n" using l by (simp add: w)
  obtain g' where dec: "fl_frame_decode (Some ?w) (10 + unat n) (Some g) = Some (FL_OK, Some g')"
    and bytes: "take (10 + unat n) (frame_bytes g') = ?w" and "wf_frame g'"
    using decode_status [of "10 + unat n" ?w g] assms len ok by auto
  have "frame_head g' = frame_head ?h"
    using arg_cong [OF bytes, of "take 8"] by (simp add: w frame_bytes_parts min_def)
  moreover have "take (unat n) (fr_payload g') = ?d"
    using arg_cong [OF bytes, of "drop 10"] by (simp add: w drop_take frame_bytes_parts)
  ultimately show ?thesis
    using fl_frame_encode_eq [OF assms(1,2)] dec
    by (auto simp: frame_head_def)
qed

lemma frame_roundtrip_witness:
  "\<exists>f h g'. fl_frame_encode (Some f) FL_FRAME_UPDATE 7 3 0 1 (Some [1, 2, 3]) 3 = Some (FL_OK, Some h)
    \<and> fl_frame_decode (Some (wire_of h 3)) 13 (Some f) = Some (FL_OK, Some g')
    \<and> take 3 (fr_payload g') = [1, 2, 3]"
proof -
  let ?f = "encoded_frame FL_FRAME_ACK 0 0 0 0 []"
  have "wf_frame ?f" by (simp add: wf_frame_def)
  then show ?thesis
    using frame_roundtrip [of 3 "[1, 2, 3]" ?f ?f FL_FRAME_UPDATE 7 3 0 1] by auto
qed

lemma wire_data_update:
  assumes "i < 8 \<or> 10 \<le> i" "i < length w" "10 \<le> length w"
  shows "wire_data (w[i := b]) = (wire_data w)[(if i < 8 then i else i - 2) := b]"
proof (cases "i < 8")
  case True
  then show ?thesis using assms(2)
    by (simp add: wire_data_def take_update_swap list_update_append)
next
  case False
  then obtain k where "i = k + 10" using assms(1) by (metis le_add_diff_inverse2)
  moreover have "min (length w) 8 = 8" using assms(3) by simp
  ultimately show ?thesis by (simp add: wire_data_def drop_update_swap list_update_append)
qed

lemma wire_data_nth:
  assumes "i < 8 \<or> 10 \<le> i" "i < length w" "10 \<le> length w"
  shows "wire_data w ! (if i < 8 then i else i - 2) = w ! i"
proof (cases "i < 8")
  case False
  then obtain k where "i = k + 10" using assms(1) by (metis le_add_diff_inverse2)
  then show ?thesis using assms(2) by (simp add: wire_data_def nth_append add.commute)
qed (simp add: wire_data_def nth_append assms)

lemma wire_data_crc_bytes:
  "8 \<le> i \<Longrightarrow> i < 10 \<Longrightarrow> wire_data (w[i := b]) = wire_data w"
  by (simp add: wire_data_def)

lemma length_wire_data: "10 \<le> length w \<Longrightarrow> length (wire_data w) = length w - 2"
  by (simp add: wire_data_def)

lemma fl_crc16_update:
  "i < length xs \<Longrightarrow> b \<noteq> xs ! i \<Longrightarrow> fl_crc16 (xs[i := b]) \<noteq> fl_crc16 xs"
  unfolding fl_crc16_def by (rule crc.single_symbol_error)

lemma fl_crc16_update2:
  "Suc i < length xs \<Longrightarrow> a \<noteq> xs ! i \<or> b \<noteq> xs ! Suc i
     \<Longrightarrow> fl_crc16 (xs[i := a, Suc i := b]) \<noteq> fl_crc16 xs"
  unfolding fl_crc16_def by (rule crc.adjacent_symbols_error)

text \<open>C27: Every corruption of a single byte of an accepted frame is detected: a changed magic
  byte is reported as such, any other changed byte as a CRC mismatch.\<close>

theorem corrupt_byte_rejected:
  assumes "wire_status w = FL_OK" and "i < length w" and "length w \<le> 224" and "b \<noteq> w ! i"
    and "wf_frame f"
  shows "\<exists>g. fl_frame_decode (Some (w[i := b])) (length w) (Some f)
    = Some (if i < 2 then FL_ERR_BAD_MAGIC else FL_ERR_CRC, Some g)"
proof -
  have w: "10 \<le> length w" "of_le16 (w ! 0) (w ! 1) = FL_MAGIC"
    "of_le16 (w ! 8) (w ! 9) = fl_crc16 (wire_data w)"
    using assms(1) by (simp_all add: wire_status_OK)
  have "wire_status (w[i := b]) = (if i < 2 then FL_ERR_BAD_MAGIC else FL_ERR_CRC)"
  proof -
    consider "i < 2" | "2 \<le> i" "i < 8 \<or> 10 \<le> i" | "i = 8 \<or> i = 9" by linarith
    then show ?thesis
    proof cases
      case 1
      then have "i = 0 \<or> i = 1" by linarith
      moreover have "0 < length w" "1 < length w" using w(1) by linarith+
      ultimately show ?thesis using w(1,2) assms(4)
        by (auto simp: wire_status_def nth_list_update simp flip: w(2))
    next
      case 2
      let ?j = "if i < 8 then i else i - 2"
      have "?j < length (wire_data w)" using 2 assms(2) w(1) by (auto simp: length_wire_data)
      then have "fl_crc16 (wire_data (w[i := b])) \<noteq> fl_crc16 (wire_data w)"
        unfolding wire_data_update [OF 2(2) assms(2) w(1), of b]
        by (rule fl_crc16_update) (simp only: wire_data_nth [OF 2(2) assms(2) w(1)] assms(4) not_False_eq_True)
      with 2 w assms(2) show ?thesis by (auto simp: wire_status_def)
    next
      case 3
      then show ?thesis
        using w assms(4) by (auto simp: wire_status_def wire_data_crc_bytes simp flip: w(3))
    qed
  qed
  then show ?thesis
    using decode_status [of "length w" "w[i := b]" f] assms by auto
qed

lemma corrupt_byte_rejected_witness:
  "\<exists>w f g. length w = 10 \<and> wire_status w = FL_OK
    \<and> fl_frame_decode (Some (w[5 := 9])) 10 (Some f) = Some (FL_ERR_CRC, Some g)"
proof -
  let ?f = "encoded_frame FL_FRAME_ACK 0 1 0 0 []"
  let ?w = "wire_of ?f 0"
  have ok: "wire_status ?w = FL_OK" using wire_status_encoded [of FL_FRAME_ACK 0 1 0 0 "[]"] by simp
  have w: "?w ! 5 = 1" "length ?w = 10"
    by (simp_all add: wire_of_def frame_bytes_def frame_head_def le16_def)
  have "wf_frame ?f" by (simp add: wf_frame_def)
  then show ?thesis
    using corrupt_byte_rejected [of ?w 5 9 ?f] ok w by auto
qed

lemma wire_data_update2:
  assumes "2 \<le> i \<and> i < 7 \<or> 10 \<le> i" "Suc i < length w" "10 \<le> length w"
  defines "j \<equiv> if i < 8 then i else i - 2"
  shows "wire_data (w[i := a, Suc i := b]) = (wire_data w)[j := a, Suc j := b]"
    and "Suc j < length (wire_data w)" and "wire_data w ! j = w ! i"
    and "wire_data w ! Suc j = w ! Suc i"
proof -
  have i: "i < 8 \<or> 10 \<le> i" "Suc i < 8 \<or> 10 \<le> Suc i" "i < length w" using assms by auto
  have j: "Suc j = (if Suc i < 8 then Suc i else Suc i - 2)" using assms(1) by (auto simp: j_def)
  have l: "Suc i < length (w[i := a])" "10 \<le> length (w[i := a])" using assms(2,3) by simp_all
  show "wire_data (w[i := a, Suc i := b]) = (wire_data w)[j := a, Suc j := b]"
    unfolding wire_data_update [OF i(2) l] wire_data_update [OF i(1,3) assms(3)] j
    by (simp only: j_def)
  show "Suc j < length (wire_data w)"
    using assms by (auto simp: length_wire_data j_def)
  show "wire_data w ! j = w ! i"
    unfolding j_def by (rule wire_data_nth [OF i(1,3) assms(3)])
  show "wire_data w ! Suc j = w ! Suc i"
    unfolding j by (rule wire_data_nth [OF i(2) assms(2,3)])
qed

text \<open>Every corruption of two neighbouring bytes of the payload, or of the header between
  the magic and the CRC, is detected as a CRC mismatch: the CRC catches every burst of up to
  sixteen bits that is aligned on bytes.\<close>

theorem corrupt_burst_rejected:
  assumes "wire_status w = FL_OK" and "2 \<le> i \<and> i < 7 \<or> 10 \<le> i" and "Suc i < length w"
    and "length w \<le> 224" and "a \<noteq> w ! i \<or> b \<noteq> w ! Suc i" and "wf_frame f"
  shows "\<exists>g. fl_frame_decode (Some (w[i := a, Suc i := b])) (length w) (Some f)
    = Some (FL_ERR_CRC, Some g)"
proof -
  have w: "10 \<le> length w" "of_le16 (w ! 0) (w ! 1) = FL_MAGIC"
    "of_le16 (w ! 8) (w ! 9) = fl_crc16 (wire_data w)"
    using assms(1) by (simp_all add: wire_status_OK)
  let ?j = "if i < 8 then i else i - 2"
  note u = wire_data_update2 [OF assms(2,3) w(1)]
  have "fl_crc16 (wire_data (w[i := a, Suc i := b])) \<noteq> fl_crc16 (wire_data w)"
    unfolding u(1) by (rule fl_crc16_update2) (use u(2-4) assms(5) in \<open>simp_all only:\<close>)
  then have "wire_status (w[i := a, Suc i := b]) = FL_ERR_CRC"
    using w assms(2) by (auto simp: wire_status_def)
  then show ?thesis
    using decode_status [of "length w" "w[i := a, Suc i := b]" f] assms(4,6) by auto
qed

text \<open>Where decoding is undefined: the length of the payload is a byte, the received length is
  not, and nothing bounds the length the CRC loop reads by the size of the payload array.\<close>

lemma decode_copy_long:
  assumes "224 \<le> n" "n \<le> length src" "wf_frame f"
  obtains g where "memcpy_at (frame_bytes f) 0 (take 224 src) = Some (frame_bytes g)"
    and "wf_frame g" and "fr_magic g = of_le16 (src ! 0) (src ! 1)"
proof -
  obtain g where g: "memcpy_at (frame_bytes f) 0 (take 224 src) = Some (frame_bytes g)"
    "wf_frame g" "frame_bytes g = take 224 src @ drop 224 (frame_bytes f)"
    by (rule decode_copy [of 224 src f]) (use assms in auto)
  have "src ! i = frame_bytes g ! i" if "i < 224" for i
    using that assms g(3) by (simp add: nth_append)
  then have "src ! 0 = frame_bytes g ! 0" "src ! 1 = frame_bytes g ! 1" by simp_all
  then have "of_le16 (src ! 0) (src ! 1) = fr_magic g"
    by (simp only: frame_bytes_nth of_le16_le16)
  with g(1,2) show ?thesis by (intro that) simp_all
qed

text \<open>C34: Decoding is memory safe for every received length except those whose payload length,
  cut to a byte, exceeds the 214 bytes of the payload array (225 to 265 bytes and the same
  lengths modulo 256): there, when the magic matches, the CRC loop reads past the frame.\<close>

theorem fl_frame_decode_undefined_iff:
  assumes "n \<le> length src" and "wf_frame f"
  shows "fl_frame_decode (Some src) n (Some f) = None \<longleftrightarrow>
    10 \<le> n \<and> of_le16 (src ! 0) (src ! 1) = FL_MAGIC \<and> 214 < (n - 10) mod 256"
proof (cases "n \<le> 224")
  case True
  with decode_status [OF True assms] show ?thesis by auto
next
  case False
  then obtain g where g: "memcpy_at (frame_bytes f) 0 (take 224 src) = Some (frame_bytes g)"
    "wf_frame g" "fr_magic g = of_le16 (src ! 0) (src ! 1)"
    using decode_copy_long [of n src f] assms by auto
  have pl: "unat (of_nat (n - 10) :: u8) = (n - 10) mod 256"
    by (simp add: unsigned_of_nat take_bit_eq_mod del: of_nat_diff)
  have "fl_frame_decode (Some src) n (Some f) =
      (if fr_magic g \<noteq> FL_MAGIC then Some (FL_ERR_BAD_MAGIC, Some g)
       else do { expected \<leftarrow> frame_crc g ((n - 10) mod 256);
                 if fr_crc16 g \<noteq> expected then Some (FL_ERR_CRC, Some g)
                 else Some (FL_OK, Some g) })"
    using False assms g(1) by (simp add: fl_frame_decode_def Let_def pl del: of_nat_diff)
  then show ?thesis
    using False g(2,3) by (simp add: frame_crc_fl_crc16 wf_frame_def)
qed

lemma fl_frame_decode_undefined_iff_witness:
  "fl_frame_decode (Some (0x4C # 0x46 # replicate 253 0)) 255
     (Some (encoded_frame FL_FRAME_ACK 0 0 0 0 [])) = None"
proof -
  have "of_le16 0x4C 0x46 = FL_MAGIC" by (simp add: of_le16_def)
  then show ?thesis
    by (subst fl_frame_decode_undefined_iff) (simp_all add: wf_frame_def)
qed

end
