(* ===== verification/Model.thy ===== *)
theory Model
  imports Float32 Filum_Error Frame
begin

text \<open>
  The neural network of \<^verbatim>\<open>shard/src/fl_model.c\<close>. Every array access is checked. The scratch
  buffer \<^verbatim>\<open>intermediates\<close> holds the outputs of all layers and is read and written through
  pointers into it, so the model keeps it as one array and a pointer as an offset. The static
  buffers of the backward pass are an argument and a result.
\<close>

section \<open>Data\<close>

datatype FLActivation = FL_ACT_NONE | FL_ACT_RELU | FL_ACT_SIGMOID | FL_ACT_TANH

text \<open>The layer type is kept as its number: 1 is linear, 2 batch norm, 0 a cleared descriptor; no
  code reads it.\<close>

record FLLayerDesc =
  ly_type :: u32
  ly_activation :: FLActivation
  ly_in_features :: u16
  ly_out_features :: u16
  ly_param_offset :: u16
  ly_param_count :: u16

record FLModel =
  md_params :: "f32 list"
  md_grad :: "f32 list"
  md_layers :: "FLLayerDesc list"
  md_layer_count :: u8
  md_total_params :: u16
  md_round_id :: u8

abbreviation ly_in :: "FLLayerDesc \<Rightarrow> nat" where "ly_in ld \<equiv> unat (ly_in_features ld)"
abbreviation ly_out :: "FLLayerDesc \<Rightarrow> nat" where "ly_out ld \<equiv> unat (ly_out_features ld)"
abbreviation ly_off :: "FLLayerDesc \<Rightarrow> nat" where "ly_off ld \<equiv> unat (ly_param_offset ld)"

definition zero_layer :: FLLayerDesc where
  "zero_layer = \<lparr>ly_type = 0, ly_activation = FL_ACT_NONE, ly_in_features = 0, ly_out_features = 0,
     ly_param_offset = 0, ly_param_count = 0\<rparr>"

definition zero_model :: FLModel where
  "zero_model = \<lparr>md_params = replicate FL_MODEL_MAX_PARAMS 0, md_grad = replicate FL_MODEL_MAX_PARAMS 0,
     md_layers = replicate FL_MODEL_MAX_LAYERS zero_layer, md_layer_count = 0, md_total_params = 0,
     md_round_id = 0\<rparr>"

section \<open>Set-up\<close>

fun model_init_layers ::
  "FLLayerDesc list \<Rightarrow> nat \<Rightarrow> nat \<Rightarrow> u16 \<Rightarrow> FLModel \<Rightarrow> (FLError \<times> u16 \<times> FLModel) option" where
  "model_init_layers layers i 0 offset m = Some (FL_OK, offset, m)"
| "model_init_layers layers i (Suc n) offset m =
     do { d \<leftarrow> rd layers i;
          ls \<leftarrow> wr (md_layers m) i (d\<lparr>ly_param_offset := offset\<rparr>);
          let m = m\<lparr>md_layers := ls\<rparr>;
          let offset = offset + ly_param_count d;
          if of_nat FL_MODEL_MAX_PARAMS < offset then Some (FL_ERR_CAPACITY, offset, m)
          else model_init_layers layers (Suc i) n offset m }"

definition fl_model_init ::
  "FLModel ptr \<Rightarrow> FLLayerDesc list \<Rightarrow> u8 \<Rightarrow> (FLError \<times> FLModel ptr) option" where
  "fl_model_init model layers count =
     (case model of
        None \<Rightarrow> Some (FL_ERR_INVALID_ARG, None)
      | Some _ \<Rightarrow>
          if FL_MODEL_MAX_LAYERS < unat count then Some (FL_ERR_CAPACITY, Some zero_model)
          else do {
            (e, offset, m) \<leftarrow> model_init_layers layers 0 (unat count) 0 zero_model;
            if e \<noteq> FL_OK then Some (e, Some m)
            else Some (FL_OK, Some (m\<lparr>md_layer_count := count, md_total_params := offset\<rparr>)) })"

definition lcg_next :: "u32 \<Rightarrow> u32" where
  "lcg_next state = state * 1664525 + 1013904223"

definition lcg_uniform :: "u32 \<Rightarrow> f32 \<Rightarrow> f32 \<Rightarrow> f32 \<times> u32" where
  "lcg_uniform state lo hi =
     (let r = lcg_next state; f = f_div (f_of_int (uint (drop_bit 8 r))) (F32 0x4B800000)
      in (lo + f * (hi - lo), r))"

text \<open>\<open>0x40C00000\<close> is \<^verbatim>\<open>6.0f\<close>.\<close>

definition fl_model_init_random :: "libm \<Rightarrow> FLModel \<Rightarrow> u32 \<Rightarrow> FLModel option" where
  "fl_model_init_random lm model seed =
     map_option fst (for_lt (unat (md_layer_count model)) (\<lambda>l (m, state). do {
       ld \<leftarrow> rd (md_layers m) l;
       let limit = m_sqrtf lm (f_div (F32 0x40C00000) (f_of_int (int (ly_in ld + ly_out ld))));
       (ps, state) \<leftarrow> for_lt (unat (ly_param_count ld)) (\<lambda>i (ps, state). do {
         let (x, state) = lcg_uniform state (- limit) limit;
         ps \<leftarrow> wr ps (ly_off ld + i) x;
         Some (ps, state) }) (md_params m, state);
       Some (m\<lparr>md_params := ps\<rparr>, state) }) (model, seed))"

section \<open>Activations\<close>

definition apply_act :: "libm \<Rightarrow> f32 \<Rightarrow> FLActivation \<Rightarrow> f32" where
  "apply_act lm x act =
     (case act of
        FL_ACT_RELU \<Rightarrow> (if 0 < x then x else 0)
      | FL_ACT_SIGMOID \<Rightarrow> f_div 1 (1 + m_expf lm (- x))
      | FL_ACT_TANH \<Rightarrow> m_tanhf lm x
      | FL_ACT_NONE \<Rightarrow> x)"

definition act_grad :: "f32 \<Rightarrow> FLActivation \<Rightarrow> f32" where
  "act_grad activated act =
     (case act of
        FL_ACT_RELU \<Rightarrow> (if 0 < activated then 1 else 0)
      | FL_ACT_SIGMOID \<Rightarrow> activated * (1 - activated)
      | FL_ACT_TANH \<Rightarrow> 1 - activated * activated
      | FL_ACT_NONE \<Rightarrow> 1)"

section \<open>Forward\<close>

text \<open>A \<^verbatim>\<open>const float *\<close> that points to the input vector or into the scratch buffer.\<close>

datatype vec_ptr = In_Input | In_Scratch nat

definition rd_vec :: "f32 list \<Rightarrow> f32 list \<Rightarrow> vec_ptr \<Rightarrow> nat \<Rightarrow> f32 option" where
  "rd_vec input scr p i = (case p of In_Input \<Rightarrow> rd input i | In_Scratch off \<Rightarrow> rd scr (off + i))"

definition layer_forward ::
  "libm \<Rightarrow> FLModel \<Rightarrow> FLLayerDesc \<Rightarrow> f32 list \<Rightarrow> vec_ptr \<Rightarrow> nat \<Rightarrow> f32 list \<Rightarrow> f32 list option" where
  "layer_forward lm model ld input inp out scr =
     for_lt (ly_out ld) (\<lambda>j scr. do {
       b \<leftarrow> rd (md_params model) (ly_off ld + ly_in ld * ly_out ld + j);
       s \<leftarrow> for_lt (ly_in ld) (\<lambda>i s. do {
         w \<leftarrow> rd (md_params model) (ly_off ld + (j * ly_in ld + i));
         x \<leftarrow> rd_vec input scr inp i;
         Some (s + w * x) }) b;
       wr scr (out + j) (apply_act lm s (ly_activation ld)) }) scr"

definition fl_model_forward ::
  "libm \<Rightarrow> FLModel \<Rightarrow> f32 list \<Rightarrow> f32 list \<Rightarrow> f32 list \<Rightarrow> (f32 list \<times> f32 list) option" where
  "fl_model_forward lm model input output intermediates =
     (let n = unat (md_layer_count model) in do {
       (scr, _) \<leftarrow> for_lt n (\<lambda>l (scr, inp). do {
         ld \<leftarrow> rd (md_layers model) l;
         scr \<leftarrow> layer_forward lm model ld input inp (l * ly_out ld) scr;
         Some (scr, In_Scratch (l * ly_out ld)) }) (intermediates, In_Input);
       if n = 0 then None
       else do {
         last \<leftarrow> rd (md_layers model) (n - 1);
         output \<leftarrow> for_lt (ly_out last) (\<lambda>j output. do {
           x \<leftarrow> rd scr ((n - 1) * ly_out last + j); wr output j x }) output;
         Some (output, scr) } })"

section \<open>Backward\<close>

definition fl_model_zero_grad :: "FLModel \<Rightarrow> FLModel option" where
  "fl_model_zero_grad model =
     do { g \<leftarrow> memcpy_at (md_grad model) 0 (replicate (unat (md_total_params model)) 0);
          Some (model\<lparr>md_grad := g\<rparr>) }"

text \<open>The three loops of one layer of the backward pass.\<close>

definition back_delta ::
  "FLLayerDesc \<Rightarrow> f32 list \<Rightarrow> f32 list \<Rightarrow> nat \<Rightarrow> f32 list \<Rightarrow> f32 list option" where
  "back_delta ld d_in scr act_out delta =
     for_lt (ly_out ld) (\<lambda>j delta. do {
       d \<leftarrow> rd d_in j; a \<leftarrow> rd scr (act_out + j);
       wr delta j (d * act_grad a (ly_activation ld)) }) delta"

definition back_grad ::
  "FLLayerDesc \<Rightarrow> f32 list \<Rightarrow> f32 list \<Rightarrow> vec_ptr \<Rightarrow> f32 list \<Rightarrow> f32 list \<Rightarrow> f32 list option" where
  "back_grad ld input scr layer_in delta grad =
     for_lt (ly_out ld) (\<lambda>j grad. do {
       d \<leftarrow> rd delta j;
       grad \<leftarrow> for_lt (ly_in ld) (\<lambda>i grad. do {
         x \<leftarrow> rd_vec input scr layer_in i;
         g \<leftarrow> rd grad (ly_off ld + (j * ly_in ld + i));
         wr grad (ly_off ld + (j * ly_in ld + i)) (g + d * x) }) grad;
       g \<leftarrow> rd grad (ly_off ld + ly_in ld * ly_out ld + j);
       wr grad (ly_off ld + ly_in ld * ly_out ld + j) (g + d) }) grad"

definition back_prev :: "FLLayerDesc \<Rightarrow> f32 list \<Rightarrow> f32 list \<Rightarrow> f32 list \<Rightarrow> f32 list option" where
  "back_prev ld params delta delta_prev =
     for_lt (ly_in ld) (\<lambda>i delta_prev. do {
       s \<leftarrow> for_lt (ly_out ld) (\<lambda>j s. do {
         w \<leftarrow> rd params (ly_off ld + (j * ly_in ld + i)); d \<leftarrow> rd delta j;
         Some (s + w * d) }) 0;
       wr delta_prev i s }) delta_prev"

type_synonym back_statics = "f32 list \<times> f32 list"  \<comment> \<open>\<^verbatim>\<open>delta\<close> and \<^verbatim>\<open>delta_prev\<close>\<close>

definition fl_model_backward ::
  "FLModel \<Rightarrow> f32 list \<Rightarrow> f32 list \<Rightarrow> f32 list \<Rightarrow> back_statics \<Rightarrow> (FLModel \<times> back_statics) option" where
  "fl_model_backward model loss_grad input intermediates statics =
     (let n = unat (md_layer_count model) in do {
       (grad, delta, delta_prev, _) \<leftarrow> for_lt n (\<lambda>k (grad, delta, delta_prev, first). do {
         let l = n - 1 - k;
         ld \<leftarrow> rd (md_layers model) l;
         layer_in \<leftarrow> (if l = 0 then Some In_Input
                      else do { p \<leftarrow> rd (md_layers model) (l - 1);
                                Some (In_Scratch ((l - 1) * ly_out p)) });
         delta \<leftarrow> back_delta ld (if first then loss_grad else delta_prev) intermediates (l * ly_out ld) delta;
         grad \<leftarrow> back_grad ld input intermediates layer_in delta grad;
         if 0 < l then do {
           delta_prev \<leftarrow> back_prev ld (md_params model) delta delta_prev;
           Some (grad, delta, delta_prev, False) }
         else Some (grad, delta, delta_prev, first) })
         (md_grad model, fst statics, snd statics, True);
       Some (model\<lparr>md_grad := grad\<rparr>, (delta, delta_prev)) })"

section \<open>Updates and serialisation\<close>

definition fl_model_sgd_step :: "FLModel \<Rightarrow> f32 \<Rightarrow> FLModel option" where
  "fl_model_sgd_step model lr =
     do { ps \<leftarrow> for_lt (unat (md_total_params model)) (\<lambda>i ps. do {
            p \<leftarrow> rd ps i; g \<leftarrow> rd (md_grad model) i; wr ps i (p - lr * g) }) (md_params model);
          Some (model\<lparr>md_params := ps\<rparr>) }"

definition fl_model_apply_delta :: "FLModel \<Rightarrow> f32 list \<Rightarrow> u16 \<Rightarrow> FLModel option" where
  "fl_model_apply_delta model delta len =
     (let len = (if md_total_params model < len then md_total_params model else len) in
      do { ps \<leftarrow> for_lt (unat len) (\<lambda>i ps. do { p \<leftarrow> rd ps i; d \<leftarrow> rd delta i; wr ps i (p + d) })
             (md_params model);
           Some (model\<lparr>md_params := ps\<rparr>) })"

text \<open>A float in memory is its pattern in little-endian order.\<close>

definition floats_bytes :: "f32 list \<Rightarrow> bytes" where
  "floats_bytes xs = concat (map (\<lambda>x. le32 (f32_bits x)) xs)"

fun floats_of_bytes :: "bytes \<Rightarrow> f32 list" where
  "floats_of_bytes (a # b # c # d # bs) = F32 (of_le32 a b c d) # floats_of_bytes bs"
| "floats_of_bytes _ = []"

definition fl_model_save :: "FLModel \<Rightarrow> bytes \<Rightarrow> nat \<Rightarrow> bytes option" where
  "fl_model_save model buf buf_len =
     (let needed = unat (md_total_params model) * 4 in
      if buf_len < needed then Some buf
      else do { ps \<leftarrow> rd_slice (md_params model) 0 (unat (md_total_params model));
                memcpy_at buf 0 (floats_bytes ps) })"

definition fl_model_load :: "FLModel ptr \<Rightarrow> bytes ptr \<Rightarrow> nat \<Rightarrow> (FLError \<times> FLModel ptr) option" where
  "fl_model_load model buf buf_len =
     (case (model, buf) of
        (Some m, Some b) \<Rightarrow>
          (let needed = unat (md_total_params m) * 4 in
           if buf_len < needed then Some (FL_ERR_BUFFER_TOO_SMALL, model)
           else do { bs \<leftarrow> rd_slice b 0 needed;
                     ps \<leftarrow> memcpy_at (md_params m) 0 (floats_of_bytes bs);
                     Some (FL_OK, Some (m\<lparr>md_params := ps\<rparr>)) })
      | _ \<Rightarrow> Some (FL_ERR_INVALID_ARG, model))"

end
