(* ===== verification/Quant.thy ===== *)
theory Quant
  imports Float32
begin

text \<open>
  Q8 fixed-point quantisation of gradients and the gradient norms:
  \<^verbatim>\<open>common/include/fl_quant.h\<close> and \<^verbatim>\<open>common/src/fl_quant.c\<close>.

  A vector argument \<^verbatim>\<open>float *v\<close> is the array behind the pointer; a destination array is
  returned updated. \<^verbatim>\<open>int8_t\<close> values are bytes read through \<open>sint\<close>.
\<close>

abbreviation FL_Q8_SCALE :: f32 where "FL_Q8_SCALE \<equiv> F32 0x43000000"  \<comment> \<open>128.0f\<close>

section \<open>Scalars\<close>

definition fl_quant_q8 :: "f32 \<Rightarrow> i8 option" where
  "fl_quant_q8 x =
     (let s = x * FL_Q8_SCALE in
      if F32 0x42FE0000 < s then Some 127            \<comment> \<open>\<^verbatim>\<open>s > 127.0f\<close>\<close>
      else if s < F32 0xC3000000 then Some (- 128)   \<comment> \<open>\<^verbatim>\<open>s < -128.0f\<close>\<close>
      else do { i \<leftarrow> f_to_i32 s; Some (of_int i) })"

definition fl_dequant_q8 :: "i8 \<Rightarrow> f32" where
  "fl_dequant_q8 q = f_div (f_of_int (sint q)) FL_Q8_SCALE"

text \<open>The mathematical function: scale by 128, truncate toward zero, clamp to a signed byte.
  One unit of \<open>f_ord\<close> is \<open>2^-149\<close>, so one step of Q8 is \<open>2^142\<close> units.\<close>

definition trunc_div :: "int \<Rightarrow> int \<Rightarrow> int" where
  "trunc_div a b = (if a < 0 then - ((- a) div b) else a div b)"

definition q8_value :: "int \<Rightarrow> int" where
  "q8_value u = max (- 128) (min 127 (trunc_div u (2 ^ 142)))"

lemma q8_value_range: "- 128 \<le> q8_value u" "q8_value u \<le> 127"
  by (simp_all add: q8_value_def)

lemma sint_of_int_i8: "- 128 \<le> i \<Longrightarrow> i \<le> 127 \<Longrightarrow> sint (of_int i :: i8) = i"
  by (simp add: signed_of_int signed_take_bit_int_eq_self)

lemma sint_i8_bounds: "- 128 \<le> sint (q :: i8)" "sint (q :: i8) \<le> 127"
  using sint_ge [of q] sint_lt [of q] by simp_all

lemma q8_scale: "\<not> f_nan FL_Q8_SCALE" "\<not> f_inf FL_Q8_SCALE" "\<not> f_sign FL_Q8_SCALE"
  "f_mag FL_Q8_SCALE = 2 ^ (149 + 7)"
  by (simp_all add: f32_eval)

lemma q8_limits: "\<not> f_nan (F32 0x42FE0000)" "f_ord (F32 0x42FE0000) = 127 * 2 ^ 149"
  "\<not> f_nan (F32 0xC3000000)" "f_ord (F32 0xC3000000) = - (128 * 2 ^ 149)"
  by (simp_all add: f32_eval)

lemma scaled_exact:
  assumes "\<not> f_nan x" and "f_mag x < 2 ^ 270"
  shows "f_ord (x * FL_Q8_SCALE) = f_ord x * 128" "\<not> f_nan (x * FL_Q8_SCALE)"
    "\<not> f_inf (x * FL_Q8_SCALE)"
proof -
  have "\<not> f_inf x" using assms f_mag_finite by auto
  moreover have "f_mag x * 2 ^ 7 < 2 ^ 277" using assms(2) by simp
  ultimately show "f_ord (x * FL_Q8_SCALE) = f_ord x * 128" "\<not> f_nan (x * FL_Q8_SCALE)"
    "\<not> f_inf (x * FL_Q8_SCALE)"
    using f_mul_pow2 [OF assms(1) _ q8_scale] by simp_all
qed

lemma scaled_overflow:
  assumes "\<not> f_nan x" and "2 ^ 270 \<le> f_mag x"
  shows "x * FL_Q8_SCALE = f_mk (f_sign x) inf_code"
proof (cases "f_inf x")
  case True
  with assms q8_scale show ?thesis by (simp add: times_f32_def f_mul_def)
next
  case False
  have "round_bits (2 ^ 277) 1 \<le> round_bits (f_mag x * f_mag FL_Q8_SCALE) (2 ^ 149)"
  proof (rule round_bits_mono)
    have "2 ^ 270 * 2 ^ 156 \<le> f_mag x * 2 ^ 156" using assms(2) by (rule mult_le_mono1)
    then show "2 ^ 277 * 2 ^ 149 \<le> f_mag x * f_mag FL_Q8_SCALE * 1"
      unfolding q8_scale by simp
  qed simp_all
  moreover have "round_bits (2 ^ 277) 1 = inf_code"
    by (rule round_bits_exact) (simp_all add: code_mag_inf_code)
  ultimately have "round_bits (f_mag x * f_mag FL_Q8_SCALE) (2 ^ 149) = inf_code"
    using round_bits_le_inf le_antisym by metis
  with assms False q8_scale show ?thesis by (simp add: times_f32_def f_mul_def)
qed

lemma i32_small: "t \<le> 128 \<Longrightarrow> - (2 ^ 31) \<le> - int t \<and> int t < 2 ^ 31"
  by simp

lemma f_to_i32_trunc:
  assumes "\<not> f_nan s" "\<not> f_inf s" "\<bar>f_ord s\<bar> \<le> 128 * 2 ^ 149"
  shows "f_to_i32 s = Some (trunc_div (f_ord s) (2 ^ 149))"
proof -
  have m: "int (f_mag s) \<le> 128 * 2 ^ 149" using assms(3) by (simp only: f_ord_abs)
  then have "f_mag s \<le> 128 * 2 ^ 149" by simp
  then have "f_mag s div 2 ^ 149 \<le> 128 * 2 ^ 149 div 2 ^ 149" by (rule div_le_mono)
  then have t: "f_mag s div 2 ^ 149 \<le> 128" by simp
  have "f_sign s \<and> f_mag s \<noteq> 0 \<longleftrightarrow> f_ord s < 0" by (auto simp: f_ord_def)
  then have "(if f_sign s then - int (f_mag s div 2 ^ 149) else int (f_mag s div 2 ^ 149))
      = trunc_div (f_ord s) (2 ^ 149)"
    by (auto simp: trunc_div_def f_ord_def zdiv_int)
  moreover have "- (2 ^ 31) \<le> - int (f_mag s div 2 ^ 149)" "int (f_mag s div 2 ^ 149) < 2 ^ 31"
    using i32_small [OF t] by blast+
  ultimately show ?thesis using assms(1,2) by (auto simp: f_to_i32_def Let_def)
qed

lemma trunc_div_scale: "trunc_div (a * 128) (2 ^ 149) = trunc_div a (2 ^ 142)"
proof -
  have "(2::int) ^ 149 = 2 ^ 142 * 128" by simp
  then have "b * 128 div 2 ^ 149 = b div 2 ^ 142" for b :: int
    by (simp only:) (rule div_mult_mult2, simp)
  from this [of a] this [of "- a"] show ?thesis
    by (simp only: trunc_div_def minus_mult_left) simp
qed

lemma q8_value_big: "2 ^ 149 \<le> u \<Longrightarrow> q8_value u = 127" "u \<le> - (2 ^ 149) \<Longrightarrow> q8_value u = - 128"
proof -
  assume u: "2 ^ 149 \<le> u"
  then have "2 ^ 149 div 2 ^ 142 \<le> u div 2 ^ 142" by (intro zdiv_mono1) simp_all
  with u show "q8_value u = 127" by (simp add: q8_value_def trunc_div_def)
next
  assume u: "u \<le> - (2 ^ 149)"
  then have "2 ^ 149 div 2 ^ 142 \<le> (- u) div 2 ^ 142" by (intro zdiv_mono1) simp_all
  with u show "q8_value u = - 128" by (simp add: q8_value_def trunc_div_def)
qed

text \<open>The quantiser computes exactly the clamped truncation, and is undefined on NaN only.\<close>

lemma fl_quant_q8_value:
  assumes x: "\<not> f_nan x"
  shows "fl_quant_q8 x = Some (of_int (q8_value (f_ord x)))"
proof (cases "f_mag x < 2 ^ 270")
  case True
  let ?s = "x * FL_Q8_SCALE" and ?u = "f_ord x"
  note s = scaled_exact [OF x True]
  consider "127 * 2 ^ 149 < ?u * 128" | "?u * 128 < - (128 * 2 ^ 149)"
    | "?u * 128 \<le> 127 * 2 ^ 149" "- (128 * 2 ^ 149) \<le> ?u * 128" by linarith
  then show ?thesis
  proof cases
    case 1
    then have "127 * 2 ^ 142 \<le> ?u" by simp
    then have "127 * 2 ^ 142 div 2 ^ 142 \<le> ?u div 2 ^ 142" by (intro zdiv_mono1) simp_all
    then have "q8_value ?u = 127"
      using \<open>127 * 2 ^ 142 \<le> ?u\<close> by (simp add: q8_value_def trunc_div_def)
    with 1 s show ?thesis by (simp add: fl_quant_q8_def Let_def less_f32_iff q8_limits)
  next
    case 2
    then have "q8_value ?u = - 128" by (intro q8_value_big(2)) simp
    with 2 s show ?thesis by (simp add: fl_quant_q8_def Let_def less_f32_iff q8_limits)
  next
    case 3
    then have i: "f_to_i32 ?s = Some (trunc_div ?u (2 ^ 142))"
      using f_to_i32_trunc [OF s(2,3)] unfolding s(1) trunc_div_scale by linarith
    have "?u div 2 ^ 142 \<le> (127 * 2 ^ 142) div 2 ^ 142" using 3 by (intro zdiv_mono1) simp_all
    moreover have "(- ?u) div 2 ^ 142 \<le> (128 * 2 ^ 142) div 2 ^ 142"
      using 3 by (intro zdiv_mono1) simp_all
    moreover have "?u < 0 \<Longrightarrow> 0 \<le> (- ?u) div 2 ^ 142" by (simp add: pos_imp_zdiv_nonneg_iff)
    moreover have "\<not> ?u < 0 \<Longrightarrow> 0 \<le> ?u div 2 ^ 142" by (simp add: pos_imp_zdiv_nonneg_iff)
    ultimately have "q8_value ?u = trunc_div ?u (2 ^ 142)"
      by (auto simp: q8_value_def trunc_div_def)
    with 3 s i show ?thesis by (simp add: fl_quant_q8_def Let_def less_f32_iff q8_limits)
  qed
next
  case False
  then have s: "x * FL_Q8_SCALE = f_mk (f_sign x) inf_code" using x by (intro scaled_overflow) simp_all
  have "int (2 ^ 270) \<le> int (f_mag x)" using False by (simp del: of_nat_power)
  then have m: "2 ^ 149 \<le> int (f_mag x)" by simp
  have n: "f_ord (f_mk sg inf_code) = (if sg then - (2 ^ 277) else 2 ^ 277)"
    "\<not> f_nan (f_mk sg inf_code)" for sg
    using inf_code_less by (simp_all add: f_ord_def f_mag_def f_nan_def code_mag_inf_code)
  show ?thesis
  proof (cases "f_sign x")
    case True
    then have "q8_value (f_ord x) = - 128" using m by (intro q8_value_big) (simp add: f_ord_def)
    then show ?thesis by (simp add: True fl_quant_q8_def Let_def s less_f32_iff q8_limits n)
  next
    case False
    then have "q8_value (f_ord x) = 127" using m by (intro q8_value_big) (simp add: f_ord_def)
    then show ?thesis by (simp add: False fl_quant_q8_def Let_def s less_f32_iff q8_limits n)
  qed
qed

lemma fl_quant_q8_nan: "f_nan x \<Longrightarrow> fl_quant_q8 x = None"
  by (simp add: fl_quant_q8_def Let_def times_f32_def f_mul_def less_f32_iff f_to_i32_def)
     (simp add: f32_eval)

text \<open>Quantisation is a total function on the non-NaN floats, and its value is exactly the
  mathematical one: the argument times 128, truncated toward zero and clamped to the signed
  byte; on NaN the conversion to an integer is undefined.\<close>

theorem fl_quant_q8_spec:
  "fl_quant_q8 x = (if f_nan x then None else Some (of_int (q8_value (f_ord x))))"
  using fl_quant_q8_value fl_quant_q8_nan by simp

text \<open>The dequantised value is exact.\<close>

lemma fl_dequant_q8_ord:
  "f_ord (fl_dequant_q8 q) = sint q * 2 ^ 142" "\<not> f_nan (fl_dequant_q8 q)"
  "\<not> f_inf (fl_dequant_q8 q)"
proof -
  let ?i = "sint q"
  define m where "m = nat \<bar>?i\<bar>"
  have m: "m \<le> 128" "int m = \<bar>?i\<bar>" using sint_i8_bounds [of q] by (auto simp: m_def)
  have i: "\<bar>?i\<bar> < 2 ^ 24" using m by simp
  note o = f_of_int_exact [OF i]
  have "int (f_mag (f_of_int ?i)) = int (m * 2 ^ 149)"
    by (simp only: f_ord_abs [symmetric] o(1) abs_mult of_nat_mult m(2)) simp
  then have mag: "f_mag (f_of_int ?i) = m * 2 ^ 149" by (simp only: of_nat_eq_iff)
  have "m * 2 ^ 142 \<le> 128 * 2 ^ 142" using m(1) by (rule mult_le_mono1)
  also have "\<dots> < (2::nat) ^ 277" by simp
  finally have lt: "m * 2 ^ 142 < 2 ^ 277" .
  have split: "f_mag (f_of_int ?i) * 2 ^ 149 = m * 2 ^ 142 * 2 ^ 156"
    unfolding mag by simp
  have m24: "m < 2 ^ 24" using m(1) by simp
  note r = round_bits_repr [OF _ m24 lt split]
  have eq: "fl_dequant_q8 q = f_mk (f_sign (f_of_int ?i))
      (round_bits (f_mag (f_of_int ?i) * 2 ^ 149) (f_mag FL_Q8_SCALE))"
    using o q8_scale by (simp add: fl_dequant_q8_def f_div_def Let_def)
  have sg: "f_sign (f_of_int ?i) \<longleftrightarrow> ?i < 0" by (simp add: f_of_int_def)
  have 156: "f_mag FL_Q8_SCALE = 2 ^ 156" using q8_scale(4) by simp
  show "f_ord (fl_dequant_q8 q) = sint q * 2 ^ 142"
    unfolding eq f_ord_mk_round 156 using r(1) m(2) by (simp add: sg)
  show "\<not> f_nan (fl_dequant_q8 q)" unfolding eq by simp
  show "\<not> f_inf (fl_dequant_q8 q)" unfolding eq 156 using r(2) by (simp add: f_inf_def)
qed

lemma q8_value_grid: "- 128 \<le> i \<Longrightarrow> i \<le> 127 \<Longrightarrow> q8_value (i * 2 ^ 142) = i"
proof -
  assume i: "- 128 \<le> i" "i \<le> 127"
  have "i * 2 ^ 142 < 0 \<longleftrightarrow> i < 0" by (simp add: mult_less_0_iff)
  moreover have "- (i * 2 ^ 142) div 2 ^ 142 = - i" by (simp only: mult_minus_left [symmetric]) simp
  ultimately show ?thesis using i by (simp add: q8_value_def trunc_div_def)
qed

text \<open>Quantising a dequantised byte gives the byte back, for all 256 bytes: a gradient
  that is forwarded in Q8 does not drift.\<close>

theorem q8_roundtrip: "fl_quant_q8 (fl_dequant_q8 q) = Some q"
proof -
  have "fl_quant_q8 (fl_dequant_q8 q) = Some (of_int (q8_value (sint q * 2 ^ 142)))"
    using fl_quant_q8_value [OF fl_dequant_q8_ord(2), of q] by (simp only: fl_dequant_q8_ord(1))
  also have "q8_value (sint q * 2 ^ 142) = sint q" by (rule q8_value_grid) (rule sint_i8_bounds)+
  finally show ?thesis by simp
qed

lemma q8_value_error:
  assumes "\<bar>u\<bar> \<le> 2 ^ 149"
  shows "\<bar>u - q8_value u * 2 ^ 142\<bar> \<le> 2 ^ 142" and "\<bar>q8_value u * 2 ^ 142\<bar> \<le> \<bar>u\<bar>"
proof -
  have pos: "0 \<le> v - v div 2 ^ 142 * 2 ^ 142 \<and> v - v div 2 ^ 142 * 2 ^ 142 < 2 ^ 142" for v :: int
    by (simp add: minus_div_mult_eq_mod)
  have lim: "v \<le> 2 ^ 149 \<Longrightarrow> v div 2 ^ 142 \<le> 2 ^ 149 div 2 ^ 142" for v :: int
    by (rule zdiv_mono1) simp_all
  have nn: "0 \<le> v \<Longrightarrow> 0 \<le> v div 2 ^ 142" for v :: int by (simp add: pos_imp_zdiv_nonneg_iff)
  show "\<bar>u - q8_value u * 2 ^ 142\<bar> \<le> 2 ^ 142" "\<bar>q8_value u * 2 ^ 142\<bar> \<le> \<bar>u\<bar>"
    using pos [of u] pos [of "- u"] lim [of u] lim [of "- u"] nn [of u] nn [of "- u"] assms
    by (auto simp: q8_value_def trunc_div_def min_def max_def abs_if)
qed

text \<open>The error of one trip through Q8: for an argument in \<open>[-1, 1]\<close> the dequantised value
  differs by at most one step of \<open>2^-7\<close> (\<open>2^142\<close> units of \<open>2^-149\<close>), not by half a step as
  rounding would give, and never has a larger magnitude than the argument.\<close>

theorem q8_error_bound:
  assumes "\<not> f_nan x" and "\<bar>f_ord x\<bar> \<le> 2 ^ 149"
  shows "\<exists>q. fl_quant_q8 x = Some q
    \<and> \<bar>f_ord x - f_ord (fl_dequant_q8 q)\<bar> \<le> 2 ^ 142 \<and> \<bar>f_ord (fl_dequant_q8 q)\<bar> \<le> \<bar>f_ord x\<bar>"
proof -
  let ?q = "of_int (q8_value (f_ord x)) :: i8"
  have "sint ?q = q8_value (f_ord x)" by (rule sint_of_int_i8) (rule q8_value_range)+
  then show ?thesis
    using fl_quant_q8_value [OF assms(1)] q8_value_error [OF assms(2)]
    by (intro exI [of _ ?q]) (simp add: fl_dequant_q8_ord)
qed

section \<open>Vectors\<close>

definition fl_grad_linf :: "f32 list \<Rightarrow> u16 \<Rightarrow> f32 option" where
  "fl_grad_linf v n =
     for_lt (unat n) (\<lambda>i m. do { x \<leftarrow> rd v i; let a = f_abs x; Some (if m < a then a else m) }) 0"

definition fl_grad_l2 :: "libm \<Rightarrow> f32 list \<Rightarrow> u16 \<Rightarrow> f32 option" where
  "fl_grad_l2 M v n =
     do { s \<leftarrow> for_lt (unat n) (\<lambda>i s. do { x \<leftarrow> rd v i; Some (s + x * x) }) 0;
          Some (m_sqrtf M s) }"

definition fl_grad_clip :: "libm \<Rightarrow> f32 list \<Rightarrow> u16 \<Rightarrow> f32 \<Rightarrow> f32 list option" where
  "fl_grad_clip M v n max_norm =
     do { norm \<leftarrow> fl_grad_l2 M v n;
          if max_norm < norm then do {
            let scale = f_div max_norm (norm + F32 0x33D6BF95);  \<comment> \<open>\<^verbatim>\<open>1e-7f\<close>\<close>
            for_lt (unat n) (\<lambda>i v. do { x \<leftarrow> rd v i; wr v i (x * scale) }) v }
          else Some v }"

text \<open>\<^verbatim>\<open>scale_out\<close> is a pointer that may be \<^verbatim>\<open>NULL\<close>; the result holds what is behind it.\<close>

definition fl_quant_vec_q8 ::
  "f32 list \<Rightarrow> i8 list \<Rightarrow> u16 \<Rightarrow> f32 option \<Rightarrow> (i8 list \<times> f32 option) option" where
  "fl_quant_vec_q8 src dst n scale_out =
     (case scale_out of
        Some _ \<Rightarrow> do {
          l \<leftarrow> fl_grad_linf src n;
          let norm = (if l < F32 0x3089705F then 1 else l);  \<comment> \<open>\<^verbatim>\<open>1e-9f\<close>\<close>
          d \<leftarrow> for_lt (unat n) (\<lambda>i d. do { x \<leftarrow> rd src i; q \<leftarrow> fl_quant_q8 (f_div x norm); wr d i q }) dst;
          Some (d, Some norm) }
      | None \<Rightarrow> do {
          d \<leftarrow> for_lt (unat n) (\<lambda>i d. do { x \<leftarrow> rd src i; q \<leftarrow> fl_quant_q8 x; wr d i q }) dst;
          Some (d, None) })"

definition fl_dequant_vec_q8 :: "i8 list \<Rightarrow> f32 list \<Rightarrow> u16 \<Rightarrow> f32 \<Rightarrow> f32 list option" where
  "fl_dequant_vec_q8 src dst n scale =
     (let factor = (if \<not> f_eq scale 0 then f_div scale FL_Q8_SCALE else f_div 1 FL_Q8_SCALE)
      in for_lt (unat n) (\<lambda>i d. do { q \<leftarrow> rd src i; wr d i (f_of_int (sint q) * factor) }) dst)"

text \<open>The L-infinity norm of a vector without NaN is the largest magnitude of its entries:
  an upper bound of all of them, and zero or one of them.\<close>

theorem fl_grad_linf_max:
  assumes "unat n \<le> length v" and "\<forall>i < unat n. \<not> f_nan (v ! i)"
  shows "\<exists>m. fl_grad_linf v n = Some m \<and> \<not> f_nan m \<and> 0 \<le> f_ord m
    \<and> (\<forall>i < unat n. \<bar>f_ord (v ! i)\<bar> \<le> f_ord m)
    \<and> (f_ord m = 0 \<or> (\<exists>i < unat n. f_ord m = \<bar>f_ord (v ! i)\<bar>))"
proof -
  let ?P = "\<lambda>j m. \<not> f_nan m \<and> 0 \<le> f_ord m \<and> (\<forall>i < j. \<bar>f_ord (v ! i)\<bar> \<le> f_ord m)
    \<and> (f_ord m = 0 \<or> (\<exists>i < j. f_ord m = \<bar>f_ord (v ! i)\<bar>))"
  have "\<exists>m. fl_grad_linf v n = Some m \<and> ?P (unat n) m"
    unfolding fl_grad_linf_def
  proof (rule for_lt_inv)
    fix j m
    assume j: "j < unat n" and P: "?P j m"
    have o: "f_ord (f_abs (v ! j)) = \<bar>f_ord (v ! j)\<bar>" "\<not> f_nan (f_abs (v ! j))"
      using assms(2) j by (simp_all add: f_abs_ord)
    show "\<exists>s'. do { x \<leftarrow> rd v j; let a = f_abs x; Some (if m < a then a else m) } = Some s'
        \<and> ?P (Suc j) s'"
    proof (cases "m < f_abs (v ! j)")
      case True
      then have lt: "f_ord m < \<bar>f_ord (v ! j)\<bar>" by (simp add: less_f32_iff o)
      have "\<forall>i < Suc j. \<bar>f_ord (v ! i)\<bar> \<le> \<bar>f_ord (v ! j)\<bar>"
        using P lt by (auto simp: less_Suc_eq)
      with True j assms(1) o show ?thesis by (auto simp: Let_def)
    next
      case False
      then have "\<bar>f_ord (v ! j)\<bar> \<le> f_ord m"
        using P assms(2) j by (simp add: less_f32_iff o)
      with P have "?P (Suc j) m" by (auto simp: less_Suc_eq)
      with False j assms(1) show ?thesis by (simp add: Let_def)
    qed
  qed simp
  then show ?thesis by blast
qed

text \<open>The loop that quantises a whole vector.\<close>

lemma quant_loop:
  assumes "n \<le> length dst" and "\<And>i. i < n \<Longrightarrow> g i = Some (h i)"
  shows "for_lt n (\<lambda>i d. do { q \<leftarrow> g i; wr d i q }) dst
    = Some (map_prefix n (\<lambda>i _. h i) dst)"
  by (rule for_lt_map) (use assms in auto)

lemma f_div_not_nan:
  "\<not> f_nan x \<Longrightarrow> \<not> f_inf x \<Longrightarrow> \<not> f_nan y \<Longrightarrow> f_mag y \<noteq> 0 \<Longrightarrow> \<not> f_nan (f_div x y)"
  by (simp add: f_div_def Let_def)

lemma quant_norm:
  fixes l :: f32
  assumes "\<not> f_nan l"
  shows "\<not> f_nan (if l < F32 0x3089705F then 1 else l)"
    "f_mag (if l < F32 0x3089705F then 1 else l) \<noteq> 0"
proof -
  have e: "\<not> f_nan (F32 0x3089705F)" "0 < f_ord (F32 0x3089705F)" by (simp_all add: f32_eval)
  show "\<not> f_nan (if l < F32 0x3089705F then 1 else l)" using assms by simp
  show "f_mag (if l < F32 0x3089705F then 1 else l) \<noteq> 0"
  proof (cases "l < F32 0x3089705F")
    case False
    then have "0 < f_ord l" using assms e by (auto simp: less_f32_iff)
    then have "f_mag l \<noteq> 0" by (auto simp: f_ord_def split: if_splits)
    with False show ?thesis by simp
  qed simp
qed

text \<open>Quantising a vector of finite floats with a normalising scale never converts a NaN
  and never divides by zero (an all-zero vector gets the scale 1), writes exactly the first
  \<open>n\<close> destination bytes, each the Q8 value of the normalised entry, and reports the scale.\<close>

theorem fl_quant_vec_q8_normalised:
  assumes "unat n \<le> length src" and "unat n \<le> length dst"
    and "\<forall>i < unat n. \<not> f_nan (src ! i) \<and> \<not> f_inf (src ! i)"
  shows "\<exists>norm. fl_quant_vec_q8 src dst n (Some old) =
      Some (map_prefix (unat n) (\<lambda>i _. of_int (q8_value (f_ord (f_div (src ! i) norm)))) dst, Some norm)
    \<and> \<not> f_nan norm \<and> f_mag norm \<noteq> 0"
proof -
  have "\<exists>l. fl_grad_linf src n = Some l \<and> \<not> f_nan l"
    unfolding fl_grad_linf_def
    by (rule for_lt_inv) (use assms(1,3) in \<open>auto simp: Let_def\<close>)
  then obtain l where l: "fl_grad_linf src n = Some l" "\<not> f_nan l" by blast
  define norm where "norm = (if l < F32 0x3089705F then 1 else l)"
  have nn: "\<not> f_nan norm" "f_mag norm \<noteq> 0" using quant_norm [OF l(2)] unfolding norm_def by blast+
  have "for_lt (unat n) (\<lambda>i d. do { q \<leftarrow> do { x \<leftarrow> rd src i; fl_quant_q8 (f_div x norm) }; wr d i q }) dst
      = Some (map_prefix (unat n) (\<lambda>i _. of_int (q8_value (f_ord (f_div (src ! i) norm)))) dst)"
    by (rule quant_loop)
       (use assms nn in \<open>simp_all add: fl_quant_q8_value f_div_not_nan\<close>)
  then show ?thesis
    using l nn by (intro exI [of _ norm]) (simp add: fl_quant_vec_q8_def norm_def)
qed

end
