(* ===== verification/Train.thy ===== *)
theory Train
  imports Model Quant
begin

text \<open>
  Local training, \<^verbatim>\<open>shard/src/fl_train.c\<close>: the loss functions, an epoch of stochastic gradient
  descent over a data callback, and the loop over epochs. The static buffers of the C functions are
  the record \<open>train_state\<close>. The data callback is a function of its environment; it may supply
  samples for ever, so an epoch is a partial function, and \<open>None\<close> also stands for not returning.
\<close>

section \<open>Data\<close>

record FLSample =
  sm_input :: "f32 list"  \<comment> \<open>64 floats\<close>
  sm_label :: "f32 list"  \<comment> \<open>8 floats\<close>
  sm_input_len :: u8
  sm_label_len :: u8

datatype FLLossType = FL_LOSS_MSE | FL_LOSS_XENTROPY

record FLTrainConfig =
  tc_epochs :: u8
  tc_learning_rate :: f32
  tc_grad_clip_norm :: f32
  tc_loss_type :: FLLossType
  tc_topk_ratio :: u8

text \<open>\<^verbatim>\<open>data_cb(ctx, &sample)\<close>: the result, the sample as it left it, and the environment.\<close>

type_synonym 'e data_cb = "'e \<Rightarrow> FLSample \<Rightarrow> bool \<times> FLSample \<times> 'e"

record train_state =
  ts_sample :: FLSample
  ts_output :: "f32 list"
  ts_loss_grad :: "f32 list"
  ts_softmax :: "f32 list"
  ts_back :: back_statics
  ts_intermediates :: "f32 list"

section \<open>Loss\<close>

definition loss_mse ::
  "f32 list \<Rightarrow> f32 list \<Rightarrow> f32 list \<Rightarrow> u8 \<Rightarrow> (f32 \<times> f32 list) option" where
  "loss_mse pred target loss_grad n =
     do { (loss, loss_grad) \<leftarrow> for_lt (unat n) (\<lambda>i (loss, loss_grad). do {
            p \<leftarrow> rd pred i; t \<leftarrow> rd target i;
            let d = p - t;
            loss_grad \<leftarrow> wr loss_grad i (f_div (F32 0x40000000 * d) (f_of_int (uint n)));
            Some (loss + d * d, loss_grad) }) (0, loss_grad);
          Some (f_div loss (f_of_int (uint n)), loss_grad) }"

text \<open>The literals are \<^verbatim>\<open>0.5f\<close> and \<^verbatim>\<open>1e-9f\<close>.\<close>

definition softmax_exp ::
  "libm \<Rightarrow> f32 list \<Rightarrow> u8 \<Rightarrow> f32 \<Rightarrow> f32 list \<Rightarrow> (f32 \<times> f32 list) option" where
  "softmax_exp lm pred n max_v softmax =
     for_lt (unat n) (\<lambda>i (sum_exp, softmax). do {
       p \<leftarrow> rd pred i;
       softmax \<leftarrow> wr softmax i (m_expf lm (p - max_v));
       s \<leftarrow> rd softmax i;
       Some (sum_exp + s, softmax) }) (0, softmax)"

definition softmax_loss ::
  "libm \<Rightarrow> f32 list \<Rightarrow> u8 \<Rightarrow> f32 \<Rightarrow> f32 list \<Rightarrow> f32 list \<Rightarrow> (f32 \<times> f32 list \<times> f32 list) option" where
  "softmax_loss lm target n sum_exp loss_grad softmax =
     for_lt (unat n) (\<lambda>i (loss, loss_grad, softmax). do {
       s \<leftarrow> rd softmax i;
       let s = f_div s sum_exp;
       softmax \<leftarrow> wr softmax i s;
       t \<leftarrow> rd target i;
       loss_grad \<leftarrow> wr loss_grad i (f_div (s - t) (f_of_int (uint n)));
       Some (if F32 0x3F000000 < t then loss - m_logf lm (s + F32 0x3089705F) else loss, loss_grad, softmax) })
     (0, loss_grad, softmax)"

definition fl_loss_forward ::
  "libm \<Rightarrow> f32 list \<Rightarrow> f32 list \<Rightarrow> f32 list \<Rightarrow> u8 \<Rightarrow> FLLossType \<Rightarrow> f32 list
    \<Rightarrow> (f32 \<times> f32 list \<times> f32 list) option" where
  "fl_loss_forward lm pred target loss_grad n type softmax =
     (case type of
        FL_LOSS_MSE \<Rightarrow> do { (loss, loss_grad) \<leftarrow> loss_mse pred target loss_grad n; Some (loss, loss_grad, softmax) }
      | FL_LOSS_XENTROPY \<Rightarrow> do {
          p0 \<leftarrow> rd pred 0;
          max_v \<leftarrow> for_from 1 (unat n - 1) (\<lambda>i max_v. do {
            p \<leftarrow> rd pred i; Some (if max_v < p then p else max_v) }) p0;
          (sum_exp, softmax) \<leftarrow> softmax_exp lm pred n max_v softmax;
          softmax_loss lm target n sum_exp loss_grad softmax })"

section \<open>Training\<close>

text \<open>The body of the loop over the samples.\<close>

definition train_step ::
  "libm \<Rightarrow> FLTrainConfig \<Rightarrow> u8 \<Rightarrow> FLModel \<times> train_state \<Rightarrow> (FLModel \<times> train_state) option" where
  "train_step lm config out_features = (\<lambda>(model, ts). do {
     (output, scr) \<leftarrow> fl_model_forward lm model (sm_input (ts_sample ts)) (ts_output ts) (ts_intermediates ts);
     (_, loss_grad, softmax) \<leftarrow> fl_loss_forward lm output (sm_label (ts_sample ts)) (ts_loss_grad ts)
        out_features (tc_loss_type config) (ts_softmax ts);
     (model, back) \<leftarrow> fl_model_backward model loss_grad (sm_input (ts_sample ts)) scr (ts_back ts);
     model \<leftarrow> (if 0 < tc_grad_clip_norm config then do {
         g \<leftarrow> fl_grad_clip lm (md_grad model) (md_total_params model) (tc_grad_clip_norm config);
         Some (model\<lparr>md_grad := g\<rparr>) }
       else Some model);
     model \<leftarrow> fl_model_sgd_step model (tc_learning_rate config);
     model \<leftarrow> fl_model_zero_grad model;
     Some (model, ts\<lparr>ts_output := output, ts_loss_grad := loss_grad, ts_softmax := softmax,
       ts_back := back, ts_intermediates := scr\<rparr>) })"

partial_function (option) train_loop ::
  "libm \<Rightarrow> FLTrainConfig \<Rightarrow> u8 \<Rightarrow> 'e data_cb \<Rightarrow> 'e \<Rightarrow> u16 \<Rightarrow> FLModel \<times> train_state
    \<Rightarrow> (u16 \<times> (FLModel \<times> train_state) \<times> 'e) option" where
  "train_loop lm config out_features data_cb e n_samples s =
     (let (more, sample, e) = data_cb e (ts_sample (snd s));
          s = (fst s, (snd s)\<lparr>ts_sample := sample\<rparr>)
      in if \<not> more then Some (n_samples, s, e)
         else do { s \<leftarrow> train_step lm config out_features s;
                   train_loop lm config out_features data_cb e (n_samples + 1) s })"

definition fl_train_epoch ::
  "libm \<Rightarrow> FLTrainConfig \<Rightarrow> 'e data_cb \<Rightarrow> 'e \<Rightarrow> FLModel \<times> train_state
    \<Rightarrow> (u16 \<times> (FLModel \<times> train_state) \<times> 'e) option" where
  "fl_train_epoch lm config data_cb e s =
     (let (model, ts) = s in do {
       last \<leftarrow> (if md_layer_count model = 0 then None
               else rd (md_layers model) (unat (md_layer_count model) - 1));
       model \<leftarrow> fl_model_zero_grad model;
       train_loop lm config (ucast (ly_out_features last)) data_cb e 0 (model, ts) })"

text \<open>The scratch buffer is the static \<^verbatim>\<open>intermediates\<close> of \<^verbatim>\<open>fl_train_run\<close>.\<close>

definition fl_train_run ::
  "libm \<Rightarrow> FLTrainConfig \<Rightarrow> 'e data_cb \<Rightarrow> 'e \<Rightarrow> FLModel \<times> train_state
    \<Rightarrow> (u32 \<times> (FLModel \<times> train_state) \<times> 'e) option" where
  "fl_train_run lm config data_cb e s =
     for_lt (unat (tc_epochs config)) (\<lambda>_ (total, s, e). do {
       (n, s, e) \<leftarrow> fl_train_epoch lm config data_cb e s;
       Some (total + ucast n, s, e) }) (0, s, e)"

end
