(* ===== verification/Sparse.thy ===== *)
theory Sparse
  imports Frame Quant "HOL-Library.Multiset"
begin

text \<open>
  Top-k sparse gradients and their fragments: \<^verbatim>\<open>common/include/fl_sparse.h\<close> and
  \<^verbatim>\<open>common/src/fl_sparse.c\<close>.

  The two static work arrays of the encoder keep their declared sizes; every cell of them
  that is read was written in the same call, so their start value (zero, as C
  initialises statics) does not matter.
\<close>

record FLSparseBuffer =
  sb_entries :: "FLGradientEntry list"
  sb_count :: u16

definition wf_sparse :: "FLSparseBuffer \<Rightarrow> bool" where
  "wf_sparse b \<longleftrightarrow> length (sb_entries b) = FL_SPARSE_MAX_ENTRIES
     \<and> unat (sb_count b) \<le> FL_SPARSE_MAX_ENTRIES"

text \<open>The entries in use.\<close>

definition sb_list :: "FLSparseBuffer \<Rightarrow> FLGradientEntry list" where
  "sb_list b = take (unat (sb_count b)) (sb_entries b)"

section \<open>Encoding\<close>

text \<open>The first loop: \<^verbatim>\<open>eff[i] = grad[i]; if (residual) eff[i] += residual[i]\<close>.\<close>

definition sparse_eff :: "f32 list \<Rightarrow> f32 list ptr \<Rightarrow> nat \<Rightarrow> f32 list option" where
  "sparse_eff grad residual pc =
     for_lt pc (\<lambda>i eff. do {
       g \<leftarrow> rd grad i;
       eff \<leftarrow> wr eff i g;
       (case residual of
          None \<Rightarrow> Some eff
        | Some r \<Rightarrow> do { e \<leftarrow> rd eff i; x \<leftarrow> rd r i; wr eff i (e + x) }) })
     (replicate FL_MODEL_MAX_PARAMS 0)"

text \<open>The inner loop of the selection: the largest magnitude that is not yet selected.\<close>

definition sparse_best :: "f32 list \<Rightarrow> bytes \<Rightarrow> nat \<Rightarrow> (f32 \<times> u16) option" where
  "sparse_best eff selected pc =
     for_lt pc (\<lambda>i (best_val, best_idx). do {
       t \<leftarrow> bm_test selected i;
       if t then Some (best_val, best_idx)
       else do {
         e \<leftarrow> rd eff i;
         let a = f_abs e;
         if best_idx = 0xFFFF \<or> best_val < a then Some (a, of_nat i)
         else Some (best_val, best_idx) } })
     (0, 0xFFFF)"

text \<open>The outer loop, with its \<^verbatim>\<open>break\<close>.\<close>

fun sparse_select ::
  "f32 list \<Rightarrow> nat \<Rightarrow> nat \<Rightarrow> bytes \<Rightarrow> FLSparseBuffer \<Rightarrow> (bytes \<times> FLSparseBuffer) option" where
  "sparse_select eff pc 0 selected out = Some (selected, out)"
| "sparse_select eff pc (Suc k) selected out =
     do { (best_val, best_idx) \<leftarrow> sparse_best eff selected pc;
          if best_idx = 0xFFFF \<or> best_val < F32 0x3089705F then Some (selected, out)  \<comment> \<open>\<^verbatim>\<open>1e-9f\<close>\<close>
          else do {
            selected \<leftarrow> bm_set selected (unat best_idx);
            e \<leftarrow> rd eff (unat best_idx);
            q \<leftarrow> fl_quant_q8 e;
            es \<leftarrow> wr (sb_entries out) (unat (sb_count out))
                    \<lparr>ge_param_index = best_idx, ge_delta_q8 = q\<rparr>;
            sparse_select eff pc k selected
              (out\<lparr>sb_entries := es, sb_count := sb_count out + 1\<rparr>) } }"

text \<open>The last loop: what was sent leaves the residual, the rest is carried over.\<close>

definition sparse_residual :: "f32 list \<Rightarrow> bytes \<Rightarrow> nat \<Rightarrow> f32 list \<Rightarrow> f32 list option" where
  "sparse_residual eff selected pc residual =
     for_lt pc (\<lambda>i r. do {
       t \<leftarrow> bm_test selected i;
       e \<leftarrow> rd eff i;
       wr r i (if t then 0 else e) }) residual"

definition fl_sparse_encode ::
  "f32 list \<Rightarrow> u16 \<Rightarrow> u16 \<Rightarrow> f32 list ptr \<Rightarrow> FLSparseBuffer
     \<Rightarrow> (u16 \<times> f32 list ptr \<times> FLSparseBuffer) option" where
  "fl_sparse_encode grad param_count topk residual out =
     (let topk = (if of_nat FL_SPARSE_MAX_ENTRIES < topk then of_nat FL_SPARSE_MAX_ENTRIES else topk);
          topk = (if param_count < topk then param_count else topk);
          param_count = (if of_nat FL_MODEL_MAX_PARAMS < param_count
                         then of_nat FL_MODEL_MAX_PARAMS else param_count);
          pc = unat param_count
      in do {
        eff \<leftarrow> sparse_eff grad residual pc;
        selected \<leftarrow> memcpy_at (replicate (FL_MODEL_MAX_PARAMS div 8 + 1) 0) 0
                      (replicate (pc div 8 + 1) 0);
        (selected, out) \<leftarrow> sparse_select eff pc (unat topk) selected (out\<lparr>sb_count := 0\<rparr>);
        residual \<leftarrow> (case residual of
            None \<Rightarrow> Some None
          | Some r \<Rightarrow> do { r \<leftarrow> sparse_residual eff selected pc r; Some (Some r) });
        Some (sb_count out, residual, out) })"

section \<open>Decoding\<close>

definition fl_sparse_decode ::
  "FLSparseBuffer \<Rightarrow> f32 list \<Rightarrow> u16 \<Rightarrow> bool \<Rightarrow> f32 list option" where
  "fl_sparse_decode buf grad param_count accumulate =
     do { grad \<leftarrow> (if accumulate then Some grad
                   else memcpy_at grad 0 (replicate (unat param_count) 0));
          for_lt (unat (sb_count buf)) (\<lambda>i grad. do {
            e \<leftarrow> rd (sb_entries buf) i;
            let idx = ge_param_index e;
            if idx < param_count then do {
              g \<leftarrow> rd grad (unat idx);
              wr grad (unat idx) (g + fl_dequant_q8 (ge_delta_q8 e)) }
            else Some grad }) grad }"

section \<open>Fragments\<close>

definition fl_sparse_fragment_count :: "FLSparseBuffer \<Rightarrow> u8" where
  "fl_sparse_fragment_count buf =
     of_nat ((unat (sb_count buf) + FL_GRADIENT_ENTRIES_PER_FRAME - 1)
             div FL_GRADIENT_ENTRIES_PER_FRAME)"

text \<open>The result: the returned \<^verbatim>\<open>int\<close>, the payload array and \<^verbatim>\<open>*payload_len\<close>.\<close>

definition fl_sparse_write_fragment ::
  "bytes \<Rightarrow> u8 \<Rightarrow> FLSparseBuffer \<Rightarrow> u8 \<Rightarrow> (int \<times> bytes \<times> u8) option" where
  "fl_sparse_write_fragment payload payload_len buf frag_index =
     (let start = (of_nat (unat frag_index * FL_GRADIENT_ENTRIES_PER_FRAME) :: u16) in
      if sb_count buf \<le> start then Some (- 1, payload, payload_len)
      else do {
        let count = sb_count buf - start;
        let count = (if of_nat FL_GRADIENT_ENTRIES_PER_FRAME < count
                     then of_nat FL_GRADIENT_ENTRIES_PER_FRAME else count);
        let len = (of_nat (unat count * FL_SIZEOF_GRADIENT_ENTRY) :: u8);
        bs \<leftarrow> rd_slice (concat (map entry_bytes (sb_entries buf)))
               (unat start * FL_SIZEOF_GRADIENT_ENTRY) (unat len);
        payload \<leftarrow> memcpy_at payload 0 bs;
        Some (0, payload, len) })"

text \<open>The bytes copied over \<^verbatim>\<open>entries[count..]\<close> are read back as entries.\<close>

fun entries_of_bytes :: "bytes \<Rightarrow> FLGradientEntry list" where
  "entries_of_bytes (a # b # c # bs) =
     \<lparr>ge_param_index = of_le16 a b, ge_delta_q8 = c\<rparr> # entries_of_bytes bs"
| "entries_of_bytes _ = []"

definition fl_sparse_read_fragment ::
  "bytes \<Rightarrow> u8 \<Rightarrow> FLSparseBuffer \<Rightarrow> (int \<times> FLSparseBuffer) option" where
  "fl_sparse_read_fragment payload payload_len out =
     (if unat payload_len mod FL_SIZEOF_GRADIENT_ENTRY \<noteq> 0 then Some (- 1, out)
      else do {
        let count = (of_nat (unat payload_len div FL_SIZEOF_GRADIENT_ENTRY) :: u16);
        if FL_SPARSE_MAX_ENTRIES < unat (sb_count out) + unat count then Some (- 1, out)
        else do {
          bs \<leftarrow> rd_slice payload 0 (unat payload_len);
          es \<leftarrow> memcpy_at (sb_entries out) (unat (sb_count out)) (entries_of_bytes bs);
          Some (int (unat count),
                out\<lparr>sb_entries := es, sb_count := sb_count out + count\<rparr>) } })"


section \<open>The selection loop\<close>

definition eff_at :: "f32 list \<Rightarrow> f32 list ptr \<Rightarrow> nat \<Rightarrow> f32" where
  "eff_at grad residual i = (case residual of None \<Rightarrow> grad ! i | Some r \<Rightarrow> grad ! i + r ! i)"

lemma sparse_eff_total:
  assumes "pc \<le> length grad" and "pc \<le> FL_MODEL_MAX_PARAMS"
    and "\<forall>r. residual = Some r \<longrightarrow> pc \<le> length r"
  shows "sparse_eff grad residual pc
    = Some (map_prefix pc (\<lambda>i _. eff_at grad residual i) (replicate FL_MODEL_MAX_PARAMS 0))"
  unfolding sparse_eff_def
  by (rule for_lt_map) (use assms in \<open>auto simp: eff_at_def split: option.split\<close>)

text \<open>The state of the selection: a bitmap of the chosen indices.\<close>

definition chosen :: "bytes \<Rightarrow> nat \<Rightarrow> nat set" where
  "chosen bm pc = {i. i < pc \<and> bm_mem bm i}"

definition is_best :: "f32 list \<Rightarrow> nat \<Rightarrow> nat set \<Rightarrow> f32 \<times> u16 \<Rightarrow> bool" where
  "is_best eff j S b \<longleftrightarrow>
     (if snd b = 0xFFFF then \<forall>i < j. i \<in> S
      else unat (snd b) < j \<and> unat (snd b) \<notin> S \<and> fst b = f_abs (eff ! unat (snd b))
        \<and> (\<forall>i < j. i \<notin> S \<longrightarrow> \<bar>f_ord (eff ! i)\<bar> \<le> \<bar>f_ord (eff ! unat (snd b))\<bar>))"

lemma sparse_best_spec:
  assumes pc: "pc \<le> FL_MODEL_MAX_PARAMS" "pc \<le> length eff" "pc div 8 < length bm"
    and nan: "\<forall>i < pc. \<not> f_nan (eff ! i)"
  shows "\<exists>b. sparse_best eff bm pc = Some b \<and> is_best eff pc (chosen bm pc) b"
  unfolding sparse_best_def
proof (rule for_lt_inv [where P = "\<lambda>j. is_best eff j (chosen bm pc)"])
  show "is_best eff 0 (chosen bm pc) (0, 0xFFFF)" by (simp add: is_best_def)
next
  fix j b
  assume j: "j < pc" and B: "is_best eff j (chosen bm pc) b"
  obtain bv bi where b: "b = (bv, bi)" by (cases b)
  have "j div 8 \<le> pc div 8" using j by (intro div_le_mono) simp
  then have t: "bm_test bm j = Some (j \<in> chosen bm pc)" using pc j by (simp add: chosen_def)
  have u: "unat (of_nat j :: u16) = j" using j pc by (intro unat_of_nat_u16) simp
  have oj: "f_ord (f_abs (eff ! j)) = \<bar>f_ord (eff ! j)\<bar>" "\<not> f_nan (eff ! j)"
    using nan j by (simp_all add: f_abs_ord)
  have nF: "(of_nat j :: u16) \<noteq> 0xFFFF"
    using arg_cong [of "of_nat j :: u16" "0xFFFF" unat] u j pc by auto
  show "\<exists>s'. (case b of (best_val, best_idx) \<Rightarrow> do {
       t \<leftarrow> bm_test bm j;
       if t then Some (best_val, best_idx)
       else do {
         e \<leftarrow> rd eff j;
         let a = f_abs e;
         if best_idx = 0xFFFF \<or> best_val < a then Some (a, of_nat j)
         else Some (best_val, best_idx) } }) = Some s' \<and> is_best eff (Suc j) (chosen bm pc) s'"
  proof (cases "j \<in> chosen bm pc")
    case True
    then show ?thesis using B by (auto simp: b t is_best_def less_Suc_eq split: if_splits)
  next
    case False
    show ?thesis
    proof (cases "bi = 0xFFFF")
      case True
      then show ?thesis using B False j pc oj u nF
        by (auto simp: b t is_best_def less_Suc_eq Let_def split: if_splits)
    next
      case neq: False
      then have k: "unat bi < j" "unat bi \<notin> chosen bm pc" "bv = f_abs (eff ! unat bi)"
        "\<forall>i < j. i \<notin> chosen bm pc \<longrightarrow> \<bar>f_ord (eff ! i)\<bar> \<le> \<bar>f_ord (eff ! unat bi)\<bar>"
        using B by (simp_all add: is_best_def b)
      have ok: "\<not> f_nan (eff ! unat bi)" using nan k(1) j by simp
      then have lt: "bv < f_abs (eff ! j) \<longleftrightarrow> \<bar>f_ord (eff ! unat bi)\<bar> < \<bar>f_ord (eff ! j)\<bar>"
        by (simp add: k(3) less_f32_iff oj f_abs_ord)
      show ?thesis
      proof (cases "bv < f_abs (eff ! j)")
        case True
        then show ?thesis using k lt False j pc u nF neq
          by (auto simp: b t is_best_def less_Suc_eq Let_def intro: order.trans less_imp_le)
      next
        case nlt: False
        then show ?thesis using k lt False j pc neq
          by (auto simp: b t is_best_def less_Suc_eq Let_def)
      qed
    qed
  qed
qed


definition sparse_entry :: "f32 list \<Rightarrow> nat \<Rightarrow> FLGradientEntry" where
  "sparse_entry eff i =
     \<lparr>ge_param_index = of_nat i, ge_delta_q8 = of_int (q8_value (f_ord (eff ! i)))\<rparr>"

abbreviation mag_at :: "f32 list \<Rightarrow> nat \<Rightarrow> int" where
  "mag_at eff i \<equiv> \<bar>f_ord (eff ! i)\<bar>"

abbreviation sparse_tiny :: int where "sparse_tiny \<equiv> f_ord (F32 0x3089705F)"

text \<open>What holds of the list of chosen indices after every step: the abstract top-k.\<close>

definition top_list :: "f32 list \<Rightarrow> nat \<Rightarrow> nat list \<Rightarrow> bool" where
  "top_list eff pc ks \<longleftrightarrow> distinct ks \<and> set ks \<subseteq> {..<pc}
     \<and> sorted_wrt (\<lambda>i j. mag_at eff j \<le> mag_at eff i) ks
     \<and> (\<forall>i \<in> set ks. sparse_tiny \<le> mag_at eff i)
     \<and> (\<forall>i \<in> set ks. \<forall>j < pc. j \<notin> set ks \<longrightarrow> mag_at eff j \<le> mag_at eff i)"

definition select_inv :: "f32 list \<Rightarrow> nat \<Rightarrow> nat list \<Rightarrow> bytes \<Rightarrow> FLSparseBuffer \<Rightarrow> bool" where
  "select_inv eff pc ks bm out \<longleftrightarrow> top_list eff pc ks \<and> chosen bm pc = set ks
     \<and> length ks \<le> FL_SPARSE_MAX_ENTRIES \<and> sb_count out = of_nat (length ks)
     \<and> length (sb_entries out) = FL_SPARSE_MAX_ENTRIES
     \<and> take (length ks) (sb_entries out) = map (sparse_entry eff) ks"

lemma top_list_snoc:
  assumes "top_list eff pc ks" "i < pc" "i \<notin> set ks" "sparse_tiny \<le> mag_at eff i"
    and "\<forall>j < pc. j \<notin> set ks \<longrightarrow> mag_at eff j \<le> mag_at eff i"
  shows "top_list eff pc (ks @ [i])"
  using assms by (auto simp: top_list_def sorted_wrt_append)

lemma sparse_select_step:
  assumes pc: "pc \<le> FL_MODEL_MAX_PARAMS" "pc \<le> length eff" "pc div 8 < length bm"
    and nan: "\<forall>i < pc. \<not> f_nan (eff ! i)"
    and inv: "select_inv eff pc ks bm out" and room: "length ks < FL_SPARSE_MAX_ENTRIES"
  obtains (stop) "sparse_select eff pc (Suc k) bm out = Some (bm, out)"
      "\<forall>j < pc. j \<notin> set ks \<longrightarrow> mag_at eff j < sparse_tiny"
  | (pick) i bm' out' where "sparse_select eff pc (Suc k) bm out = sparse_select eff pc k bm' out'"
      "select_inv eff pc (ks @ [i]) bm' out'" "length bm' = length bm"
proof -
  note I = inv [unfolded select_inv_def]
  obtain bv bi where b: "sparse_best eff bm pc = Some (bv, bi)"
    and best: "is_best eff pc (chosen bm pc) (bv, bi)"
    using sparse_best_spec [OF pc nan] by fastforce
  have tiny: "\<not> f_nan (F32 0x3089705F)" by (simp add: f32_eval)
  show ?thesis
  proof (cases "bi = 0xFFFF \<or> bv < F32 0x3089705F")
    case True
    have "\<forall>j < pc. j \<notin> set ks \<longrightarrow> mag_at eff j < sparse_tiny"
    proof (cases "bi = 0xFFFF")
      case True
      then show ?thesis using best I by (simp add: is_best_def)
    next
      case False
      have bi: "unat bi < pc" "bv = f_abs (eff ! unat bi)"
        "\<forall>j < pc. j \<notin> set ks \<longrightarrow> mag_at eff j \<le> mag_at eff (unat bi)"
        using best False I by (simp_all add: is_best_def)
      have "mag_at eff (unat bi) < sparse_tiny"
        using True False nan bi(1) by (simp add: bi(2) less_f32_iff f_abs_ord)
      with bi(3) show ?thesis by (meson le_less_trans)
    qed
    with True show ?thesis using b by (intro stop) simp_all
  next
    case False
    define i where "i = unat bi"
    have i: "i < pc" "i \<notin> set ks" "bv = f_abs (eff ! i)" "of_nat i = bi"
      "\<forall>j < pc. j \<notin> set ks \<longrightarrow> mag_at eff j \<le> mag_at eff i"
      using best False I by (simp_all add: is_best_def i_def)
    have ti: "sparse_tiny \<le> mag_at eff i"
      using False nan i(1) tiny by (simp add: i(3) less_f32_iff f_abs_ord)
    have "i div 8 \<le> pc div 8" using i(1) by (intro div_le_mono) simp
    then have "i div 8 < length bm" using pc(3) by simp
    then obtain bm' where bm': "bm_set bm i = Some bm'" "length bm' = length bm"
      "\<And>j. bm_mem bm' j \<longleftrightarrow> i = j \<or> bm_mem bm j" by (rule bm_set_total) blast
    have n: "unat (sb_count out) = length ks"
      using I room by (simp add: unat_of_nat_u16)
    define out' where "out' = out\<lparr>sb_entries := (sb_entries out)[length ks := sparse_entry eff i],
      sb_count := sb_count out + 1\<rparr>"
    have wr: "wr (sb_entries out) (unat (sb_count out))
        \<lparr>ge_param_index = bi, ge_delta_q8 = of_int (q8_value (f_ord (eff ! i)))\<rparr>
      = Some ((sb_entries out)[length ks := sparse_entry eff i])"
      using I room unfolding n by (simp add: sparse_entry_def i(4))
    have "sparse_select eff pc (Suc k) bm out = sparse_select eff pc k bm' out'"
      using False b bm'(1) wr nan pc(2) i(1)
      by (simp add: i_def [symmetric] fl_quant_q8_value out'_def)
    moreover have "select_inv eff pc (ks @ [i]) bm' out'"
      unfolding select_inv_def
    proof (intro conjI)
      show "top_list eff pc (ks @ [i])" using I i ti by (intro top_list_snoc) simp_all
      show "chosen bm' pc = set (ks @ [i])"
        using I i(1) bm'(3) by (auto simp: chosen_def)
      show "take (length (ks @ [i])) (sb_entries out') = map (sparse_entry eff) (ks @ [i])"
        using I room by (simp add: out'_def take_Suc_conv_app_nth)
    qed (use I room in \<open>simp_all add: out'_def\<close>)
    ultimately show ?thesis using bm'(2) by (rule pick)
  qed
qed

lemma sparse_select_spec:
  assumes pc: "pc \<le> FL_MODEL_MAX_PARAMS" "pc \<le> length eff" "pc div 8 < length bm"
    and nan: "\<forall>i < pc. \<not> f_nan (eff ! i)"
    and inv: "select_inv eff pc ks bm out" and room: "length ks + k \<le> FL_SPARSE_MAX_ENTRIES"
  shows "\<exists>bm' out' ls. sparse_select eff pc k bm out = Some (bm', out')
    \<and> select_inv eff pc (ks @ ls) bm' out' \<and> length bm' = length bm \<and> length ls \<le> k
    \<and> (length ls < k \<longrightarrow> (\<forall>j < pc. j \<notin> set (ks @ ls) \<longrightarrow> mag_at eff j < sparse_tiny))"
  using pc(3) inv room
proof (induction k arbitrary: ks bm out)
  case 0
  then show ?case by (intro exI [of _ bm] exI [of _ out] exI [of _ "[]"]) simp
next
  case (Suc k)
  have room': "length ks < FL_SPARSE_MAX_ENTRIES" using Suc.prems(3) by simp
  show ?case
  proof (rule sparse_select_step [OF pc(1,2) Suc.prems(1) nan Suc.prems(2) room', of k])
    assume s: "sparse_select eff pc (Suc k) bm out = Some (bm, out)"
      "\<forall>j < pc. j \<notin> set ks \<longrightarrow> mag_at eff j < sparse_tiny"
    then show ?thesis using Suc.prems
      by (intro exI [of _ bm] exI [of _ out] exI [of _ "[]"]) (simp del: sparse_select.simps)
  next
    fix i bm' out'
    assume p: "sparse_select eff pc (Suc k) bm out = sparse_select eff pc k bm' out'"
      "select_inv eff pc (ks @ [i]) bm' out'" "length bm' = length bm"
    have "pc div 8 < length bm'" "length (ks @ [i]) + k \<le> FL_SPARSE_MAX_ENTRIES"
      using Suc.prems p(3) by simp_all
    from Suc.IH [OF this(1) p(2) this(2)] obtain bm2 out2 ls where
      "sparse_select eff pc k bm' out' = Some (bm2, out2)"
      "select_inv eff pc ((ks @ [i]) @ ls) bm2 out2" "length bm2 = length bm'" "length ls \<le> k"
      "length ls < k \<longrightarrow> (\<forall>j < pc. j \<notin> set ((ks @ [i]) @ ls) \<longrightarrow> mag_at eff j < sparse_tiny)"
      by blast
    with p show ?thesis
      by (intro exI [of _ bm2] exI [of _ out2] exI [of _ "i # ls"]) (simp del: sparse_select.simps)
  qed
qed


section \<open>The encoder\<close>

text \<open>The effective gradient the encoder ranks: the gradient plus the carried residual.\<close>

definition effective :: "f32 list \<Rightarrow> f32 list ptr \<Rightarrow> nat \<Rightarrow> f32 list" where
  "effective grad residual pc = map (eff_at grad residual) [0..<pc]"

lemma top_list_cong:
  assumes "\<And>i. i < pc \<Longrightarrow> e ! i = e' ! i"
  shows "top_list e pc ks \<longleftrightarrow> top_list e' pc ks"
proof (cases "set ks \<subseteq> {..<pc}")
  case True
  then have ks: "x < pc" if "x \<in> set ks" for x using that by auto
  have m: "mag_at e i = mag_at e' i" if "i < pc" for i using assms that by simp
  have "sorted_wrt (\<lambda>i j. mag_at e j \<le> mag_at e i) ks \<longleftrightarrow>
      sorted_wrt (\<lambda>i j. mag_at e' j \<le> mag_at e' i) ks"
    by (intro iffI; elim sorted_wrt_mono_rel [rotated]) (simp_all add: m ks)
  then show ?thesis by (simp add: top_list_def m ks cong: ball_cong)
qed (simp add: top_list_def)

lemma residual_total:
  assumes "pc \<le> length eff" "pc div 8 < length bm" "pc \<le> length r"
  shows "sparse_residual eff bm pc r
    = Some (map_prefix pc (\<lambda>i _. if i \<in> chosen bm pc then 0 else eff ! i) r)"
  unfolding sparse_residual_def
proof (rule for_lt_map)
  fix i and b :: "f32 list"
  assume i: "i < pc" "i < length b"
  then have "i div 8 \<le> pc div 8" by (intro div_le_mono) simp
  then show "do { t \<leftarrow> bm_test bm i; e \<leftarrow> rd eff i; wr b i (if t then 0 else e) }
      = Some (b[i := if i \<in> chosen bm pc then 0 else eff ! i])"
    using i assms by (simp add: chosen_def)
qed (use assms in simp)

text \<open>The clamped arguments of a call.\<close>

definition sparse_k :: "u16 \<Rightarrow> u16 \<Rightarrow> nat" where
  "sparse_k param_count topk = min (min (unat topk) FL_SPARSE_MAX_ENTRIES) (unat param_count)"

lemma fl_sparse_encode_spec:
  fixes grad :: "f32 list" and param_count topk :: u16 and residual :: "f32 list ptr"
  defines "pc \<equiv> min (unat param_count) FL_MODEL_MAX_PARAMS"
  defines "eff \<equiv> effective grad residual pc"
  assumes "pc \<le> length grad" and "\<forall>r. residual = Some r \<longrightarrow> pc \<le> length r" and "wf_sparse out"
    and nan: "\<forall>i < pc. \<not> f_nan (eff_at grad residual i)"
  shows "\<exists>ks out'. fl_sparse_encode grad param_count topk residual out = Some (of_nat (length ks),
        map_option (map_prefix pc (\<lambda>i _. if i \<in> set ks then 0 else eff ! i)) residual, out')
    \<and> wf_sparse out' \<and> unat (sb_count out') = length ks
    \<and> sb_list out' = map (sparse_entry eff) ks \<and> top_list eff pc ks
    \<and> length ks \<le> sparse_k param_count topk
    \<and> (length ks < sparse_k param_count topk
        \<longrightarrow> (\<forall>j < pc. j \<notin> set ks \<longrightarrow> mag_at eff j < sparse_tiny))"
proof -
  define E where "E = map_prefix pc (\<lambda>i _. eff_at grad residual i) (replicate FL_MODEL_MAX_PARAMS 0)"
  have pc: "pc \<le> FL_MODEL_MAX_PARAMS" by (simp add: pc_def)
  have E: "E ! i = eff ! i" if "i < pc" for i
    using that pc by (simp add: E_def eff_def effective_def)
  have lE: "length E = FL_MODEL_MAX_PARAMS" by (simp add: E_def)
  have nanE: "\<forall>i < pc. \<not> f_nan (E ! i)" using nan pc by (simp add: E_def)
  have e: "sparse_eff grad residual pc = Some E"
    unfolding E_def by (rule sparse_eff_total) (use assms pc in simp_all)
  define bm :: bytes where "bm = replicate (FL_MODEL_MAX_PARAMS div 8 + 1) 0"
  have pc8: "pc div 8 \<le> FL_MODEL_MAX_PARAMS div 8" using pc by (rule div_le_mono)
  have lbm: "pc div 8 < length bm" using pc8 by (simp add: bm_def)
  have m: "memcpy_at (replicate (FL_MODEL_MAX_PARAMS div 8 + 1) 0) 0
      (replicate (pc div 8 + 1) 0) = Some bm"
    using pc8 by (simp add: bm_def flip: replicate_add replicate_Suc)
  have "\<not> bm_mem bm i" if "i < pc" for i
  proof -
    have "i div 8 \<le> pc div 8" using that by (intro div_le_mono) simp
    then show ?thesis using pc8 by (simp add: bm_def del: replicate_Suc)
  qed
  then have "chosen bm pc = {}" by (auto simp: chosen_def)
  then have inv: "select_inv E pc [] bm (out\<lparr>sb_count := 0\<rparr>)"
    using assms(5) by (simp add: select_inv_def top_list_def wf_sparse_def)
  let ?k = "sparse_k param_count topk"
  have "length ([] :: nat list) + ?k \<le> FL_SPARSE_MAX_ENTRIES" by (simp add: sparse_k_def)
  from sparse_select_spec [OF pc _ lbm nanE inv this] lE pc obtain bm' out' ks where s:
    "sparse_select E pc ?k bm (out\<lparr>sb_count := 0\<rparr>) = Some (bm', out')"
    "select_inv E pc ks bm' out'" "length bm' = length bm" "length ks \<le> ?k"
    "length ks < ?k \<longrightarrow> (\<forall>j < pc. j \<notin> set ks \<longrightarrow> mag_at E j < sparse_tiny)" by auto
  note I = s(2) [unfolded select_inv_def]
  have n: "unat (sb_count out') = length ks" using I by (simp add: unat_of_nat_u16)
  have kset: "i < pc" if "i \<in> set ks" for i using I that by (auto simp: top_list_def)
  have k: "unat (if param_count < (if of_nat FL_SPARSE_MAX_ENTRIES < topk then of_nat FL_SPARSE_MAX_ENTRIES else topk)
      then param_count else (if of_nat FL_SPARSE_MAX_ENTRIES < topk then of_nat FL_SPARSE_MAX_ENTRIES else topk)) = ?k"
    by (auto simp: sparse_k_def word_less_nat_alt min_def)
  have p: "unat (if of_nat FL_MODEL_MAX_PARAMS < param_count then of_nat FL_MODEL_MAX_PARAMS
      else param_count) = pc"
    by (auto simp: pc_def word_less_nat_alt min_def)
  have r: "(case residual of None \<Rightarrow> Some None
      | Some r \<Rightarrow> do { r \<leftarrow> sparse_residual E bm' pc r; Some (Some r) })
    = Some (map_option (map_prefix pc (\<lambda>i _. if i \<in> set ks then 0 else E ! i)) residual)"
    using residual_total [of pc E bm'] lE pc s(3) lbm assms(4) I
    by (auto split: option.split)
  have rE: "map_prefix pc (\<lambda>i _. if i \<in> set ks then 0 else E ! i)
      = map_prefix pc (\<lambda>i _. if i \<in> set ks then 0 else eff ! i)"
    by (rule ext) (auto simp: map_prefix_def E)
  have "fl_sparse_encode grad param_count topk residual out = Some (of_nat (length ks),
      map_option (map_prefix pc (\<lambda>i _. if i \<in> set ks then 0 else eff ! i)) residual, out')"
    unfolding fl_sparse_encode_def Let_def k p e m
    using s(1) r I by (simp add: rE)
  moreover have "sb_list out' = map (sparse_entry eff) ks"
    using I n E kset by (simp add: sb_list_def sparse_entry_def)
  moreover have "top_list eff pc ks" using I top_list_cong [of pc E eff] E by blast
  moreover have "length ks < ?k \<longrightarrow> (\<forall>j < pc. j \<notin> set ks \<longrightarrow> mag_at eff j < sparse_tiny)"
    using s(5) E by simp
  moreover have "wf_sparse out'" using I n by (simp add: wf_sparse_def)
  ultimately show ?thesis using n s(4) by blast
qed


text \<open>C15: The encoder selects a true top-k. For a gradient whose effective entries are not NaN it
  returns distinct indices within the vector, in order of falling magnitude; no index left out
  has a larger magnitude than one that was taken; it takes fewer than the clamped \<open>k\<close> only when
  all that is left is below \<open>1e-9\<close>; and each entry carries the Q8 value of its parameter.\<close>

theorem sparse_encode_topk:
  fixes grad :: "f32 list" and param_count topk :: u16 and residual :: "f32 list ptr"
  defines "pc \<equiv> min (unat param_count) FL_MODEL_MAX_PARAMS"
  defines "eff \<equiv> effective grad residual pc"
  assumes "pc \<le> length grad" and "\<forall>r. residual = Some r \<longrightarrow> pc \<le> length r" and "wf_sparse out"
    and "\<forall>i < pc. \<not> f_nan (eff_at grad residual i)"
  shows "\<exists>ks residual' out'. fl_sparse_encode grad param_count topk residual out
      = Some (of_nat (length ks), residual', out') \<and> wf_sparse out'
    \<and> sb_list out' = map (sparse_entry eff) ks \<and> distinct ks \<and> set ks \<subseteq> {..<pc}
    \<and> sorted_wrt (\<lambda>i j. mag_at eff j \<le> mag_at eff i) ks
    \<and> (\<forall>i \<in> set ks. \<forall>j < pc. j \<notin> set ks \<longrightarrow> mag_at eff j \<le> mag_at eff i)
    \<and> length ks \<le> sparse_k param_count topk
    \<and> (length ks < sparse_k param_count topk
        \<longrightarrow> (\<forall>j < pc. j \<notin> set ks \<longrightarrow> mag_at eff j < sparse_tiny))"
  using fl_sparse_encode_spec [OF assms(3-6) [unfolded pc_def], folded pc_def eff_def, of topk]
  unfolding top_list_def by blast

lemma pair_ok: "\<forall>i < min (unat (2 :: u16)) FL_MODEL_MAX_PARAMS. \<not> f_nan (eff_at [1, - 1] None i)"
proof -
  have "unat (2 :: u16) = 2" by simp
  then show ?thesis by (auto simp: eff_at_def less_2_cases_iff)
qed

definition sparse_blank :: FLSparseBuffer where
  "sparse_blank = \<lparr>sb_entries = replicate FL_SPARSE_MAX_ENTRIES
     \<lparr>ge_param_index = 0, ge_delta_q8 = 0\<rparr>, sb_count = 0\<rparr>"

lemma wf_sparse_blank [simp]: "wf_sparse sparse_blank"
  by (simp add: wf_sparse_def sparse_blank_def)

lemma sparse_encode_topk_witness:
  "\<exists>n r out'. fl_sparse_encode [1, - 1] 2 1 None sparse_blank = Some (n, r, out') \<and> wf_sparse out'"
  using sparse_encode_topk [of 2 "[1, - 1]" None sparse_blank 1] pair_ok by fastforce

text \<open>Error feedback: after the call the residual of a parameter is its whole effective
  gradient if the parameter was not sent, and zero if it was; in particular the rounding error
  of the sent entries is dropped, and cells beyond the parameter count are untouched.\<close>

theorem sparse_residual_update:
  fixes grad :: "f32 list" and param_count topk :: u16 and r :: "f32 list"
  defines "pc \<equiv> min (unat param_count) FL_MODEL_MAX_PARAMS"
  assumes "pc \<le> length grad" and "pc \<le> length r" and "wf_sparse out"
    and "\<forall>i < pc. \<not> f_nan (grad ! i + r ! i)"
  shows "\<exists>n r' out'. fl_sparse_encode grad param_count topk (Some r) out = Some (n, Some r', out')
    \<and> length r' = length r
    \<and> (\<forall>i < length r. r' ! i =
         (if pc \<le> i then r ! i
          else if of_nat i \<in> ge_param_index ` set (sb_list out') then 0 else grad ! i + r ! i))"
proof -
  have nan: "\<forall>i < pc. \<not> f_nan (eff_at grad (Some r) i)" using assms(5) by (simp add: eff_at_def)
  define eff where "eff = effective grad (Some r) pc"
  obtain ks out' where e: "fl_sparse_encode grad param_count topk (Some r) out
      = Some (of_nat (length ks),
          Some (map_prefix pc (\<lambda>i _. if i \<in> set ks then 0 else eff ! i) r), out')"
    and sb: "sb_list out' = map (sparse_entry eff) ks" and top: "top_list eff pc ks"
    using fl_sparse_encode_spec [of param_count grad "Some r" out topk, folded pc_def eff_def]
      assms nan by auto
  have ix: "of_nat i \<in> ge_param_index ` set (sb_list out') \<longleftrightarrow> i \<in> set ks" if "i < pc" for i
  proof -
    have "i < 65536" "\<forall>k \<in> set ks. k < 65536"
      using that top by (auto simp: pc_def top_list_def)
    then show ?thesis by (auto simp: sb sparse_entry_def image_iff of_nat_u16_inject)
  qed
  show ?thesis
    by ((rule exI)+, intro conjI, rule e) (auto simp: ix eff_def effective_def eff_at_def)
qed

section \<open>Decoding what was encoded\<close>

lemma f_ord_add_0: "\<not> f_nan x \<Longrightarrow> f_ord (0 + x) = f_ord x"
proof (cases "f_mag x = 0")
  case True
  moreover assume "\<not> f_nan x"
  moreover have "\<not> f_inf x" using True inf_code_less
    by (auto simp: f_inf_def f_mag_def inf_code_def)
  moreover have "f_ord (f_mk s 0) = 0" for s by (simp add: f_ord_def f_mag_def)
  ultimately show ?thesis
    by (simp add: plus_f32_def f_add_def Let_def f_ord_eq_0_iff [THEN iffD2])
qed (simp add: f_add_0_left)

lemma sparse_decode_distinct:
  assumes "wf_sparse buf" and "unat param_count \<le> length grad"
    and dist: "distinct (map ge_param_index (sb_list buf))"
  shows "\<exists>g. fl_sparse_decode buf grad param_count False = Some g \<and> length g = length grad
    \<and> (\<forall>i < unat param_count. of_nat i \<notin> ge_param_index ` set (sb_list buf) \<longrightarrow> g ! i = 0)
    \<and> (\<forall>e \<in> set (sb_list buf). ge_param_index e < param_count
        \<longrightarrow> f_ord (g ! unat (ge_param_index e)) = sint (ge_delta_q8 e) * 2 ^ 142)"
proof -
  let ?pc = "unat param_count" and ?n = "unat (sb_count buf)"
  define es where "es = sb_list buf"
  have len: "length es = ?n" "?n \<le> length (sb_entries buf)"
    using assms(1) by (simp_all add: es_def sb_list_def wf_sparse_def)
  have nth: "sb_entries buf ! j = es ! j" if "j < ?n" for j
    using that by (simp add: es_def sb_list_def)
  define g0 where "g0 = replicate ?pc 0 @ drop ?pc grad"
  have g0: "memcpy_at grad 0 (replicate ?pc 0) = Some g0" "length g0 = length grad"
    using assms(2) by (simp_all add: g0_def)
  let ?ix = "\<lambda>m. ge_param_index (es ! m)"
  let ?P = "\<lambda>j g. length g = length grad
    \<and> (\<forall>i < ?pc. (\<forall>m < j. ?ix m \<noteq> of_nat i) \<longrightarrow> g ! i = 0)
    \<and> (\<forall>m < j. ?ix m < param_count \<longrightarrow> f_ord (g ! unat (?ix m)) = sint (ge_delta_q8 (es ! m)) * 2 ^ 142)"
  have "\<exists>g. for_lt ?n (\<lambda>i grad. do {
            e \<leftarrow> rd (sb_entries buf) i;
            let idx = ge_param_index e;
            if idx < param_count then do {
              g \<leftarrow> rd grad (unat idx);
              wr grad (unat idx) (g + fl_dequant_q8 (ge_delta_q8 e)) }
            else Some grad }) g0 = Some g \<and> ?P ?n g"
  proof (rule for_lt_inv [where P = ?P])
    show "?P 0 g0" using g0(2) by (simp add: g0_def nth_append)
  next
    fix j g
    assume j: "j < ?n" and P: "?P j g"
    have rd: "rd (sb_entries buf) j = Some (es ! j)" using j len nth by simp
    have other: "?ix m \<noteq> ?ix j" if "m < j" for m
      using that j len dist nth_eq_iff_index_eq [OF dist, of m j] by (auto simp: es_def)
    show "\<exists>g'. do {
            e \<leftarrow> rd (sb_entries buf) j;
            let idx = ge_param_index e;
            if idx < param_count then do {
              x \<leftarrow> rd g (unat idx);
              wr g (unat idx) (x + fl_dequant_q8 (ge_delta_q8 e)) }
            else Some g } = Some g' \<and> ?P (Suc j) g'"
    proof (cases "?ix j < param_count")
      case True
      then have lt: "unat (?ix j) < ?pc" by (simp add: word_less_nat_alt)
      have z: "g ! unat (?ix j) = 0" using P lt other by simp
      let ?g = "g[unat (?ix j) := 0 + fl_dequant_q8 (ge_delta_q8 (es ! j))]"
      have "?P (Suc j) ?g"
      proof (intro conjI allI impI)
        fix i assume i: "i < ?pc" "\<forall>m < Suc j. ?ix m \<noteq> of_nat i"
        then have "unat (?ix j) \<noteq> i" by auto
        then show "?g ! i = 0" using P i by simp
      next
        fix m assume m: "m < Suc j" "?ix m < param_count"
        show "f_ord (?g ! unat (?ix m)) = sint (ge_delta_q8 (es ! m)) * 2 ^ 142"
        proof (cases "m = j")
          case True
          then show ?thesis using lt P assms(2)
            by (simp add: f_ord_add_0 fl_dequant_q8_ord)
        next
          case False
          then have "m < j" using m(1) by simp
          then have "unat (?ix j) \<noteq> unat (?ix m)" using other [of m] by (metis unsigned_word_eqI)
          then show ?thesis using P m(2) \<open>m < j\<close> by simp
        qed
      qed (use P in simp)
      moreover have "unat (?ix j) < length g" using lt P assms(2) by simp
      ultimately show ?thesis using True by (simp add: rd Let_def z)
    next
      case False
      then show ?thesis using P by (auto simp: rd Let_def less_Suc_eq)
    qed
  qed
  then obtain g where g: "fl_sparse_decode buf grad param_count False = Some g" "?P ?n g"
    by (auto simp: fl_sparse_decode_def g0(1))
  have "of_nat i \<notin> ge_param_index ` set (sb_list buf) \<longleftrightarrow> (\<forall>m < ?n. ?ix m \<noteq> of_nat i)" for i :: nat
    unfolding es_def [symmetric] by (fastforce simp: set_conv_nth image_iff len(1))
  then show ?thesis
    using g unfolding es_def [symmetric] by (auto simp: in_set_conv_nth len(1))
qed


text \<open>C16: What a receiver decodes from an encoder's buffer, into a zeroed gradient of at least
  the sender's length, is the sparse gradient itself: the exact Q8 value at every parameter that
  was sent and zero at every other one.\<close>

theorem sparse_decode_encode:
  fixes grad dense :: "f32 list" and n topk :: u16
  assumes "unat n \<le> FL_MODEL_MAX_PARAMS" and "unat n \<le> length grad" and "unat n \<le> length dense"
    and "wf_sparse out" and "\<forall>i < unat n. \<not> f_nan (grad ! i)"
  shows "\<exists>c out' g. fl_sparse_encode grad n topk None out = Some (c, None, out')
    \<and> fl_sparse_decode out' dense n False = Some g
    \<and> (\<forall>i < unat n. f_ord (g ! i) =
         (if of_nat i \<in> ge_param_index ` set (sb_list out')
          then q8_value (f_ord (grad ! i)) * 2 ^ 142 else 0))"
proof -
  define eff where "eff = effective grad None (unat n)"
  have mn: "min (unat n) FL_MODEL_MAX_PARAMS = unat n" using assms(1) by simp
  have eff: "eff ! i = grad ! i" if "i < unat n" for i
    using that by (simp add: eff_def effective_def eff_at_def)
  obtain ks out' where e: "fl_sparse_encode grad n topk None out = Some (of_nat (length ks), None, out')"
    and wf: "wf_sparse out'" and sb: "sb_list out' = map (sparse_entry eff) ks"
    and top: "top_list eff (unat n) ks"
    using fl_sparse_encode_spec [of n grad None out topk, unfolded mn, folded eff_def] assms(2,4,5)
    by (auto simp: eff_at_def)
  have ks: "k < unat n" if "k \<in> set ks" for k using that top by (auto simp: top_list_def)
  have k16: "unat (of_nat k :: u16) = k" if "k < unat n" for k
    by (rule unat_of_nat_u16) (use that unat_u16_less [of n] in linarith)
  have "inj_on (of_nat :: nat \<Rightarrow> u16) (set ks)" by (rule inj_onI) (metis ks k16)
  then have dist: "distinct (map ge_param_index (sb_list out'))"
    using top by (simp add: sb sparse_entry_def distinct_map top_list_def comp_def)
  obtain g where g: "fl_sparse_decode out' dense n False = Some g"
    "\<forall>i < unat n. of_nat i \<notin> ge_param_index ` set (sb_list out') \<longrightarrow> g ! i = 0"
    "\<forall>e \<in> set (sb_list out'). ge_param_index e < n
        \<longrightarrow> f_ord (g ! unat (ge_param_index e)) = sint (ge_delta_q8 e) * 2 ^ 142"
    using sparse_decode_distinct [OF wf assms(3) dist] by blast
  have val: "f_ord (g ! k) = q8_value (f_ord (grad ! k)) * 2 ^ 142" if k: "k \<in> set ks" for k
  proof -
    have "sint (of_int (q8_value (f_ord (eff ! k))) :: i8) = q8_value (f_ord (eff ! k))"
      by (rule sint_of_int_i8) (rule q8_value_range)+
    moreover have "of_nat k < n" using ks [OF k] k16 [OF ks [OF k]] by (simp add: word_less_nat_alt)
    moreover have "sparse_entry eff k \<in> set (sb_list out')" using k by (simp add: sb)
    ultimately show ?thesis
      using g(3) k16 [OF ks [OF k]] eff [OF ks [OF k]] by (fastforce simp: sparse_entry_def)
  qed
  have "of_nat i \<in> ge_param_index ` set (sb_list out') \<longleftrightarrow> i \<in> set ks" if "i < unat n" for i
    using that k16 ks by (auto simp: sb sparse_entry_def image_iff) (metis k16)
  then show ?thesis using e g(1,2) val by auto
qed

lemma sparse_decode_encode_witness:
  "\<exists>c out' g. fl_sparse_encode [1, - 1] 2 2 None sparse_blank = Some (c, None, out')
    \<and> fl_sparse_decode out' [0, 0] 2 False = Some g"
proof -
  have "unat (2 :: u16) = 2" by simp
  then have "\<forall>i < unat (2 :: u16). \<not> f_nan ([1, - 1] ! i)" by (auto simp: less_2_cases_iff)
  then show ?thesis
    using sparse_decode_encode [of 2 "[1, - 1]" "[0, 0]" sparse_blank 2] by fastforce
qed


section \<open>Fragmentation and reassembly\<close>

text \<open>The entries of fragment \<open>i\<close>.\<close>

definition frag_entries :: "FLSparseBuffer \<Rightarrow> nat \<Rightarrow> FLGradientEntry list" where
  "frag_entries buf i =
     take FL_GRADIENT_ENTRIES_PER_FRAME (drop (i * FL_GRADIENT_ENTRIES_PER_FRAME) (sb_list buf))"

definition frag_total :: "FLSparseBuffer \<Rightarrow> nat" where
  "frag_total buf = (length (sb_list buf) + FL_GRADIENT_ENTRIES_PER_FRAME - 1)
     div FL_GRADIENT_ENTRIES_PER_FRAME"

lemma length_sb_list: "wf_sparse buf \<Longrightarrow> length (sb_list buf) = unat (sb_count buf)"
  by (simp add: wf_sparse_def sb_list_def)

lemma concat_chunks:
  "concat (map (\<lambda>i. take n (drop (i * n) xs)) [0..<m]) = take (m * n) xs"
  by (induction m) (simp_all add: take_add add.commute [of n])

lemma frag_total_covers:
  "length (sb_list buf) \<le> frag_total buf * FL_GRADIENT_ENTRIES_PER_FRAME"
  "i < frag_total buf \<longleftrightarrow> i * FL_GRADIENT_ENTRIES_PER_FRAME < length (sb_list buf)"
proof -
  define b where "b = length (sb_list buf) + 71 - 1"
  have b: "b div 71 * 71 + b mod 71 = b" "b mod 71 < 71" by simp_all
  then show "length (sb_list buf) \<le> frag_total buf * FL_GRADIENT_ENTRIES_PER_FRAME"
    unfolding frag_total_def b_def [symmetric] by (simp only: b_def)
  have "i < b div 71 \<longleftrightarrow> Suc i \<le> b div 71" by linarith
  also have "\<dots> \<longleftrightarrow> Suc i * 71 \<le> b" by (simp only: less_eq_div_iff_mult_less_eq zero_less_numeral)
  also have "\<dots> \<longleftrightarrow> i * 71 < length (sb_list buf)" by (simp add: b_def Suc_le_eq)
  finally show "i < frag_total buf \<longleftrightarrow> i * FL_GRADIENT_ENTRIES_PER_FRAME < length (sb_list buf)"
    unfolding frag_total_def b_def .
qed

lemma frag_total_bound: "wf_sparse buf \<Longrightarrow> frag_total buf \<le> 15"
proof -
  assume "wf_sparse buf"
  then have "length (sb_list buf) + 71 - 1 \<le> 1094" by (simp add: length_sb_list wf_sparse_def)
  then have "(length (sb_list buf) + 71 - 1) div 71 \<le> 1094 div 71" by (rule div_le_mono)
  then show ?thesis unfolding frag_total_def by simp
qed

lemma entries_of_concat [simp]: "entries_of_bytes (concat (map entry_bytes es)) = es"
  by (induction es) (simp_all add: entry_bytes_def le16_def)


lemma fl_sparse_fragment_count_eq:
  assumes "wf_sparse buf"
  shows "unat (fl_sparse_fragment_count buf) = frag_total buf"
proof -
  have "unat (of_nat (frag_total buf) :: u8) = frag_total buf"
    by (rule unat_of_nat_u8) (use frag_total_bound [OF assms] in simp)
  then show ?thesis
    unfolding fl_sparse_fragment_count_def frag_total_def length_sb_list [OF assms] .
qed

lemma fl_sparse_write_fragment_eq:
  assumes wf: "wf_sparse buf" and i: "unat i < frag_total buf"
    and p: "FL_PAYLOAD_MAX \<le> length payload"
  shows "\<exists>rest. fl_sparse_write_fragment payload l buf i
    = Some (0, concat (map entry_bytes (frag_entries buf (unat i))) @ rest,
            of_nat (3 * length (frag_entries buf (unat i))))
    \<and> length (frag_entries buf (unat i)) \<le> 71"
proof -
  let ?s = "unat i * 71" and ?n = "unat (sb_count buf)" and ?fe = "frag_entries buf (unat i)"
  have n: "?n \<le> 1024" "length (sb_entries buf) = 1024" using wf by (simp_all add: wf_sparse_def)
  have s: "?s < ?n" using i frag_total_covers(2) [of "unat i" buf] wf by (simp add: length_sb_list)
  have su: "unat (of_nat ?s :: u16) = ?s" by (rule unat_of_nat_u16) (use s n in linarith)
  define c where "c = min 71 (?n - ?s)"
  have lf: "length ?fe = c" using wf by (simp add: frag_entries_def length_sb_list c_def min.commute)
  have le: "\<not> sb_count buf \<le> of_nat ?s" using s su by (simp add: word_le_nat_alt del: of_nat_mult)
  then have d: "unat (sb_count buf - of_nat ?s) = ?n - ?s"
    using su by (simp add: unat_sub del: of_nat_mult)
  have c: "unat (if of_nat 71 < sb_count buf - of_nat ?s then of_nat 71 else sb_count buf - of_nat ?s) = c"
    using d by (simp add: word_less_nat_alt c_def del: of_nat_mult)
  have c3: "unat (of_nat (c * 3) :: u8) = c * 3" by (rule unat_of_nat_u8) (simp add: c_def)
  have take: "take (c * 3) (drop (?s * 3) (concat (map entry_bytes es)))
      = concat (map entry_bytes (take c (drop ?s es)))" for es
  proof -
    have "length (entry_bytes e) = 3" for e by (rule gradient_entry.length_enc)
    then have d3: "drop (k * 3) (concat (map entry_bytes es)) = concat (map entry_bytes (drop k es))"
      "take (k * 3) (concat (map entry_bytes es)) = concat (map entry_bytes (take k es))" for k es
      by (induction es arbitrary: k; case_tac k; simp)+
    show ?thesis by (simp only: d3)
  qed
  have fe: "take c (drop ?s (sb_entries buf)) = ?fe"
    using n s by (simp add: frag_entries_def sb_list_def drop_take c_def min.commute)
  have "?s + c \<le> 1024" using s n by (simp add: c_def)
  then have "?s * 3 + c * 3 \<le> length (concat (map entry_bytes (sb_entries buf)))"
    using n(2) by (simp add: gradient_entry.length_concat_enc)
  then have rd: "rd_slice (concat (map entry_bytes (sb_entries buf))) (?s * 3) (c * 3)
      = Some (concat (map entry_bytes ?fe))"
    unfolding rd_slice_def take fe by (rule if_P)
  have "length (concat (map entry_bytes ?fe)) \<le> length payload"
    using p lf by (simp add: gradient_entry.length_concat_enc c_def)
  then have "fl_sparse_write_fragment payload l buf i
    = Some (0, concat (map entry_bytes ?fe) @ drop (length (concat (map entry_bytes ?fe))) payload,
            of_nat (c * 3))"
    using le by (simp only: fl_sparse_write_fragment_def Let_def c c3 su rd if_False
        bind.bind_lunit memcpy_at_0)
  moreover have "c \<le> 71" by (simp add: c_def)
  ultimately show ?thesis using lf by (auto simp: mult.commute)
qed

lemma fl_sparse_read_fragment_eq:
  assumes wf: "wf_sparse out" and es: "length es \<le> 85" "length (sb_list out) + length es \<le> 1024"
  shows "\<exists>out'. fl_sparse_read_fragment (concat (map entry_bytes es) @ rest) (of_nat (3 * length es)) out
      = Some (int (length es), out') \<and> wf_sparse out' \<and> sb_list out' = sb_list out @ es"
proof -
  let ?n = "unat (sb_count out)"
  have l: "unat (of_nat (3 * length es) :: u8) = 3 * length es"
    by (rule unat_of_nat_u8) (use es in linarith)
  have c: "unat (of_nat (length es) :: u16) = length es"
    by (rule unat_of_nat_u16) (use es in linarith)
  have n: "?n + length es \<le> 1024" "length (sb_entries out) = 1024"
    using wf es by (simp_all add: length_sb_list) (simp add: wf_sparse_def)
  define out' where "out' = out\<lparr>sb_entries := take ?n (sb_entries out) @ es @
      drop (?n + length es) (sb_entries out), sb_count := sb_count out + of_nat (length es)\<rparr>"
  have cnt: "unat (sb_count out + of_nat (length es)) = ?n + length es"
    using n(1) c by (simp add: unat_word_ariths(1))
  have "fl_sparse_read_fragment (concat (map entry_bytes es) @ rest) (of_nat (3 * length es)) out
      = Some (int (length es), out')"
    unfolding fl_sparse_read_fragment_def l
    using n c by (simp add: Let_def rd_slice_def memcpy_at_def out'_def gradient_entry.length_concat_enc)
  moreover have "wf_sparse out'" using n by (simp add: wf_sparse_def out'_def cnt)
  moreover have "sb_list out' = sb_list out @ es"
    using n by (simp add: sb_list_def out'_def cnt)
  ultimately show ?thesis by blast
qed


lemma read_fragment_total:
  assumes "wf_sparse out" and "unat len \<le> length payload"
  obtains r out' where "fl_sparse_read_fragment payload len out = Some (r, out')" and "wf_sparse out'"
proof -
  have es: "length (entries_of_bytes bs) = length bs div 3" for bs
    by (induction bs rule: entries_of_bytes.induct) simp_all
  let ?c = "unat len div 3"
  have "?c < 65536" using unat_u8_less [of len] div_le_dividend [of "unat len" 3] by linarith
  then have c: "unat (of_nat ?c :: u16) = ?c" by (rule unat_of_nat_u16)
  show ?thesis
  proof (cases "unat len mod 3 = 0 \<and> unat (sb_count out) + ?c \<le> 1024")
    case True
    then have l: "length (entries_of_bytes (take (unat len) payload)) = ?c"
      using es [of "take (unat len) payload"] assms(2) by (simp add: min_def)
    define out' where "out' = out\<lparr>sb_entries := take (unat (sb_count out)) (sb_entries out)
        @ entries_of_bytes (take (unat len) payload) @ drop (unat (sb_count out) + ?c) (sb_entries out),
      sb_count := sb_count out + of_nat ?c\<rparr>"
    have cnt: "unat (sb_count out + of_nat ?c) = unat (sb_count out) + ?c"
      using True by (simp only: unat_word_ariths(1) c) simp
    have "fl_sparse_read_fragment payload len out = Some (int ?c, out')"
      unfolding fl_sparse_read_fragment_def using True assms l c
      by (simp add: Let_def memcpy_at_def wf_sparse_def out'_def not_less)
    moreover have "wf_sparse out'" using True assms(1) l
      by (simp add: wf_sparse_def out'_def cnt)
    ultimately show ?thesis by (rule that)
  next
    case False
    then have "fl_sparse_read_fragment payload len out = Some (- 1, out)"
      by (auto simp: fl_sparse_read_fragment_def Let_def c)
    then show ?thesis using assms(1) by (rule that)
  qed
qed

text \<open>A sender that writes the fragments listed in \<open>is\<close>, one after the other, and a receiver
  that reads each of them into its buffer.\<close>

fun sparse_transfer :: "FLSparseBuffer \<Rightarrow> u8 list \<Rightarrow> FLSparseBuffer \<Rightarrow> FLSparseBuffer option" where
  "sparse_transfer buf [] acc = Some acc"
| "sparse_transfer buf (i # is) acc =
     do { (r, payload, len) \<leftarrow> fl_sparse_write_fragment (replicate FL_PAYLOAD_MAX 0) 0 buf i;
          (n, acc) \<leftarrow> fl_sparse_read_fragment payload len acc;
          sparse_transfer buf is acc }"

lemma sparse_transfer_eq:
  assumes wf: "wf_sparse buf" "wf_sparse acc" and ids: "\<forall>i \<in> set is. unat i < frag_total buf"
    and room: "length (sb_list acc) + length (concat (map (frag_entries buf \<circ> unat) is)) \<le> 1024"
  shows "\<exists>acc'. sparse_transfer buf is acc = Some acc' \<and> wf_sparse acc'
    \<and> sb_list acc' = sb_list acc @ concat (map (frag_entries buf \<circ> unat) is)"
  using wf(2) ids room
proof (induction "is" arbitrary: acc)
  case Nil
  then show ?case by simp
next
  case (Cons i js)
  have i: "unat i < frag_total buf" using Cons.prems(2) by simp
  obtain rest where w: "fl_sparse_write_fragment (replicate FL_PAYLOAD_MAX 0) 0 buf i
      = Some (0, concat (map entry_bytes (frag_entries buf (unat i))) @ rest,
              of_nat (3 * length (frag_entries buf (unat i))))"
    and l: "length (frag_entries buf (unat i)) \<le> 71"
    using fl_sparse_write_fragment_eq [OF wf(1) i, of "replicate FL_PAYLOAD_MAX 0" 0] by auto
  have le: "length (frag_entries buf (unat i)) \<le> 85" using l by simp
  have fit: "length (sb_list acc) + length (frag_entries buf (unat i)) \<le> 1024"
    using Cons.prems(3) by simp
  obtain acc1 where r: "fl_sparse_read_fragment
        (concat (map entry_bytes (frag_entries buf (unat i))) @ rest)
        (of_nat (3 * length (frag_entries buf (unat i)))) acc
      = Some (int (length (frag_entries buf (unat i))), acc1)"
    "wf_sparse acc1" "sb_list acc1 = sb_list acc @ frag_entries buf (unat i)"
    using fl_sparse_read_fragment_eq [OF Cons.prems(1) le fit, of rest] by auto
  have "length (sb_list acc1) + length (concat (map (frag_entries buf \<circ> unat) js)) \<le> 1024"
    using Cons.prems(3) by (simp add: r(3) comp_def add.assoc)
  then obtain acc' where "sparse_transfer buf js acc1 = Some acc'" "wf_sparse acc'"
    "sb_list acc' = sb_list acc1 @ concat (map (frag_entries buf \<circ> unat) js)"
    using Cons.IH [OF r(2)] Cons.prems(2) unfolding comp_def by auto
  then show ?case
    using r(1,3) w by (simp add: comp_def del: of_nat_mult)
qed

definition frag_ids :: "FLSparseBuffer \<Rightarrow> u8 list" where
  "frag_ids buf = map of_nat [0..<unat (fl_sparse_fragment_count buf)]"

lemma concat_frag_ids:
  assumes "wf_sparse buf"
  shows "concat (map (frag_entries buf \<circ> unat) (frag_ids buf)) = sb_list buf"
proof -
  have u: "unat (of_nat i :: u8) = i" if "i < frag_total buf" for i
    by (rule unat_of_nat_u8) (use that frag_total_bound [OF assms] in simp)
  have "map (frag_entries buf \<circ> unat) (frag_ids buf) = map (frag_entries buf) [0..<frag_total buf]"
    by (simp add: frag_ids_def fl_sparse_fragment_count_eq [OF assms] u)
  then show ?thesis
    using frag_total_covers(1) [of buf] concat_chunks [of 71 "sb_list buf" "frag_total buf"]
    by (simp add: frag_entries_def [abs_def])
qed

lemma length_concat_mset: "mset xs = mset ys \<Longrightarrow> length (concat (map f xs)) = length (concat (map f ys))"
  by (metis length_concat mset_map sum_mset_sum_list)

text \<open>Fragmentation loses nothing: sending all fragments of a buffer, in any order, into an
  empty buffer gives a buffer with exactly the same entries as a multiset, and with the same
  entries in the same order when the fragments come in order. No fragment is rejected.\<close>

theorem sparse_reassembly:
  assumes "wf_sparse buf" and "wf_sparse acc" and "sb_count acc = 0"
    and "mset is = mset (frag_ids buf)"
  shows "\<exists>acc'. sparse_transfer buf is acc = Some acc' \<and> wf_sparse acc'
    \<and> mset (sb_list acc') = mset (sb_list buf)
    \<and> (is = frag_ids buf \<longrightarrow> sb_list acc' = sb_list buf)"
proof -
  have e: "sb_list acc = []" using assms(3) by (simp add: sb_list_def)
  have u: "unat (of_nat i :: u8) = i" if "i < frag_total buf" for i
    by (rule unat_of_nat_u8) (use that frag_total_bound [OF assms(1)] in simp)
  have "set is = set (frag_ids buf)" by (rule mset_eq_setD [OF assms(4)])
  then have ids: "\<forall>i \<in> set is. unat i < frag_total buf"
    by (auto simp: frag_ids_def fl_sparse_fragment_count_eq [OF assms(1)] u)
  let ?c = "\<lambda>is. concat (map (frag_entries buf \<circ> unat) is)"
  have "length (?c is) = length (sb_list buf)"
    using length_concat_mset [OF assms(4), of "frag_entries buf \<circ> unat"] concat_frag_ids [OF assms(1)]
    by simp
  also have "\<dots> \<le> 1024" using assms(1) by (simp add: length_sb_list) (simp add: wf_sparse_def)
  finally obtain acc' where a: "sparse_transfer buf is acc = Some acc'" "wf_sparse acc'"
    "sb_list acc' = ?c is"
    using sparse_transfer_eq [OF assms(1,2) ids] by (auto simp: e)
  have "mset (?c is) = sum_mset (image_mset (mset \<circ> (frag_entries buf \<circ> unat)) (mset is))"
    by (simp add: mset_concat flip: mset_map sum_mset_sum_list)
  also have "\<dots> = mset (?c (frag_ids buf))"
    by (simp add: assms(4) mset_concat flip: mset_map sum_mset_sum_list)
  finally have "mset (sb_list acc') = mset (sb_list buf)"
    by (simp only: a(3) concat_frag_ids [OF assms(1)])
  then show ?thesis using a concat_frag_ids [OF assms(1)] by auto
qed

end
