(* ===== verification/Dp.thy ===== *)
theory Dp
  imports Float32
begin

text \<open>
  Differential privacy: the generator, the Box-Muller sample and the Gaussian mechanism of
  \<^verbatim>\<open>common/src/fl_dp.c\<close>. The functions of \<^verbatim>\<open>math.h\<close> are the parameter \<open>lm\<close>.
\<close>

section \<open>The generator\<close>

record PCG32 =
  pcg_state :: u64
  pcg_inc :: u64

definition pcg32_next :: "PCG32 \<Rightarrow> u32 \<times> PCG32" where
  "pcg32_next rng =
     (let old = pcg_state rng;
          rng = rng\<lparr>pcg_state := old * 6364136223846793005 + (pcg_inc rng OR 1)\<rparr>;
          xsh = (ucast (drop_bit 27 (drop_bit 18 old XOR old)) :: u32);
          rot = (ucast (drop_bit 59 old) :: u32)
      in (drop_bit (unat rot) xsh OR push_bit (unat (- rot AND 31)) xsh, rng))"

definition pcg32_seed :: "u64 \<Rightarrow> u64 \<Rightarrow> PCG32" where
  "pcg32_seed seed sq =
     (let rng = \<lparr>pcg_state = 0, pcg_inc = push_bit 1 sq OR 1\<rparr>;
          rng = snd (pcg32_next rng);
          rng = rng\<lparr>pcg_state := pcg_state rng + seed\<rparr>
      in snd (pcg32_next rng))"

text \<open>\<^verbatim>\<open>(float)(1 << 24)\<close> is the float \<open>2^24\<close>.\<close>

definition pcg32_uniform :: "PCG32 \<Rightarrow> f32 \<times> PCG32" where
  "pcg32_uniform rng =
     (let (v, rng) = pcg32_next rng in (f_div (f_of_int (uint (drop_bit 8 v))) (F32 0x4B800000), rng))"

text \<open>The literals are \<^verbatim>\<open>1e-7f\<close>, \<^verbatim>\<open>-2.0f\<close> and \<^verbatim>\<open>6.283185307f\<close>.\<close>

definition pcg32_normal :: "libm \<Rightarrow> PCG32 \<Rightarrow> f32 \<times> PCG32" where
  "pcg32_normal lm rng =
     (let (u, rng) = pcg32_uniform rng; u1 = u + F32 0x33D6BF95; (u2, rng) = pcg32_uniform rng
      in (m_sqrtf lm (F32 0xC0000000 * m_logf lm u1) * m_cosf lm (F32 0x40C90FDB * u2), rng))"

section \<open>The mechanism\<close>

record FLDPConfig =
  dp_epsilon :: f32
  dp_delta :: f32
  dp_sensitivity :: f32
  dp_sigma :: f32
  dp_dp_enabled :: u8
  dp_rounds_spent :: u32

definition fl_dp_config :: "libm \<Rightarrow> f32 \<Rightarrow> f32 \<Rightarrow> f32 \<Rightarrow> FLDPConfig" where
  "fl_dp_config lm epsilon delta sensitivity =
     (let cfg = \<lparr>dp_epsilon = epsilon, dp_delta = delta, dp_sensitivity = sensitivity, dp_sigma = 0,
                 dp_dp_enabled = 1, dp_rounds_spent = 0\<rparr>
      in if 0 < epsilon \<and> 0 < delta \<and> 0 < sensitivity then
           let log_term = m_logf lm (f_div (F32 0x3FA00000) delta)
           in cfg\<lparr>dp_sigma := f_div (sensitivity * m_sqrtf lm (F32 0x40000000 * log_term)) epsilon\<rparr>
         else cfg\<lparr>dp_dp_enabled := 0\<rparr>)"

definition dp_seed :: "u16 \<Rightarrow> u8 \<Rightarrow> u64" where
  "dp_seed shard_id round_id =
     (push_bit 32 (ucast shard_id) XOR push_bit 16 (ucast round_id)) XOR 0xDEADBEEF"

definition fl_dp_apply ::
  "libm \<Rightarrow> FLDPConfig \<Rightarrow> f32 list \<Rightarrow> u16 \<Rightarrow> u16 \<Rightarrow> u8 \<Rightarrow> (FLDPConfig \<times> f32 list) option" where
  "fl_dp_apply lm cfg grad n shard_id round_id =
     (if dp_dp_enabled cfg = 0 \<or> dp_sigma cfg \<le> 0 then Some (cfg, grad)
      else do {
        let rng = pcg32_seed (dp_seed shard_id round_id) 0xC0FFEEC0FFEE;
        (grad, rng) \<leftarrow> for_lt (unat n) (\<lambda>i (grad, rng). do {
          g \<leftarrow> rd grad i;
          let (z, rng) = pcg32_normal lm rng;
          grad \<leftarrow> wr grad i (g + dp_sigma cfg * z);
          Some (grad, rng) }) (grad, rng);
        Some (cfg\<lparr>dp_rounds_spent := dp_rounds_spent cfg + 1\<rparr>, grad) })"

definition fl_dp_privacy_spent :: "FLDPConfig \<Rightarrow> f32 \<times> f32" where
  "fl_dp_privacy_spent cfg =
     (f_of_int (uint (dp_rounds_spent cfg)) * dp_epsilon cfg,
      f_of_int (uint (dp_rounds_spent cfg)) * dp_delta cfg)"

section \<open>The noise is a function of shard and round\<close>

fun pcg_after :: "nat \<Rightarrow> PCG32 \<Rightarrow> PCG32" where
  "pcg_after 0 rng = rng"
| "pcg_after (Suc n) rng = snd (pcg32_next (pcg_after n rng))"

lemma pcg32_normal_state: "snd (pcg32_normal lm rng) = pcg_after 2 rng"
  by (simp add: pcg32_normal_def pcg32_uniform_def numeral_2_eq_2 split: prod.split)

lemma pcg_after_add: "pcg_after m (pcg_after n rng) = pcg_after (m + n) rng"
  by (induction m) simp_all

definition dp_noise :: "libm \<Rightarrow> u16 \<Rightarrow> u8 \<Rightarrow> nat \<Rightarrow> f32" where
  "dp_noise lm shard_id round_id i =
     fst (pcg32_normal lm (pcg_after (2 * i) (pcg32_seed (dp_seed shard_id round_id) 0xC0FFEEC0FFEE)))"

lemma dp_loop:
  assumes "n \<le> length grad"
  shows "for_lt n (\<lambda>i (grad, rng). do {
          g \<leftarrow> rd grad i;
          let (z, rng) = pcg32_normal lm rng;
          grad \<leftarrow> wr grad i (g + sigma * z);
          Some (grad, rng) }) (grad, rng)
    = Some (map_prefix n (\<lambda>i g. g + sigma * fst (pcg32_normal lm (pcg_after (2 * i) rng))) grad,
            pcg_after (2 * n) rng)"
  using assms
proof (induction n)
  case (Suc n)
  let ?h = "\<lambda>i g. g + sigma * fst (pcg32_normal lm (pcg_after (2 * i) rng))"
  have "(map_prefix n ?h grad)[n := ?h n (grad ! n)] = map_prefix (Suc n) ?h grad"
    using Suc.prems by (auto simp: list_eq_iff_nth_eq nth_list_update less_Suc_eq)
  moreover have "snd (pcg32_normal lm (pcg_after (2 * n) rng)) = pcg_after (2 * Suc n) rng"
    by (simp only: pcg32_normal_state pcg_after_add) simp
  ultimately show ?case using Suc
    by (simp add: for_lt_Suc case_prod_beta)
qed simp

text \<open>The noise of the mechanism is public: coordinate \<open>i\<close> gets \<open>sigma\<close> times a number that
  is determined by the shard, the round and \<open>i\<close> alone, with no secret and no entropy, so whoever
  knows both identifiers, which every frame carries in the clear, can compute and remove it.\<close>

theorem dp_noise_is_public:
  assumes "dp_dp_enabled cfg \<noteq> 0" and "\<not> dp_sigma cfg \<le> 0" and "unat n \<le> length grad"
  shows "fl_dp_apply lm cfg grad n shard_id round_id
    = Some (cfg\<lparr>dp_rounds_spent := dp_rounds_spent cfg + 1\<rparr>,
        map_prefix (unat n) (\<lambda>i g. g + dp_sigma cfg * dp_noise lm shard_id round_id i) grad)"
  using assms dp_loop [OF assms(3)] by (simp add: fl_dp_apply_def Let_def dp_noise_def)

definition sample_dp :: FLDPConfig where
  "sample_dp = \<lparr>dp_epsilon = 1, dp_delta = 1, dp_sensitivity = 1, dp_sigma = 1, dp_dp_enabled = 1,
     dp_rounds_spent = 0\<rparr>"

text \<open>Different shards and rounds start the generator in different states.\<close>

lemma mult_pcg_inject: "x * 6364136223846793005 = y * 6364136223846793005 \<longleftrightarrow> x = (y :: u64)"
proof
  assume e: "x * 6364136223846793005 = y * 6364136223846793005"
  have i: "6364136223846793005 * 13877824140714322085 = (1 :: u64)" by simp
  have "x * (6364136223846793005 * 13877824140714322085) = y * (6364136223846793005 * 13877824140714322085)"
    using e by (simp only: mult.assoc [symmetric])
  then show "x = y" by (simp only: i mult_1_right)
qed simp

lemma dp_seed_inject: "dp_seed s r = dp_seed s' r' \<longleftrightarrow> s = s' \<and> r = r'"
proof
  assume "dp_seed s r = dp_seed s' r'"
  then have e: "push_bit 32 (ucast s) XOR push_bit 16 (ucast r) = (push_bit 32 (ucast s') XOR push_bit 16 (ucast r') :: u64)"
    by (simp only: dp_seed_def xor_right_cancel)
  have s: "bit (push_bit 32 (ucast a) XOR push_bit 16 (ucast b) :: u64) (32 + n) \<longleftrightarrow> bit a n"
    if "n < 16" for a :: u16 and b :: u8 and n
    using that by (auto simp: bit_xor_iff bit_push_bit_iff bit_ucast_iff dest: bit_imp_le_length)
  have r: "bit (push_bit 32 (ucast a) XOR push_bit 16 (ucast b) :: u64) (16 + n) \<longleftrightarrow> bit b n"
    if "n < 8" for a :: u16 and b :: u8 and n
    using that by (auto simp: bit_xor_iff bit_push_bit_iff bit_ucast_iff)
  have "s = s'"
  proof (rule bit_word_eqI)
    fix n assume "n < LENGTH(16)"
    then have "n < 16" by simp
    then show "bit s n = bit s' n" using s [of n s r] s [of n s' r'] e by simp
  qed
  moreover have "r = r'"
  proof (rule bit_word_eqI)
    fix n assume "n < LENGTH(8)"
    then have "n < 8" by simp
    then show "bit r n = bit r' n" using r [of n s r] r [of n s' r'] e by simp
  qed
  ultimately show "s = s' \<and> r = r'" by blast
qed simp

lemma pcg32_seed_state:
  "pcg_state (pcg32_seed seed sq) = (((push_bit 1 sq OR 1) OR 1) + seed) * 6364136223846793005 + ((push_bit 1 sq OR 1) OR 1)"
  by (simp add: pcg32_seed_def pcg32_next_def Let_def)

text \<open>Two shards, or two rounds of a shard, never start the noise generator in the same
  state: the seed keeps the shard and the round in separate bits, and the seeding is injective.\<close>

theorem dp_generator_distinct:
  "pcg32_seed (dp_seed s r) sq = pcg32_seed (dp_seed s' r') sq \<longleftrightarrow> s = s' \<and> r = r'"
proof
  assume "pcg32_seed (dp_seed s r) sq = pcg32_seed (dp_seed s' r') sq"
  then have "pcg_state (pcg32_seed (dp_seed s r) sq) = pcg_state (pcg32_seed (dp_seed s' r') sq)" by simp
  then have "dp_seed s r = dp_seed s' r'"
    unfolding pcg32_seed_state by (simp only: add_right_cancel add_left_cancel mult_pcg_inject)
  then show "s = s' \<and> r = r'" by (simp only: dp_seed_inject)
qed simp

section \<open>The uniform sample and the logarithm\<close>

lemma f_2_24: "\<not> f_nan (F32 0x4B800000)" "\<not> f_inf (F32 0x4B800000)" "f_mag (F32 0x4B800000) = 2 ^ 173"
  "\<not> f_sign (F32 0x4B800000)"
  by (simp_all add: f32_eval)

lemma f_div_2_24:
  assumes "0 \<le> k" "k < 2 ^ 24"
  shows "f_ord (f_div (f_of_int k) (F32 0x4B800000)) = k * 2 ^ 125"
    and "\<not> f_nan (f_div (f_of_int k) (F32 0x4B800000))" "\<not> f_inf (f_div (f_of_int k) (F32 0x4B800000))"
proof -
  have k: "\<bar>k\<bar> < 2 ^ 24" using assms by simp
  note o = f_of_int_exact [OF k]
  define m where "m = nat k"
  have m: "m < 2 ^ 24" "k = int m" using assms by (simp_all add: m_def nat_less_iff)
  have "int (f_mag (f_of_int k)) = \<bar>k * 2 ^ 149\<bar>" by (simp only: f_ord_abs [symmetric] o(1))
  also have "\<dots> = int (m * 2 ^ 149)" by (simp add: m(2))
  finally have "int (f_mag (f_of_int k)) = int (m * 2 ^ 149)" .
  then have mag: "f_mag (f_of_int k) = m * 2 ^ 149" by (simp only: of_nat_eq_iff)
  have sg: "\<not> f_sign (f_of_int k)" using assms(1) by (simp add: f_of_int_def)
  have split: "f_mag (f_of_int k) * 2 ^ 149 = m * 2 ^ 125 * 2 ^ 173" unfolding mag by simp
  have "m * 2 ^ 125 < 2 ^ 24 * 2 ^ 125" using m(1) by simp
  also have "\<dots> < (2 :: nat) ^ 277" by simp
  finally have lt: "m * 2 ^ 125 < 2 ^ 277" .
  note r = round_bits_repr [OF _ m(1) lt split]
  have eq: "f_div (f_of_int k) (F32 0x4B800000) = f_mk False (round_bits (f_mag (f_of_int k) * 2 ^ 149) (2 ^ 173))"
    using o f_2_24 sg by (simp add: f_div_def Let_def)
  show "f_ord (f_div (f_of_int k) (F32 0x4B800000)) = k * 2 ^ 125"
    unfolding eq f_ord_mk_round using r(1) by (simp add: m(2))
  show "\<not> f_nan (f_div (f_of_int k) (F32 0x4B800000))" unfolding eq by simp
  show "\<not> f_inf (f_div (f_of_int k) (F32 0x4B800000))" unfolding eq using r(2) by (simp add: f_inf_def)
qed

lemma pcg32_uniform_range:
  obtains k where "0 \<le> k" "k < 2 ^ 24" "f_ord (fst (pcg32_uniform rng)) = k * 2 ^ 125"
    "\<not> f_nan (fst (pcg32_uniform rng))" "\<not> f_inf (fst (pcg32_uniform rng))"
proof -
  define v where "v = fst (pcg32_next rng)"
  have "unat v div 2 ^ 8 < 2 ^ 24" using unat_u32_less [of v] by (simp add: less_mult_imp_div_less)
  then have "unat (drop_bit 8 v) < 2 ^ 24" by (simp only: unat_drop_bit)
  then have "int (unat (drop_bit 8 v)) < int (2 ^ 24)" by (simp only: of_nat_less_iff)
  then have k: "0 \<le> uint (drop_bit 8 v)" "uint (drop_bit 8 v) < 2 ^ 24"
    by (simp_all only: uint_nat of_nat_power of_nat_numeral of_nat_0_le_iff)
  have e: "fst (pcg32_uniform rng) = f_div (f_of_int (uint (drop_bit 8 v))) (F32 0x4B800000)"
    by (simp only: pcg32_uniform_def v_def case_prod_beta Let_def fst_conv)
  show ?thesis by (rule that [OF k]) (simp_all only: e f_div_2_24 [OF k] not_False_eq_True)
qed

lemma f_eps: "\<not> f_nan (F32 0x33D6BF95)" "\<not> f_inf (F32 0x33D6BF95)" "f_ord (F32 0x33D6BF95) = 14073749 * 2 ^ 102"
  by (simp_all add: f32_eval)

definition log_argument :: "PCG32 \<Rightarrow> f32" where
  "log_argument rng = fst (pcg32_uniform rng) + F32 0x33D6BF95"

lemma log_argument_range:
  "\<not> f_nan (log_argument rng) \<and> 0 < f_ord (log_argument rng) \<and> f_ord (log_argument rng) \<le> 2 ^ 149"
proof -
  obtain k where k: "0 \<le> k" "k < 2 ^ 24" "f_ord (fst (pcg32_uniform rng)) = k * 2 ^ 125"
    "\<not> f_nan (fst (pcg32_uniform rng))" "\<not> f_inf (fst (pcg32_uniform rng))" by (rule pcg32_uniform_range)
  note a = f_ord_add [OF k(4,5) f_eps(1,2)]
  have o: "f_ord (log_argument rng) = rnd (k * 2 ^ 125 + 14073749 * 2 ^ 102) 1"
    unfolding log_argument_def a(1) k(3) f_eps(3) ..
  have "rnd (14073749 * 2 ^ 102) 1 \<le> rnd (k * 2 ^ 125 + 14073749 * 2 ^ 102) 1"
    by (rule rnd_mono) (use k(1) in simp_all)
  moreover have "rnd (14073749 * 2 ^ 102) 1 = 14073749 * 2 ^ 102"
    by (rule rnd_exact [of _ 14073749 102]) simp_all
  moreover have "rnd (k * 2 ^ 125 + 14073749 * 2 ^ 102) 1 \<le> rnd ((2 ^ 24 - 1) * 2 ^ 125 + 14073749 * 2 ^ 102) 1"
    by (rule rnd_mono) (use k(2) in simp_all)
  moreover have "rnd ((2 ^ 24 - 1) * 2 ^ 125 + 14073749 * 2 ^ 102) 1 = 2 ^ 149"
    by (simp add: rnd_def f32_eval)
  ultimately show ?thesis using a(2) by (simp add: o) (simp add: log_argument_def)
qed

text \<open>The Box-Muller sample never leaves its domain: the argument of the logarithm is a float
  in \<open>(0, 1]\<close> (the added \<open>1e-7\<close> keeps it off zero, and rounding keeps it at most one), so the
  square root is never taken of a negative number by an accurate \<^verbatim>\<open>logf\<close>, and the angle's
  fraction lies in \<open>[0, 1)\<close>.\<close>

theorem box_muller_domain:
  "\<exists>u1 u2. fst (pcg32_normal lm rng) = m_sqrtf lm (F32 0xC0000000 * m_logf lm u1) * m_cosf lm (F32 0x40C90FDB * u2)
    \<and> 0 < u1 \<and> u1 \<le> 1 \<and> 0 \<le> u2 \<and> u2 < 1"
proof -
  let ?r = "snd (pcg32_uniform rng)"
  have e: "fst (pcg32_normal lm rng) = m_sqrtf lm (F32 0xC0000000 * m_logf lm (log_argument rng))
      * m_cosf lm (F32 0x40C90FDB * fst (pcg32_uniform ?r))"
    by (simp only: pcg32_normal_def log_argument_def case_prod_beta Let_def fst_conv)
  obtain k where k: "0 \<le> k" "k < 2 ^ 24" "f_ord (fst (pcg32_uniform ?r)) = k * 2 ^ 125"
    "\<not> f_nan (fst (pcg32_uniform ?r))" by (rule pcg32_uniform_range)
  have "k * 2 ^ 125 < 2 ^ 24 * 2 ^ 125" using k(2) by simp
  then have u2: "0 \<le> fst (pcg32_uniform ?r)" "fst (pcg32_uniform ?r) < 1"
    using k by (simp_all add: less_f32_iff le_f32_iff)
  have u1: "0 < log_argument rng" "log_argument rng \<le> 1"
    using log_argument_range [of rng] by (simp_all add: less_f32_iff le_f32_iff)
  show ?thesis using e u1 u2 by blast
qed

end
