(* ===== verification/Chacha20.thy ===== *)
theory Chacha20
  imports Filum_Prelude
begin

text \<open>
  The ChaCha20 stream cipher of \<^verbatim>\<open>common/src/fl_crypto.c\<close>. Arrays whose size is part of
  the C type (\<^verbatim>\<open>key[32]\<close>, \<^verbatim>\<open>nonce[12]\<close>, \<^verbatim>\<open>uint32_t[16]\<close>) are lists of that length; the
  buffer with its length argument is accessed with checks.
\<close>

section \<open>Helpers\<close>

definition load32_le :: "bytes \<Rightarrow> nat \<Rightarrow> u32" where
  "load32_le p i = ucast (p ! i) OR push_bit 8 (ucast (p ! (i + 1)))
     OR push_bit 16 (ucast (p ! (i + 2))) OR push_bit 24 (ucast (p ! (i + 3)))"

definition store32_le :: "u32 \<Rightarrow> bytes" where
  "store32_le v = [ucast v, ucast (drop_bit 8 v), ucast (drop_bit 16 v), ucast (drop_bit 24 v)]"

definition rotl32 :: "u32 \<Rightarrow> nat \<Rightarrow> u32" where
  "rotl32 v n = push_bit n v OR drop_bit (32 - n) v"

lemma load32_le_of_le32: "load32_le p i = of_le32 (p ! i) (p ! (i + 1)) (p ! (i + 2)) (p ! (i + 3))"
  by (simp add: load32_le_def of_le32_def)

lemma store32_le_le32: "store32_le v = le32 v"
  by (simp add: store32_le_def le32_def)

lemma length_store32_le [simp]: "length (store32_le v) = 4"
  by (simp add: store32_le_def)

section \<open>The block function\<close>

text \<open>The macro \<^verbatim>\<open>QR\<close> on four cells of the state.\<close>

definition QR :: "nat \<Rightarrow> nat \<Rightarrow> nat \<Rightarrow> nat \<Rightarrow> u32 list \<Rightarrow> u32 list" where
  "QR a b c d x =
     (let x = x[a := x ! a + x ! b]; x = x[d := x ! d XOR x ! a]; x = x[d := rotl32 (x ! d) 16];
          x = x[c := x ! c + x ! d]; x = x[b := x ! b XOR x ! c]; x = x[b := rotl32 (x ! b) 12];
          x = x[a := x ! a + x ! b]; x = x[d := x ! d XOR x ! a]; x = x[d := rotl32 (x ! d) 8];
          x = x[c := x ! c + x ! d]; x = x[b := x ! b XOR x ! c]; x = x[b := rotl32 (x ! b) 7]
      in x)"

definition double_round :: "u32 list \<Rightarrow> u32 list" where
  "double_round x =
     (let x = QR 0 4 8 12 x; x = QR 1 5 9 13 x; x = QR 2 6 10 14 x; x = QR 3 7 11 15 x;
          x = QR 0 5 10 15 x; x = QR 1 6 11 12 x; x = QR 2 7 8 13 x
      in QR 3 4 9 14 x)"

definition chacha20_block :: "u32 list \<Rightarrow> u32 list" where
  "chacha20_block inp = (let x = (double_round ^^ 10) inp in map (\<lambda>i. x ! i + inp ! i) [0..<16])"

section \<open>The cipher\<close>

text \<open>\<^verbatim>\<open>sigma\<close> is the text "expand 32-byte k".\<close>

definition chacha20_sigma :: bytes where
  "chacha20_sigma = [0x65, 0x78, 0x70, 0x61, 0x6e, 0x64, 0x20, 0x33,
                     0x32, 0x2d, 0x62, 0x79, 0x74, 0x65, 0x20, 0x6b]"

definition chacha20_state :: "bytes \<Rightarrow> bytes \<Rightarrow> u32 \<Rightarrow> u32 list" where
  "chacha20_state key nonce counter =
     map (\<lambda>i. load32_le chacha20_sigma (4 * i)) [0..<4]
     @ map (\<lambda>i. load32_le key (4 * i)) [0..<8]
     @ [counter, load32_le nonce 0, load32_le nonce 4, load32_le nonce 8]"

definition block_stream :: "u32 list \<Rightarrow> bytes" where
  "block_stream st = concat (map store32_le (chacha20_block st))"

function chacha20_loop :: "u32 list \<Rightarrow> bytes \<Rightarrow> nat \<Rightarrow> nat \<Rightarrow> bytes option" where
  "chacha20_loop st buf pos len =
     (if pos < len then do {
        let stream = block_stream st;
        let st = st[12 := st ! 12 + 1];
        let chunk = (if 64 < len - pos then 64 else len - pos);
        buf \<leftarrow> for_lt chunk (\<lambda>i buf. do { b \<leftarrow> rd buf (pos + i); wr buf (pos + i) (b XOR stream ! i) }) buf;
        chacha20_loop st buf (pos + chunk) len }
      else Some buf)"
  by pat_completeness auto
termination by (relation "measure (\<lambda>(st, buf, pos, len). len - pos)") auto

declare chacha20_loop.simps [simp del]

definition chacha20_xor :: "bytes \<Rightarrow> bytes \<Rightarrow> u32 \<Rightarrow> bytes \<Rightarrow> u16 \<Rightarrow> bytes option" where
  "chacha20_xor key nonce counter buf len =
     chacha20_loop (chacha20_state key nonce counter) buf 0 (unat len)"

section \<open>What a stream cipher is\<close>

text \<open>Byte \<open>i\<close> of the buffer is combined with byte \<open>i\<close> of a key stream that depends on the
  key, the nonce and the counter only.\<close>

locale stream_cipher =
  fixes crypt :: "bytes \<Rightarrow> bytes \<Rightarrow> u32 \<Rightarrow> bytes \<Rightarrow> u16 \<Rightarrow> bytes option"
    and stream :: "bytes \<Rightarrow> bytes \<Rightarrow> u32 \<Rightarrow> nat \<Rightarrow> u8"
  assumes crypt_stream: "unat len \<le> length buf \<Longrightarrow>
      crypt key nonce ctr buf len
        = Some (map_prefix (unat len) (\<lambda>i b. b XOR stream key nonce ctr i) buf)"
begin

lemma crypt_total: "unat len \<le> length buf \<Longrightarrow>
    \<exists>buf'. crypt key nonce ctr buf len = Some buf' \<and> length buf' = length buf"
  by (simp add: crypt_stream)

lemma crypt_involution:
  "unat len \<le> length buf \<Longrightarrow> crypt key nonce ctr buf len = Some buf' \<Longrightarrow>
     crypt key nonce ctr buf' len = Some buf"
  by (auto simp: crypt_stream intro!: nth_equalityI)

text \<open>Two messages under the same key, nonce and counter reveal their XOR.\<close>

lemma keystream_reuse:
  assumes "unat len \<le> length a" "unat len \<le> length b"
    and "crypt key nonce ctr a len = Some a'" "crypt key nonce ctr b len = Some b'"
    and "i < unat len"
  shows "a' ! i XOR b' ! i = a ! i XOR b ! i"
proof -
  have "a' ! i = a ! i XOR stream key nonce ctr i" "b' ! i = b ! i XOR stream key nonce ctr i"
    using assms by (auto simp: crypt_stream)
  then show ?thesis by (simp only: xor_common_right)
qed

end

definition chacha20_stream :: "bytes \<Rightarrow> bytes \<Rightarrow> u32 \<Rightarrow> nat \<Rightarrow> u8" where
  "chacha20_stream key nonce ctr i =
     block_stream (chacha20_state key nonce (ctr + of_nat (i div 64))) ! (i mod 64)"

lemma chacha20_state_counter:
  "(chacha20_state key nonce c)[12 := d] = chacha20_state key nonce d"
  "chacha20_state key nonce c ! 12 = c"
  by (simp_all add: chacha20_state_def list_update_append nth_append)

lemma chacha20_loop_eq:
  assumes "pos < len \<Longrightarrow> pos = 64 * k" and "len \<le> length buf"
  shows "chacha20_loop (chacha20_state key nonce (ctr + of_nat k)) buf pos len
    = Some (map (\<lambda>i. if pos \<le> i \<and> i < len then buf ! i XOR chacha20_stream key nonce ctr i else buf ! i)
             [0..<length buf])"
  using assms
proof (induction "len - pos" arbitrary: pos k buf rule: less_induct)
  case less
  let ?st = "chacha20_state key nonce (ctr + of_nat k)"
  let ?ks = "chacha20_stream key nonce ctr"
  show ?case
  proof (cases "pos < len")
    case False
    then show ?thesis by (subst chacha20_loop.simps) (auto intro!: nth_equalityI)
  next
    case True
    then have pos: "pos = 64 * k" using less.prems(1) by simp
    define chunk where "chunk = (if 64 < len - pos then 64 else len - pos)"
    have ch: "0 < chunk" "chunk \<le> 64" "pos + chunk \<le> len" using True by (auto simp: chunk_def)
    define mid where "mid = map (\<lambda>i. if pos \<le> i \<and> i < pos + chunk then buf ! i XOR ?ks i else buf ! i)
      [0..<length buf]"
    have ks: "block_stream ?st ! i = ?ks (pos + i)" if "i < 64" for i
    proof -
      have "(pos + i) div 64 = k" "(pos + i) mod 64 = i" using that by (simp_all add: pos)
      then show ?thesis by (simp only: chacha20_stream_def)
    qed
    have loop: "for_lt chunk (\<lambda>i buf. do { b \<leftarrow> rd buf (pos + i); wr buf (pos + i) (b XOR block_stream ?st ! i) }) buf
        = Some (map (\<lambda>j. if pos \<le> j \<and> j < pos + chunk then buf ! j XOR block_stream ?st ! (j - pos)
                     else buf ! j) [0..<length buf])"
      by (rule for_lt_window) (use ch(3) less.prems(2) in simp_all)
    have "(if pos \<le> j \<and> j < pos + chunk then buf ! j XOR block_stream ?st ! (j - pos) else buf ! j)
        = (if pos \<le> j \<and> j < pos + chunk then buf ! j XOR ?ks j else buf ! j)" for j
      using ks [of "j - pos"] ch(2) by auto
    note loop = loop [unfolded this, folded mid_def]
    have st: "?st[12 := ?st ! 12 + 1] = chacha20_state key nonce (ctr + of_nat (Suc k))"
      by (simp add: chacha20_state_counter add.commute add.left_commute)
    have "chacha20_loop ?st buf pos len
        = chacha20_loop (chacha20_state key nonce (ctr + of_nat (Suc k))) mid (pos + chunk) len"
      unfolding chacha20_loop.simps [of ?st buf pos len] Let_def chunk_def [symmetric] loop st
      using True by simp
    also have "\<dots> = Some (map (\<lambda>i. if pos + chunk \<le> i \<and> i < len then mid ! i XOR ?ks i else mid ! i)
        [0..<length mid])"
    proof (rule less.hyps)
      show "len - (pos + chunk) < len - pos" using ch True by simp
      show "len \<le> length mid" using less.prems(2) by (simp add: mid_def)
      assume "pos + chunk < len"
      then have "chunk = 64" by (auto simp: chunk_def split: if_splits)
      then show "pos + chunk = 64 * Suc k" by (simp add: pos)
    qed
    also have "map (\<lambda>i. if pos + chunk \<le> i \<and> i < len then mid ! i XOR ?ks i else mid ! i) [0..<length mid]
      = map (\<lambda>i. if pos \<le> i \<and> i < len then buf ! i XOR ?ks i else buf ! i) [0..<length buf]"
    proof (rule nth_equalityI)
      fix i assume "i < length (map (\<lambda>i. if pos + chunk \<le> i \<and> i < len then mid ! i XOR ?ks i else mid ! i)
        [0..<length mid])"
      then have i: "i < length buf" by (simp add: mid_def)
      then have "mid ! i = (if pos \<le> i \<and> i < pos + chunk then buf ! i XOR ?ks i else buf ! i)"
        by (simp add: mid_def)
      then show "map (\<lambda>i. if pos + chunk \<le> i \<and> i < len then mid ! i XOR ?ks i else mid ! i) [0..<length mid] ! i
        = map (\<lambda>i. if pos \<le> i \<and> i < len then buf ! i XOR ?ks i else buf ! i) [0..<length buf] ! i"
        using i ch by (simp add: mid_def)
    qed (simp add: mid_def)
    finally show ?thesis .
  qed
qed

lemma chacha20_xor_eq:
  assumes "unat len \<le> length buf"
  shows "chacha20_xor key nonce ctr buf len
    = Some (map_prefix (unat len) (\<lambda>i b. b XOR chacha20_stream key nonce ctr i) buf)"
  using chacha20_loop_eq [of 0 "unat len" 0 buf key nonce ctr] assms
  by (simp add: chacha20_xor_def map_prefix_def)

interpretation chacha20: stream_cipher chacha20_xor chacha20_stream
  by unfold_locales (rule chacha20_xor_eq)

text \<open>Decryption is encryption: ChaCha20 under the same key, nonce and counter, applied twice
  to any buffer of at least the given length, restores the buffer, and bytes beyond the length
  are never touched.\<close>

theorem chacha20_roundtrip:
  assumes "unat len \<le> length buf"
  shows "\<exists>buf'. chacha20_xor key nonce ctr buf len = Some buf'
    \<and> chacha20_xor key nonce ctr buf' len = Some buf
    \<and> length buf' = length buf \<and> drop (unat len) buf' = drop (unat len) buf"
proof -
  obtain buf' where b: "chacha20_xor key nonce ctr buf len = Some buf'" "length buf' = length buf"
    using chacha20.crypt_total [OF assms] by blast
  have "chacha20_xor key nonce ctr buf' len = Some buf"
    by (rule chacha20.crypt_involution [OF assms b(1)])
  moreover have "drop (unat len) buf' = drop (unat len) buf"
    using b(1) assms by (auto simp: chacha20_xor_eq intro!: nth_equalityI)
  ultimately show ?thesis using b by blast
qed

end
