(* ===== verification/Poly1305.thy ===== *)
theory Poly1305
  imports Chacha20
begin

text \<open>
  The Poly1305 authenticator of \<^verbatim>\<open>common/src/fl_crypto.c\<close>, in radix \<open>2^26\<close>.
  \<^verbatim>\<open>m\<close> and \<^verbatim>\<open>key\<close> have the sizes of their C types; the message buffer and the padding
  buffer of \<^verbatim>\<open>poly1305_finish\<close> are accessed with checks.
\<close>

record Poly1305 =
  po_r :: "u32 list"
  po_h :: "u32 list"
  po_pad :: "u32 list"
  po_buf :: bytes
  po_buf_used :: u8
  po_finalized :: u8

definition poly1305_init :: "bytes \<Rightarrow> Poly1305" where
  "poly1305_init key =
     (let r = take 16 key;
          r = r[3 := r ! 3 AND 15, 7 := r ! 7 AND 15, 11 := r ! 11 AND 15, 15 := r ! 15 AND 15,
                4 := r ! 4 AND 252, 8 := r ! 8 AND 252, 12 := r ! 12 AND 252]
      in \<lparr>po_r = [load32_le r 0 AND 0x3ffffff, drop_bit 2 (load32_le r 3) AND 0x3ffff03,
                  drop_bit 4 (load32_le r 6) AND 0x3ffc0ff, drop_bit 6 (load32_le r 9) AND 0x3f03fff,
                  drop_bit 8 (load32_le r 12) AND 0x00fffff],
          po_h = replicate 5 0,
          po_pad = map (\<lambda>i. load32_le key (16 + 4 * i)) [0..<4],
          po_buf = replicate 16 0, po_buf_used = 0, po_finalized = 0\<rparr>)"

text \<open>The limbs of a message block.\<close>

definition block_limbs :: "bytes \<Rightarrow> u8 \<Rightarrow> u32 list" where
  "block_limbs m hibit =
     [load32_le m 0 AND 0x3ffffff, drop_bit 2 (load32_le m 3) AND 0x3ffffff,
      drop_bit 4 (load32_le m 6) AND 0x3ffffff, drop_bit 6 (load32_le m 9) AND 0x3ffffff,
      drop_bit 8 (load32_le m 12) OR push_bit 24 (ucast hibit)]"

text \<open>Multiplication of the limbs and the carry chain, on \<^verbatim>\<open>uint64_t\<close>.\<close>

definition wmul :: "u32 \<Rightarrow> u32 \<Rightarrow> u64" where
  "wmul a b = ucast a * ucast b"

fun poly_mul :: "u32 list \<Rightarrow> u32 list \<Rightarrow> u64 list" where
  "poly_mul [h0, h1, h2, h3, h4] [r0, r1, r2, r3, r4] =
     [wmul h0 r0 + wmul h1 (r4 * 5) + wmul h2 (r3 * 5) + wmul h3 (r2 * 5) + wmul h4 (r1 * 5),
      wmul h0 r1 + wmul h1 r0 + wmul h2 (r4 * 5) + wmul h3 (r3 * 5) + wmul h4 (r2 * 5),
      wmul h0 r2 + wmul h1 r1 + wmul h2 r0 + wmul h3 (r4 * 5) + wmul h4 (r3 * 5),
      wmul h0 r3 + wmul h1 r2 + wmul h2 r1 + wmul h3 r0 + wmul h4 (r4 * 5),
      wmul h0 r4 + wmul h1 r3 + wmul h2 r2 + wmul h3 r1 + wmul h4 r0]"
| "poly_mul _ _ = []"

fun poly_carry :: "u64 list \<Rightarrow> u32 list" where
  "poly_carry [d0, d1, d2, d3, d4] =
     (let c = (ucast (drop_bit 26 d0) :: u32); h0 = ucast d0 AND 0x3ffffff; d1 = d1 + ucast c;
          c = (ucast (drop_bit 26 d1) :: u32); h1 = ucast d1 AND 0x3ffffff; d2 = d2 + ucast c;
          c = (ucast (drop_bit 26 d2) :: u32); h2 = ucast d2 AND 0x3ffffff; d3 = d3 + ucast c;
          c = (ucast (drop_bit 26 d3) :: u32); h3 = ucast d3 AND 0x3ffffff; d4 = d4 + ucast c;
          c = (ucast (drop_bit 26 d4) :: u32); h4 = ucast d4 AND 0x3ffffff; h0 = h0 + c * 5;
          c = drop_bit 26 h0; h0 = h0 AND 0x3ffffff; h1 = h1 + c
      in [h0, h1, h2, h3, h4])"
| "poly_carry _ = []"

definition poly1305_block :: "Poly1305 \<Rightarrow> bytes \<Rightarrow> u8 \<Rightarrow> Poly1305" where
  "poly1305_block st m hibit =
     st\<lparr>po_h := poly_carry (poly_mul (map2 (+) (po_h st) (block_limbs m hibit)) (po_r st))\<rparr>"

fun poly1305_update :: "Poly1305 \<Rightarrow> bytes \<Rightarrow> Poly1305 option" where
  "poly1305_update st [] = Some st"
| "poly1305_update st (b # m) =
     (let st = (if po_buf_used st = 16 then (poly1305_block st (po_buf st) 1)\<lparr>po_buf_used := 0\<rparr> else st)
      in do { buf \<leftarrow> wr (po_buf st) (unat (po_buf_used st)) b;
              poly1305_update (st\<lparr>po_buf := buf, po_buf_used := po_buf_used st + 1\<rparr>) m })"

text \<open>The end of \<^verbatim>\<open>poly1305_finish\<close>: full carry, conditional subtraction of the modulus and
  the addition of the pad, word by word.\<close>

fun poly_full_carry :: "u32 list \<Rightarrow> u32 list" where
  "poly_full_carry [h0, h1, h2, h3, h4] =
     (let c = drop_bit 26 h1; h1 = h1 AND 0x3ffffff; h2 = h2 + c;
          c = drop_bit 26 h2; h2 = h2 AND 0x3ffffff; h3 = h3 + c;
          c = drop_bit 26 h3; h3 = h3 AND 0x3ffffff; h4 = h4 + c;
          c = drop_bit 26 h4; h4 = h4 AND 0x3ffffff; h0 = h0 + c * 5;
          c = drop_bit 26 h0; h0 = h0 AND 0x3ffffff; h1 = h1 + c
      in [h0, h1, h2, h3, h4])"
| "poly_full_carry _ = []"

fun poly_cond_sub :: "u32 list \<Rightarrow> u32 list" where
  "poly_cond_sub [h0, h1, h2, h3, h4] =
     (let g0 = h0 + 5; c = drop_bit 26 g0; g0 = g0 AND 0x3ffffff;
          g1 = h1 + c; c = drop_bit 26 g1; g1 = g1 AND 0x3ffffff;
          g2 = h2 + c; c = drop_bit 26 g2; g2 = g2 AND 0x3ffffff;
          g3 = h3 + c; c = drop_bit 26 g3; g3 = g3 AND 0x3ffffff;
          g4 = h4 + c - 0x4000000;
          mask = drop_bit 31 g4 - 1;
          g0 = g0 AND mask; g1 = g1 AND mask; g2 = g2 AND mask; g3 = g3 AND mask; g4 = g4 AND mask;
          mask = NOT mask
      in [(h0 AND mask) OR g0, (h1 AND mask) OR g1, (h2 AND mask) OR g2, (h3 AND mask) OR g3,
          (h4 AND mask) OR g4])"
| "poly_cond_sub _ = []"

fun poly_words :: "u32 list \<Rightarrow> u32 list" where
  "poly_words [h0, h1, h2, h3, h4] =
     [h0 OR push_bit 26 h1, drop_bit 6 h1 OR push_bit 20 h2, drop_bit 12 h2 OR push_bit 14 h3,
      drop_bit 18 h3 OR push_bit 8 h4]"
| "poly_words _ = []"

definition poly_tag :: "u32 list \<Rightarrow> u32 list \<Rightarrow> bytes" where
  "poly_tag h pad =
     concat (map store32_le (map2 (+) (poly_words (poly_cond_sub (poly_full_carry h))) pad))"

definition poly1305_finish :: "Poly1305 \<Rightarrow> bytes option" where
  "poly1305_finish st =
     do { st \<leftarrow> (if po_buf_used st \<noteq> 0 then do {
                  bs \<leftarrow> rd_slice (po_buf st) 0 (unat (po_buf_used st));
                  buf \<leftarrow> memcpy_at (replicate 16 0) 0 bs;
                  buf \<leftarrow> wr buf (unat (po_buf_used st)) 1;
                  Some (poly1305_block st buf 0) }
                else Some st);
          Some (poly_tag (po_h st) (po_pad st)) }"

text \<open>The three calls, as every caller makes them.\<close>

definition poly1305_tag :: "bytes \<Rightarrow> bytes \<Rightarrow> bytes option" where
  "poly1305_tag key msg =
     do { st \<leftarrow> poly1305_update (poly1305_init key) msg; poly1305_finish st }"

section \<open>When the tag is defined\<close>

definition wf_poly :: "Poly1305 \<Rightarrow> bool" where
  "wf_poly st \<longleftrightarrow> length (po_r st) = 5 \<and> length (po_h st) = 5 \<and> length (po_pad st) = 4
     \<and> length (po_buf st) = 16 \<and> unat (po_buf_used st) \<le> 16"

lemma wf_poly_init [simp]: "wf_poly (poly1305_init key)"
  by (simp add: wf_poly_def poly1305_init_def Let_def)

lemma length_5_exhaust: "length xs = 5 \<Longrightarrow> \<exists>a b c d e. xs = [a, b, c, d, e]"
  by (auto simp: numeral_eq_Suc length_Suc_conv)

lemma length_poly_carry: "length hs = 5 \<Longrightarrow> length rs = 5 \<Longrightarrow> length (poly_carry (poly_mul hs rs)) = 5"
  using length_5_exhaust [of hs] length_5_exhaust [of rs] by (auto simp: Let_def)

lemma wf_poly_block: "wf_poly st \<Longrightarrow> wf_poly (poly1305_block st m b)"
  by (simp add: wf_poly_def poly1305_block_def length_poly_carry block_limbs_def)

lemma poly1305_block_used [simp]: "po_buf_used (poly1305_block st m b) = po_buf_used st"
  "po_buf (poly1305_block st m b) = po_buf st" "po_pad (poly1305_block st m b) = po_pad st"
  "po_r (poly1305_block st m b) = po_r st"
  by (simp_all add: poly1305_block_def)

text \<open>The number of buffered bytes after \<open>n\<close> more.\<close>

definition used_after :: "nat \<Rightarrow> nat \<Rightarrow> nat" where
  "used_after u n = (if n = 0 then u else (u + n - 1) mod 16 + 1)"

lemma poly1305_update_total:
  "wf_poly st \<Longrightarrow> \<exists>st'. poly1305_update st m = Some st' \<and> wf_poly st'
     \<and> unat (po_buf_used st') = used_after (unat (po_buf_used st)) (length m)"
proof (induction m arbitrary: st)
  case Nil
  then show ?case by (simp add: used_after_def)
next
  case (Cons b m)
  define st1 where
    "st1 = (if po_buf_used st = 16 then (poly1305_block st (po_buf st) 1)\<lparr>po_buf_used := 0\<rparr> else st)"
  have u: "unat (po_buf_used st) \<le> 16" using Cons.prems by (simp add: wf_poly_def)
  have c16: "po_buf_used st = 16 \<longleftrightarrow> unat (po_buf_used st) = 16"
    using unsigned_word_eqI [of "po_buf_used st" 16] by auto
  have wf1: "wf_poly st1" using wf_poly_block [OF Cons.prems] Cons.prems
    by (auto simp: st1_def wf_poly_def)
  have u1: "unat (po_buf_used st1) = (if unat (po_buf_used st) = 16 then 0 else unat (po_buf_used st))"
    using c16 by (simp add: st1_def)
  then have lt: "unat (po_buf_used st1) < 16" using u by simp
  then have inc: "unat (po_buf_used st1 + 1) = unat (po_buf_used st1) + 1"
    by (simp add: unat_word_ariths)
  let ?st2 = "st1\<lparr>po_buf := (po_buf st1)[unat (po_buf_used st1) := b], po_buf_used := po_buf_used st1 + 1\<rparr>"
  have "poly1305_update st (b # m) = poly1305_update ?st2 m"
    using wf1 lt by (simp add: st1_def [symmetric] wf_poly_def)
  moreover have "wf_poly ?st2" using wf1 lt inc by (simp add: wf_poly_def)
  from Cons.IH [OF this] obtain st' where "poly1305_update ?st2 m = Some st'" "wf_poly st'"
    "unat (po_buf_used st') = used_after (unat (po_buf_used st1) + 1) (length m)"
    using inc by auto
  moreover have "used_after (unat (po_buf_used st1) + 1) (length m)
      = used_after (unat (po_buf_used st)) (length (b # m))"
    using lt u by (auto simp: u1 used_after_def)
  ultimately show ?case by simp
qed

lemma poly1305_tag_defined:
  "poly1305_tag key msg \<noteq> None \<longleftrightarrow> msg = [] \<or> length msg mod 16 \<noteq> 0"
proof -
  obtain st where st: "poly1305_update (poly1305_init key) msg = Some st" "wf_poly st"
    "unat (po_buf_used st) = used_after 0 (length msg)"
    using poly1305_update_total [OF wf_poly_init, of key msg]
    by (auto simp: poly1305_init_def Let_def)
  have z: "po_buf_used st = 0 \<longleftrightarrow> used_after 0 (length msg) = 0"
    using st(3) unat_eq_zero [of "po_buf_used st"] by simp
  have le: "used_after 0 (length msg) \<le> 16" using st(2,3) by (simp add: wf_poly_def)
  have "poly1305_finish st \<noteq> None \<longleftrightarrow> used_after 0 (length msg) < 16"
    using st(2,3) le z by (auto simp: poly1305_finish_def wf_poly_def wr_def)
  also have "\<dots> \<longleftrightarrow> msg = [] \<or> length msg mod 16 \<noteq> 0"
    by (cases "length msg") (auto simp: used_after_def mod_Suc)
  finally show ?thesis by (simp add: poly1305_tag_def st(1))
qed

text \<open>The tag of a message is defined exactly for the empty message and for lengths that are
  not multiples of 16; a message of whole blocks makes \<^verbatim>\<open>poly1305_finish\<close> write the padding
  byte behind its 16-byte buffer.\<close>

theorem poly1305_tag_defined_iff:
  "poly1305_tag key msg \<noteq> None \<longleftrightarrow> msg = [] \<or> length msg mod 16 \<noteq> 0"
  by (rule poly1305_tag_defined)

section \<open>The block function is multiplication modulo \<open>2^130 - 5\<close>\<close>

text \<open>The number five limbs stand for.\<close>

fun val26 :: "u32 list \<Rightarrow> nat" where
  "val26 [] = 0"
| "val26 (x # xs) = unat x + 2 ^ 26 * val26 xs"

abbreviation P1305 :: nat where "P1305 \<equiv> 2 ^ 130 - 5"

lemma unat_add_u64: "unat x + unat y < 2 ^ 64 \<Longrightarrow> unat (x + y) = unat x + unat (y :: u64)"
  by (simp add: unat_word_ariths)

lemma unat_add_u32: "unat x + unat y < 2 ^ 32 \<Longrightarrow> unat (x + y) = unat x + unat (y :: u32)"
  by (simp add: unat_word_ariths)

lemma unat_mult5_u32: "unat x * 5 < 2 ^ 32 \<Longrightarrow> unat (x * 5 :: u32) = unat x * 5"
  by (simp add: unat_word_ariths)

lemma unat_ucast_u32_u64 [simp]: "unat (ucast (x :: u32) :: u64) = unat x"
proof -
  have "unat x < 2 ^ 64" by (rule less_trans [OF unat_u32_less]) simp
  then show ?thesis by (simp add: unsigned_ucast_eq take_bit_nat_eq_self_iff)
qed

lemma unat_ucast_u64_u32: "unat (ucast (x :: u64) :: u32) = unat x mod 2 ^ 32"
  by (simp add: unsigned_ucast_eq take_bit_eq_mod)

lemma unat_wmul: "unat (wmul a b) = unat a * unat b"
proof -
  have "unat a \<le> 4294967295" "unat b \<le> 4294967295"
    using unat_u32_less [of a] unat_u32_less [of b] by linarith+
  then have "unat a * unat b \<le> 4294967295 * 4294967295" by (rule mult_le_mono)
  also have "\<dots> < (2::nat) ^ 64" by simp
  finally show ?thesis by (simp add: wmul_def unat_word_ariths)
qed

lemma unat_and_mask26: "unat (x AND 0x3ffffff :: u32) = unat x mod 2 ^ 26"
proof -
  have "(0x3ffffff :: u32) = mask 26" by (simp add: mask_eq_exp_minus_1)
  then have "x AND 0x3ffffff = take_bit 26 x" by (simp add: take_bit_eq_mask)
  then show ?thesis by (simp only: unsigned_take_bit_eq) (simp only: take_bit_eq_mod)
qed

lemma sum5_u64:
  assumes "unat a + unat b + unat c + unat d + unat (e :: u64) < 2 ^ 64"
  shows "unat (a + b + c + d + e) = unat a + unat b + unat c + unat d + unat e"
  using assms by (simp add: unat_word_ariths)

text \<open>One step of the carry chain.\<close>

lemma carry_step:
  assumes "unat (d :: u64) < 2 ^ 58"
  shows "unat (ucast (drop_bit 26 d) :: u32) = unat d div 2 ^ 26"
    and "unat (ucast d AND 0x3ffffff :: u32) = unat d mod 2 ^ 26"
proof -
  have "unat d div 2 ^ 26 < 2 ^ 32" using assms by (simp add: less_mult_imp_div_less)
  then show "unat (ucast (drop_bit 26 d) :: u32) = unat d div 2 ^ 26"
    by (simp add: unat_ucast_u64_u32 unat_drop_bit)
  show "unat (ucast d AND 0x3ffffff :: u32) = unat d mod 2 ^ 26"
    by (simp add: unat_and_mask26 unat_ucast_u64_u32 mod_mod_cancel)
qed

lemma carry_chain:
  fixes d0 d1 d2 d3 d4 e1 e2 e3 e4 k0 B :: int
  assumes "d0 = m0 + B * q0" "e1 = d1 + q0" "e1 = m1 + B * q1" "e2 = d2 + q1" "e2 = m2 + B * q2"
    "e3 = d3 + q2" "e3 = m3 + B * q3" "e4 = d4 + q3" "e4 = m4 + B * c" "k0 = m0 + c * w" "k0 = n0 + B * t"
  shows "n0 + B * (m1 + t + B * (m2 + B * (m3 + B * m4))) + c * (B ^ 5 - w)
    = d0 + B * (d1 + B * (d2 + B * (d3 + B * d4)))"
proof -
  have d: "d1 = m1 + B * q1 - q0" "d2 = m2 + B * q2 - q1" "d3 = m3 + B * q3 - q2"
    "d4 = m4 + B * c - q3" "m0 = n0 + B * t - c * w" using assms by linarith+
  show ?thesis unfolding assms(1) d by (simp add: algebra_simps eval_nat_numeral)
qed
lemma carry_chain_nat:
  fixes d0 d1 d2 d3 d4 e1 e2 e3 e4 k0 B P w :: nat
  assumes "d0 = m0 + B * q0" "e1 = d1 + q0" "e1 = m1 + B * q1" "e2 = d2 + q1" "e2 = m2 + B * q2"
    "e3 = d3 + q2" "e3 = m3 + B * q3" "e4 = d4 + q3" "e4 = m4 + B * c" "k0 = m0 + c * w" "k0 = n0 + B * t"
    and P: "P + w = B ^ 5"
  shows "n0 + B * (m1 + t + B * (m2 + B * (m3 + B * m4))) + c * P
    = d0 + B * (d1 + B * (d2 + B * (d3 + B * d4)))"
proof -
  note a = assms(1-11) [THEN arg_cong, of int, unfolded of_nat_add of_nat_mult]
  have "int P = int B ^ 5 - int w" using P [THEN arg_cong, of int] by simp
  then have "int (n0 + B * (m1 + t + B * (m2 + B * (m3 + B * m4))) + c * P)
    = int (d0 + B * (d1 + B * (d2 + B * (d3 + B * d4))))"
    unfolding of_nat_add of_nat_mult using carry_chain [OF a] by simp
  then show ?thesis by (simp only: of_nat_eq_iff)
qed

lemma poly_carry_value:
  assumes d0: "unat d0 < 2 ^ 58" and d: "unat d1 < 2 ^ 58 - 2 ^ 32" "unat d2 < 2 ^ 58 - 2 ^ 32"
    "unat d3 < 2 ^ 58 - 2 ^ 32" and d4: "unat d4 < 6 * 2 ^ 53"
  obtains h0 h1 h2 h3 h4 c where "poly_carry [d0, d1, d2, d3, d4] = [h0, h1, h2, h3, h4]"
    and "val26 [h0, h1, h2, h3, h4] + c * P1305
       = unat d0 + 2 ^ 26 * (unat d1 + 2 ^ 26 * (unat d2 + 2 ^ 26 * (unat d3 + 2 ^ 26 * unat d4)))"
    and "unat h0 < 2 ^ 26" "unat h1 < 2 ^ 26 + 64" "unat h2 < 2 ^ 26" "unat h3 < 2 ^ 26" "unat h4 < 2 ^ 26"
proof -
  define e1 where "e1 = d1 + ucast (ucast (drop_bit 26 d0) :: u32)"
  define e2 where "e2 = d2 + ucast (ucast (drop_bit 26 e1) :: u32)"
  define e3 where "e3 = d3 + ucast (ucast (drop_bit 26 e2) :: u32)"
  define e4 where "e4 = d4 + ucast (ucast (drop_bit 26 e3) :: u32)"
  have b32: "n < 2 ^ 58 \<Longrightarrow> n div 2 ^ 26 < 2 ^ 32" for n :: nat by (simp add: less_mult_imp_div_less)
  have step: "unat (y + ucast (ucast (drop_bit 26 x) :: u32)) = unat y + unat x div 2 ^ 26"
    if "unat x < 2 ^ 58" "unat y < 2 ^ 58 - 2 ^ 32" for x y :: u64
    using that(2) carry_step(1) [OF that(1)] b32 [OF that(1)] by (subst unat_add_u64) simp_all
  have E1: "unat e1 = unat d1 + unat d0 div 2 ^ 26" "unat e1 < 2 ^ 58"
    unfolding e1_def using step [of d0 d1] d d0 b32 [of "unat d0"] by simp_all
  have E2: "unat e2 = unat d2 + unat e1 div 2 ^ 26" "unat e2 < 2 ^ 58"
    unfolding e2_def using step [of e1 d2] d E1 b32 [of "unat e1"] by simp_all
  have E3: "unat e3 = unat d3 + unat e2 div 2 ^ 26" "unat e3 < 2 ^ 58"
    unfolding e3_def using step [of e2 d3] d E2 b32 [of "unat e2"] by simp_all
  have E4: "unat e4 = unat d4 + unat e3 div 2 ^ 26" "unat e4 \<le> 6 * 2 ^ 53 + 2 ^ 32"
    unfolding e4_def using step [of e3 d4] d4 E3 b32 [of "unat e3"] by simp_all
  have e4s: "unat e4 < 2 ^ 58" using E4(2) by simp
  define c where "c = unat e4 div 2 ^ 26"
  have c5: "c \<le> 6 * 2 ^ 27 + 64"
    unfolding c_def using div_le_mono [OF E4(2), of "2 ^ 26"] by simp
  define k0 where "k0 = (ucast d0 AND 0x3ffffff :: u32) + ucast (drop_bit 26 e4) * 5"
  have m5: "unat ((ucast (drop_bit 26 e4) :: u32) * 5) = c * 5"
    using carry_step(1) [OF e4s] c5 by (subst unat_mult5_u32) (simp_all add: c_def)
  have r26: "unat d0 mod 2 ^ 26 < 2 ^ 26" by simp
  have lt32: "unat d0 mod 2 ^ 26 + c * 5 < 2 ^ 32" using r26 c5 by simp
  have K0: "unat k0 = unat d0 mod 2 ^ 26 + c * 5"
    unfolding k0_def using unat_add_u32 [of "ucast d0 AND 0x3ffffff" "ucast (drop_bit 26 e4) * 5"] lt32
    by (simp only: carry_step(2) [OF d0] m5)
  define h0 where "h0 = k0 AND 0x3ffffff"
  define h1 where "h1 = (ucast e1 AND 0x3ffffff :: u32) + drop_bit 26 k0"
  define h2 where "h2 = (ucast e2 AND 0x3ffffff :: u32)"
  define h3 where "h3 = (ucast e3 AND 0x3ffffff :: u32)"
  define h4 where "h4 = (ucast e4 AND 0x3ffffff :: u32)"
  have eq: "poly_carry [d0, d1, d2, d3, d4] = [h0, h1, h2, h3, h4]"
    by (simp only: poly_carry.simps Let_def e1_def e2_def e3_def e4_def k0_def h0_def h1_def h2_def
        h3_def h4_def)
  have H0: "unat h0 = unat k0 mod 2 ^ 26" by (simp only: h0_def unat_and_mask26)
  have H2: "unat h2 = unat e2 mod 2 ^ 26" by (simp only: h2_def carry_step(2) [OF E2(2)])
  have H3: "unat h3 = unat e3 mod 2 ^ 26" by (simp only: h3_def carry_step(2) [OF E3(2)])
  have H4: "unat h4 = unat e4 mod 2 ^ 26" by (simp only: h4_def carry_step(2) [OF e4s])
  have q: "unat k0 div 2 ^ 26 < 64" using lt32 unfolding K0 by (simp add: less_mult_imp_div_less)
  have r1: "unat e1 mod 2 ^ 26 < 2 ^ 26" by simp
  have "unat e1 mod 2 ^ 26 + unat k0 div 2 ^ 26 < 2 ^ 32" using q r1 by simp
  then have H1: "unat h1 = unat e1 mod 2 ^ 26 + unat k0 div 2 ^ 26"
    unfolding h1_def using unat_add_u32 [of "ucast e1 AND 0x3ffffff" "drop_bit 26 k0"]
    by (simp only: carry_step(2) [OF E1(2)] unat_drop_bit)
  have dm: "n = n mod 2 ^ 26 + 2 ^ 26 * (n div 2 ^ 26)" for n :: nat by simp
  have P: "P1305 + 5 = (2 ^ 26) ^ 5" by simp
  have "val26 [h0, h1, h2, h3, h4] + c * P1305
       = unat d0 + 2 ^ 26 * (unat d1 + 2 ^ 26 * (unat d2 + 2 ^ 26 * (unat d3 + 2 ^ 26 * unat d4)))"
    using carry_chain_nat [OF dm E1(1) dm E2(1) dm E3(1) dm E4(1) dm [of "unat e4", folded c_def] K0 dm P]
    by (simp only: val26.simps H0 H1 H2 H3 H4 mult_0_right add_0_right)
  moreover have "unat h0 < 2 ^ 26" "unat h2 < 2 ^ 26" "unat h3 < 2 ^ 26" "unat h4 < 2 ^ 26"
    by (simp_all add: H0 H2 H3 H4)
  moreover have "unat h1 < 2 ^ 26 + 64" using H1 q r1 by simp
  ultimately show ?thesis using that [OF eq] by blast
qed

lemma limb_products:
  fixes B w P :: int
  assumes "P = B ^ 5 - w"
  shows "(h0 + B * (h1 + B * (h2 + B * (h3 + B * h4)))) * (r0 + B * (r1 + B * (r2 + B * (r3 + B * r4))))
    = (h0 * r0 + h1 * (r4 * w) + h2 * (r3 * w) + h3 * (r2 * w) + h4 * (r1 * w))
      + B * ((h0 * r1 + h1 * r0 + h2 * (r4 * w) + h3 * (r3 * w) + h4 * (r2 * w))
      + B * ((h0 * r2 + h1 * r1 + h2 * r0 + h3 * (r4 * w) + h4 * (r3 * w))
      + B * ((h0 * r3 + h1 * r2 + h2 * r1 + h3 * r0 + h4 * (r4 * w))
      + B * (h0 * r4 + h1 * r3 + h2 * r2 + h3 * r1 + h4 * r0))))
      + ((h1 * r4 + h2 * r3 + h3 * r2 + h4 * r1) + B * (h2 * r4 + h3 * r3 + h4 * r2)
         + B ^ 2 * (h3 * r4 + h4 * r3) + B ^ 3 * (h4 * r4)) * P"
  unfolding assms by (simp add: algebra_simps eval_nat_numeral)

lemma limb_products_nat:
  fixes B w P :: nat
  assumes "P + w = B ^ 5"
  shows "(h0 + B * (h1 + B * (h2 + B * (h3 + B * h4)))) * (r0 + B * (r1 + B * (r2 + B * (r3 + B * r4))))
    = (h0 * r0 + h1 * (r4 * w) + h2 * (r3 * w) + h3 * (r2 * w) + h4 * (r1 * w))
      + B * ((h0 * r1 + h1 * r0 + h2 * (r4 * w) + h3 * (r3 * w) + h4 * (r2 * w))
      + B * ((h0 * r2 + h1 * r1 + h2 * r0 + h3 * (r4 * w) + h4 * (r3 * w))
      + B * ((h0 * r3 + h1 * r2 + h2 * r1 + h3 * r0 + h4 * (r4 * w))
      + B * (h0 * r4 + h1 * r3 + h2 * r2 + h3 * r1 + h4 * r0))))
      + ((h1 * r4 + h2 * r3 + h3 * r2 + h4 * r1) + B * (h2 * r4 + h3 * r3 + h4 * r2)
         + B ^ 2 * (h3 * r4 + h4 * r3) + B ^ 3 * (h4 * r4)) * P"
proof -
  have "int P = int B ^ 5 - int w" using assms [THEN arg_cong, of int] by simp
  from limb_products [OF this] show ?thesis
    by (simp only: of_nat_eq_iff [where 'a = int, symmetric] of_nat_add of_nat_mult of_nat_power)
qed

text \<open>The bounds on limbs that every state of the authenticator keeps.\<close>

definition poly_h_ok :: "u32 list \<Rightarrow> bool" where
  "poly_h_ok h \<longleftrightarrow> length h = 5 \<and> (\<forall>i < 5. unat (h ! i) < 2 ^ 26 + (if i = 1 then 64 else 0))"

definition limbs26 :: "u32 list \<Rightarrow> bool" where
  "limbs26 h \<longleftrightarrow> length h = 5 \<and> (\<forall>x \<in> set h. unat x < 2 ^ 26)"

lemma poly_mul_value:
  assumes h: "unat h0 \<le> 2 ^ 27" "unat h1 \<le> 2 ^ 27 + 64" "unat h2 \<le> 2 ^ 27" "unat h3 \<le> 2 ^ 27"
      "unat h4 \<le> 2 ^ 27"
    and r: "unat r0 \<le> 2 ^ 26" "unat r1 \<le> 2 ^ 26" "unat r2 \<le> 2 ^ 26" "unat r3 \<le> 2 ^ 26" "unat r4 \<le> 2 ^ 26"
  obtains d0 d1 d2 d3 d4 k where "poly_mul [h0, h1, h2, h3, h4] [r0, r1, r2, r3, r4] = [d0, d1, d2, d3, d4]"
    and "unat d0 < 2 ^ 58" "unat d1 < 2 ^ 58 - 2 ^ 32" "unat d2 < 2 ^ 58 - 2 ^ 32"
      "unat d3 < 2 ^ 58 - 2 ^ 32" "unat d4 < 6 * 2 ^ 53"
    and "val26 [h0, h1, h2, h3, h4] * val26 [r0, r1, r2, r3, r4]
      = unat d0 + 2 ^ 26 * (unat d1 + 2 ^ 26 * (unat d2 + 2 ^ 26 * (unat d3 + 2 ^ 26 * unat d4))) + k * P1305"
proof -
  have r5: "unat (r * 5 :: u32) = unat r * 5" "unat (r * 5) \<le> 5 * 2 ^ 26" if "unat r \<le> 2 ^ 26" for r
    using that by (subst unat_mult5_u32; simp)+
  have hm: "a \<le> 2 ^ 27 + 64" if "a \<le> 2 ^ 27" for a :: nat using that by simp
  note hb = hm [OF h(1)] h(2) hm [OF h(3)] hm [OF h(4)] hm [OF h(5)]
  have p1: "unat (wmul a b) \<le> (2 ^ 27 + 64) * 2 ^ 26" if "unat a \<le> 2 ^ 27 + 64" "unat b \<le> 2 ^ 26" for a b
    unfolding unat_wmul using that by (rule mult_le_mono)
  have p5: "unat (wmul a (b * 5)) \<le> (2 ^ 27 + 64) * (5 * 2 ^ 26)"
    if "unat a \<le> 2 ^ 27 + 64" "unat b \<le> 2 ^ 26" for a b
    unfolding unat_wmul using that(1) r5(2) [OF that(2)] by (rule mult_le_mono)
  let ?X = "(2 ^ 27 + 64) * 2 ^ 26 :: nat" and ?Y = "(2 ^ 27 + 64) * (5 * 2 ^ 26) :: nat"
  have sum: "unat (a + b + c + d + e) = unat a + unat b + unat c + unat d + unat (e :: u64) \<and>
      unat (a + b + c + d + e) \<le> A1 + A2 + A3 + A4 + A5"
    if "unat a \<le> A1" "unat b \<le> A2" "unat c \<le> A3" "unat d \<le> A4" "unat e \<le> A5"
      "A1 + A2 + A3 + A4 + A5 < 2 ^ 64" for a b c d e A1 A2 A3 A4 A5
    using that by (subst (1 2) sum5_u64) linarith+
  have n: "?X + ?Y + ?Y + ?Y + ?Y < 2 ^ 58" "?X + ?X + ?Y + ?Y + ?Y < 2 ^ 58 - 2 ^ 32"
    "?X + ?X + ?X + ?Y + ?Y < 2 ^ 58 - 2 ^ 32" "?X + ?X + ?X + ?X + ?Y < 2 ^ 58 - 2 ^ 32"
    "?X + ?X + ?X + ?X + ?X < 6 * 2 ^ 53" "(2 :: nat) ^ 58 < 2 ^ 64" "6 * 2 ^ 53 < (2 :: nat) ^ 64"
    by simp_all
  note s0 = sum [OF p1 [OF hb(1) r(1)] p5 [OF hb(2) r(5)] p5 [OF hb(3) r(4)] p5 [OF hb(4) r(3)] p5 [OF hb(5) r(2)]]
  note s1 = sum [OF p1 [OF hb(1) r(2)] p1 [OF hb(2) r(1)] p5 [OF hb(3) r(5)] p5 [OF hb(4) r(4)] p5 [OF hb(5) r(3)]]
  note s2 = sum [OF p1 [OF hb(1) r(3)] p1 [OF hb(2) r(2)] p1 [OF hb(3) r(1)] p5 [OF hb(4) r(5)] p5 [OF hb(5) r(4)]]
  note s3 = sum [OF p1 [OF hb(1) r(4)] p1 [OF hb(2) r(3)] p1 [OF hb(3) r(2)] p1 [OF hb(4) r(1)] p5 [OF hb(5) r(5)]]
  note s4 = sum [OF p1 [OF hb(1) r(5)] p1 [OF hb(2) r(4)] p1 [OF hb(3) r(3)] p1 [OF hb(4) r(2)] p1 [OF hb(5) r(1)]]
  have P: "P1305 + 5 = (2 ^ 26) ^ 5" by simp
  have l: "?X + ?Y + ?Y + ?Y + ?Y < 2 ^ 64" "?X + ?X + ?Y + ?Y + ?Y < 2 ^ 64"
    "?X + ?X + ?X + ?Y + ?Y < 2 ^ 64" "?X + ?X + ?X + ?X + ?Y < 2 ^ 64" "?X + ?X + ?X + ?X + ?X < 2 ^ 64"
    by simp_all
  show ?thesis
  proof (rule that)
    show "poly_mul [h0, h1, h2, h3, h4] [r0, r1, r2, r3, r4] =
      [wmul h0 r0 + wmul h1 (r4 * 5) + wmul h2 (r3 * 5) + wmul h3 (r2 * 5) + wmul h4 (r1 * 5),
      wmul h0 r1 + wmul h1 r0 + wmul h2 (r4 * 5) + wmul h3 (r3 * 5) + wmul h4 (r2 * 5),
      wmul h0 r2 + wmul h1 r1 + wmul h2 r0 + wmul h3 (r4 * 5) + wmul h4 (r3 * 5),
      wmul h0 r3 + wmul h1 r2 + wmul h2 r1 + wmul h3 r0 + wmul h4 (r4 * 5),
      wmul h0 r4 + wmul h1 r3 + wmul h2 r2 + wmul h3 r1 + wmul h4 r0]"
      by (rule poly_mul.simps)
  next
    show "val26 [h0, h1, h2, h3, h4] * val26 [r0, r1, r2, r3, r4] =
      unat (wmul h0 r0 + wmul h1 (r4 * 5) + wmul h2 (r3 * 5) + wmul h3 (r2 * 5) + wmul h4 (r1 * 5))
      + 2 ^ 26 * (unat (wmul h0 r1 + wmul h1 r0 + wmul h2 (r4 * 5) + wmul h3 (r3 * 5) + wmul h4 (r2 * 5))
      + 2 ^ 26 * (unat (wmul h0 r2 + wmul h1 r1 + wmul h2 r0 + wmul h3 (r4 * 5) + wmul h4 (r3 * 5))
      + 2 ^ 26 * (unat (wmul h0 r3 + wmul h1 r2 + wmul h2 r1 + wmul h3 r0 + wmul h4 (r4 * 5))
      + 2 ^ 26 * unat (wmul h0 r4 + wmul h1 r3 + wmul h2 r2 + wmul h3 r1 + wmul h4 r0))))
      + ((unat h1 * unat r4 + unat h2 * unat r3 + unat h3 * unat r2 + unat h4 * unat r1)
         + 2 ^ 26 * (unat h2 * unat r4 + unat h3 * unat r3 + unat h4 * unat r2)
         + (2 ^ 26) ^ 2 * (unat h3 * unat r4 + unat h4 * unat r3) + (2 ^ 26) ^ 3 * (unat h4 * unat r4)) * P1305"
      using limb_products_nat [OF P, of "unat h0" "unat h1" "unat h2" "unat h3" "unat h4"
          "unat r0" "unat r1" "unat r2" "unat r3" "unat r4"]
      by (simp only: val26.simps mult_0_right add_0_right s0 [OF l(1), THEN conjunct1]
          s1 [OF l(2), THEN conjunct1] s2 [OF l(3), THEN conjunct1] s3 [OF l(4), THEN conjunct1]
          s4 [OF l(5), THEN conjunct1] unat_wmul r5(1) [OF r(2)] r5(1) [OF r(3)] r5(1) [OF r(4)]
          r5(1) [OF r(5)])
  qed (use s0 [OF l(1)] s1 [OF l(2)] s2 [OF l(3)] s3 [OF l(4)] s4 [OF l(5)] n in linarith)+
qed

text \<open>Bytes as the number they encode, least significant first.\<close>

fun le_nat :: "bytes \<Rightarrow> nat" where
  "le_nat [] = 0"
| "le_nat (b # bs) = unat b + 256 * le_nat bs"

lemma le_nat_append: "le_nat (xs @ ys) = le_nat xs + 2 ^ (8 * length xs) * le_nat ys"
  by (induction xs) (simp_all add: algebra_simps power_add)

lemma le_nat_zeros [simp]: "le_nat (replicate n 0) = 0"
  by (induction n) simp_all

lemma digits_less: "a < B \<Longrightarrow> v < M \<Longrightarrow> a + B * v < B * (M :: nat)"
proof -
  assume "a < B" "v < M"
  then have "a + B * v < B * Suc v" "B * Suc v \<le> B * M" by (simp, intro mult_le_mono2, simp)
  then show ?thesis by linarith
qed

lemma unat_of_le32: "unat (of_le32 a b c d) = le_nat [a, b, c, d]"
proof -
  define x where "x = of_le32 a b c d"
  have l: "[ucast x, ucast (drop_bit 8 x), ucast (drop_bit 16 x), ucast (drop_bit 24 x)] = [a, b, c, d]"
    using le32_of_le32 [of a b c d] by (simp only: x_def le32_def)
  have u: "unat (ucast (w :: u32) :: u8) = unat w mod 256" for w
    by (simp add: unsigned_ucast_eq take_bit_eq_mod)
  have e: "unat a = unat x mod 256" "unat b = unat x div 2 ^ 8 mod 256" "unat c = unat x div 2 ^ 16 mod 256"
    "unat d = unat x div 2 ^ 24 mod 256"
    using l by (simp_all only: list.inject u [symmetric] unat_drop_bit [symmetric])
  have h: "unat x div 2 ^ 24 < 256" using unat_u32_less [of x] by (simp add: less_mult_imp_div_less)
  have s: "n = n mod 256 + 256 * (n div 256)" for n :: nat by simp
  have d2: "unat x div 2 ^ 16 = unat x div 2 ^ 8 div 256" "unat x div 2 ^ 24 = unat x div 2 ^ 16 div 256"
    "unat x div 2 ^ 8 = unat x div 256"
    by (simp_all add: div_mult2_eq [symmetric])
  have "unat x = unat a + 256 * (unat x div 2 ^ 8)" using s [of "unat x"] by (simp only: e d2(3))
  moreover have "unat x div 2 ^ 8 = unat b + 256 * (unat x div 2 ^ 16)"
    using s [of "unat x div 2 ^ 8"] by (simp only: e d2(1))
  moreover have "unat x div 2 ^ 16 = unat c + 256 * (unat x div 2 ^ 24)"
    using s [of "unat x div 2 ^ 16"] by (simp only: e d2(2))
  moreover have "unat x div 2 ^ 24 = unat d" using h by (simp only: e(4) mod_less)
  ultimately have "unat x = unat a + 256 * (unat b + 256 * (unat c + 256 * unat d))" by (simp only:)
  then show ?thesis by (simp add: x_def)
qed

lemma unat_u32_of_nat: "k < 2 ^ 32 \<Longrightarrow> unat (of_nat k :: u32) = k"
  by (simp add: unsigned_of_nat take_bit_nat_eq_self_iff)

lemma unat_top_limb:
  assumes "hibit = 0 \<or> hibit = (1 :: u8)"
  shows "unat (drop_bit 8 (w :: u32) OR push_bit 24 (ucast hibit)) = unat w div 2 ^ 8 + 2 ^ 24 * unat hibit"
  using assms
proof
  assume h: "hibit = 1"
  have p: "push_bit 24 (ucast hibit :: u32) = 2 ^ 24" unfolding h by (simp add: push_bit_eq_mult)
  have b: "\<not> bit (drop_bit 8 w) n \<or> \<not> bit (2 ^ 24 :: u32) n" for n
    by (cases "n = 24") (auto simp only: bit_drop_bit_eq bit_exp_iff, auto dest: bit_imp_le_length)
  have u24: "unat (2 ^ 24 :: u32) = 2 ^ 24" by simp
  have "unat w div 2 ^ 8 < 2 ^ 24" using unat_u32_less [of w] by (simp add: less_mult_imp_div_less)
  then have "unat (drop_bit 8 w + 2 ^ 24) = unat (drop_bit 8 w) + unat (2 ^ 24 :: u32)"
    by (intro unat_add_u32, unfold unat_drop_bit u24) simp
  then show ?thesis
    unfolding p disjunctive_add [OF b, symmetric] by (simp only: unat_drop_bit u24 h unsigned_1 mult_1_right)
next
  assume h: "hibit = 0"
  have "ucast hibit = (0 :: u32)" by (simp add: h)
  then have "drop_bit 8 w OR push_bit 24 (ucast hibit) = drop_bit 8 w" by (simp only: push_bit_of_0 or.right_neutral)
  then show ?thesis by (simp only: unat_drop_bit h unsigned_0 mult_0_right add_0_right)
qed

lemma limb_split:
  assumes "X = r + k * (L + 2 ^ 26 * Q)" and "r < k" and "L < 67108864"
  shows "X div k mod 2 ^ 26 = (L :: nat)"
proof -
  have "X div k = L + 2 ^ 26 * Q" using assms(1,2) by simp
  then show ?thesis using assms(3) by simp
qed

lemma block_limbs_value:
  assumes "length m = 16" and "hibit = 0 \<or> hibit = 1"
  shows "val26 (block_limbs m hibit) = le_nat m + 2 ^ 128 * unat hibit"
    and "\<forall>x \<in> set (block_limbs m hibit). unat x < 2 ^ 26"
proof -
  obtain b0 b1 b2 b3 b4 b5 b6 b7 b8 b9 b10 b11 b12 b13 b14 b15 where
    m: "m = [b0, b1, b2, b3, b4, b5, b6, b7, b8, b9, b10, b11, b12, b13, b14, b15]"
    using assms(1) by (auto simp: numeral_eq_Suc length_Suc_conv)
  have ld: "load32_le m 0 = of_le32 b0 b1 b2 b3" "load32_le m 3 = of_le32 b3 b4 b5 b6"
    "load32_le m 6 = of_le32 b6 b7 b8 b9" "load32_le m 9 = of_le32 b9 b10 b11 b12"
    "load32_le m 12 = of_le32 b12 b13 b14 b15"
    by (simp_all add: load32_le_of_le32 m)
  define r3 q3 r6 q6 r9 q9 where "r3 = unat b3 mod 4" and "q3 = unat b3 div 4"
    and "r6 = unat b6 mod 16" and "q6 = unat b6 div 16" and "r9 = unat b9 mod 64" and "q9 = unat b9 div 64"
  have s: "unat b3 = r3 + 4 * q3" "unat b6 = r6 + 16 * q6" "unat b9 = r9 + 64 * q9"
    by (simp_all add: r3_def q3_def r6_def q6_def r9_def q9_def)
  have lt: "r3 < 4" "q3 < 64" "r6 < 16" "q6 < 16" "r9 < 64" "q9 < 4"
    by (simp_all add: r3_def q3_def r6_def q6_def r9_def q9_def less_mult_imp_div_less)
  note b = unat_u8_less [of b0] unat_u8_less [of b1] unat_u8_less [of b2] unat_u8_less [of b4]
    unat_u8_less [of b5] unat_u8_less [of b7] unat_u8_less [of b8] unat_u8_less [of b10]
    unat_u8_less [of b11] unat_u8_less [of b12] unat_u8_less [of b13] unat_u8_less [of b14]
    unat_u8_less [of b15]
  have L0: "unat (load32_le m 0 AND 0x3ffffff)
      = unat b0 + 256 * unat b1 + 65536 * unat b2 + 16777216 * r3"
    unfolding unat_and_mask26 ld unat_of_le32
    using limb_split [of "le_nat [b0, b1, b2, b3]" 0 1 "unat b0 + 256 * unat b1 + 65536 * unat b2 + 16777216 * r3" q3]
      lt unat_u8_less [of b0] unat_u8_less [of b1] unat_u8_less [of b2] by (simp add: s)
  have L1: "unat (drop_bit 2 (load32_le m 3) AND 0x3ffffff)
      = q3 + 64 * unat b4 + 16384 * unat b5 + 4194304 * r6"
    unfolding unat_and_mask26 unat_drop_bit ld unat_of_le32
    by (rule limb_split [of _ r3 _ _ q6], simp add: s, use lt in simp, use b lt in linarith)
  have L2: "unat (drop_bit 4 (load32_le m 6) AND 0x3ffffff)
      = q6 + 16 * unat b7 + 4096 * unat b8 + 1048576 * r9"
    unfolding unat_and_mask26 unat_drop_bit ld unat_of_le32
    by (rule limb_split [of _ r6 _ _ q9], simp add: s, use lt in simp, use b lt in linarith)
  have L3: "unat (drop_bit 6 (load32_le m 9) AND 0x3ffffff)
      = q9 + 4 * unat b10 + 1024 * unat b11 + 262144 * unat b12"
    unfolding unat_and_mask26 unat_drop_bit ld unat_of_le32
    by (rule limb_split [of _ r9 _ _ 0], simp add: s, use lt in simp, use b lt in linarith)
  define k where "k = unat b13 + 256 * unat b14 + 65536 * unat b15"
  have "le_nat [b12, b13, b14, b15] = unat b12 + 256 * k" by (simp add: k_def)
  then have "le_nat [b12, b13, b14, b15] div 2 ^ 8 = k" by simp
  then have "le_nat [b12, b13, b14, b15] div 2 ^ 8 = unat b13 + 256 * unat b14 + 65536 * unat b15"
    by (simp only: k_def)
  then have L4: "unat (drop_bit 8 (load32_le m 12) OR push_bit 24 (ucast hibit))
      = unat b13 + 256 * unat b14 + 65536 * unat b15 + 16777216 * unat hibit"
    unfolding unat_top_limb [OF assms(2)] ld unat_of_le32 by simp
  have hb: "unat hibit \<le> 1" using assms(2) by auto
  show "val26 (block_limbs m hibit) = le_nat m + 2 ^ 128 * unat hibit"
    unfolding block_limbs_def val26.simps L0 L1 L2 L3 L4 by (simp add: m s)
  show "\<forall>x \<in> set (block_limbs m hibit). unat x < 2 ^ 26"
  proof -
    have "unat b0 + 256 * unat b1 + 65536 * unat b2 + 16777216 * r3 < 67108864"
      "q3 + 64 * unat b4 + 16384 * unat b5 + 4194304 * r6 < 67108864"
      "q6 + 16 * unat b7 + 4096 * unat b8 + 1048576 * r9 < 67108864"
      "q9 + 4 * unat b10 + 1024 * unat b11 + 262144 * unat b12 < 67108864"
      "unat b13 + 256 * unat b14 + 65536 * unat b15 + 16777216 * unat hibit < 67108864"
      using b lt hb by linarith+
    then have "\<forall>v \<in> set (map unat (block_limbs m hibit)). v < 67108864"
      unfolding block_limbs_def list.map L0 L1 L2 L3 L4 by (simp only: list.set ball_simps insert_iff empty_iff)
    then show ?thesis by simp
  qed
qed

lemma all_less_5: "(\<forall>i < 5. P i) \<longleftrightarrow> P 0 \<and> P 1 \<and> P 2 \<and> P 3 \<and> P (4 :: nat)"
  by (simp add: numeral_eq_Suc All_less_Suc) blast

lemma poly_h_okI_iff: "poly_h_ok [g0, g1, g2, g3, g4] \<longleftrightarrow> unat g0 < 2 ^ 26 \<and> unat g1 < 2 ^ 26 + 64
    \<and> unat g2 < 2 ^ 26 \<and> unat g3 < 2 ^ 26 \<and> unat g4 < 2 ^ 26"
  by (simp add: poly_h_ok_def all_less_5)

lemma val26_map2_add:
  assumes "poly_h_ok h" and "length m = 5" and "\<forall>x \<in> set m. unat x < 2 ^ 26"
  obtains h0 h1 h2 h3 h4 where "map2 (+) h m = [h0, h1, h2, h3, h4]"
    and "unat h0 \<le> 2 ^ 27" "unat h1 \<le> 2 ^ 27 + 64" "unat h2 \<le> 2 ^ 27" "unat h3 \<le> 2 ^ 27"
      "unat h4 \<le> 2 ^ 27"
    and "val26 [h0, h1, h2, h3, h4] = val26 h + val26 m"
proof -
  obtain a0 a1 a2 a3 a4 where h: "h = [a0, a1, a2, a3, a4]"
    using length_5_exhaust [of h] assms(1) by (auto simp: poly_h_ok_def)
  obtain m0 m1 m2 m3 m4 where m: "m = [m0, m1, m2, m3, m4]"
    using length_5_exhaust [OF assms(2)] by auto
  have hb: "unat (h ! i) < 2 ^ 26 + (if i = 1 then 64 else 0)" if "i < 5" for i
    using assms(1) that by (simp add: poly_h_ok_def)
  have a: "unat a0 < 2 ^ 26" "unat a1 < 2 ^ 26 + 64" "unat a2 < 2 ^ 26" "unat a3 < 2 ^ 26" "unat a4 < 2 ^ 26"
    using hb [of 0] hb [of 1] hb [of 2] hb [of 3] hb [of 4] by (simp_all add: h)
  have mb: "unat m0 < 2 ^ 26" "unat m1 < 2 ^ 26" "unat m2 < 2 ^ 26" "unat m3 < 2 ^ 26" "unat m4 < 2 ^ 26"
    using assms(3) by (simp_all add: m)
  have add: "unat (x + y) = unat x + unat (y :: u32)" if "unat x < 2 ^ 26 + 64" "unat y < 2 ^ 26" for x y
    using that by (intro unat_add_u32) simp
  have w: "unat x < 2 ^ 26 \<Longrightarrow> unat x < 2 ^ 26 + 64" for x :: u32 by simp
  note s = add [OF w [OF a(1)] mb(1)] add [OF a(2) mb(2)] add [OF w [OF a(3)] mb(3)]
    add [OF w [OF a(4)] mb(4)] add [OF w [OF a(5)] mb(5)]
  show ?thesis
  proof (rule that)
    show "map2 (+) h m = [a0 + m0, a1 + m1, a2 + m2, a3 + m3, a4 + m4]" by (simp add: h m)
    show "val26 [a0 + m0, a1 + m1, a2 + m2, a3 + m3, a4 + m4] = val26 h + val26 m"
      unfolding h m val26.simps s by simp
  qed (unfold s, use a mb in simp_all)
qed

text \<open>One block: the accumulator plus the block, times \<open>r\<close>, modulo the prime.\<close>

lemma poly1305_block_value:
  assumes h: "poly_h_ok (po_h st)" and r: "limbs26 (po_r st)"
    and m: "length m = 16" "hibit = 0 \<or> hibit = 1"
  shows "val26 (po_h (poly1305_block st m hibit)) mod P1305
      = (val26 (po_h st) + (le_nat m + 2 ^ 128 * unat hibit)) * val26 (po_r st) mod P1305"
    and "poly_h_ok (po_h (poly1305_block st m hibit))"
proof -
  have lm: "length (block_limbs m hibit) = 5" by (simp add: block_limbs_def)
  obtain h0 h1 h2 h3 h4 where H: "map2 (+) (po_h st) (block_limbs m hibit) = [h0, h1, h2, h3, h4]"
    and hb: "unat h0 \<le> 2 ^ 27" "unat h1 \<le> 2 ^ 27 + 64" "unat h2 \<le> 2 ^ 27" "unat h3 \<le> 2 ^ 27"
      "unat h4 \<le> 2 ^ 27"
    and hv: "val26 [h0, h1, h2, h3, h4] = val26 (po_h st) + val26 (block_limbs m hibit)"
    by (rule val26_map2_add [OF h lm block_limbs_value(2) [OF m]])
  obtain r0 r1 r2 r3 r4 where R: "po_r st = [r0, r1, r2, r3, r4]"
    using length_5_exhaust [of "po_r st"] r by (auto simp: limbs26_def)
  have rb: "unat r0 \<le> 2 ^ 26" "unat r1 \<le> 2 ^ 26" "unat r2 \<le> 2 ^ 26" "unat r3 \<le> 2 ^ 26" "unat r4 \<le> 2 ^ 26"
    using r by (simp_all add: limbs26_def R)
  obtain d0 d1 d2 d3 d4 k where D: "poly_mul [h0, h1, h2, h3, h4] [r0, r1, r2, r3, r4] = [d0, d1, d2, d3, d4]"
    and db: "unat d0 < 2 ^ 58" "unat d1 < 2 ^ 58 - 2 ^ 32" "unat d2 < 2 ^ 58 - 2 ^ 32"
      "unat d3 < 2 ^ 58 - 2 ^ 32" "unat d4 < 6 * 2 ^ 53"
    and dv: "val26 [h0, h1, h2, h3, h4] * val26 [r0, r1, r2, r3, r4]
      = unat d0 + 2 ^ 26 * (unat d1 + 2 ^ 26 * (unat d2 + 2 ^ 26 * (unat d3 + 2 ^ 26 * unat d4))) + k * P1305"
    by (rule poly_mul_value [OF hb rb])
  obtain g0 g1 g2 g3 g4 c where G: "poly_carry [d0, d1, d2, d3, d4] = [g0, g1, g2, g3, g4]"
    and gv: "val26 [g0, g1, g2, g3, g4] + c * P1305
       = unat d0 + 2 ^ 26 * (unat d1 + 2 ^ 26 * (unat d2 + 2 ^ 26 * (unat d3 + 2 ^ 26 * unat d4)))"
    and gb: "unat g0 < 2 ^ 26" "unat g1 < 2 ^ 26 + 64" "unat g2 < 2 ^ 26" "unat g3 < 2 ^ 26" "unat g4 < 2 ^ 26"
    by (rule poly_carry_value [OF db])
  have po: "po_h (poly1305_block st m hibit) = [g0, g1, g2, g3, g4]"
    unfolding poly1305_block_def H R D G by simp
  have "val26 [g0, g1, g2, g3, g4] mod P1305 = (val26 [g0, g1, g2, g3, g4] + c * P1305 + k * P1305) mod P1305"
    by (simp only: mod_mult_self1)
  also have "\<dots> = (val26 [h0, h1, h2, h3, h4] * val26 [r0, r1, r2, r3, r4]) mod P1305"
    by (simp only: gv dv)
  finally show "val26 (po_h (poly1305_block st m hibit)) mod P1305
      = (val26 (po_h st) + (le_nat m + 2 ^ 128 * unat hibit)) * val26 (po_r st) mod P1305"
    by (simp only: po hv R block_limbs_value(1) [OF m])
  show "poly_h_ok (po_h (poly1305_block st m hibit))"
    unfolding po poly_h_okI_iff using gb by blast
qed

end
