(* ===== verification/Fe25519.thy ===== *)
theory Fe25519
  imports Poly1305
begin

text \<open>
  The field arithmetic of the key exchange in \<^verbatim>\<open>common/src/fl_crypto.c\<close>: elements modulo
  \<open>2^255 - 19\<close> as five limbs of 51 bits in \<^verbatim>\<open>uint64_t\<close>, products in
  \<^verbatim>\<open>unsigned __int128\<close>. An \<^verbatim>\<open>fe51\<close> is a list of five words.
\<close>

type_synonym fe51 = "u64 list"

abbreviation MASK51 :: u64 where "MASK51 \<equiv> 0x7FFFFFFFFFFFF"

section \<open>The operations\<close>

definition fe51_load :: "bytes \<Rightarrow> fe51" where
  "fe51_load s =
     (let a = (\<lambda>i. ucast (load32_le s (4 * i)) :: u64);
          w0 = a 0 OR push_bit 32 (a 1); w1 = a 2 OR push_bit 32 (a 3);
          w2 = a 4 OR push_bit 32 (a 5); w3 = a 6 OR push_bit 32 (a 7)
      in [w0 AND MASK51,
          (drop_bit 51 w0 OR push_bit 13 w1) AND MASK51,
          (drop_bit 38 w1 OR push_bit 26 w2) AND MASK51,
          (drop_bit 25 w2 OR push_bit 39 w3) AND MASK51,
          drop_bit 12 w3 AND MASK51])"

text \<open>The carries of \<^verbatim>\<open>fe51_store\<close>, then its packing.\<close>

fun fe51_carry :: "fe51 \<Rightarrow> fe51" where
  "fe51_carry [h0, h1, h2, h3, h4] =
     (let c = drop_bit 51 h0; h0 = h0 AND MASK51; h1 = h1 + c;
          c = drop_bit 51 h1; h1 = h1 AND MASK51; h2 = h2 + c;
          c = drop_bit 51 h2; h2 = h2 AND MASK51; h3 = h3 + c;
          c = drop_bit 51 h3; h3 = h3 AND MASK51; h4 = h4 + c;
          c = drop_bit 51 h4; h4 = h4 AND MASK51; h0 = h0 + c * 19;
          c = drop_bit 51 h0; h0 = h0 AND MASK51; h1 = h1 + c
      in [h0, h1, h2, h3, h4])"
| "fe51_carry _ = []"

fun fe51_pack :: "fe51 \<Rightarrow> u64 list" where
  "fe51_pack [h0, h1, h2, h3, h4] =
     [h0 OR push_bit 51 h1, drop_bit 13 h1 OR push_bit 38 h2, drop_bit 26 h2 OR push_bit 25 h3,
      drop_bit 39 h3 OR push_bit 12 h4]"
| "fe51_pack _ = []"

definition fe51_store :: "fe51 \<Rightarrow> bytes" where
  "fe51_store h = concat (map (\<lambda>w. store32_le (ucast w) @ store32_le (ucast (drop_bit 32 w)))
     (fe51_pack (fe51_carry h)))"

definition fe51_add :: "fe51 \<Rightarrow> fe51 \<Rightarrow> fe51" where
  "fe51_add a b = map2 (+) a b"

definition fe51_P2 :: fe51 where
  "fe51_P2 = [0xFFFFFFFFFFFDA, 0xFFFFFFFFFFFFE, 0xFFFFFFFFFFFFE, 0xFFFFFFFFFFFFE, 0xFFFFFFFFFFFFE]"

definition fe51_sub :: "fe51 \<Rightarrow> fe51 \<Rightarrow> fe51" where
  "fe51_sub a b = map2 (-) (map2 (+) a fe51_P2) b"

definition wmul128 :: "u64 \<Rightarrow> u64 \<Rightarrow> u128" where
  "wmul128 a b = ucast a * ucast b"

fun fe51_products :: "fe51 \<Rightarrow> fe51 \<Rightarrow> u128 list" where
  "fe51_products [a0, a1, a2, a3, a4] [b0, b1, b2, b3, b4] =
     (let b1_19 = b1 * 19; b2_19 = b2 * 19; b3_19 = b3 * 19; b4_19 = b4 * 19 in
     [wmul128 a0 b0 + wmul128 a4 b1_19 + wmul128 a3 b2_19 + wmul128 a2 b3_19 + wmul128 a1 b4_19,
      wmul128 a1 b0 + wmul128 a0 b1 + wmul128 a4 b2_19 + wmul128 a3 b3_19 + wmul128 a2 b4_19,
      wmul128 a2 b0 + wmul128 a1 b1 + wmul128 a0 b2 + wmul128 a4 b3_19 + wmul128 a3 b4_19,
      wmul128 a3 b0 + wmul128 a2 b1 + wmul128 a1 b2 + wmul128 a0 b3 + wmul128 a4 b4_19,
      wmul128 a4 b0 + wmul128 a3 b1 + wmul128 a2 b2 + wmul128 a1 b3 + wmul128 a0 b4])"
| "fe51_products _ _ = []"

fun fe51_reduce :: "u128 list \<Rightarrow> fe51" where
  "fe51_reduce [t0, t1, t2, t3, t4] =
     (let r0 = ucast t0 AND MASK51; t1 = t1 + ucast (ucast (drop_bit 51 t0) :: u64);
          r1 = ucast t1 AND MASK51; t2 = t2 + ucast (ucast (drop_bit 51 t1) :: u64);
          r2 = ucast t2 AND MASK51; t3 = t3 + ucast (ucast (drop_bit 51 t2) :: u64);
          r3 = ucast t3 AND MASK51; t4 = t4 + ucast (ucast (drop_bit 51 t3) :: u64);
          r4 = ucast t4 AND MASK51; r0 = r0 + ucast (drop_bit 51 t4) * 19;
          c = drop_bit 51 r0; r0 = r0 AND MASK51; r1 = r1 + c
      in [r0, r1, r2, r3, r4])"
| "fe51_reduce _ = []"

definition fe51_mul :: "fe51 \<Rightarrow> fe51 \<Rightarrow> fe51" where
  "fe51_mul a b = fe51_reduce (fe51_products a b)"

definition fe51_sq :: "fe51 \<Rightarrow> fe51" where
  "fe51_sq a = fe51_mul a a"

definition fe51_mul_121666 :: "fe51 \<Rightarrow> fe51" where
  "fe51_mul_121666 a = fe51_reduce (map (\<lambda>x. ucast x * 121666) a)"

definition fe51_invert :: "fe51 \<Rightarrow> fe51" where
  "fe51_invert z =
     (let t0 = fe51_sq z;
          t1 = fe51_sq t0; t1 = fe51_sq t1; t1 = fe51_mul z t1;
          t0 = fe51_mul t0 t1;
          t2 = fe51_sq t0; t1 = fe51_mul t1 t2;
          t2 = fe51_sq t1; t2 = (fe51_sq ^^ 4) t2;
          t1 = fe51_mul t2 t1;
          t2 = fe51_sq t1; t2 = (fe51_sq ^^ 9) t2;
          t2 = fe51_mul t2 t1;
          t3 = fe51_sq t2; t3 = (fe51_sq ^^ 19) t3;
          t2 = fe51_mul t3 t2;
          t2 = fe51_sq t2; t2 = (fe51_sq ^^ 9) t2;
          t1 = fe51_mul t2 t1;
          t2 = fe51_sq t1; t2 = (fe51_sq ^^ 49) t2;
          t2 = fe51_mul t2 t1;
          t3 = fe51_sq t2; t3 = (fe51_sq ^^ 99) t3;
          t2 = fe51_mul t3 t2;
          t2 = fe51_sq t2; t2 = (fe51_sq ^^ 49) t2;
          t1 = fe51_mul t2 t1;
          t1 = fe51_sq t1; t1 = (fe51_sq ^^ 4) t1
      in fe51_mul t1 t0)"

definition fe51_cswap :: "fe51 \<Rightarrow> fe51 \<Rightarrow> u64 \<Rightarrow> fe51 \<times> fe51" where
  "fe51_cswap a b sw =
     (let m = - (sw AND 1); x = map2 (\<lambda>p q. (p XOR q) AND m) a b
      in (map2 (XOR) a x, map2 (XOR) b x))"


section \<open>The numbers they stand for\<close>

fun val51 :: "fe51 \<Rightarrow> nat" where
  "val51 [] = 0"
| "val51 (x # xs) = unat x + 2 ^ 51 * val51 xs"

abbreviation P25519 :: nat where "P25519 \<equiv> 2 ^ 255 - 19"

text \<open>The bounds every operation keeps: sums and differences of reduced elements are loose, and
  products of loose elements are tight.\<close>

definition fe_tight :: "fe51 \<Rightarrow> bool" where
  "fe_tight h \<longleftrightarrow> length h = 5 \<and> (\<forall>i < 5. unat (h ! i) < 2 ^ 51 + (if i = 1 then 2 ^ 11 else 0))"

definition fe_loose :: "fe51 \<Rightarrow> bool" where
  "fe_loose h \<longleftrightarrow> length h = 5 \<and> (\<forall>x \<in> set h. unat x \<le> 2 ^ 53)"

lemma fe_tight_iff: "fe_tight [g0, g1, g2, g3, g4] \<longleftrightarrow> unat g0 < 2 ^ 51 \<and> unat g1 < 2 ^ 51 + 2 ^ 11
    \<and> unat g2 < 2 ^ 51 \<and> unat g3 < 2 ^ 51 \<and> unat g4 < 2 ^ 51"
  by (simp add: fe_tight_def all_less_5)

lemma fe_loose_iff: "fe_loose [g0, g1, g2, g3, g4] \<longleftrightarrow> unat g0 \<le> 2 ^ 53 \<and> unat g1 \<le> 2 ^ 53
    \<and> unat g2 \<le> 2 ^ 53 \<and> unat g3 \<le> 2 ^ 53 \<and> unat g4 \<le> 2 ^ 53"
  by (simp add: fe_loose_def)

lemma fe_tightE:
  assumes "fe_tight h"
  obtains h0 h1 h2 h3 h4 where "h = [h0, h1, h2, h3, h4]" and "unat h0 < 2 ^ 51"
    "unat h1 < 2 ^ 51 + 2 ^ 11" "unat h2 < 2 ^ 51" "unat h3 < 2 ^ 51" "unat h4 < 2 ^ 51"
proof -
  have "length h = 5" using assms by (simp add: fe_tight_def)
  then obtain h0 h1 h2 h3 h4 where h: "h = [h0, h1, h2, h3, h4]" using length_5_exhaust by blast
  show ?thesis using assms that [OF h] unfolding h fe_tight_iff by blast
qed

lemma fe_looseE:
  assumes "fe_loose h"
  obtains h0 h1 h2 h3 h4 where "h = [h0, h1, h2, h3, h4]" and "unat h0 \<le> 2 ^ 53" "unat h1 \<le> 2 ^ 53"
    "unat h2 \<le> 2 ^ 53" "unat h3 \<le> 2 ^ 53" "unat h4 \<le> 2 ^ 53"
proof -
  have "length h = 5" using assms by (simp add: fe_loose_def)
  then obtain h0 h1 h2 h3 h4 where h: "h = [h0, h1, h2, h3, h4]" using length_5_exhaust by blast
  show ?thesis using assms that [OF h] unfolding h fe_loose_iff by blast
qed

section \<open>Products\<close>

lemma unat_add_u128: "unat x + unat y < 2 ^ 128 \<Longrightarrow> unat (x + y) = unat x + unat (y :: u128)"
  by (simp add: unat_word_ariths)

lemma unat_mult19: "unat x * 19 < 2 ^ 64 \<Longrightarrow> unat (x * 19 :: u64) = unat x * 19"
  by (simp add: unat_word_ariths)

lemma unat_u64_less: "unat (x :: u64) < 2 ^ 64"
  using unsigned_less [of x] by simp

lemma unat_ucast_u64_u128 [simp]: "unat (ucast (x :: u64) :: u128) = unat x"
proof -
  have "unat x < 2 ^ 128" by (rule less_trans [OF unat_u64_less]) simp
  then show ?thesis by (simp add: unsigned_ucast_eq take_bit_nat_eq_self_iff)
qed

lemma unat_ucast_u128_u64: "unat (ucast (x :: u128) :: u64) = unat x mod 2 ^ 64"
  by (simp add: unsigned_ucast_eq take_bit_eq_mod)

lemma unat_wmul128: "unat (wmul128 a b) = unat a * unat b"
proof -
  have "unat a \<le> 2 ^ 64 - 1" "unat b \<le> 2 ^ 64 - 1"
    using unat_u64_less [of a] unat_u64_less [of b] by linarith+
  then have "unat a * unat b \<le> (2 ^ 64 - 1) * (2 ^ 64 - 1)" by (rule mult_le_mono)
  also have "\<dots> < (2::nat) ^ 128" by simp
  finally show ?thesis by (simp add: wmul128_def unat_word_ariths)
qed

lemma unat_and_mask51: "unat (x AND MASK51) = unat x mod 2 ^ 51"
proof -
  have "MASK51 = mask 51" by (simp add: mask_eq_exp_minus_1)
  then have "x AND MASK51 = take_bit 51 x" by (simp add: take_bit_eq_mask)
  then show ?thesis by (simp only: unsigned_take_bit_eq) (simp only: take_bit_eq_mod)
qed

lemma carry_step51:
  assumes "unat (d :: u128) < 2 ^ 115"
  shows "unat (ucast (drop_bit 51 d) :: u64) = unat d div 2 ^ 51"
    and "unat (ucast d AND MASK51) = unat d mod 2 ^ 51"
proof -
  have "unat d div 2 ^ 51 < 2 ^ 64" using assms by (simp add: less_mult_imp_div_less)
  then show "unat (ucast (drop_bit 51 d) :: u64) = unat d div 2 ^ 51"
    by (simp add: unat_ucast_u128_u64 unat_drop_bit)
  show "unat (ucast d AND MASK51) = unat d mod 2 ^ 51"
    by (simp add: unat_and_mask51 unat_ucast_u128_u64 mod_mod_cancel)
qed

lemma fe51_reduce_value:
  assumes d: "unat t0 < 2 ^ 113" "unat t1 < 2 ^ 113" "unat t2 < 2 ^ 113" "unat t3 < 2 ^ 113"
    and d4: "unat t4 \<le> 5 * 2 ^ 106"
  obtains h0 h1 h2 h3 h4 c where "fe51_reduce [t0, t1, t2, t3, t4] = [h0, h1, h2, h3, h4]"
    and "val51 [h0, h1, h2, h3, h4] + c * P25519
       = unat t0 + 2 ^ 51 * (unat t1 + 2 ^ 51 * (unat t2 + 2 ^ 51 * (unat t3 + 2 ^ 51 * unat t4)))"
    and "fe_tight [h0, h1, h2, h3, h4]" and "19 * c \<le> val51 [h0, h1, h2, h3, h4]"
proof -
  define e1 where "e1 = t1 + ucast (ucast (drop_bit 51 t0) :: u64)"
  define e2 where "e2 = t2 + ucast (ucast (drop_bit 51 e1) :: u64)"
  define e3 where "e3 = t3 + ucast (ucast (drop_bit 51 e2) :: u64)"
  define e4 where "e4 = t4 + ucast (ucast (drop_bit 51 e3) :: u64)"
  have b64: "n < 2 ^ 114 \<Longrightarrow> n div 2 ^ 51 < 2 ^ 63" for n :: nat by (simp add: less_mult_imp_div_less)
  have w: "n < 2 ^ 113 \<Longrightarrow> n < 2 ^ 114" "n < 2 ^ 114 \<Longrightarrow> n < 2 ^ 115" for n :: nat by simp_all
  have step: "unat (y + ucast (ucast (drop_bit 51 x) :: u64)) = unat y + unat x div 2 ^ 51 \<and>
      unat (y + ucast (ucast (drop_bit 51 x) :: u64)) < 2 ^ 114"
    if "unat x < 2 ^ 114" "unat y < 2 ^ 113" for x y :: u128
  proof -
    have "unat y + unat x div 2 ^ 51 < 2 ^ 114" using that(2) b64 [OF that(1)] by simp
    then show ?thesis using carry_step51(1) [OF w(2) [OF that(1)]]
      by (subst (1 2) unat_add_u128) (simp_all only: unat_ucast_u64_u128, simp_all)
  qed
  have d4': "unat t4 < 2 ^ 113" using d4 by simp
  note E1 = step [OF w(1) [OF d(1)] d(2), folded e1_def]
  note E2 = step [OF E1 [THEN conjunct2] d(3), folded e2_def]
  note E3 = step [OF E2 [THEN conjunct2] d(4), folded e3_def]
  note E4 = step [OF E3 [THEN conjunct2] d4', folded e4_def]
  note e114 = w(2) [OF w(1) [OF d(1)]] w(2) [OF E1 [THEN conjunct2]] w(2) [OF E2 [THEN conjunct2]]
    w(2) [OF E3 [THEN conjunct2]] w(2) [OF E4 [THEN conjunct2]]
  define c where "c = unat e4 div 2 ^ 51"
  have "unat e4 \<le> 5 * 2 ^ 106 + 2 ^ 63"
    using E4 d4 b64 [OF E3 [THEN conjunct2]] by linarith
  from div_le_mono [OF this, of "2 ^ 51"] have c5: "c \<le> 5 * 2 ^ 55 + 2 ^ 12" by (simp add: c_def)
  define k0 where "k0 = (ucast t0 AND MASK51) + ucast (drop_bit 51 e4) * 19"
  have m19: "unat ((ucast (drop_bit 51 e4) :: u64) * 19) = c * 19"
    using c5 by (subst unat_mult19) (simp_all only: carry_step51(1) [OF e114(5)] c_def, simp)
  have r51: "unat t0 mod 2 ^ 51 < 2 ^ 51" by simp
  have lt64: "unat t0 mod 2 ^ 51 + c * 19 \<le> 2 ^ 51 + 19 * (5 * 2 ^ 55 + 2 ^ 12)" 
    using add_mono [OF less_imp_le [OF r51] mult_le_mono1 [OF c5, of 19]] by (simp only: mult.commute)
  then have "unat t0 mod 2 ^ 51 + c * 19 < 2 ^ 64" by (rule le_less_trans) simp
  then have K0: "unat k0 = unat t0 mod 2 ^ 51 + c * 19"
    unfolding k0_def using unat_add_u64 [of "ucast t0 AND MASK51" "ucast (drop_bit 51 e4) * 19"]
    by (simp only: carry_step51(2) [OF e114(1)] m19)
  have q: "unat k0 div 2 ^ 51 < 2 ^ 11"
    using div_le_mono [OF lt64, of "2 ^ 51"] unfolding K0 by simp
  have r1: "unat e1 mod 2 ^ 51 < 2 ^ 51" by simp
  define h1 where "h1 = (ucast e1 AND MASK51) + drop_bit 51 k0"
  have "unat e1 mod 2 ^ 51 + unat k0 div 2 ^ 51 < 2 ^ 51 + 2 ^ 11" using q r1 by linarith
  moreover from this have "unat e1 mod 2 ^ 51 + unat k0 div 2 ^ 51 < 2 ^ 64" by (rule less_trans) simp
  ultimately have H1: "unat h1 = unat e1 mod 2 ^ 51 + unat k0 div 2 ^ 51" "unat h1 < 2 ^ 51 + 2 ^ 11"
    unfolding h1_def using unat_add_u64 [of "ucast e1 AND MASK51" "drop_bit 51 k0"]
    by (simp_all only: carry_step51(2) [OF e114(2)] unat_drop_bit)
  have dm: "n = n mod 2 ^ 51 + 2 ^ 51 * (n div 2 ^ 51)" for n :: nat by simp
  have P: "P25519 + 19 = (2 ^ 51) ^ 5" by simp
  have v: "val51 [k0 AND MASK51, h1, ucast e2 AND MASK51, ucast e3 AND MASK51, ucast e4 AND MASK51] + c * P25519
       = unat t0 + 2 ^ 51 * (unat t1 + 2 ^ 51 * (unat t2 + 2 ^ 51 * (unat t3 + 2 ^ 51 * unat t4)))"
    using carry_chain_nat [OF dm E1 [THEN conjunct1] dm E2 [THEN conjunct1] dm E3 [THEN conjunct1] dm
        E4 [THEN conjunct1] dm [of "unat e4", folded c_def] K0 dm P]
    by (simp only: val51.simps H1 unat_and_mask51 [of k0] carry_step51(2) [OF e114(3)] carry_step51(2) [OF e114(4)]
        carry_step51(2) [OF e114(5)] mult_0_right add_0_right)
  show ?thesis
  proof (rule that [OF _ v])
    show "fe51_reduce [t0, t1, t2, t3, t4] =
        [k0 AND MASK51, h1, ucast e2 AND MASK51, ucast e3 AND MASK51, ucast e4 AND MASK51]"
      by (simp only: fe51_reduce.simps Let_def e1_def e2_def e3_def e4_def k0_def h1_def)
    have m: "n mod 2 ^ 51 < 2 ^ 51" for n :: nat by simp
    show "fe_tight [k0 AND MASK51, h1, ucast e2 AND MASK51, ucast e3 AND MASK51, ucast e4 AND MASK51]"
      unfolding fe_tight_iff unat_and_mask51 using H1(2) m by blast
    have "19 * c \<le> unat k0" using K0 by simp
    also have "\<dots> = unat k0 mod 2 ^ 51 + 2 ^ 51 * (unat k0 div 2 ^ 51)" by (rule dm)
    also have "\<dots> \<le> unat k0 mod 2 ^ 51 + 2 ^ 51 * (unat h1 + 2 ^ 51 * X)" for X
      unfolding H1 by (intro add_left_mono mult_le_mono2) simp
    finally show "19 * c \<le> val51 [k0 AND MASK51, h1, ucast e2 AND MASK51, ucast e3 AND MASK51, ucast e4 AND MASK51]"
      unfolding val51.simps unat_and_mask51 by blast
  qed
qed


lemma sum5_u128:
  assumes "unat a + unat b + unat c + unat d + unat (e :: u128) < 2 ^ 128"
  shows "unat (a + b + c + d + e) = unat a + unat b + unat c + unat d + unat e"
  using assms by (simp add: unat_word_ariths)

lemma fe51_mul_raw:
  assumes a: "fe_loose a" and b: "fe_loose b"
  obtains k where "val51 a * val51 b = val51 (fe51_mul a b) + k * P25519" and "fe_tight (fe51_mul a b)"
    and "0 < val51 a \<Longrightarrow> 0 < val51 b \<Longrightarrow> 0 < val51 (fe51_mul a b)"
proof -
  obtain a0 a1 a2 a3 a4 where A: "a = [a0, a1, a2, a3, a4]"
    and h: "unat a0 \<le> 2 ^ 53" "unat a1 \<le> 2 ^ 53" "unat a2 \<le> 2 ^ 53" "unat a3 \<le> 2 ^ 53" "unat a4 \<le> 2 ^ 53"
    by (rule fe_looseE [OF a])
  obtain b0 b1 b2 b3 b4 where B: "b = [b0, b1, b2, b3, b4]"
    and r: "unat b0 \<le> 2 ^ 53" "unat b1 \<le> 2 ^ 53" "unat b2 \<le> 2 ^ 53" "unat b3 \<le> 2 ^ 53" "unat b4 \<le> 2 ^ 53"
    by (rule fe_looseE [OF b])
  have r19: "unat (x * 19 :: u64) = unat x * 19" "unat (x * 19) \<le> 19 * 2 ^ 53" if "unat x \<le> 2 ^ 53" for x
    using that by (subst unat_mult19; simp)+
  have p1: "unat (wmul128 x y) \<le> 2 ^ 106" if "unat x \<le> 2 ^ 53" "unat y \<le> 2 ^ 53" for x y
    unfolding unat_wmul128 using mult_le_mono [OF that] by simp
  have p19: "unat (wmul128 x (y * 19)) \<le> 19 * 2 ^ 106" if "unat x \<le> 2 ^ 53" "unat y \<le> 2 ^ 53" for x y
    unfolding unat_wmul128 using mult_le_mono [OF that(1) r19(2) [OF that(2)]] by simp
  let ?X = "2 ^ 106 :: nat" and ?Y = "19 * 2 ^ 106 :: nat"
  have sum: "unat (u + v + x + y + z) = unat u + unat v + unat x + unat y + unat (z :: u128) \<and>
      unat (u + v + x + y + z) \<le> A1 + A2 + A3 + A4 + A5"
    if "unat u \<le> A1" "unat v \<le> A2" "unat x \<le> A3" "unat y \<le> A4" "unat z \<le> A5"
      "A1 + A2 + A3 + A4 + A5 < 2 ^ 128" for u v x y z A1 A2 A3 A4 A5
    using that by (subst (1 2) sum5_u128) linarith+
  define t0 where "t0 = wmul128 a0 b0 + wmul128 a4 (b1 * 19) + wmul128 a3 (b2 * 19) + wmul128 a2 (b3 * 19) + wmul128 a1 (b4 * 19)"
  define t1 where "t1 = wmul128 a1 b0 + wmul128 a0 b1 + wmul128 a4 (b2 * 19) + wmul128 a3 (b3 * 19) + wmul128 a2 (b4 * 19)"
  define t2 where "t2 = wmul128 a2 b0 + wmul128 a1 b1 + wmul128 a0 b2 + wmul128 a4 (b3 * 19) + wmul128 a3 (b4 * 19)"
  define t3 where "t3 = wmul128 a3 b0 + wmul128 a2 b1 + wmul128 a1 b2 + wmul128 a0 b3 + wmul128 a4 (b4 * 19)"
  define t4 where "t4 = wmul128 a4 b0 + wmul128 a3 b1 + wmul128 a2 b2 + wmul128 a1 b3 + wmul128 a0 b4"
  have l: "?X + ?Y + ?Y + ?Y + ?Y < 2 ^ 128" "?X + ?X + ?Y + ?Y + ?Y < 2 ^ 128"
    "?X + ?X + ?X + ?Y + ?Y < 2 ^ 128" "?X + ?X + ?X + ?X + ?Y < 2 ^ 128" "?X + ?X + ?X + ?X + ?X < 2 ^ 128"
    by simp_all
  note s0 = sum [OF p1 [OF h(1) r(1)] p19 [OF h(5) r(2)] p19 [OF h(4) r(3)] p19 [OF h(3) r(4)] p19 [OF h(2) r(5)] l(1), folded t0_def]
  note s1 = sum [OF p1 [OF h(2) r(1)] p1 [OF h(1) r(2)] p19 [OF h(5) r(3)] p19 [OF h(4) r(4)] p19 [OF h(3) r(5)] l(2), folded t1_def]
  note s2 = sum [OF p1 [OF h(3) r(1)] p1 [OF h(2) r(2)] p1 [OF h(1) r(3)] p19 [OF h(5) r(4)] p19 [OF h(4) r(5)] l(3), folded t2_def]
  note s3 = sum [OF p1 [OF h(4) r(1)] p1 [OF h(3) r(2)] p1 [OF h(2) r(3)] p1 [OF h(1) r(4)] p19 [OF h(5) r(5)] l(4), folded t3_def]
  note s4 = sum [OF p1 [OF h(5) r(1)] p1 [OF h(4) r(2)] p1 [OF h(3) r(3)] p1 [OF h(2) r(4)] p1 [OF h(1) r(5)] l(5), folded t4_def]
  have n: "?X + ?Y + ?Y + ?Y + ?Y < 2 ^ 113" "?X + ?X + ?Y + ?Y + ?Y < 2 ^ 113"
    "?X + ?X + ?X + ?Y + ?Y < 2 ^ 113" "?X + ?X + ?X + ?X + ?Y < 2 ^ 113" "?X + ?X + ?X + ?X + ?X \<le> 5 * 2 ^ 106"
    by simp_all
  have P: "P25519 + 19 = (2 ^ 51) ^ 5" by simp
  define K where "K = (unat a1 * unat b4 + unat a2 * unat b3 + unat a3 * unat b2 + unat a4 * unat b1)
         + 2 ^ 51 * (unat a2 * unat b4 + unat a3 * unat b3 + unat a4 * unat b2)
         + (2 ^ 51) ^ 2 * (unat a3 * unat b4 + unat a4 * unat b3) + (2 ^ 51) ^ 3 * (unat a4 * unat b4)"
  have T: "unat t0 = unat a0 * unat b0 + unat a1 * (unat b4 * 19) + unat a2 * (unat b3 * 19) + unat a3 * (unat b2 * 19) + unat a4 * (unat b1 * 19)"
    "unat t1 = unat a0 * unat b1 + unat a1 * unat b0 + unat a2 * (unat b4 * 19) + unat a3 * (unat b3 * 19) + unat a4 * (unat b2 * 19)"
    "unat t2 = unat a0 * unat b2 + unat a1 * unat b1 + unat a2 * unat b0 + unat a3 * (unat b4 * 19) + unat a4 * (unat b3 * 19)"
    "unat t3 = unat a0 * unat b3 + unat a1 * unat b2 + unat a2 * unat b1 + unat a3 * unat b0 + unat a4 * (unat b4 * 19)"
    "unat t4 = unat a0 * unat b4 + unat a1 * unat b3 + unat a2 * unat b2 + unat a3 * unat b1 + unat a4 * unat b0"
    unfolding s0 [THEN conjunct1] s1 [THEN conjunct1] s2 [THEN conjunct1] s3 [THEN conjunct1] s4 [THEN conjunct1]
      unat_wmul128 r19(1) [OF r(2)] r19(1) [OF r(3)] r19(1) [OF r(4)] r19(1) [OF r(5)] by (rule refl | simp only: ac_simps)+
  have prod: "val51 a * val51 b
      = unat t0 + 2 ^ 51 * (unat t1 + 2 ^ 51 * (unat t2 + 2 ^ 51 * (unat t3 + 2 ^ 51 * unat t4))) + K * P25519"
    unfolding A B T K_def using limb_products_nat [OF P, of "unat a0" "unat a1" "unat a2" "unat a3" "unat a4"
        "unat b0" "unat b1" "unat b2" "unat b3" "unat b4"]
    by (simp only: val51.simps mult_0_right add_0_right)
  obtain h0 h1 h2 h3 h4 c where red: "fe51_reduce [t0, t1, t2, t3, t4] = [h0, h1, h2, h3, h4]"
    and v: "val51 [h0, h1, h2, h3, h4] + c * P25519
       = unat t0 + 2 ^ 51 * (unat t1 + 2 ^ 51 * (unat t2 + 2 ^ 51 * (unat t3 + 2 ^ 51 * unat t4)))"
    and tight: "fe_tight [h0, h1, h2, h3, h4]" and c19: "19 * c \<le> val51 [h0, h1, h2, h3, h4]"
    by (rule fe51_reduce_value [OF le_less_trans [OF s0 [THEN conjunct2] n(1)] le_less_trans [OF s1 [THEN conjunct2] n(2)]
        le_less_trans [OF s2 [THEN conjunct2] n(3)] le_less_trans [OF s3 [THEN conjunct2] n(4)]
        le_trans [OF s4 [THEN conjunct2] n(5)]])
  have m: "fe51_mul a b = [h0, h1, h2, h3, h4]"
    unfolding fe51_mul_def A B red [symmetric] by (simp only: fe51_products.simps Let_def t0_def t1_def t2_def t3_def t4_def)
  have pos: "0 < val51 [h0, h1, h2, h3, h4]" if "0 < val51 a" "0 < val51 b"
  proof (rule ccontr)
    assume z: "\<not> 0 < val51 [h0, h1, h2, h3, h4]"
    then have "c = 0" using c19 by simp
    then have t: "unat t0 + 2 ^ 51 * (unat t1 + 2 ^ 51 * (unat t2 + 2 ^ 51 * (unat t3 + 2 ^ 51 * unat t4))) = 0"
      using v z by simp
    then have "unat t0 = 0" "unat t1 = 0" "unat t2 = 0" "unat t3 = 0" "unat t4 = 0" by simp_all
    then have "K = 0" unfolding T K_def by simp
    then have "val51 a * val51 b = 0" unfolding prod t by simp
    then show False using that by simp
  qed
  show ?thesis
  proof (rule that [of "c + K"])
    show "val51 a * val51 b = val51 (fe51_mul a b) + (c + K) * P25519"
      unfolding prod m v [symmetric] by (simp only: distrib_right add.assoc)
  qed (use tight pos m in simp_all)
qed

lemma fe51_mul_tight: "fe_loose a \<Longrightarrow> fe_loose b \<Longrightarrow> fe_tight (fe51_mul a b)"
  by (rule fe51_mul_raw)

lemma fe51_mul_mod:
  "fe_loose a \<Longrightarrow> fe_loose b \<Longrightarrow> val51 (fe51_mul a b) mod P25519 = val51 a * val51 b mod P25519"
  by (rule fe51_mul_raw [of a b]) (simp_all only: mod_mult_self1)

lemma fe51_mul_pos:
  "fe_loose a \<Longrightarrow> fe_loose b \<Longrightarrow> 0 < val51 a \<Longrightarrow> 0 < val51 b \<Longrightarrow> 0 < val51 (fe51_mul a b)"
  by (rule fe51_mul_raw)


section \<open>Sums, differences and small multiples\<close>

lemma fe_tight_loose: "fe_tight h \<Longrightarrow> fe_loose h"
  by (erule fe_tightE) (simp add: fe_loose_iff)

lemma fe51_add_value:
  assumes "fe_tight a" and "fe_tight b"
  shows "val51 (fe51_add a b) = val51 a + val51 b" and "fe_loose (fe51_add a b)"
proof -
  obtain a0 a1 a2 a3 a4 where a: "a = [a0, a1, a2, a3, a4]" and ab: "unat a0 < 2 ^ 51"
    "unat a1 < 2 ^ 51 + 2 ^ 11" "unat a2 < 2 ^ 51" "unat a3 < 2 ^ 51" "unat a4 < 2 ^ 51"
    by (rule fe_tightE [OF assms(1)])
  obtain b0 b1 b2 b3 b4 where b: "b = [b0, b1, b2, b3, b4]" and bb: "unat b0 < 2 ^ 51"
    "unat b1 < 2 ^ 51 + 2 ^ 11" "unat b2 < 2 ^ 51" "unat b3 < 2 ^ 51" "unat b4 < 2 ^ 51"
    by (rule fe_tightE [OF assms(2)])
  have add: "unat (x + y) = unat x + unat y" if "unat x < 2 ^ 52" "unat y < 2 ^ 52" for x y :: u64
    using that by (intro unat_add_u64) simp
  have w: "unat x < 2 ^ 51 \<Longrightarrow> unat x < 2 ^ 52" "unat x < 2 ^ 51 + 2 ^ 11 \<Longrightarrow> unat x < 2 ^ 52" for x :: u64
    by simp_all
  note s = add [OF w(1) [OF ab(1)] w(1) [OF bb(1)]] add [OF w(2) [OF ab(2)] w(2) [OF bb(2)]]
    add [OF w(1) [OF ab(3)] w(1) [OF bb(3)]] add [OF w(1) [OF ab(4)] w(1) [OF bb(4)]]
    add [OF w(1) [OF ab(5)] w(1) [OF bb(5)]]
  have e: "fe51_add a b = [a0 + b0, a1 + b1, a2 + b2, a3 + b3, a4 + b4]" by (simp add: fe51_add_def a b)
  show "val51 (fe51_add a b) = val51 a + val51 b" unfolding e unfolding a b val51.simps s by simp
  show "fe_loose (fe51_add a b)" unfolding e fe_loose_iff s using ab bb by simp
qed

lemma fe51_sub_value:
  assumes "fe_tight a" and "fe_tight b"
  shows "val51 (fe51_sub a b) + val51 b = val51 a + 2 * P25519" and "fe_loose (fe51_sub a b)"
    and "0 < val51 (fe51_sub a b)"
proof -
  obtain a0 a1 a2 a3 a4 where a: "a = [a0, a1, a2, a3, a4]" and ab: "unat a0 < 2 ^ 51"
    "unat a1 < 2 ^ 51 + 2 ^ 11" "unat a2 < 2 ^ 51" "unat a3 < 2 ^ 51" "unat a4 < 2 ^ 51"
    by (rule fe_tightE [OF assms(1)])
  obtain b0 b1 b2 b3 b4 where b: "b = [b0, b1, b2, b3, b4]" and bb: "unat b0 < 2 ^ 51"
    "unat b1 < 2 ^ 51 + 2 ^ 11" "unat b2 < 2 ^ 51" "unat b3 < 2 ^ 51" "unat b4 < 2 ^ 51"
    by (rule fe_tightE [OF assms(2)])
  have sub: "unat (x + p - y) = unat x + unat p - unat y"
    if "unat x < 2 ^ 52" "unat p < 2 ^ 52" "unat y \<le> unat p" for x y p :: u64
  proof -
    have "unat (x + p) = unat x + unat p" using that by (intro unat_add_u64) simp
    then show ?thesis using that(3) by (simp add: unat_sub_if')
  qed
  have w: "unat x < 2 ^ 51 \<Longrightarrow> unat x < 2 ^ 52" "unat x < 2 ^ 51 + 2 ^ 11 \<Longrightarrow> unat x < 2 ^ 52" for x :: u64
    by simp_all
  have pv: "unat (0xFFFFFFFFFFFDA :: u64) = 0xFFFFFFFFFFFDA" "unat (0xFFFFFFFFFFFFE :: u64) = 0xFFFFFFFFFFFFE"
    by simp_all
  have s0: "unat (a0 + 0xFFFFFFFFFFFDA - b0) = unat a0 + 0xFFFFFFFFFFFDA - unat b0"
    using sub [OF w(1) [OF ab(1)], of "0xFFFFFFFFFFFDA" b0] bb(1) by (simp only: pv) simp
  have s1: "unat (a1 + 0xFFFFFFFFFFFFE - b1) = unat a1 + 0xFFFFFFFFFFFFE - unat b1"
    using sub [OF w(2) [OF ab(2)], of "0xFFFFFFFFFFFFE" b1] bb(2) by (simp only: pv) simp
  have s2: "unat (x + 0xFFFFFFFFFFFFE - y) = unat x + 0xFFFFFFFFFFFFE - unat y"
    if "unat x < 2 ^ 51" "unat y < 2 ^ 51" for x y :: u64
    using sub [OF w(1) [OF that(1)], of "0xFFFFFFFFFFFFE" y] that(2) by (simp only: pv) simp
  have e: "fe51_sub a b = [a0 + 0xFFFFFFFFFFFDA - b0, a1 + 0xFFFFFFFFFFFFE - b1, a2 + 0xFFFFFFFFFFFFE - b2,
      a3 + 0xFFFFFFFFFFFFE - b3, a4 + 0xFFFFFFFFFFFFE - b4]" by (simp add: fe51_sub_def fe51_P2_def a b)
  note s = s0 s1 s2 [OF ab(3) bb(3)] s2 [OF ab(4) bb(4)] s2 [OF ab(5) bb(5)]
  show "val51 (fe51_sub a b) + val51 b = val51 a + 2 * P25519"
    unfolding e unfolding a b val51.simps s using ab bb by simp
  show "fe_loose (fe51_sub a b)" unfolding e fe_loose_iff s
    by (intro conjI; rule le_trans [OF diff_le_self]) (use ab in simp_all)
  show "0 < val51 (fe51_sub a b)" unfolding e val51.simps s using bb by simp
qed

lemma fe51_mul_121666_raw:
  assumes "fe_loose a"
  obtains c where "val51 (fe51_mul_121666 a) + c * P25519 = 121666 * val51 a" and "fe_tight (fe51_mul_121666 a)"
    and "0 < val51 a \<Longrightarrow> 0 < val51 (fe51_mul_121666 a)"
proof -
  obtain a0 a1 a2 a3 a4 where a: "a = [a0, a1, a2, a3, a4]" and ab: "unat a0 \<le> 2 ^ 53" "unat a1 \<le> 2 ^ 53"
    "unat a2 \<le> 2 ^ 53" "unat a3 \<le> 2 ^ 53" "unat a4 \<le> 2 ^ 53"
    by (rule fe_looseE [OF assms])
  have m: "unat (ucast x * 121666 :: u128) = unat x * 121666 \<and> unat (ucast x * 121666 :: u128) < 2 ^ 113
      \<and> unat (ucast x * 121666 :: u128) \<le> 5 * 2 ^ 106"
    if "unat x \<le> 2 ^ 53" for x :: u64
    using that by (simp add: unat_word_ariths)
  note M = m [OF ab(1)] m [OF ab(2)] m [OF ab(3)] m [OF ab(4)] m [OF ab(5)]
  obtain h0 h1 h2 h3 h4 c where red: "fe51_reduce [ucast a0 * 121666, ucast a1 * 121666, ucast a2 * 121666,
       ucast a3 * 121666, ucast a4 * 121666] = [h0, h1, h2, h3, h4]"
    and v: "val51 [h0, h1, h2, h3, h4] + c * P25519
       = unat (ucast a0 * 121666 :: u128) + 2 ^ 51 * (unat (ucast a1 * 121666 :: u128)
        + 2 ^ 51 * (unat (ucast a2 * 121666 :: u128) + 2 ^ 51 * (unat (ucast a3 * 121666 :: u128)
        + 2 ^ 51 * unat (ucast a4 * 121666 :: u128))))"
    and tight: "fe_tight [h0, h1, h2, h3, h4]" and c19: "19 * c \<le> val51 [h0, h1, h2, h3, h4]"
    using M by (elim conjE) (rule fe51_reduce_value)
  have e: "fe51_mul_121666 a = [h0, h1, h2, h3, h4]" by (simp only: fe51_mul_121666_def a list.map red)
  have v': "val51 [h0, h1, h2, h3, h4] + c * P25519 = 121666 * val51 a"
    unfolding v unfolding a val51.simps M(1) [THEN conjunct1] M(2) [THEN conjunct1] M(3) [THEN conjunct1]
      M(4) [THEN conjunct1] M(5) [THEN conjunct1] by simp
  have "0 < val51 [h0, h1, h2, h3, h4]" if "0 < val51 a"
  proof (rule ccontr)
    assume z: "\<not> 0 < val51 [h0, h1, h2, h3, h4]"
    then have "c = 0" using c19 by simp
    then show False using v' z that by simp
  qed
  then show ?thesis using that v' tight e by metis
qed

section \<open>The conditional swap\<close>

lemma fe51_cswap_value:
  assumes "length a = length b"
  shows "fe51_cswap a b sw = (if sw AND 1 = 0 then (a, b) else (b, a))"
proof -
  have "sw AND 1 = 0 \<or> sw AND 1 = 1" by (metis and_one_eq mod2_eq_if)
  then show ?thesis
    using assms by (auto simp: fe51_cswap_def Let_def list_eq_iff_nth_eq ac_simps)
qed


section \<open>Inversion\<close>

text \<open>A tight element that stands for \<open>v\<close> modulo the prime, and is not the zero vector.\<close>

definition fe_is :: "fe51 \<Rightarrow> nat \<Rightarrow> bool" where
  "fe_is h v \<longleftrightarrow> fe_tight h \<and> 0 < val51 h \<and> val51 h mod P25519 = v mod P25519"

lemma fe_is_mul: "fe_is a v \<Longrightarrow> fe_is b w \<Longrightarrow> fe_is (fe51_mul a b) (v * w)"
  unfolding fe_is_def
proof (elim conjE, intro conjI)
  assume a: "fe_tight a" "0 < val51 a" "val51 a mod P25519 = v mod P25519"
    and b: "fe_tight b" "0 < val51 b" "val51 b mod P25519 = w mod P25519"
  note l = fe_tight_loose [OF a(1)] fe_tight_loose [OF b(1)]
  show "fe_tight (fe51_mul a b)" using l by (rule fe51_mul_tight)
  show "0 < val51 (fe51_mul a b)" using l a(2) b(2) by (rule fe51_mul_pos)
  show "val51 (fe51_mul a b) mod P25519 = v * w mod P25519"
    unfolding fe51_mul_mod [OF l] using a(3) b(3) by (rule mod_mult_cong)
qed

lemma fe_is_sq: "fe_is a v \<Longrightarrow> fe_is (fe51_sq a) (v ^ 2)"
  unfolding fe51_sq_def power2_eq_square by (rule fe_is_mul)

lemma fe_is_sqs: "fe_is a (v ^ e) \<Longrightarrow> fe_is ((fe51_sq ^^ n) a) (v ^ (e * 2 ^ n))"
proof (induction n)
  case (Suc n)
  then show ?case using fe_is_sq [OF Suc.IH] by (simp add: power_mult [symmetric] mult_ac)
qed simp

lemma fe_is_pow: "fe_is a (v ^ m) \<Longrightarrow> fe_is b (v ^ n) \<Longrightarrow> fe_is (fe51_mul a b) (v ^ (m + n))"
  unfolding power_add by (rule fe_is_mul)

lemma fe_is_dbl: "fe_is a (v ^ e) \<Longrightarrow> fe_is (fe51_sq a) (v ^ (2 * e))"
  using fe_is_sqs [of a v e 1] by (simp add: mult.commute)

lemma fe51_invert_is:
  assumes "fe_is z v"
  shows "fe_is (fe51_invert z) (v ^ (P25519 - 2))"
proof -
  have z: "fe_is z (v ^ 1)" using assms by simp
  note t0 = fe_is_dbl [OF z]
  note t1 = fe_is_pow [OF z fe_is_dbl [OF fe_is_dbl [OF t0]]]
  note u0 = fe_is_pow [OF t0 t1]
  note u1 = fe_is_pow [OF t1 fe_is_dbl [OF u0]]
  note a1 = fe_is_pow [OF fe_is_sqs [where n = 4, OF fe_is_dbl [OF u1]] u1]
  note a2 = fe_is_pow [OF fe_is_sqs [where n = 9, OF fe_is_dbl [OF a1]] a1]
  note a3 = fe_is_pow [OF fe_is_sqs [where n = 19, OF fe_is_dbl [OF a2]] a2]
  note a4 = fe_is_pow [OF fe_is_sqs [where n = 9, OF fe_is_dbl [OF a3]] a1]
  note a5 = fe_is_pow [OF fe_is_sqs [where n = 49, OF fe_is_dbl [OF a4]] a4]
  note a6 = fe_is_pow [OF fe_is_sqs [where n = 99, OF fe_is_dbl [OF a5]] a5]
  note a7 = fe_is_pow [OF fe_is_sqs [where n = 49, OF fe_is_dbl [OF a6]] a4]
  note a8 = fe_is_pow [OF fe_is_sqs [where n = 4, OF fe_is_dbl [OF a7]] u0]
  have e: "n = P25519 - 2 \<Longrightarrow> v ^ n = v ^ (P25519 - 2)" for n by simp
  show ?thesis
    unfolding fe51_invert_def Let_def
    by (rule subst [where P = "fe_is _", OF e a8]) simp
qed


section \<open>Bytes\<close>

lemma fe51_carry_value:
  assumes "fe_tight h"
  obtains k0 k1 k2 k3 k4 c where "fe51_carry h = [k0, k1, k2, k3, k4]"
    and "val51 [k0, k1, k2, k3, k4] + c * P25519 = val51 h"
    and "unat k0 < 2 ^ 51" "unat k1 < 2 ^ 51" "unat k2 < 2 ^ 51" "unat k3 < 2 ^ 51" "unat k4 < 2 ^ 51"
    and "0 < val51 h \<longrightarrow> 0 < val51 [k0, k1, k2, k3, k4]"
proof -
  obtain h0 h1 h2 h3 h4 where hh: "h = [h0, h1, h2, h3, h4]" and h: "unat h0 < 2 ^ 51"
    "unat h1 < 2 ^ 51 + 2 ^ 11" "unat h2 < 2 ^ 51" "unat h3 < 2 ^ 51" "unat h4 < 2 ^ 51"
    by (rule fe_tightE [OF assms])
  define e1 where "e1 = h1 + drop_bit 51 h0"
  define e2 where "e2 = h2 + drop_bit 51 e1"
  define e3 where "e3 = h3 + drop_bit 51 e2"
  define e4 where "e4 = h4 + drop_bit 51 e3"
  define k0 where "k0 = (h0 AND MASK51) + drop_bit 51 e4 * 19"
  have "unat (drop_bit 51 h0) = 0" using h(1) by (simp add: unat_drop_bit)
  then have E1: "unat e1 = unat h1" unfolding e1_def using unat_u64_less [of h1] by (subst unat_add_u64) simp_all
  have add: "unat (x + drop_bit 51 y) = unat x + unat y div 2 ^ 51 \<and> unat (x + drop_bit 51 y) \<le> 2 ^ 51"
    if "unat x < 2 ^ 51" "unat y < 2 ^ 52" for x y :: u64
  proof -
    have "unat y div 2 ^ 51 \<le> 1" using that(2) by simp
    then show ?thesis using that(1) by (subst (1 2) unat_add_u64) (simp_all add: unat_drop_bit del: One_nat_def)
  qed
  have w: "n < 2 ^ 51 + 2 ^ 11 \<Longrightarrow> n < 2 ^ 52" "n \<le> 2 ^ 51 \<Longrightarrow> n < 2 ^ 52" for n :: nat by simp_all
  have e1lt: "unat e1 < 2 ^ 52" unfolding E1 using h(2) by (rule w(1))
  note E2 = add [OF h(3) e1lt, folded e2_def]
  note E3 = add [OF h(4) w(2) [OF E2 [THEN conjunct2]], folded e3_def]
  note E4 = add [OF h(5) w(2) [OF E3 [THEN conjunct2]], folded e4_def]
  define c where "c = unat e4 div 2 ^ 51"
  have c1: "c \<le> 1" unfolding c_def by (rule order_trans [OF div_le_mono [OF E4 [THEN conjunct2]]]) simp
  have m: "unat (drop_bit 51 e4 * 19) = c * 19"
    using c1 by (subst unat_mult19) (simp_all only: unat_drop_bit c_def, simp)
  have h0m: "unat (h0 AND MASK51) = unat h0" unfolding unat_and_mask51 using h(1) by (rule mod_less)
  have K0: "unat k0 = unat h0 + c * 19"
    unfolding k0_def using c1 h(1) by (subst unat_add_u64) (simp_all only: m h0m, simp)
  have t1: "unat k0 div 2 ^ 51 \<le> 1" using K0 c1 h(1) by simp
  have one: "unat e1 mod 2 ^ 51 + unat k0 div 2 ^ 51 < 2 ^ 51"
  proof (cases "unat h1 < 2 ^ 51")
    case True
    then have "unat e2 = unat h2" using E2 E1 by simp
    then have "unat e3 = unat h3" using E3 h(3) by simp
    then have "unat e4 = unat h4" using E4 h(4) by simp
    then have "c = 0" using h(5) by (simp add: c_def)
    then have "unat k0 div 2 ^ 51 = 0" using K0 h(1) by simp
    then show ?thesis by simp
  next
    case False
    then have "unat e1 mod 2 ^ 51 = unat h1 - 2 ^ 51" unfolding E1 using h(2) by (simp add: mod_if)
    then have "unat e1 mod 2 ^ 51 < 2048" using h(2) False by simp
    moreover have "x < 2048 \<Longrightarrow> y \<le> 1 \<Longrightarrow> x + y < 2 ^ 51" for x y :: nat by simp
    ultimately show ?thesis using t1 by blast
  qed
  define k1 where "k1 = (e1 AND MASK51) + drop_bit 51 k0"
  have K1: "unat k1 = unat e1 mod 2 ^ 51 + unat k0 div 2 ^ 51"
    unfolding k1_def using one by (subst unat_add_u64) (simp_all only: unat_and_mask51 unat_drop_bit, simp)
  have dm: "n = n mod 2 ^ 51 + 2 ^ 51 * (n div 2 ^ 51)" for n :: nat by simp
  have P: "P25519 + 19 = (2 ^ 51) ^ 5" by simp
  have z: "n = n + 2 ^ 51 * 0" for n :: nat by simp
  have E1': "unat e1 = unat h1 + 0" using E1 by simp
  have v: "val51 [k0 AND MASK51, k1, e2 AND MASK51, e3 AND MASK51, e4 AND MASK51] + c * P25519
      = val51 [h0, h1, h2, h3, h4]"
    using carry_chain_nat [OF z E1' dm E2 [THEN conjunct1] dm E3 [THEN conjunct1] dm
        E4 [THEN conjunct1] dm [of "unat e4", folded c_def] K0 dm P]
    by (simp only: val51.simps K1 unat_and_mask51 mult_0_right add_0_right)
  have b: "unat (x AND MASK51) < 2 ^ 51" for x by (simp only: unat_and_mask51) simp
  show ?thesis
  proof (rule that [OF _ _ b _ b b b])
    show "fe51_carry h = [k0 AND MASK51, k1, e2 AND MASK51, e3 AND MASK51, e4 AND MASK51]"
      by (simp only: hh fe51_carry.simps Let_def e1_def e2_def e3_def e4_def k0_def k1_def)
    show "unat k1 < 2 ^ 51" using K1 one by simp
    show "val51 [k0 AND MASK51, k1, e2 AND MASK51, e3 AND MASK51, e4 AND MASK51] + c * P25519 = val51 h"
      unfolding hh by (rule v)
    show "0 < val51 h \<longrightarrow> 0 < val51 [k0 AND MASK51, k1, e2 AND MASK51, e3 AND MASK51, e4 AND MASK51]"
    proof (cases "c = 0")
      case True
      then show ?thesis using v unfolding hh by (simp only: mult_0 add_0_right simp_thms)
    next
      case False
      then have "0 < unat k0" using K0 by simp
      then have "0 < unat k0 mod 2 ^ 51 \<or> 0 < unat k0 div 2 ^ 51"
        by (metis dm add_0 gr0I mult_0_right)
      then show ?thesis unfolding val51.simps unat_and_mask51 K1 by auto
    qed
  qed
qed


lemma push_drop_join:
  assumes "unat (a :: u64) div 2 ^ s < 2 ^ t"
  shows "unat (drop_bit s a OR push_bit t b) = (unat a div 2 ^ s + 2 ^ t * unat b) mod 2 ^ 64"
proof -
  have "drop_bit t (drop_bit s a) = 0"
  proof (rule unat_eqI)
    show "unat (drop_bit t (drop_bit s a)) = unat (0 :: u64)"
      using assms by (simp only: unat_drop_bit unsigned_0 div_less)
  qed
  note z = this
  have nb: "\<not> bit (drop_bit s a) n" if "t \<le> n" for n
  proof -
    have "bit (drop_bit t (drop_bit s a)) (n - t) \<longleftrightarrow> bit (drop_bit s a) n"
      using that by (simp only: bit_drop_bit_eq [of t] comp_apply le_add_diff_inverse)
    then show ?thesis unfolding z by simp
  qed
  have "\<not> bit (drop_bit s a) n \<or> \<not> bit (push_bit t b) n" for n
    using nb [of n] by (auto simp: bit_push_bit_iff)
  then have "drop_bit s a OR push_bit t b = drop_bit s a + push_bit t b"
    by (rule disjunctive_add [symmetric])
  moreover have "unat (push_bit t b) = 2 ^ t * unat b mod 2 ^ 64"
    by (simp only: unsigned_push_bit_eq) (simp only: take_bit_eq_mod push_bit_eq_mult mult.commute, simp)
  ultimately show ?thesis
    by (simp only: unat_word_ariths(1) unat_drop_bit) (simp add: mod_simps)
qed

lemma add_mult_mod: "x < 2 ^ t \<Longrightarrow> t + u = n \<Longrightarrow> (x + 2 ^ t * y) mod 2 ^ n = x + 2 ^ t * (y mod 2 ^ u)" for x y :: nat
proof -
  assume "x < 2 ^ t" and n: "t + u = n"
  then show ?thesis unfolding n [symmetric] by (simp add: power_add mod_mult2_eq)
qed


lemma le_nat_store32: "le_nat (store32_le x) = unat x"
  using unat_of_le32 [of "store32_le x ! 0" "store32_le x ! 1" "store32_le x ! 2" "store32_le x ! 3"]
  by (simp add: store32_le_def)


lemma le_nat_store64: "le_nat (store32_le (ucast w) @ store32_le (ucast (drop_bit 32 w))) = unat (w :: u64)"
proof -
  have "unat w div 2 ^ 32 < 2 ^ 32" using unat_u64_less [of w] by (simp add: less_mult_imp_div_less)
  then have "unat (ucast (drop_bit 32 w) :: u32) = unat w div 2 ^ 32"
    by (simp only: unat_ucast_u64_u32 unat_drop_bit mod_less)
  then show ?thesis by (simp add: le_nat_append le_nat_store32 unat_ucast_u64_u32)
qed

text \<open>Words of 64 bits out of limbs of 51 bits: the words are the number again.\<close>

lemma repack_51_64:
  fixes f0 f1 f2 f3 f4 :: nat
  shows "(f0 + 2 ^ 51 * (f1 mod 2 ^ 13)) + 2 ^ 64 * ((f1 div 2 ^ 13 + 2 ^ 38 * (f2 mod 2 ^ 26))
    + 2 ^ 64 * ((f2 div 2 ^ 26 + 2 ^ 25 * (f3 mod 2 ^ 39)) + 2 ^ 64 * (f3 div 2 ^ 39 + 2 ^ 12 * f4)))
    = f0 + 2 ^ 51 * (f1 + 2 ^ 51 * (f2 + 2 ^ 51 * (f3 + 2 ^ 51 * f4)))"
proof -
  have s: "n = n mod 2 ^ k + 2 ^ k * (n div 2 ^ k)" for n k :: nat by simp
  define a1 b1 a2 b2 a3 b3 where "a1 = f1 mod 2 ^ 13" and "b1 = f1 div 2 ^ 13" and "a2 = f2 mod 2 ^ 26"
    and "b2 = f2 div 2 ^ 26" and "a3 = f3 mod 2 ^ 39" and "b3 = f3 div 2 ^ 39"
  have "f1 = a1 + 2 ^ 13 * b1" "f2 = a2 + 2 ^ 26 * b2" "f3 = a3 + 2 ^ 39 * b3"
    unfolding a1_def b1_def a2_def b2_def a3_def b3_def by (rule s)+
  then show ?thesis unfolding a1_def [symmetric] b1_def [symmetric] a2_def [symmetric] b2_def [symmetric]
      a3_def [symmetric] b3_def [symmetric] by (simp add: algebra_simps)
qed

lemma fe51_store_value:
  assumes "fe_tight h"
  obtains c where "le_nat (fe51_store h) + c * P25519 = val51 h" and "length (fe51_store h) = 32"
    and "0 < val51 h \<longrightarrow> 0 < le_nat (fe51_store h)"
proof -
  obtain k0 k1 k2 k3 k4 c where k: "fe51_carry h = [k0, k1, k2, k3, k4]"
    and v: "val51 [k0, k1, k2, k3, k4] + c * P25519 = val51 h"
    and kb: "unat k0 < 2 ^ 51" "unat k1 < 2 ^ 51" "unat k2 < 2 ^ 51" "unat k3 < 2 ^ 51" "unat k4 < 2 ^ 51"
    and pos: "0 < val51 h \<longrightarrow> 0 < val51 [k0, k1, k2, k3, k4]"
    by (rule fe51_carry_value [OF assms])
  have dl: "n div 2 ^ s < 2 ^ t" if "n < 2 ^ 51" "s + t = 51" for n s t :: nat
    using that by (metis less_mult_imp_div_less mult.commute power_add)
  have w: "unat (drop_bit s a OR push_bit t b) = unat a div 2 ^ s + 2 ^ t * (unat b mod 2 ^ u)"
    if "unat a < 2 ^ 51" "s + t = 51" "t + u = 64" for a b :: u64 and s t u
    unfolding push_drop_join [OF dl [OF that(1,2)]] using dl [OF that(1,2)] that(3) by (rule add_mult_mod)
  have w0: "unat (k0 OR push_bit 51 k1) = unat k0 + 2 ^ 51 * (unat k1 mod 2 ^ 13)"
    using w [OF kb(1), of 0 51 13 k1] by simp
  have w1: "unat (drop_bit 13 k1 OR push_bit 38 k2) = unat k1 div 2 ^ 13 + 2 ^ 38 * (unat k2 mod 2 ^ 26)"
    by (rule w [OF kb(2)]) simp_all
  have w2: "unat (drop_bit 26 k2 OR push_bit 25 k3) = unat k2 div 2 ^ 26 + 2 ^ 25 * (unat k3 mod 2 ^ 39)"
    by (rule w [OF kb(3)]) simp_all
  have "unat k4 mod 2 ^ 52 = unat k4" using kb(5) by (intro mod_less) simp
  then have w3: "unat (drop_bit 39 k3 OR push_bit 12 k4) = unat k3 div 2 ^ 39 + 2 ^ 12 * unat k4"
    using w [OF kb(4), of 39 12 52 k4] by simp
  have l8: "length (store32_le a @ store32_le b) = 8" for a b by simp
  have "le_nat (fe51_store h) = unat (k0 OR push_bit 51 k1) + 2 ^ 64 * (unat (drop_bit 13 k1 OR push_bit 38 k2)
      + 2 ^ 64 * (unat (drop_bit 26 k2 OR push_bit 25 k3) + 2 ^ 64 * unat (drop_bit 39 k3 OR push_bit 12 k4)))"
    unfolding fe51_store_def k fe51_pack.simps list.map concat.simps append_Nil2 
    by (simp only: le_nat_append [of "store32_le _ @ store32_le _"] le_nat_store64 l8) simp
  also have "\<dots> = val51 [k0, k1, k2, k3, k4]"
    unfolding w0 w1 w2 w3 val51.simps mult_0_right add_0_right by (rule repack_51_64)
  finally have st: "le_nat (fe51_store h) = val51 [k0, k1, k2, k3, k4]" .
  show ?thesis
  proof (rule that [of c])
    show "length (fe51_store h) = 32" by (simp add: fe51_store_def k)
  qed (use v pos st in simp_all)
qed

lemma repack_64_51:
  fixes w0 w1 w2 w3 :: nat
  shows "(w0 mod 2 ^ 51) + 2 ^ 51 * ((w0 div 2 ^ 51 + 2 ^ 13 * (w1 mod 2 ^ 38)) + 2 ^ 51 * ((w1 div 2 ^ 38
    + 2 ^ 26 * (w2 mod 2 ^ 25)) + 2 ^ 51 * ((w2 div 2 ^ 25 + 2 ^ 39 * (w3 mod 2 ^ 12)) + 2 ^ 51 * (w3 div 2 ^ 12))))
    = w0 + 2 ^ 64 * (w1 + 2 ^ 64 * (w2 + 2 ^ 64 * w3))"
proof -
  have s: "n = n mod 2 ^ k + 2 ^ k * (n div 2 ^ k)" for n k :: nat by simp
  define a0 b0 a1 b1 a2 b2 a3 b3 where "a0 = w0 mod 2 ^ 51" and "b0 = w0 div 2 ^ 51"
    and "a1 = w1 mod 2 ^ 38" and "b1 = w1 div 2 ^ 38" and "a2 = w2 mod 2 ^ 25"
    and "b2 = w2 div 2 ^ 25" and "a3 = w3 mod 2 ^ 12" and "b3 = w3 div 2 ^ 12"
  have "w0 = a0 + 2 ^ 51 * b0" "w1 = a1 + 2 ^ 38 * b1" "w2 = a2 + 2 ^ 25 * b2" "w3 = a3 + 2 ^ 12 * b3"
    unfolding a0_def b0_def a1_def b1_def a2_def b2_def a3_def b3_def by (rule s)+
  then show ?thesis unfolding a0_def [symmetric] b0_def [symmetric] a1_def [symmetric] b1_def [symmetric]
      a2_def [symmetric] b2_def [symmetric] a3_def [symmetric] b3_def [symmetric] by (simp add: algebra_simps)
qed

lemma unat_load64:
  assumes "i + 8 \<le> length s"
  shows "unat ((ucast (load32_le s i) :: u64) OR push_bit 32 (ucast (load32_le s (i + 4)))) = le_nat (take 8 (drop i s))"
proof -
  have a: "unat (ucast (load32_le s i) :: u64) div 2 ^ 0 < 2 ^ 32" using unat_u32_less [of "load32_le s i"] by simp
  have "unat ((ucast (load32_le s i) :: u64) OR push_bit 32 (ucast (load32_le s (i + 4))))
      = unat (load32_le s i) + 2 ^ 32 * (unat (load32_le s (i + 4)) mod 2 ^ 32)"
    using push_drop_join [OF a, of "ucast (load32_le s (i + 4))"] add_mult_mod [OF a, of 32 64 "unat (load32_le s (i + 4))"]
    by simp
  also have "\<dots> = unat (load32_le s i) + 2 ^ 32 * unat (load32_le s (i + 4))"
    using unat_u32_less [of "load32_le s (i + 4)"] by simp
  also have "\<dots> = le_nat (take 8 (drop i s))"
  proof -
    have "take 8 (drop i s) = map ((!) s) [i, i+1, i+2, i+3, i+4, i+5, i+6, i+7]"
      using assms by (auto simp: list_eq_iff_nth_eq nth_Cons' less_Suc_eq numeral_eq_Suc)
    then show ?thesis by (simp add: load32_le_of_le32 unat_of_le32 ac_simps)
  qed
  finally show ?thesis .
qed


lemma le_nat_less: "le_nat s < 2 ^ (8 * length s)"
proof (induction s)
  case (Cons b s)
  have "unat b + 256 * le_nat s < 256 * 2 ^ (8 * length s)"
    by (rule digits_less [OF unat_u8_less Cons.IH])
  then show ?case by (simp add: power_add)
qed simp

lemma fe51_load_value:
  assumes "length s = 32"
  shows "val51 (fe51_load s) = le_nat s mod 2 ^ 255" and "fe_tight (fe51_load s)"
proof -
  define w0 w1 w2 w3 :: u64 where
    "w0 = ucast (load32_le s 0) OR push_bit 32 (ucast (load32_le s 4))" and
    "w1 = ucast (load32_le s 8) OR push_bit 32 (ucast (load32_le s 12))" and
    "w2 = ucast (load32_le s 16) OR push_bit 32 (ucast (load32_le s 20))" and
    "w3 = ucast (load32_le s 24) OR push_bit 32 (ucast (load32_le s 28))"
  have W: "unat w0 = le_nat (take 8 s)" "unat w1 = le_nat (take 8 (drop 8 s))"
    "unat w2 = le_nat (take 8 (drop 16 s))" "unat w3 = le_nat (drop 24 s)"
    unfolding w0_def w1_def w2_def w3_def
    using unat_load64 [of 0 s] unat_load64 [of 8 s] unat_load64 [of 16 s] unat_load64 [of 24 s] assms by simp_all
  have dec: "s = take 8 s @ take 8 (drop 8 s) @ take 8 (drop 16 s) @ drop 24 s"
    by (simp add: append_take_drop_id [of 8 "drop 16 s", simplified] flip: append_assoc take_add)
  have sv: "le_nat s = unat w0 + 2 ^ 64 * (unat w1 + 2 ^ 64 * (unat w2 + 2 ^ 64 * unat w3))"
    unfolding W using assms by (subst dec) (simp only: le_nat_append, simp)
  have load: "fe51_load s = [w0 AND MASK51, (drop_bit 51 w0 OR push_bit 13 w1) AND MASK51,
      (drop_bit 38 w1 OR push_bit 26 w2) AND MASK51, (drop_bit 25 w2 OR push_bit 39 w3) AND MASK51,
      drop_bit 12 w3 AND MASK51]"
    by (simp only: fe51_load_def Let_def w0_def w1_def w2_def w3_def) simp
  have j: "unat ((drop_bit a x OR push_bit t y) AND MASK51) = unat x div 2 ^ a + 2 ^ t * (unat y mod 2 ^ u)"
    if "a + t = 64" "t + u = 51" for a t u and x y :: u64
  proof -
    have d: "unat x div 2 ^ a < 2 ^ t"
      using unat_u64_less [of x] that(1) by (metis less_mult_imp_div_less mult.commute power_add)
    have "(m mod 2 ^ 64) mod 2 ^ 51 = (m :: nat) mod 2 ^ 51" for m by (simp add: mod_mod_cancel)
    then show ?thesis
      unfolding unat_and_mask51 push_drop_join [OF d] using add_mult_mod [OF d that(2)] by (simp only:)
  qed
  have j1: "unat ((drop_bit 51 w0 OR push_bit 13 w1) AND MASK51) = unat w0 div 2 ^ 51 + 2 ^ 13 * (unat w1 mod 2 ^ 38)"
    by (rule j) simp_all
  have j2: "unat ((drop_bit 38 w1 OR push_bit 26 w2) AND MASK51) = unat w1 div 2 ^ 38 + 2 ^ 26 * (unat w2 mod 2 ^ 25)"
    by (rule j) simp_all
  have j3: "unat ((drop_bit 25 w2 OR push_bit 39 w3) AND MASK51) = unat w2 div 2 ^ 25 + 2 ^ 39 * (unat w3 mod 2 ^ 12)"
    by (rule j) simp_all
  have j4: "unat (drop_bit 12 w3 AND MASK51) = unat w3 div 2 ^ 12 mod 2 ^ 51"
    by (simp only: unat_and_mask51 unat_drop_bit)
  define v3 where "v3 = unat w3 mod 2 ^ 63"
  have v3: "v3 mod 2 ^ 12 = unat w3 mod 2 ^ 12" "v3 div 2 ^ 12 = unat w3 div 2 ^ 12 mod 2 ^ 51"
    using div_exp_mod_exp_eq [of "unat w3" 12 51]
    by (simp_all add: v3_def mod_mod_cancel del: div_exp_mod_exp_eq)
  have "val51 (fe51_load s) = unat w0 + 2 ^ 64 * (unat w1 + 2 ^ 64 * (unat w2 + 2 ^ 64 * v3))"
    unfolding load val51.simps j1 j2 j3 j4 unat_and_mask51 [of w0] mult_0_right add_0_right v3 [symmetric]
    by (rule repack_64_51)
  also have "\<dots> = le_nat s mod 2 ^ 255"
  proof -
    have w: "unat w0 < 2 ^ 64" "unat w1 < 2 ^ 64" "unat w2 < 2 ^ 64" by (rule unat_u64_less)+
    have "unat w2 + 2 ^ 64 * v3 = (unat w2 + 2 ^ 64 * unat w3) mod 2 ^ (64 + 63)"
      unfolding v3_def by (rule add_mult_mod [OF w(3), symmetric]) simp
    then have "unat w1 + 2 ^ 64 * (unat w2 + 2 ^ 64 * v3)
        = (unat w1 + 2 ^ 64 * (unat w2 + 2 ^ 64 * unat w3)) mod 2 ^ (64 + (64 + 63))"
      by (simp only: add_mult_mod [OF w(2) refl])
    then have "unat w0 + 2 ^ 64 * (unat w1 + 2 ^ 64 * (unat w2 + 2 ^ 64 * v3))
        = (unat w0 + 2 ^ 64 * (unat w1 + 2 ^ 64 * (unat w2 + 2 ^ 64 * unat w3))) mod 2 ^ (64 + (64 + (64 + 63)))"
      by (simp only: add_mult_mod [OF w(1) refl])
    then show ?thesis unfolding sv by simp
  qed
  finally show "val51 (fe51_load s) = le_nat s mod 2 ^ 255" .
  have "unat (x AND MASK51) < 2 ^ 51" for x by (simp only: unat_and_mask51) simp
  moreover from this have "unat (x AND MASK51) < 2 ^ 51 + 2 ^ 11" for x by (rule trans_less_add1)
  ultimately show "fe_tight (fe51_load s)" unfolding load fe_tight_iff by blast
qed


end
