(* ===== verification/X25519.thy ===== *)
theory X25519
  imports Fe25519
begin

text \<open>
  The Montgomery ladder \<^verbatim>\<open>x25519\<close> of \<^verbatim>\<open>common/src/fl_crypto.c\<close> on the limb
  arithmetic of the field theory, and the ladder over the integers that it implements.
\<close>

section \<open>The ladder of the code\<close>

record ladder =
  ld_x2 :: fe51
  ld_z2 :: fe51
  ld_x3 :: fe51
  ld_z3 :: fe51
  ld_swap :: u64

definition clamp_scalar :: "bytes \<Rightarrow> bytes" where
  "clamp_scalar scalar =
     (let s = scalar[0 := scalar ! 0 AND 248] in s[31 := (s ! 31 AND 127) OR 64])"

definition scalar_bit :: "bytes \<Rightarrow> nat \<Rightarrow> u64" where
  "scalar_bit s t = ucast (drop_bit (t mod 8) (s ! (t div 8)) AND 1)"

definition ladder_swap :: "u64 \<Rightarrow> ladder \<Rightarrow> ladder" where
  "ladder_swap sw l =
     (let (x2, x3) = fe51_cswap (ld_x2 l) (ld_x3 l) sw; (z2, z3) = fe51_cswap (ld_z2 l) (ld_z3 l) sw
      in l\<lparr>ld_x2 := x2, ld_z2 := z2, ld_x3 := x3, ld_z3 := z3\<rparr>)"

definition ladder_body :: "fe51 \<Rightarrow> ladder \<Rightarrow> ladder" where
  "ladder_body x1 l =
     (let A = fe51_add (ld_x2 l) (ld_z2 l); AA = fe51_sq A;
          B = fe51_sub (ld_x2 l) (ld_z2 l); BB = fe51_sq B;
          E = fe51_sub AA BB;
          C = fe51_add (ld_x3 l) (ld_z3 l);
          D = fe51_sub (ld_x3 l) (ld_z3 l);
          DA = fe51_mul D A; CB = fe51_mul C B;
          x3 = fe51_sq (fe51_add DA CB);
          z3 = fe51_mul (fe51_sq (fe51_sub DA CB)) x1;
          x2 = fe51_mul AA BB;
          tmp0 = fe51_mul_121666 E; tmp1 = fe51_add AA tmp0;
          z2 = fe51_mul E tmp1
      in l\<lparr>ld_x2 := x2, ld_z2 := z2, ld_x3 := x3, ld_z3 := z3\<rparr>)"

definition ladder_step :: "bytes \<Rightarrow> fe51 \<Rightarrow> nat \<Rightarrow> ladder \<Rightarrow> ladder" where
  "ladder_step s x1 t l =
     (let b = scalar_bit s t in
      ladder_body x1 ((ladder_swap (ld_swap l XOR b) l)\<lparr>ld_swap := b\<rparr>))"

definition ladder_init :: "fe51 \<Rightarrow> ladder" where
  "ladder_init x1 = \<lparr>ld_x2 = [1, 0, 0, 0, 0], ld_z2 = [0, 0, 0, 0, 0], ld_x3 = x1,
     ld_z3 = [1, 0, 0, 0, 0], ld_swap = 0\<rparr>"

definition x25519 :: "bytes \<Rightarrow> bytes \<Rightarrow> bytes" where
  "x25519 scalar point =
     (let s = clamp_scalar scalar;
          x1 = fe51_load point;
          l = fold_lt 255 (\<lambda>i. ladder_step s x1 (254 - i)) (ladder_init x1);
          l = ladder_swap (ld_swap l) l
      in fe51_store (fe51_mul (ld_x2 l) (fe51_invert (ld_z2 l))))"

definition BASE_POINT :: bytes where
  "BASE_POINT = [9, 0, 0, 0, 0, 0, 0, 0, 0, 0, 0, 0, 0, 0, 0, 0, 0, 0, 0, 0, 0, 0, 0, 0, 0, 0, 0, 0, 0, 0, 0, 0]"

section \<open>The ladder over the integers\<close>

type_synonym point = "int \<times> int"

text \<open>Doubling and differential addition in projective coordinates, on integers that are read
  modulo the prime.\<close>

fun pt_dbl :: "point \<Rightarrow> point" where
  "pt_dbl (x, z) = (let E = (x + z)^2 - (x - z)^2 in
     ((x + z)^2 * (x - z)^2, E * ((x + z)^2 + 121666 * E)))"

fun pt_add :: "int \<Rightarrow> point \<Rightarrow> point \<Rightarrow> point" where
  "pt_add x1 (x2, z2) (x3, z3) =
     (((x3 - z3) * (x2 + z2) + (x3 + z3) * (x2 - z2))^2,
      ((x3 - z3) * (x2 + z2) - (x3 + z3) * (x2 - z2))^2 * x1)"

definition pt_step :: "bytes \<Rightarrow> int \<Rightarrow> nat \<Rightarrow> point \<times> point \<Rightarrow> point \<times> point" where
  "pt_step s x1 t r = (if scalar_bit s t = 0 then (pt_dbl (fst r), pt_add x1 (fst r) (snd r))
     else (pt_add x1 (fst r) (snd r), pt_dbl (snd r)))"

definition pt_ladder :: "bytes \<Rightarrow> int \<Rightarrow> point" where
  "pt_ladder s x1 = fst (fold_lt 255 (\<lambda>i. pt_step s x1 (254 - i)) ((1, 0), (x1, 1)))"

section \<open>The limbs follow the integers\<close>

definition fe_cong :: "fe51 \<Rightarrow> int \<Rightarrow> bool" where
  "fe_cong h v \<longleftrightarrow> int (val51 h) mod int P25519 = v mod int P25519"

lemma fe_cong_add: "fe_tight a \<Longrightarrow> fe_tight b \<Longrightarrow> fe_cong a v \<Longrightarrow> fe_cong b w \<Longrightarrow> fe_cong (fe51_add a b) (v + w)"
  by (simp only: fe_cong_def fe51_add_value of_nat_add) (rule mod_add_cong)

lemma fe_cong_sub:
  assumes "fe_tight a" "fe_tight b" "fe_cong a v" "fe_cong b w"
  shows "fe_cong (fe51_sub a b) (v - w)"
proof -
  have "int (val51 (fe51_sub a b)) + int (val51 b) = int (val51 a) + 2 * int P25519"
    using fe51_sub_value(1) [OF assms(1,2), THEN arg_cong, of int]
    by (simp only: of_nat_add of_nat_mult of_nat_numeral)
  then have "int (val51 (fe51_sub a b)) = (int (val51 a) - int (val51 b)) + 2 * int P25519" by linarith
  moreover have "((int (val51 a) - int (val51 b)) + 2 * int P25519) mod int P25519 = (v - w) mod int P25519"
    unfolding mod_mult_self1 using assms(3,4) unfolding fe_cong_def by (rule mod_diff_cong)
  ultimately show ?thesis by (simp only: fe_cong_def)
qed

lemma fe_cong_mul:
  assumes "fe_loose a" "fe_loose b" "fe_cong a v" "fe_cong b w"
  shows "fe_cong (fe51_mul a b) (v * w)"
proof -
  have "int (val51 (fe51_mul a b)) mod int P25519 = int (val51 a) * int (val51 b) mod int P25519"
    using fe51_mul_mod [OF assms(1,2), THEN arg_cong, of int] by (simp only: of_nat_mod of_nat_mult)
  also have "\<dots> = v * w mod int P25519" using assms(3,4) unfolding fe_cong_def by (rule mod_mult_cong)
  finally show ?thesis by (simp only: fe_cong_def)
qed

lemma fe_cong_mul_121666:
  assumes "fe_loose a" "fe_cong a v"
  shows "fe_cong (fe51_mul_121666 a) (121666 * v)"
proof -
  obtain c where "val51 (fe51_mul_121666 a) + c * P25519 = 121666 * val51 a"
    by (rule fe51_mul_121666_raw [OF assms(1)])
  from this [THEN arg_cong, of int]
  have "int (val51 (fe51_mul_121666 a)) + int c * int P25519 = 121666 * int (val51 a)"
    by (simp only: of_nat_add of_nat_mult of_nat_numeral)
  then have "int (val51 (fe51_mul_121666 a)) mod int P25519 = (121666 * int (val51 a)) mod int P25519"
    by (metis mod_mult_self1)
  also have "\<dots> = 121666 * v mod int P25519"
    using refl assms(2) unfolding fe_cong_def by (rule mod_mult_cong)
  finally show ?thesis by (simp only: fe_cong_def)
qed

lemma fe51_mul_121666_tight: "fe_loose a \<Longrightarrow> fe_tight (fe51_mul_121666 a)"
  by (rule fe51_mul_121666_raw)

lemma fe51_mul_121666_pos: "fe_loose a \<Longrightarrow> 0 < val51 a \<Longrightarrow> 0 < val51 (fe51_mul_121666 a)"
  by (rule fe51_mul_121666_raw)

lemma fe_cong_sq: "fe_loose a \<Longrightarrow> fe_cong a v \<Longrightarrow> fe_cong (fe51_sq a) (v^2)"
  unfolding fe51_sq_def power2_eq_square by (rule fe_cong_mul)

lemma fe51_sq_tight: "fe_loose a \<Longrightarrow> fe_tight (fe51_sq a)"
  unfolding fe51_sq_def by (rule fe51_mul_tight)

lemma fe51_sq_pos: "fe_loose a \<Longrightarrow> 0 < val51 a \<Longrightarrow> 0 < val51 (fe51_sq a)"
  unfolding fe51_sq_def by (rule fe51_mul_pos)

lemmas fe_bounds = fe51_add_value(2) fe51_sub_value(2) fe51_mul_tight fe51_sq_tight
  fe51_mul_121666_tight fe_tight_loose

lemmas fe_congs = fe_cong_add fe_cong_sub fe_cong_mul fe_cong_sq fe_cong_mul_121666

text \<open>A pair of coordinates for a point, of which not both are the zero vector.\<close>

definition fe_pt :: "fe51 \<Rightarrow> fe51 \<Rightarrow> point \<Rightarrow> bool" where
  "fe_pt x z p \<longleftrightarrow> fe_tight x \<and> fe_tight z \<and> fe_cong x (fst p) \<and> fe_cong z (snd p)
     \<and> 0 < val51 x + val51 z"

lemma ladder_body_value:
  assumes x1: "fe_tight x1" "fe_cong x1 u"
    and 2: "fe_pt (ld_x2 l) (ld_z2 l) p" and 3: "fe_pt (ld_x3 l) (ld_z3 l) q"
  shows "fe_pt (ld_x2 (ladder_body x1 l)) (ld_z2 (ladder_body x1 l)) (pt_dbl p)"
    and "fe_pt (ld_x3 (ladder_body x1 l)) (ld_z3 (ladder_body x1 l)) (pt_add u p q)"
    and "0 < val51 (ld_x2 (ladder_body x1 l))" and "0 < val51 (ld_z2 (ladder_body x1 l))"
    and "0 < val51 (ld_x3 (ladder_body x1 l))" and "ld_swap (ladder_body x1 l) = ld_swap l"
proof -
  obtain px pz qx qz where p: "p = (px, pz)" and q: "q = (qx, qz)" by (cases p, cases q)
  note t = 2 [unfolded fe_pt_def p fst_conv snd_conv] 3 [unfolded fe_pt_def q fst_conv snd_conv]
  have a: "fe_tight (ld_x2 l)" "fe_tight (ld_z2 l)" "fe_cong (ld_x2 l) px" "fe_cong (ld_z2 l) pz"
    "0 < val51 (ld_x2 l) + val51 (ld_z2 l)"
    and b: "fe_tight (ld_x3 l)" "fe_tight (ld_z3 l)" "fe_cong (ld_x3 l) qx" "fe_cong (ld_z3 l) qz"
    "0 < val51 (ld_x3 l) + val51 (ld_z3 l)" using t by simp_all
  define A where "A = fe51_add (ld_x2 l) (ld_z2 l)"
  define B where "B = fe51_sub (ld_x2 l) (ld_z2 l)"
  define AA where "AA = fe51_sq A"
  define BB where "BB = fe51_sq B"
  define E where "E = fe51_sub AA BB"
  define C where "C = fe51_add (ld_x3 l) (ld_z3 l)"
  define D where "D = fe51_sub (ld_x3 l) (ld_z3 l)"
  define DA where "DA = fe51_mul D A"
  define CB where "CB = fe51_mul C B"
  define tmp0 where "tmp0 = fe51_mul_121666 E"
  have A: "fe_loose A" "fe_cong A (px + pz)" "0 < val51 A"
    unfolding A_def using a by (simp_all only: fe51_add_value fe_cong_add)
  have B: "fe_loose B" "fe_cong B (px - pz)" "0 < val51 B"
    unfolding B_def using a by (simp_all only: fe51_sub_value fe_cong_sub)
  have C: "fe_loose C" "fe_cong C (qx + qz)" "0 < val51 C"
    unfolding C_def using b by (simp_all only: fe51_add_value fe_cong_add)
  have D: "fe_loose D" "fe_cong D (qx - qz)" "0 < val51 D"
    unfolding D_def using b by (simp_all only: fe51_sub_value fe_cong_sub)
  have AA: "fe_tight AA" "fe_cong AA ((px + pz)^2)" "0 < val51 AA"
    unfolding AA_def using A by (simp_all only: fe51_sq_tight fe_cong_sq fe51_sq_pos)
  have BB: "fe_tight BB" "fe_cong BB ((px - pz)^2)" "0 < val51 BB"
    unfolding BB_def using B by (simp_all only: fe51_sq_tight fe_cong_sq fe51_sq_pos)
  have E: "fe_loose E" "fe_cong E ((px + pz)^2 - (px - pz)^2)" "0 < val51 E"
    unfolding E_def using AA BB by (simp_all only: fe51_sub_value fe_cong_sub)
  have DA: "fe_tight DA" "fe_cong DA ((qx - qz) * (px + pz))" "0 < val51 DA"
    unfolding DA_def using D A by (simp_all only: fe51_mul_tight fe_cong_mul fe51_mul_pos)
  have CB: "fe_tight CB" "fe_cong CB ((qx + qz) * (px - pz))" "0 < val51 CB"
    unfolding CB_def using C B by (simp_all only: fe51_mul_tight fe_cong_mul fe51_mul_pos)
  have tmp0: "fe_tight tmp0" "fe_cong tmp0 (121666 * ((px + pz)^2 - (px - pz)^2))" "0 < val51 tmp0"
    unfolding tmp0_def using E by (simp_all only: fe51_mul_121666_tight fe_cong_mul_121666 fe51_mul_121666_pos)
  have S: "fe_loose (fe51_add AA tmp0)" "fe_cong (fe51_add AA tmp0) ((px + pz)^2 + 121666 * ((px + pz)^2 - (px - pz)^2))"
    "0 < val51 (fe51_add AA tmp0)"
    using AA tmp0 by (simp_all only: fe51_add_value fe_cong_add add_pos_pos)
  have U: "fe_loose (fe51_add DA CB)" "fe_cong (fe51_add DA CB) ((qx - qz) * (px + pz) + (qx + qz) * (px - pz))"
    "0 < val51 (fe51_add DA CB)"
    using DA CB by (simp_all only: fe51_add_value fe_cong_add add_pos_pos)
  have W: "fe_loose (fe51_sub DA CB)" "fe_cong (fe51_sub DA CB) ((qx - qz) * (px + pz) - (qx + qz) * (px - pz))"
    "0 < val51 (fe51_sub DA CB)"
    using DA CB by (simp_all only: fe51_sub_value fe_cong_sub)
  have body: "ladder_body x1 l = l\<lparr>ld_x2 := fe51_mul AA BB, ld_z2 := fe51_mul E (fe51_add AA tmp0),
      ld_x3 := fe51_sq (fe51_add DA CB), ld_z3 := fe51_mul (fe51_sq (fe51_sub DA CB)) x1\<rparr>"
    by (simp only: ladder_body_def Let_def A_def B_def AA_def BB_def E_def C_def D_def DA_def CB_def tmp0_def)
  note lo = fe_tight_loose [OF AA(1)] fe_tight_loose [OF BB(1)] fe_tight_loose [OF x1(1)]
  have X2: "fe_tight (fe51_mul AA BB)" "fe_cong (fe51_mul AA BB) ((px + pz)^2 * (px - pz)^2)" "0 < val51 (fe51_mul AA BB)"
    using AA BB lo by (simp_all only: fe51_mul_tight fe_cong_mul fe51_mul_pos)
  have Z2: "fe_tight (fe51_mul E (fe51_add AA tmp0))" "0 < val51 (fe51_mul E (fe51_add AA tmp0))"
    "fe_cong (fe51_mul E (fe51_add AA tmp0)) (((px + pz)^2 - (px - pz)^2) * ((px + pz)^2 + 121666 * ((px + pz)^2 - (px - pz)^2)))"
    using E S by (simp_all only: fe51_mul_tight fe_cong_mul fe51_mul_pos)
  have X3: "fe_tight (fe51_sq (fe51_add DA CB))" "0 < val51 (fe51_sq (fe51_add DA CB))"
    "fe_cong (fe51_sq (fe51_add DA CB)) (((qx - qz) * (px + pz) + (qx + qz) * (px - pz))^2)"
    using U by (simp_all only: fe51_sq_tight fe_cong_sq fe51_sq_pos)
  have Z3: "fe_tight (fe51_mul (fe51_sq (fe51_sub DA CB)) x1)"
    "fe_cong (fe51_mul (fe51_sq (fe51_sub DA CB)) x1) (((qx - qz) * (px + pz) - (qx + qz) * (px - pz))^2 * u)"
    using fe_tight_loose [OF fe51_sq_tight [OF W(1)]] lo x1 fe_cong_sq [OF W(1,2)]
    by (simp_all only: fe51_mul_tight fe_cong_mul)
  show "fe_pt (ld_x2 (ladder_body x1 l)) (ld_z2 (ladder_body x1 l)) (pt_dbl p)"
    using X2 Z2 by (simp add: body fe_pt_def p Let_def)
  show "fe_pt (ld_x3 (ladder_body x1 l)) (ld_z3 (ladder_body x1 l)) (pt_add u p q)"
    using X3 Z3 by (simp add: body fe_pt_def p q)
  show "0 < val51 (ld_x2 (ladder_body x1 l))" "0 < val51 (ld_z2 (ladder_body x1 l))"
    "0 < val51 (ld_x3 (ladder_body x1 l))" "ld_swap (ladder_body x1 l) = ld_swap l"
    using X2 Z2 X3 by (simp_all add: body)
qed


lemma pt_add_sym: "pt_add u p q = pt_add u q p"
  by (cases p, cases q) (simp add: algebra_simps power2_eq_square)

lemma scalar_bit_cases: "scalar_bit s t = 0 \<or> scalar_bit s t = 1"
proof -
  have "x AND 1 = 0 \<or> x AND 1 = 1" for x :: u8 by (metis and_one_eq mod2_eq_if)
  then show ?thesis by (metis scalar_bit_def unsigned_0 unsigned_1)
qed

lemma fe_pt_length: "fe_pt x z p \<Longrightarrow> length x = 5 \<and> length z = 5"
  by (simp add: fe_pt_def fe_tight_def)

text \<open>The ladder keeps the pair of points, exchanged while its swap flag is set.\<close>

definition ladder_rep :: "ladder \<Rightarrow> point \<times> point \<Rightarrow> bool" where
  "ladder_rep l r \<longleftrightarrow>
     ld_swap l = 0 \<and> fe_pt (ld_x2 l) (ld_z2 l) (fst r) \<and> fe_pt (ld_x3 l) (ld_z3 l) (snd r)
   \<or> ld_swap l = 1 \<and> fe_pt (ld_x2 l) (ld_z2 l) (snd r) \<and> fe_pt (ld_x3 l) (ld_z3 l) (fst r)"

lemma ladder_swap_value:
  assumes "length (ld_x2 l) = length (ld_x3 l)" "length (ld_z2 l) = length (ld_z3 l)"
  shows "ladder_swap sw l = (if sw AND 1 = 0 then l
     else l\<lparr>ld_x2 := ld_x3 l, ld_z2 := ld_z3 l, ld_x3 := ld_x2 l, ld_z3 := ld_z2 l\<rparr>)"
  using assms by (simp add: ladder_swap_def fe51_cswap_value)

lemma ladder_step_rep:
  assumes x1: "fe_tight x1" "fe_cong x1 u" and r: "ladder_rep l r"
  shows "ladder_rep (ladder_step s x1 t l) (pt_step s u t r)"
    and "0 < val51 (ld_x2 (ladder_step s x1 t l))" and "0 < val51 (ld_z2 (ladder_step s x1 t l))"
    and "ld_swap (ladder_step s x1 t l) = scalar_bit s t"
proof -
  define b where "b = scalar_bit s t"
  define m where "m = (ladder_swap (ld_swap l XOR b) l)\<lparr>ld_swap := b\<rparr>"
  have len: "length (ld_x2 l) = length (ld_x3 l)" "length (ld_z2 l) = length (ld_z3 l)"
    using r by (auto simp: ladder_rep_def dest!: fe_pt_length)
  have b: "b = 0 \<or> b = 1" unfolding b_def by (rule scalar_bit_cases)
  have m: "ld_swap m = b"
    "fe_pt (ld_x2 m) (ld_z2 m) (if b = 0 then fst r else snd r)"
    "fe_pt (ld_x3 m) (ld_z3 m) (if b = 0 then snd r else fst r)"
    using r b by (auto simp: m_def ladder_swap_value [OF len] ladder_rep_def)
  have step: "ladder_step s x1 t l = ladder_body x1 m" by (simp add: ladder_step_def Let_def m_def b_def)
  note v = ladder_body_value [OF x1 m(2,3)]
  show "ladder_rep (ladder_step s x1 t l) (pt_step s u t r)"
    using v(1,2) b m(1) v(6)
    by (auto simp: step ladder_rep_def pt_step_def b_def [symmetric] pt_add_sym [of u "snd r" "fst r"])
  show "0 < val51 (ld_x2 (ladder_step s x1 t l))" "0 < val51 (ld_z2 (ladder_step s x1 t l))"
    "ld_swap (ladder_step s x1 t l) = scalar_bit s t"
    using v m(1) by (simp_all add: step b_def)
qed

lemma ladder_init_rep: "fe_tight x1 \<Longrightarrow> fe_cong x1 u \<Longrightarrow> ladder_rep (ladder_init x1) ((1, 0), (u, 1))"
  by (simp add: ladder_rep_def ladder_init_def fe_pt_def fe_tight_iff fe_cong_def)

lemma ladder_loop:
  assumes "fe_tight x1" "fe_cong x1 u"
  shows "ladder_rep (fold_lt n (\<lambda>i. ladder_step s x1 (254 - i)) (ladder_init x1))
     (fold_lt n (\<lambda>i. pt_step s u (254 - i)) ((1, 0), (u, 1)))"
proof (induction n)
  case 0
  show ?case using ladder_init_rep [OF assms] by simp
next
  case (Suc n)
  show ?case unfolding fold_lt.simps by (rule ladder_step_rep(1) [OF assms Suc.IH])
qed

lemma clamped_bit_0: "length scalar = 32 \<Longrightarrow> scalar_bit (clamp_scalar scalar) 0 = 0"
proof -
  assume l: "length scalar = 32"
  have "(scalar ! 0 AND 248) AND 1 = 0" by (simp add: and.assoc)
  then show ?thesis using l by (simp add: scalar_bit_def clamp_scalar_def Let_def)
qed

lemma fe_is_cong: "fe_is h v \<Longrightarrow> fe_cong h (int v)"
  by (simp only: fe_is_def fe_cong_def of_nat_mod [symmetric])

lemma x25519_main:
  assumes "length scalar = 32" "length point = 32"
  obtains X Z where "pt_ladder (clamp_scalar scalar) (int (le_nat point mod 2 ^ 255)) = (X, Z)"
    and "int (le_nat (x25519 scalar point)) mod int P25519 = X * Z ^ (P25519 - 2) mod int P25519"
    and "length (x25519 scalar point) = 32" and "0 < le_nat (x25519 scalar point)"
proof -
  define s where "s = clamp_scalar scalar"
  define x1 where "x1 = fe51_load point"
  define u where "u = int (le_nat point mod 2 ^ 255)"
  define l where "l = fold_lt 255 (\<lambda>i. ladder_step s x1 (254 - i)) (ladder_init x1)"
  obtain X Z where P: "pt_ladder s u = (X, Z)" by (cases "pt_ladder s u")
  have x1: "fe_tight x1" "fe_cong x1 u"
    using fe51_load_value [OF assms(2)] by (simp_all add: x1_def u_def fe_cong_def)
  define l0 where "l0 = fold_lt 254 (\<lambda>i. ladder_step s x1 (254 - i)) (ladder_init x1)"
  have l: "l = ladder_step s x1 0 l0"
    using fold_lt.simps(2) [of 254 "\<lambda>i. ladder_step s x1 (254 - i)" "ladder_init x1"]
    by (simp only: l_def l0_def diff_self_eq_0) simp
  note step = ladder_step_rep [OF x1 ladder_loop [OF x1, of 254 s, folded l0_def], of s 0, folded l]
  have sw: "ld_swap l = 0" using step(4) clamped_bit_0 [OF assms(1)] by (simp add: s_def)
  have rep: "ladder_rep l (fold_lt 255 (\<lambda>i. pt_step s u (254 - i)) ((1, 0), (u, 1)))"
    unfolding l_def by (rule ladder_loop [OF x1])
  have pt: "fe_pt (ld_x2 l) (ld_z2 l) (X, Z)"
    using rep P by (simp add: ladder_rep_def sw pt_ladder_def)
  have len: "length (ld_x2 l) = length (ld_x3 l)" "length (ld_z2 l) = length (ld_z3 l)"
    using rep by (auto simp: ladder_rep_def dest!: fe_pt_length)
  have fin: "ladder_swap (ld_swap l) l = l" by (simp add: ladder_swap_value [OF len] sw)
  define inv where "inv = fe51_invert (ld_z2 l)"
  define out where "out = fe51_mul (ld_x2 l) inv"
  have x: "x25519 scalar point = fe51_store out"
    by (simp only: x25519_def Let_def s_def [symmetric] x1_def [symmetric] l_def [symmetric] fin out_def inv_def)
  have pt': "fe_tight (ld_x2 l)" "fe_tight (ld_z2 l)" "fe_cong (ld_x2 l) X" "fe_cong (ld_z2 l) Z"
    using pt by (simp_all add: fe_pt_def)
  have z: "fe_is (ld_z2 l) (val51 (ld_z2 l))" using pt'(2) step(3) by (simp add: fe_is_def)
  have inv: "fe_is inv (val51 (ld_z2 l) ^ (P25519 - 2))" unfolding inv_def using z by (rule fe51_invert_is)
  have "fe_cong inv (int (val51 (ld_z2 l) ^ (P25519 - 2)))" using inv by (rule fe_is_cong)
  then have "int (val51 inv) mod int P25519 = int (val51 (ld_z2 l)) ^ (P25519 - 2) mod int P25519"
    by (simp only: fe_cong_def of_nat_power)
  also have "\<dots> = (int (val51 (ld_z2 l)) mod int P25519) ^ (P25519 - 2) mod int P25519"
    by (rule power_mod [symmetric])
  also have "\<dots> = (Z mod int P25519) ^ (P25519 - 2) mod int P25519"
    using pt'(4) by (simp only: fe_cong_def)
  also have "\<dots> = Z ^ (P25519 - 2) mod int P25519" by (rule power_mod)
  finally have cz: "fe_cong inv (Z ^ (P25519 - 2))" by (simp only: fe_cong_def)
  have ti: "fe_tight inv" "0 < val51 inv" using inv by (simp_all add: fe_is_def)
  note lo = fe_tight_loose [OF pt'(1)] fe_tight_loose [OF ti(1)]
  have out: "fe_tight out" "fe_cong out (X * Z ^ (P25519 - 2))" "0 < val51 out"
    unfolding out_def using lo pt' cz step(2) ti(2) by (simp_all only: fe51_mul_tight fe_cong_mul fe51_mul_pos)
  obtain c where c: "le_nat (fe51_store out) + c * P25519 = val51 out" "length (fe51_store out) = 32"
    "0 < val51 out \<longrightarrow> 0 < le_nat (fe51_store out)"
    by (rule fe51_store_value [OF out(1)])
  have "int (le_nat (fe51_store out)) mod int P25519 = int (val51 out) mod int P25519"
    using c(1) [THEN arg_cong, of "\<lambda>n. int n mod int P25519"] by (simp only: of_nat_add of_nat_mult mod_mult_self1)
  then have "int (le_nat (x25519 scalar point)) mod int P25519 = X * Z ^ (P25519 - 2) mod int P25519"
    using out(2) by (simp only: x fe_cong_def)
  then show ?thesis using that [OF P [unfolded s_def u_def]] c(2,3) out(3) by (simp only: x simp_thms)
qed


section \<open>What the key exchange computes\<close>

text \<open>C13: The code's \<^verbatim>\<open>x25519\<close> is the Montgomery ladder over the integers modulo
  \<open>2^255 - 19\<close>: no limb overflows, no difference wraps, and the 32 bytes written are congruent
  to the quotient \<open>X / Z\<close> (as \<open>X * Z^(p-2)\<close>) of the ladder's result at the clamped scalar and
  the point with its top bit cleared.\<close>

theorem x25519_refines_ladder:
  assumes "length scalar = 32" and "length point = 32"
  shows "length (x25519 scalar point) = 32 \<and>
    int (le_nat (x25519 scalar point)) mod int P25519
      = (case pt_ladder (clamp_scalar scalar) (int (le_nat point mod 2 ^ 255)) of
           (X, Z) \<Rightarrow> X * Z ^ (P25519 - 2)) mod int P25519"
proof -
  obtain X Z where "pt_ladder (clamp_scalar scalar) (int (le_nat point mod 2 ^ 255)) = (X, Z)"
    and "int (le_nat (x25519 scalar point)) mod int P25519 = X * Z ^ (P25519 - 2) mod int P25519"
    and "length (x25519 scalar point) = 32"
    by (rule x25519_main [OF assms])
  then show ?thesis by (simp only: prod.case simp_thms)
qed

theorem x25519_refines_ladder_witness:
  "int (le_nat (x25519 (replicate 32 1) BASE_POINT)) mod int P25519
      = (case pt_ladder (clamp_scalar (replicate 32 1)) (int (le_nat BASE_POINT mod 2 ^ 255)) of
           (X, Z) \<Rightarrow> X * Z ^ (P25519 - 2)) mod int P25519"
proof -
  have "length (replicate 32 (1 :: u8)) = 32" "length BASE_POINT = 32" by (simp_all add: BASE_POINT_def)
  from x25519_refines_ladder [OF this] show ?thesis by (rule conjunct2)
qed

lemma x25519_nonzero:
  assumes "length scalar = 32" and "length point = 32"
  shows "0 < le_nat (x25519 scalar point)"
  by (rule x25519_main [OF assms])

lemma x25519_length:
  assumes "length scalar = 32" and "length point = 32"
  shows "length (x25519 scalar point) = 32"
  by (rule x25519_main [OF assms])

lemma pt_dbl_curve:
  "pt_dbl (X, Z) = ((X^2 - Z^2)^2, 4 * X * Z * (X^2 + 486666 * X * Z + Z^2))"
  by (simp add: algebra_simps power2_eq_square)

text \<open>C37: One step of the ladder doubles its first point on the curve
  \<open>y^2 = x^3 + 486666 x^2 + x\<close>: the coefficient that the constant 121666, added to
  \<open>AA\<close> and not to \<open>BB\<close>, stands for. Curve25519 has the coefficient 486662.\<close>

theorem ladder_doubles_on_486666:
  assumes "fe_tight x1" and "fe_cong x1 u"
    and "fe_pt (ld_x2 l) (ld_z2 l) (X, Z)" and "fe_pt (ld_x3 l) (ld_z3 l) q"
  shows "int (val51 (ld_x2 (ladder_body x1 l))) mod int P25519 = (X^2 - Z^2)^2 mod int P25519 \<and>
    int (val51 (ld_z2 (ladder_body x1 l))) mod int P25519
      = 4 * X * Z * (X^2 + 486666 * X * Z + Z^2) mod int P25519"
  using ladder_body_value(1) [OF assms] unfolding fe_pt_def pt_dbl_curve fst_conv snd_conv fe_cong_def by blast

text \<open>The base point: its double has \<open>x\<close> numerator \<open>80^2\<close>, and a denominator that is not the
  one of Curve25519.\<close>

theorem ladder_doubles_on_486666_witness:
  "int (val51 (ld_x2 (ladder_body [9, 0, 0, 0, 0]
       \<lparr>ld_x2 = [9, 0, 0, 0, 0], ld_z2 = [1, 0, 0, 0, 0], ld_x3 = [1, 0, 0, 0, 0], ld_z3 = [0, 0, 0, 0, 0],
        ld_swap = 0\<rparr>))) mod int P25519 = 6400
   \<and> int (val51 (ld_z2 (ladder_body [9, 0, 0, 0, 0]
       \<lparr>ld_x2 = [9, 0, 0, 0, 0], ld_z2 = [1, 0, 0, 0, 0], ld_x3 = [1, 0, 0, 0, 0], ld_z3 = [0, 0, 0, 0, 0],
        ld_swap = 0\<rparr>))) mod int P25519 \<noteq> 4 * 9 * (9^2 + 486662 * 9 + 1)"
proof -
  let ?l = "\<lparr>ld_x2 = [9, 0, 0, 0, 0], ld_z2 = [1, 0, 0, 0, 0], ld_x3 = [1, 0, 0, 0, 0],
     ld_z3 = [0, 0, 0, 0, 0], ld_swap = 0\<rparr> :: ladder"
  have "fe_tight [9, 0, 0, 0, 0]" "fe_cong [9, 0, 0, 0, 0] 9"
    "fe_pt (ld_x2 ?l) (ld_z2 ?l) (9, 1)" "fe_pt (ld_x3 ?l) (ld_z3 ?l) (1, 0)"
    by (simp_all add: fe_tight_iff fe_cong_def fe_pt_def)
  from ladder_doubles_on_486666 [OF this] show ?thesis by simp
qed

end
