(* ===== verification/Poly1305_Correct.thy ===== *)
theory Poly1305_Correct
  imports Poly1305
begin

text \<open>
  The authenticator against RFC 8439: the final reduction of \<^verbatim>\<open>poly1305_finish\<close>, the
  accumulator over a whole message and the tag as a value.
\<close>

section \<open>The final reduction\<close>

lemma poly_full_carry_value:
  assumes "poly_h_ok [h0, h1, h2, h3, h4]"
  obtains k0 k1 k2 k3 k4 c where "poly_full_carry [h0, h1, h2, h3, h4] = [k0, k1, k2, k3, k4]"
    and "val26 [k0, k1, k2, k3, k4] + c * P1305 = val26 [h0, h1, h2, h3, h4]"
    and "unat k0 < 2 ^ 26" "unat k1 < 2 ^ 26" "unat k2 < 2 ^ 26" "unat k3 < 2 ^ 26" "unat k4 < 2 ^ 26"
proof -
  have h: "unat h0 < 2 ^ 26" "unat h1 < 2 ^ 26 + 64" "unat h2 < 2 ^ 26" "unat h3 < 2 ^ 26" "unat h4 < 2 ^ 26"
    using assms unfolding poly_h_okI_iff by blast+
  define e2 where "e2 = h2 + drop_bit 26 h1"
  define e3 where "e3 = h3 + drop_bit 26 e2"
  define e4 where "e4 = h4 + drop_bit 26 e3"
  define k0 where "k0 = h0 + drop_bit 26 e4 * 5"
  have add: "unat (x + drop_bit 26 y) = unat x + unat y div 2 ^ 26 \<and> unat (x + drop_bit 26 y) \<le> 2 ^ 26"
    if "unat x < 2 ^ 26" "unat y < 2 ^ 27" for x y :: u32
  proof -
    have "unat y div 2 ^ 26 \<le> 1" using that(2) by simp
    then show ?thesis using that(1) by (subst (1 2) unat_add_u32) (simp_all add: unat_drop_bit del: One_nat_def)
  qed
  have w: "n < 2 ^ 26 + 64 \<Longrightarrow> n < 2 ^ 27" "n \<le> 2 ^ 26 \<Longrightarrow> n < 2 ^ 27" for n :: nat by simp_all
  note E2 = add [OF h(3) w(1) [OF h(2)], folded e2_def]
  note E3 = add [OF h(4) w(2) [OF E2 [THEN conjunct2]], folded e3_def]
  note E4 = add [OF h(5) w(2) [OF E3 [THEN conjunct2]], folded e4_def]
  define c where "c = unat e4 div 2 ^ 26"
  have c1: "c \<le> 1" unfolding c_def by (rule order_trans [OF div_le_mono [OF E4 [THEN conjunct2]]]) simp
  have m5: "unat (drop_bit 26 e4 * 5) = c * 5"
    using c1 by (subst unat_mult5_u32) (simp_all only: unat_drop_bit c_def, simp)
  have K0: "unat k0 = unat h0 + c * 5"
    unfolding k0_def using c1 h(1) by (subst unat_add_u32) (simp_all only: m5, simp)
  have t1: "unat k0 div 2 ^ 26 \<le> 1" using K0 c1 h(1) by simp
  have one: "unat h1 mod 2 ^ 26 + unat k0 div 2 ^ 26 < 2 ^ 26"
  proof (cases "unat h1 < 2 ^ 26")
    case True
    then have "unat e2 = unat h2" using E2 by simp
    then have "unat e3 = unat h3" using E3 h(3) by simp
    then have "unat e4 = unat h4" using E4 h(4) by simp
    then have "c = 0" using h(5) by (simp add: c_def)
    then have "unat k0 div 2 ^ 26 = 0" using K0 h(1) by simp
    then show ?thesis by simp
  next
    case False
    then have "unat h1 mod 2 ^ 26 = unat h1 - 2 ^ 26" using h(2) by (simp add: mod_if)
    then have "unat h1 mod 2 ^ 26 < 64" using h(2) False by linarith
    moreover have "x < 64 \<Longrightarrow> y \<le> 1 \<Longrightarrow> x + y < 2 ^ 26" for x y :: nat by simp
    ultimately show ?thesis using t1 by blast
  qed
  define k1 where "k1 = (h1 AND 0x3ffffff) + drop_bit 26 k0"
  have K1: "unat k1 = unat h1 mod 2 ^ 26 + unat k0 div 2 ^ 26"
    unfolding k1_def using one by (subst unat_add_u32) (simp_all only: unat_and_mask26 unat_drop_bit, simp)
  show ?thesis
  proof (rule that)
    show "poly_full_carry [h0, h1, h2, h3, h4] =
        [k0 AND 0x3ffffff, k1, e2 AND 0x3ffffff, e3 AND 0x3ffffff, e4 AND 0x3ffffff]"
      by (simp only: poly_full_carry.simps Let_def e2_def e3_def e4_def k0_def k1_def)
    have dm: "n = n mod 2 ^ 26 + 2 ^ 26 * (n div 2 ^ 26)" for n :: nat by simp
    have P: "P1305 + 5 = (2 ^ 26) ^ 5" by simp
    have z: "n = n + 2 ^ 26 * 0" "n = n + 0" for n :: nat by simp_all
    show "val26 [k0 AND 0x3ffffff, k1, e2 AND 0x3ffffff, e3 AND 0x3ffffff, e4 AND 0x3ffffff] + c * P1305
        = val26 [h0, h1, h2, h3, h4]"
      using carry_chain_nat [OF z(1) z(2) dm E2 [THEN conjunct1] dm E3 [THEN conjunct1] dm
          E4 [THEN conjunct1] dm [of "unat e4", folded c_def] K0 dm P]
      by (simp only: val26.simps K1 unat_and_mask26 mult_0_right add_0_right)
    show "unat k1 < 2 ^ 26" using K1 one by simp
  qed (simp_all only: unat_and_mask26, simp_all)
qed

lemma poly_cond_sub_value:
  assumes k: "unat k0 < 2 ^ 26" "unat k1 < 2 ^ 26" "unat k2 < 2 ^ 26" "unat k3 < 2 ^ 26" "unat k4 < 2 ^ 26"
  obtains f0 f1 f2 f3 f4 where "poly_cond_sub [k0, k1, k2, k3, k4] = [f0, f1, f2, f3, f4]"
    and "val26 [f0, f1, f2, f3, f4] = val26 [k0, k1, k2, k3, k4] mod P1305"
    and "unat f0 < 2 ^ 26" "unat f1 < 2 ^ 26" "unat f2 < 2 ^ 26" "unat f3 < 2 ^ 26" "unat f4 < 2 ^ 26"
proof -
  define e0 where "e0 = k0 + 5"
  define e1 where "e1 = k1 + drop_bit 26 e0"
  define e2 where "e2 = k2 + drop_bit 26 e1"
  define e3 where "e3 = k3 + drop_bit 26 e2"
  define e4 where "e4 = k4 + drop_bit 26 e3"
  define g4 where "g4 = e4 - 0x4000000"
  define m where "m = drop_bit 31 g4 - 1"
  have E0: "unat e0 = unat k0 + 5" using k(1) unfolding e0_def by (subst unat_add_u32) simp_all
  have add: "unat (x + drop_bit 26 y) = unat x + unat y div 2 ^ 26 \<and> unat (x + drop_bit 26 y) \<le> 2 ^ 26"
    if "unat x < 2 ^ 26" "unat y < 2 ^ 27" for x y :: u32
  proof -
    have "unat y div 2 ^ 26 \<le> 1" using that(2) by simp
    then show ?thesis using that(1) by (subst (1 2) unat_add_u32) (simp_all add: unat_drop_bit del: One_nat_def)
  qed
  have w: "n \<le> 2 ^ 26 \<Longrightarrow> n < 2 ^ 27" for n :: nat by simp
  have w0: "unat e0 < 2 ^ 27" using E0 k(1) by simp
  note E1 = add [OF k(2) w0, folded e1_def]
  note E2 = add [OF k(3) w [OF E1 [THEN conjunct2]], folded e2_def]
  note E3 = add [OF k(4) w [OF E2 [THEN conjunct2]], folded e3_def]
  note E4 = add [OF k(5) w [OF E3 [THEN conjunct2]], folded e4_def]
  have eq: "poly_cond_sub [k0, k1, k2, k3, k4] =
     [(k0 AND NOT m) OR ((e0 AND 0x3ffffff) AND m), (k1 AND NOT m) OR ((e1 AND 0x3ffffff) AND m),
      (k2 AND NOT m) OR ((e2 AND 0x3ffffff) AND m), (k3 AND NOT m) OR ((e3 AND 0x3ffffff) AND m),
      (k4 AND NOT m) OR (g4 AND m)]"
    by (simp only: poly_cond_sub.simps Let_def e0_def e1_def e2_def e3_def e4_def g4_def m_def)
  have dm: "n = n mod 2 ^ 26 + 2 ^ 26 * (n div 2 ^ 26)" for n :: nat by simp
  have val: "val26 [k0, k1, k2, k3, k4] + 5 = unat e0 mod 2 ^ 26 + 2 ^ 26 * (unat e1 mod 2 ^ 26
      + 2 ^ 26 * (unat e2 mod 2 ^ 26 + 2 ^ 26 * (unat e3 mod 2 ^ 26 + 2 ^ 26 * unat e4)))"
  proof -
    have z: "unat e4 = unat e4 + 2 ^ 26 * 0" "unat e0 mod 2 ^ 26 = unat e0 mod 2 ^ 26 + 0 * 0"
      "unat e0 mod 2 ^ 26 = unat e0 mod 2 ^ 26 + 2 ^ 26 * 0" "(2 ^ 26) ^ 5 + 0 = ((2 :: nat) ^ 26) ^ 5"
      by simp_all
    show ?thesis
      using carry_chain_nat [OF dm E1 [THEN conjunct1] dm E2 [THEN conjunct1] dm E3 [THEN conjunct1] dm
          E4 [THEN conjunct1] z]
      unfolding val26.simps E0 by simp
  qed
  have small: "unat e0 mod 2 ^ 26 < 2 ^ 26" "unat e1 mod 2 ^ 26 < 2 ^ 26" "unat e2 mod 2 ^ 26 < 2 ^ 26"
    "unat e3 mod 2 ^ 26 < 2 ^ 26" by simp_all
  show ?thesis
  proof (cases "unat e4 = 2 ^ 26")
    case True
    then have "unat e4 = unat (67108864 :: u32)" by simp
    then have "e4 = 67108864" by (rule unat_eqI)
    then have g: "g4 = 0" by (simp add: g4_def)
    then have m: "m = -1" by (simp add: m_def)
    have v: "val26 [e0 AND 0x3ffffff, e1 AND 0x3ffffff, e2 AND 0x3ffffff, e3 AND 0x3ffffff, 0]
        = val26 [k0, k1, k2, k3, k4] - P1305" and ge: "val26 [k0, k1, k2, k3, k4] \<ge> P1305"
      using val small by (simp_all only: val26.simps unat_and_mask26 True unsigned_0, simp_all)
    have "val26 [e0 AND 0x3ffffff, e1 AND 0x3ffffff, e2 AND 0x3ffffff, e3 AND 0x3ffffff, 0] < P1305"
      unfolding v using k unfolding val26.simps by simp
    then have r: "val26 [e0 AND 0x3ffffff, e1 AND 0x3ffffff, e2 AND 0x3ffffff, e3 AND 0x3ffffff, 0]
        = val26 [k0, k1, k2, k3, k4] mod P1305"
      unfolding v using ge by (metis le_mod_geq mod_less)
    have c: "poly_cond_sub [k0, k1, k2, k3, k4] =
      [e0 AND 0x3ffffff, e1 AND 0x3ffffff, e2 AND 0x3ffffff, e3 AND 0x3ffffff, 0]"
      unfolding eq m g by simp
    have u: "unat (x AND 0x3ffffff) < 2 ^ 26" for x :: u32 by (simp only: unat_and_mask26) simp
    have z: "unat (0 :: u32) < 2 ^ 26" by simp
    show ?thesis by (rule that [OF c r u u u u z])
  next
    case False
    then have lt: "unat e4 < 2 ^ 26" using E4 by linarith
    have "unat (drop_bit 31 g4) = 1"
    proof -
      have n: "unat (0x4000000 :: u32) = 2 ^ 26" by simp
      have "unat g4 = unat e4 + 2 ^ 32 - 2 ^ 26"
        unfolding g4_def unat_sub_if' n using lt by (simp del: One_nat_def)
      then have "unat g4 \<ge> 2 ^ 31" "unat g4 < 2 ^ 32" using lt by simp_all
      moreover have "n div 2 ^ 31 = 1" if "2 ^ 31 \<le> n" "n < 2 ^ 32" for n :: nat
        by (rule div_nat_eqI) (use that in simp_all)
      ultimately show ?thesis unfolding unat_drop_bit by blast
    qed
    then have "drop_bit 31 g4 = 1" by (intro unat_eqI) simp
    then have m: "m = 0" by (simp add: m_def)
    have "val26 [k0, k1, k2, k3, k4] + 5 < 2 ^ 26 * (2 ^ 26 * (2 ^ 26 * (2 ^ 26 * 2 ^ 26)))"
      unfolding val by (intro digits_less small lt)
    then have "val26 [k0, k1, k2, k3, k4] < P1305" by simp
    then have v: "val26 [k0, k1, k2, k3, k4] = val26 [k0, k1, k2, k3, k4] mod P1305"
      by (rule mod_less [symmetric])
    have c: "poly_cond_sub [k0, k1, k2, k3, k4] = [k0, k1, k2, k3, k4]" unfolding eq m by simp
    show ?thesis by (rule that [OF c v k])
  qed
qed


text \<open>The words of the reduced limbs.\<close>

lemma unat_push_bit_u32: "unat (push_bit n x :: u32) = 2 ^ n * unat x mod 2 ^ 32"
  by (simp only: unsigned_push_bit_eq) (simp only: take_bit_eq_mod push_bit_eq_mult mult.commute, simp)

lemma limb_join:
  assumes a: "unat (a :: u32) < 2 ^ 26" and s: "s + t = 26"
  shows "unat (drop_bit s a OR push_bit t b) = (unat a div 2 ^ s + 2 ^ t * unat b) mod 2 ^ 32"
proof -
  have nb: "\<not> bit a n" if "26 \<le> n" for n
  proof -
    have "(2::nat) ^ 26 \<le> 2 ^ n" using that by (rule power_increasing) simp
    then have "unat a div 2 ^ n = 0" using a by simp
    then have "unat (drop_bit n a) = 0" by (simp only: unat_drop_bit)
    then have "drop_bit n a = 0" by (simp only: unsigned_eq_0_iff)
    then show ?thesis by (metis bit_iff_and_drop_bit_eq_1 and_zero_eq zero_neq_one zero_and_eq)
  qed
  have "\<not> bit (drop_bit s a) n \<or> \<not> bit (push_bit t b) n" for n
    using nb [of "s + n"] s by (auto simp: bit_drop_bit_eq bit_push_bit_iff)
  then have "drop_bit s a OR push_bit t b = drop_bit s a + push_bit t b"
    by (rule disjunctive_add [symmetric])
  then show ?thesis
    by (simp only: unat_word_ariths(1) unat_drop_bit unat_push_bit_u32) (simp add: mod_simps)
qed

definition word_of_nat_at :: "nat \<Rightarrow> nat \<Rightarrow> u32" where
  "word_of_nat_at v i = of_nat (v div 2 ^ (32 * i))"

lemma poly_words_value:
  assumes f: "unat f0 < 2 ^ 26" "unat f1 < 2 ^ 26" "unat f2 < 2 ^ 26" "unat f3 < 2 ^ 26" "unat f4 < 2 ^ 26"
  shows "poly_words [f0, f1, f2, f3, f4] = map (word_of_nat_at (val26 [f0, f1, f2, f3, f4])) [0, 1, 2, 3]"
proof -
  have w: "x = of_nat n" if "unat (x :: u32) = n mod 2 ^ 32" for x n
    using that by (intro unat_eqI) (simp add: unsigned_of_nat take_bit_eq_mod)
  have 0: "f0 OR push_bit 26 f1 = of_nat (unat f0 + 2 ^ 26 * unat f1)"
    using limb_join [OF f(1), of 0 26 f1] by (intro w) simp
  have 1: "drop_bit 6 f1 OR push_bit 20 f2 = of_nat (unat f1 div 2 ^ 6 + 2 ^ 20 * unat f2)"
    by (intro w limb_join [OF f(2), of 6 20 f2]) simp 
  have 2: "drop_bit 12 f2 OR push_bit 14 f3 = of_nat (unat f2 div 2 ^ 12 + 2 ^ 14 * unat f3)"
    by (intro w limb_join [OF f(3), of 12 14 f3]) simp
  have 3: "drop_bit 18 f3 OR push_bit 8 f4 = of_nat (unat f3 div 2 ^ 18 + 2 ^ 8 * unat f4)"
    by (intro w limb_join [OF f(4), of 18 8 f4]) simp
  have c: "(of_nat (a + 2 ^ 32 * k) :: u32) = of_nat a" for a k
    by (rule unat_eqI) (simp add: unsigned_of_nat take_bit_eq_mod del: of_nat_add of_nat_mult)
  define V where "V = val26 [f0, f1, f2, f3, f4]"
  have d: "(r + 2 ^ s * x) div 2 ^ (s + t) = x div 2 ^ t" if "r < 2 ^ s" for r s x t :: nat
    using that by (simp add: power_add div_mult2_eq)
  have V: "V = unat f0 + 2 ^ 26 * (unat f1 + 2 ^ 26 * (unat f2 + 2 ^ 26 * (unat f3 + 2 ^ 26 * unat f4)))"
    by (simp add: V_def)
  have dj: "(a + 2 ^ 26 * x) div 2 ^ s = a div 2 ^ s + 2 ^ t * x" if "s + t = 26" for a x s t :: nat
  proof -
    have "(2 :: nat) ^ 26 = 2 ^ s * 2 ^ t" using that by (metis power_add)
    then show ?thesis by (simp only: mult.assoc) simp
  qed
  have s1: "V div 2 ^ 26 = unat f1 + 2 ^ 26 * (unat f2 + 2 ^ 26 * (unat f3 + 2 ^ 26 * unat f4))"
    unfolding V using f(1) by simp
  have s2: "V div 2 ^ 52 = unat f2 + 2 ^ 26 * (unat f3 + 2 ^ 26 * unat f4)"
    using s1 f(2) div_mult2_eq [of V "2 ^ 26" "2 ^ 26"] by simp
  have s3: "V div 2 ^ 78 = unat f3 + 2 ^ 26 * unat f4"
    using s2 f(3) div_mult2_eq [of V "2 ^ 52" "2 ^ 26"] by simp
  have e1: "V div 2 ^ 32 = unat f1 div 2 ^ 6 + 2 ^ 20 * unat f2 + 2 ^ 32 * (2 ^ 14 * (unat f3 + 2 ^ 26 * unat f4))"
    using div_mult2_eq [of V "2 ^ 26" "2 ^ 6"] dj [of 6 20 "unat f1"] unfolding s1
    by (simp add: algebra_simps)
  have e2: "V div 2 ^ 64 = unat f2 div 2 ^ 12 + 2 ^ 14 * unat f3 + 2 ^ 32 * (2 ^ 8 * unat f4)"
    using div_mult2_eq [of V "2 ^ 52" "2 ^ 12"] dj [of 12 14 "unat f2"] unfolding s2
    by (simp add: algebra_simps)
  have e3: "V div 2 ^ 96 = unat f3 div 2 ^ 18 + 2 ^ 8 * unat f4"
    using div_mult2_eq [of V "2 ^ 78" "2 ^ 18"] dj [of 18 8 "unat f3"] unfolding s3 by simp
  have e0: "V = unat f0 + 2 ^ 26 * unat f1 + 2 ^ 32 * (2 ^ 20 * (unat f2 + 2 ^ 26 * (unat f3 + 2 ^ 26 * unat f4)))"
    unfolding V by (simp add: algebra_simps)
  have m2: "32 * 2 = (64 :: nat)" and m3: "32 * 3 = (96 :: nat)" by simp_all
  have "word_of_nat_at V 0 = f0 OR push_bit 26 f1" unfolding 0 word_of_nat_at_def
    by (subst e0) (simp only: mult_0_right power_0 div_by_1 c)
  moreover have "word_of_nat_at V 1 = drop_bit 6 f1 OR push_bit 20 f2" unfolding 1 word_of_nat_at_def
    by (simp only: mult_1_right e1 c)
  moreover have "word_of_nat_at V 2 = drop_bit 12 f2 OR push_bit 14 f3" unfolding 2 word_of_nat_at_def
    by (simp only: m2 e2 c)
  moreover have "word_of_nat_at V 3 = drop_bit 18 f3 OR push_bit 8 f4" unfolding 3 word_of_nat_at_def
    by (simp only: m3 e3)
  ultimately show ?thesis unfolding V_def [symmetric] by (simp only: poly_words.simps list.map)
qed


lemma poly_tag_value:
  assumes "poly_h_ok h"
  shows "poly_tag h pad =
    concat (map store32_le (map2 (+) (map (word_of_nat_at (val26 h mod P1305)) [0, 1, 2, 3]) pad))"
proof -
  obtain h0 h1 h2 h3 h4 where h: "h = [h0, h1, h2, h3, h4]"
    using length_5_exhaust [of h] assms by (auto simp: poly_h_ok_def)
  obtain k0 k1 k2 k3 k4 c where k: "poly_full_carry [h0, h1, h2, h3, h4] = [k0, k1, k2, k3, k4]"
    and v: "val26 [k0, k1, k2, k3, k4] + c * P1305 = val26 [h0, h1, h2, h3, h4]"
    and kb: "unat k0 < 2 ^ 26" "unat k1 < 2 ^ 26" "unat k2 < 2 ^ 26" "unat k3 < 2 ^ 26" "unat k4 < 2 ^ 26"
    by (rule poly_full_carry_value [OF assms [unfolded h]])
  obtain f0 f1 f2 f3 f4 where f: "poly_cond_sub [k0, k1, k2, k3, k4] = [f0, f1, f2, f3, f4]"
    and w: "val26 [f0, f1, f2, f3, f4] = val26 [k0, k1, k2, k3, k4] mod P1305"
    and fb: "unat f0 < 2 ^ 26" "unat f1 < 2 ^ 26" "unat f2 < 2 ^ 26" "unat f3 < 2 ^ 26" "unat f4 < 2 ^ 26"
    by (rule poly_cond_sub_value [OF kb])
  have "val26 [k0, k1, k2, k3, k4] mod P1305 = val26 [h0, h1, h2, h3, h4] mod P1305"
    by (simp only: v [symmetric] mod_mult_self1)
  then show ?thesis unfolding poly_tag_def h k f poly_words_value [OF fb] w by (simp only:)
qed


section \<open>The tag of a whole message\<close>

text \<open>The polynomial of RFC 8439: every block, with a one bit behind its last byte, is added to the
  accumulator, which is multiplied by \<open>r\<close>.\<close>

fun poly_eval :: "nat \<Rightarrow> nat \<Rightarrow> bytes \<Rightarrow> nat" where
  "poly_eval r a [] = a"
| "poly_eval r a (b # m) =
     poly_eval r ((a + (le_nat (b # take 15 m) + 2 ^ (8 * length (b # take 15 m)))) * r mod P1305) (drop 15 m)"

lemma poly_eval_block:
  "length x = 16 \<Longrightarrow> poly_eval r a (x @ m) = poly_eval r ((a + (le_nat x + 2 ^ 128)) * r mod P1305) m"
  by (cases x) auto

lemma poly_eval_last:
  "m \<noteq> [] \<Longrightarrow> length m \<le> 16 \<Longrightarrow> poly_eval r a m = (a + (le_nat m + 2 ^ (8 * length m))) * r mod P1305"
  by (cases m) auto

definition poly_ok :: "Poly1305 \<Rightarrow> bool" where
  "poly_ok st \<longleftrightarrow> wf_poly st \<and> poly_h_ok (po_h st) \<and> limbs26 (po_r st)"

lemma limbs26_init: "limbs26 (po_r (poly1305_init key))"
proof -
  have "unat (x AND y) < 2 ^ 26" if "y \<le> 0x3ffffff" for x y :: u32
  proof -
    have "x AND y \<le> 0x3ffffff" using word_and_le1 that by (rule order_trans)
    then have "unat (x AND y) \<le> unat (0x3ffffff :: u32)" by (simp only: word_le_nat_alt)
    then show ?thesis by simp
  qed
  then show ?thesis by (simp add: limbs26_def poly1305_init_def Let_def)
qed

lemma poly_ok_init: "poly_ok (poly1305_init key)"
  using limbs26_init [of key] wf_poly_init [of key]
  by (simp add: poly_ok_def) (simp add: poly1305_init_def Let_def poly_h_ok_def)

lemma poly_ok_block:
  "poly_ok st \<Longrightarrow> length m = 16 \<Longrightarrow> hibit = 0 \<or> hibit = 1 \<Longrightarrow> poly_ok (poly1305_block st m hibit)"
  using poly1305_block_value(2) [of st m hibit] wf_poly_block [of st m hibit] by (simp add: poly_ok_def)

lemma take_list_update_Suc: "n < length xs \<Longrightarrow> take (Suc n) (xs[n := x]) = take n xs @ [x]"
  by (simp add: take_Suc_conv_app_nth)

lemma poly1305_update_value:
  "poly_ok st \<Longrightarrow> poly1305_update st m = Some st' \<Longrightarrow>
    poly_ok st' \<and> po_r st' = po_r st \<and> po_pad st' = po_pad st \<and>
    poly_eval (val26 (po_r st)) (val26 (po_h st) mod P1305) (take (unat (po_buf_used st)) (po_buf st) @ m)
      = poly_eval (val26 (po_r st)) (val26 (po_h st') mod P1305) (take (unat (po_buf_used st')) (po_buf st'))"
proof (induction m arbitrary: st)
  case (Cons b m)
  define st1 where
    "st1 = (if po_buf_used st = 16 then (poly1305_block st (po_buf st) 1)\<lparr>po_buf_used := 0\<rparr> else st)"
  define u where "u = unat (po_buf_used st1)"
  have wf: "length (po_buf st) = 16" "unat (po_buf_used st) \<le> 16"
    using Cons.prems(1) by (simp_all add: poly_ok_def wf_poly_def)
  have ok1: "poly_ok st1" using Cons.prems(1) poly_ok_block [OF Cons.prems(1) wf(1), of 1]
    by (auto simp: st1_def poly_ok_def wf_poly_def)
  have c16: "po_buf_used st = 16 \<longleftrightarrow> unat (po_buf_used st) = 16"
    using unat_eqI [of "po_buf_used st" 16] by auto
  then have u16: "u < 16" using wf(2) by (auto simp: st1_def u_def)
  have len1: "length (po_buf st1) = 16" using wf(1) by (simp add: st1_def)
  have inc: "unat (po_buf_used st1 + 1) = u + 1" using u16 by (simp add: unat_word_ariths u_def)
  define st2 where "st2 = st1\<lparr>po_buf := (po_buf st1)[u := b], po_buf_used := po_buf_used st1 + 1\<rparr>"
  have ok2: "poly_ok st2" using ok1 u16 inc by (simp add: poly_ok_def wf_poly_def st2_def)
  have "poly1305_update st (b # m) = poly1305_update st2 m"
    using len1 u16 by (simp add: st1_def [symmetric] st2_def u_def)
  note IH = Cons.IH [OF ok2 trans [OF this [symmetric] Cons.prems(2)]]
  have t2: "take (unat (po_buf_used st2)) (po_buf st2) = take u (po_buf st1) @ [b]"
    using u16 len1 by (simp add: st2_def inc take_list_update_Suc)
  have same: "po_r st2 = po_r st" "po_pad st2 = po_pad st" "po_h st2 = po_h st1"
    by (simp_all add: st2_def st1_def)
  have e: "poly_eval (val26 (po_r st)) (val26 (po_h st) mod P1305) (take (unat (po_buf_used st)) (po_buf st) @ b # m)
      = poly_eval (val26 (po_r st)) (val26 (po_h st1) mod P1305) (take u (po_buf st1) @ b # m)"
  proof (cases "po_buf_used st = 16")
    case True
    have h: "poly_h_ok (po_h st)" and r: "limbs26 (po_r st)" using Cons.prems(1) by (simp_all add: poly_ok_def)
    have "val26 (po_h st1) mod P1305 = (val26 (po_h st) + (le_nat (po_buf st) + 2 ^ 128)) * val26 (po_r st) mod P1305"
      using poly1305_block_value(1) [OF h r wf(1), of 1] True by (simp add: st1_def)
    also have "\<dots> = (val26 (po_h st) mod P1305 + (le_nat (po_buf st) + 2 ^ 128)) * val26 (po_r st) mod P1305"
      by (metis mod_add_left_eq mod_mult_left_eq)
    finally show ?thesis
      using True wf(1) poly_eval_block [OF wf(1), of "val26 (po_r st)" "val26 (po_h st) mod P1305" "b # m"]
      by (simp add: u_def st1_def)
  qed (simp add: st1_def u_def)
  show ?case using IH e by (simp only: t2 same append_assoc append_Cons append_Nil) 
qed simp


lemma poly1305_finish_value:
  assumes ok: "poly_ok st" and u: "unat (po_buf_used st) < 16"
  shows "poly1305_finish st = Some (concat (map store32_le (map2 (+) (map (word_of_nat_at
     (poly_eval (val26 (po_r st)) (val26 (po_h st) mod P1305) (take (unat (po_buf_used st)) (po_buf st))))
     [0, 1, 2, 3]) (po_pad st))))"
proof (cases "po_buf_used st = 0")
  case True
  then show ?thesis using ok poly_tag_value [of "po_h st" "po_pad st"]
    by (simp add: poly1305_finish_def poly_ok_def)
next
  case False
  define n where "n = unat (po_buf_used st)"
  define x where "x = take n (po_buf st)"
  define pad where "pad = x @ [1] @ replicate (15 - n) 0"
  have len: "length (po_buf st) = 16" "length x = n" "n < 16"
    using ok u by (simp_all add: poly_ok_def wf_poly_def x_def n_def)
  have n0: "n \<noteq> 0" using False by (simp add: n_def unsigned_eq_0_iff)
  have xne: "x \<noteq> []" "length x \<le> 16" using len n0 by auto
  have lp: "length pad = 16" using len by (simp add: pad_def)
  have pv: "le_nat pad = le_nat x + 2 ^ (8 * n)" by (simp add: pad_def le_nat_append len)
  have upd: "(x @ replicate (16 - n) 0)[n := 1] = pad"
  proof -
    have "16 - n = Suc (15 - n)" using len(3) by simp
    then show ?thesis by (simp add: pad_def list_update_append len(2))
  qed
  have fin: "poly1305_finish st = Some (poly_tag (po_h (poly1305_block st pad 0)) (po_pad st))"
    using False len upd
    by (simp add: poly1305_finish_def rd_slice_def memcpy_at_def wr_def n_def [symmetric] x_def [symmetric])
  have h: "poly_h_ok (po_h st)" and r: "limbs26 (po_r st)" using ok by (simp_all add: poly_ok_def)
  have "val26 (po_h (poly1305_block st pad 0)) mod P1305
      = (val26 (po_h st) + (le_nat x + 2 ^ (8 * n))) * val26 (po_r st) mod P1305"
    using poly1305_block_value(1) [OF h r lp, of 0] by (simp only: pv, simp)
  also have "\<dots> = (val26 (po_h st) mod P1305 + (le_nat x + 2 ^ (8 * n))) * val26 (po_r st) mod P1305"
    by (metis mod_add_left_eq mod_mult_left_eq)
  also have "\<dots> = poly_eval (val26 (po_r st)) (val26 (po_h st) mod P1305) x"
    using poly_eval_last [OF xne, of "val26 (po_r st)" "val26 (po_h st) mod P1305"] len by (simp only:)
  finally show ?thesis
    unfolding fin using poly_tag_value [OF poly1305_block_value(2) [OF h r lp, of 0], of "po_pad st"]
    by (simp only: n_def [symmetric] x_def [symmetric] simp_thms)
qed

lemma poly1305_tag_words:
  assumes "msg = [] \<or> length msg mod 16 \<noteq> 0"
  shows "poly1305_tag key msg = Some (concat (map store32_le (map2 (+) (map (word_of_nat_at
     (poly_eval (val26 (po_r (poly1305_init key))) 0 msg)) [0, 1, 2, 3]) (po_pad (poly1305_init key)))))"
proof -
  obtain st where st: "poly1305_update (poly1305_init key) msg = Some st"
    "unat (po_buf_used st) = used_after 0 (length msg)"
    using poly1305_update_total [OF wf_poly_init, of key msg] by (auto simp: poly1305_init_def Let_def)
  have "used_after 0 (length msg) < 16"
  proof (cases "length msg")
    case (Suc n)
    then have "Suc n mod 16 \<noteq> 0" using assms by auto
    then have "n mod 16 < 15" by presburger
    then show ?thesis by (simp add: used_after_def Suc)
  qed (simp add: used_after_def)
  then have u: "unat (po_buf_used st) < 16" using st(2) by simp
  note v = poly1305_update_value [OF poly_ok_init st(1)]
  have i: "val26 (po_h (poly1305_init key)) = 0" "unat (po_buf_used (poly1305_init key)) = 0"
  proof -
    have r5: "replicate 5 (0 :: u32) = [0, 0, 0, 0, 0]" by (simp add: numeral_eq_Suc)
    have "po_h (poly1305_init key) = replicate 5 0" by (simp add: poly1305_init_def Let_def)
    then show "val26 (po_h (poly1305_init key)) = 0" by (simp only: r5) simp
  qed (simp add: poly1305_init_def Let_def)
  have pr: "po_r st = po_r (poly1305_init key)" "po_pad st = po_pad (poly1305_init key)"
    using v by blast+
  have "poly_eval (val26 (po_r st)) (val26 (po_h st) mod P1305) (take (unat (po_buf_used st)) (po_buf st))
      = poly_eval (val26 (po_r (poly1305_init key))) 0 msg"
    using v by (simp only: i mod_0 take_0 append_Nil)
  then have "poly1305_finish st = Some (concat (map store32_le (map2 (+) (map (word_of_nat_at
     (poly_eval (val26 (po_r (poly1305_init key))) 0 msg)) [0, 1, 2, 3]) (po_pad (poly1305_init key)))))"
    using poly1305_finish_value [OF v [THEN conjunct1] u] by (simp only: pr)
  then show ?thesis unfolding poly1305_tag_def st(1) by (simp only: Option.bind.bind_lunit)
qed

text \<open>The tag of RFC 8439: the sum of the polynomial and the second half of the key, as one number
  modulo \<open>2^128\<close>.\<close>

definition rfc8439_tag :: "bytes \<Rightarrow> bytes \<Rightarrow> bytes" where
  "rfc8439_tag key msg = concat (map store32_le (map (word_of_nat_at
     (poly_eval (val26 (po_r (poly1305_init key))) 0 msg + le_nat (take 16 (drop 16 key)))) [0, 1, 2, 3]))"

text \<open>C14: The tag of a message (empty or not of whole blocks) is the RFC 8439 polynomial of
  the message at the clamped key half, reduced modulo \<open>2^130 - 5\<close>, cut into four
  words, each of which is added to its word of the second key half modulo \<open>2^32\<close>.\<close>

theorem poly1305_tag_value:
  assumes "msg = [] \<or> length msg mod 16 \<noteq> 0"
  shows "poly1305_tag key msg = Some (concat (map store32_le (map2 (+) (map (word_of_nat_at
     (poly_eval (val26 (po_r (poly1305_init key))) 0 msg)) [0, 1, 2, 3]) (po_pad (poly1305_init key)))))"
  using assms by (rule poly1305_tag_words)

theorem poly1305_tag_value_witness:
  "poly1305_tag (replicate 32 0) [255] = Some (concat (map store32_le (map2 (+) (map (word_of_nat_at
     (poly_eval (val26 (po_r (poly1305_init (replicate 32 0)))) 0 [255])) [0, 1, 2, 3])
     (po_pad (poly1305_init (replicate 32 0))))))"
  by (rule poly1305_tag_value) simp

text \<open>The four word additions of the pad have no carry between them, so the code's tag is not
  the RFC 8439 tag: there are a key and a message on which they differ.\<close>

theorem poly1305_drops_carry:
  "\<exists>key msg. length key = 32 \<and> poly1305_tag key msg \<noteq> None \<and> poly1305_tag key msg \<noteq> Some (rfc8439_tag key msg)"
proof -
  define key :: bytes where "key = 1 # replicate 15 0 @ replicate 4 255 @ replicate 12 0"
  have k: "key = [1, 0, 0, 0, 0, 0, 0, 0, 0, 0, 0, 0, 0, 0, 0, 0, 255, 255, 255, 255, 0, 0, 0, 0, 0, 0, 0, 0,
    0, 0, 0, 0]" by (simp add: key_def numeral_eq_Suc)
  have r: "val26 (po_r (poly1305_init key)) = 1"
    by (simp add: poly1305_init_def Let_def k load32_le_of_le32 of_le32_def)
  have p: "po_pad (poly1305_init key) = [0xffffffff, 0, 0, 0]"
    by (simp add: poly1305_init_def Let_def k load32_le_of_le32 of_le32_def upt_rec)
  have e: "poly_eval 1 0 [255] = 511" by simp
  have n: "le_nat (take 16 (drop 16 key)) = 0xffffffff" by (simp add: k)
  note code = poly1305_tag_words [of "[255]" key, unfolded r p e]
  have rfc: "rfc8439_tag key [255] = concat (map store32_le (map (word_of_nat_at (511 + 0xffffffff)) [0, 1, 2, 3]))"
    by (simp only: rfc8439_tag_def r e n)
  have "the (poly1305_tag key [255]) ! 4 = 0"
    using code by (simp add: store32_le_def word_of_nat_at_def)
  moreover have "rfc8439_tag key [255] ! 4 = 1"
    unfolding rfc by (simp add: store32_le_def word_of_nat_at_def)
  ultimately have "poly1305_tag key [255] \<noteq> Some (rfc8439_tag key [255])" by auto
  moreover have "poly1305_tag key [255] \<noteq> None" using code by simp
  moreover have "length key = 32" by (simp add: k)
  ultimately show ?thesis by blast
qed

end
