(* ===== verification/Crypto_Session.thy ===== *)
theory Crypto_Session
  imports X25519 Poly1305_Correct Filum_Error Frame
begin

text \<open>
  The session layer of \<^verbatim>\<open>common/src/fl_crypto.c\<close>: key derivation, handshake and the
  authenticated encryption of a payload. The pointers that the code compares with NULL are
  options, the others are the arrays they point to.
\<close>

abbreviation FL_CRYPTO_KEY_SIZE :: nat where "FL_CRYPTO_KEY_SIZE \<equiv> 32"
abbreviation FL_CRYPTO_NONCE_SIZE :: nat where "FL_CRYPTO_NONCE_SIZE \<equiv> 12"
abbreviation FL_CRYPTO_TAG_SIZE :: nat where "FL_CRYPTO_TAG_SIZE \<equiv> 16"

record FLCryptoCtx =
  cc_private_key :: bytes
  cc_public_key :: bytes
  cc_session_key :: bytes
  cc_handshake_done :: u8
  cc_encrypt_enabled :: u8

definition wf_crypto :: "FLCryptoCtx \<Rightarrow> bool" where
  "wf_crypto c \<longleftrightarrow> length (cc_private_key c) = FL_CRYPTO_KEY_SIZE
     \<and> length (cc_public_key c) = FL_CRYPTO_KEY_SIZE \<and> length (cc_session_key c) = FL_CRYPTO_KEY_SIZE"

section \<open>The operations\<close>

definition kdf :: "bytes \<Rightarrow> u16 \<Rightarrow> bytes option" where
  "kdf shared shard_id =
     (let nonce = (replicate 12 0)[0 := ucast shard_id, 1 := ucast (drop_bit 8 shard_id), 2 := 0xF1, 3 := 1]
      in chacha20_xor shared nonce 0 (replicate 32 0) 32)"

definition crypto_test_seed :: bytes where
  "crypto_test_seed =
     [0x77, 0x07, 0x6d, 0x0a, 0x73, 0x18, 0xa5, 0x7d, 0x3c, 0x16, 0xc1, 0x72, 0x51, 0xb2, 0x66, 0x45,
      0xdf, 0x4c, 0x2f, 0x87, 0xeb, 0xc0, 0x99, 0x2a, 0xb1, 0x77, 0xfb, 0xa5, 0x1d, 0xb9, 0x2c, 0x2a]"

text \<open>The old contents of the context are overwritten.\<close>

definition fl_crypto_init :: "bytes ptr \<Rightarrow> FLCryptoCtx option" where
  "fl_crypto_init seed =
     do { k \<leftarrow> rd_slice (case seed of None \<Rightarrow> crypto_test_seed | Some s \<Rightarrow> s) 0 32;
          let k = k[0 := k ! 0 AND 248];
          let k = k[31 := k ! 31 AND 127];
          let k = k[31 := k ! 31 OR 64];
          Some \<lparr>cc_private_key = k, cc_public_key = x25519 k BASE_POINT,
                cc_session_key = replicate 32 0, cc_handshake_done = 0, cc_encrypt_enabled = 1\<rparr> }"

definition fl_crypto_handshake ::
  "FLCryptoCtx ptr \<Rightarrow> bytes ptr \<Rightarrow> (FLError \<times> FLCryptoCtx ptr) option" where
  "fl_crypto_handshake ctx peer_pubkey =
     (case (ctx, peer_pubkey) of
        (Some c, Some peer) \<Rightarrow> do {
          p \<leftarrow> rd_slice peer 0 32;
          let shared = x25519 (cc_private_key c) p;
          let z = fold_lt 32 (\<lambda>i z. z OR shared ! i) 0;
          if z = 0 then Some (FL_ERR_AUTH, ctx)
          else do {
            k \<leftarrow> kdf shared 0;
            Some (FL_OK, Some (c\<lparr>cc_session_key := k, cc_handshake_done := 1\<rparr>)) } }
      | _ \<Rightarrow> Some (FL_ERR_INVALID_ARG, ctx))"

definition fl_crypto_make_nonce :: "u8 \<Rightarrow> u8 \<Rightarrow> u16 \<Rightarrow> bytes" where
  "fl_crypto_make_nonce round_id frag_index shard_id =
     (replicate FL_CRYPTO_NONCE_SIZE 0)[0 := round_id, 1 := frag_index, 2 := ucast shard_id,
       3 := ucast (drop_bit 8 shard_id)]"

definition crypto_ready :: "FLCryptoCtx \<Rightarrow> bool" where
  "crypto_ready c \<longleftrightarrow> cc_encrypt_enabled c \<noteq> 0 \<and> cc_handshake_done c \<noteq> 0"

text \<open>Encryption gives the new buffer and the tag.\<close>

definition fl_crypto_encrypt :: "FLCryptoCtx \<Rightarrow> bytes \<Rightarrow> u16 \<Rightarrow> bytes \<Rightarrow> (bytes \<times> bytes) option" where
  "fl_crypto_encrypt ctx buf len nonce =
     (if \<not> crypto_ready ctx then Some (buf, replicate FL_CRYPTO_TAG_SIZE 0)
      else do {
        poly_key \<leftarrow> chacha20_xor (cc_session_key ctx) nonce 0 (replicate 32 0) 32;
        buf \<leftarrow> chacha20_xor (cc_session_key ctx) nonce 1 buf len;
        m \<leftarrow> rd_slice buf 0 (unat len);
        tag \<leftarrow> poly1305_tag poly_key m;
        Some (buf, tag) })"

definition fl_crypto_decrypt ::
  "FLCryptoCtx ptr \<Rightarrow> bytes ptr \<Rightarrow> u16 \<Rightarrow> bytes ptr \<Rightarrow> bytes ptr \<Rightarrow> (FLError \<times> bytes ptr) option" where
  "fl_crypto_decrypt ctx buf len nonce tag =
     (case (ctx, buf, nonce, tag) of
        (Some c, Some b, Some n, Some t) \<Rightarrow>
          if \<not> crypto_ready c then Some (FL_OK, buf)
          else do {
            poly_key \<leftarrow> chacha20_xor (cc_session_key c) n 0 (replicate 32 0) 32;
            m \<leftarrow> rd_slice b 0 (unat len);
            expected \<leftarrow> poly1305_tag poly_key m;
            diff \<leftarrow> for_lt 16 (\<lambda>i d. do { x \<leftarrow> rd t i; y \<leftarrow> rd expected i; Some (d OR (x XOR y)) }) 0;
            if diff \<noteq> 0 then Some (FL_ERR_AUTH, buf)
            else do {
              b \<leftarrow> chacha20_xor (cc_session_key c) n 1 b len;
              Some (FL_OK, Some b) } }
      | _ \<Rightarrow> Some (FL_ERR_INVALID_ARG, buf))"

section \<open>Lemmas\<close>

lemma or_eq_0_iff: "a OR b = 0 \<longleftrightarrow> a = 0 \<and> b = 0" for a b :: "'a::len word"
  by (metis or_eq_0_iff)

lemma fold_or_zero: "fold_lt n (\<lambda>i z. z OR (xs ! i :: u8)) 0 = 0 \<longleftrightarrow> (\<forall>i < n. xs ! i = 0)"
  by (induction n) (auto simp: or_eq_0_iff less_Suc_eq)

lemma le_nat_zero: "(\<forall>i < length xs. xs ! i = 0) \<Longrightarrow> le_nat xs = 0"
proof (induction xs)
  case (Cons x xs)
  then have "x = 0" "\<forall>i < length xs. xs ! i = 0" by auto
  then show ?case using Cons.IH by simp
qed simp

lemma kdf_total: obtains k where "kdf shared sid = Some k" and "length k = 32"
proof -
  obtain k where "chacha20_xor shared ((replicate 12 0)[0 := ucast sid, 1 := ucast (drop_bit 8 sid), 2 := 0xF1, 3 := 1])
      0 (replicate 32 0) 32 = Some k" "length k = length (replicate 32 (0 :: u8))"
    using chacha20.crypt_total [of 32 "replicate 32 0"] by fastforce
  then show ?thesis using that by (simp add: kdf_def)
qed

lemma poly_key_total: obtains k where "chacha20_xor key nonce 0 (replicate 32 0) 32 = Some k" and "length k = 32"
  using chacha20.crypt_total [of 32 "replicate 32 0" key nonce 0] by auto

lemma length_poly_tag: "poly1305_tag key m = Some t \<Longrightarrow> length t = 16"
proof -
  assume t: "poly1305_tag key m = Some t"
  then have m: "m = [] \<or> length m mod 16 \<noteq> 0" using poly1305_tag_defined [of key m] by simp
  have "length (po_pad (poly1305_init key)) = 4" by (simp add: poly1305_init_def Let_def)
  then obtain a b c d where "po_pad (poly1305_init key) = [a, b, c, d]"
    by (auto simp: numeral_eq_Suc length_Suc_conv)
  then show ?thesis using t poly1305_tag_words [OF m, of key] by auto
qed

lemma tag_compare:
  assumes "length t = 16" "length e = 16"
  shows "\<exists>d. for_lt 16 (\<lambda>i d. do { x \<leftarrow> rd t i; y \<leftarrow> rd e i; Some (d OR (x XOR y)) }) (0 :: u8) = Some d
    \<and> (d = 0 \<longleftrightarrow> t = e)"
proof -
  have "\<exists>d. for_lt 16 (\<lambda>i d. do { x \<leftarrow> rd t i; y \<leftarrow> rd e i; Some (d OR (x XOR y)) }) 0 = Some d
    \<and> (d = 0 \<longleftrightarrow> (\<forall>i < 16. t ! i = e ! i))"
    by (rule for_lt_inv [where P = "\<lambda>n d. d = 0 \<longleftrightarrow> (\<forall>i < n. t ! i = e ! i)"])
       (use assms in \<open>auto simp: or_eq_0_iff less_Suc_eq\<close>)
  then show ?thesis using assms by (metis nth_equalityI)
qed

text \<open>The parts of an encryption, when the session is ready.\<close>

lemma encryptE:
  assumes "crypto_ready c" and "fl_crypto_encrypt c buf len nonce = Some (ct, tag)"
  obtains pk where "chacha20_xor (cc_session_key c) nonce 0 (replicate 32 0) 32 = Some pk"
    and "chacha20_xor (cc_session_key c) nonce 1 buf len = Some ct"
    and "unat len \<le> length ct" and "poly1305_tag pk (take (unat len) ct) = Some tag"
  using assms by (auto simp: fl_crypto_encrypt_def bind_eq_Some_conv rd_slice_def split: if_splits)

text \<open>Decryption, when the session is ready, is decided by the tag.\<close>

lemma decrypt_ready:
  assumes r: "crypto_ready c" and pk: "chacha20_xor (cc_session_key c) nonce 0 (replicate 32 0) 32 = Some pk"
    and l: "unat len \<le> length buf" and e: "poly1305_tag pk (take (unat len) buf) = Some e" and t: "length tag = 16"
  shows "fl_crypto_decrypt (Some c) (Some buf) len (Some nonce) (Some tag)
    = (if tag = e then map_option (\<lambda>b. (FL_OK, Some b)) (chacha20_xor (cc_session_key c) nonce 1 buf len)
       else Some (FL_ERR_AUTH, Some buf))"
proof -
  obtain d where "for_lt 16 (\<lambda>i d. do { x \<leftarrow> rd tag i; y \<leftarrow> rd e i; Some (d OR (x XOR y)) }) (0 :: u8) = Some d"
    "d = 0 \<longleftrightarrow> tag = e"
    using tag_compare [OF t length_poly_tag [OF e]] by blast
  then show ?thesis using r pk l e
    by (simp add: fl_crypto_decrypt_def rd_slice_def map_option_case split: option.split)
qed

lemma crypto_encrypt_defined:
  assumes "crypto_ready c" and "unat len \<le> length buf"
  shows "fl_crypto_encrypt c buf len nonce \<noteq> None \<longleftrightarrow> len = 0 \<or> unat len mod 16 \<noteq> 0"
proof -
  obtain pk where pk: "chacha20_xor (cc_session_key c) nonce 0 (replicate 32 0) 32 = Some pk"
    by (rule poly_key_total)
  obtain ct where ct: "chacha20_xor (cc_session_key c) nonce 1 buf len = Some ct" "length ct = length buf"
    using chacha20.crypt_total [OF assms(2)] by blast
  have l0: "unat len = 0 \<longleftrightarrow> len = 0" by (simp add: unsigned_eq_0_iff)
  have "fl_crypto_encrypt c buf len nonce \<noteq> None \<longleftrightarrow> poly1305_tag pk (take (unat len) ct) \<noteq> None"
    using assms ct(2) by (auto simp: fl_crypto_encrypt_def pk ct(1) rd_slice_def split: Option.bind_splits)
  also have "\<dots> \<longleftrightarrow> len = 0 \<or> unat len mod 16 \<noteq> 0"
    unfolding poly1305_tag_defined using assms(2) ct(2) l0 by auto
  finally show ?thesis .
qed

text \<open>A session for the examples.\<close>

definition sample_session :: FLCryptoCtx where
  "sample_session = \<lparr>cc_private_key = replicate 32 1, cc_public_key = replicate 32 2,
     cc_session_key = replicate 32 3, cc_handshake_done = 1, cc_encrypt_enabled = 1\<rparr>"

lemma sample_session_ready [simp]: "crypto_ready sample_session"
  by (simp add: crypto_ready_def sample_session_def)

text \<open>C24: Authenticated encryption is undone by decryption: whenever encrypting a payload in a
  ready session is defined, decrypting the result with the produced tag, in the same session and
  with the same nonce, gives \<^verbatim>\<open>FL_OK\<close> and the payload back.\<close>

theorem crypto_roundtrip:
  assumes "unat len \<le> length buf" and "fl_crypto_encrypt c buf len nonce = Some (ct, tag)"
    and "crypto_ready c"
  shows "fl_crypto_decrypt (Some c) (Some ct) len (Some nonce) (Some tag) = Some (FL_OK, Some buf)"
proof -
  obtain pk where pk: "chacha20_xor (cc_session_key c) nonce 0 (replicate 32 0) 32 = Some pk"
    and ct: "chacha20_xor (cc_session_key c) nonce 1 buf len = Some ct"
    and l: "unat len \<le> length ct" and tag: "poly1305_tag pk (take (unat len) ct) = Some tag"
    by (rule encryptE [OF assms(3,2)])
  have "chacha20_xor (cc_session_key c) nonce 1 ct len = Some buf"
    using assms(1) ct by (rule chacha20.crypt_involution)
  then show ?thesis using decrypt_ready [OF assms(3) pk l tag length_poly_tag [OF tag]] by simp
qed

theorem crypto_roundtrip_witness:
  "\<exists>ct tag. fl_crypto_encrypt sample_session [1, 2, 3] 3 (replicate 12 0) = Some (ct, tag)
    \<and> fl_crypto_decrypt (Some sample_session) (Some ct) 3 (Some (replicate 12 0)) (Some tag)
      = Some (FL_OK, Some [1, 2, 3])"
proof -
  have "fl_crypto_encrypt sample_session [1, 2, 3] 3 (replicate 12 0) \<noteq> None"
    by (subst crypto_encrypt_defined) simp_all
  then obtain ct tag where e: "fl_crypto_encrypt sample_session [1, 2, 3] 3 (replicate 12 0) = Some (ct, tag)"
    by auto
  have "fl_crypto_decrypt (Some sample_session) (Some ct) 3 (Some (replicate 12 0)) (Some tag)
      = Some (FL_OK, Some [1, 2, 3])"
    by (rule crypto_roundtrip [OF _ e]) simp_all
  then show ?thesis using e by blast
qed

text \<open>C12: Tampering is detected before anything is decrypted: in a ready session every tag but the
  one the authenticator computes for the received bytes is answered \<^verbatim>\<open>FL_ERR_AUTH\<close>, and the
  buffer is left as it was.\<close>

theorem crypto_tamper_rejected:
  assumes "crypto_ready c" and "chacha20_xor (cc_session_key c) nonce 0 (replicate 32 0) 32 = Some pk"
    and "unat len \<le> length buf" and "unat len = 0 \<or> unat len mod 16 \<noteq> 0" and "length tag = 16"
    and "poly1305_tag pk (take (unat len) buf) \<noteq> Some tag"
  shows "fl_crypto_decrypt (Some c) (Some buf) len (Some nonce) (Some tag) = Some (FL_ERR_AUTH, Some buf)"
proof -
  have "poly1305_tag pk (take (unat len) buf) \<noteq> None"
    using poly1305_tag_defined [of pk "take (unat len) buf"] assms(3,4) by auto
  then obtain e where e: "poly1305_tag pk (take (unat len) buf) = Some e" by blast
  then show ?thesis using decrypt_ready [OF assms(1-3) e assms(5)] assms(6) by auto
qed

theorem crypto_tamper_rejected_witness:
  "\<exists>tag. fl_crypto_decrypt (Some sample_session) (Some [7]) 1 (Some (replicate 12 0)) (Some tag)
    = Some (FL_ERR_AUTH, Some [7])"
proof -
  obtain pk where pk: "chacha20_xor (cc_session_key sample_session) (replicate 12 0) 0 (replicate 32 0) 32 = Some pk"
    by (rule poly_key_total)
  obtain tag :: bytes where "length tag = 16" "poly1305_tag pk (take (unat (1 :: u16)) [7]) \<noteq> Some tag"
  proof (cases "poly1305_tag pk (take (unat (1 :: u16)) [7]) = Some (replicate 16 0)")
    case True
    then have "poly1305_tag pk (take (unat (1 :: u16)) [7]) \<noteq> Some (replicate 16 1)"
      by (simp add: numeral_eq_Suc)
    then show ?thesis by (rule that [rotated]) simp
  next
    case False
    then show ?thesis by (rule that [rotated]) simp
  qed
  then have "fl_crypto_decrypt (Some sample_session) (Some [7]) 1 (Some (replicate 12 0)) (Some tag)
    = Some (FL_ERR_AUTH, Some [7])"
    by (intro crypto_tamper_rejected [OF sample_session_ready pk]) simp_all
  then show ?thesis by blast
qed

text \<open>C38: Encryption of a payload that is not empty and a whole number of 16-byte blocks writes
  behind the padding buffer of the authenticator; for every other length it is defined.\<close>

theorem crypto_encrypt_defined_iff:
  assumes "crypto_ready c" and "unat len \<le> length buf"
  shows "fl_crypto_encrypt c buf len nonce \<noteq> None \<longleftrightarrow> len = 0 \<or> unat len mod 16 \<noteq> 0"
  using assms by (rule crypto_encrypt_defined)

theorem crypto_encrypt_defined_iff_witness:
  "fl_crypto_encrypt sample_session (replicate 20 7) 16 (replicate 12 0) = None
   \<and> fl_crypto_encrypt sample_session (replicate 20 7) 17 (replicate 12 0) \<noteq> None"
  using crypto_encrypt_defined_iff [of sample_session 16 "replicate 20 7" "replicate 12 0"]
    crypto_encrypt_defined_iff [of sample_session 17 "replicate 20 7" "replicate 12 0"]
  by (simp del: not_None_eq)

lemma handshake_installs:
  assumes "wf_crypto c" and "length peer = 32"
  shows "\<exists>k. fl_crypto_handshake (Some c) (Some peer)
    = Some (FL_OK, Some (c\<lparr>cc_session_key := k, cc_handshake_done := 1\<rparr>)) \<and> length k = 32"
proof -
  have l: "length (cc_private_key c) = 32" using assms(1) by (simp add: wf_crypto_def)
  let ?s = "x25519 (cc_private_key c) peer"
  have "fold_lt 32 (\<lambda>i z. z OR ?s ! i) 0 \<noteq> 0"
    using le_nat_zero [of ?s] x25519_nonzero [OF l assms(2)] x25519_length [OF l assms(2)]
    by (auto simp: fold_or_zero)
  moreover obtain k where "kdf ?s 0 = Some k" "length k = 32" by (rule kdf_total)
  ultimately have "fl_crypto_handshake (Some c) (Some peer)
    = Some (FL_OK, Some (c\<lparr>cc_session_key := k, cc_handshake_done := 1\<rparr>)) \<and> length k = 32"
    using assms(2) by (simp add: fl_crypto_handshake_def Let_def)
  then show ?thesis by blast
qed

text \<open>C39: The check for a low-order point never fires: whatever the peer's 32 bytes are, the
  all-zero and the low-order points included, the shared secret the ladder writes is not all
  zero, and the handshake succeeds and installs a session key.\<close>

theorem handshake_never_rejects:
  assumes "wf_crypto c" and "length peer = 32"
  shows "\<exists>k. fl_crypto_handshake (Some c) (Some peer)
    = Some (FL_OK, Some (c\<lparr>cc_session_key := k, cc_handshake_done := 1\<rparr>)) \<and> length k = 32"
  by (rule handshake_installs [OF assms])

theorem handshake_never_rejects_witness:
  "\<exists>k. fl_crypto_handshake (Some sample_session) (Some (replicate 32 0))
    = Some (FL_OK, Some (sample_session\<lparr>cc_session_key := k, cc_handshake_done := 1\<rparr>)) \<and> length k = 32"
  by (rule handshake_never_rejects) (simp_all add: sample_session_def wf_crypto_def)

text \<open>Without a session nothing is protected: encryption leaves the payload in the clear with
  an all-zero tag, and decryption accepts any bytes under any tag with \<^verbatim>\<open>FL_OK\<close> (the header
  promises \<^verbatim>\<open>FL_ERR_NO_SESSION\<close>).\<close>

theorem no_session_accepts_all:
  assumes "\<not> crypto_ready c"
  shows "fl_crypto_encrypt c buf len nonce = Some (buf, replicate 16 0)
    \<and> fl_crypto_decrypt (Some c) (Some buf') len' (Some nonce') (Some tag') = Some (FL_OK, Some buf')"
  using assms by (simp add: fl_crypto_encrypt_def fl_crypto_decrypt_def)

text \<open>Nonces are unique within 256 rounds: the nonce determines the round number, the fragment
  and the shard. After 256 rounds they repeat, because the round number is a byte.\<close>

theorem nonce_injective:
  "fl_crypto_make_nonce r f s = fl_crypto_make_nonce r' f' s' \<longleftrightarrow> r = r' \<and> f = f' \<and> s = s'"
proof
  assume "fl_crypto_make_nonce r f s = fl_crypto_make_nonce r' f' s'"
  then have "r = r'" "f = f'" "le16 s = le16 s'"
    by (simp_all add: fl_crypto_make_nonce_def le16_def numeral_eq_Suc)
  then show "r = r' \<and> f = f' \<and> s = s'" by simp
qed simp

end
