(* ===== verification/Shard.thy ===== *)
theory Shard
  imports Hal Train Sparse Dp Crypto_Session
begin

text \<open>
  The shard: its state machine, \<^verbatim>\<open>shard/src/fl_shard.c\<close>. A step works on the shard, on the
  static buffers of the training code and on the environment behind the hardware abstraction. The
  function that supplies training samples, which the code declares \<^verbatim>\<open>extern\<close>, is the parameter
  \<open>user_cb\<close>, the functions of \<^verbatim>\<open>math.h\<close> are the parameter \<open>lm\<close>, and \<open>junk\<close> stands for the contents
  of local variables before they are written. The format strings leave out the final newline.
\<close>

section \<open>State\<close>

abbreviation FL_SHARD_RX_BUFFER_SIZE :: nat where "FL_SHARD_RX_BUFFER_SIZE \<equiv> FL_FRAME_MAX_SIZE"
abbreviation FL_SHARD_RECV_TIMEOUT_MS :: u32 where "FL_SHARD_RECV_TIMEOUT_MS \<equiv> 2000"
abbreviation FL_SHARD_TOPK_RATIO :: u16 where "FL_SHARD_TOPK_RATIO \<equiv> 10"

datatype FLShardState =
  FL_SHARD_STATE_IDLE | FL_SHARD_STATE_TRAINING | FL_SHARD_STATE_ENCODING | FL_SHARD_STATE_TX
| FL_SHARD_STATE_AWAIT_ACK | FL_SHARD_STATE_RECV_DELTA | FL_SHARD_STATE_ERROR

text \<open>The model behind the shard's pointer is a field.\<close>

record 'e FLShard =
  sh_shard_id :: u16
  sh_current_round :: u8
  sh_hal :: "'e FLHal"
  sh_model :: FLModel
  sh_update_buf :: FLSparseBuffer
  sh_delta_buf :: FLSparseBuffer
  sh_residual :: "f32 list"
  sh_tx_frag_sent :: u8
  sh_tx_frag_total :: u8
  sh_tx_duty_reset_ms :: u32
  sh_rx_frag_recv :: u8
  sh_rx_frag_total :: u8
  sh_beacon :: FLBeaconPayload
  sh_state :: FLShardState
  sh_tx_buf :: bytes
  sh_rx_buf :: bytes
  sh_dp :: FLDPConfig
  sh_crypto :: FLCryptoCtx
  sh_rounds_completed :: u32
  sh_tx_errors :: u32
  sh_rx_errors :: u32

record 'e sys =
  sy_shard :: "'e FLShard"
  sy_train :: train_state
  sy_env :: 'e

record locals =
  jk_frame :: FLFrame
  jk_payload :: bytes
  jk_floats :: "f32 list"
  jk_bytes :: bytes

text \<open>\<^verbatim>\<open>memset(shard, 0, sizeof(FLShard))\<close> and the assignments after it.\<close>

definition zero_sparse :: FLSparseBuffer where
  "zero_sparse = \<lparr>sb_entries = replicate FL_SPARSE_MAX_ENTRIES \<lparr>ge_param_index = 0, ge_delta_q8 = 0\<rparr>,
     sb_count = 0\<rparr>"

definition zero_shard :: "'e FLHal \<Rightarrow> u16 \<Rightarrow> FLModel \<Rightarrow> 'e FLShard" where
  "zero_shard hal shard_id model =
     \<lparr>sh_shard_id = shard_id, sh_current_round = 0, sh_hal = hal, sh_model = model,
      sh_update_buf = zero_sparse, sh_delta_buf = zero_sparse,
      sh_residual = replicate FL_MODEL_MAX_PARAMS 0,
      sh_tx_frag_sent = 0, sh_tx_frag_total = 0, sh_tx_duty_reset_ms = 0,
      sh_rx_frag_recv = 0, sh_rx_frag_total = 0,
      sh_beacon = \<lparr>bp_round_id = 0, bp_window_seconds = 0, bp_model_param_count = 0, bp_min_shards = 0,
        bp_local_epochs = 0, bp_learning_rate = 0, bp_dp_sigma = 0\<rparr>,
      sh_state = FL_SHARD_STATE_IDLE,
      sh_tx_buf = replicate FL_FRAME_MAX_SIZE 0, sh_rx_buf = replicate FL_SHARD_RX_BUFFER_SIZE 0,
      sh_dp = \<lparr>dp_epsilon = 0, dp_delta = 0, dp_sensitivity = 0, dp_sigma = 0, dp_dp_enabled = 0,
        dp_rounds_spent = 0\<rparr>,
      sh_crypto = \<lparr>cc_private_key = replicate 32 0, cc_public_key = replicate 32 0,
        cc_session_key = replicate 32 0, cc_handshake_done = 0, cc_encrypt_enabled = 0\<rparr>,
      sh_rounds_completed = 0, sh_tx_errors = 0, sh_rx_errors = 0\<rparr>"

section \<open>Helpers\<close>

definition shard_log :: "'e FLShard \<Rightarrow> string \<Rightarrow> 'e \<Rightarrow> 'e" where
  "shard_log s msg e =
     hal_print (sh_hal s) ''[Shard %04X] %s'' [Log_Int (uint (sh_shard_id s)), Log_Str msg] e"

text \<open>The bytes of the frame structure are handed to the radio, which reads \<^verbatim>\<open>wire_len\<close> of them.\<close>

definition shard_tx_frame ::
  "FLFrame \<Rightarrow> 'e FLShard \<Rightarrow> FLFrameType \<Rightarrow> bytes \<Rightarrow> u8 \<Rightarrow> u8 \<Rightarrow> u8 \<Rightarrow> 'e \<Rightarrow> (int \<times> 'e) option" where
  "shard_tx_frame junk shard type payload payload_len frag_index frags e =
     do { (err, f) \<leftarrow> fl_frame_encode (Some junk) type (sh_shard_id shard) (sh_current_round shard)
            frag_index frags (Some payload) payload_len;
          f \<leftarrow> f;
          if err \<noteq> FL_OK then Some (FL_HAL_ERROR, e)
          else do {
            f \<leftarrow> (if crypto_ready (sh_crypto shard) \<and> type = FL_FRAME_UPDATE \<and> 0 < payload_len then do {
                   let nonce = fl_crypto_make_nonce (sh_current_round shard) frag_index (sh_shard_id shard);
                   (p, tag) \<leftarrow> fl_crypto_encrypt (sh_crypto shard) (fr_payload f) (ucast payload_len) nonce;
                   let f = f\<lparr>fr_payload := p\<rparr>;
                   if unat payload_len + FL_CRYPTO_TAG_SIZE \<le> FL_PAYLOAD_MAX then do {
                     p \<leftarrow> memcpy_at (fr_payload f) (unat payload_len) tag;
                     Some (f\<lparr>fr_payload := p\<rparr>) }
                   else Some f }
                 else Some f);
            let wire_len = (of_nat (FL_HEADER_SIZE + unat payload_len) :: u8);
            hal_lora_send (sh_hal shard) (frame_bytes f) wire_len e } }"

section \<open>Start\<close>

definition fl_shard_init ::
  "bytes \<Rightarrow> 'e FLShard ptr \<Rightarrow> 'e FLHal ptr \<Rightarrow> u16 \<Rightarrow> FLModel ptr \<Rightarrow> 'e
    \<Rightarrow> (FLError \<times> 'e FLShard ptr \<times> 'e) option" where
  "fl_shard_init junk shard hal shard_id model e =
     (case (shard, hal, model) of
        (Some _, Some h, Some m) \<Rightarrow> do {
          let needed = unat (md_total_params m) * 4;
          (m, e) \<leftarrow> (case hal_nvs_read h of
              None \<Rightarrow> Some (m, e)
            | Some nvs_read \<Rightarrow> do {
                (ret, buf, e) \<leftarrow> nvs_read 0 junk needed e;
                if ret = 0 then do {
                  (_, m') \<leftarrow> fl_model_load (Some m) (Some buf) needed;
                  m' \<leftarrow> m';
                  Some (m', e) }
                else Some (m, e) });
          let s = zero_shard h shard_id m;
          Some (FL_OK, Some s, shard_log s ''init OK'' e) }
      | _ \<Rightarrow> Some (FL_ERR_INVALID_ARG, shard, e))"

section \<open>Reception\<close>

text \<open>The cases of \<^verbatim>\<open>fl_shard_on_rx\<close>, each for a decoded frame.\<close>

definition on_beacon :: "FLFrame \<Rightarrow> 'e sys \<Rightarrow> 'e sys option" where
  "on_beacon frame y =
     do { bp \<leftarrow> rd_beacon (fr_payload frame);
          let s = (sy_shard y)\<lparr>sh_beacon := bp, sh_current_round := bp_round_id bp,
                    sh_state := FL_SHARD_STATE_TRAINING\<rparr>;
          Some (y\<lparr>sy_shard := s, sy_env := shard_log s ''beacon received -> TRAINING'' (sy_env y)\<rparr>) }"

text \<open>All fragments of the delta have arrived: it is applied and stored.\<close>

definition apply_delta :: "locals \<Rightarrow> 'e sys \<Rightarrow> 'e sys option" where
  "apply_delta junk y =
     (let s = sy_shard y in do {
        delta_dense \<leftarrow> fl_sparse_decode (sh_delta_buf s) (jk_floats junk) (md_total_params (sh_model s)) False;
        m \<leftarrow> fl_model_apply_delta (sh_model s) delta_dense (md_total_params (sh_model s));
        let s = s\<lparr>sh_model := m\<rparr>;
        let e = shard_log s ''delta applied -> IDLE'' (sy_env y);
        let s = s\<lparr>sh_state := FL_SHARD_STATE_IDLE\<rparr>;
        e \<leftarrow> (case hal_nvs_write (sh_hal s) of
            None \<Rightarrow> Some e
          | Some nvs_write \<Rightarrow> do {
              let needed = unat (md_total_params m) * 4;
              buf \<leftarrow> fl_model_save m (jk_bytes junk) needed;
              (_, e) \<leftarrow> nvs_write 0 buf needed e;
              Some e });
        Some (y\<lparr>sy_shard := s, sy_env := e\<rparr>) })"

definition on_delta :: "locals \<Rightarrow> nat \<Rightarrow> FLFrame \<Rightarrow> 'e sys \<Rightarrow> 'e sys option" where
  "on_delta junk raw_len frame y =
     (let s = sy_shard y in
      if sh_state s \<noteq> FL_SHARD_STATE_RECV_DELTA then Some y
      else do {
        let s = (if fr_frag_index frame = 0
                 then s\<lparr>sh_delta_buf := zero_sparse, sh_rx_frag_total := fr_frag_total frame\<rparr> else s);
        (_, buf) \<leftarrow> fl_sparse_read_fragment (fr_payload frame) (of_nat (raw_len - FL_HEADER_SIZE)) (sh_delta_buf s);
        let s = s\<lparr>sh_delta_buf := buf\<rparr>;
        let s = s\<lparr>sh_rx_frag_recv := sh_rx_frag_recv s + 1\<rparr>;
        if sh_rx_frag_total s \<le> sh_rx_frag_recv s then apply_delta junk (y\<lparr>sy_shard := s\<rparr>)
        else Some (y\<lparr>sy_shard := s\<rparr>) })"

definition on_ack :: "'e sys \<Rightarrow> 'e sys" where
  "on_ack y =
     (let s = sy_shard y in
      if sh_state s \<noteq> FL_SHARD_STATE_AWAIT_ACK then y
      else let s = s\<lparr>sh_rounds_completed := sh_rounds_completed s + 1, sh_state := FL_SHARD_STATE_RECV_DELTA,
                 sh_rx_frag_recv := 0, sh_rx_frag_total := 0, sh_delta_buf := zero_sparse\<rparr>
           in y\<lparr>sy_shard := s, sy_env := shard_log s ''ACK received -> RECV_DELTA'' (sy_env y)\<rparr>)"

definition on_round_close :: "FLFrame \<Rightarrow> 'e sys \<Rightarrow> 'e sys option" where
  "on_round_close frame y =
     do { _ \<leftarrow> rd_round_close (fr_payload frame);
          let s = (sy_shard y)\<lparr>sh_state := FL_SHARD_STATE_IDLE\<rparr>;
          Some (y\<lparr>sy_shard := s, sy_env := shard_log s ''round closed -> IDLE'' (sy_env y)\<rparr>) }"

definition on_handshake_ack :: "FLFrame \<Rightarrow> 'e sys \<Rightarrow> 'e sys option" where
  "on_handshake_ack frame y =
     (let s = sy_shard y in
      if cc_encrypt_enabled (sh_crypto s) \<noteq> 0 \<and> cc_handshake_done (sh_crypto s) = 0 then do {
        public_key \<leftarrow> rd_slice (fr_payload frame) 0 32;
        (_, c) \<leftarrow> fl_crypto_handshake (Some (sh_crypto s)) (Some public_key);
        c \<leftarrow> c;
        let s = s\<lparr>sh_crypto := c\<rparr>;
        Some (y\<lparr>sy_shard := s, sy_env := shard_log s ''ECDH handshake complete'' (sy_env y)\<rparr>) }
      else Some y)"

definition fl_shard_on_rx :: "locals \<Rightarrow> bytes \<Rightarrow> nat \<Rightarrow> 'e sys \<Rightarrow> 'e sys option" where
  "fl_shard_on_rx junk raw raw_len y =
     do { (err, frame) \<leftarrow> fl_frame_decode (Some raw) raw_len (Some (jk_frame junk));
          frame \<leftarrow> frame;
          if err \<noteq> FL_OK then Some (y\<lparr>sy_shard := (sy_shard y)\<lparr>sh_rx_errors := sh_rx_errors (sy_shard y) + 1\<rparr>\<rparr>)
          else (case frame_type_of (fr_type frame) of
              Some FL_FRAME_BEACON \<Rightarrow> on_beacon frame y
            | Some FL_FRAME_DELTA \<Rightarrow> on_delta junk raw_len frame y
            | Some FL_FRAME_ACK \<Rightarrow> Some (on_ack y)
            | Some FL_FRAME_ROUND_CLOSE \<Rightarrow> on_round_close frame y
            | Some FL_FRAME_HANDSHAKE_ACK \<Rightarrow> on_handshake_ack frame y
            | _ \<Rightarrow> Some y) }"

section \<open>The state machine\<close>

text \<open>One definition for each state.\<close>

definition recv_and_handle :: "locals \<Rightarrow> u32 \<Rightarrow> 'e sys \<Rightarrow> 'e sys option" where
  "recv_and_handle junk timeout y =
     do { (ret, buf, rx_len, e) \<leftarrow> hal_lora_recv (sh_hal (sy_shard y)) (sh_rx_buf (sy_shard y)) 0 timeout (sy_env y);
          let y = y\<lparr>sy_shard := (sy_shard y)\<lparr>sh_rx_buf := buf\<rparr>, sy_env := e\<rparr>;
          if ret = FL_HAL_OK \<and> 0 < rx_len then fl_shard_on_rx junk (sh_rx_buf (sy_shard y)) (unat rx_len) y
          else Some y }"

definition tick_idle :: "locals \<Rightarrow> 'e sys \<Rightarrow> 'e sys option" where
  "tick_idle junk y =
     (let s = sy_shard y in do {
        y \<leftarrow> (if cc_encrypt_enabled (sh_crypto s) \<noteq> 0 \<and> cc_handshake_done (sh_crypto s) = 0 then do {
               hp \<leftarrow> rd_slice (cc_public_key (sh_crypto s)) 0 32;
               (_, e) \<leftarrow> shard_tx_frame (jk_frame junk) s FL_FRAME_HANDSHAKE hp 32 0 1 (sy_env y);
               Some (y\<lparr>sy_env := shard_log s ''sent HANDSHAKE'' e\<rparr>) }
             else Some y);
        recv_and_handle junk 500 y })"

text \<open>The parameter change of the round is left in \<^verbatim>\<open>model->grad\<close>.\<close>

definition param_change :: "f32 list \<Rightarrow> FLModel \<Rightarrow> FLModel option" where
  "param_change params_before m =
     do { g \<leftarrow> for_lt (unat (md_total_params m)) (\<lambda>i g. do {
            p \<leftarrow> rd (md_params m) i; p0 \<leftarrow> rd params_before i; wr g i (p - p0) }) (md_grad m);
          Some (m\<lparr>md_grad := g\<rparr>) }"

definition train_config :: "FLBeaconPayload \<Rightarrow> FLTrainConfig" where
  "train_config b = \<lparr>tc_epochs = bp_local_epochs b, tc_learning_rate = bp_learning_rate b,
     tc_grad_clip_norm = 1, tc_loss_type = FL_LOSS_XENTROPY, tc_topk_ratio = ucast FL_SHARD_TOPK_RATIO\<rparr>"

definition tick_training :: "libm \<Rightarrow> 'e data_cb \<Rightarrow> 'e sys \<Rightarrow> 'e sys option" where
  "tick_training lm user_cb y =
     (let s = sy_shard y in do {
        params_before \<leftarrow> rd_slice (md_params (sh_model s)) 0 (unat (md_total_params (sh_model s)));
        (_, (m, ts), e) \<leftarrow> fl_train_run lm (train_config (sh_beacon s)) user_cb (sy_env y) (sh_model s, sy_train y);
        m \<leftarrow> param_change params_before m;
        let s = s\<lparr>sh_model := m, sh_state := FL_SHARD_STATE_ENCODING\<rparr>;
        Some (y\<lparr>sy_shard := s, sy_train := ts, sy_env := shard_log s ''training done -> ENCODING'' e\<rparr>) })"

definition shard_topk :: "FLModel \<Rightarrow> u16" where
  "shard_topk m = (let topk = md_total_params m div FL_SHARD_TOPK_RATIO in if topk < 1 then 1 else topk)"

definition tick_encoding :: "libm \<Rightarrow> 'e sys \<Rightarrow> 'e sys option" where
  "tick_encoding lm y =
     (let s = sy_shard y; n = md_total_params (sh_model s) in do {
        s \<leftarrow> (if dp_dp_enabled (sh_dp s) \<noteq> 0 then do {
               (dp, g) \<leftarrow> fl_dp_apply lm (sh_dp s) (md_grad (sh_model s)) n (sh_shard_id s) (sh_current_round s);
               Some (s\<lparr>sh_dp := dp, sh_model := (sh_model s)\<lparr>md_grad := g\<rparr>\<rparr>) }
             else Some s);
        (_, residual, buf) \<leftarrow> fl_sparse_encode (md_grad (sh_model s)) n (shard_topk (sh_model s))
           (Some (sh_residual s)) (sh_update_buf s);
        residual \<leftarrow> residual;
        let s = s\<lparr>sh_residual := residual, sh_update_buf := buf, sh_tx_frag_sent := 0,
                  sh_tx_frag_total := fl_sparse_fragment_count buf, sh_state := FL_SHARD_STATE_TX\<rparr>;
        Some (y\<lparr>sy_shard := s, sy_env := shard_log s ''encoding done -> TX'' (sy_env y)\<rparr>) })"

definition tx_result :: "int \<Rightarrow> 'e sys \<Rightarrow> 'e sys" where
  "tx_result ret y =
     (let s = sy_shard y;
          s = (if ret = FL_HAL_OK then s\<lparr>sh_tx_frag_sent := sh_tx_frag_sent s + 1\<rparr>
               else s\<lparr>sh_tx_errors := sh_tx_errors s + 1\<rparr>)
      in if sh_tx_frag_total s \<le> sh_tx_frag_sent s then
           let s = s\<lparr>sh_state := FL_SHARD_STATE_AWAIT_ACK\<rparr>
           in y\<lparr>sy_shard := s, sy_env := shard_log s ''TX complete -> AWAIT_ACK'' (sy_env y)\<rparr>
         else y\<lparr>sy_shard := s\<rparr>)"

definition tick_tx :: "locals \<Rightarrow> 'e sys \<Rightarrow> 'e sys option" where
  "tick_tx junk y =
     (let s = sy_shard y in
      if sh_tx_frag_total s = 0 then
        let s = s\<lparr>sh_state := FL_SHARD_STATE_AWAIT_ACK\<rparr>
        in Some (y\<lparr>sy_shard := s, sy_env := shard_log s ''no updates to send -> AWAIT_ACK'' (sy_env y)\<rparr>)
      else if sh_tx_frag_sent s < sh_tx_frag_total s then do {
        (_, payload, payload_len) \<leftarrow> fl_sparse_write_fragment (jk_payload junk) 0 (sh_update_buf s) (sh_tx_frag_sent s);
        (ret, e) \<leftarrow> shard_tx_frame (jk_frame junk) s FL_FRAME_UPDATE payload payload_len (sh_tx_frag_sent s)
           (sh_tx_frag_total s) (sy_env y);
        Some (tx_result ret (y\<lparr>sy_env := e\<rparr>)) }
      else Some y)"

definition fl_shard_tick ::
  "libm \<Rightarrow> 'e data_cb \<Rightarrow> locals \<Rightarrow> 'e sys \<Rightarrow> (FLShardState \<times> 'e sys) option" where
  "fl_shard_tick lm user_cb junk y =
     do { y \<leftarrow> (case sh_state (sy_shard y) of
            FL_SHARD_STATE_IDLE \<Rightarrow> tick_idle junk y
          | FL_SHARD_STATE_TRAINING \<Rightarrow> tick_training lm user_cb y
          | FL_SHARD_STATE_ENCODING \<Rightarrow> tick_encoding lm y
          | FL_SHARD_STATE_TX \<Rightarrow> tick_tx junk y
          | FL_SHARD_STATE_AWAIT_ACK \<Rightarrow> recv_and_handle junk FL_SHARD_RECV_TIMEOUT_MS y
          | FL_SHARD_STATE_RECV_DELTA \<Rightarrow> recv_and_handle junk FL_SHARD_RECV_TIMEOUT_MS y
          | FL_SHARD_STATE_ERROR \<Rightarrow>
              Some (y\<lparr>sy_env := shard_log (sy_shard y) ''ERROR state - needs reset'' (sy_env y)\<rparr>));
          Some (sh_state (sy_shard y), y) }"

definition fl_shard_sleep :: "'e sys \<Rightarrow> 'e sys" where
  "fl_shard_sleep y =
     (let s = sy_shard y in
      if sh_state s = FL_SHARD_STATE_IDLE then
        let w = bp_window_seconds (sh_beacon s); sleep_s = (if 60 < w then w - 30 else 10)
        in (case hal_deep_sleep_rtc (sh_hal s) of
              None \<Rightarrow> y
            | Some f \<Rightarrow> y\<lparr>sy_env := f sleep_s (sy_env y)\<rparr>)
      else y\<lparr>sy_env := hal_sleep_ms (sh_hal s) 100 (sy_env y)\<rparr>)"

fun fl_shard_state_str :: "FLShardState \<Rightarrow> string" where
  "fl_shard_state_str FL_SHARD_STATE_IDLE = ''IDLE''"
| "fl_shard_state_str FL_SHARD_STATE_TRAINING = ''TRAINING''"
| "fl_shard_state_str FL_SHARD_STATE_ENCODING = ''ENCODING''"
| "fl_shard_state_str FL_SHARD_STATE_TX = ''TX''"
| "fl_shard_state_str FL_SHARD_STATE_AWAIT_ACK = ''AWAIT_ACK''"
| "fl_shard_state_str FL_SHARD_STATE_RECV_DELTA = ''RECV_DELTA''"
| "fl_shard_state_str FL_SHARD_STATE_ERROR = ''ERROR''"

section \<open>Security configuration\<close>

definition fl_shard_enable_dp ::
  "libm \<Rightarrow> 'e FLShard ptr \<Rightarrow> f32 \<Rightarrow> f32 \<Rightarrow> f32 \<Rightarrow> 'e \<Rightarrow> FLError \<times> 'e FLShard ptr \<times> 'e" where
  "fl_shard_enable_dp lm shard epsilon delta sensitivity e =
     (case shard of
        None \<Rightarrow> (FL_ERR_INVALID_ARG, None, e)
      | Some s \<Rightarrow>
          if epsilon \<le> 0 \<or> delta \<le> 0 \<or> sensitivity \<le> 0 then (FL_ERR_INVALID_ARG, Some s, e)
          else
            let s = s\<lparr>sh_dp := fl_dp_config lm epsilon delta sensitivity\<rparr>
            in (FL_OK, Some s,
                hal_print (sh_hal s) ''[Shard %04X] DP enabled: eps=%.2f delta=%.2e sigma=%.4f''
                  [Log_Int (uint (sh_shard_id s)), Log_Float epsilon, Log_Float delta, Log_Float (dp_sigma (sh_dp s))] e))"

definition fl_shard_enable_crypto ::
  "'e FLShard ptr \<Rightarrow> bytes ptr \<Rightarrow> 'e \<Rightarrow> (FLError \<times> 'e FLShard ptr \<times> 'e) option" where
  "fl_shard_enable_crypto shard seed e =
     (case shard of
        None \<Rightarrow> Some (FL_ERR_INVALID_ARG, None, e)
      | Some s \<Rightarrow> do {
          c \<leftarrow> fl_crypto_init seed;
          let s = s\<lparr>sh_crypto := c\<lparr>cc_encrypt_enabled := 1\<rparr>\<rparr>;
          Some (FL_OK, Some s, shard_log s ''crypto initialized, awaiting handshake'' e) })"

definition fl_shard_privacy_report :: "'e FLShard \<Rightarrow> 'e \<Rightarrow> 'e" where
  "fl_shard_privacy_report s e =
     (let (eps_total, delta_total) = fl_dp_privacy_spent (sh_dp s)
      in hal_print (sh_hal s) ''[Shard %04X] Privacy spent: eps=%.2f delta=%.2e (%u rounds)''
           [Log_Int (uint (sh_shard_id s)), Log_Float eps_total, Log_Float delta_total,
            Log_Int (uint (dp_rounds_spent (sh_dp s)))] e)"

end
