(* ===== verification/Train_Safe.thy ===== *)
theory Train_Safe
  imports Train
begin

text \<open>
  Training stays inside its arrays and returns: which models and which data sources
  \<^verbatim>\<open>shard/src/fl_train.c\<close> can be run on. An interface \<open>data_source\<close> says what a data callback
  must promise; the callbacks of the examples are its instances.
\<close>

section \<open>Models that fit\<close>

definition net_fits :: "FLModel \<Rightarrow> bool" where
  "net_fits m \<longleftrightarrow> length (md_params m) = FL_MODEL_MAX_PARAMS \<and> length (md_grad m) = FL_MODEL_MAX_PARAMS
     \<and> unat (md_total_params m) \<le> FL_MODEL_MAX_PARAMS
     \<and> 0 < unat (md_layer_count m) \<and> unat (md_layer_count m) \<le> length (md_layers m)
     \<and> (\<forall>l < unat (md_layer_count m). let ld = md_layers m ! l in
          ly_off ld + ly_in ld * ly_out ld + ly_out ld \<le> FL_MODEL_MAX_PARAMS
          \<and> ly_in ld \<le> FL_MODEL_MAX_PARAMS \<and> l * ly_out ld + ly_out ld \<le> FL_MODEL_MAX_PARAMS)
     \<and> (\<forall>l. Suc l < unat (md_layer_count m) \<longrightarrow> ly_in (md_layers m ! Suc l) \<le> ly_out (md_layers m ! l))
     \<and> ly_in (md_layers m ! 0) \<le> 64
     \<and> ly_out (md_layers m ! (unat (md_layer_count m) - 1)) \<le> 8"

definition train_fits :: "train_state \<Rightarrow> bool" where
  "train_fits ts \<longleftrightarrow> length (ts_output ts) = 64 \<and> length (ts_loss_grad ts) = 64 \<and> length (ts_softmax ts) = 64
     \<and> length (fst (ts_back ts)) = FL_MODEL_MAX_PARAMS \<and> length (snd (ts_back ts)) = FL_MODEL_MAX_PARAMS
     \<and> length (ts_intermediates ts) = FL_MODEL_MAX_PARAMS"

definition sample_fits :: "FLSample \<Rightarrow> bool" where
  "sample_fits s \<longleftrightarrow> length (sm_input s) = 64 \<and> length (sm_label s) = 8"

text \<open>A loop whose body always keeps an invariant is defined.\<close>

lemma for_lt_keeps:
  assumes "P s" and "\<And>j s. j < n \<Longrightarrow> P s \<Longrightarrow> \<exists>s'. f j s = Some s' \<and> P s'"
  shows "\<exists>s'. for_lt n f s = Some s' \<and> P s'"
  by (rule for_lt_inv [where P = "\<lambda>_. P"]) (use assms in auto)

lemma for_lt_value:
  assumes "\<And>j s. j < n \<Longrightarrow> \<exists>s'. f j s = Some s'"
  shows "\<exists>s'. for_lt n f s = Some s'"
  using for_lt_keeps [of "\<lambda>_. True" s n f] assms by auto

lemma weight_in_layer:
  assumes "off + ni * no + no \<le> (c :: nat)" "j < no" "i < ni"
  shows "off + (j * ni + i) < c" "off + ni * no + j < c"
proof -
  have "j * ni + i < Suc j * ni" using assms(3) by simp
  also have "\<dots> \<le> no * ni" using assms(2) by (intro mult_le_mono1) simp
  finally show "off + (j * ni + i) < c" using assms(1) by (simp add: mult.commute)
  show "off + ni * no + j < c" using assms(1,2) by simp
qed

lemma net_fits_layer:
  assumes "net_fits m" "l < unat (md_layer_count m)"
  shows "l < length (md_layers m)" "length (md_params m) = FL_MODEL_MAX_PARAMS"
    "length (md_grad m) = FL_MODEL_MAX_PARAMS"
    "ly_off (md_layers m ! l) + ly_in (md_layers m ! l) * ly_out (md_layers m ! l) + ly_out (md_layers m ! l) \<le> FL_MODEL_MAX_PARAMS"
    "ly_in (md_layers m ! l) \<le> FL_MODEL_MAX_PARAMS"
    "l * ly_out (md_layers m ! l) + ly_out (md_layers m ! l) \<le> FL_MODEL_MAX_PARAMS"
  using assms by (auto simp: net_fits_def Let_def)

definition ptr_fits :: "f32 list \<Rightarrow> nat \<Rightarrow> vec_ptr \<Rightarrow> nat \<Rightarrow> bool" where
  "ptr_fits input cap p n \<longleftrightarrow> (case p of In_Input \<Rightarrow> n \<le> length input | In_Scratch off \<Rightarrow> off + n \<le> cap)"

lemma rd_vec_total: "\<lbrakk>ptr_fits input (length scr) p n; i < n\<rbrakk> \<Longrightarrow> \<exists>x. rd_vec input scr p i = Some x"
  by (auto simp: ptr_fits_def rd_vec_def split: vec_ptr.splits)

lemma layer_forward_defined:
  assumes "net_fits m" "l < unat (md_layer_count m)" "length scr = FL_MODEL_MAX_PARAMS"
    and "ptr_fits input FL_MODEL_MAX_PARAMS inp (ly_in (md_layers m ! l))"
  shows "\<exists>s. layer_forward lm m (md_layers m ! l) input inp (l * ly_out (md_layers m ! l)) scr = Some s
    \<and> length s = FL_MODEL_MAX_PARAMS"
proof -
  let ?ld = "md_layers m ! l"
  note f = net_fits_layer [OF assms(1,2)]
  show ?thesis unfolding layer_forward_def
  proof (rule for_lt_keeps)
    fix j and s :: "f32 list" assume j: "j < ly_out ?ld" and s: "length s = FL_MODEL_MAX_PARAMS"
    obtain b where b: "rd (md_params m) (ly_off ?ld + ly_in ?ld * ly_out ?ld + j) = Some b"
      using f j by (simp add: rd_def)
    have "\<exists>t. for_lt (ly_in ?ld) (\<lambda>i t. do { w \<leftarrow> rd (md_params m) (ly_off ?ld + (j * ly_in ?ld + i));
        x \<leftarrow> rd_vec input s inp i; Some (t + w * x) }) b = Some t"
    proof (rule for_lt_value)
      fix i t assume i: "i < ly_in ?ld"
      obtain x where "rd_vec input s inp i = Some x" using rd_vec_total [of input s inp] assms(4) i s by auto
      then show "\<exists>s'. (do { w \<leftarrow> rd (md_params m) (ly_off ?ld + (j * ly_in ?ld + i));
        x \<leftarrow> rd_vec input s inp i; Some (t + w * x) }) = Some s'"
        using weight_in_layer [OF f(4) j i] f(2) by simp
    qed
    then obtain t where "for_lt (ly_in ?ld) (\<lambda>i t. do { w \<leftarrow> rd (md_params m) (ly_off ?ld + (j * ly_in ?ld + i));
        x \<leftarrow> rd_vec input s inp i; Some (t + w * x) }) b = Some t" by blast
    then show "\<exists>s'. (do { b \<leftarrow> rd (md_params m) (ly_off ?ld + ly_in ?ld * ly_out ?ld + j);
        t \<leftarrow> for_lt (ly_in ?ld) (\<lambda>i t. do { w \<leftarrow> rd (md_params m) (ly_off ?ld + (j * ly_in ?ld + i));
          x \<leftarrow> rd_vec input s inp i; Some (t + w * x) }) b;
        wr s (l * ly_out ?ld + j) (apply_act lm t (ly_activation ?ld)) }) = Some s' \<and> length s' = FL_MODEL_MAX_PARAMS"
      using b f(6) j s by simp
  qed (rule assms(3))
qed

lemma forward_defined:
  assumes m: "net_fits m" and len: "length scr = FL_MODEL_MAX_PARAMS" "length input = 64" "length output = 64"
  shows "\<exists>o' s'. fl_model_forward lm m input output scr = Some (o', s') \<and> length o' = 64
    \<and> length s' = FL_MODEL_MAX_PARAMS"
proof -
  let ?n = "unat (md_layer_count m)"
  let ?body = "\<lambda>l (scr, inp). do {
         ld \<leftarrow> rd (md_layers m) l;
         scr \<leftarrow> layer_forward lm m ld input inp (l * ly_out ld) scr;
         Some (scr, In_Scratch (l * ly_out ld)) }"
  let ?P = "\<lambda>l (s :: f32 list, inp). length s = FL_MODEL_MAX_PARAMS
      \<and> (l < ?n \<longrightarrow> ptr_fits input FL_MODEL_MAX_PARAMS inp (ly_in (md_layers m ! l)))"
  have "\<exists>r. for_lt ?n ?body (scr, In_Input) = Some r \<and> ?P ?n r"
  proof (rule for_lt_inv [where P = ?P])
    fix l and r :: "f32 list \<times> vec_ptr" assume l: "l < ?n" and r: "?P l r"
    obtain s inp where e: "r = (s, inp)" by (cases r)
    obtain s' where s': "layer_forward lm m (md_layers m ! l) input inp (l * ly_out (md_layers m ! l)) s = Some s'"
      "length s' = FL_MODEL_MAX_PARAMS" using layer_forward_defined [OF m l, of s input inp lm] r e l by auto
    have "ptr_fits input FL_MODEL_MAX_PARAMS (In_Scratch (l * ly_out (md_layers m ! l))) (ly_in (md_layers m ! Suc l))" if "Suc l < ?n"
      using m that net_fits_layer(6) [OF m l] by (auto simp: ptr_fits_def net_fits_def)
    then show "\<exists>r'. ?body l r = Some r' \<and> ?P (Suc l) r'"
      using s' net_fits_layer(1) [OF m l] e by simp
  qed (use m len in \<open>auto simp: ptr_fits_def net_fits_def\<close>)
  then obtain s inp where r: "for_lt ?n ?body (scr, In_Input) = Some (s, inp)" "length s = FL_MODEL_MAX_PARAMS" by auto
  have n: "?n - 1 < ?n" "?n \<noteq> 0" using m by (auto simp: net_fits_def)
  let ?last = "md_layers m ! (?n - 1)"
  have last: "ly_out ?last \<le> 8" using m by (simp add: net_fits_def)
  have "\<exists>o'. for_lt (ly_out ?last) (\<lambda>j output. do {
           x \<leftarrow> rd s ((?n - 1) * ly_out ?last + j); wr output j x }) output = Some o' \<and> length o' = 64"
    by (rule for_lt_keeps) (use len last net_fits_layer(6) [OF m n(1)] r(2) in auto)
  then show ?thesis using r n net_fits_layer(1) [OF m n(1)] by (auto simp: fl_model_forward_def Let_def)
qed

lemma back_delta_defined:
  assumes "length delta = FL_MODEL_MAX_PARAMS" "ly_out ld \<le> length d_in" "off + ly_out ld \<le> length scr"
    and "ly_out ld \<le> FL_MODEL_MAX_PARAMS"
  shows "\<exists>d. back_delta ld d_in scr off delta = Some d \<and> length d = FL_MODEL_MAX_PARAMS"
  unfolding back_delta_def by (rule for_lt_keeps) (use assms in auto)

lemma back_grad_defined:
  assumes fit: "ly_off ld + ly_in ld * ly_out ld + ly_out ld \<le> FL_MODEL_MAX_PARAMS"
    and len: "length grad = FL_MODEL_MAX_PARAMS" "length delta = FL_MODEL_MAX_PARAMS"
    and x: "ptr_fits input (length scr) p (ly_in ld)"
  shows "\<exists>g. back_grad ld input scr p delta grad = Some g \<and> length g = FL_MODEL_MAX_PARAMS"
  unfolding back_grad_def
proof (rule for_lt_keeps)
  fix j and g :: "f32 list" assume j: "j < ly_out ld" and g: "length g = FL_MODEL_MAX_PARAMS"
  obtain d where d: "rd delta j = Some d" using fit j len by (simp add: rd_def)
  have "\<exists>g'. for_lt (ly_in ld) (\<lambda>i g. do {
         x \<leftarrow> rd_vec input scr p i; y \<leftarrow> rd g (ly_off ld + (j * ly_in ld + i));
         wr g (ly_off ld + (j * ly_in ld + i)) (y + d * x) }) g = Some g' \<and> length g' = FL_MODEL_MAX_PARAMS"
  proof (rule for_lt_keeps)
    fix i and g :: "f32 list" assume i: "i < ly_in ld" and g: "length g = FL_MODEL_MAX_PARAMS"
    obtain x where "rd_vec input scr p i = Some x" using rd_vec_total [OF x i] by blast
    then show "\<exists>g'. (do { x \<leftarrow> rd_vec input scr p i; y \<leftarrow> rd g (ly_off ld + (j * ly_in ld + i));
         wr g (ly_off ld + (j * ly_in ld + i)) (y + d * x) }) = Some g' \<and> length g' = FL_MODEL_MAX_PARAMS"
      using weight_in_layer [OF fit j i] g by simp
  qed (rule g)
  then obtain g' where g': "for_lt (ly_in ld) (\<lambda>i g. do {
         x \<leftarrow> rd_vec input scr p i; y \<leftarrow> rd g (ly_off ld + (j * ly_in ld + i));
         wr g (ly_off ld + (j * ly_in ld + i)) (y + d * x) }) g = Some g'" "length g' = FL_MODEL_MAX_PARAMS" by blast
  then show "\<exists>g'. (do { d \<leftarrow> rd delta j;
       g \<leftarrow> for_lt (ly_in ld) (\<lambda>i g. do {
         x \<leftarrow> rd_vec input scr p i; y \<leftarrow> rd g (ly_off ld + (j * ly_in ld + i));
         wr g (ly_off ld + (j * ly_in ld + i)) (y + d * x) }) g;
       y \<leftarrow> rd g (ly_off ld + ly_in ld * ly_out ld + j);
       wr g (ly_off ld + ly_in ld * ly_out ld + j) (y + d) }) = Some g' \<and> length g' = FL_MODEL_MAX_PARAMS"
    using d fit j by simp
qed (rule len)

lemma back_prev_defined:
  assumes fit: "ly_off ld + ly_in ld * ly_out ld + ly_out ld \<le> FL_MODEL_MAX_PARAMS" "ly_in ld \<le> FL_MODEL_MAX_PARAMS"
    and len: "length ps = FL_MODEL_MAX_PARAMS" "length delta = FL_MODEL_MAX_PARAMS" "length dp = FL_MODEL_MAX_PARAMS"
  shows "\<exists>g. back_prev ld ps delta dp = Some g \<and> length g = FL_MODEL_MAX_PARAMS"
  unfolding back_prev_def
proof (rule for_lt_keeps)
  fix i and g :: "f32 list" assume i: "i < ly_in ld" and g: "length g = FL_MODEL_MAX_PARAMS"
  have "\<exists>s. for_lt (ly_out ld) (\<lambda>j s. do {
         w \<leftarrow> rd ps (ly_off ld + (j * ly_in ld + i)); d \<leftarrow> rd delta j; Some (s + w * d) }) 0 = Some s"
  proof (rule for_lt_value)
    fix j s assume j: "j < ly_out ld"
    show "\<exists>s'. (do { w \<leftarrow> rd ps (ly_off ld + (j * ly_in ld + i)); d \<leftarrow> rd delta j; Some (s + w * d) }) = Some s'"
      using weight_in_layer [OF fit(1) j i] len fit j by simp
  qed
  then show "\<exists>g'. (do { s \<leftarrow> for_lt (ly_out ld) (\<lambda>j s. do {
         w \<leftarrow> rd ps (ly_off ld + (j * ly_in ld + i)); d \<leftarrow> rd delta j; Some (s + w * d) }) 0;
       wr g i s }) = Some g' \<and> length g' = FL_MODEL_MAX_PARAMS"
    using i g fit by auto
qed (rule len)

lemma backward_defined:
  assumes m: "net_fits m" and len: "length scr = FL_MODEL_MAX_PARAMS" "length input = 64" "length lg = 64"
    "length (fst st) = FL_MODEL_MAX_PARAMS" "length (snd st) = FL_MODEL_MAX_PARAMS"
  shows "\<exists>g st'. fl_model_backward m lg input scr st = Some (m\<lparr>md_grad := g\<rparr>, st')
    \<and> length g = FL_MODEL_MAX_PARAMS \<and> length (fst st') = FL_MODEL_MAX_PARAMS \<and> length (snd st') = FL_MODEL_MAX_PARAMS"
proof -
  let ?n = "unat (md_layer_count m)"
  let ?ok = "\<lambda>k (g, d, dp, first). length g = FL_MODEL_MAX_PARAMS \<and> length d = FL_MODEL_MAX_PARAMS
    \<and> length dp = FL_MODEL_MAX_PARAMS \<and> (first \<longrightarrow> k = 0 \<or> k = ?n)"
  let ?body = "\<lambda>k (grad, delta, delta_prev, first). do {
         let l = ?n - 1 - k;
         ld \<leftarrow> rd (md_layers m) l;
         layer_in \<leftarrow> (if l = 0 then Some In_Input
                      else do { p \<leftarrow> rd (md_layers m) (l - 1);
                                Some (In_Scratch ((l - 1) * ly_out p)) });
         delta \<leftarrow> back_delta ld (if first then lg else delta_prev) scr (l * ly_out ld) delta;
         grad \<leftarrow> back_grad ld input scr layer_in delta grad;
         if 0 < l then do {
           delta_prev \<leftarrow> back_prev ld (md_params m) delta delta_prev;
           Some (grad, delta, delta_prev, False) }
         else Some (grad, delta, delta_prev, first) }"
  have "\<exists>r. for_lt ?n ?body (md_grad m, fst st, snd st, True) = Some r \<and> ?ok ?n r"
  proof (rule for_lt_inv [where P = ?ok])
    fix k and r :: "f32 list \<times> f32 list \<times> f32 list \<times> bool" assume k: "k < ?n" and r: "?ok k r"
    obtain g d dp first where e: "r = (g, d, dp, first)" by (cases r) auto
    define l where "l = ?n - 1 - k"
    have l: "l < ?n" using k by (simp add: l_def)
    note f = net_fits_layer [OF m l]
    let ?ld = "md_layers m ! l"
    have "ly_out ?ld \<le> length (if first then lg else dp)"
    proof (cases first)
      case True
      then have "l = ?n - 1" using r e k by (auto simp: l_def)
      then show ?thesis using m len True by (simp add: net_fits_def)
    next
      case False
      then show ?thesis using r e f(4) by simp
    qed
    then obtain d' where d': "back_delta ?ld (if first then lg else dp) scr (l * ly_out ?ld) d = Some d'"
      "length d' = FL_MODEL_MAX_PARAMS"
      using back_delta_defined [of d ?ld "if first then lg else dp" "l * ly_out ?ld" scr] r e f len by auto
    obtain p where p: "(if l = 0 then Some In_Input
                      else do { p \<leftarrow> rd (md_layers m) (l - 1);
                                Some (In_Scratch ((l - 1) * ly_out p)) }) = Some p" "ptr_fits input (length scr) p (ly_in ?ld)"
    proof (cases l)
      case 0
      then show ?thesis using that [of In_Input] m len by (simp add: ptr_fits_def net_fits_def)
    next
      case (Suc l')
      then have "l' < ?n" using l by simp
      note f' = net_fits_layer [OF m this]
      have "ly_in ?ld \<le> ly_out (md_layers m ! l')" using m l Suc by (simp add: net_fits_def)
      then show ?thesis using that [of "In_Scratch (l' * ly_out (md_layers m ! l'))"] f' Suc len
        by (simp add: ptr_fits_def)
    qed
    obtain g' where g': "back_grad ?ld input scr p d' g = Some g'" "length g' = FL_MODEL_MAX_PARAMS"
      using back_grad_defined [OF f(4) _ d'(2) p(2), of g] r e by auto
    obtain dp' where dp': "back_prev ?ld (md_params m) d' dp = Some dp'" "length dp' = FL_MODEL_MAX_PARAMS"
      using back_prev_defined [OF f(4,5,2) d'(2), of dp] r e by auto
    show "\<exists>r'. ?body k r = Some r' \<and> ?ok (Suc k) r'"
      unfolding e prod.case Let_def l_def [symmetric]
      using f(1) d' p(1) g' dp' r e k by (auto simp: l_def)
  qed (use m len in \<open>auto simp: net_fits_def\<close>)
  then show ?thesis by (auto simp: fl_model_backward_def Let_def)
qed

section \<open>Loss, clipping and the update\<close>

lemma loss_defined:
  assumes "unat n \<le> 8" "length pred = 64" "length target = 8" "length lg = 64" "length sm = 64"
  shows "\<exists>l lg' sm'. fl_loss_forward lm pred target lg n ty sm = Some (l, lg', sm')
    \<and> length lg' = 64 \<and> length sm' = 64"
proof (cases ty)
  case FL_LOSS_MSE
  have "\<exists>r. for_lt (unat n) (\<lambda>i (loss, loss_grad). do {
            p \<leftarrow> rd pred i; t \<leftarrow> rd target i;
            let d = p - t;
            loss_grad \<leftarrow> wr loss_grad i (f_div (F32 0x40000000 * d) (f_of_int (uint n)));
            Some (loss + d * d, loss_grad) }) (0, lg) = Some r \<and> length (snd r) = 64"
    by (rule for_lt_keeps) (use assms in \<open>auto simp: Let_def\<close>)
  then show ?thesis using FL_LOSS_MSE assms by (auto simp: fl_loss_forward_def loss_mse_def)
next
  case FL_LOSS_XENTROPY
  have "\<exists>r. for_from 1 (unat n - 1) (\<lambda>i max_v. do {
            p \<leftarrow> rd pred i; Some (if max_v < p then p else max_v) }) (pred ! 0) = Some r \<and> True"
    by (rule for_from_inv [where P = "\<lambda>_ _. True"]) (use assms in auto)
  moreover have "\<exists>r. softmax_exp lm pred n mx sm = Some r \<and> length (snd r) = 64" for mx
    unfolding softmax_exp_def by (rule for_lt_keeps) (use assms in auto)
  moreover have "\<exists>r. softmax_loss lm target n se lg sm' = Some r \<and> length (fst (snd r)) = 64 \<and> length (snd (snd r)) = 64"
    if "length sm' = 64" for se sm'
    unfolding softmax_loss_def by (rule for_lt_keeps) (use assms that in \<open>auto simp: Let_def\<close>)
  ultimately show ?thesis using FL_LOSS_XENTROPY assms
    by (simp add: fl_loss_forward_def) (metis (no_types, lifting) bind.bind_lunit case_prod_conv)
qed

lemma grad_clip_defined:
  assumes "unat n \<le> length g"
  shows "\<exists>g'. fl_grad_clip lm g n mx = Some g' \<and> length g' = length g"
proof -
  have "\<exists>s. for_lt (unat n) (\<lambda>i s. do { x \<leftarrow> rd g i; Some (s + x * x) }) 0 = Some s"
    by (rule for_lt_value) (use assms in auto)
  moreover have "\<exists>g'. for_lt (unat n) (\<lambda>i v. do { x \<leftarrow> rd v i; wr v i (x * sc) }) g = Some g' \<and> length g' = length g" for sc
    by (rule for_lt_keeps) (use assms in auto)
  ultimately show ?thesis by (auto simp: fl_grad_clip_def fl_grad_l2_def Let_def)
qed

lemma zero_grad_defined:
  assumes "net_fits m"
  shows "\<exists>g. fl_model_zero_grad m = Some (m\<lparr>md_grad := g\<rparr>) \<and> length g = FL_MODEL_MAX_PARAMS"
  by (rule exI [of _ "replicate (unat (md_total_params m)) 0 @ drop (unat (md_total_params m)) (md_grad m)"])
    (use assms in \<open>auto simp: fl_model_zero_grad_def net_fits_def\<close>)

lemma sgd_defined:
  assumes "net_fits m"
  shows "\<exists>ps. fl_model_sgd_step m lr = Some (m\<lparr>md_params := ps\<rparr>) \<and> length ps = FL_MODEL_MAX_PARAMS"
proof -
  have "\<exists>ps. for_lt (unat (md_total_params m)) (\<lambda>i ps. do {
            p \<leftarrow> rd ps i; g \<leftarrow> rd (md_grad m) i; wr ps i (p - lr * g) }) (md_params m) = Some ps
    \<and> length ps = FL_MODEL_MAX_PARAMS"
    by (rule for_lt_keeps) (use assms in \<open>auto simp: net_fits_def\<close>)
  then show ?thesis by (auto simp: fl_model_sgd_step_def)
qed

lemma net_fits_update [simp]:
  "length g = FL_MODEL_MAX_PARAMS \<Longrightarrow> net_fits m \<Longrightarrow> net_fits (m\<lparr>md_grad := g\<rparr>)"
  "length p = FL_MODEL_MAX_PARAMS \<Longrightarrow> net_fits m \<Longrightarrow> net_fits (m\<lparr>md_params := p\<rparr>)"
  by (simp_all add: net_fits_def)

definition same_shape :: "FLModel \<Rightarrow> FLModel \<Rightarrow> bool" where
  "same_shape m m' \<longleftrightarrow> md_layers m' = md_layers m \<and> md_layer_count m' = md_layer_count m
     \<and> md_total_params m' = md_total_params m \<and> md_round_id m' = md_round_id m"

definition net_outputs :: "FLModel \<Rightarrow> u8" where
  "net_outputs m = ucast (ly_out_features (md_layers m ! (unat (md_layer_count m) - 1)))"

lemma net_outputs_fit:
  assumes "net_fits m"
  shows "unat (net_outputs m) \<le> 8"
proof -
  have "ly_out (md_layers m ! (unat (md_layer_count m) - 1)) \<le> 8" using assms by (simp add: net_fits_def)
  then show ?thesis by (simp add: net_outputs_def unsigned_ucast_eq take_bit_nat_eq_self)
qed

text \<open>One step of training keeps everything it needs.\<close>

lemma train_step_defined:
  assumes m: "net_fits m" and ts: "train_fits ts" and s: "sample_fits (ts_sample ts)"
  shows "\<exists>m' ts'. train_step lm config (net_outputs m) (m, ts) = Some (m', ts') \<and> net_fits m'
    \<and> same_shape m m' \<and> train_fits ts' \<and> ts_sample ts' = ts_sample ts"
proof -
  let ?x = "sm_input (ts_sample ts)"
  obtain out scr where f: "fl_model_forward lm m ?x (ts_output ts) (ts_intermediates ts) = Some (out, scr)"
    "length out = 64" "length scr = FL_MODEL_MAX_PARAMS"
    using forward_defined [OF m, of "ts_intermediates ts" ?x "ts_output ts" lm] ts s
    by (auto simp: train_fits_def sample_fits_def)
  obtain l lg sm where lo: "fl_loss_forward lm out (sm_label (ts_sample ts)) (ts_loss_grad ts)
        (net_outputs m) (tc_loss_type config) (ts_softmax ts) = Some (l, lg, sm)" "length lg = 64" "length sm = 64"
    using loss_defined [OF net_outputs_fit [OF m] f(2), of "sm_label (ts_sample ts)" "ts_loss_grad ts" "ts_softmax ts" lm] ts s
    by (force simp: train_fits_def sample_fits_def)
  obtain g st where b: "fl_model_backward m lg ?x scr (ts_back ts) = Some (m\<lparr>md_grad := g\<rparr>, st)"
    "length g = FL_MODEL_MAX_PARAMS" "length (fst st) = FL_MODEL_MAX_PARAMS" "length (snd st) = FL_MODEL_MAX_PARAMS"
    using backward_defined [OF m f(3) _ lo(2), of ?x "ts_back ts"] ts s by (auto simp: train_fits_def sample_fits_def)
  have t: "unat (md_total_params m) \<le> length g" using m b(2) by (simp add: net_fits_def)
  obtain g' where c: "fl_grad_clip lm g (md_total_params m) (tc_grad_clip_norm config) = Some g'"
    "length g' = FL_MODEL_MAX_PARAMS" using grad_clip_defined [OF t] b(2) by auto
  obtain g2 where g2: "(if 0 < tc_grad_clip_norm config then do {
         h \<leftarrow> fl_grad_clip lm (md_grad (m\<lparr>md_grad := g\<rparr>)) (md_total_params (m\<lparr>md_grad := g\<rparr>)) (tc_grad_clip_norm config);
         Some (m\<lparr>md_grad := g\<rparr>\<lparr>md_grad := h\<rparr>) }
       else Some (m\<lparr>md_grad := g\<rparr>)) = Some (m\<lparr>md_grad := g2\<rparr>)" "length g2 = FL_MODEL_MAX_PARAMS"
    by (rule that [of "if 0 < tc_grad_clip_norm config then g' else g"]) (use b c in auto)
  have "net_fits (m\<lparr>md_grad := g2\<rparr>)" using m g2(2) by simp
  then obtain ps where ps: "fl_model_sgd_step (m\<lparr>md_grad := g2\<rparr>) (tc_learning_rate config) = Some (m\<lparr>md_grad := g2\<rparr>\<lparr>md_params := ps\<rparr>)"
    "length ps = FL_MODEL_MAX_PARAMS" using sgd_defined by blast
  then have "net_fits (m\<lparr>md_grad := g2\<rparr>\<lparr>md_params := ps\<rparr>)"
    by (intro net_fits_update(2) [OF ps(2) \<open>net_fits (m\<lparr>md_grad := g2\<rparr>)\<close>])
  then obtain g3 where g3: "fl_model_zero_grad (m\<lparr>md_grad := g2\<rparr>\<lparr>md_params := ps\<rparr>) = Some (m\<lparr>md_grad := g2\<rparr>\<lparr>md_params := ps\<rparr>\<lparr>md_grad := g3\<rparr>)"
    "length g3 = FL_MODEL_MAX_PARAMS" using zero_grad_defined by blast
  have "net_fits (m\<lparr>md_grad := g2\<rparr>\<lparr>md_params := ps\<rparr>\<lparr>md_grad := g3\<rparr>)"
    by (rule net_fits_update(1) [OF g3(2) \<open>net_fits (m\<lparr>md_grad := g2\<rparr>\<lparr>md_params := ps\<rparr>)\<close>])
  moreover have "same_shape m (m\<lparr>md_grad := g2\<rparr>\<lparr>md_params := ps\<rparr>\<lparr>md_grad := g3\<rparr>)" by (simp add: same_shape_def)
  moreover have "train_step lm config (net_outputs m) (m, ts) = Some (m\<lparr>md_grad := g2\<rparr>\<lparr>md_params := ps\<rparr>\<lparr>md_grad := g3\<rparr>,
      ts\<lparr>ts_output := out, ts_loss_grad := lg, ts_softmax := sm, ts_back := st, ts_intermediates := scr\<rparr>)"
    unfolding train_step_def prod.case f(1) lo(1) b(1) g2(1) ps(1) g3(1) bind.bind_lunit ..
  ultimately show ?thesis using ts f lo b by (auto simp: train_fits_def)
qed

section \<open>Data sources\<close>

text \<open>What a data callback promises: \<open>left e\<close> samples, then the end, after which it is rewound to
  \<open>size\<close> samples; and it fills the sample in place.\<close>

locale data_source =
  fixes data_cb :: "'e data_cb" and left :: "'e \<Rightarrow> nat" and size :: nat
  assumes supplies: "fst (data_cb e s) \<longleftrightarrow> 0 < left e"
    and takes: "0 < left e \<Longrightarrow> Suc (left (snd (snd (data_cb e s)))) = left e"
    and rewinds: "left e = 0 \<Longrightarrow> left (snd (snd (data_cb e s))) = size"
    and fills: "sample_fits s \<Longrightarrow> sample_fits (fst (snd (data_cb e s)))"
begin

lemma train_loop_returns:
  assumes "net_fits m" "train_fits ts" "sample_fits (ts_sample ts)" "left e = k"
  shows "\<exists>m' ts' e'. train_loop lm config (net_outputs m) data_cb e n (m, ts) = Some (n + of_nat k, (m', ts'), e')
    \<and> net_fits m' \<and> same_shape m m' \<and> train_fits ts' \<and> sample_fits (ts_sample ts') \<and> left e' = size"
  using assms
proof (induction k arbitrary: m ts e n)
  case 0
  obtain b s e' where c: "data_cb e (ts_sample ts) = (b, s, e')" by (cases "data_cb e (ts_sample ts)") auto
  have "\<not> b" "left e' = size" "sample_fits s"
    using supplies [of e "ts_sample ts"] rewinds [of e "ts_sample ts"] fills [of "ts_sample ts" e] 0 c by simp_all
  then show ?case using 0 c by (subst train_loop.simps) (simp add: same_shape_def train_fits_def)
next
  case (Suc k)
  obtain b s e' where c: "data_cb e (ts_sample ts) = (b, s, e')" by (cases "data_cb e (ts_sample ts)") auto
  have b: b "left e' = k" "sample_fits s"
    using supplies [of e "ts_sample ts"] takes [of e "ts_sample ts"] fills [of "ts_sample ts" e] Suc.prems c by simp_all
  have "train_fits (ts\<lparr>ts_sample := s\<rparr>)" using Suc.prems by (simp add: train_fits_def)
  then obtain m1 ts1 where st: "train_step lm config (net_outputs m) (m, ts\<lparr>ts_sample := s\<rparr>) = Some (m1, ts1)"
    "net_fits m1" "same_shape m m1" "train_fits ts1" "sample_fits (ts_sample ts1)"
    using train_step_defined [OF Suc.prems(1), of "ts\<lparr>ts_sample := s\<rparr>"] b(3) by force
  have o: "net_outputs m1 = net_outputs m" using st(3) by (simp add: net_outputs_def same_shape_def)
  obtain m' ts' e2 where r: "train_loop lm config (net_outputs m1) data_cb e' (n + 1) (m1, ts1) = Some (n + 1 + of_nat k, (m', ts'), e2)"
    "net_fits m'" "same_shape m1 m'" "train_fits ts'" "sample_fits (ts_sample ts')" "left e2 = size"
    using Suc.IH [OF st(2,4,5) b(2), of "n + 1"] by blast
  have "train_loop lm config (net_outputs m) data_cb e n (m, ts) = Some (n + 1 + of_nat k, (m', ts'), e2)"
    using b(1) c st(1) r(1) by (subst train_loop.simps) (simp add: o)
  moreover have "same_shape m m'" using st(3) r(3) by (simp add: same_shape_def)
  ultimately show ?case using r by (simp add: add.assoc)
qed

lemma train_epoch_returns:
  assumes "net_fits m" "train_fits ts" "sample_fits (ts_sample ts)"
  shows "\<exists>m' ts' e'. fl_train_epoch lm config data_cb e (m, ts) = Some (of_nat (left e), (m', ts'), e')
    \<and> net_fits m' \<and> same_shape m m' \<and> train_fits ts' \<and> sample_fits (ts_sample ts') \<and> left e' = size"
proof -
  let ?n = "unat (md_layer_count m)"
  have n: "?n \<noteq> 0" "?n - 1 < length (md_layers m)" using assms(1) by (auto simp: net_fits_def)
  obtain g where g: "fl_model_zero_grad m = Some (m\<lparr>md_grad := g\<rparr>)" "length g = FL_MODEL_MAX_PARAMS"
    using zero_grad_defined [OF assms(1)] by blast
  have fits: "net_fits (m\<lparr>md_grad := g\<rparr>)" using assms(1) g(2) by simp
  have o: "net_outputs (m\<lparr>md_grad := g\<rparr>) = net_outputs m" by (simp add: net_outputs_def)
  from train_loop_returns [OF fits assms(2,3) refl, of lm config e 0]
  obtain m' ts' e' where r: "train_loop lm config (net_outputs m) data_cb e 0 (m\<lparr>md_grad := g\<rparr>, ts) = Some (of_nat (left e), (m', ts'), e')"
    "net_fits m'" "same_shape m m'" "train_fits ts'" "sample_fits (ts_sample ts')" "left e' = size"
    by (auto simp: o same_shape_def)
  have "fl_train_epoch lm config data_cb e (m, ts)
    = train_loop lm config (net_outputs m) data_cb e 0 (m\<lparr>md_grad := g\<rparr>, ts)"
    using n g(1) by (auto simp: fl_train_epoch_def net_outputs_def unat_gt_0)
  then show ?thesis using r by auto
qed

lemma train_run_returns:
  assumes "net_fits m" "train_fits ts" "sample_fits (ts_sample ts)" "left e = size" "size < 65536"
  shows "\<exists>total m' ts' e'. fl_train_run lm config data_cb e (m, ts) = Some (total, (m', ts'), e')
    \<and> unat total = unat (tc_epochs config) * size \<and> net_fits m' \<and> same_shape m m' \<and> train_fits ts' \<and> sample_fits (ts_sample ts') \<and> left e' = size"
proof -
  let ?P = "\<lambda>i (total, (m', ts'), e'). total = (of_nat (i * size) :: u32) \<and> net_fits m' \<and> same_shape m m'
    \<and> train_fits ts' \<and> sample_fits (ts_sample ts') \<and> left e' = size"
  have "\<exists>r. fl_train_run lm config data_cb e (m, ts) = Some r \<and> ?P (unat (tc_epochs config)) r"
    unfolding fl_train_run_def
  proof (rule for_lt_inv [where P = ?P])
    fix i and r :: "u32 \<times> (FLModel \<times> train_state) \<times> 'e"
    assume r: "?P i r"
    obtain t m1 ts1 e1 where e: "r = (t, (m1, ts1), e1)" by (cases r) auto
    from train_epoch_returns [of m1 ts1 lm config e1] r e
    obtain m2 ts2 e2 where s: "fl_train_epoch lm config data_cb e1 (m1, ts1) = Some (of_nat size, (m2, ts2), e2)"
      "net_fits m2" "same_shape m1 m2" "train_fits ts2" "sample_fits (ts_sample ts2)" "left e2 = size" by auto
    have "ucast (of_nat size :: u16) = (of_nat size :: u32)"
      using assms(5) by (simp add: unsigned_of_nat take_bit_nat_eq_self)
    then show "\<exists>r'. (\<lambda>_ (total, s, e). do {
       (n, s, e) \<leftarrow> fl_train_epoch lm config data_cb e s;
       Some (total + ucast n, s, e) }) i r = Some r' \<and> ?P (Suc i) r'"
      using s r e by (auto simp: same_shape_def algebra_simps)
  qed (use assms in \<open>simp add: same_shape_def\<close>)
  then obtain t m' ts' e' where r: "fl_train_run lm config data_cb e (m, ts) = Some (t, (m', ts'), e')"
    "?P (unat (tc_epochs config)) (t, (m', ts'), e')" by auto
  have "unat (tc_epochs config) * size < 256 * 65536"
    using assms(5) unat_u8_less [of "tc_epochs config"] by (intro mult_strict_mono) auto
  then have lt: "unat (tc_epochs config) * size < 2 ^ 32" by simp
  have t: "t = of_nat (unat (tc_epochs config) * size)" using r(2) by (simp only: prod.case)
  have "unat t = unat (tc_epochs config) * size" unfolding t by (rule unat_of_nat_u32 [OF lt])
  then show ?thesis using r by auto
qed

end

text \<open>The buffers of the training code, as the loader leaves them.\<close>

definition fresh_training :: train_state where
  "fresh_training = \<lparr>ts_sample = \<lparr>sm_input = replicate 64 0, sm_label = replicate 8 0, sm_input_len = 0,
       sm_label_len = 0\<rparr>, ts_output = replicate 64 0, ts_loss_grad = replicate 64 0, ts_softmax = replicate 64 0,
     ts_back = (replicate FL_MODEL_MAX_PARAMS 0, replicate FL_MODEL_MAX_PARAMS 0),
     ts_intermediates = replicate FL_MODEL_MAX_PARAMS 0\<rparr>"

lemma fresh_training_fits: "train_fits fresh_training" "sample_fits (ts_sample fresh_training)"
  by (simp_all add: fresh_training_def train_fits_def sample_fits_def)

end
