(* ===== verification/Model_Correct.thy ===== *)
theory Model_Correct
  imports Model
begin

text \<open>
  What the network of \<^verbatim>\<open>shard/src/fl_model.c\<close> computes: the capacity check of its set-up, the
  forward pass against layers that do not share memory, and the round trip of its serialisation.
\<close>

section \<open>Set-up\<close>

definition init_offset :: "FLLayerDesc list \<Rightarrow> nat \<Rightarrow> u16" where
  "init_offset layers k = sum_list (map ly_param_count (take k layers))"

lemma init_offset_simps [simp]:
  "init_offset layers 0 = 0"
  "k < length layers \<Longrightarrow> init_offset layers (Suc k) = init_offset layers k + ly_param_count (layers ! k)"
  by (simp_all add: init_offset_def take_Suc_conv_app_nth)

definition offsets_ok :: "FLLayerDesc list \<Rightarrow> nat \<Rightarrow> bool" where
  "offsets_ok layers n \<longleftrightarrow> (\<forall>k \<le> n. init_offset layers k \<le> of_nat FL_MODEL_MAX_PARAMS)"

definition placed_layers :: "FLLayerDesc list \<Rightarrow> nat \<Rightarrow> FLLayerDesc list" where
  "placed_layers layers n =
     map (\<lambda>k. (layers ! k)\<lparr>ly_param_offset := init_offset layers k\<rparr>) [0..<n]
       @ replicate (FL_MODEL_MAX_LAYERS - n) zero_layer"

lemma placed_layers_update:
  assumes "k < FL_MODEL_MAX_LAYERS"
  shows "(placed_layers layers k)[k := (layers ! k)\<lparr>ly_param_offset := init_offset layers k\<rparr>]
    = placed_layers layers (Suc k)"
proof -
  obtain m where m: "FL_MODEL_MAX_LAYERS = Suc (k + m)" using assms less_iff_Suc_add by auto
  show ?thesis unfolding placed_layers_def m by (simp add: list_update_append)
qed

lemma length_placed_layers [simp]: "n \<le> FL_MODEL_MAX_LAYERS \<Longrightarrow> length (placed_layers layers n) = FL_MODEL_MAX_LAYERS"
  by (simp add: placed_layers_def)

lemma model_init_layers_ok:
  assumes "k + n \<le> length layers" "k + n \<le> FL_MODEL_MAX_LAYERS"
    and "\<forall>j. k < j \<and> j \<le> k + n \<longrightarrow> init_offset layers j \<le> of_nat FL_MODEL_MAX_PARAMS"
  shows "model_init_layers layers k n (init_offset layers k) (m\<lparr>md_layers := placed_layers layers k\<rparr>)
    = Some (FL_OK, init_offset layers (k + n), m\<lparr>md_layers := placed_layers layers (k + n)\<rparr>)"
  using assms
proof (induction n arbitrary: k)
  case (Suc n)
  then have k: "k < length layers" "k < FL_MODEL_MAX_LAYERS"
    and o: "init_offset layers (Suc k) \<le> of_nat FL_MODEL_MAX_PARAMS" by auto
  have "\<not> of_nat FL_MODEL_MAX_PARAMS < init_offset layers k + ly_param_count (layers ! k)"
    using o k by (simp only: init_offset_simps not_less)
  then have "model_init_layers layers k (Suc n) (init_offset layers k) (m\<lparr>md_layers := placed_layers layers k\<rparr>)
    = model_init_layers layers (Suc k) n (init_offset layers (Suc k)) (m\<lparr>md_layers := placed_layers layers (Suc k)\<rparr>)"
    using k by (simp add: placed_layers_update del: of_nat_numeral)
  also have "\<dots> = Some (FL_OK, init_offset layers (Suc k + n), m\<lparr>md_layers := placed_layers layers (Suc k + n)\<rparr>)"
    by (rule Suc.IH) (use Suc.prems in auto)
  finally show ?case by simp
qed simp

lemma model_init_layers_bad:
  assumes "k + n \<le> length layers" "k + n \<le> FL_MODEL_MAX_LAYERS" "length (md_layers m) = FL_MODEL_MAX_LAYERS"
    and "k < j" "j \<le> k + n" "\<not> init_offset layers j \<le> of_nat FL_MODEL_MAX_PARAMS"
  shows "\<exists>off m'. model_init_layers layers k n (init_offset layers k) m = Some (FL_ERR_CAPACITY, off, m')"
  using assms
proof (induction n arbitrary: k m)
  case (Suc n)
  then have k: "k < length layers" "k < FL_MODEL_MAX_LAYERS" by auto
  have o: "init_offset layers k + ly_param_count (layers ! k) = init_offset layers (Suc k)"
    using k by simp
  let ?m = "m\<lparr>md_layers := (md_layers m)[k := (layers ! k)\<lparr>ly_param_offset := init_offset layers k\<rparr>]\<rparr>"
  show ?case
  proof (cases "of_nat FL_MODEL_MAX_PARAMS < init_offset layers (Suc k)")
    case True
    then show ?thesis using k Suc.prems(3) by (simp add: o del: init_offset_simps of_nat_numeral)
  next
    case False
    then have "j \<noteq> Suc k" using Suc.prems(6) by auto
    have "\<exists>off m'. model_init_layers layers (Suc k) n (init_offset layers (Suc k)) ?m = Some (FL_ERR_CAPACITY, off, m')"
      by (rule Suc.IH) (use Suc.prems \<open>j \<noteq> Suc k\<close> in auto)
    then show ?thesis using False k Suc.prems(3) by (simp add: o del: init_offset_simps of_nat_numeral)
  qed
qed simp

lemma fl_model_init_result:
  assumes "unat count \<le> FL_MODEL_MAX_LAYERS" "unat count \<le> length layers"
  shows "\<exists>e m'. fl_model_init (Some m) layers count = Some (e, Some m')
    \<and> (e = FL_OK \<longleftrightarrow> offsets_ok layers (unat count))
    \<and> (e \<noteq> FL_OK \<longleftrightarrow> e = FL_ERR_CAPACITY)
    \<and> (e = FL_OK \<longrightarrow> md_total_params m' = init_offset layers (unat count) \<and> md_layer_count m' = count
         \<and> md_layers m' = placed_layers layers (unat count)
         \<and> md_params m' = replicate FL_MODEL_MAX_PARAMS 0 \<and> md_grad m' = replicate FL_MODEL_MAX_PARAMS 0)"
proof (cases "offsets_ok layers (unat count)")
  case True
  have z: "zero_model = zero_model\<lparr>md_layers := placed_layers layers 0\<rparr>"
    by (simp add: zero_model_def placed_layers_def)
  have "model_init_layers layers 0 (unat count) (init_offset layers 0) (zero_model\<lparr>md_layers := placed_layers layers 0\<rparr>)
    = Some (FL_OK, init_offset layers (0 + unat count), zero_model\<lparr>md_layers := placed_layers layers (0 + unat count)\<rparr>)"
    by (rule model_init_layers_ok) (use assms True in \<open>auto simp: offsets_ok_def\<close>)
  then have "model_init_layers layers 0 (unat count) 0 zero_model
    = Some (FL_OK, init_offset layers (unat count), zero_model\<lparr>md_layers := placed_layers layers (unat count)\<rparr>)"
    using z by simp
  then show ?thesis using assms(1) True by (simp add: fl_model_init_def zero_model_def)
next
  case False
  then obtain j where j: "j \<le> unat count" "\<not> init_offset layers j \<le> of_nat FL_MODEL_MAX_PARAMS"
    by (auto simp: offsets_ok_def)
  then have "j \<noteq> 0" by (metis init_offset_simps(1) word_zero_le)
  then have "\<exists>off m'. model_init_layers layers 0 (unat count) (init_offset layers 0) zero_model = Some (FL_ERR_CAPACITY, off, m')"
    by (intro model_init_layers_bad [where j = j]) (use assms j in \<open>auto simp: zero_model_def\<close>)
  then show ?thesis using assms(1) False by (auto simp: fl_model_init_def)
qed

text \<open>The capacity check of \<^verbatim>\<open>fl_model_init\<close>: a table of at most sixteen layers is accepted
  exactly when each prefix of the parameter counts, summed in 16 bits, is at most the capacity, and
  is then laid out at these sums,
  with all parameters and gradients zero. Summed in 16 bits means modulo 65536: two layers of 4,000 and
  61,600 parameters are accepted as a model of 64.\<close>

theorem fl_model_init_accepts:
  assumes "unat count \<le> FL_MODEL_MAX_LAYERS" "unat count \<le> length layers"
  shows "\<exists>e m'. fl_model_init (Some m) layers count = Some (e, Some m')
    \<and> (e = FL_OK \<longleftrightarrow> offsets_ok layers (unat count))
    \<and> (e \<noteq> FL_OK \<longleftrightarrow> e = FL_ERR_CAPACITY)
    \<and> (e = FL_OK \<longrightarrow> md_total_params m' = init_offset layers (unat count) \<and> md_layer_count m' = count
         \<and> md_layers m' = placed_layers layers (unat count)
         \<and> md_params m' = replicate FL_MODEL_MAX_PARAMS 0 \<and> md_grad m' = replicate FL_MODEL_MAX_PARAMS 0)"
  by (rule fl_model_init_result [OF assms])

definition wrapping_layers :: "FLLayerDesc list" where
  "wrapping_layers = [zero_layer\<lparr>ly_param_count := 4000\<rparr>, zero_layer\<lparr>ly_param_count := 61600\<rparr>]"

section \<open>Serialisation\<close>

lemma length_floats_bytes [simp]: "length (floats_bytes xs) = 4 * length xs"
  by (induction xs) (simp_all add: floats_bytes_def)

lemma floats_of_bytes_inverse [simp]: "floats_of_bytes (floats_bytes xs) = xs"
proof (induction xs)
  case (Cons x xs)
  have "floats_bytes (x # xs) = ucast (f32_bits x) # ucast (drop_bit 8 (f32_bits x))
      # ucast (drop_bit 16 (f32_bits x)) # ucast (drop_bit 24 (f32_bits x)) # floats_bytes xs"
    by (simp add: floats_bytes_def le32_def)
  then show ?case using Cons by (cases x) simp
qed (simp add: floats_bytes_def)

text \<open>What \<^verbatim>\<open>fl_model_save\<close> wrote, \<^verbatim>\<open>fl_model_load\<close> reads back: a model with the same
  number of parameters gets exactly the saved parameters, and keeps everything else.\<close>

theorem model_save_load:
  assumes "unat (md_total_params m) = t" "t \<le> length (md_params m)"
    and "unat (md_total_params m2) = t" "t \<le> length (md_params m2)"
    and "4 * t \<le> buf_len" "buf_len \<le> length buf"
  shows "\<exists>buf'. fl_model_save m buf buf_len = Some buf' \<and> length buf' = length buf
    \<and> fl_model_load (Some m2) (Some buf') buf_len
        = Some (FL_OK, Some (m2\<lparr>md_params := take t (md_params m) @ drop t (md_params m2)\<rparr>))"
  using assms by (simp add: fl_model_save_def fl_model_load_def Let_def mult.commute min_def)

section \<open>The forward pass\<close>

text \<open>The reference: a layer maps a vector to a vector, and layers do not share memory.\<close>

definition neuron :: "libm \<Rightarrow> FLModel \<Rightarrow> FLLayerDesc \<Rightarrow> (nat \<Rightarrow> f32) \<Rightarrow> nat \<Rightarrow> f32" where
  "neuron lm m ld x j =
     apply_act lm
       (fold_lt (ly_in ld) (\<lambda>i s. s + md_params m ! (ly_off ld + (j * ly_in ld + i)) * x i)
         (md_params m ! (ly_off ld + ly_in ld * ly_out ld + j))) (ly_activation ld)"

definition dense_layer :: "libm \<Rightarrow> FLModel \<Rightarrow> FLLayerDesc \<Rightarrow> f32 list \<Rightarrow> f32 list" where
  "dense_layer lm m ld x = map (neuron lm m ld ((!) x)) [0..<ly_out ld]"

definition network :: "libm \<Rightarrow> FLModel \<Rightarrow> nat \<Rightarrow> f32 list \<Rightarrow> f32 list" where
  "network lm m n x = fold_lt n (\<lambda>l x. dense_layer lm m (md_layers m ! l) x) x"

lemma length_dense_layer [simp]: "length (dense_layer lm m ld x) = ly_out ld"
  by (simp add: dense_layer_def)

definition window :: "'a list \<Rightarrow> nat \<Rightarrow> nat \<Rightarrow> 'a list" where
  "window a off n = take n (drop off a)"

lemma nth_window [simp]: "off + n \<le> length a \<Longrightarrow> i < n \<Longrightarrow> window a off n ! i = a ! (off + i)"
  by (simp add: window_def)

lemma length_window [simp]: "off + n \<le> length a \<Longrightarrow> length (window a off n) = n"
  by (simp add: window_def)

definition layer_fits :: "FLModel \<Rightarrow> FLLayerDesc \<Rightarrow> bool" where
  "layer_fits m ld \<longleftrightarrow> ly_off ld + ly_in ld * ly_out ld + ly_out ld \<le> length (md_params m)"

lemma weight_index:
  assumes "layer_fits m ld" "j < ly_out ld" "i < ly_in ld"
  shows "ly_off ld + (j * ly_in ld + i) < length (md_params m)"
proof -
  have "j * ly_in ld + i < Suc j * ly_in ld" using assms(3) by simp
  also have "\<dots> \<le> ly_out ld * ly_in ld" using assms(2) by (intro mult_le_mono1) simp
  finally show ?thesis using assms(1) by (simp add: layer_fits_def mult.commute)
qed

lemma neuron_step:
  assumes "layer_fits m ld" "j < ly_out ld" "out + j < length s"
    and x: "\<And>i. i < ly_in ld \<Longrightarrow> rd_vec input s inp i = Some (x i)"
  shows "(do {
       b \<leftarrow> rd (md_params m) (ly_off ld + ly_in ld * ly_out ld + j);
       sa \<leftarrow> for_lt (ly_in ld) (\<lambda>i sa. do {
         w \<leftarrow> rd (md_params m) (ly_off ld + (j * ly_in ld + i));
         x \<leftarrow> rd_vec input s inp i;
         Some (sa + w * x) }) b;
       wr s (out + j) (apply_act lm sa (ly_activation ld)) }) = Some (s[out + j := neuron lm m ld x j])"
proof -
  have "for_lt (ly_in ld) (\<lambda>i sa. do {
       w \<leftarrow> rd (md_params m) (ly_off ld + (j * ly_in ld + i)); y \<leftarrow> rd_vec input s inp i; Some (sa + w * y) }) b
    = Some (fold_lt (ly_in ld) (\<lambda>i sa. sa + md_params m ! (ly_off ld + (j * ly_in ld + i)) * x i) b)" for b
    by (rule for_lt_total) (simp add: x weight_index [OF assms(1,2)])
  moreover have "ly_off ld + ly_in ld * ly_out ld + j < length (md_params m)"
    using assms(1,2) by (simp add: layer_fits_def)
  ultimately show ?thesis using assms(3) by (simp add: neuron_def)
qed

text \<open>One layer, when its input is not in the window it writes.\<close>

lemma layer_forward_window:
  assumes fits: "layer_fits m ld" and w: "out + ly_out ld \<le> length scr"
    and x: "\<And>scr' i. \<lbrakk>length scr' = length scr; \<forall>k < length scr. k < out \<or> out + ly_out ld \<le> k \<longrightarrow> scr' ! k = scr ! k;
       i < ly_in ld\<rbrakk> \<Longrightarrow> rd_vec input scr' inp i = Some (x i)"
  shows "\<exists>scr'. layer_forward lm m ld input inp out scr = Some scr' \<and> length scr' = length scr
    \<and> window scr' out (ly_out ld) = map (neuron lm m ld x) [0..<ly_out ld]"
proof -
  let ?P = "\<lambda>j scr'. length scr' = length scr
    \<and> (\<forall>k < length scr. k < out \<or> out + ly_out ld \<le> k \<longrightarrow> scr' ! k = scr ! k)
    \<and> (\<forall>k < j. scr' ! (out + k) = neuron lm m ld x k)"
  have "\<exists>scr'. layer_forward lm m ld input inp out scr = Some scr' \<and> ?P (ly_out ld) scr'"
    unfolding layer_forward_def
  proof (rule for_lt_inv [where P = ?P])
    fix j s
    assume j: "j < ly_out ld" and P: "?P j s"
    have "rd_vec input s inp i = Some (x i)" if "i < ly_in ld" for i by (rule x) (use P that in auto)
    moreover have "out + j < length s" using w j P by simp
    ultimately have "(do {
         b \<leftarrow> rd (md_params m) (ly_off ld + ly_in ld * ly_out ld + j);
         sa \<leftarrow> for_lt (ly_in ld) (\<lambda>i sa. do {
           w \<leftarrow> rd (md_params m) (ly_off ld + (j * ly_in ld + i));
           x \<leftarrow> rd_vec input s inp i;
           Some (sa + w * x) }) b;
         wr s (out + j) (apply_act lm sa (ly_activation ld)) }) = Some (s[out + j := neuron lm m ld x j])"
      by (intro neuron_step [OF fits j])
    moreover have "?P (Suc j) (s[out + j := neuron lm m ld x j])"
      using P j w by (auto simp: nth_list_update less_Suc_eq)
    ultimately show "\<exists>s'. (do {
         b \<leftarrow> rd (md_params m) (ly_off ld + ly_in ld * ly_out ld + j);
         sa \<leftarrow> for_lt (ly_in ld) (\<lambda>i sa. do {
           w \<leftarrow> rd (md_params m) (ly_off ld + (j * ly_in ld + i));
           x \<leftarrow> rd_vec input s inp i;
           Some (sa + w * x) }) b;
         wr s (out + j) (apply_act lm sa (ly_activation ld)) }) = Some s' \<and> ?P (Suc j) s'" by blast
  qed simp
  then obtain scr' where s: "layer_forward lm m ld input inp out scr = Some scr'" "?P (ly_out ld) scr'" by blast
  then have "window scr' out (ly_out ld) = map (neuron lm m ld x) [0..<ly_out ld]"
    using w by (intro nth_equalityI) auto
  then show ?thesis using s by blast
qed

text \<open>A network whose layers do not overlap in the scratch buffer: layer \<open>l\<close> writes its
  \<open>o\<^sub>l\<close> outputs at \<open>l * o\<^sub>l\<close>.\<close>

definition lyr :: "FLModel \<Rightarrow> nat \<Rightarrow> FLLayerDesc" where
  "lyr m l = md_layers m ! l"

definition wf_net :: "FLModel \<Rightarrow> nat \<Rightarrow> bool" where
  "wf_net m cap \<longleftrightarrow> 0 < unat (md_layer_count m) \<and> unat (md_layer_count m) \<le> length (md_layers m)
     \<and> (\<forall>l < unat (md_layer_count m). layer_fits m (lyr m l) \<and> l * ly_out (lyr m l) + ly_out (lyr m l) \<le> cap)
     \<and> (\<forall>l. Suc l < unat (md_layer_count m) \<longrightarrow> ly_in (lyr m (Suc l)) = ly_out (lyr m l))"

definition never_narrows :: "FLModel \<Rightarrow> bool" where
  "never_narrows m \<longleftrightarrow> (\<forall>l. Suc l < unat (md_layer_count m) \<longrightarrow> ly_out (lyr m l) \<le> ly_out (lyr m (Suc l)))"

definition layer_input :: "FLModel \<Rightarrow> nat \<Rightarrow> vec_ptr" where
  "layer_input m l = (case l of 0 \<Rightarrow> In_Input | Suc k \<Rightarrow> In_Scratch (k * ly_out (lyr m k)))"

lemma layer_input_read:
  assumes wf: "wf_net m (length scr)" and nn: "never_narrows m" and l: "l < unat (md_layer_count m)"
    and inp: "ly_in (lyr m 0) \<le> length input"
    and prev: "\<And>k. l = Suc k \<Longrightarrow> window scr (k * ly_out (lyr m k)) (ly_out (lyr m k)) = x"
    and first: "l = 0 \<Longrightarrow> input = x"
    and scr': "length scr' = length scr"
      "\<forall>k < length scr. k < l * ly_out (lyr m l) \<or> l * ly_out (lyr m l) + ly_out (lyr m l) \<le> k \<longrightarrow> scr' ! k = scr ! k"
    and i: "i < ly_in (lyr m l)"
  shows "rd_vec input scr' (layer_input m l) i = Some (x ! i)"
proof (cases l)
  case 0
  then show ?thesis using inp i first by (simp add: layer_input_def rd_vec_def)
next
  case (Suc k)
  let ?o = "ly_out (lyr m k)"
  have k: "k * ?o + ?o \<le> length scr" "ly_in (lyr m l) = ?o" using wf l Suc by (auto simp: wf_net_def)
  have "?o \<le> ly_out (lyr m l)" using nn l Suc by (auto simp: never_narrows_def)
  then have "Suc k * ?o \<le> l * ly_out (lyr m l)" unfolding Suc by (rule mult_le_mono2)
  then have "k * ?o + i < l * ly_out (lyr m l)" using i k(2) by simp
  then have "scr' ! (k * ?o + i) = scr ! (k * ?o + i)" using scr'(2) k i by auto
  also have "\<dots> = window scr (k * ?o) ?o ! i" using k i by simp
  also have "\<dots> = x ! i" by (simp only: prev [OF Suc])
  finally show ?thesis using k i scr'(1) by (simp add: layer_input_def rd_vec_def Suc)
qed

lemma forward_loop:
  assumes wf: "wf_net m (length scr)" and nn: "never_narrows m"
    and inp: "ly_in (lyr m 0) \<le> length input" and n: "n \<le> unat (md_layer_count m)"
  shows "\<exists>scr'. for_lt n (\<lambda>l (scr, inp). do {
         ld \<leftarrow> rd (md_layers m) l;
         scr \<leftarrow> layer_forward lm m ld input inp (l * ly_out ld) scr;
         Some (scr, In_Scratch (l * ly_out ld)) }) (scr, In_Input) = Some (scr', layer_input m n)
    \<and> length scr' = length scr
    \<and> (\<forall>k. n = Suc k \<longrightarrow> window scr' (k * ly_out (lyr m k)) (ly_out (lyr m k)) = network lm m n input)"
  using n
proof (induction n)
  case 0
  then show ?case by (simp add: layer_input_def)
next
  case (Suc n)
  then have n: "n < unat (md_layer_count m)" by simp
  from Suc obtain s where s: "for_lt n (\<lambda>l (scr, inp). do {
         ld \<leftarrow> rd (md_layers m) l;
         scr \<leftarrow> layer_forward lm m ld input inp (l * ly_out ld) scr;
         Some (scr, In_Scratch (l * ly_out ld)) }) (scr, In_Input) = Some (s, layer_input m n)"
    "length s = length scr"
    "\<And>k. n = Suc k \<Longrightarrow> window s (k * ly_out (lyr m k)) (ly_out (lyr m k)) = network lm m n input" by auto
  have wfs: "wf_net m (length s)" using wf s(2) by simp
  have fits: "layer_fits m (lyr m n)" "n * ly_out (lyr m n) + ly_out (lyr m n) \<le> length s" "n < length (md_layers m)"
    using wfs n by (auto simp: wf_net_def)
  have "\<exists>scr'. layer_forward lm m (lyr m n) input (layer_input m n) (n * ly_out (lyr m n)) s = Some scr'
    \<and> length scr' = length s
    \<and> window scr' (n * ly_out (lyr m n)) (ly_out (lyr m n)) = map (neuron lm m (lyr m n) ((!) (network lm m n input))) [0..<ly_out (lyr m n)]"
    by (rule layer_forward_window [OF fits(1,2)], rule layer_input_read [OF wfs nn n inp])
      (simp_all add: s(3) network_def)
  then obtain s' where s': "layer_forward lm m (lyr m n) input (layer_input m n) (n * ly_out (lyr m n)) s = Some s'"
    "length s' = length s"
    "window s' (n * ly_out (lyr m n)) (ly_out (lyr m n)) = dense_layer lm m (lyr m n) (network lm m n input)"
    by (auto simp: dense_layer_def)
  then show ?case using s fits(3)
    by (simp add: for_lt_Suc layer_input_def network_def lyr_def)
qed

text \<open>C17: The forward pass computes the network: if no layer is narrower than the one before it, and
  the parameters and the scratch buffer are large enough, the output is the composition of the
  layers, each a vector of activated sums in the order of the code, with no interference in the
  shared scratch buffer.\<close>

theorem forward_refines_network:
  assumes "wf_net m (length scr)" and "never_narrows m" and "ly_in (lyr m 0) \<le> length input"
    and "unat (md_layer_count m) = Suc n" and "ly_out (lyr m n) \<le> length output"
  shows "\<exists>scr'. fl_model_forward lm m input output scr
    = Some (network lm m (Suc n) input @ drop (ly_out (lyr m n)) output, scr')"
proof -
  obtain s where s: "for_lt (Suc n) (\<lambda>l (scr, inp). do {
         ld \<leftarrow> rd (md_layers m) l;
         scr \<leftarrow> layer_forward lm m ld input inp (l * ly_out ld) scr;
         Some (scr, In_Scratch (l * ly_out ld)) }) (scr, In_Input) = Some (s, layer_input m (Suc n))"
    "length s = length scr" "window s (n * ly_out (lyr m n)) (ly_out (lyr m n)) = network lm m (Suc n) input"
    using forward_loop [OF assms(1-3), of "Suc n" lm] assms(4) by auto
  have w: "n * ly_out (lyr m n) + ly_out (lyr m n) \<le> length s" "n < length (md_layers m)"
    using assms(1,4) s(2) by (auto simp: wf_net_def)
  have "for_lt (ly_out (lyr m n)) (\<lambda>j output. do { x \<leftarrow> rd s (n * ly_out (lyr m n) + j); wr output j x }) output
    = Some (map_prefix (ly_out (lyr m n)) (\<lambda>j _. s ! (n * ly_out (lyr m n) + j)) output)"
    by (rule for_lt_map) (use assms(5) w in auto)
  moreover have "map_prefix (ly_out (lyr m n)) (\<lambda>j _. s ! (n * ly_out (lyr m n) + j)) output
    = window s (n * ly_out (lyr m n)) (ly_out (lyr m n)) @ drop (ly_out (lyr m n)) output"
    using assms(5) w by (intro nth_equalityI) (auto simp: nth_append)
  ultimately show ?thesis using s w by (simp add: fl_model_forward_def Let_def assms(4) lyr_def)
qed

lemma for_lt_2: "for_lt 2 f s = (case f 0 s of None \<Rightarrow> None | Some s' \<Rightarrow> f 1 s')"
  by (simp add: numeral_2_eq_2 for_lt_Suc split: option.split)

lemma less_2: "l < 2 \<longleftrightarrow> l = 0 \<or> l = (1 :: nat)" "Suc l < 2 \<longleftrightarrow> l = 0"
  by auto

text \<open>The networks of the repository narrow from a hidden layer to two outputs.\<close>

definition net_2 :: "nat \<Rightarrow> nat \<Rightarrow> FLActivation \<Rightarrow> f32 list \<Rightarrow> FLModel" where
  "net_2 f h act ps = zero_model\<lparr>md_params := ps, md_layer_count := 2,
     md_layers := placed_layers
       [\<lparr>ly_type = 1, ly_activation = FL_ACT_RELU, ly_in_features = of_nat f, ly_out_features = of_nat h,
          ly_param_offset = 0, ly_param_count = of_nat (f * h + h)\<rparr>,
        \<lparr>ly_type = 1, ly_activation = act, ly_in_features = of_nat h, ly_out_features = 2,
          ly_param_offset = 0, ly_param_count = of_nat (h * 2 + 2)\<rparr>] 2\<rparr>"

text \<open>C33: A network of two layers that narrows to two outputs, as all networks of the repository's
  examples do, does not compute its layers: the second layer writes its first output over the third
  hidden activation, so the second output is computed from a hidden vector whose third entry is
  the first output.\<close>

theorem narrowing_overwrites_hidden:
  fixes lm m input
  defines "h \<equiv> dense_layer lm m (lyr m 0) input"
  defines "y0 \<equiv> neuron lm m (lyr m 1) ((!) h) 0"
  assumes wf: "wf_net m (length scr)" and two: "md_layer_count m = 2" "ly_out (lyr m 1) = 2"
    and hid: "3 \<le> ly_out (lyr m 0)" and inp: "ly_in (lyr m 0) \<le> length input" and out: "length output = 2"
  shows "\<exists>scr'. fl_model_forward lm m input output scr
    = Some ([y0, neuron lm m (lyr m 1) ((!) (h[2 := y0])) 1], scr')"
proof -
  let ?o = "ly_out (lyr m 0)"
  have c: "unat (md_layer_count m) = 2" using two by simp
  have fits: "layer_fits m (lyr m 0)" "layer_fits m (lyr m 1)" "?o \<le> length scr" "1 * 2 + 2 \<le> length scr"
    "2 \<le> length (md_layers m)" "ly_in (lyr m 1) = ?o"
    using wf two(2) unfolding wf_net_def c by (auto simp: less_2)
  have "\<exists>s. layer_forward lm m (lyr m 0) input In_Input 0 scr = Some s \<and> length s = length scr
    \<and> window s 0 ?o = map (neuron lm m (lyr m 0) ((!) input)) [0..<?o]"
    by (rule layer_forward_window) (use fits inp in \<open>simp_all add: rd_vec_def\<close>)
  then obtain s where s: "layer_forward lm m (lyr m 0) input In_Input 0 scr = Some s" "length s = length scr"
    "window s 0 ?o = h" by (auto simp: h_def dense_layer_def)
  have sh: "s ! i = h ! i" if "i < ?o" for i
    using that s(2) fits(3) by (simp flip: s(3))
  have y0: "rd_vec input s (In_Scratch 0) i = Some (h ! i)" if "i < ly_in (lyr m 1)" for i
    using that fits s(2) by (simp add: rd_vec_def sh)
  have y1: "rd_vec input (s[2 + 0 := y0]) (In_Scratch 0) i = Some (h[2 := y0] ! i)" if "i < ly_in (lyr m 1)" for i
    using that fits s(2) by (simp add: rd_vec_def sh nth_list_update h_def)
  have "0 < ly_out (lyr m 1)" "1 < ly_out (lyr m 1)" "2 + 0 < length s" "2 + 1 < length (s[2 + 0 := y0])"
    using two fits s(2) by simp_all
  note steps = neuron_step [OF fits(2) this(1,3) y0, of lm, unfolded two(2)]
    neuron_step [OF fits(2) this(2,4) y1, of lm, unfolded two(2)]
  have "layer_forward lm m (lyr m 1) input (In_Scratch 0) 2 s
    = Some (s[2 + 0 := y0, 2 + 1 := neuron lm m (lyr m 1) ((!) (h[2 := y0])) 1])"
    unfolding layer_forward_def two for_lt_2 by (simp only: steps y0_def [symmetric] option.case)
  moreover have "rd (md_layers m) 0 = Some (lyr m 0)" "rd (md_layers m) 1 = Some (lyr m 1)"
    using fits(5) by (auto simp: lyr_def rd_def)
  moreover have "s[2 := y0] ! Suc (Suc 0) = y0" "s[2 := y0, 3 := z] ! Suc (Suc (Suc 0)) = z" for z
    using fits(4) s(2) by (simp_all add: numeral_2_eq_2 numeral_3_eq_3)
  moreover obtain a b where "output = [a, b]" using out by (auto simp: length_Suc_conv numeral_2_eq_2)
  ultimately show ?thesis using s(1,2) fits(4) two
    by (simp add: fl_model_forward_def Let_def c for_lt_2)
qed

definition demo_net :: FLModel where
  "demo_net = net_2 4 8 FL_ACT_SIGMOID (replicate FL_MODEL_MAX_PARAMS 1)"

theorem narrowing_overwrites_hidden_witness:
  "\<forall>lm. let h = dense_layer lm demo_net (lyr demo_net 0) [1, 1, 1, 1];
           y0 = neuron lm demo_net (lyr demo_net 1) ((!) h) 0
    in \<exists>scr'. fl_model_forward lm demo_net [1, 1, 1, 1] [0, 0] (replicate 4096 0)
      = Some ([y0, neuron lm demo_net (lyr demo_net 1) ((!) (h[2 := y0])) 1], scr')"
proof -
  have p: "md_layers demo_net = [
     \<lparr>ly_type = 1, ly_activation = FL_ACT_RELU, ly_in_features = 4, ly_out_features = 8, ly_param_offset = 0, ly_param_count = 40\<rparr>,
     \<lparr>ly_type = 1, ly_activation = FL_ACT_SIGMOID, ly_in_features = 8, ly_out_features = 2, ly_param_offset = 40, ly_param_count = 18\<rparr>]
     @ replicate 14 zero_layer" "md_layer_count demo_net = 2" "length (md_params demo_net) = 4096"
    by (simp_all add: demo_net_def net_2_def placed_layers_def init_offset_def upt_rec)
  have wf: "wf_net demo_net (length (replicate 4096 (0 :: f32)))"
    by (auto simp: wf_net_def p lyr_def layer_fits_def less_2)
  show ?thesis unfolding Let_def
    by (intro allI narrowing_overwrites_hidden [OF wf]) (simp_all add: p lyr_def)
qed

definition linear_net :: FLModel where
  "linear_net = net_2 1 1 FL_ACT_NONE (replicate FL_MODEL_MAX_PARAMS 1)"

theorem forward_refines_network_witness:
  "\<forall>lm. \<exists>scr'. fl_model_forward lm linear_net [1] [0, 0] (replicate 16 0)
    = Some (network lm linear_net (Suc 1) [1] @ [], scr')"
proof -
  have p: "md_layers linear_net = [
     \<lparr>ly_type = 1, ly_activation = FL_ACT_RELU, ly_in_features = 1, ly_out_features = 1, ly_param_offset = 0, ly_param_count = 2\<rparr>,
     \<lparr>ly_type = 1, ly_activation = FL_ACT_NONE, ly_in_features = 1, ly_out_features = 2, ly_param_offset = 2, ly_param_count = 4\<rparr>]
     @ replicate 14 zero_layer" "md_layer_count linear_net = 2" "length (md_params linear_net) = 4096"
    by (simp_all add: linear_net_def net_2_def placed_layers_def init_offset_def upt_rec)
  have wf: "wf_net linear_net (length (replicate 16 (0 :: f32)))"
    by (auto simp: wf_net_def p lyr_def layer_fits_def less_2)
  have nn: "never_narrows linear_net" by (auto simp: never_narrows_def p lyr_def less_2)
  have r: "ly_in (lyr linear_net 0) \<le> length [1 :: f32]" "unat (md_layer_count linear_net) = Suc 1"
    "ly_out (lyr linear_net 1) \<le> length [0, 0 :: f32]" by (simp_all add: p lyr_def)
  have "drop (ly_out (lyr linear_net 1)) [0, 0 :: f32] = []" by (simp add: p lyr_def)
  then show ?thesis using forward_refines_network [OF wf nn r] by simp
qed

end
