(* ===== verification/Shard_Machine.thy ===== *)
theory Shard_Machine
  imports Shard Train_Safe Model_Correct
begin

text \<open>
  The shard as a state machine: the steps its handlers can take, the runs they make, and what a run
  can never reach.
\<close>

section \<open>Steps\<close>

text \<open>What a received frame can do.\<close>

inductive rx_edge :: "FLShardState \<Rightarrow> FLShardState \<Rightarrow> bool" where
  ignored: "rx_edge s s"
| beacon: "rx_edge s FL_SHARD_STATE_TRAINING"
| close: "rx_edge s FL_SHARD_STATE_IDLE"
| ack: "rx_edge FL_SHARD_STATE_AWAIT_ACK FL_SHARD_STATE_RECV_DELTA"

text \<open>What a tick can do: the cycle of a round, and a frame where the shard listens.\<close>

inductive tick_edge :: "FLShardState \<Rightarrow> FLShardState \<Rightarrow> bool" where
  train: "tick_edge FL_SHARD_STATE_TRAINING FL_SHARD_STATE_ENCODING"
| encode: "tick_edge FL_SHARD_STATE_ENCODING FL_SHARD_STATE_TX"
| send: "tick_edge FL_SHARD_STATE_TX FL_SHARD_STATE_TX"
| sent: "tick_edge FL_SHARD_STATE_TX FL_SHARD_STATE_AWAIT_ACK"
| listen: "s \<in> {FL_SHARD_STATE_IDLE, FL_SHARD_STATE_AWAIT_ACK, FL_SHARD_STATE_RECV_DELTA} \<Longrightarrow> rx_edge s t \<Longrightarrow> tick_edge s t"
| error: "tick_edge FL_SHARD_STATE_ERROR FL_SHARD_STATE_ERROR"

inductive_cases rx_edgeE: "rx_edge s t"
inductive_simps rx_edge_error: "rx_edge s FL_SHARD_STATE_ERROR"
inductive_simps tick_edge_error: "tick_edge s FL_SHARD_STATE_ERROR"

abbreviation sys_state :: "'e sys \<Rightarrow> FLShardState" where
  "sys_state y \<equiv> sh_state (sy_shard y)"

named_theorems handler_defs \<open>the handlers of a received frame\<close>
declare on_beacon_def [handler_defs] on_delta_def [handler_defs] on_ack_def [handler_defs]
  on_round_close_def [handler_defs] on_handshake_ack_def [handler_defs] apply_delta_def [handler_defs]
  Let_def [handler_defs]

lemma apply_delta_state: "apply_delta junk y = Some y' \<Longrightarrow> sys_state y' = FL_SHARD_STATE_IDLE"
  by (auto simp: apply_delta_def Let_def bind_eq_Some_conv split: option.splits)

lemma on_delta_state: "on_delta junk n frame y = Some y' \<Longrightarrow> rx_edge (sys_state y) (sys_state y')"
  by (auto simp: on_delta_def Let_def bind_eq_Some_conv intro: rx_edge.intros dest!: apply_delta_state split: if_splits)

lemma on_rx_state:
  assumes "fl_shard_on_rx junk raw n y = Some y'"
  shows "rx_edge (sys_state y) (sys_state y')"
proof -
  obtain err frame where d: "fl_frame_decode (Some raw) n (Some (jk_frame junk)) = Some (err, Some frame)"
    using assms by (auto simp: fl_shard_on_rx_def bind_eq_Some_conv)
  show ?thesis
  proof (cases "err = FL_OK")
    case False
    then show ?thesis using assms d by (auto simp: fl_shard_on_rx_def intro: rx_edge.intros)
  next
    case True
    then have h: "(case frame_type_of (fr_type frame) of
              Some FL_FRAME_BEACON \<Rightarrow> on_beacon frame y
            | Some FL_FRAME_DELTA \<Rightarrow> on_delta junk n frame y
            | Some FL_FRAME_ACK \<Rightarrow> Some (on_ack y)
            | Some FL_FRAME_ROUND_CLOSE \<Rightarrow> on_round_close frame y
            | Some FL_FRAME_HANDSHAKE_ACK \<Rightarrow> on_handshake_ack frame y
            | _ \<Rightarrow> Some y) = Some y'"
      using assms d by (simp add: fl_shard_on_rx_def)
    have "on_beacon frame y = Some y' \<Longrightarrow> rx_edge (sys_state y) (sys_state y')"
      "on_round_close frame y = Some y' \<Longrightarrow> rx_edge (sys_state y) (sys_state y')"
      "on_handshake_ack frame y = Some y' \<Longrightarrow> rx_edge (sys_state y) (sys_state y')"
      "rx_edge (sys_state y) (sys_state (on_ack y))"
      by (auto simp: handler_defs bind_eq_Some_conv intro: rx_edge.intros split: if_splits)
    then show ?thesis using h on_delta_state [of junk n frame y y']
      by (auto intro: rx_edge.intros split: option.splits FLFrameType.splits)
  qed
qed

lemma recv_and_handle_state:
  "recv_and_handle junk t y = Some y' \<Longrightarrow> rx_edge (sys_state y) (sys_state y')"
  by (auto simp: recv_and_handle_def Let_def bind_eq_Some_conv intro: rx_edge.intros dest!: on_rx_state split: if_splits)

lemma tick_encoding_state: "tick_encoding lm y = Some y' \<Longrightarrow> sys_state y' = FL_SHARD_STATE_TX"
  by (clarsimp simp: tick_encoding_def Let_def bind_eq_Some_conv)

lemma tick_training_state: "tick_training lm cb y = Some y' \<Longrightarrow> sys_state y' = FL_SHARD_STATE_ENCODING"
  by (clarsimp simp: tick_training_def Let_def bind_eq_Some_conv)

lemma tx_result_state: "sys_state (tx_result r (y\<lparr>sy_env := e\<rparr>)) = sys_state y
    \<or> sys_state (tx_result r (y\<lparr>sy_env := e\<rparr>)) = FL_SHARD_STATE_AWAIT_ACK"
  by (simp add: tx_result_def Let_def)

lemma tick_tx_state:
  "tick_tx junk y = Some y' \<Longrightarrow> sys_state y' = sys_state y \<or> sys_state y' = FL_SHARD_STATE_AWAIT_ACK"
  using tx_result_state [where y = y] by (auto simp: tick_tx_def Let_def bind_eq_Some_conv split: if_splits)

text \<open>C8: Every tick of the shard takes a step of the documented machine, and returns the state it
  leaves the shard in: training, encoding and sending follow each other, and only while the shard
  listens (idle, awaiting the acknowledgement, receiving the delta) can a frame move it, a beacon
  to training, a round close to idle, an acknowledgement from awaiting it to receiving the delta,
  and a delta from there to idle. No step enters the error state.\<close>

theorem tick_takes_edge:
  assumes "fl_shard_tick lm user_cb junk y = Some (st, y')"
  shows "tick_edge (sys_state y) st \<and> st = sys_state y' \<and> (st = FL_SHARD_STATE_ERROR \<longrightarrow> sys_state y = FL_SHARD_STATE_ERROR)"
proof -
  have st: "st = sys_state y'" using assms by (auto simp: fl_shard_tick_def bind_eq_Some_conv)
  have idle: "tick_idle junk y = Some y' \<Longrightarrow> rx_edge (sys_state y) (sys_state y')"
    by (auto simp: tick_idle_def Let_def bind_eq_Some_conv dest!: recv_and_handle_state split: if_splits)
  have "tick_edge (sys_state y) (sys_state y')"
  proof (cases "sys_state y")
    case FL_SHARD_STATE_IDLE
    then show ?thesis using assms idle by (auto simp: fl_shard_tick_def bind_eq_Some_conv intro: tick_edge.intros)
  next
    case FL_SHARD_STATE_TRAINING
    then show ?thesis using assms
      by (auto simp: fl_shard_tick_def bind_eq_Some_conv dest!: tick_training_state intro: tick_edge.intros)
  next
    case FL_SHARD_STATE_ENCODING
    then show ?thesis using assms
      by (auto simp: fl_shard_tick_def bind_eq_Some_conv dest!: tick_encoding_state intro: tick_edge.intros)
  next
    case FL_SHARD_STATE_TX
    then show ?thesis using assms
      by (auto simp: fl_shard_tick_def bind_eq_Some_conv dest!: tick_tx_state intro: tick_edge.intros)
  next
    case FL_SHARD_STATE_AWAIT_ACK
    then show ?thesis using assms recv_and_handle_state [of junk 2000 y y']
      by (auto simp: fl_shard_tick_def bind_eq_Some_conv intro: tick_edge.intros)
  next
    case FL_SHARD_STATE_RECV_DELTA
    then show ?thesis using assms recv_and_handle_state [of junk 2000 y y']
      by (auto simp: fl_shard_tick_def bind_eq_Some_conv intro: tick_edge.intros)
  next
    case FL_SHARD_STATE_ERROR
    then show ?thesis using assms by (auto simp: fl_shard_tick_def intro: tick_edge.intros)
  qed
  then show ?thesis using st by (auto simp: tick_edge_error rx_edge_error)
qed

text \<open>A shard with nothing to send, on a radio that hears nothing.\<close>

definition silent_hal :: "unit FLHal" where
  "silent_hal = \<lparr>hal_lora_send = (\<lambda>_ _ e. Some (0, e)), hal_lora_recv = (\<lambda>b n _ e. Some (1, b, n, e)),
     hal_lora_set_sf = None, hal_sleep_ms = (\<lambda>_ e. e), hal_deep_sleep_rtc = None,
     hal_get_tick_ms = (\<lambda>e. (0, e)), hal_nvs_write = None, hal_nvs_read = None, hal_log = None\<rparr>"

definition nothing_to_send :: "unit sys" where
  "nothing_to_send = \<lparr>sy_shard = (zero_shard silent_hal 7 zero_model)\<lparr>sh_state := FL_SHARD_STATE_TX\<rparr>,
     sy_train = fresh_training, sy_env = ()\<rparr>"

theorem tick_takes_edge_witness:
  "\<forall>lm cb junk. \<exists>y'. fl_shard_tick lm cb junk nothing_to_send = Some (FL_SHARD_STATE_AWAIT_ACK, y')
     \<and> tick_edge FL_SHARD_STATE_TX FL_SHARD_STATE_AWAIT_ACK \<and> sys_state y' = FL_SHARD_STATE_AWAIT_ACK"
proof (intro allI)
  fix lm and cb :: "unit data_cb" and junk
  obtain y' where t: "fl_shard_tick lm cb junk nothing_to_send = Some (FL_SHARD_STATE_AWAIT_ACK, y')"
    by (simp add: fl_shard_tick_def tick_tx_def nothing_to_send_def zero_shard_def Let_def)
  moreover have "sys_state nothing_to_send = FL_SHARD_STATE_TX" by (simp add: nothing_to_send_def)
  ultimately show "\<exists>y'. fl_shard_tick lm cb junk nothing_to_send = Some (FL_SHARD_STATE_AWAIT_ACK, y')
     \<and> tick_edge FL_SHARD_STATE_TX FL_SHARD_STATE_AWAIT_ACK \<and> sys_state y' = FL_SHARD_STATE_AWAIT_ACK"
    using tick_takes_edge [OF t] by auto
qed

section \<open>Reception of arbitrary bytes\<close>

definition wf_shard :: "'e FLShard \<Rightarrow> bool" where
  "wf_shard s \<longleftrightarrow> wf_sparse (sh_delta_buf s) \<and> wf_sparse (sh_update_buf s)
     \<and> length (md_params (sh_model s)) = FL_MODEL_MAX_PARAMS \<and> length (md_grad (sh_model s)) = FL_MODEL_MAX_PARAMS
     \<and> unat (md_total_params (sh_model s)) \<le> FL_MODEL_MAX_PARAMS
     \<and> length (sh_residual s) = FL_MODEL_MAX_PARAMS \<and> length (sh_rx_buf s) = FL_SHARD_RX_BUFFER_SIZE
     \<and> wf_crypto (sh_crypto s)"

definition wf_locals :: "locals \<Rightarrow> bool" where
  "wf_locals junk \<longleftrightarrow> wf_frame (jk_frame junk) \<and> length (jk_payload junk) = FL_PAYLOAD_MAX
     \<and> length (jk_floats junk) = FL_MODEL_MAX_PARAMS \<and> length (jk_bytes junk) = 4 * FL_MODEL_MAX_PARAMS"

lemma sparse_decode_defined:
  assumes "wf_sparse buf" "length g = FL_MODEL_MAX_PARAMS" "unat n \<le> FL_MODEL_MAX_PARAMS"
  shows "\<exists>d. fl_sparse_decode buf g n False = Some d \<and> length d = FL_MODEL_MAX_PARAMS"
proof -
  have "\<exists>d. for_lt (unat (sb_count buf)) (\<lambda>i grad. do {
            e \<leftarrow> rd (sb_entries buf) i;
            let idx = ge_param_index e;
            if idx < n then do {
              g \<leftarrow> rd grad (unat idx);
              wr grad (unat idx) (g + fl_dequant_q8 (ge_delta_q8 e)) }
            else Some grad }) (replicate (unat n) 0 @ drop (unat n) g) = Some d \<and> length d = FL_MODEL_MAX_PARAMS"
    by (rule for_lt_keeps) (use assms in \<open>auto simp: wf_sparse_def Let_def word_less_nat_alt\<close>)
  then show ?thesis using assms by (simp add: fl_sparse_decode_def)
qed

lemma model_apply_delta_defined:
  assumes "length (md_params m) = FL_MODEL_MAX_PARAMS" "length d = FL_MODEL_MAX_PARAMS"
    and "unat (md_total_params m) \<le> FL_MODEL_MAX_PARAMS"
  shows "\<exists>p. fl_model_apply_delta m d (md_total_params m) = Some (m\<lparr>md_params := p\<rparr>) \<and> length p = FL_MODEL_MAX_PARAMS"
proof -
  have "\<exists>p. for_lt (unat (md_total_params m)) (\<lambda>i ps. do { p \<leftarrow> rd ps i; x \<leftarrow> rd d i; wr ps i (p + x) }) (md_params m) = Some p
    \<and> length p = FL_MODEL_MAX_PARAMS"
    by (rule for_lt_keeps) (use assms in auto)
  then show ?thesis by (auto simp: fl_model_apply_delta_def)
qed

lemma model_save_defined:
  assumes "unat (md_total_params m) \<le> length (md_params m)" "unat (md_total_params m) * 4 \<le> length buf"
  shows "\<exists>b. fl_model_save m buf (unat (md_total_params m) * 4) = Some b \<and> length b = length buf"
  using assms by (simp add: fl_model_save_def Let_def)

text \<open>What the shard relies on when it calls the hardware abstraction: the functions return, stay in
  the buffers they are given, deliver at most a frame, and keep the environment usable.\<close>

locale hal_contract =
  fixes hal :: "'e FLHal" and ok :: "'e \<Rightarrow> bool"
  assumes send: "\<lbrakk>ok e; unat n \<le> length b\<rbrakk> \<Longrightarrow> \<exists>r e'. hal_lora_send hal b n e = Some (r, e') \<and> ok e'"
    and recv: "\<lbrakk>ok e; length b = FL_SHARD_RX_BUFFER_SIZE; unat n \<le> FL_SHARD_RX_BUFFER_SIZE\<rbrakk> \<Longrightarrow> \<exists>r b' n' e'. hal_lora_recv hal b n t e = Some (r, b', n', e')
      \<and> length b' = FL_SHARD_RX_BUFFER_SIZE \<and> unat n' \<le> FL_SHARD_RX_BUFFER_SIZE \<and> ok e'"
    and nvs_write: "\<lbrakk>hal_nvs_write hal = Some w; ok e; m \<le> length b\<rbrakk> \<Longrightarrow> \<exists>r e'. w off b m e = Some (r, e') \<and> ok e'"
    and log: "\<lbrakk>hal_log hal = Some l; ok e\<rbrakk> \<Longrightarrow> ok (l fmt args e)"
begin

lemma print_ok [simp]: "ok e \<Longrightarrow> ok (hal_print hal fmt args e)"
  by (simp add: hal_print_def log split: option.split)

lemma log_ok [simp]: "sh_hal s = hal \<Longrightarrow> ok e \<Longrightarrow> ok (shard_log s msg e)"
  by (simp add: shard_log_def)

definition good :: "'e sys \<Rightarrow> bool" where
  "good y \<longleftrightarrow> wf_shard (sy_shard y) \<and> sh_hal (sy_shard y) = hal \<and> ok (sy_env y)"

lemma on_beacon_good:
  assumes "good y" "wf_frame frame"
  shows "\<exists>y'. on_beacon frame y = Some y' \<and> good y'"
proof -
  obtain bp where "rd_beacon (fr_payload frame) = Some bp"
    using rd_beacon_defined [of "fr_payload frame"] assms(2) by (auto simp: wf_frame_def)
  then show ?thesis using assms(1) by (simp add: on_beacon_def good_def wf_shard_def Let_def)
qed

lemma on_round_close_good:
  assumes "good y" "wf_frame frame"
  shows "\<exists>y'. on_round_close frame y = Some y' \<and> good y'"
proof -
  obtain r where "rd_round_close (fr_payload frame) = Some r"
    using rd_round_close_defined [of "fr_payload frame"] assms(2) by (auto simp: wf_frame_def)
  then show ?thesis using assms(1) by (simp add: on_round_close_def good_def wf_shard_def Let_def)
qed

lemma on_ack_good: "good y \<Longrightarrow> good (on_ack y)"
  by (simp add: on_ack_def good_def wf_shard_def Let_def zero_sparse_def wf_sparse_def)

lemma on_handshake_ack_good:
  assumes "good y" "wf_frame frame"
  shows "\<exists>y'. on_handshake_ack frame y = Some y' \<and> good y'"
proof -
  have c: "wf_crypto (sh_crypto (sy_shard y))" using assms(1) by (simp add: good_def wf_shard_def)
  have p: "length (take 32 (fr_payload frame)) = 32" using assms(2) by (simp add: wf_frame_def)
  obtain k where "fl_crypto_handshake (Some (sh_crypto (sy_shard y))) (Some (take 32 (fr_payload frame)))
    = Some (FL_OK, Some ((sh_crypto (sy_shard y))\<lparr>cc_session_key := k, cc_handshake_done := 1\<rparr>))" "length k = 32"
    using handshake_installs [OF c p] by blast
  then show ?thesis using assms
    by (auto simp: on_handshake_ack_def good_def wf_shard_def Let_def wf_frame_def wf_crypto_def)
qed

lemma apply_delta_good:
  assumes y: "good y" and junk: "wf_locals junk"
  shows "\<exists>y'. apply_delta junk y = Some y' \<and> good y'"
proof -
  let ?s = "sy_shard y" let ?n = "md_total_params (sh_model ?s)"
  have w: "wf_sparse (sh_delta_buf ?s)" "length (md_params (sh_model ?s)) = 4096" "unat ?n \<le> 4096"
    and j: "length (jk_floats junk) = 4096" "length (jk_bytes junk) = 16384"
    using y junk by (simp_all add: good_def wf_shard_def wf_locals_def)
  obtain d where d: "fl_sparse_decode (sh_delta_buf ?s) (jk_floats junk) ?n False = Some d" "length d = 4096"
    using sparse_decode_defined [OF w(1) j(1) w(3)] by blast
  obtain m where m: "fl_model_apply_delta (sh_model ?s) d ?n = Some (sh_model ?s\<lparr>md_params := m\<rparr>)" "length m = 4096"
    using model_apply_delta_defined [OF w(2) d(2) w(3)] by blast
  obtain b where b: "fl_model_save (sh_model ?s\<lparr>md_params := m\<rparr>) (jk_bytes junk) (unat ?n * 4) = Some b" "length b = 16384"
    using model_save_defined [of "sh_model ?s\<lparr>md_params := m\<rparr>" "jk_bytes junk"] m(2) w(3) j(2) by auto
  have n: "unat ?n * 4 \<le> length b" using w(3) b(2) by simp
  let ?e = "shard_log (?s\<lparr>sh_model := sh_model ?s\<lparr>md_params := m\<rparr>\<rparr>) ''delta applied -> IDLE'' (sy_env y)"
  have e: "ok ?e" using y by (simp add: good_def)
  have g: "good (y\<lparr>sy_shard := ?s\<lparr>sh_model := sh_model ?s\<lparr>md_params := m\<rparr>, sh_state := FL_SHARD_STATE_IDLE\<rparr>, sy_env := e'\<rparr>)" if "ok e'" for e'
    using y m(2) that by (simp add: good_def wf_shard_def)
  show ?thesis
  proof (cases "hal_nvs_write hal")
    case None
    then show ?thesis using y d m g [OF e] by (simp add: apply_delta_def Let_def good_def)
  next
    case (Some w)
    obtain r e' where "w 0 b (unat ?n * 4) ?e = Some (r, e')" "ok e'" using nvs_write [OF Some e n] by blast
    then show ?thesis using y Some d m b g [of e'] by (simp add: apply_delta_def Let_def good_def)
  qed
qed

lemma on_delta_good:
  assumes y: "good y" and junk: "wf_locals junk" and f: "wf_frame frame" and n: "10 \<le> n" "n \<le> 224"
  shows "\<exists>y'. on_delta junk n frame y = Some y' \<and> good y'"
proof (cases "sys_state y = FL_SHARD_STATE_RECV_DELTA")
  case True
  define s where "s = (if fr_frag_index frame = 0
    then (sy_shard y)\<lparr>sh_delta_buf := zero_sparse, sh_rx_frag_total := fr_frag_total frame\<rparr> else sy_shard y)"
  have s: "wf_shard s" "sh_hal s = hal"
    using y by (auto simp: s_def good_def wf_shard_def zero_sparse_def wf_sparse_def)
  have "unat (of_nat (n - 10) :: u8) = n - 10" by (rule unat_of_nat_u8) (use n in linarith)
  then have "unat (of_nat (n - 10) :: u8) \<le> length (fr_payload frame)"
    using f n by (simp only: wf_frame_def)
  then obtain r buf where b: "fl_sparse_read_fragment (fr_payload frame) (of_nat (n - 10)) (sh_delta_buf s) = Some (r, buf)" "wf_sparse buf"
    using read_fragment_total [of "sh_delta_buf s" "of_nat (n - 10)" "fr_payload frame"] s(1) by (auto simp: wf_shard_def)
  define s' where "s' = s\<lparr>sh_delta_buf := buf, sh_rx_frag_recv := sh_rx_frag_recv s + 1\<rparr>"
  have g: "good (y\<lparr>sy_shard := s'\<rparr>)" using y s b(2) by (simp add: s'_def good_def wf_shard_def)
  have e: "on_delta junk n frame y = (if sh_rx_frag_total s' \<le> sh_rx_frag_recv s' then apply_delta junk (y\<lparr>sy_shard := s'\<rparr>)
      else Some (y\<lparr>sy_shard := s'\<rparr>))"
    using True b(1) by (simp add: on_delta_def Let_def s_def [symmetric] s'_def)
  show ?thesis unfolding e using g apply_delta_good [OF g junk] by simp
next
  case False
  then show ?thesis using y by (simp add: on_delta_def Let_def)
qed

lemma on_rx_good:
  assumes y: "good y" and junk: "wf_locals junk" and n: "n \<le> 224" "n \<le> length raw"
  shows "\<exists>y'. fl_shard_on_rx junk raw n y = Some y' \<and> good y'"
proof -
  obtain frame where d: "fl_frame_decode (Some raw) n (Some (jk_frame junk)) = Some (wire_status (take n raw), Some frame)" "wf_frame frame"
    using decode_status [OF n, of "jk_frame junk"] junk by (auto simp: wf_locals_def)
  show ?thesis
  proof (cases "wire_status (take n raw) = FL_OK")
    case True
    then have "10 \<le> n" using n by (simp add: wire_status_OK)
    then show ?thesis
      using True d on_beacon_good [OF y d(2)] on_delta_good [OF y junk d(2) _ n(1)] on_ack_good [OF y]
        on_round_close_good [OF y d(2)] on_handshake_ack_good [OF y d(2)] y
      by (simp add: fl_shard_on_rx_def split: option.split FLFrameType.split)
  next
    case False
    then show ?thesis using d y by (simp add: fl_shard_on_rx_def good_def wf_shard_def)
  qed
qed

lemma recv_and_handle_good:
  assumes "good y" "wf_locals junk"
  shows "\<exists>y'. recv_and_handle junk t y = Some y' \<and> good y'"
proof -
  let ?s = "sy_shard y"
  obtain r b n e where r: "hal_lora_recv hal (sh_rx_buf ?s) 0 t (sy_env y) = Some (r, b, n, e)"
    "length b = 224" "unat n \<le> 224" "ok e"
    using recv [of "sy_env y" "sh_rx_buf ?s" 0 t] assms(1) by (auto simp: good_def wf_shard_def)
  have g: "good (y\<lparr>sy_shard := ?s\<lparr>sh_rx_buf := b\<rparr>, sy_env := e\<rparr>)"
    using assms(1) r by (simp add: good_def wf_shard_def)
  show ?thesis using r g assms(1) on_rx_good [OF g assms(2), of "unat n" b]
    by (simp add: recv_and_handle_def good_def Let_def)
qed

lemma tick_idle_good:
  assumes y: "good y" and junk: "wf_locals junk"
  shows "\<exists>y'. tick_idle junk y = Some y' \<and> good y'"
proof -
  let ?s = "sy_shard y" let ?k = "cc_public_key (sh_crypto ?s)"
  have k: "length ?k = 32" using y by (simp add: good_def wf_shard_def wf_crypto_def)
  have "\<exists>r e. shard_tx_frame (jk_frame junk) ?s FL_FRAME_HANDSHAKE (take 32 ?k) 32 0 1 (sy_env y) = Some (r, e) \<and> ok e"
    using send [of "sy_env y" 42] y k
    by (simp add: shard_tx_frame_def fl_frame_encode_eq good_def)
  then obtain r e where t: "shard_tx_frame (jk_frame junk) ?s FL_FRAME_HANDSHAKE (take 32 ?k) 32 0 1 (sy_env y) = Some (r, e)" "ok e"
    by blast
  have g: "good (y\<lparr>sy_env := shard_log ?s ''sent HANDSHAKE'' e\<rparr>)" using y t(2) by (simp add: good_def)
  show ?thesis using t(1) k recv_and_handle_good [OF g junk, of 500] recv_and_handle_good [OF y junk, of 500]
    by (simp add: tick_idle_def Let_def)
qed

lemma listen_tick_good:
  assumes "good y" "wf_locals junk"
    and "sys_state y \<in> {FL_SHARD_STATE_IDLE, FL_SHARD_STATE_AWAIT_ACK, FL_SHARD_STATE_RECV_DELTA}"
  shows "\<exists>st y'. fl_shard_tick lm cb junk y = Some (st, y') \<and> good y'"
  using assms tick_idle_good recv_and_handle_good [OF assms(1,2), of 2000]
  by (fastforce simp: fl_shard_tick_def)

end

end
