(* ===== verification/Examples.thy ===== *)
theory Examples
  imports Train_Safe Model_Correct
begin

text \<open>
  The networks and data callbacks of the example programs under \<^verbatim>\<open>examples/\<close>: the simulated
  shard, the firmware for the STM32F4 and the demonstration. Each callback is an instance of
  \<open>data_source\<close>, and each network fits the static buffers of the training code.
\<close>

section \<open>Data callbacks\<close>

text \<open>The loops \<^verbatim>\<open>for (i = 0; i < n; i++) a[i] = v[i]\<close> into a buffer of the sample.\<close>

definition fill :: "nat \<Rightarrow> (nat \<Rightarrow> 'a) \<Rightarrow> 'a list \<Rightarrow> 'a list" where
  "fill n v a = map_prefix n (\<lambda>i _. v i) a"

lemma length_fill [simp]: "length (fill n v a) = length a"
  by (simp add: fill_def)

text \<open>\<^verbatim>\<open>examples/herald_linux/shard_sim.c\<close>; the environment is \<^verbatim>\<open>g_sim_idx\<close>, and
  \<open>0x41200000\<close> is \<^verbatim>\<open>10.0f\<close>.\<close>

definition sim_data_cb :: "u16 data_cb" where
  "sim_data_cb idx s =
     (if 20 \<le> idx then (False, s, 0)
      else let l0 = (if idx mod 2 = 0 then 1 else 0 :: f32) in
        (True, s\<lparr>sm_input := fill 8 (\<lambda>_. f_div (f_of_int (uint (idx mod 10))) (F32 0x41200000)) (sm_input s),
                 sm_label := (sm_label s)[0 := l0, 1 := 1 - l0], sm_input_len := 8, sm_label_len := 2\<rparr>, idx + 1))"

text \<open>\<^verbatim>\<open>examples/shard_stm32f4/main.c\<close>; the environment is \<^verbatim>\<open>g_sample_idx\<close>. Two of the
  fifty rows of the data set are given, the others are zero.\<close>

definition stm32_row :: "u16 \<Rightarrow> f32 list" where
  "stm32_row idx =
     (if idx = 0 then [F32 0x3DCCCCCD, F32 0x3E4CCCCD, F32 0x3E99999A, F32 0x3ECCCCCD, F32 0x3F000000, F32 0x3F19999A,
                       F32 0x3F333333, F32 0x3F4CCCCD, 1, 0]
      else if idx = 1 then [F32 0x3F666666, F32 0x3DCCCCCD, F32 0x3E4CCCCD, F32 0x3E99999A, F32 0x3ECCCCCD, F32 0x3F000000,
                       F32 0x3F19999A, F32 0x3F333333, 0, 1]
      else replicate 10 0)"

definition stm32_data_cb :: "u16 data_cb" where
  "stm32_data_cb idx s =
     (if 50 \<le> idx then (False, s, 0)
      else (True, s\<lparr>sm_input := fill 8 (\<lambda>i. stm32_row idx ! i) (sm_input s),
                    sm_label := fill 2 (\<lambda>i. stm32_row idx ! (8 + i)) (sm_label s),
                    sm_input_len := 8, sm_label_len := 2\<rparr>, idx + 1))"

text \<open>\<^verbatim>\<open>examples/demo/demo.c\<close>; the data set is \<^verbatim>\<open>g_train\<close>, the environment \<^verbatim>\<open>g_sidx\<close>.\<close>

record demo_sample =
  ds_x :: "f32 list"  \<comment> \<open>4 floats\<close>
  ds_label :: int

definition demo_data_cb :: "demo_sample list \<Rightarrow> u16 data_cb" where
  "demo_data_cb train idx s =
     (if 80 \<le> idx then (False, s, 0)
      else let r = train ! unat idx in
        (True, s\<lparr>sm_input := fill 4 (\<lambda>i. ds_x r ! i) (sm_input s),
                 sm_label := (sm_label s)[0 := if ds_label r = 0 then 1 else 0, 1 := if ds_label r = 1 then 1 else 0],
                 sm_input_len := 4, sm_label_len := 2\<rparr>, idx + 1))"

lemma counter_u16:
  assumes "k < 65536" "\<not> of_nat k \<le> (idx :: u16)"
  shows "Suc (k - unat (idx + 1)) = k - unat idx" "unat idx < k"
proof -
  have l: "unat idx < k" using assms by (simp add: word_le_nat_alt unat_of_nat_u16)
  moreover have "unat (idx + 1) = unat idx + 1" using l assms(1) by (simp add: unat_word_ariths)
  ultimately show "Suc (k - unat (idx + 1)) = k - unat idx" "unat idx < k" by auto
qed

lemma counter_end: "k < 65536 \<Longrightarrow> 0 < k - unat idx \<longleftrightarrow> \<not> of_nat k \<le> (idx :: u16)"
  by (auto simp: word_le_nat_alt unat_of_nat_u16)

lemma counter_le: "k < 65536 \<Longrightarrow> k \<le> unat idx \<longleftrightarrow> of_nat k \<le> (idx :: u16)"
  by (auto simp: word_le_nat_alt unat_of_nat_u16)

interpretation sim: data_source sim_data_cb "\<lambda>i. 20 - unat i" 20
  by unfold_locales
    (use counter_end [of 20] counter_le [of 20] counter_u16 [of 20] in \<open>auto simp: sim_data_cb_def sample_fits_def Let_def\<close>)

interpretation stm32: data_source stm32_data_cb "\<lambda>i. 50 - unat i" 50
  by unfold_locales
    (use counter_end [of 50] counter_le [of 50] counter_u16 [of 50] in \<open>auto simp: stm32_data_cb_def sample_fits_def Let_def\<close>)

interpretation demo: data_source "demo_data_cb train" "\<lambda>i. 80 - unat i" 80 for train
  by unfold_locales
    (use counter_end [of 80] counter_le [of 80] counter_u16 [of 80] in \<open>auto simp: demo_data_cb_def sample_fits_def Let_def\<close>)

section \<open>The networks\<close>

definition example_layers :: "nat \<Rightarrow> nat \<Rightarrow> FLLayerDesc list" where
  "example_layers f h =
     [\<lparr>ly_type = 1, ly_activation = FL_ACT_RELU, ly_in_features = of_nat f, ly_out_features = of_nat h,
        ly_param_offset = 0, ly_param_count = of_nat (f * h + h)\<rparr>,
      \<lparr>ly_type = 1, ly_activation = FL_ACT_SIGMOID, ly_in_features = of_nat h, ly_out_features = 2,
        ly_param_offset = 0, ly_param_count = of_nat (h * 2 + 2)\<rparr>]"

definition demo_layers :: "FLLayerDesc list" where
  "demo_layers = example_layers 4 8"

definition sim_layers :: "FLLayerDesc list" where
  "sim_layers = example_layers 8 16"

definition stm32_layers :: "FLLayerDesc list" where
  "stm32_layers = example_layers 8 16"

lemma all_2: "(\<forall>k \<le> 2. P k) \<longleftrightarrow> P 0 \<and> P 1 \<and> P (2 :: nat)" "(\<forall>k < 2. P k) \<longleftrightarrow> P 0 \<and> P (1 :: nat)"
  "(\<forall>k. Suc k < 2 \<longrightarrow> P k) \<longleftrightarrow> P (0 :: nat)"
  by (auto simp: numeral_2_eq_2 le_Suc_eq less_Suc_eq)

lemma example_layers_placed:
  "placed_layers (example_layers f h) 2 = [(example_layers f h) ! 0,
     ((example_layers f h) ! 1)\<lparr>ly_param_offset := of_nat (f * h + h)\<rparr>] @ replicate 14 zero_layer"
  by (simp add: placed_layers_def example_layers_def init_offset_def upt_rec numeral_2_eq_2)

lemma example_net_init:
  assumes "(f, h) = (4, 8) \<or> (f, h) = (8, 16)"
  shows "\<exists>m. fl_model_init (Some zero_model) (example_layers f h) 2 = Some (FL_OK, Some m) \<and> net_fits m
    \<and> md_total_params m = of_nat (f * h + h + h * 2 + 2)"
proof -
  have "offsets_ok (example_layers f h) 2"
    unfolding offsets_ok_def all_2 using assms by (auto simp: example_layers_def init_offset_def)
  moreover have "unat (2 :: u8) \<le> FL_MODEL_MAX_LAYERS" "unat (2 :: u8) \<le> length (example_layers f h)"
    by (simp_all add: example_layers_def)
  note fl_model_init_result [OF this, of zero_model]
  ultimately obtain m where m: "fl_model_init (Some zero_model) (example_layers f h) 2 = Some (FL_OK, Some m)"
    "md_total_params m = init_offset (example_layers f h) 2" "md_layer_count m = 2"
    "md_layers m = placed_layers (example_layers f h) 2"
    "md_params m = replicate FL_MODEL_MAX_PARAMS 0" "md_grad m = replicate FL_MODEL_MAX_PARAMS 0"
    by auto
  have t: "init_offset (example_layers f h) 2 = of_nat (f * h + h + h * 2 + 2)"
    by (simp add: init_offset_def example_layers_def)
  have "net_fits m"
    unfolding net_fits_def m t example_layers_placed
    using assms by (auto simp: example_layers_def all_2)
  then show ?thesis using m t by auto
qed

text \<open>Training on the simulated shard returns and is safe: with the callback of
  \<^verbatim>\<open>shard_sim.c\<close> and any network that fits its buffers, \<^verbatim>\<open>fl_train_run\<close> ends, whatever
  the mathematical library computes and however the loss diverges, reads and writes only inside its
  arrays, keeps the shape of the model, and reports 20 samples for each epoch.\<close>

theorem sim_training_returns:
  assumes "net_fits m" and "train_fits ts" and "sample_fits (ts_sample ts)"
  shows "\<exists>total m' ts' idx. fl_train_run lm config sim_data_cb 0 (m, ts) = Some (total, (m', ts'), idx)
    \<and> unat total = unat (tc_epochs config) * 20 \<and> net_fits m' \<and> same_shape m m'"
  using sim.train_run_returns [OF assms, of 0 lm config] by auto

definition sample_config :: FLTrainConfig where
  "sample_config = \<lparr>tc_epochs = 3, tc_learning_rate = F32 0x3C23D70A, tc_grad_clip_norm = 1,
     tc_loss_type = FL_LOSS_XENTROPY, tc_topk_ratio = 10\<rparr>"

end
