(* ===== verification/Demo.thy ===== *)
theory Demo
  imports Shard_Machine Examples
begin

text \<open>
  The demonstration \<^verbatim>\<open>examples/demo/demo.c\<close>: its byte queues in place of a radio, the hardware
  abstraction over them, and its synthetic data. The queues refine lists of frames, and the
  hardware abstraction is an instance of what the shard relies on.
\<close>

section \<open>Queues\<close>

abbreviation Q_SZ :: nat where "Q_SZ \<equiv> 65536"

record BQ =
  bq_b :: bytes
  bq_h :: u32
  bq_t :: u32

definition q_push :: "BQ \<Rightarrow> bytes \<Rightarrow> u32 \<Rightarrow> BQ option" where
  "q_push q d n =
     for_lt (unat n) (\<lambda>i q. do {
       x \<leftarrow> rd d i;
       b \<leftarrow> wr (bq_b q) (unat (bq_t q) mod Q_SZ) x;
       Some (q\<lparr>bq_b := b, bq_t := bq_t q + 1\<rparr>) }) q"

text \<open>The result, the queue, the output buffer and \<^verbatim>\<open>*n\<close>.\<close>

definition q_pop :: "BQ \<Rightarrow> bytes \<Rightarrow> (int \<times> BQ \<times> bytes \<times> u32) option" where
  "q_pop q out =
     (if bq_h q = bq_t q then Some (0, q, out, 0)
      else do {
        fl \<leftarrow> rd (bq_b q) (unat (bq_h q) mod Q_SZ);
        if bq_t q - bq_h q < 1 + ucast fl then Some (0, q, out, 0)
        else do {
          let q = q\<lparr>bq_h := bq_h q + 1\<rparr>;
          (q, out) \<leftarrow> for_lt (unat fl) (\<lambda>i (q, out). do {
            x \<leftarrow> rd (bq_b q) (unat (bq_h q) mod Q_SZ);
            out \<leftarrow> wr out i x;
            Some (q\<lparr>bq_h := bq_h q + 1\<rparr>, out) }) (q, out);
          Some (1, q, out, ucast fl) } })"

definition q_push_frame :: "BQ \<Rightarrow> bytes \<Rightarrow> u8 \<Rightarrow> BQ option" where
  "q_push_frame q f n = do { q \<leftarrow> q_push q [n] 1; q_push q f (ucast n) }"

section \<open>A queue holds a list\<close>

definition q_holds :: "BQ \<Rightarrow> bytes \<Rightarrow> bool" where
  "q_holds q xs \<longleftrightarrow> length (bq_b q) = Q_SZ \<and> length xs \<le> Q_SZ \<and> bq_t q = bq_h q + of_nat (length xs)
     \<and> (\<forall>i < length xs. bq_b q ! ((unat (bq_h q) + i) mod Q_SZ) = xs ! i)"

lemma unat_plus_mod: "unat (h + of_nat i :: u32) mod Q_SZ = (unat h + i) mod Q_SZ"
proof -
  have "unat (h + of_nat i) = (unat h + i) mod 2 ^ 32"
    by (simp add: unat_word_ariths unsigned_of_nat take_bit_eq_mod mod_add_right_eq)
  moreover have "(65536 :: nat) dvd 2 ^ 32" by simp
  ultimately show ?thesis by (simp only: mod_mod_cancel)
qed

lemma mod_shift_neq:
  assumes "i < j" "j < Q_SZ + i"
  shows "(a + i) mod Q_SZ \<noteq> (a + j) mod Q_SZ"
proof
  assume "(a + i) mod Q_SZ = (a + j) mod Q_SZ"
  then have "Q_SZ dvd (a + j) - (a + i)" using assms(1) by (subst (asm) eq_commute) (simp add: mod_eq_dvd_iff_nat)
  then have "Q_SZ dvd j - i" by simp
  then show False using assms by (auto dest: dvd_imp_le)
qed

lemma q_holds_put:
  assumes "q_holds q xs" "length xs < Q_SZ"
  shows "q_holds (q\<lparr>bq_b := (bq_b q)[unat (bq_t q) mod Q_SZ := x], bq_t := bq_t q + 1\<rparr>) (xs @ [x])"
proof -
  have t: "unat (bq_t q) mod Q_SZ = (unat (bq_h q) + length xs) mod Q_SZ"
    using assms(1) by (simp only: q_holds_def unat_plus_mod)
  have "(unat (bq_h q) + length xs) mod Q_SZ \<noteq> (unat (bq_h q) + i) mod Q_SZ" if "i < length xs" for i
    using mod_shift_neq [OF that, of "unat (bq_h q)"] assms(2) by simp
  then show ?thesis using assms unfolding t by (auto simp: q_holds_def nth_append less_Suc_eq)
qed

lemma q_holds_get:
  assumes "q_holds q (x # xs)"
  shows "bq_b q ! (unat (bq_h q) mod Q_SZ) = x" "q_holds (q\<lparr>bq_h := bq_h q + 1\<rparr>) xs"
proof -
  have *: "\<forall>i < Suc (length xs). bq_b q ! ((unat (bq_h q) + i) mod Q_SZ) = (x # xs) ! i"
    using assms by (simp add: q_holds_def)
  then show "bq_b q ! (unat (bq_h q) mod Q_SZ) = x" by force
  have "(unat (bq_h q + 1) + i) mod Q_SZ = (unat (bq_h q) + Suc i) mod Q_SZ" for i
  proof -
    have "(unat (bq_h q + 1) + i) mod Q_SZ = (unat (bq_h q + of_nat 1) mod Q_SZ + i) mod Q_SZ"
      by (simp only: of_nat_1 mod_add_left_eq)
    also have "\<dots> = (unat (bq_h q) + 1 + i) mod Q_SZ" by (simp only: unat_plus_mod mod_add_left_eq)
    finally show ?thesis by (simp only: add.assoc plus_1_eq_Suc)
  qed
  then have "bq_b q ! ((unat (bq_h q + 1) + i) mod Q_SZ) = xs ! i" if "i < length xs" for i
    using * that by auto
  then show "q_holds (q\<lparr>bq_h := bq_h q + 1\<rparr>) xs" using assms by (simp add: q_holds_def)
qed

lemma q_push_holds:
  assumes "q_holds q xs" "unat n \<le> length d" "length xs + unat n \<le> Q_SZ"
  shows "\<exists>q'. q_push q d n = Some q' \<and> q_holds q' (xs @ take (unat n) d)"
  unfolding q_push_def
proof (rule for_lt_inv [where P = "\<lambda>i q. q_holds q (xs @ take i d)"])
  fix j s assume j: "j < unat n" and s: "q_holds s (xs @ take j d)"
  have "q_holds (s\<lparr>bq_b := (bq_b s)[unat (bq_t s) mod Q_SZ := d ! j], bq_t := bq_t s + 1\<rparr>) ((xs @ take j d) @ [d ! j])"
    by (rule q_holds_put [OF s]) (use j assms in simp)
  moreover have "length (bq_b s) = Q_SZ" using s by (simp add: q_holds_def)
  ultimately show "\<exists>s'. (do { x \<leftarrow> rd d j; b \<leftarrow> wr (bq_b s) (unat (bq_t s) mod Q_SZ) x;
       Some (s\<lparr>bq_b := b, bq_t := bq_t s + 1\<rparr>) }) = Some s' \<and> q_holds s' (xs @ take (Suc j) d)"
    using j assms by (simp add: take_Suc_conv_app_nth)
qed (use assms in simp)

text \<open>The contents as frames, each behind its length.\<close>

definition enc_frames :: "bytes list \<Rightarrow> bytes" where
  "enc_frames fs = concat (map (\<lambda>f. of_nat (length f) # f) fs)"

lemma enc_frames_simps [simp]:
  "enc_frames [] = []" "enc_frames (f # fs) = of_nat (length f) # f @ enc_frames fs"
  "enc_frames (fs @ gs) = enc_frames fs @ enc_frames gs"
  by (simp_all add: enc_frames_def)

lemma unat_ucast_u8_u32 [simp]: "unat (ucast (n :: u8) :: u32) = unat n"
proof -
  have "unat n < 4294967296" using unat_u8_less [of n] by linarith
  then show ?thesis by (simp add: unsigned_ucast_eq take_bit_nat_eq_self_iff)
qed

lemma q_push_frame_holds:
  assumes "q_holds q (enc_frames fs)" "unat n \<le> length f" "length (enc_frames fs) + Suc (unat n) \<le> Q_SZ"
  shows "\<exists>q'. q_push_frame q f n = Some q' \<and> q_holds q' (enc_frames (fs @ [take (unat n) f]))"
proof -
  obtain q1 where q1: "q_push q [n] 1 = Some q1" "q_holds q1 (enc_frames fs @ [n])"
    using q_push_holds [OF assms(1), of 1 "[n]"] assms(3) by auto
  obtain q2 where "q_push q1 f (ucast n) = Some q2" "q_holds q2 ((enc_frames fs @ [n]) @ take (unat n) f)"
    using q_push_holds [OF q1(2), of "ucast n" f] assms by auto
  then show ?thesis using q1(1) assms(2) by (simp add: q_push_frame_def)
qed

lemma q_pop_holds:
  assumes q: "q_holds q (enc_frames (f # fs))" and f: "length f < 256" "length f \<le> length out"
  shows "\<exists>q'. q_pop q out = Some (1, q', f @ drop (length f) out, of_nat (length f)) \<and> q_holds q' (enc_frames fs)"
proof -
  let ?n = "of_nat (length f) :: u8" let ?len = "Suc (length f + length (enc_frames fs))"
  have len: "length (bq_b q) = Q_SZ" "?len \<le> Q_SZ" "bq_t q = bq_h q + of_nat ?len"
    using q by (simp_all add: q_holds_def)
  have n: "unat ?n = length f" using f(1) by (rule unat_of_nat_u8)
  note g = q_holds_get [OF q [unfolded enc_frames_simps]]
  have d: "bq_t q - bq_h q = of_nat ?len" using len(3) by simp
  have ul: "unat (of_nat ?len :: u32) = ?len" by (rule unat_of_nat_u32) (use len(2) in simp)
  then have ne: "bq_h q \<noteq> bq_t q" using d by (metis diff_self nat.distinct(1) unat_0)
  have "unat (1 + ucast ?n :: u32) = Suc (length f)"
    using f(1) n by (simp add: unat_word_ariths unsigned_ucast_eq take_bit_nat_eq_self)
  then have room: "\<not> bq_t q - bq_h q < 1 + ucast ?n"
    unfolding d by (simp only: word_less_nat_alt ul)
  let ?P = "\<lambda>i (q', out'). q_holds q' (drop i f @ enc_frames fs) \<and> out' = take i f @ drop i out"
  have "\<exists>r. for_lt (length f) (\<lambda>i (q, out). do {
            x \<leftarrow> rd (bq_b q) (unat (bq_h q) mod Q_SZ);
            out \<leftarrow> wr out i x;
            Some (q\<lparr>bq_h := bq_h q + 1\<rparr>, out) }) (q\<lparr>bq_h := bq_h q + 1\<rparr>, out) = Some r \<and> ?P (length f) r"
  proof (rule for_lt_inv [where P = ?P])
    fix i and r :: "BQ \<times> bytes" assume i: "i < length f" and P: "?P i r"
    obtain q' where r: "r = (q', take i f @ drop i out)" "q_holds q' (drop i f @ enc_frames fs)"
      using P by (cases r) auto
    have "drop i f @ enc_frames fs = f ! i # drop (Suc i) f @ enc_frames fs" using i by (simp add: Cons_nth_drop_Suc)
    note g = q_holds_get [OF r(2) [unfolded this]]
    have "(take i f @ drop i out)[i := f ! i] = take (Suc i) f @ drop (Suc i) out"
      using i f(2) by (simp add: take_Suc_conv_app_nth list_update_append flip: Cons_nth_drop_Suc)
    moreover have "length (bq_b q') = Q_SZ" using r(2) by (simp add: q_holds_def)
    ultimately show "\<exists>r'. (\<lambda>(q, out). do {
            x \<leftarrow> rd (bq_b q) (unat (bq_h q) mod Q_SZ);
            out \<leftarrow> wr out i x;
            Some (q\<lparr>bq_h := bq_h q + 1\<rparr>, out) }) r = Some r' \<and> ?P (Suc i) r'"
      using r g i f(2) by simp
  qed (use g(2) in simp)
  then obtain q' where l: "for_lt (length f) (\<lambda>i (q, out). do {
            x \<leftarrow> rd (bq_b q) (unat (bq_h q) mod Q_SZ);
            out \<leftarrow> wr out i x;
            Some (q\<lparr>bq_h := bq_h q + 1\<rparr>, out) }) (q\<lparr>bq_h := bq_h q + 1\<rparr>, out) = Some (q', f @ drop (length f) out)"
    "q_holds q' (enc_frames fs)" by auto
  have "rd (bq_b q) (unat (bq_h q) mod Q_SZ) = Some ?n" using len(1) g(1) by (simp add: rd_def)
  moreover have "ucast ?n = (of_nat (length f) :: u32)"
  proof (rule unat_eqI)
    have "length f < 2 ^ 32" using f(1) by simp
    then show "unat (ucast ?n :: u32) = unat (of_nat (length f) :: u32)"
      by (simp only: unat_ucast_u8_u32 n unat_of_nat_u32)
  qed
  ultimately show ?thesis using ne room l n by (simp add: q_pop_def)
qed

lemma q_pop_empty: "q_holds q (enc_frames []) \<Longrightarrow> q_pop q out = Some (0, q, out, 0)"
  by (simp add: q_holds_def q_pop_def)

text \<open>C26: The byte queues of the demonstration are lists of frames: whatever the positions of the
  two counters, also where they wrap, pushing a frame appends it as long as it fits, popping
  yields the oldest frame whole and removes it, and popping an empty queue yields nothing.\<close>

theorem queue_refines_list:
  assumes "q_holds q (enc_frames fs)"
  shows "(unat n \<le> length f \<and> length (enc_frames fs) + Suc (unat n) \<le> Q_SZ \<longrightarrow>
      (\<exists>q'. q_push_frame q f n = Some q' \<and> q_holds q' (enc_frames (fs @ [take (unat n) f]))))
    \<and> (\<forall>g gs. fs = g # gs \<and> length g < 256 \<and> length g \<le> length out \<longrightarrow>
      (\<exists>q'. q_pop q out = Some (1, q', g @ drop (length g) out, of_nat (length g)) \<and> q_holds q' (enc_frames gs)))
    \<and> (fs = [] \<longrightarrow> q_pop q out = Some (0, q, out, 0))"
  using q_push_frame_holds [OF assms, of n f] q_pop_holds [of q _ _ out] q_pop_empty [of q out] assms by auto

definition wrapping_queue :: BQ where
  "wrapping_queue = \<lparr>bq_b = replicate Q_SZ 0, bq_h = 0xFFFFFFFE, bq_t = 0xFFFFFFFE\<rparr>"

theorem queue_refines_list_witness:
  "(\<exists>q'. q_push_frame wrapping_queue [1, 2, 3] 3 = Some q' \<and> q_holds q' (enc_frames [[1, 2, 3]]))
   \<and> q_pop wrapping_queue [0] = Some (0, wrapping_queue, [0], 0)"
proof -
  have h: "q_holds wrapping_queue (enc_frames [])" by (simp add: q_holds_def wrapping_queue_def)
  have n: "unat (3 :: u8) = 3" by simp
  show ?thesis using queue_refines_list [OF h, of 3 "[1, 2, 3]" "[0]"] by (simp only: n) simp
qed

section \<open>The hardware abstraction\<close>

text \<open>The two queues and the position in the training data; the clock is a parameter.\<close>

record demo_env =
  de_h2s :: BQ
  de_s2h :: BQ
  de_sidx :: u16

definition demo_send :: "bytes \<Rightarrow> u8 \<Rightarrow> demo_env \<Rightarrow> (int \<times> demo_env) option" where
  "demo_send b n e = do { q \<leftarrow> q_push_frame (de_s2h e) b n; Some (0, e\<lparr>de_s2h := q\<rparr>) }"

definition demo_recv :: "bytes \<Rightarrow> u8 \<Rightarrow> u32 \<Rightarrow> demo_env \<Rightarrow> (int \<times> bytes \<times> u8 \<times> demo_env) option" where
  "demo_recv b n t e =
     do { (got, q, b, r) \<leftarrow> q_pop (de_h2s e) b;
          Some (if got \<noteq> 0 then 0 else 1, b, ucast r, e\<lparr>de_h2s := q\<rparr>) }"

definition demo_hal :: "(demo_env \<Rightarrow> u32 \<times> demo_env) \<Rightarrow> demo_env FLHal" where
  "demo_hal clock =
     \<lparr>hal_lora_send = demo_send, hal_lora_recv = demo_recv, hal_lora_set_sf = None,
      hal_sleep_ms = (\<lambda>_ e. e), hal_deep_sleep_rtc = Some (\<lambda>_ e. e), hal_get_tick_ms = clock,
      hal_nvs_write = Some (\<lambda>_ _ _ e. Some (0, e)), hal_nvs_read = Some (\<lambda>_ d _ e. Some (- 1, d, e)),
      hal_log = None\<rparr>"

definition demo_ok :: "demo_env \<Rightarrow> bool" where
  "demo_ok e \<longleftrightarrow> (\<exists>fs. q_holds (de_h2s e) (enc_frames fs) \<and> (\<forall>f \<in> set fs. length f \<le> FL_FRAME_MAX_SIZE))
     \<and> length (bq_b (de_s2h e)) = Q_SZ"

lemma q_push_total:
  assumes "length (bq_b q) = Q_SZ" "unat n \<le> length d"
  shows "\<exists>q'. q_push q d n = Some q' \<and> length (bq_b q') = Q_SZ"
  unfolding q_push_def by (rule for_lt_keeps) (use assms in auto)

lemma demo_send_ok:
  assumes "demo_ok e" "unat n \<le> length b"
  shows "\<exists>e'. demo_send b n e = Some (0, e') \<and> demo_ok e'"
proof -
  have "length (bq_b (de_s2h e)) = Q_SZ" using assms(1) by (simp add: demo_ok_def)
  then obtain q1 where q1: "q_push (de_s2h e) [n] 1 = Some q1" "length (bq_b q1) = Q_SZ"
    using q_push_total [of "de_s2h e" 1 "[n]"] by auto
  obtain q2 where q2: "q_push q1 b (ucast n) = Some q2" "length (bq_b q2) = Q_SZ"
    using q_push_total [OF q1(2), of "ucast n" b] assms(2) by auto
  show ?thesis using q1 q2 assms(1) by (simp add: demo_send_def q_push_frame_def demo_ok_def)
qed

lemma demo_recv_ok:
  assumes "demo_ok e" "length b = FL_FRAME_MAX_SIZE"
  shows "\<exists>r b' n' e'. demo_recv b n t e = Some (r, b', n', e') \<and> length b' = FL_FRAME_MAX_SIZE
    \<and> unat n' \<le> FL_FRAME_MAX_SIZE \<and> demo_ok e'"
proof -
  obtain fs where fs: "q_holds (de_h2s e) (enc_frames fs)" "\<forall>f \<in> set fs. length f \<le> FL_FRAME_MAX_SIZE"
    "length (bq_b (de_s2h e)) = Q_SZ" using assms(1) by (auto simp: demo_ok_def)
  show ?thesis
  proof (cases fs)
    case Nil
    then show ?thesis using fs assms(1) q_pop_empty [of "de_h2s e" b] assms(2) by (simp add: demo_recv_def)
  next
    case (Cons f gs)
    then have l: "length f \<le> 224" using fs(2) by simp
    obtain q' where q': "q_pop (de_h2s e) b = Some (1, q', f @ drop (length f) b, of_nat (length f))" "q_holds q' (enc_frames gs)"
      using q_pop_holds [of "de_h2s e" f gs b] fs(1) Cons l assms(2) by auto
    have "unat (ucast (of_nat (length f) :: u32) :: u8) = length f"
      using l by (simp add: unsigned_ucast_eq unsigned_of_nat take_bit_nat_eq_self)
    then show ?thesis using q' fs Cons l assms(2) by (auto simp: demo_recv_def demo_ok_def)
  qed
qed

interpretation demo_hal: hal_contract "demo_hal clock" demo_ok for clock
proof unfold_locales
  fix e and n :: u8 and b
  assume "demo_ok e" "unat n \<le> length (b :: bytes)"
  then show "\<exists>r e'. hal_lora_send (demo_hal clock) b n e = Some (r, e') \<and> demo_ok e'"
    using demo_send_ok [of e n b] by (auto simp: demo_hal_def)
qed (use demo_recv_ok in \<open>auto simp: demo_hal_def\<close>)

text \<open>C7: Receiving is safe against every input: a shard that listens (idle, awaiting the
  acknowledgement, receiving the delta) handles whatever bytes the radio delivers, truncated,
  corrupted or malicious, without leaving its buffers, and stays well formed, as long as the
  hardware abstraction keeps its contract, in particular delivers no more than a frame.\<close>

theorem listening_is_safe:
  assumes "hal_contract (sh_hal (sy_shard y)) ok" and "ok (sy_env y)" and "wf_shard (sy_shard y)" and "wf_locals junk"
    and "sys_state y \<in> {FL_SHARD_STATE_IDLE, FL_SHARD_STATE_AWAIT_ACK, FL_SHARD_STATE_RECV_DELTA}"
  shows "\<exists>st y'. fl_shard_tick lm cb junk y = Some (st, y') \<and> wf_shard (sy_shard y') \<and> ok (sy_env y')"
  using hal_contract.listen_tick_good [OF assms(1), of y junk lm cb] assms
  by (auto simp: hal_contract.good_def [OF assms(1)])

definition idle_locals :: locals where
  "idle_locals = \<lparr>jk_frame = encoded_frame FL_FRAME_ACK 0 0 0 0 [], jk_payload = replicate FL_PAYLOAD_MAX 0,
     jk_floats = replicate FL_MODEL_MAX_PARAMS 0, jk_bytes = replicate (4 * FL_MODEL_MAX_PARAMS) 0\<rparr>"

definition idle_demo :: "demo_env sys" where
  "idle_demo = \<lparr>sy_shard = zero_shard (demo_hal (\<lambda>e. (0, e))) 1 zero_model, sy_train = fresh_training,
     sy_env = \<lparr>de_h2s = wrapping_queue, de_s2h = wrapping_queue, de_sidx = 0\<rparr>\<rparr>"

theorem listening_is_safe_witness:
  "\<forall>lm cb. \<exists>st y'. fl_shard_tick lm cb idle_locals idle_demo = Some (st, y') \<and> wf_shard (sy_shard y') \<and> demo_ok (sy_env y')"
proof (intro allI listening_is_safe)
  show "hal_contract (sh_hal (sy_shard idle_demo)) demo_ok"
    using demo_hal.hal_contract_axioms by (simp add: idle_demo_def zero_shard_def)
  have "q_holds wrapping_queue (enc_frames [])" by (simp add: q_holds_def wrapping_queue_def)
  then show "demo_ok (sy_env idle_demo)"
    by (auto simp: idle_demo_def demo_ok_def wrapping_queue_def intro!: exI [of _ "[]"])
qed (simp_all add: idle_demo_def idle_locals_def zero_shard_def wf_shard_def wf_locals_def wf_frame_def zero_sparse_def
    wf_sparse_def zero_model_def wf_crypto_def)

end
