(* ===== verification/Fragment_Pool.thy ===== *)
theory Fragment_Pool
  imports Sparse
begin

text \<open>
  Reassembly of the update fragments of several shards: \<^verbatim>\<open>herald/include/fl_fragment_pool.h\<close>
  and \<^verbatim>\<open>herald/src/fl_fragment_pool.c\<close>. A pointer to a slot is its index; \<open>now\<close> is the value
  of \<^verbatim>\<open>time(NULL)\<close> at the call.
\<close>

datatype FLFragSlotState =
  FL_FRAG_SLOT_EMPTY | FL_FRAG_SLOT_ACTIVE | FL_FRAG_SLOT_COMPLETE | FL_FRAG_SLOT_EXPIRED

record FLFragSlot =
  sl_state :: FLFragSlotState
  sl_shard_id :: u16
  sl_round_id :: u8
  sl_frag_total :: u8
  sl_frag_received :: u8
  sl_frag_bitmap :: bytes
  sl_sparse_buf :: FLSparseBuffer
  sl_last_frag_at :: int

record FLFragmentPool =
  fp_slots :: "FLFragSlot list"
  fp_frag_timeout_s :: u32
  fp_total_complete :: u32
  fp_total_dropped :: u32

abbreviation FL_FRAG_BITMAP_SIZE :: nat where
  "FL_FRAG_BITMAP_SIZE \<equiv> 5"  \<comment> \<open>\<^verbatim>\<open>FL_POOL_MAX_FRAGS / 8 + 1\<close>\<close>

text \<open>What \<^verbatim>\<open>memset(slot, 0, sizeof(FLFragSlot))\<close> leaves.\<close>

definition zero_slot :: FLFragSlot where
  "zero_slot =
     \<lparr>sl_state = FL_FRAG_SLOT_EMPTY, sl_shard_id = 0, sl_round_id = 0, sl_frag_total = 0,
      sl_frag_received = 0, sl_frag_bitmap = replicate FL_FRAG_BITMAP_SIZE 0,
      sl_sparse_buf = sparse_blank, sl_last_frag_at = 0\<rparr>"

definition fl_pool_init :: "u32 \<Rightarrow> FLFragmentPool" where
  "fl_pool_init timeout =
     \<lparr>fp_slots = replicate FL_POOL_MAX_SHARDS zero_slot, fp_frag_timeout_s = timeout,
      fp_total_complete = 0, fp_total_dropped = 0\<rparr>"

text \<open>The first index of the array whose slot satisfies a test.\<close>

definition first_slot :: "(FLFragSlot \<Rightarrow> bool) \<Rightarrow> FLFragmentPool \<Rightarrow> nat option" where
  "first_slot P pool = find (\<lambda>i. P (fp_slots pool ! i)) [0..<FL_POOL_MAX_SHARDS]"

definition find_slot :: "FLFragmentPool \<Rightarrow> u16 \<Rightarrow> nat option" where
  "find_slot pool shard_id =
     first_slot (\<lambda>s. sl_state s = FL_FRAG_SLOT_ACTIVE \<and> sl_shard_id s = shard_id) pool"

definition alloc_slot :: "FLFragmentPool \<Rightarrow> nat option" where
  "alloc_slot pool = first_slot (\<lambda>s. sl_state s = FL_FRAG_SLOT_EMPTY) pool"

text \<open>The rest of \<^verbatim>\<open>fl_pool_ingest\<close> once the slot \<open>k\<close> is known.\<close>

definition ingest_slot ::
  "int \<Rightarrow> FLFragmentPool \<Rightarrow> nat \<Rightarrow> FLFrame \<Rightarrow> u8 \<Rightarrow> (int \<times> FLFragmentPool) option" where
  "ingest_slot now pool k frame payload_len =
     (let s = fp_slots pool ! k; i = unat (fr_frag_index frame) in do {
       dup \<leftarrow> bm_test (sl_frag_bitmap s) i;
       if dup then Some (0, pool)
       else do {
         bm \<leftarrow> bm_set (sl_frag_bitmap s) i;
         let s = s\<lparr>sl_frag_bitmap := bm, sl_frag_received := sl_frag_received s + 1,
                   sl_last_frag_at := now\<rparr>;
         (_, buf) \<leftarrow> fl_sparse_read_fragment (fr_payload frame) payload_len (sl_sparse_buf s);
         let s = s\<lparr>sl_sparse_buf := buf\<rparr>;
         if sl_frag_total s \<le> sl_frag_received s then
           Some (1, pool\<lparr>fp_slots := (fp_slots pool)[k := s\<lparr>sl_state := FL_FRAG_SLOT_COMPLETE\<rparr>],
                         fp_total_complete := fp_total_complete pool + 1\<rparr>)
         else Some (0, pool\<lparr>fp_slots := (fp_slots pool)[k := s]\<rparr>) } })"

definition fl_pool_ingest ::
  "int \<Rightarrow> FLFragmentPool \<Rightarrow> FLFrame \<Rightarrow> u8 \<Rightarrow> (int \<times> FLFragmentPool) option" where
  "fl_pool_ingest now pool frame payload_len =
     (let shard_id = fr_shard_id frame; frag_idx = fr_frag_index frame;
          frag_tot = fr_frag_total frame in
      if of_nat FL_POOL_MAX_FRAGS < frag_tot then Some (- 1, pool)
      else case find_slot pool shard_id of
        Some k \<Rightarrow> ingest_slot now pool k frame payload_len
      | None \<Rightarrow>
          if frag_idx \<noteq> 0 then Some (- 1, pool)
          else case alloc_slot pool of
            None \<Rightarrow> Some (- 1, pool)
          | Some k \<Rightarrow>
              ingest_slot now
                (pool\<lparr>fp_slots := (fp_slots pool)[k := zero_slot\<lparr>sl_state := FL_FRAG_SLOT_ACTIVE,
                   sl_shard_id := shard_id, sl_round_id := fr_round_id frame,
                   sl_frag_total := frag_tot\<rparr>]\<rparr>) k frame payload_len)"

definition fl_pool_get_complete :: "FLFragmentPool \<Rightarrow> u16 \<Rightarrow> FLSparseBuffer ptr" where
  "fl_pool_get_complete pool shard_id =
     map_option (\<lambda>i. sl_sparse_buf (fp_slots pool ! i))
       (first_slot (\<lambda>s. sl_state s = FL_FRAG_SLOT_COMPLETE \<and> sl_shard_id s = shard_id) pool)"

definition fl_pool_release :: "FLFragmentPool \<Rightarrow> u16 \<Rightarrow> FLFragmentPool" where
  "fl_pool_release pool shard_id =
     pool\<lparr>fp_slots := map (\<lambda>s. if sl_shard_id s = shard_id then zero_slot else s) (fp_slots pool)\<rparr>"

definition slot_expired :: "int \<Rightarrow> FLFragmentPool \<Rightarrow> FLFragSlot \<Rightarrow> bool" where
  "slot_expired now pool s \<longleftrightarrow> sl_state s = FL_FRAG_SLOT_ACTIVE
     \<and> uint (fp_frag_timeout_s pool) < now - sl_last_frag_at s"

definition fl_pool_expire :: "int \<Rightarrow> FLFragmentPool \<Rightarrow> nat \<times> FLFragmentPool" where
  "fl_pool_expire now pool =
     fold_lt FL_POOL_MAX_SHARDS (\<lambda>i (expired, p).
       if slot_expired now p (fp_slots p ! i)
       then (expired + 1, p\<lparr>fp_total_dropped := fp_total_dropped p + 1,
                            fp_slots := (fp_slots p)[i := zero_slot]\<rparr>)
       else (expired, p)) (0, pool)"

definition fl_pool_complete_count :: "FLFragmentPool \<Rightarrow> u8" where
  "fl_pool_complete_count pool =
     fold_lt FL_POOL_MAX_SHARDS (\<lambda>i n.
       if sl_state (fp_slots pool ! i) = FL_FRAG_SLOT_COMPLETE then n + 1 else n) 0"


section \<open>The invariant of the pool\<close>

definition slot_frags :: "FLFragSlot \<Rightarrow> nat set" where
  "slot_frags s = {i. i < 8 * FL_FRAG_BITMAP_SIZE \<and> bm_mem (sl_frag_bitmap s) i}"

definition wf_slot :: "FLFragSlot \<Rightarrow> bool" where
  "wf_slot s \<longleftrightarrow> length (sl_frag_bitmap s) = FL_FRAG_BITMAP_SIZE \<and> wf_sparse (sl_sparse_buf s)
     \<and> unat (sl_frag_received s) = card (slot_frags s) \<and> unat (sl_frag_total s) \<le> FL_POOL_MAX_FRAGS
     \<and> (sl_state s = FL_FRAG_SLOT_ACTIVE \<longrightarrow> sl_frag_received s < sl_frag_total s)
     \<and> sl_state s \<noteq> FL_FRAG_SLOT_EXPIRED"

definition wf_pool :: "FLFragmentPool \<Rightarrow> bool" where
  "wf_pool pool \<longleftrightarrow> length (fp_slots pool) = FL_POOL_MAX_SHARDS \<and> (\<forall>s \<in> set (fp_slots pool). wf_slot s)
     \<and> (\<forall>i < FL_POOL_MAX_SHARDS. \<forall>j < FL_POOL_MAX_SHARDS.
          sl_state (fp_slots pool ! i) = FL_FRAG_SLOT_ACTIVE \<and> sl_state (fp_slots pool ! j) = FL_FRAG_SLOT_ACTIVE
          \<and> sl_shard_id (fp_slots pool ! i) = sl_shard_id (fp_slots pool ! j) \<longrightarrow> i = j)"

lemma finite_slot_frags [simp]: "finite (slot_frags s)"
  by (simp add: slot_frags_def)

lemma card_slot_frags: "card (slot_frags s) \<le> 40"
proof -
  have "slot_frags s \<subseteq> {..<40}" by (auto simp: slot_frags_def)
  from card_mono [OF _ this] show ?thesis by simp
qed

lemma slot_frags_zero [simp]: "slot_frags zero_slot = {}"
  by (auto simp: slot_frags_def zero_slot_def bm_mem_def nth_Cons' less_mult_imp_div_less)

lemma wf_zero_slot [simp]: "wf_slot zero_slot"
  using slot_frags_zero by (simp add: wf_slot_def) (simp add: zero_slot_def)

lemma first_slot_Some:
  "first_slot P pool = Some k \<Longrightarrow> k < FL_POOL_MAX_SHARDS \<and> P (fp_slots pool ! k)"
  unfolding first_slot_def by (auto simp: find_Some_iff)

lemma first_slot_None:
  "first_slot P pool = None \<longleftrightarrow> (\<forall>k < FL_POOL_MAX_SHARDS. \<not> P (fp_slots pool ! k))"
  unfolding first_slot_def by (auto simp: find_None_iff)

text \<open>One fragment that is not a duplicate, put into a slot.\<close>

definition slot_add :: "int \<Rightarrow> FLFragSlot \<Rightarrow> bytes \<Rightarrow> FLSparseBuffer \<Rightarrow> FLFragSlot" where
  "slot_add now s bm buf = s\<lparr>sl_frag_bitmap := bm, sl_frag_received := sl_frag_received s + 1,
     sl_last_frag_at := now, sl_sparse_buf := buf\<rparr>"

lemma slot_add_simps [simp]:
  "sl_state (slot_add now s bm buf) = sl_state s" "sl_shard_id (slot_add now s bm buf) = sl_shard_id s"
  "sl_frag_total (slot_add now s bm buf) = sl_frag_total s"
  "sl_frag_received (slot_add now s bm buf) = sl_frag_received s + 1"
  "sl_frag_bitmap (slot_add now s bm buf) = bm" "sl_sparse_buf (slot_add now s bm buf) = buf"
  by (simp_all add: slot_add_def)


text \<open>A slot while it collects: \<open>wf_slot\<close> without the bound on the fragments still expected,
  which a slot claimed for an update of zero fragments does not meet yet.\<close>

definition open_slot :: "FLFragSlot \<Rightarrow> bool" where
  "open_slot s \<longleftrightarrow> sl_state s = FL_FRAG_SLOT_ACTIVE \<and> length (sl_frag_bitmap s) = FL_FRAG_BITMAP_SIZE
     \<and> wf_sparse (sl_sparse_buf s) \<and> unat (sl_frag_received s) = card (slot_frags s)
     \<and> unat (sl_frag_total s) \<le> FL_POOL_MAX_FRAGS"

lemma open_slotI: "wf_slot s \<Longrightarrow> sl_state s = FL_FRAG_SLOT_ACTIVE \<Longrightarrow> open_slot s"
  by (simp add: wf_slot_def open_slot_def)

lemma ingest_slot_dup:
  assumes "open_slot (fp_slots pool ! k)" and "unat (fr_frag_index f) \<in> slot_frags (fp_slots pool ! k)"
  shows "ingest_slot now pool k f n = Some (0, pool)"
  using assms by (auto simp: ingest_slot_def Let_def open_slot_def slot_frags_def
      less_mult_imp_div_less)

lemma ingest_slot_new:
  assumes s: "open_slot s" "s = fp_slots pool ! k" and i: "i = unat (fr_frag_index f)"
    and i40: "i < 40" and new: "i \<notin> slot_frags s"
    and n: "unat n \<le> length (fr_payload f)"
  obtains bm buf r where "fl_sparse_read_fragment (fr_payload f) n (sl_sparse_buf s) = Some (r, buf)"
    and "slot_frags (slot_add now s bm buf) = insert i (slot_frags s)"
    and "length bm = FL_FRAG_BITMAP_SIZE" and "wf_sparse buf"
    and "unat (sl_frag_received s + 1) = card (slot_frags (slot_add now s bm buf))"
    and "ingest_slot now pool k f n = Some
      (if sl_frag_total s \<le> sl_frag_received s + 1 then
         (1, pool\<lparr>fp_slots := (fp_slots pool)[k := slot_add now s bm buf\<lparr>sl_state := FL_FRAG_SLOT_COMPLETE\<rparr>],
                  fp_total_complete := fp_total_complete pool + 1\<rparr>)
       else (0, pool\<lparr>fp_slots := (fp_slots pool)[k := slot_add now s bm buf]\<rparr>))"
proof -
  note S = s(1) [unfolded open_slot_def]
  have i8: "i div 8 < length (sl_frag_bitmap s)" using S i40 by (simp add: less_mult_imp_div_less)
  obtain bm where bm: "bm_set (sl_frag_bitmap s) i = Some bm" "length bm = length (sl_frag_bitmap s)"
    "\<And>j. bm_mem bm j \<longleftrightarrow> i = j \<or> bm_mem (sl_frag_bitmap s) j" by (rule bm_set_total [OF i8]) blast
  obtain r buf where buf: "fl_sparse_read_fragment (fr_payload f) n (sl_sparse_buf s) = Some (r, buf)"
    "wf_sparse buf"
    by (rule read_fragment_total [OF _ n, of "sl_sparse_buf s"]) (use S in blast)+
  have fr: "slot_frags (slot_add now s bm buf) = insert i (slot_frags s)"
    using i40 bm(3) by (auto simp: slot_frags_def)
  have "card (slot_frags s) \<le> 40" by (rule card_slot_frags)
  then have "unat (sl_frag_received s + 1) = card (slot_frags s) + 1"
    using S by (simp add: unat_word_ariths)
  moreover have "card (slot_frags (slot_add now s bm buf)) = card (slot_frags s) + 1"
    using new by (simp add: fr)
  ultimately have rec: "unat (sl_frag_received s + 1) = card (slot_frags (slot_add now s bm buf))"
    by simp
  have t: "bm_test (sl_frag_bitmap s) i = Some False"
    using i8 new i40 by (simp add: slot_frags_def)
  have "ingest_slot now pool k f n = Some
      (if sl_frag_total s \<le> sl_frag_received s + 1 then
         (1, pool\<lparr>fp_slots := (fp_slots pool)[k := slot_add now s bm buf\<lparr>sl_state := FL_FRAG_SLOT_COMPLETE\<rparr>],
                  fp_total_complete := fp_total_complete pool + 1\<rparr>)
       else (0, pool\<lparr>fp_slots := (fp_slots pool)[k := slot_add now s bm buf]\<rparr>))"
    unfolding ingest_slot_def Let_def s(2) [symmetric] i [symmetric]
    using t bm(1) buf(1) by (simp add: slot_add_def)
  then show ?thesis using that buf fr rec bm(2) S by metis
qed


lemma wf_slot_add:
  assumes "open_slot s" and "length bm = FL_FRAG_BITMAP_SIZE" and "wf_sparse buf"
    and "unat (sl_frag_received s + 1) = card (slot_frags (slot_add now s bm buf))"
  shows "wf_slot (slot_add now s bm buf\<lparr>sl_state := FL_FRAG_SLOT_COMPLETE\<rparr>)"
    and "\<not> sl_frag_total s \<le> sl_frag_received s + 1 \<Longrightarrow> wf_slot (slot_add now s bm buf)"
  using assms by (simp_all add: open_slot_def wf_slot_def not_le) (simp_all add: slot_frags_def)

text \<open>Replacing one slot.\<close>

lemma wf_pool_update:
  assumes "wf_pool pool" and "k < FL_POOL_MAX_SHARDS" and "wf_slot s"
    and "sl_state s = FL_FRAG_SLOT_ACTIVE \<Longrightarrow>
      \<forall>i < FL_POOL_MAX_SHARDS. i \<noteq> k \<and> sl_state (fp_slots pool ! i) = FL_FRAG_SLOT_ACTIVE
        \<longrightarrow> sl_shard_id (fp_slots pool ! i) \<noteq> sl_shard_id s"
  shows "wf_pool (pool\<lparr>fp_slots := (fp_slots pool)[k := s]\<rparr>)"
  using assms unfolding wf_pool_def
  by (auto simp: nth_list_update dest!: set_update_subset_insert [THEN subsetD])

lemma wf_pool_more [simp]:
  "wf_pool (pool\<lparr>fp_slots := x, fp_total_complete := c\<rparr>) = wf_pool (pool\<lparr>fp_slots := x\<rparr>)"
  "wf_pool (pool\<lparr>fp_total_dropped := c, fp_slots := x\<rparr>) = wf_pool (pool\<lparr>fp_slots := x\<rparr>)"
  by (simp_all add: wf_pool_def)

lemma wf_pool_slot: "wf_pool pool \<Longrightarrow> k < FL_POOL_MAX_SHARDS \<Longrightarrow> wf_slot (fp_slots pool ! k)"
  by (simp add: wf_pool_def)

lemma wf_pool_init [simp]: "wf_pool (fl_pool_init t)"
  by (auto simp: wf_pool_def fl_pool_init_def) (simp_all add: zero_slot_def)

text \<open>The slot \<^verbatim>\<open>fl_pool_ingest\<close> works on, and the pool it works in.\<close>

definition fresh_slot :: "FLFrame \<Rightarrow> FLFragSlot" where
  "fresh_slot f = zero_slot\<lparr>sl_state := FL_FRAG_SLOT_ACTIVE, sl_shard_id := fr_shard_id f,
     sl_round_id := fr_round_id f, sl_frag_total := fr_frag_total f\<rparr>"

lemma fresh_slot_simps [simp]:
  "slot_frags (fresh_slot f) = {}" "sl_shard_id (fresh_slot f) = fr_shard_id f"
  "sl_frag_total (fresh_slot f) = fr_frag_total f" "sl_frag_received (fresh_slot f) = 0"
  "sl_state (fresh_slot f) = FL_FRAG_SLOT_ACTIVE" "sl_sparse_buf (fresh_slot f) = sparse_blank"
  "unat (fr_frag_total f) \<le> 32 \<Longrightarrow> open_slot (fresh_slot f)"
  using slot_frags_zero by (simp_all add: fresh_slot_def slot_frags_def open_slot_def)
    (simp_all add: zero_slot_def)

lemma ingest_slot_wf:
  assumes pool: "wf_pool pool" and k: "k < FL_POOL_MAX_SHARDS"
    and s: "open_slot s" "sl_shard_id s = fr_shard_id f"
    and uniq: "\<forall>i < FL_POOL_MAX_SHARDS. i \<noteq> k \<and> sl_state (fp_slots pool ! i) = FL_FRAG_SLOT_ACTIVE
        \<longrightarrow> sl_shard_id (fp_slots pool ! i) \<noteq> fr_shard_id f"
    and i: "unat (fr_frag_index f) < 40" "unat (fr_frag_index f) \<notin> slot_frags s"
    and n: "unat n \<le> length (fr_payload f)"
  shows "\<exists>r pool'. ingest_slot now (pool\<lparr>fp_slots := (fp_slots pool)[k := s]\<rparr>) k f n = Some (r, pool')
    \<and> wf_pool pool'"
proof -
  let ?p = "pool\<lparr>fp_slots := (fp_slots pool)[k := s]\<rparr>"
  have sk: "s = fp_slots ?p ! k" using pool k by (simp add: wf_pool_def)
  obtain bm buf r where new: "length bm = FL_FRAG_BITMAP_SIZE" "wf_sparse buf"
    "unat (sl_frag_received s + 1) = card (slot_frags (slot_add now s bm buf))"
    "ingest_slot now ?p k f n = Some
      (if sl_frag_total s \<le> sl_frag_received s + 1 then
         (1, ?p\<lparr>fp_slots := (fp_slots ?p)[k := slot_add now s bm buf\<lparr>sl_state := FL_FRAG_SLOT_COMPLETE\<rparr>],
                fp_total_complete := fp_total_complete ?p + 1\<rparr>)
       else (0, ?p\<lparr>fp_slots := (fp_slots ?p)[k := slot_add now s bm buf]\<rparr>))"
    by (rule ingest_slot_new [OF s(1) sk refl i(1,2) n])
  note wf = wf_slot_add [OF s(1) new(1-3)]
  show ?thesis
  proof (cases "sl_frag_total s \<le> sl_frag_received s + 1")
    case True
    have "wf_pool (pool\<lparr>fp_slots := (fp_slots pool)
        [k := slot_add now s bm buf\<lparr>sl_state := FL_FRAG_SLOT_COMPLETE\<rparr>]\<rparr>)"
      by (rule wf_pool_update [OF pool k wf(1)]) simp
    then show ?thesis using True by (simp add: new(4))
  next
    case False
    have "wf_pool (pool\<lparr>fp_slots := (fp_slots pool)[k := slot_add now s bm buf]\<rparr>)"
      by (rule wf_pool_update [OF pool k wf(2) [OF False]]) (use uniq s(2) in simp)
    then show ?thesis using False by (simp add: new(4))
  qed
qed

lemma pool_ingest_total:
  assumes "wf_pool pool" and "unat (fr_frag_index f) < 40" and "unat n \<le> length (fr_payload f)"
  shows "\<exists>r pool'. fl_pool_ingest now pool f n = Some (r, pool') \<and> wf_pool pool'"
proof (cases "unat (fr_frag_total f) \<le> 32")
  case False
  then show ?thesis using assms(1) by (simp add: fl_pool_ingest_def Let_def word_less_nat_alt)
next
  case tot: True
  show ?thesis
  proof (cases "find_slot pool (fr_shard_id f)")
    case (Some k)
    let ?s = "fp_slots pool ! k"
    have k: "k < FL_POOL_MAX_SHARDS" "sl_state ?s = FL_FRAG_SLOT_ACTIVE" "sl_shard_id ?s = fr_shard_id f"
      using first_slot_Some [OF Some [unfolded find_slot_def]] by simp_all
    have op: "open_slot ?s" using k wf_pool_slot [OF assms(1) k(1)] by (intro open_slotI)
    have eq: "fl_pool_ingest now pool f n = ingest_slot now pool k f n"
      using tot Some by (simp add: fl_pool_ingest_def Let_def word_less_nat_alt)
    show ?thesis
    proof (cases "unat (fr_frag_index f) \<in> slot_frags ?s")
      case True
      then show ?thesis using ingest_slot_dup [OF op] assms(1) by (simp add: eq)
    next
      case False
      have "\<forall>i < FL_POOL_MAX_SHARDS. i \<noteq> k \<and> sl_state (fp_slots pool ! i) = FL_FRAG_SLOT_ACTIVE
          \<longrightarrow> sl_shard_id (fp_slots pool ! i) \<noteq> fr_shard_id f"
        using assms(1) k unfolding wf_pool_def by metis
      from ingest_slot_wf [OF assms(1) k(1) op k(3) this assms(2) False assms(3)]
      show ?thesis by (simp add: eq)
    qed
  next
    case None
    then have uniq: "\<forall>i < FL_POOL_MAX_SHARDS. sl_state (fp_slots pool ! i) = FL_FRAG_SLOT_ACTIVE
        \<longrightarrow> sl_shard_id (fp_slots pool ! i) \<noteq> fr_shard_id f"
      by (simp add: find_slot_def first_slot_None)
    show ?thesis
    proof (cases "fr_frag_index f \<noteq> 0 \<or> alloc_slot pool = None")
      case True
      then show ?thesis using tot None assms(1)
        by (auto simp: fl_pool_ingest_def Let_def word_less_nat_alt)
    next
      case False
      then obtain k where k: "alloc_slot pool = Some k" by auto
      have k64: "k < FL_POOL_MAX_SHARDS" using first_slot_Some [OF k [unfolded alloc_slot_def]] by simp
      have "fl_pool_ingest now pool f n
          = ingest_slot now (pool\<lparr>fp_slots := (fp_slots pool)[k := fresh_slot f]\<rparr>) k f n"
        using tot None False k
        by (simp add: fl_pool_ingest_def Let_def word_less_nat_alt fresh_slot_def)
      with ingest_slot_wf [OF assms(1) k64, of "fresh_slot f" f n now] tot uniq assms(2,3)
      show ?thesis by simp
    qed
  qed
qed


lemma wf_pool_release: "wf_pool pool \<Longrightarrow> wf_pool (fl_pool_release pool i)"
  unfolding wf_pool_def fl_pool_release_def by (auto simp: zero_slot_def split: if_splits)
    (use wf_zero_slot in \<open>simp add: zero_slot_def\<close>)

lemma wf_pool_expire: "wf_pool pool \<Longrightarrow> wf_pool (snd (fl_pool_expire now pool))"
  unfolding fl_pool_expire_def
  by (rule fold_lt_inv [where P = "\<lambda>_ r. wf_pool (snd r)"])
     (auto split: if_splits simp: zero_slot_def [THEN arg_cong, of sl_state] intro!: wf_pool_update)

text \<open>Every operation of the pool, with the frames the receive buffer can hold.\<close>

inductive pool_reachable :: "FLFragmentPool \<Rightarrow> bool" where
  init: "pool_reachable (fl_pool_init t)"
| ingest: "pool_reachable pool \<Longrightarrow> unat (fr_frag_index f) < 40 \<Longrightarrow> unat n \<le> length (fr_payload f)
    \<Longrightarrow> fl_pool_ingest now pool f n = Some (r, pool') \<Longrightarrow> pool_reachable pool'"
| release: "pool_reachable pool \<Longrightarrow> pool_reachable (fl_pool_release pool i)"
| expire: "pool_reachable pool \<Longrightarrow> pool_reachable (snd (fl_pool_expire now pool))"

lemma pool_reachable_wf: "pool_reachable pool \<Longrightarrow> wf_pool pool"
proof (induction rule: pool_reachable.induct)
  case (ingest pool f n now r pool')
  then show ?case using pool_ingest_total [of pool f n now] by auto
qed (simp_all add: wf_pool_release wf_pool_expire)

text \<open>C25: In every pool that any sequence of operations can reach, with fragment indices below 40,
  every slot's counter is the number of distinct fragments in its bitmap, its entry buffer is
  well formed, an active slot still misses a fragment and no shard has two active slots; and the
  next such frame is processed without undefined behaviour.\<close>

theorem fl_pool_invariant:
  assumes "pool_reachable pool" and "unat (fr_frag_index f) < 40" and "unat n \<le> length (fr_payload f)"
  shows "wf_pool pool \<and> fl_pool_ingest now pool f n \<noteq> None"
  using pool_reachable_wf [OF assms(1)] pool_ingest_total [of pool f n now] assms(2,3) by auto

lemma fl_pool_invariant_witness:
  "wf_pool (fl_pool_init 60)
   \<and> fl_pool_ingest 5 (fl_pool_init 60) (encoded_frame FL_FRAME_UPDATE 7 0 0 1 []) 0 \<noteq> None"
  by (rule fl_pool_invariant) (simp_all add: pool_reachable.init)

lemma bm_test_beyond: "length bm = FL_FRAG_BITMAP_SIZE \<Longrightarrow> 40 \<le> i \<Longrightarrow> bm_test bm i = None"
  using div_le_mono [of 40 i 8] by (simp add: bm_test_def)

text \<open>C36: When \<^verbatim>\<open>fl_pool_ingest\<close> leaves the bitmap of its slot: with a payload that is there, exactly for a frame of
  at most 32 fragments whose shard has an open slot and whose fragment index is 40 or more, where it
  reads beyond the five bytes of \<^verbatim>\<open>frag_bitmap\<close>; in every other case it is defined.\<close>

theorem fl_pool_ingest_out_of_bounds:
  assumes "wf_pool pool" and "unat n \<le> length (fr_payload f)"
  shows "fl_pool_ingest now pool f n = None \<longleftrightarrow>
    unat (fr_frag_total f) \<le> 32 \<and> find_slot pool (fr_shard_id f) \<noteq> None \<and> 40 \<le> unat (fr_frag_index f)"
proof (cases "unat (fr_frag_index f) < 40")
  case True
  then show ?thesis using pool_ingest_total [OF assms(1) True assms(2), of now] by auto
next
  case False
  then have ne: "fr_frag_index f \<noteq> 0" by auto
  show ?thesis
  proof (cases "find_slot pool (fr_shard_id f)")
    case None
    then show ?thesis using ne by (simp add: fl_pool_ingest_def Let_def)
  next
    case (Some k)
    then have "k < FL_POOL_MAX_SHARDS" using first_slot_Some [OF Some [unfolded find_slot_def]] by simp
    from wf_pool_slot [OF assms(1) this] have "bm_test (sl_frag_bitmap (fp_slots pool ! k)) (unat (fr_frag_index f)) = None"
      using False by (intro bm_test_beyond) (simp_all add: wf_slot_def)
    then show ?thesis
      using Some False by (simp add: fl_pool_ingest_def Let_def word_less_nat_alt ingest_slot_def)
  qed
qed

lemma first_slot_unique:
  assumes "k < FL_POOL_MAX_SHARDS" "P (fp_slots pool ! k)"
    and "\<forall>i < FL_POOL_MAX_SHARDS. i \<noteq> k \<longrightarrow> \<not> P (fp_slots pool ! i)"
  shows "first_slot P pool = Some k"
proof (cases "first_slot P pool")
  case None
  then show ?thesis using assms(1,2) by (simp add: first_slot_None)
next
  case (Some j)
  then show ?thesis using first_slot_Some [OF Some] assms(3) by auto
qed

definition sample_pool :: FLFragmentPool where
  "sample_pool = (fl_pool_init 60)\<lparr>fp_slots := (replicate FL_POOL_MAX_SHARDS zero_slot)
     [0 := fresh_slot (encoded_frame FL_FRAME_UPDATE 7 0 0 2 [])]\<rparr>"

lemma sample_pool:
  "wf_pool sample_pool" "find_slot sample_pool 7 = Some 0"
proof -
  let ?f = "encoded_frame FL_FRAME_UPDATE 7 0 0 2 []"
  have "open_slot (fresh_slot ?f)" by simp
  then have "wf_slot (fresh_slot ?f)" by (simp add: open_slot_def wf_slot_def)
  note up = wf_pool_update [OF wf_pool_init _ this, of 0 60]
  have "wf_pool ((fl_pool_init 60)\<lparr>fp_slots := (fp_slots (fl_pool_init 60))[0 := fresh_slot ?f]\<rparr>)"
    by (rule up) (simp_all add: fl_pool_init_def zero_slot_def)
  then show "wf_pool sample_pool" by (simp add: sample_pool_def fl_pool_init_def)
  show "find_slot sample_pool 7 = Some 0" unfolding find_slot_def
    by (rule first_slot_unique) (simp_all add: sample_pool_def fl_pool_init_def zero_slot_def)
qed

lemma fl_pool_ingest_out_of_bounds_witness:
  "fl_pool_ingest 9 sample_pool (encoded_frame FL_FRAME_UPDATE 7 0 200 2 []) 0 = None"
  by (subst fl_pool_ingest_out_of_bounds) (simp_all add: sample_pool)

section \<open>Reassembly of an update\<close>

text \<open>Events are frames with their arrival time and payload length.\<close>

fun pool_run ::
  "FLFragmentPool \<Rightarrow> (int \<times> FLFrame \<times> u8) list \<Rightarrow> (int list \<times> FLFragmentPool) option" where
  "pool_run pool [] = Some ([], pool)"
| "pool_run pool ((now, f, n) # es) =
     do { (r, pool) \<leftarrow> fl_pool_ingest now pool f n;
          (rs, pool) \<leftarrow> pool_run pool es;
          Some (r # rs, pool) }"

text \<open>The frame carries fragment \<open>i\<close> of a buffer.\<close>

definition carries :: "FLSparseBuffer \<Rightarrow> u16 \<Rightarrow> nat \<Rightarrow> int \<times> FLFrame \<times> u8 \<Rightarrow> bool" where
  "carries buf sid i e \<longleftrightarrow> (case e of (now, f, n) \<Rightarrow>
     fr_shard_id f = sid \<and> unat (fr_frag_index f) = i \<and> unat (fr_frag_total f) = frag_total buf
     \<and> wf_frame f \<and> n = of_nat (3 * length (frag_entries buf i))
     \<and> (\<exists>rest. fr_payload f = concat (map entry_bytes (frag_entries buf i)) @ rest))"

text \<open>The distinct fragments of a sequence, in order of first arrival.\<close>

definition arrivals :: "nat list \<Rightarrow> nat list" where
  "arrivals is = rev (remdups (rev is))"

lemma arrivals_simps [simp]:
  "arrivals [] = []" "set (arrivals is) = set is" "distinct (arrivals is)"
  "arrivals (is @ [i]) = (if i \<in> set is then arrivals is else arrivals is @ [i])"
  by (auto simp: arrivals_def)

definition frags_of :: "FLSparseBuffer \<Rightarrow> nat list \<Rightarrow> FLGradientEntry list" where
  "frags_of buf is = concat (map (frag_entries buf) (arrivals is))"

lemma frags_all: "wf_sparse buf \<Longrightarrow> concat (map (frag_entries buf) [0..<frag_total buf]) = sb_list buf"
  using frag_total_covers(1) [of buf] concat_chunks [of 71 "sb_list buf" "frag_total buf"]
  by (simp add: frag_entries_def [abs_def])

lemma length_concat_distinct:
  "distinct xs \<Longrightarrow> length (concat (map f xs)) = (\<Sum>x \<in> set xs. length (f x))"
  by (induction xs) auto

lemma length_frags:
  assumes "wf_sparse buf" "set is \<subseteq> {..<frag_total buf}"
  shows "length (frags_of buf is) \<le> 1024"
proof -
  let ?g = "\<lambda>i. length (frag_entries buf i)"
  have "length (frags_of buf is) = sum ?g (set is)"
    by (simp only: frags_of_def length_concat_distinct arrivals_simps)
  also have "\<dots> \<le> sum ?g {..<frag_total buf}" using assms(2) by (intro sum_mono2) simp_all
  also have "\<dots> = length (concat (map (frag_entries buf) [0..<frag_total buf]))"
    by (simp only: length_concat_distinct distinct_upt set_upt atLeast0LessThan)
  also have "\<dots> \<le> 1024"
    using assms(1) by (simp only: frags_all length_sb_list) (simp add: wf_sparse_def)
  finally show ?thesis .
qed

lemma mset_frags_of:
  assumes "wf_sparse buf" "set is = {..<frag_total buf}"
  shows "mset (frags_of buf is) = mset (sb_list buf)"
proof -
  have m: "mset (arrivals is) = mset [0..<frag_total buf]"
    using set_eq_iff_mset_eq_distinct [of "arrivals is" "[0..<frag_total buf]"] assms(2)
    by (simp add: lessThan_atLeast0)
  have "mset (frags_of buf is) = sum_mset (image_mset (mset \<circ> frag_entries buf) (mset (arrivals is)))"
    by (simp add: frags_of_def mset_concat flip: mset_map sum_mset_sum_list)
  also have "\<dots> = mset (concat (map (frag_entries buf) [0..<frag_total buf]))"
    unfolding m by (simp add: mset_concat del: mset_upt flip: mset_map sum_mset_sum_list)
  finally show ?thesis by (simp only: frags_all [OF assms(1)])
qed


text \<open>The state of a collection: slot \<open>k\<close> holds exactly what has arrived.\<close>

definition collecting ::
  "FLFragmentPool \<Rightarrow> nat \<Rightarrow> u16 \<Rightarrow> FLSparseBuffer \<Rightarrow> nat list \<Rightarrow> bool" where
  "collecting pool k sid buf is \<longleftrightarrow> length (fp_slots pool) = FL_POOL_MAX_SHARDS
     \<and> k < FL_POOL_MAX_SHARDS
     \<and> (let s = fp_slots pool ! k in open_slot s \<and> sl_shard_id s = sid
          \<and> unat (sl_frag_total s) = frag_total buf \<and> slot_frags s = set is
          \<and> sb_list (sl_sparse_buf s) = frags_of buf is)
     \<and> (\<forall>i < FL_POOL_MAX_SHARDS. i \<noteq> k
          \<and> sl_state (fp_slots pool ! i) \<in> {FL_FRAG_SLOT_ACTIVE, FL_FRAG_SLOT_COMPLETE}
          \<longrightarrow> sl_shard_id (fp_slots pool ! i) \<noteq> sid)"

lemma frags_of_snoc: "i \<notin> set is \<Longrightarrow> frags_of buf (is @ [i]) = frags_of buf is @ frag_entries buf i"
  "i \<in> set is \<Longrightarrow> frags_of buf (is @ [i]) = frags_of buf is"
  by (simp_all add: frags_of_def)

lemma length_frag_entries: "length (frag_entries buf i) \<le> 71"
  by (simp add: frag_entries_def)

lemma collecting_ingest:
  assumes buf: "wf_sparse buf" and C: "collecting pool k sid buf is" and e: "carries buf sid i (now, f, n)"
    and i: "i < frag_total buf" "set is \<subseteq> {..<frag_total buf}"
  shows "i \<in> set is \<Longrightarrow> ingest_slot now pool k f n = Some (0, pool) \<and> collecting pool k sid buf (is @ [i])"
    and "i \<notin> set is \<Longrightarrow> set (is @ [i]) \<noteq> {..<frag_total buf} \<Longrightarrow>
      \<exists>pool'. ingest_slot now pool k f n = Some (0, pool') \<and> collecting pool' k sid buf (is @ [i])"
    and "i \<notin> set is \<Longrightarrow> set (is @ [i]) = {..<frag_total buf} \<Longrightarrow>
      \<exists>pool' b. ingest_slot now pool k f n = Some (1, pool') \<and> fl_pool_get_complete pool' sid = Some b
        \<and> sb_list b = frags_of buf (is @ [i])"
proof -
  define s where "s = fp_slots pool ! k"
  have k: "length (fp_slots pool) = 64" "k < 64"
    and S: "open_slot s" "sl_shard_id s = sid" "unat (sl_frag_total s) = frag_total buf"
      "slot_frags s = set is" "sb_list (sl_sparse_buf s) = frags_of buf is"
    and other: "\<forall>j < 64. j \<noteq> k \<and> sl_state (fp_slots pool ! j) \<in> {FL_FRAG_SLOT_ACTIVE, FL_FRAG_SLOT_COMPLETE}
      \<longrightarrow> sl_shard_id (fp_slots pool ! j) \<noteq> sid"
    using C by (simp_all add: collecting_def Let_def s_def)
  have idx: "unat (fr_frag_index f) = i" and n: "n = of_nat (3 * length (frag_entries buf i))"
    and wfp: "length (fr_payload f) = 214"
    using e by (simp_all add: carries_def wf_frame_def)
  obtain rest where pay: "fr_payload f = concat (map entry_bytes (frag_entries buf i)) @ rest"
    using e by (auto simp: carries_def)
  show "ingest_slot now pool k f n = Some (0, pool) \<and> collecting pool k sid buf (is @ [i])"
    if "i \<in> set is"
    using ingest_slot_dup [of pool k f now n] S that C idx
    by (auto simp: s_def collecting_def Let_def frags_of_snoc)
  assume new: "i \<notin> set is"
  have un: "unat n = 3 * length (frag_entries buf i)"
    unfolding n by (rule unat_of_nat_u8) (use length_frag_entries [of buf i] in linarith)
  have "3 * length (frag_entries buf i) \<le> 214" using length_frag_entries [of buf i] by linarith
  then have nl: "unat n \<le> length (fr_payload f)" by (simp add: un wfp)
  have i40: "i < 40" using i(1) frag_total_bound [OF buf] by simp
  have new': "i \<notin> slot_frags s" using new S(4) by simp
  obtain bm b r where R: "fl_sparse_read_fragment (fr_payload f) n (sl_sparse_buf s) = Some (r, b)"
    "slot_frags (slot_add now s bm b) = insert i (slot_frags s)"
    "length bm = FL_FRAG_BITMAP_SIZE" "wf_sparse b"
    "unat (sl_frag_received s + 1) = card (slot_frags (slot_add now s bm b))"
    "ingest_slot now pool k f n = Some
      (if sl_frag_total s \<le> sl_frag_received s + 1 then
         (1, pool\<lparr>fp_slots := (fp_slots pool)[k := slot_add now s bm b\<lparr>sl_state := FL_FRAG_SLOT_COMPLETE\<rparr>],
                  fp_total_complete := fp_total_complete pool + 1\<rparr>)
       else (0, pool\<lparr>fp_slots := (fp_slots pool)[k := slot_add now s bm b]\<rparr>))"
    by (rule ingest_slot_new [OF S(1) s_def idx [symmetric] i40 new' nl])
  have le85: "length (frag_entries buf i) \<le> 85" using length_frag_entries [of buf i] by simp
  have "set (is @ [i]) \<subseteq> {..<frag_total buf}" using i by simp
  then have "length (frags_of buf (is @ [i])) \<le> 1024" by (rule length_frags [OF buf])
  then have fit: "length (sb_list (sl_sparse_buf s)) + length (frag_entries buf i) \<le> 1024"
    by (simp add: S(5) frags_of_snoc(1) [OF new])
  have wfb: "wf_sparse (sl_sparse_buf s)" using S(1) by (simp add: open_slot_def)
  have sb: "sb_list b = frags_of buf (is @ [i])"
    using fl_sparse_read_fragment_eq [OF wfb le85 fit, of rest] R(1)
    by (auto simp: pay n S(5) frags_of_snoc(1) [OF new])
  have card: "card (slot_frags (slot_add now s bm b)) = card (set (is @ [i]))"
    by (simp only: R(2) S(4)) simp
  have done_iff: "sl_frag_total s \<le> sl_frag_received s + 1 \<longleftrightarrow> set (is @ [i]) = {..<frag_total buf}"
  proof -
    have "sl_frag_total s \<le> sl_frag_received s + 1 \<longleftrightarrow> frag_total buf \<le> card (set (is @ [i]))"
      by (simp only: word_le_nat_alt S(3) R(5) card)
    also have "\<dots> \<longleftrightarrow> set (is @ [i]) = {..<frag_total buf}"
      using card_subset_eq [of "{..<frag_total buf}" "set (is @ [i])"]
        card_mono [of "{..<frag_total buf}" "set (is @ [i])"] i by auto
    finally show ?thesis .
  qed
  let ?s' = "slot_add now s bm b"
  have sf: "slot_frags ?s' = set (is @ [i])" using R(2) S(4) by auto
  show "\<exists>pool'. ingest_slot now pool k f n = Some (0, pool') \<and> collecting pool' k sid buf (is @ [i])"
    if "set (is @ [i]) \<noteq> {..<frag_total buf}"
  proof -
    have "open_slot ?s'" using S(1) R(3-5) by (simp add: open_slot_def)
    then have "collecting (pool\<lparr>fp_slots := (fp_slots pool)[k := ?s']\<rparr>) k sid buf (is @ [i])"
      unfolding collecting_def Let_def using k S(2,3) sf sb other by (auto simp del: set_append)
    then show ?thesis using R(6) that done_iff by simp
  qed
  show "\<exists>pool' b. ingest_slot now pool k f n = Some (1, pool') \<and> fl_pool_get_complete pool' sid = Some b
        \<and> sb_list b = frags_of buf (is @ [i])"
    if "set (is @ [i]) = {..<frag_total buf}"
  proof -
    let ?p = "pool\<lparr>fp_slots := (fp_slots pool)[k := ?s'\<lparr>sl_state := FL_FRAG_SLOT_COMPLETE\<rparr>],
                  fp_total_complete := fp_total_complete pool + 1\<rparr>"
    have "first_slot (\<lambda>s. sl_state s = FL_FRAG_SLOT_COMPLETE \<and> sl_shard_id s = sid) ?p = Some k"
      by (rule first_slot_unique) (use k S(2) other in simp_all)
    then have "fl_pool_get_complete ?p sid = Some b"
      using k by (simp add: fl_pool_get_complete_def)
    then show ?thesis using R(6) that done_iff sb by simp
  qed
qed


lemma collecting_find: "collecting pool k sid buf is \<Longrightarrow> find_slot pool sid = Some k"
  unfolding find_slot_def by (rule first_slot_unique) (auto simp: collecting_def Let_def open_slot_def)

lemma ingest_collecting:
  assumes "collecting pool k (fr_shard_id f) buf is" "unat (fr_frag_total f) = frag_total buf" "wf_sparse buf"
  shows "fl_pool_ingest now pool f n = ingest_slot now pool k f n"
  using collecting_find [OF assms(1)] assms(2) frag_total_bound [OF assms(3)]
  by (simp add: fl_pool_ingest_def Let_def word_less_nat_alt)

text \<open>The frames after the first, up to the one that completes the update.\<close>

lemma pool_run_collecting:
  assumes buf: "wf_sparse buf" and "collecting pool k sid buf is"
    and "list_all2 (carries buf sid) js es" and "es \<noteq> []"
    and "set (is @ js) = {..<frag_total buf}" and "last js \<notin> set (is @ butlast js)"
  shows "\<exists>pool' b. pool_run pool es = Some (replicate (length es - 1) 0 @ [1], pool')
    \<and> fl_pool_get_complete pool' sid = Some b \<and> sb_list b = frags_of buf (is @ js)"
  using assms(2-)
proof (induction es arbitrary: pool "is" js)
  case Nil
  then show ?case by simp
next
  case (Cons e es)
  obtain now f n where e: "e = (now, f, n)" by (cases e)
  obtain j js' where js: "js = j # js'" and c: "carries buf sid j (now, f, n)"
    and cs: "list_all2 (carries buf sid) js' es"
    using Cons.prems(2) by (auto simp: list_all2_Cons2 e)
  have f: "sid = fr_shard_id f" "unat (fr_frag_total f) = frag_total buf"
    using c by (simp_all add: carries_def)
  have j: "j < frag_total buf" "set is \<subseteq> {..<frag_total buf}"
    using Cons.prems(4) by (auto simp: js)
  note eq = ingest_collecting [OF Cons.prems(1) [unfolded f(1)] f(2) buf, of now n]
  note step = collecting_ingest [OF buf Cons.prems(1) c j]
  show ?case
  proof (cases "es = []")
    case True
    then have js': "js' = []" using cs by simp
    have "j \<notin> set is" "set (is @ [j]) = {..<frag_total buf}"
      using Cons.prems(4,5) by (simp_all add: js js')
    from step(3) [OF this] show ?thesis by (auto simp: e True js js' eq)
  next
    case False
    then have js': "js' \<noteq> []" using cs by auto
    have last: "last js' \<notin> set ((is @ [j]) @ butlast js')" and
      all: "set ((is @ [j]) @ js') = {..<frag_total buf}"
      using Cons.prems(4,5) js' by (auto simp: js)
    have "last js' \<in> {..<frag_total buf}"
      unfolding all [symmetric] using last_in_set [OF js'] by simp
    moreover have "last js' \<notin> set (is @ [j])" using last by simp
    ultimately have "set (is @ [j]) \<noteq> {..<frag_total buf}" by metis
    then obtain pool' where p: "fl_pool_ingest now pool f n = Some (0, pool')"
      "collecting pool' k sid buf (is @ [j])"
      unfolding eq using step(1,2) by (cases "j \<in> set is") blast+
    obtain pool'' b where r: "pool_run pool' es = Some (replicate (length es - 1) 0 @ [1], pool'')"
      "fl_pool_get_complete pool'' sid = Some b" "sb_list b = frags_of buf ((is @ [j]) @ js')"
      using Cons.IH [OF p(2) cs False all last] by blast
    have "0 # replicate (length es - 1) (0 :: int) = replicate (length es) 0"
      using False by (cases es) simp_all
    then have "pool_run pool (e # es) = Some (replicate (length es) 0 @ [1], pool'')"
      by (simp add: e p(1) r(1))
    then show ?thesis using r(2,3) by (simp add: js)
  qed
qed

lemma pool_reassembles:
  assumes "wf_pool pool" and "wf_sparse buf" and "sb_count buf \<noteq> 0"
    and "\<forall>i < FL_POOL_MAX_SHARDS. sl_state (fp_slots pool ! i) \<noteq> FL_FRAG_SLOT_EMPTY
         \<longrightarrow> sl_shard_id (fp_slots pool ! i) \<noteq> sid"
    and "alloc_slot pool \<noteq> None"
    and "list_all2 (carries buf sid) (0 # js) es" and "set (0 # js) = {..<frag_total buf}"
    and "last (0 # js) \<notin> set (butlast (0 # js))"
  shows "\<exists>pool' b. pool_run pool es = Some (replicate (length js) 0 @ [1], pool')
    \<and> fl_pool_get_complete pool' sid = Some b \<and> sb_list b = frags_of buf (0 # js)"
proof -
  obtain now f n es' where es: "es = (now, f, n) # es'" and c: "carries buf sid 0 (now, f, n)"
    and cs: "list_all2 (carries buf sid) js es'"
    using assms(6) by (auto simp: list_all2_Cons1)
  have f: "sid = fr_shard_id f" "unat (fr_frag_total f) = frag_total buf" "unat (fr_frag_index f) = 0"
    using c by (simp_all add: carries_def)
  obtain k where k: "alloc_slot pool = Some k" using assms(5) by auto
  have k64: "k < 64" using first_slot_Some [OF k [unfolded alloc_slot_def]] by simp
  have len: "length (fp_slots pool) = 64" using assms(1) by (simp add: wf_pool_def)
  define p1 where "p1 = pool\<lparr>fp_slots := (fp_slots pool)[k := fresh_slot f]\<rparr>"
  have "unat (fr_frag_total f) \<le> 32" using f(2) frag_total_bound [OF assms(2)] by simp
  then have C1: "collecting p1 k sid buf []"
    unfolding collecting_def Let_def p1_def using k64 len assms(4) f(1,2)
    by (auto simp: frags_of_def sb_list_def sparse_blank_def)
  have none: "find_slot pool sid = None"
    using assms(4) by (auto simp: find_slot_def first_slot_None)
  have frag0: "fr_frag_index f = 0" using f(3) by (simp add: unat_eq_zero)
  have "fl_pool_ingest now pool f n = ingest_slot now p1 k f n"
    using none k frag0 f(1,2) frag_total_bound [OF assms(2)]
    by (simp add: fl_pool_ingest_def Let_def word_less_nat_alt p1_def fresh_slot_def)
  also have "\<dots> = fl_pool_ingest now p1 f n"
    using ingest_collecting [OF C1 [unfolded f(1)] f(2) assms(2)] by simp
  finally have "pool_run pool es = pool_run p1 es" by (simp add: es)
  moreover have "\<exists>pool' b. pool_run p1 es = Some (replicate (length es - 1) 0 @ [1], pool')
    \<and> fl_pool_get_complete pool' sid = Some b \<and> sb_list b = frags_of buf ([] @ 0 # js)"
    by (rule pool_run_collecting [OF assms(2) C1 assms(6)]) (use assms(7,8) es in simp_all)
  moreover have "length es - 1 = length js" using cs es by (simp add: list_all2_lengthD)
  ultimately show ?thesis by auto
qed

text \<open>C10: Reassembly of an update end to end: when the frames of one update arrive at a pool that
  holds nothing of the shard and has a free slot, fragment 0 first (another one is dropped as long as
  no slot is open) and the rest in any order with any number of duplicates, every frame but the last new one is answered 0, that one is answered
  1, and the completed buffer holds exactly the entries the shard encoded.\<close>

theorem pool_reassembles_update:
  assumes "wf_pool pool" and "wf_sparse buf" and "sb_count buf \<noteq> 0"
    and "\<forall>i < FL_POOL_MAX_SHARDS. sl_state (fp_slots pool ! i) \<noteq> FL_FRAG_SLOT_EMPTY
         \<longrightarrow> sl_shard_id (fp_slots pool ! i) \<noteq> sid"
    and "alloc_slot pool \<noteq> None"
    and "list_all2 (carries buf sid) (0 # js) es" and "set (0 # js) = {..<frag_total buf}"
    and "last (0 # js) \<notin> set (butlast (0 # js))"
  shows "\<exists>pool' b. pool_run pool es = Some (replicate (length js) 0 @ [1], pool')
    \<and> fl_pool_get_complete pool' sid = Some b \<and> mset (sb_list b) = mset (sb_list buf)"
  using pool_reassembles [OF assms] mset_frags_of [OF assms(2,7)] by metis

lemma pool_reassembles_update_witness:
  "\<exists>pool' b. pool_run (fl_pool_init 60) [(5, encoded_frame FL_FRAME_UPDATE 7 0 0 1 [0, 0, 0], 3)]
      = Some ([1], pool')
    \<and> fl_pool_get_complete pool' 7 = Some b \<and> mset (sb_list b) = {#\<lparr>ge_param_index = 0, ge_delta_q8 = 0\<rparr>#}"
proof -
  let ?b = "sparse_blank\<lparr>sb_count := 1\<rparr>" and ?e = "\<lparr>ge_param_index = 0, ge_delta_q8 = 0\<rparr>"
  let ?es = "[(5, encoded_frame FL_FRAME_UPDATE 7 0 0 1 [0, 0, 0], 3)]"
  have l: "sb_list ?b = [?e]" by (simp add: sb_list_def sparse_blank_def take_Cons')
  have t: "frag_total ?b = 1" "frag_entries ?b 0 = [?e]"
    by (simp_all add: frag_total_def frag_entries_def l)
  have z: "fp_slots (fl_pool_init 60) ! i = zero_slot" if "i < 64" for i
    using that by (simp add: fl_pool_init_def)
  have st: "sl_state zero_slot = FL_FRAG_SLOT_EMPTY" by (simp add: zero_slot_def)
  have "carries ?b 7 0 (5, encoded_frame FL_FRAME_UPDATE 7 0 0 1 [0, 0, 0], 3)"
    by (auto simp: carries_def t wf_frame_def entry_bytes_def le16_def)
  then have ca: "list_all2 (carries ?b 7) [0] ?es" by simp
  have wf: "wf_sparse ?b" "sb_count ?b \<noteq> 0" by (simp_all add: wf_sparse_def sparse_blank_def)
  have none: "\<forall>i < 64. sl_state (fp_slots (fl_pool_init 60) ! i) \<noteq> FL_FRAG_SLOT_EMPTY
      \<longrightarrow> sl_shard_id (fp_slots (fl_pool_init 60) ! i) \<noteq> 7" by (simp add: z st)
  have al: "alloc_slot (fl_pool_init 60) \<noteq> None"
    unfolding alloc_slot_def first_slot_None using z [of 0] st by (auto intro!: exI [of _ 0])
  have "\<exists>pool' b. pool_run (fl_pool_init 60) ?es = Some (replicate (length ([] :: nat list)) 0 @ [1], pool')
    \<and> fl_pool_get_complete pool' 7 = Some b \<and> mset (sb_list b) = mset (sb_list ?b)"
    by (rule pool_reassembles_update [OF wf_pool_init wf none al ca])
       (simp_all add: t lessThan_Suc)
  then show ?thesis by (simp add: l)
qed

end
