(* ===== verification/Shard_Link.thy ===== *)
theory Shard_Link
  imports Demo Fragment_Pool
begin

text \<open>
  The radio link between a shard and the Herald: what the shard sends for an update, that it
  arrives, and what goes wrong when encryption is on.
\<close>

section \<open>Sending\<close>

definition update_frame :: "'e FLShard \<Rightarrow> nat \<Rightarrow> FLFrame" where
  "update_frame s i = encoded_frame FL_FRAME_UPDATE (sh_shard_id s) (sh_current_round s) (of_nat i)
     (sh_tx_frag_total s) (concat (map entry_bytes (frag_entries (sh_update_buf s) i)))"

definition update_wire :: "'e FLShard \<Rightarrow> nat \<Rightarrow> bytes" where
  "update_wire s i = wire_of (update_frame s i) (3 * length (frag_entries (sh_update_buf s) i))"

lemma length_entries: "length (concat (map entry_bytes es)) = 3 * length es"
  by (induction es) (simp_all add: entry_bytes_def)

lemma length_update_wire: "length (update_wire s i) = 10 + 3 * length (frag_entries (sh_update_buf s) i)"
  by (simp add: update_wire_def update_frame_def wire_of_def length_entries del: length_concat)

lemma length_update_wire_le: "length (update_wire s i) \<le> 223"
  using length_frag_entries [of "sh_update_buf s" i] by (simp add: length_update_wire)

text \<open>Without a session the frame goes out as it was encoded.\<close>

lemma shard_tx_plain:
  assumes "\<not> crypto_ready (sh_crypto s)" "unat n \<le> 214" "unat n \<le> length payload"
  shows "shard_tx_frame junk s t payload n fi ft e = hal_lora_send (sh_hal s)
    (frame_bytes (encoded_frame t (sh_shard_id s) (sh_current_round s) fi ft (take (unat n) payload)))
    (of_nat (10 + unat n)) e"
  using assms by (simp add: shard_tx_frame_def fl_frame_encode_eq)

definition ready_to_send :: "'e FLShard \<Rightarrow> bool" where
  "ready_to_send s \<longleftrightarrow> wf_sparse (sh_update_buf s) \<and> sh_tx_frag_total s = fl_sparse_fragment_count (sh_update_buf s)
     \<and> sb_count (sh_update_buf s) \<noteq> 0 \<and> \<not> crypto_ready (sh_crypto s)"

lemma ready_frags:
  assumes "ready_to_send s"
  shows "0 < frag_total (sh_update_buf s)" "unat (sh_tx_frag_total s) = frag_total (sh_update_buf s)"
    "frag_total (sh_update_buf s) \<le> 15"
proof -
  have wf: "wf_sparse (sh_update_buf s)" using assms by (simp add: ready_to_send_def)
  have "0 < length (sb_list (sh_update_buf s))"
    using assms by (simp add: length_sb_list ready_to_send_def unat_gt_0)
  then show "0 < frag_total (sh_update_buf s)" using frag_total_covers(2) [of 0 "sh_update_buf s"] by simp
  show "unat (sh_tx_frag_total s) = frag_total (sh_update_buf s)"
    using assms fl_sparse_fragment_count_eq [OF wf] by (simp add: ready_to_send_def)
  show "frag_total (sh_update_buf s) \<le> 15" by (rule frag_total_bound [OF wf])
qed

text \<open>A send tick: the frame of the next fragment is handed to the radio; if the radio took it, the
  next tick sends the next fragment or the shard starts to wait, otherwise the error is counted
  and the fragment is sent again.\<close>

lemma tick_tx_send:
  assumes s: "ready_to_send (sy_shard y)" and junk: "length (jk_payload junk) = FL_PAYLOAD_MAX"
    and i: "unat (sh_tx_frag_sent (sy_shard y)) = i" "i < frag_total (sh_update_buf (sy_shard y))"
    and send: "hal_lora_send (sh_hal (sy_shard y)) (frame_bytes (update_frame (sy_shard y) i))
      (of_nat (length (update_wire (sy_shard y) i))) (sy_env y) = Some (r, e)"
  shows "tick_tx junk y = Some (tx_result r (y\<lparr>sy_env := e\<rparr>))"
proof -
  let ?s = "sy_shard y" let ?b = "sh_update_buf ?s" let ?n = "3 * length (frag_entries ?b i)"
  note f = ready_frags [OF s]
  have c: "\<not> crypto_ready (sh_crypto ?s)" "wf_sparse ?b" using s by (simp_all add: ready_to_send_def)
  obtain rest where w: "fl_sparse_write_fragment (jk_payload junk) 0 ?b (sh_tx_frag_sent ?s)
    = Some (0, concat (map entry_bytes (frag_entries ?b i)) @ rest, of_nat ?n)" "length (frag_entries ?b i) \<le> 71"
    using fl_sparse_write_fragment_eq [OF c(2), of "sh_tx_frag_sent ?s" "jk_payload junk" 0] i junk by auto
  have n: "unat (of_nat ?n :: u8) = ?n" by (rule unat_of_nat_u8) (use w(2) in linarith)
  have "sh_tx_frag_sent ?s = of_nat i" using i(1) by (metis unat_of_nat_u8 unat_u8_less unat_eqI)
  then have "shard_tx_frame (jk_frame junk) ?s FL_FRAME_UPDATE (concat (map entry_bytes (frag_entries ?b i)) @ rest)
      (of_nat ?n) (sh_tx_frag_sent ?s) (sh_tx_frag_total ?s) (sy_env y) = Some (r, e)"
    using shard_tx_plain [OF c(1), of "of_nat ?n" "concat (map entry_bytes (frag_entries ?b i)) @ rest"] w(2) send
    by (simp only: n length_append length_entries) (simp add: update_frame_def length_update_wire length_entries)
  moreover have "sh_tx_frag_sent ?s < sh_tx_frag_total ?s" "sh_tx_frag_total ?s \<noteq> 0"
    using i f by (auto simp: word_less_nat_alt)
  ultimately show ?thesis using w(1) by (simp add: tick_tx_def Let_def)
qed

text \<open>The ticks of the demonstration's loop while the shard sends, over the queues.\<close>

fun run_ticks :: "libm \<Rightarrow> 'e data_cb \<Rightarrow> locals \<Rightarrow> nat \<Rightarrow> 'e sys \<Rightarrow> 'e sys option" where
  "run_ticks lm cb junk 0 y = Some y"
| "run_ticks lm cb junk (Suc n) y =
     do { y \<leftarrow> run_ticks lm cb junk n y; (_, y) \<leftarrow> fl_shard_tick lm cb junk y; Some y }"

definition sending :: "demo_env sys \<Rightarrow> nat \<Rightarrow> demo_env sys \<Rightarrow> bool" where
  "sending y0 i y \<longleftrightarrow>
     (\<exists>st. sy_shard y = (sy_shard y0)\<lparr>sh_tx_frag_sent := of_nat i, sh_state := st\<rparr>
        \<and> st = (if i < frag_total (sh_update_buf (sy_shard y0)) then FL_SHARD_STATE_TX else FL_SHARD_STATE_AWAIT_ACK))
     \<and> q_holds (de_s2h (sy_env y)) (enc_frames (map (update_wire (sy_shard y0)) [0..<i]))
     \<and> de_h2s (sy_env y) = de_h2s (sy_env y0) \<and> de_sidx (sy_env y) = de_sidx (sy_env y0)"

lemma length_enc_wires: "length (enc_frames (map (update_wire s) [0..<i])) \<le> 224 * i"
proof (induction i)
  case (Suc i)
  then show ?case using length_update_wire_le [of s i] by simp
qed simp

lemma update_frame_cong [simp]:
  "update_frame (s\<lparr>sh_tx_frag_sent := a, sh_state := b\<rparr>) i = update_frame s i"
  "update_wire (s\<lparr>sh_tx_frag_sent := a, sh_state := b\<rparr>) i = update_wire s i"
  by (simp_all add: update_wire_def update_frame_def)

lemma sending_step:
  assumes s: "ready_to_send (sy_shard y0)" and junk: "length (jk_payload junk) = FL_PAYLOAD_MAX"
    and hal: "sh_hal (sy_shard y0) = demo_hal clock"
    and y: "sending y0 i y" and i: "i < frag_total (sh_update_buf (sy_shard y0))"
  shows "\<exists>y'. fl_shard_tick lm cb junk y = Some (sys_state y', y') \<and> sending y0 (Suc i) y'"
proof -
  let ?s = "sy_shard y0" let ?b = "sh_update_buf ?s" let ?w = "update_wire ?s i"
  note f = ready_frags [OF s]
  have sh: "sy_shard y = ?s\<lparr>sh_tx_frag_sent := of_nat i, sh_state := FL_SHARD_STATE_TX\<rparr>"
    and q: "q_holds (de_s2h (sy_env y)) (enc_frames (map (update_wire ?s) [0..<i]))"
    and e: "de_h2s (sy_env y) = de_h2s (sy_env y0)" "de_sidx (sy_env y) = de_sidx (sy_env y0)"
    using y i by (auto simp: sending_def)
  have ready: "ready_to_send (sy_shard y)" using s by (simp add: sh ready_to_send_def)
  have u: "unat (of_nat i :: u8) = i" by (rule unat_of_nat_u8) (use i f in simp)
  have uw: "unat (of_nat (length ?w) :: u8) = length ?w"
    by (rule unat_of_nat_u8) (use length_update_wire_le [of ?s i] in linarith)
  have fb: "length (frame_bytes (update_frame ?s i)) = 224"
    using length_frag_entries [of ?b i] by (simp add: update_frame_def length_entries del: length_concat)
  have short: "length ?w \<le> 224" using length_update_wire_le [of ?s i] by linarith
  have room: "length (enc_frames (map (update_wire ?s) [0..<i])) + Suc (length ?w) \<le> Q_SZ"
    using length_enc_wires [of ?s i] short i f(3) by linarith
  have tk: "take (length ?w) (frame_bytes (update_frame ?s i)) = ?w"
    by (simp add: length_update_wire) (simp add: update_wire_def wire_of_def)
  have "\<exists>q'. q_push_frame (de_s2h (sy_env y)) (frame_bytes (update_frame ?s i)) (of_nat (length ?w)) = Some q'
    \<and> q_holds q' (enc_frames (map (update_wire ?s) [0..<i] @ [take (unat (of_nat (length ?w) :: u8)) (frame_bytes (update_frame ?s i))]))"
    by (rule q_push_frame_holds [OF q]) (simp_all only: uw fb room short)
  then obtain q' where q': "q_push_frame (de_s2h (sy_env y)) (frame_bytes (update_frame ?s i)) (of_nat (length ?w)) = Some q'"
    "q_holds q' (enc_frames (map (update_wire ?s) [0..<Suc i]))" by (auto simp: uw tk)
  let ?e = "(sy_env y)\<lparr>de_s2h := q'\<rparr>"
  have "tick_tx junk y = Some (tx_result 0 (y\<lparr>sy_env := ?e\<rparr>))"
    by (rule tick_tx_send [OF ready junk, of i]) (use i u q'(1) in \<open>simp_all add: sh hal demo_hal_def demo_send_def\<close>)
  then have t: "fl_shard_tick lm cb junk y = Some (sys_state (tx_result 0 (y\<lparr>sy_env := ?e\<rparr>)), tx_result 0 (y\<lparr>sy_env := ?e\<rparr>))"
    by (simp add: fl_shard_tick_def sh)
  have le: "sh_tx_frag_total ?s \<le> of_nat (Suc i) \<longleftrightarrow> frag_total ?b \<le> Suc i"
  proof -
    have "unat (of_nat (Suc i) :: u8) = Suc i" by (rule unat_of_nat_u8) (use i f in linarith)
    then show ?thesis by (simp only: word_le_nat_alt f(2))
  qed
  have "sending y0 (Suc i) (tx_result 0 (y\<lparr>sy_env := ?e\<rparr>))"
    using q'(2) e le i by (auto simp: sending_def tx_result_def Let_def sh shard_log_def hal_print_def hal demo_hal_def add.commute)
  then show ?thesis using t by blast
qed

lemma sending_all:
  assumes "ready_to_send (sy_shard y0)" "length (jk_payload junk) = FL_PAYLOAD_MAX"
    "sh_hal (sy_shard y0) = demo_hal clock" "sending y0 0 y0" "n \<le> frag_total (sh_update_buf (sy_shard y0))"
  shows "\<exists>y. run_ticks lm cb junk n y0 = Some y \<and> sending y0 n y"
  using assms(5)
proof (induction n)
  case (Suc n)
  then obtain y where y: "run_ticks lm cb junk n y0 = Some y" "sending y0 n y" by auto
  have "n < frag_total (sh_update_buf (sy_shard y0))" using Suc.prems by simp
  then obtain y' where "fl_shard_tick lm cb junk y = Some (sys_state y', y')" "sending y0 (Suc n) y'"
    using sending_step [OF assms(1-3) y(2)] by blast
  then show ?case using y(1) by simp
qed (use assms in simp)

section \<open>Arrival\<close>

text \<open>The Herald's side of the demonstration: the loop that drains the queue into the fragment pool.
  \<^verbatim>\<open>now\<close> is the time of the \<open>k\<close>-th iteration, \<open>junk\<close> the frame before it is decoded into.\<close>

partial_function (option) demo_drain ::
  "FLFrame \<Rightarrow> (nat \<Rightarrow> int) \<Rightarrow> nat \<Rightarrow> BQ \<Rightarrow> FLFragmentPool \<Rightarrow> bytes \<Rightarrow> (BQ \<times> FLFragmentPool) option" where
  "demo_drain junk now k q pool rx =
     do { (got, q, rx, rn) \<leftarrow> q_pop q rx;
          if got = 0 \<or> rn = 0 then Some (q, pool)
          else do {
            (err, fr) \<leftarrow> fl_frame_decode (Some rx) (unat rn) (Some junk);
            fr \<leftarrow> fr;
            pool \<leftarrow> (if err = FL_OK \<and> fr_type fr = type_code FL_FRAME_UPDATE then do {
                      (_, pool) \<leftarrow> fl_pool_ingest (now k) pool fr (ucast (rn - 10));
                      Some pool }
                    else Some pool);
            demo_drain junk now (Suc k) q pool rx } }"

lemma decode_encoded:
  assumes "length data \<le> 214" "10 + length data \<le> length raw" "wf_frame junk"
    and w: "take (10 + length data) raw = wire_of (encoded_frame t sid rid fi ft data) (length data)"
  shows "\<exists>g. fl_frame_decode (Some raw) (10 + length data) (Some junk) = Some (FL_OK, Some g) \<and> wf_frame g
    \<and> frame_head g = frame_head (encoded_frame t sid rid fi ft data) \<and> take (length data) (fr_payload g) = data"
proof -
  have le: "10 + length data \<le> 224" using assms(1) by simp
  obtain g where g: "fl_frame_decode (Some raw) (10 + length data) (Some junk) = Some (FL_OK, Some g)" "wf_frame g"
    "take (10 + length data) (frame_bytes g) = wire_of (encoded_frame t sid rid fi ft data) (length data)"
    using decode_status [OF le assms(2,3)] by (auto simp: w wire_status_encoded)
  note e = g(3) [unfolded wire_of_encoded]
  have "frame_head g = frame_head (encoded_frame t sid rid fi ft data)"
    using arg_cong [OF e, of "take 8"] by (simp add: frame_bytes_parts min_def)
  moreover have "take (length data) (fr_payload g) = data"
    using arg_cong [OF e, of "drop 10"] by (simp only: drop_take) (simp add: frame_bytes_parts)
  ultimately show ?thesis using g(1,2) by blast
qed

lemma decode_update:
  assumes s: "ready_to_send s" and i: "i < frag_total (sh_update_buf s)" and junk: "wf_frame junk"
    and rx: "length rx = 224" "take (length (update_wire s i)) rx = update_wire s i"
  shows "\<exists>g. fl_frame_decode (Some rx) (length (update_wire s i)) (Some junk) = Some (FL_OK, Some g)
    \<and> fr_type g = type_code FL_FRAME_UPDATE
    \<and> carries (sh_update_buf s) (sh_shard_id s) i (t, g, of_nat (length (update_wire s i) - 10))"
proof -
  let ?w = "update_wire s i" let ?d = "concat (map entry_bytes (frag_entries (sh_update_buf s) i))"
  note f = ready_frags [OF s]
  have l: "length ?w = 10 + length ?d" by (simp only: length_update_wire length_entries)
  have le: "length ?d \<le> 214" using length_update_wire_le [of s i] l by linarith
  have "10 + length ?d \<le> length rx" using le rx(1) by linarith
  note D = decode_encoded [OF le this junk]
  have w: "?w = wire_of (update_frame s i) (length ?d)" by (simp only: update_wire_def length_entries)
  have "take (10 + length ?d) rx = wire_of (update_frame s i) (length ?d)" using rx(2) l w by metis
  from D [OF this [unfolded update_frame_def]]
  obtain g where g: "fl_frame_decode (Some rx) (length ?w) (Some junk) = Some (FL_OK, Some g)" "wf_frame g"
    "frame_head g = frame_head (update_frame s i)" "take (length ?d) (fr_payload g) = ?d"
    unfolding l update_frame_def by blast
  have u: "unat (of_nat i :: u8) = i" by (rule unat_of_nat_u8) (use i f in simp)
  have "fr_payload g = ?d @ drop (length ?d) (fr_payload g)" by (metis append_take_drop_id g(4))
  then have "carries (sh_update_buf s) (sh_shard_id s) i (t, g, of_nat (length ?w - 10))"
    using g(2,3) f(2) u by (auto simp: carries_def l length_entries update_frame_def frame_head_def simp del: length_concat)
  then show ?thesis using g(1,3) by (auto simp: update_frame_def frame_head_def)
qed

lemma drain_updates:
  assumes s: "ready_to_send s" and junk: "wf_frame junk"
    and q: "q_holds q (enc_frames (map (update_wire s) is))" and "is": "\<forall>i \<in> set is. i < frag_total (sh_update_buf s)"
    and rx: "length rx = 224"
  shows "\<exists>es. list_all2 (carries (sh_update_buf s) (sh_shard_id s)) is es
    \<and> (\<forall>pool rs pool'. pool_run pool es = Some (rs, pool') \<longrightarrow> (\<exists>q'. demo_drain junk now k q pool rx = Some (q', pool')))"
  using q "is" rx
proof (induction "is" arbitrary: q k rx)
  case Nil
  then show ?case using q_pop_empty [of q rx] by (auto simp: demo_drain.simps)
next
  case (Cons i js)
  let ?w = "update_wire s i"
  have le: "length ?w \<le> 224" using length_update_wire_le [of s i] by linarith
  then have lt: "length ?w < 256" "length ?w \<le> length rx" using Cons.prems(3) by linarith+
  obtain q' where q': "q_pop q rx = Some (1, q', ?w @ drop (length ?w) rx, of_nat (length ?w))"
    "q_holds q' (enc_frames (map (update_wire s) js))"
    using q_pop_holds [OF _ lt] Cons.prems(1) by auto
  let ?rx = "?w @ drop (length ?w) rx"
  have rx': "length ?rx = 224" "take (length ?w) ?rx = ?w" using lt(2) Cons.prems(3) by simp_all
  have i: "i < frag_total (sh_update_buf s)" using Cons.prems(2) by simp
  obtain g where g: "fl_frame_decode (Some ?rx) (length ?w) (Some junk) = Some (FL_OK, Some g)"
    "fr_type g = type_code FL_FRAME_UPDATE"
    "carries (sh_update_buf s) (sh_shard_id s) i (now k, g, of_nat (length ?w - 10))"
    using decode_update [OF s i junk rx', of "now k"] by blast
  obtain es where es: "list_all2 (carries (sh_update_buf s) (sh_shard_id s)) js es"
    "\<And>pool rs pool'. pool_run pool es = Some (rs, pool') \<Longrightarrow> \<exists>q2. demo_drain junk now (Suc k) q' pool ?rx = Some (q2, pool')"
    using Cons.IH [OF q'(2) _ rx'(1), of "Suc k"] Cons.prems(2) by auto
  have wl: "10 \<le> length ?w" by (simp add: length_update_wire)
  have "length ?w < 2 ^ 32" using le by simp
  then have u: "unat (of_nat (length ?w) :: u32) = length ?w" by (rule unat_of_nat_u32)
  have nz: "of_nat (length ?w) \<noteq> (0 :: u32)" using u wl by (metis unat_0 not_numeral_le_zero)
  have n: "ucast (of_nat (length ?w) - 10 :: u32) = (of_nat (length ?w - 10) :: u8)"
  proof -
    have "of_nat (length ?w) - 10 = (of_nat (length ?w - 10) :: u32)" using wl by (simp add: of_nat_diff)
    then show ?thesis by (simp only:) (rule unat_eqI, simp add: unsigned_ucast_eq unsigned_of_nat)
  qed
  have "demo_drain junk now k q pool rx = (case fl_pool_ingest (now k) pool g (of_nat (length ?w - 10)) of None \<Rightarrow> None
      | Some (_, pool) \<Rightarrow> demo_drain junk now (Suc k) q' pool ?rx)" for pool
    using q'(1) g(1,2) nz u n
    by (cases "fl_pool_ingest (now k) pool g (of_nat (length ?w - 10))")
      (auto simp: demo_drain.simps [of junk now k q pool rx])
  then have "\<exists>q2. demo_drain junk now k q pool rx = Some (q2, pool')"
    if "pool_run pool ((now k, g, of_nat (length ?w - 10)) # es) = Some (rs, pool')" for pool rs pool'
    using that es(2) by (auto simp: bind_eq_Some_conv)
  then show ?case using g(3) es(1)
    by (intro exI [of _ "(now k, g, of_nat (length ?w - 10)) # es"]) blast
qed

lemma update_arrives:
  assumes s: "ready_to_send (sy_shard y0)" and hal: "sh_hal (sy_shard y0) = demo_hal clock"
    and st: "sys_state y0 = FL_SHARD_STATE_TX" "sh_tx_frag_sent (sy_shard y0) = 0"
    and q: "q_holds (de_s2h (sy_env y0)) []" and junk: "length (jk_payload junk) = FL_PAYLOAD_MAX" "wf_frame g"
    and rx: "length rx = FL_FRAME_MAX_SIZE"
  shows "\<exists>y q pool b es rs. run_ticks lm cb junk (frag_total (sh_update_buf (sy_shard y0))) y0 = Some y
    \<and> sending y0 (frag_total (sh_update_buf (sy_shard y0))) y
    \<and> demo_drain g now 0 (de_s2h (sy_env y)) (fl_pool_init 300) rx = Some (q, pool)
    \<and> fl_pool_get_complete pool (sh_shard_id (sy_shard y0)) = Some b
    \<and> sb_list b = sb_list (sh_update_buf (sy_shard y0))
    \<and> list_all2 (carries (sh_update_buf (sy_shard y0)) (sh_shard_id (sy_shard y0))) [0..<frag_total (sh_update_buf (sy_shard y0))] es
    \<and> pool_run (fl_pool_init 300) es = Some (rs, pool)"
proof -
  let ?s = "sy_shard y0" let ?b = "sh_update_buf ?s" let ?n = "frag_total ?b"
  note f = ready_frags [OF s]
  have wf: "wf_sparse ?b" using s by (simp add: ready_to_send_def)
  have "sending y0 0 y0" using st q f(1) by (simp add: sending_def)
  from sending_all [OF s junk(1) hal this, of ?n] obtain y where
    y: "run_ticks lm cb junk ?n y0 = Some y" "sending y0 ?n y" by blast
  have yq: "q_holds (de_s2h (sy_env y)) (enc_frames (map (update_wire ?s) [0..<?n]))" using y(2) by (auto simp: sending_def)
  obtain es where es: "list_all2 (carries ?b (sh_shard_id ?s)) [0..<?n] es"
    "\<And>pool rs pool'. pool_run pool es = Some (rs, pool') \<Longrightarrow>
       \<exists>q'. demo_drain g now 0 (de_s2h (sy_env y)) pool rx = Some (q', pool')"
    using drain_updates [OF s junk(2) yq(1) _ rx, of now 0] by auto
  have n: "[0..<?n] = 0 # [1..<?n]" using f(1) by (simp add: upt_conv_Cons)
  have "last [0..<?n] \<notin> set (butlast [0..<?n])"
  proof -
    have "[0..<?n] \<noteq> []" using f(1) by simp
    then have "distinct (butlast [0..<?n] @ [last [0..<?n]])" by (metis append_butlast_last_id distinct_upt)
    then show ?thesis by simp
  qed
  note last = this [unfolded n]
  have "set (0 # [1..<?n]) = {..<?n}" by (simp only: n [symmetric] set_upt lessThan_atLeast0)
  moreover have "alloc_slot (fl_pool_init 300) \<noteq> None"
    by (simp add: alloc_slot_def first_slot_None fl_pool_init_def zero_slot_def) (rule exI [of _ 0], simp)
  moreover have "\<forall>i < FL_POOL_MAX_SHARDS. sl_state (fp_slots (fl_pool_init 300) ! i) \<noteq> FL_FRAG_SLOT_EMPTY
         \<longrightarrow> sl_shard_id (fp_slots (fl_pool_init 300) ! i) \<noteq> sh_shard_id ?s"
    by (simp add: fl_pool_init_def zero_slot_def)
  moreover have "sb_count ?b \<noteq> 0" using s by (simp add: ready_to_send_def)
  ultimately have "\<exists>pool' b. pool_run (fl_pool_init 300) es = Some (replicate (length [1..<?n]) 0 @ [1], pool')
    \<and> fl_pool_get_complete pool' (sh_shard_id ?s) = Some b \<and> sb_list b = frags_of ?b (0 # [1..<?n])"
    using pool_reassembles [OF wf_pool_init wf _ _ _ es(1) [unfolded n] _ last] by blast
  then obtain pool' b where p: "pool_run (fl_pool_init 300) es = Some (replicate (length [1..<?n]) 0 @ [1], pool')"
    "fl_pool_get_complete pool' (sh_shard_id ?s) = Some b" "sb_list b = frags_of ?b [0..<?n]"
    unfolding n by blast
  have "frags_of ?b [0..<?n] = sb_list ?b"
    by (simp add: frags_of_def arrivals_def distinct_remdups_id frags_all [OF wf])
  moreover obtain q' where "demo_drain g now 0 (de_s2h (sy_env y)) (fl_pool_init 300) rx = Some (q', pool')"
    using es(2) [OF p(1)] by blast
  ultimately show ?thesis using y p es(1) by metis
qed

text \<open>C6: An update gets through: from the start of its sending phase, with no session key, the shard
  needs exactly one tick for each fragment to hand the whole update to the queue and to await the
  acknowledgement, and the Herald, draining the queue into a fresh pool, ends with the shard's
  slot complete and with exactly the entries the shard had encoded, in order.\<close>

theorem update_reaches_herald:
  assumes s: "ready_to_send (sy_shard y0)" and hal: "sh_hal (sy_shard y0) = demo_hal clock"
    and st: "sys_state y0 = FL_SHARD_STATE_TX" "sh_tx_frag_sent (sy_shard y0) = 0"
    and q: "q_holds (de_s2h (sy_env y0)) []" and junk: "length (jk_payload junk) = FL_PAYLOAD_MAX" "wf_frame g"
    and rx: "length rx = FL_FRAME_MAX_SIZE"
  shows "\<exists>y q pool b. run_ticks lm cb junk (unat (sh_tx_frag_total (sy_shard y0))) y0 = Some y
    \<and> sys_state y = FL_SHARD_STATE_AWAIT_ACK
    \<and> demo_drain g now 0 (de_s2h (sy_env y)) (fl_pool_init 300) rx = Some (q, pool)
    \<and> fl_pool_get_complete pool (sh_shard_id (sy_shard y0)) = Some b
    \<and> sb_list b = sb_list (sh_update_buf (sy_shard y0))"
proof -
  let ?b = "sh_update_buf (sy_shard y0)"
  have n: "unat (sh_tx_frag_total (sy_shard y0)) = frag_total ?b" by (rule ready_frags(2) [OF s])
  obtain y q pool b where r: "run_ticks lm cb junk (frag_total ?b) y0 = Some y" "sending y0 (frag_total ?b) y"
    "demo_drain g now 0 (de_s2h (sy_env y)) (fl_pool_init 300) rx = Some (q, pool)"
    "fl_pool_get_complete pool (sh_shard_id (sy_shard y0)) = Some b" "sb_list b = sb_list ?b"
    using update_arrives [OF assms] by blast
  have "sys_state y = FL_SHARD_STATE_AWAIT_ACK" using r(2) by (auto simp: sending_def)
  then show ?thesis unfolding n using r by blast
qed

definition sample_update :: "demo_env sys" where
  "sample_update = idle_demo\<lparr>sy_shard := (zero_shard (demo_hal (\<lambda>e. (0, e))) 7 zero_model)
     \<lparr>sh_state := FL_SHARD_STATE_TX, sh_update_buf := zero_sparse\<lparr>sb_count := 80\<rparr>, sh_tx_frag_total := 2\<rparr>\<rparr>"

theorem update_reaches_herald_witness:
  "\<forall>lm cb. \<exists>y q pool b. run_ticks lm cb idle_locals 2 sample_update = Some y
    \<and> sys_state y = FL_SHARD_STATE_AWAIT_ACK
    \<and> demo_drain (jk_frame idle_locals) (\<lambda>_. 5) 0 (de_s2h (sy_env y)) (fl_pool_init 300) (replicate 224 0) = Some (q, pool)
    \<and> fl_pool_get_complete pool 7 = Some b
    \<and> sb_list b = replicate 80 \<lparr>ge_param_index = 0, ge_delta_q8 = 0\<rparr>"
proof (intro allI)
  fix lm and cb :: "demo_env data_cb"
  let ?y = sample_update
  have r: "ready_to_send (sy_shard ?y)"
    by (simp add: sample_update_def ready_to_send_def zero_shard_def zero_sparse_def wf_sparse_def
        fl_sparse_fragment_count_def crypto_ready_def)
  have h: "sh_hal (sy_shard ?y) = demo_hal (\<lambda>e. (0, e))" "sys_state ?y = FL_SHARD_STATE_TX"
    "sh_tx_frag_sent (sy_shard ?y) = 0" "q_holds (de_s2h (sy_env ?y)) []"
    "length (jk_payload idle_locals) = FL_PAYLOAD_MAX" "wf_frame (jk_frame idle_locals)"
    by (simp_all add: sample_update_def zero_shard_def idle_demo_def idle_locals_def q_holds_def wrapping_queue_def wf_frame_def)
  have n: "unat (sh_tx_frag_total (sy_shard ?y)) = 2" "sh_shard_id (sy_shard ?y) = 7"
    "sb_list (sh_update_buf (sy_shard ?y)) = replicate 80 \<lparr>ge_param_index = 0, ge_delta_q8 = 0\<rparr>"
    by (simp_all add: sample_update_def zero_shard_def zero_sparse_def sb_list_def)
  have rx: "length (replicate 224 (0 :: u8)) = FL_FRAME_MAX_SIZE" by simp
  show "\<exists>y q pool b. run_ticks lm cb idle_locals 2 ?y = Some y \<and> sys_state y = FL_SHARD_STATE_AWAIT_ACK
    \<and> demo_drain (jk_frame idle_locals) (\<lambda>_. 5) 0 (de_s2h (sy_env y)) (fl_pool_init 300) (replicate 224 0) = Some (q, pool)
    \<and> fl_pool_get_complete pool 7 = Some b \<and> sb_list b = replicate 80 \<lparr>ge_param_index = 0, ge_delta_q8 = 0\<rparr>"
    using update_reaches_herald [OF r h rx, of lm cb "\<lambda>_. 5"] unfolding n .
qed

section \<open>Encryption\<close>

lemma crypto_encrypt_lengths:
  assumes "crypto_ready c" "unat len \<le> length buf" "fl_crypto_encrypt c buf len nonce = Some (p, tag)"
  shows "length p = length buf" "length tag = 16"
proof -
  obtain pk where e: "chacha20_xor (cc_session_key c) nonce 1 buf len = Some p" "poly1305_tag pk (take (unat len) p) = Some tag"
    using encryptE [OF assms(1,3)] by metis
  then show "length p = length buf" using chacha20.crypt_total [OF assms(2), of "cc_session_key c" nonce 1] by auto
  show "length tag = 16" by (rule length_poly_tag [OF e(2)])
qed

text \<open>C23: With a session key the shard sends frames the Herald must reject: the checksum is computed
  before the payload is encrypted and is not computed again, so a receiver accepts the frame only
  if the checksums of the ciphertext and of the plaintext happen to agree; and the frame goes out
  at the length of the payload, so the authentication tag is never sent.\<close>

theorem encrypted_update_checksum:
  fixes s payload n fi ft
  defines "f \<equiv> encoded_frame FL_FRAME_UPDATE (sh_shard_id s) (sh_current_round s) fi ft (take (unat n) payload)"
  assumes "crypto_ready (sh_crypto s)" and n: "0 < n" "unat n \<le> 214" "unat n \<le> length payload"
    and enc: "fl_crypto_encrypt (sh_crypto s) (fr_payload f) (ucast n)
      (fl_crypto_make_nonce (sh_current_round s) fi (sh_shard_id s)) = Some (p, tag)"
  shows "\<exists>b. shard_tx_frame junk s FL_FRAME_UPDATE payload n fi ft e = hal_lora_send (sh_hal s) b (of_nat (10 + unat n)) e
    \<and> take (10 + unat n) b = frame_head f @ le16 (fr_crc16 f) @ take (unat n) p
    \<and> (wire_status (take (10 + unat n) b) = FL_OK
        \<longleftrightarrow> fl_crc16 (frame_head f @ take (unat n) p) = fl_crc16 (frame_head f @ take (unat n) payload))"
proof -
  let ?n = "unat n"
  have fp: "length (fr_payload f) = 214" using n by (simp add: f_def)
  have len: "length p = 214" "length tag = 16"
    using crypto_encrypt_lengths [OF assms(2) _ enc] fp n(2) by simp_all
  define p' where "p' = (if ?n + 16 \<le> 214 then take ?n p @ tag @ drop (?n + 16) p else p)"
  have p': "take ?n p' = take ?n p" using len n by (simp add: p'_def)
  have t: "shard_tx_frame junk s FL_FRAME_UPDATE payload n fi ft e = hal_lora_send (sh_hal s) (frame_bytes (f\<lparr>fr_payload := p'\<rparr>)) (of_nat (10 + ?n)) e"
    using assms(2) n enc len by (simp add: shard_tx_frame_def fl_frame_encode_eq f_def Let_def p'_def memcpy_at_def)
  have w: "take (10 + ?n) (frame_bytes (f\<lparr>fr_payload := p'\<rparr>)) = frame_head f @ le16 (fr_crc16 f) @ take ?n p"
  proof -
    have "frame_head (f\<lparr>fr_payload := p'\<rparr>) = frame_head f" by (simp add: frame_head_def)
    then show ?thesis using p' by (simp add: frame_bytes_def)
  qed
  let ?w = "frame_head f @ le16 (fr_crc16 f) @ take ?n p"
  have "?w ! 0 = ucast FL_MAGIC" "?w ! 1 = ucast (drop_bit 8 FL_MAGIC)"
    "?w ! 8 = ucast (fr_crc16 f)" "?w ! 9 = ucast (drop_bit 8 (fr_crc16 f))"
    by (simp_all add: frame_head_def f_def le16_def nth_append)
  then have "of_le16 (?w ! 0) (?w ! 1) = FL_MAGIC" "of_le16 (?w ! 8) (?w ! 9) = fr_crc16 f"
    by (simp_all only: of_le16_le16)
  moreover have "10 \<le> length ?w" by simp
  ultimately have "wire_status ?w = FL_OK \<longleftrightarrow> fr_crc16 f = fl_crc16 (frame_head f @ take ?n p)"
    by (simp only: wire_status_OK wire_data_append) simp
  moreover have "fr_crc16 f = fl_crc16 (frame_head f @ take ?n payload)"
    by (simp add: f_def encoded_frame_crc)
  ultimately have "wire_status ?w = FL_OK
      \<longleftrightarrow> fl_crc16 (frame_head f @ take ?n p) = fl_crc16 (frame_head f @ take ?n payload)" by (simp only: eq_commute)
  then show ?thesis using t unfolding w [symmetric] by blast
qed

definition secret_shard :: "demo_env FLShard" where
  "secret_shard = (zero_shard (demo_hal (\<lambda>e. (0, e))) 7 zero_model)\<lparr>sh_crypto := sample_session\<rparr>"

theorem encrypted_update_checksum_witness:
  "\<exists>b p. shard_tx_frame (jk_frame idle_locals) secret_shard FL_FRAME_UPDATE [1, 2, 3] 3 0 1 (sy_env idle_demo)
      = hal_lora_send (sh_hal secret_shard) b 13 (sy_env idle_demo)
    \<and> (wire_status (take 13 b) = FL_OK \<longleftrightarrow>
        fl_crc16 (frame_head (encoded_frame FL_FRAME_UPDATE 7 0 0 1 [1, 2, 3]) @ take 3 p)
          = fl_crc16 (frame_head (encoded_frame FL_FRAME_UPDATE 7 0 0 1 [1, 2, 3]) @ [1, 2, 3]))"
proof -
  let ?f = "encoded_frame FL_FRAME_UPDATE 7 0 0 1 [1, 2, 3]"
  have s: "sh_crypto secret_shard = sample_session" "sh_shard_id secret_shard = 7" "sh_current_round secret_shard = 0"
    by (simp_all add: secret_shard_def zero_shard_def)
  have r: "crypto_ready (sh_crypto secret_shard)" by (simp add: s)
  have n: "(0 :: u8) < 3" "unat (3 :: u8) \<le> 214" "unat (3 :: u8) \<le> length [1, 2, 3 :: u8]" by simp_all
  obtain p tag where e: "fl_crypto_encrypt sample_session (fr_payload ?f) 3 (fl_crypto_make_nonce 0 0 7) = Some (p, tag)"
    using crypto_encrypt_defined [OF sample_session_ready, of 3 "fr_payload ?f" "fl_crypto_make_nonce 0 0 7"] by auto
  have "fl_crypto_encrypt (sh_crypto secret_shard)
     (fr_payload (encoded_frame FL_FRAME_UPDATE (sh_shard_id secret_shard) (sh_current_round secret_shard) 0 1
        (take (unat (3 :: u8)) [1, 2, 3]))) (ucast (3 :: u8))
     (fl_crypto_make_nonce (sh_current_round secret_shard) 0 (sh_shard_id secret_shard)) = Some (p, tag)"
    using e by (simp add: s)
  from encrypted_update_checksum [OF r n this, of "jk_frame idle_locals" "sy_env idle_demo"]
  show ?thesis by (simp add: s) blast
qed

end
