(* ===== verification/Posix.thy ===== *)
theory Posix
  imports Hal
begin

text \<open>
  The operating system calls of the host programs, as functions over the state \<open>'w\<close> of everything
  outside the program. What a call does is the system's; what its results can be follows the
  manual pages: \<^verbatim>\<open>read\<close> delivers bytes, or fails with \<^verbatim>\<open>EAGAIN\<close> or another error.
\<close>

datatype read_result = Read_Bytes bytes | Read_Again | Read_Error

record 'w posix =
  px_open :: "string \<Rightarrow> 'w \<Rightarrow> int \<times> 'w"
  px_close :: "int \<Rightarrow> 'w \<Rightarrow> 'w"
  px_read :: "int \<Rightarrow> nat \<Rightarrow> 'w \<Rightarrow> read_result \<times> 'w"
  px_write :: "int \<Rightarrow> bytes \<Rightarrow> 'w \<Rightarrow> int \<times> 'w"
  px_time :: "'w \<Rightarrow> int \<times> 'w"
  px_clock :: "'w \<Rightarrow> (int \<times> int) \<times> 'w"  \<comment> \<open>seconds and nanoseconds of \<^verbatim>\<open>CLOCK_MONOTONIC\<close>\<close>
  px_nanosleep :: "nat \<Rightarrow> 'w \<Rightarrow> 'w"
  px_usleep :: "u32 \<Rightarrow> 'w \<Rightarrow> 'w"
  px_sleep :: "u32 \<Rightarrow> 'w \<Rightarrow> 'w"
  px_stderr :: "string \<Rightarrow> log_arg list \<Rightarrow> 'w \<Rightarrow> 'w"

text \<open>The terminal settings behind a serial port.\<close>

datatype speed = B9600 | B115200

record ('t, 'w) termios_api =
  tio_get :: "int \<Rightarrow> 'w \<Rightarrow> int \<times> 't \<times> 'w"
  tio_ospeed :: "speed \<Rightarrow> 't \<Rightarrow> 't"
  tio_ispeed :: "speed \<Rightarrow> 't \<Rightarrow> 't"
  tio_raw :: "'t \<Rightarrow> 't"
  tio_vmin :: "u8 \<Rightarrow> 't \<Rightarrow> 't"
  tio_vtime :: "u8 \<Rightarrow> 't \<Rightarrow> 't"
  tio_set :: "int \<Rightarrow> 't \<Rightarrow> 'w \<Rightarrow> int \<times> 'w"

end
