(* ===== verification/Round_Scheduler.thy ===== *)
theory Round_Scheduler
  imports Float32
begin

text \<open>
  The round scheduler of the Herald: \<^verbatim>\<open>herald/include/fl_round.h\<close> and
  \<^verbatim>\<open>herald/src/fl_round.c\<close>. The value of \<^verbatim>\<open>time(NULL)\<close> at a call is the argument \<open>now\<close>;
  \<^verbatim>\<open>time_t\<close> is a 64-bit count of seconds and is modelled as an integer.
\<close>

record FLRoundPolicy =
  rp_window_seconds :: u32
  rp_inter_round_delay_s :: u32
  rp_min_shards :: u8
  rp_max_shards :: u8
  rp_local_epochs :: u8
  rp_learning_rate :: f32

datatype FLRoundPhase =
  FL_ROUND_IDLE | FL_ROUND_COLLECTING | FL_ROUND_AGGREGATING | FL_ROUND_DISTRIBUTING

record FLRoundScheduler =
  rs_policy :: FLRoundPolicy
  rs_phase :: FLRoundPhase
  rs_round_id :: u8
  rs_window_open_at :: int
  rs_window_close_at :: int
  rs_shards_complete :: u8
  rs_shards_partial :: u8
  rs_rounds_total :: u32

definition fl_round_init :: "FLRoundPolicy \<Rightarrow> FLRoundScheduler" where
  "fl_round_init policy =
     \<lparr>rs_policy = policy, rs_phase = FL_ROUND_IDLE, rs_round_id = 0, rs_window_open_at = 0,
      rs_window_close_at = 0, rs_shards_complete = 0, rs_shards_partial = 0, rs_rounds_total = 0\<rparr>"

definition fl_round_open :: "int \<Rightarrow> FLRoundScheduler \<Rightarrow> u8 \<times> FLRoundScheduler" where
  "fl_round_open now s =
     (rs_round_id s,
      s\<lparr>rs_shards_complete := 0, rs_shards_partial := 0, rs_window_open_at := now,
        rs_window_close_at := now + uint (rp_window_seconds (rs_policy s)),
        rs_phase := FL_ROUND_COLLECTING\<rparr>)"

definition fl_round_shard_complete :: "u16 \<Rightarrow> FLRoundScheduler \<Rightarrow> bool \<times> FLRoundScheduler" where
  "fl_round_shard_complete shard_id s =
     (let s = s\<lparr>rs_shards_complete := rs_shards_complete s + 1\<rparr>
      in (rp_max_shards (rs_policy s) \<le> rs_shards_complete s, s))"

definition fl_round_should_close :: "int \<Rightarrow> FLRoundScheduler \<Rightarrow> bool" where
  "fl_round_should_close now s =
     (if rs_phase s \<noteq> FL_ROUND_COLLECTING then False
      else if rs_window_close_at s \<le> now then True
      else if rp_max_shards (rs_policy s) \<le> rs_shards_complete s then True
      else False)"

definition fl_round_close :: "FLRoundScheduler \<Rightarrow> FLRoundScheduler" where
  "fl_round_close s =
     s\<lparr>rs_phase := FL_ROUND_AGGREGATING, rs_rounds_total := rs_rounds_total s + 1,
       rs_round_id := (rs_round_id s + 1) AND 0xFF\<rparr>"

definition fl_round_is_window_open :: "FLRoundScheduler \<Rightarrow> bool" where
  "fl_round_is_window_open s \<longleftrightarrow> rs_phase s = FL_ROUND_COLLECTING"


section \<open>Reachable schedulers\<close>

text \<open>Every operation, in any order, as one step.\<close>

inductive round_step :: "FLRoundScheduler \<Rightarrow> FLRoundScheduler \<Rightarrow> bool" where
  opens: "round_step s (snd (fl_round_open now s))"
| completes: "round_step s (snd (fl_round_shard_complete shard_id s))"
| closes: "round_step s (fl_round_close s)"

inductive round_reachable :: "FLRoundPolicy \<Rightarrow> FLRoundScheduler \<Rightarrow> bool" for p where
  start: "round_reachable p (fl_round_init p)"
| step: "round_reachable p s \<Longrightarrow> round_step s t \<Longrightarrow> round_reachable p t"

inductive_cases round_stepE: "round_step s t"

lemma and_0xFF [simp]: "(x :: u8) AND 0xFF = x"
proof -
  have "(0xFF :: u8) = - 1" by simp
  then show ?thesis by (simp only: and.right_neutral)
qed

lemma ucast_Suc_u32: "(ucast (x + 1 :: u32) :: u8) = ucast x + 1"
proof -
  have "unat (x + 1) mod 256 = (unat x + 1) mod 256"
    by (simp add: unat_word_ariths mod_mod_cancel)
  then have "(of_nat (unat (x + 1)) :: u8) = of_nat (unat x + 1)"
    by (simp only: word_of_nat_eq_iff take_bit_eq_mod) simp
  then show ?thesis by simp
qed

definition round_inv :: "FLRoundPolicy \<Rightarrow> FLRoundScheduler \<Rightarrow> bool" where
  "round_inv p s \<longleftrightarrow> rs_policy s = p \<and> rs_round_id s = ucast (rs_rounds_total s)
     \<and> (rs_phase s = FL_ROUND_COLLECTING
        \<longrightarrow> rs_window_close_at s = rs_window_open_at s + uint (rp_window_seconds p))
     \<and> rs_phase s \<noteq> FL_ROUND_DISTRIBUTING"

lemma round_inv_step: "round_inv p s \<Longrightarrow> round_step s t \<Longrightarrow> round_inv p t"
  by (erule round_stepE)
     (auto simp: round_inv_def fl_round_open_def fl_round_shard_complete_def fl_round_close_def
       Let_def ucast_Suc_u32)

text \<open>In every scheduler reachable by any sequence of operations the policy is the initial
  one, the round identifier is the number of closed rounds modulo 256 (so it passes through 255,
  the sentinel for "no round"), an open window is exactly as long as the policy says, and the
  phase DISTRIBUTING is never entered.\<close>

theorem round_reachable_inv:
  assumes "round_reachable p s"
  shows "rs_policy s = p \<and> rs_round_id s = ucast (rs_rounds_total s)
    \<and> (rs_phase s = FL_ROUND_COLLECTING
       \<longrightarrow> rs_window_close_at s = rs_window_open_at s + uint (rp_window_seconds p))
    \<and> rs_phase s \<noteq> FL_ROUND_DISTRIBUTING"
proof -
  have "round_inv p s" using assms
  proof (induction rule: round_reachable.induct)
    case start
    show ?case by (simp add: round_inv_def fl_round_init_def)
  qed (rule round_inv_step)
  then show ?thesis by (simp add: round_inv_def)
qed

definition sample_policy :: FLRoundPolicy where
  "sample_policy = \<lparr>rp_window_seconds = 10, rp_inter_round_delay_s = 5, rp_min_shards = 1,
     rp_max_shards = 4, rp_local_epochs = 1, rp_learning_rate = 1\<rparr>"

text \<open>C35: A round always closes: once opened at \<open>now\<close>, it stays open to whatever happens until a
  close, and from the end of the window on the scheduler asks for the close, however many shards
  have reported; before the end of the window it asks exactly when the cap is reached. The
  minimum number of shards plays no part.\<close>

theorem round_closes:
  assumes "s = snd (fl_round_open now s0)" and "t = ((\<lambda>s. snd (fl_round_shard_complete i s)) ^^ n) s"
  shows "fl_round_should_close later t \<longleftrightarrow>
    now + uint (rp_window_seconds (rs_policy s0)) \<le> later
    \<or> rp_max_shards (rs_policy s0) \<le> of_nat n"
proof -
  have "rs_phase t = FL_ROUND_COLLECTING \<and> rs_policy t = rs_policy s0
      \<and> rs_window_close_at t = now + uint (rp_window_seconds (rs_policy s0))
      \<and> rs_shards_complete t = of_nat n"
    unfolding assms
    by (induction n) (simp_all add: fl_round_open_def fl_round_shard_complete_def Let_def)
  then show ?thesis by (simp add: fl_round_should_close_def)
qed

lemma round_closes_witness:
  "\<not> fl_round_should_close 109 (((\<lambda>s. snd (fl_round_shard_complete 3 s)) ^^ 2)
      (snd (fl_round_open 100 (fl_round_init sample_policy))))"
proof -
  have p: "rs_policy (fl_round_init sample_policy) = sample_policy"
    "uint (rp_window_seconds sample_policy) = 10" "rp_max_shards sample_policy = 4"
    by (simp_all add: fl_round_init_def sample_policy_def)
  have "\<not> (4 :: u8) \<le> of_nat 2" by simp
  moreover have "\<not> (100 + 10 :: int) \<le> 109" by simp
  ultimately show ?thesis
    unfolding round_closes [OF refl refl] p by blast
qed

end
