(* ===== verification/Aggregator.thy ===== *)
theory Aggregator
  imports Filum_Error Float32 Frame "HOL-Library.Multiset"
begin

text \<open>
  Aggregation of the shards' updates: \<^verbatim>\<open>herald/include/fl_aggregator.h\<close> and
  \<^verbatim>\<open>herald/src/fl_aggregator.c\<close>.

  The order in which \<^verbatim>\<open>qsort\<close> leaves elements that compare equal is up to the C library
  (the two zeros compare equal and differ), so it is a parameter \<open>qs\<close>; what the C standard
  promises of it is the locale \<open>qsort_spec\<close>.
\<close>

datatype FLAggregatorType = FL_AGG_FEDAVG | FL_AGG_FEDPROX | FL_AGG_MEDIAN

record FLAggregator =
  ag_type :: FLAggregatorType
  ag_accumulator :: "f32 list"
  ag_global_model :: "f32 list"
  ag_shard_count :: u8
  ag_param_count :: u16
  ag_fedprox_mu :: f32
  ag_median_buf :: "f32 list list"
  ag_median_shard_samples :: "u16 list"

definition wf_agg :: "FLAggregator \<Rightarrow> bool" where
  "wf_agg a \<longleftrightarrow> length (ag_accumulator a) = FL_MODEL_MAX_PARAMS
     \<and> length (ag_global_model a) = FL_MODEL_MAX_PARAMS
     \<and> unat (ag_shard_count a) \<le> FL_AGG_MEDIAN_MAX_SHARDS
     \<and> unat (ag_param_count a) \<le> FL_MODEL_MAX_PARAMS
     \<and> length (ag_median_buf a) = FL_AGG_MEDIAN_MAX_SHARDS
     \<and> (\<forall>row \<in> set (ag_median_buf a). length row = FL_MODEL_MAX_PARAMS)
     \<and> length (ag_median_shard_samples a) = FL_AGG_MEDIAN_MAX_SHARDS"

definition cmp_float :: "f32 \<Rightarrow> f32 \<Rightarrow> int" where
  "cmp_float fa fb = (if fb < fa then 1 else 0) - (if fa < fb then 1 else 0)"

definition fl_agg_init ::
  "FLAggregator \<Rightarrow> FLAggregatorType \<Rightarrow> f32 list ptr \<Rightarrow> u16 \<Rightarrow> FLAggregator option" where
  "fl_agg_init agg type global_model param_count =
     do { acc \<leftarrow> memcpy_at (ag_accumulator agg) 0 (replicate (unat param_count) 0);
          gm \<leftarrow> (case global_model of
                   None \<Rightarrow> Some (ag_global_model agg)
                 | Some g \<Rightarrow> do { bs \<leftarrow> rd_slice g 0 (unat param_count);
                                  memcpy_at (ag_global_model agg) 0 bs });
          Some (agg\<lparr>ag_type := type, ag_shard_count := 0, ag_param_count := param_count,
                    ag_accumulator := acc, ag_global_model := gm\<rparr>) }"

text \<open>The loop \<^verbatim>\<open>accumulator[i] += shard_update[i]\<close> of the first two strategies.\<close>

definition agg_accumulate :: "f32 list \<Rightarrow> nat \<Rightarrow> f32 list \<Rightarrow> f32 list option" where
  "agg_accumulate upd n acc =
     for_lt n (\<lambda>i acc. do { a \<leftarrow> rd acc i; u \<leftarrow> rd upd i; wr acc i (a + u) }) acc"

definition fl_agg_add ::
  "FLAggregator \<Rightarrow> f32 list \<Rightarrow> u16 \<Rightarrow> u16 \<Rightarrow> FLAggregator option" where
  "fl_agg_add agg shard_update n_params shard_data_size =
     (let n = (if ag_param_count agg < n_params then ag_param_count agg else n_params) in
      if of_nat FL_AGG_MEDIAN_MAX_SHARDS \<le> ag_shard_count agg then Some agg
      else do {
        agg \<leftarrow> (case ag_type agg of
            FL_AGG_FEDAVG \<Rightarrow> do {
              acc \<leftarrow> agg_accumulate shard_update (unat n) (ag_accumulator agg);
              Some (agg\<lparr>ag_accumulator := acc\<rparr>) }
          | FL_AGG_FEDPROX \<Rightarrow> do {
              acc \<leftarrow> agg_accumulate shard_update (unat n) (ag_accumulator agg);
              Some (agg\<lparr>ag_accumulator := acc\<rparr>) }
          | FL_AGG_MEDIAN \<Rightarrow> do {
              row \<leftarrow> rd (ag_median_buf agg) (unat (ag_shard_count agg));
              bs \<leftarrow> rd_slice shard_update 0 (unat n);
              row \<leftarrow> memcpy_at row 0 bs;
              buf \<leftarrow> wr (ag_median_buf agg) (unat (ag_shard_count agg)) row;
              smp \<leftarrow> wr (ag_median_shard_samples agg) (unat (ag_shard_count agg)) shard_data_size;
              Some (agg\<lparr>ag_median_buf := buf, ag_median_shard_samples := smp\<rparr>) });
        Some (agg\<lparr>ag_shard_count := ag_shard_count agg + 1\<rparr>) })"

text \<open>One coordinate of the median: the column is collected, its used part sorted, and the
  middle read. \<open>0x3F000000\<close> is \<^verbatim>\<open>0.5f\<close>.\<close>

definition median_coord ::
  "((f32 \<Rightarrow> f32 \<Rightarrow> int) \<Rightarrow> f32 list \<Rightarrow> f32 list) \<Rightarrow> FLAggregator \<Rightarrow> nat \<Rightarrow> f32 list
     \<Rightarrow> (f32 \<times> f32 list) option" where
  "median_coord qs agg i col =
     (let n = unat (ag_shard_count agg) in do {
       col \<leftarrow> for_lt n (\<lambda>s col. do {
         row \<leftarrow> rd (ag_median_buf agg) s; x \<leftarrow> rd row i; wr col s x }) col;
       used \<leftarrow> rd_slice col 0 n;
       col \<leftarrow> memcpy_at col 0 (qs cmp_float used);
       v \<leftarrow> (if n mod 2 = 1 then rd col (n div 2)
            else do { a \<leftarrow> rd col (n div 2 - 1); b \<leftarrow> rd col (n div 2);
                      Some ((a + b) * F32 0x3F000000) });
       Some (v, col) })"

definition fl_agg_finalize ::
  "((f32 \<Rightarrow> f32 \<Rightarrow> int) \<Rightarrow> f32 list \<Rightarrow> f32 list) \<Rightarrow> FLAggregator \<Rightarrow> f32 list \<Rightarrow> f32 list option" where
  "fl_agg_finalize qs agg delta_out =
     (let pc = unat (ag_param_count agg); count = f_of_int (uint (ag_shard_count agg)) in
      if ag_shard_count agg = 0 then memcpy_at delta_out 0 (replicate pc 0)
      else case ag_type agg of
        FL_AGG_FEDAVG \<Rightarrow>
          for_lt pc (\<lambda>i d. do { a \<leftarrow> rd (ag_accumulator agg) i; wr d i (f_div a count) }) delta_out
      | FL_AGG_FEDPROX \<Rightarrow>
          for_lt pc (\<lambda>i d. do {
            a \<leftarrow> rd (ag_accumulator agg) i;
            let avg = f_div a count;
            g \<leftarrow> rd (ag_global_model agg) i;
            wr d i (avg - ag_fedprox_mu agg * (avg - g)) }) delta_out
      | FL_AGG_MEDIAN \<Rightarrow>
          map_option fst (for_lt pc (\<lambda>i (d, col). do {
            (v, col) \<leftarrow> median_coord qs agg i col;
            d \<leftarrow> wr d i v;
            Some (d, col) }) (delta_out, replicate FL_AGG_MEDIAN_MAX_SHARDS 0)))"

definition fl_agg_reset :: "FLAggregator \<Rightarrow> FLAggregator option" where
  "fl_agg_reset agg =
     do { acc \<leftarrow> memcpy_at (ag_accumulator agg) 0 (replicate (unat (ag_param_count agg)) 0);
          Some (agg\<lparr>ag_shard_count := 0, ag_accumulator := acc\<rparr>) }"

section \<open>What \<^verbatim>\<open>qsort\<close> promises\<close>

definition comparator_on :: "('a \<Rightarrow> 'a \<Rightarrow> int) \<Rightarrow> 'a set \<Rightarrow> bool" where
  "comparator_on c A \<longleftrightarrow> (\<forall>a \<in> A. \<forall>b \<in> A. sgn (c a b) = - sgn (c b a))
     \<and> (\<forall>a \<in> A. \<forall>b \<in> A. \<forall>d \<in> A. c a b \<le> 0 \<and> c b d \<le> 0 \<longrightarrow> c a d \<le> 0)"

lemma comparator_on_subset: "comparator_on c A \<Longrightarrow> B \<subseteq> A \<Longrightarrow> comparator_on c B"
  unfolding comparator_on_def by blast

lemma comparator_on_trans:
  "comparator_on c A \<Longrightarrow> c a b \<le> 0 \<Longrightarrow> c b d \<le> 0 \<Longrightarrow> {a, b, d} \<subseteq> A \<Longrightarrow> c a d \<le> 0"
  unfolding comparator_on_def by blast

lemma comparator_on_total:
  assumes "comparator_on c A" "{a, b} \<subseteq> A" "\<not> c a b \<le> 0"
  shows "c b a \<le> 0"
proof -
  have "sgn (c b a) = - sgn (c a b)" using assms(1,2) unfolding comparator_on_def by blast
  also have "sgn (c a b) = 1" using assms(3) by simp
  finally have "sgn (c b a) = - 1" .
  then show ?thesis by (simp add: sgn_if split: if_splits)
qed

locale qsort_spec =
  fixes qs :: "('a \<Rightarrow> 'a \<Rightarrow> int) \<Rightarrow> 'a list \<Rightarrow> 'a list"
  assumes perm: "comparator_on c (set xs) \<Longrightarrow> mset (qs c xs) = mset xs"
    and sorted: "comparator_on c (set xs) \<Longrightarrow> sorted_wrt (\<lambda>a b. c a b \<le> 0) (qs c xs)"
begin

lemma length_qs: "comparator_on c (set xs) \<Longrightarrow> length (qs c xs) = length xs"
  by (metis perm size_mset)

lemma set_qs: "comparator_on c (set xs) \<Longrightarrow> set (qs c xs) = set xs"
  by (metis perm set_mset_mset)

text \<open>The element at position \<open>k\<close> is bounded below by anything that at most \<open>k\<close> elements are
  below, and likewise above.\<close>

lemma nth_lower:
  assumes c: "comparator_on c (set xs)" and k: "k < length xs"
    and few: "length (filter P xs) \<le> k" and down: "\<And>a b. a \<in> set xs \<Longrightarrow> b \<in> set xs \<Longrightarrow> P b \<Longrightarrow> c a b \<le> 0 \<Longrightarrow> P a"
  shows "\<not> P (qs c xs ! k)"
proof
  assume Pk: "P (qs c xs ! k)"
  let ?ys = "qs c xs"
  have l: "length ?ys = length xs" by (rule length_qs [OF c])
  have mem: "?ys ! j \<in> set xs" if "j < length xs" for j
    using that l set_qs [OF c] by (metis nth_mem)
  have "\<forall>j < Suc k. P (?ys ! j)"
  proof (intro allI impI)
    fix j assume "j < Suc k"
    then consider "j < k" | "j = k" by linarith
    then show "P (?ys ! j)"
    proof cases
      case 1
      then have "c (?ys ! j) (?ys ! k) \<le> 0"
        using sorted [OF c] k l by (simp add: sorted_wrt_iff_nth_less)
      then show ?thesis by (rule down [OF mem mem Pk, rotated 2]) (use 1 k in simp_all)
    qed (use Pk in simp)
  qed
  then have "filter P (take (Suc k) ?ys) = take (Suc k) ?ys"
    by (intro filter_True) (auto simp: in_set_conv_nth)
  then have "Suc k \<le> length (filter P (take (Suc k) ?ys))" using k l by simp
  also have "\<dots> \<le> length (filter P ?ys)"
    by (subst (2) append_take_drop_id [symmetric, of _ "Suc k"]) (simp del: append_take_drop_id)
  also have "\<dots> = length (filter P xs)"
    using perm [OF c] by (metis mset_filter size_mset)
  finally show False using few by simp
qed

lemma nth_upper:
  assumes c: "comparator_on c (set xs)" and k: "k < length xs"
    and few: "length (filter P xs) < length xs - k" and up: "\<And>a b. a \<in> set xs \<Longrightarrow> b \<in> set xs \<Longrightarrow> P a \<Longrightarrow> c a b \<le> 0 \<Longrightarrow> P b"
  shows "\<not> P (qs c xs ! k)"
proof
  assume Pk: "P (qs c xs ! k)"
  let ?ys = "qs c xs"
  have l: "length ?ys = length xs" by (rule length_qs [OF c])
  have mem: "?ys ! j \<in> set xs" if "j < length xs" for j
    using that l set_qs [OF c] by (metis nth_mem)
  have "\<forall>y \<in> set (drop k ?ys). P y"
  proof
    fix y assume "y \<in> set (drop k ?ys)"
    then obtain j where j: "j < length ?ys - k" "y = ?ys ! (k + j)"
      using k l by (auto simp: in_set_conv_nth)
    show "P y"
    proof (cases "j = 0")
      case False
      then have "c (?ys ! k) (?ys ! (k + j)) \<le> 0"
        using sorted [OF c] j k l by (simp add: sorted_wrt_iff_nth_less)
      then show ?thesis unfolding j(2) by (rule up [OF mem mem Pk, rotated 2]) (use j(1) k l in simp_all)
    qed (use Pk j in simp)
  qed
  then have "filter P (drop k ?ys) = drop k ?ys" by (intro filter_True) auto
  then have "length xs - k \<le> length (filter P (drop k ?ys))" using k l by simp
  also have "\<dots> \<le> length (filter P ?ys)"
    by (subst (2) append_take_drop_id [symmetric, of _ k]) (simp del: append_take_drop_id)
  also have "\<dots> = length (filter P xs)"
    using perm [OF c] by (metis mset_filter size_mset)
  finally show False using few by simp
qed

end

text \<open>An implementation that keeps the promise: insertion sort.\<close>

fun cmp_insert :: "('a \<Rightarrow> 'a \<Rightarrow> int) \<Rightarrow> 'a \<Rightarrow> 'a list \<Rightarrow> 'a list" where
  "cmp_insert c x [] = [x]"
| "cmp_insert c x (y # ys) = (if c x y \<le> 0 then x # y # ys else y # cmp_insert c x ys)"

definition cmp_isort :: "('a \<Rightarrow> 'a \<Rightarrow> int) \<Rightarrow> 'a list \<Rightarrow> 'a list" where
  "cmp_isort c xs = foldr (cmp_insert c) xs []"

lemma mset_cmp_insert [simp]: "mset (cmp_insert c x ys) = add_mset x (mset ys)"
  by (induction ys) simp_all

lemma mset_cmp_isort: "mset (cmp_isort c xs) = mset xs"
  by (induction xs) (simp_all add: cmp_isort_def)

lemma set_cmp_insert [simp]: "set (cmp_insert c x ys) = insert x (set ys)"
  by (induction ys) auto

lemma sorted_cmp_insert:
  assumes "comparator_on c (insert x (set ys))" "sorted_wrt (\<lambda>a b. c a b \<le> 0) ys"
  shows "sorted_wrt (\<lambda>a b. c a b \<le> 0) (cmp_insert c x ys)"
  using assms
proof (induction ys)
  case (Cons y ys)
  have sub: "comparator_on c (insert x (set ys))"
    by (rule comparator_on_subset [OF Cons.prems(1)]) auto
  show ?case
  proof (cases "c x y \<le> 0")
    case True
    have "c x z \<le> 0" if "z \<in> set ys" for z
      by (rule comparator_on_trans [OF Cons.prems(1) True]) (use Cons.prems(2) that in auto)
    with True Cons.prems(2) show ?thesis by simp
  next
    case False
    have "c y x \<le> 0" by (rule comparator_on_total [OF Cons.prems(1) _ False]) simp
    then show ?thesis using False Cons.IH [OF sub] Cons.prems(2) by auto
  qed
qed simp

interpretation isort: qsort_spec cmp_isort
proof
  fix c :: "'a \<Rightarrow> 'a \<Rightarrow> int" and xs :: "'a list"
  show "mset (cmp_isort c xs) = mset xs" by (rule mset_cmp_isort)
  assume "comparator_on c (set xs)"
  then show "sorted_wrt (\<lambda>a b. c a b \<le> 0) (cmp_isort c xs)"
  proof (induction xs)
    case (Cons x xs)
    have "set (cmp_isort c xs) = set xs" by (metis mset_cmp_isort set_mset_mset)
    moreover have "comparator_on c (set xs)"
      by (rule comparator_on_subset [OF Cons.prems]) auto
    then have "sorted_wrt (\<lambda>a b. c a b \<le> 0) (cmp_isort c xs)" by (rule Cons.IH)
    ultimately have "sorted_wrt (\<lambda>a b. c a b \<le> 0) (cmp_insert c x (cmp_isort c xs))"
      using Cons.prems by (intro sorted_cmp_insert) simp_all
    then show ?case by (simp add: cmp_isort_def)
  qed (simp add: cmp_isort_def)
qed

section \<open>Monotone rounding\<close>

abbreviation f_half :: f32 where "f_half \<equiv> F32 0x3F000000"

lemma f_half: "\<not> f_nan f_half" "\<not> f_inf f_half" "\<not> f_sign f_half" "f_mag f_half = 2 ^ 148"
  by (simp_all add: f32_eval)

lemma f_ord_half:
  assumes "\<not> f_nan x" "\<not> f_inf x"
  shows "f_ord (x * f_half) = rnd (f_ord x * 2 ^ 148) (2 ^ 149)"
proof -
  have e: "x * f_half = f_mk (f_sign x) (round_bits (f_mag x * 2 ^ 148) (2 ^ 149))"
    using assms f_half by (simp add: times_f32_def f_mul_def Let_def)
  have n: "nat (int (f_mag x) * 2 ^ 148) = f_mag x * 2 ^ 148"
    by (simp add: nat_mult_distrib nat_power_eq)
  show ?thesis
  proof (cases "f_sign x \<and> f_mag x \<noteq> 0")
    case True
    then show ?thesis using n by (simp add: e rnd_def f_ord_def mult_less_0_iff)
  next
    case False
    then show ?thesis using n by (auto simp: e rnd_def f_ord_def mult_less_0_iff)
  qed
qed

text \<open>The average the median takes of two middle elements lies between them.\<close>

lemma f_average_between:
  assumes l: "\<not> f_nan l" "f_mag l < 2 ^ 276" and h: "\<not> f_nan h" "f_mag h < 2 ^ 276"
    and a: "\<not> f_nan a" "f_ord l \<le> f_ord a" "f_ord a \<le> f_ord h"
    and b: "\<not> f_nan b" "f_ord l \<le> f_ord b" "f_ord b \<le> f_ord h"
  shows "f_ord l \<le> f_ord ((a + b) * f_half)" and "f_ord ((a + b) * f_half) \<le> f_ord h"
proof -
  have fin: "\<not> f_inf x" if "\<not> f_nan x" "f_mag x < 2 ^ 276" for x
    using that f_mag_finite [OF that(1)] by simp
  have ex: "rnd (2 * f_ord x) 1 = 2 * f_ord x" "rnd (2 * f_ord x * 2 ^ 148) (2 ^ 149) = f_ord x"
    if x: "\<not> f_nan x" "f_mag x < 2 ^ 276" for x
  proof -
    obtain q e where qe: "f_mag x = q * 2 ^ e" "q < 2 ^ 24" by (rule f_mag_repr [OF x(1) fin [OF x]])
    have "q * 2 ^ Suc e < 2 ^ 277" using x(2) qe(1) by simp
    moreover have "\<bar>2 * f_ord x\<bar> = int (q * 2 ^ Suc e)"
      unfolding abs_mult f_ord_abs qe(1) by simp
    ultimately show "rnd (2 * f_ord x) 1 = 2 * f_ord x"
      by (intro rnd_exact [OF _ qe(2), of _ "Suc e"]) simp_all
    have "q * 2 ^ e < 2 ^ 277" using x(2) qe(1) by simp
    moreover have "\<bar>f_ord x\<bar> = int (q * 2 ^ e)" by (simp only: f_ord_abs qe(1))
    ultimately show "rnd (2 * f_ord x * 2 ^ 148) (2 ^ 149) = f_ord x"
      by (intro rnd_exact [OF _ qe(2), of _ e]) simp_all
  qed
  have mid: "f_mag x < 2 ^ 276" if "\<not> f_nan x" "f_ord l \<le> f_ord x" "f_ord x \<le> f_ord h" for x
  proof -
    have "\<bar>f_ord l\<bar> < 2 ^ 276" "\<bar>f_ord h\<bar> < 2 ^ 276" using l(2) h(2) by (simp_all add: f_ord_abs)
    then have "\<bar>f_ord x\<bar> < 2 ^ 276" using that(2,3) by linarith
    then show ?thesis by (simp add: f_ord_abs)
  qed
  note ab = f_ord_add [OF a(1) fin [OF a(1) mid [OF a]] b(1) fin [OF b(1) mid [OF b]]]
  have lo: "2 * f_ord l \<le> f_ord (a + b)"
    by (subst ex(1) [OF l, symmetric], subst ab(1), rule rnd_mono) (use a b in simp_all)
  have hi: "f_ord (a + b) \<le> 2 * f_ord h"
    by (subst ex(1) [OF h, symmetric], subst ab(1), rule rnd_mono) (use a b in simp_all)
  have "\<bar>f_ord l\<bar> < 2 ^ 276" "\<bar>f_ord h\<bar> < 2 ^ 276" using l(2) h(2) by (simp_all add: f_ord_abs)
  then have "\<bar>f_ord (a + b)\<bar> < 2 ^ 277" using lo hi by simp
  then have "\<not> f_inf (a + b)" using f_mag_finite [OF ab(2)] by (simp add: f_ord_abs)
  note half = f_ord_half [OF ab(2) this]
  show "f_ord l \<le> f_ord ((a + b) * f_half)"
    by (subst ex(2) [OF l, symmetric], subst half, rule rnd_mono) (use lo in simp_all)
  show "f_ord ((a + b) * f_half) \<le> f_ord h"
    by (subst ex(2) [OF h, symmetric], subst half, rule rnd_mono) (use hi in simp_all)
qed

section \<open>The median\<close>

lemma cmp_float_le: "\<not> f_nan a \<Longrightarrow> \<not> f_nan b \<Longrightarrow> cmp_float a b \<le> 0 \<longleftrightarrow> f_ord a \<le> f_ord b"
  by (simp add: cmp_float_def less_f32_iff)

lemma cmp_float_comparator: "\<forall>x \<in> A. \<not> f_nan x \<Longrightarrow> comparator_on cmp_float A"
  unfolding comparator_on_def by (auto simp: cmp_float_def less_f32_iff)

text \<open>The column of a parameter: its value in the update of every shard.\<close>

definition agg_column :: "FLAggregator \<Rightarrow> nat \<Rightarrow> f32 list" where
  "agg_column agg i = map (\<lambda>s. ag_median_buf agg ! s ! i) [0..<unat (ag_shard_count agg)]"

definition agg_median ::
  "((f32 \<Rightarrow> f32 \<Rightarrow> int) \<Rightarrow> f32 list \<Rightarrow> f32 list) \<Rightarrow> f32 list \<Rightarrow> f32" where
  "agg_median qs xs = (let n = length xs; ys = qs cmp_float xs in
     if n mod 2 = 1 then ys ! (n div 2) else (ys ! (n div 2 - 1) + ys ! (n div 2)) * f_half)"

lemma length_agg_column [simp]: "length (agg_column agg i) = unat (ag_shard_count agg)"
  by (simp add: agg_column_def)

lemma median_coord_eq:
  assumes qs: "qsort_spec qs" and wf: "wf_agg agg" "ag_shard_count agg \<noteq> 0"
    and i: "i < FL_MODEL_MAX_PARAMS" and col: "length col = FL_AGG_MEDIAN_MAX_SHARDS"
    and nan: "\<forall>x \<in> set (agg_column agg i). \<not> f_nan x"
  shows "\<exists>col'. median_coord qs agg i col = Some (agg_median qs (agg_column agg i), col')
    \<and> length col' = FL_AGG_MEDIAN_MAX_SHARDS"
proof -
  let ?n = "unat (ag_shard_count agg)" and ?xs = "agg_column agg i"
  have n: "?n \<le> 64" "0 < ?n" "length (ag_median_buf agg) = 64"
    "\<And>s. s < 64 \<Longrightarrow> length (ag_median_buf agg ! s) = 4096"
    using wf by (auto simp: wf_agg_def unat_gt_0)
  have loop: "for_lt ?n (\<lambda>s col. do { row \<leftarrow> rd (ag_median_buf agg) s; x \<leftarrow> rd row i; wr col s x }) col
      = Some (map_prefix ?n (\<lambda>s _. ag_median_buf agg ! s ! i) col)"
    by (rule for_lt_map) (use n i col in simp_all)
  have take: "take ?n (map_prefix ?n (\<lambda>s _. ag_median_buf agg ! s ! i) col) = ?xs"
    using n col by (auto simp: list_eq_iff_nth_eq agg_column_def)
  have rd: "rd_slice (map_prefix ?n (\<lambda>s _. ag_median_buf agg ! s ! i) col) 0 ?n = Some ?xs"
    using n col by (simp add: take)
  have len: "length (qs cmp_float ?xs) = ?n"
    using qsort_spec.length_qs [OF qs cmp_float_comparator [OF nan]] by simp
  let ?col = "qs cmp_float ?xs @ drop ?n (map_prefix ?n (\<lambda>s _. ag_median_buf agg ! s ! i) col)"
  have cp: "memcpy_at (map_prefix ?n (\<lambda>s _. ag_median_buf agg ! s ! i) col) 0 (qs cmp_float ?xs)
      = Some ?col"
    using n col len by simp
  have lc: "length ?col = 64" using n col len by simp
  have nth: "rd ?col j = Some (qs cmp_float ?xs ! j)" if "j < ?n" for j
    using that len by (simp add: rd_def nth_append)
  have "?n div 2 < ?n" "?n div 2 - 1 < ?n" using n(2) by simp_all
  then have v: "(if ?n mod 2 = 1 then rd ?col (?n div 2)
      else do { a \<leftarrow> rd ?col (?n div 2 - 1); b \<leftarrow> rd ?col (?n div 2); Some ((a + b) * F32 0x3F000000) })
    = Some (agg_median qs ?xs)"
    by (cases "?n mod 2 = 1")
       (simp_all only: nth agg_median_def Let_def length_agg_column bind.bind_lunit simp_thms if_True if_False)
  show ?thesis
    unfolding median_coord_def Let_def loop bind.bind_lunit rd cp v using lc by simp
qed

text \<open>Fewer than half of the shards cannot move the median out of the range of the others.\<close>

lemma few_outside:
  assumes "H \<subseteq> {..<length xs}" and "\<forall>s \<in> H. \<not> P (xs ! s)"
  shows "length (filter P xs) \<le> length xs - card H"
proof -
  have "{i. i < length xs \<and> P (xs ! i)} \<subseteq> {..<length xs} - H" using assms by auto
  then have "card {i. i < length xs \<and> P (xs ! i)} \<le> card ({..<length xs} - H)"
    by (intro card_mono) simp_all
  also have "\<dots> = length xs - card H"
    using assms(1) by (subst card_Diff_subset) (auto intro: finite_subset)
  finally show ?thesis by (simp add: length_filter_conv_card)
qed

lemma agg_median_between:
  assumes qs: "qsort_spec qs" and nan: "\<forall>x \<in> set xs. \<not> f_nan x"
    and H: "H \<subseteq> {..<length xs}" "length xs < 2 * card H"
    and in_range: "\<forall>s \<in> H. f_ord l \<le> f_ord (xs ! s) \<and> f_ord (xs ! s) \<le> f_ord h"
    and lh: "\<not> f_nan l" "f_mag l < 2 ^ 276" "\<not> f_nan h" "f_mag h < 2 ^ 276"
  shows "f_ord l \<le> f_ord (agg_median qs xs) \<and> f_ord (agg_median qs xs) \<le> f_ord h"
proof -
  let ?n = "length xs" and ?ys = "qs cmp_float xs"
  note c = cmp_float_comparator [OF nan]
  have "card H \<le> card {..<?n}" using H(1) by (intro card_mono) simp_all
  then have cH: "card H \<le> ?n" by simp
  have set: "set ?ys = set xs" "length ?ys = ?n"
    using qsort_spec.set_qs [OF qs c] qsort_spec.length_qs [OF qs c] by simp_all
  have cmp: "cmp_float a b \<le> 0 \<longleftrightarrow> f_ord a \<le> f_ord b" if "a \<in> set xs" "b \<in> set xs" for a b
    by (rule cmp_float_le) (use that nan in auto)
  have lower: "f_ord l \<le> f_ord (?ys ! k)" if k: "k < ?n" "?n - card H \<le> k" for k
  proof -
    let ?P = "\<lambda>x. f_ord x < f_ord l"
    have "length (filter ?P xs) \<le> ?n - card H"
      by (rule few_outside [OF H(1)]) (use in_range in \<open>auto simp: not_less\<close>)
    then have few: "length (filter ?P xs) \<le> k" using k(2) by simp
    have "\<not> ?P (?ys ! k)"
      by (rule qsort_spec.nth_lower [OF qs c k(1) few]) (simp add: cmp)
    then show ?thesis by simp
  qed
  have upper: "f_ord (?ys ! k) \<le> f_ord h" if k: "k < ?n" "k < card H" for k
  proof -
    let ?P = "\<lambda>x. f_ord h < f_ord x"
    have "length (filter ?P xs) \<le> ?n - card H"
      by (rule few_outside [OF H(1)]) (use in_range in \<open>auto simp: not_less\<close>)
    then have few: "length (filter ?P xs) < ?n - k" using k cH by linarith
    have "\<not> ?P (?ys ! k)"
      by (rule qsort_spec.nth_upper [OF qs c k(1) few]) (simp add: cmp)
    then show ?thesis by simp
  qed
  have nn: "\<not> f_nan (?ys ! k)" if "k < ?n" for k
    using that set nan by (metis nth_mem)
  have "0 < ?n" using H(2) cH by linarith
  then have n1: "?n div 2 < ?n" by simp
  then have "?n div 2 - 1 < ?n" by (rule less_imp_diff_less)
  note n = n1 this
  show ?thesis
  proof (cases "?n mod 2 = 1")
    case True
    then have "?n - card H \<le> ?n div 2" "?n div 2 < card H" using H(2) by presburger+
    then have "f_ord l \<le> f_ord (?ys ! (?n div 2))" "f_ord (?ys ! (?n div 2)) \<le> f_ord h"
      using lower upper n(1) by blast+
    then show ?thesis using True by (simp add: agg_median_def Let_def)
  next
    case False
    then have e: "?n - card H \<le> ?n div 2 - 1" "?n div 2 < card H" "?n div 2 - 1 < card H"
      "?n - card H \<le> ?n div 2" using H(2) by presburger+
    have eq: "agg_median qs xs = (?ys ! (?n div 2 - 1) + ?ys ! (?n div 2)) * f_half"
      using False by (simp add: agg_median_def Let_def)
    show ?thesis unfolding eq
      by (intro conjI f_average_between [OF lh] nn lower upper n e)
  qed
qed

section \<open>A whole aggregation\<close>

fun agg_add_all :: "FLAggregator \<Rightarrow> u16 \<Rightarrow> f32 list list \<Rightarrow> FLAggregator option" where
  "agg_add_all agg n [] = Some agg"
| "agg_add_all agg n (u # us) = do { agg \<leftarrow> fl_agg_add agg u n 1; agg_add_all agg n us }"

definition aggregate ::
  "((f32 \<Rightarrow> f32 \<Rightarrow> int) \<Rightarrow> f32 list \<Rightarrow> f32 list) \<Rightarrow> FLAggregator \<Rightarrow> FLAggregatorType
     \<Rightarrow> f32 list ptr \<Rightarrow> u16 \<Rightarrow> f32 list list \<Rightarrow> f32 list \<Rightarrow> f32 list option" where
  "aggregate qs agg type gm n us delta_out =
     do { agg \<leftarrow> fl_agg_init agg type gm n;
          agg \<leftarrow> agg_add_all agg n us;
          fl_agg_finalize qs agg delta_out }"

text \<open>The updates that count: the first 64.\<close>

abbreviation counted :: "f32 list list \<Rightarrow> f32 list list" where
  "counted us \<equiv> take FL_AGG_MEDIAN_MAX_SHARDS us"

definition coord_sum :: "f32 list list \<Rightarrow> nat \<Rightarrow> f32" where
  "coord_sum us i = foldl (+) 0 (map (\<lambda>u. u ! i) us)"

definition agg_inv :: "FLAggregatorType \<Rightarrow> u16 \<Rightarrow> f32 list list \<Rightarrow> FLAggregator \<Rightarrow> bool" where
  "agg_inv type n us agg \<longleftrightarrow> wf_agg agg \<and> ag_type agg = type \<and> ag_param_count agg = n
     \<and> unat (ag_shard_count agg) = length us \<and> length us \<le> FL_AGG_MEDIAN_MAX_SHARDS
     \<and> (\<forall>i < unat n. if type = FL_AGG_MEDIAN then agg_column agg i = map (\<lambda>u. u ! i) us
                   else ag_accumulator agg ! i = coord_sum us i)"

lemma agg_init_inv:
  assumes "wf_agg agg" "unat n \<le> FL_MODEL_MAX_PARAMS" "\<forall>g. gm = Some g \<longrightarrow> unat n \<le> length g"
  shows "\<exists>a. fl_agg_init agg type gm n = Some a \<and> agg_inv type n [] a
    \<and> ag_fedprox_mu a = ag_fedprox_mu agg
    \<and> (\<forall>g i. gm = Some g \<longrightarrow> i < unat n \<longrightarrow> ag_global_model a ! i = g ! i)"
  using assms
  by (auto simp: fl_agg_init_def agg_inv_def wf_agg_def agg_column_def coord_sum_def nth_append
      split: option.split)

lemma agg_accumulate_eq:
  "n \<le> length acc \<Longrightarrow> n \<le> length upd \<Longrightarrow>
     agg_accumulate upd n acc = Some (map_prefix n (\<lambda>i a. a + upd ! i) acc)"
  unfolding agg_accumulate_def by (rule for_lt_map) auto

lemma coord_sum_snoc: "coord_sum (us @ [u]) i = coord_sum us i + u ! i"
  by (simp add: coord_sum_def)

lemma agg_add_step:
  assumes I: "agg_inv type n us agg" and u: "unat n \<le> length u"
    and room: "length us < FL_AGG_MEDIAN_MAX_SHARDS"
  shows "\<exists>a. fl_agg_add agg u n sz = Some a \<and> agg_inv type n (us @ [u]) a
    \<and> ag_fedprox_mu a = ag_fedprox_mu agg \<and> ag_global_model a = ag_global_model agg"
proof -
  have wf: "wf_agg agg" and ty: "ag_type agg = type" and n: "ag_param_count agg = n"
    and cnt: "unat (ag_shard_count agg) = length us" using I by (simp_all add: agg_inv_def)
  have n4: "unat n \<le> 4096" using wf n by (auto simp: wf_agg_def)
  have c1: "unat (ag_shard_count agg + 1) = length us + 1"
    using cnt room by (simp add: unat_word_ariths)
  have lt: "\<not> of_nat 64 \<le> ag_shard_count agg" using cnt room by (simp add: word_le_nat_alt)
  show ?thesis
  proof (cases "type = FL_AGG_MEDIAN")
    case False
    let ?acc = "map_prefix (unat n) (\<lambda>i a. a + u ! i) (ag_accumulator agg)"
    let ?a = "agg\<lparr>ag_accumulator := ?acc, ag_shard_count := ag_shard_count agg + 1\<rparr>"
    have acc: "agg_accumulate u (unat n) (ag_accumulator agg) = Some ?acc"
      by (rule agg_accumulate_eq) (use wf n4 u in \<open>simp_all add: wf_agg_def\<close>)
    have "fl_agg_add agg u n sz = Some ?a"
      using False ty lt n acc by (cases type) (simp_all add: fl_agg_add_def Let_def)
    moreover have "agg_inv type n (us @ [u]) ?a"
      using I False c1 room n4 wf unfolding agg_inv_def
      by (auto simp: coord_sum_snoc wf_agg_def)
    ultimately show ?thesis by auto
  next
    case True
    let ?k = "length us"
    have b: "length (ag_median_buf agg) = 64" "length (ag_median_buf agg ! ?k) = 4096"
      "length (ag_median_shard_samples agg) = 64"
      using wf room by (auto simp: wf_agg_def)
    let ?row = "take (unat n) u @ drop (unat n) (ag_median_buf agg ! ?k)"
    let ?a = "agg\<lparr>ag_median_buf := (ag_median_buf agg)[?k := ?row],
      ag_median_shard_samples := (ag_median_shard_samples agg)[?k := sz],
      ag_shard_count := ag_shard_count agg + 1\<rparr>"
    have l: "length ?row = 4096" using b n4 u by simp
    have "fl_agg_add agg u n sz = Some ?a"
      using True ty lt n n4 b room u by (simp add: fl_agg_add_def Let_def cnt)
    moreover have "agg_column ?a i = map (\<lambda>u. u ! i) (us @ [u])" if i: "i < unat n" for i
    proof -
      have "agg_column ?a i = map (\<lambda>s. ag_median_buf agg ! s ! i) [0..<?k] @ [?row ! i]"
        using room b(1) by (simp add: agg_column_def c1)
      moreover have "agg_column agg i = map (\<lambda>u. u ! i) us"
        using I True i by (simp add: agg_inv_def)
      then have "map (\<lambda>s. ag_median_buf agg ! s ! i) [0..<?k] = map (\<lambda>u. u ! i) us"
        by (simp only: agg_column_def cnt)
      moreover have "?row ! i = u ! i" using i u by (simp add: nth_append)
      ultimately show ?thesis by simp
    qed
    moreover have "wf_agg ?a"
      using wf l c1 room by (auto simp: wf_agg_def dest: set_update_subset_insert [THEN subsetD])
    ultimately show ?thesis using True ty n c1 room by (auto simp: agg_inv_def)
  qed
qed

lemma agg_add_all_inv:
  assumes "agg_inv type n us agg" and "\<forall>u \<in> set vs. unat n \<le> length u"
  shows "\<exists>a. agg_add_all agg n vs = Some a \<and> agg_inv type n (counted (us @ vs)) a
    \<and> ag_fedprox_mu a = ag_fedprox_mu agg \<and> ag_global_model a = ag_global_model agg"
  using assms
proof (induction vs arbitrary: us agg)
  case Nil
  then have "counted us = us" by (simp add: agg_inv_def)
  with Nil show ?case by simp
next
  case (Cons v vs)
  have v: "unat n \<le> length v" and vs: "\<forall>u \<in> set vs. unat n \<le> length u" using Cons.prems(2) by auto
  show ?case
  proof (cases "length us < 64")
    case True
    obtain a where a: "fl_agg_add agg v n 1 = Some a" "agg_inv type n (us @ [v]) a"
      "ag_fedprox_mu a = ag_fedprox_mu agg" "ag_global_model a = ag_global_model agg"
      using agg_add_step [OF Cons.prems(1) v True] by blast
    show ?thesis using Cons.IH [OF a(2) vs] a by simp
  next
    case False
    then have us: "length us = 64" "unat (ag_shard_count agg) = 64"
      using Cons.prems(1) by (simp_all add: agg_inv_def)
    then have "fl_agg_add agg v n 1 = Some agg"
      by (simp add: fl_agg_add_def Let_def word_le_nat_alt)
    then show ?thesis using Cons.IH [OF Cons.prems(1) vs] us(1) by simp
  qed
qed

lemma aggregate_start:
  assumes "wf_agg agg" "unat n \<le> FL_MODEL_MAX_PARAMS" "\<forall>u \<in> set us. unat n \<le> length u"
    and "\<forall>g. gm = Some g \<longrightarrow> unat n \<le> length g"
  obtains a where "aggregate qs agg type gm n us d = fl_agg_finalize qs a d"
    and "agg_inv type n (counted us) a" and "ag_fedprox_mu a = ag_fedprox_mu agg"
    and "\<And>g i. gm = Some g \<Longrightarrow> i < unat n \<Longrightarrow> ag_global_model a ! i = g ! i"
proof -
  obtain a0 where a0: "fl_agg_init agg type gm n = Some a0" "agg_inv type n [] a0"
    "ag_fedprox_mu a0 = ag_fedprox_mu agg"
    "\<And>g i. gm = Some g \<Longrightarrow> i < unat n \<Longrightarrow> ag_global_model a0 ! i = g ! i"
    using agg_init_inv [OF assms(1,2,4)] by blast
  obtain a where a: "agg_add_all a0 n us = Some a" "agg_inv type n (counted us) a"
    "ag_fedprox_mu a = ag_fedprox_mu a0" "ag_global_model a = ag_global_model a0"
    using agg_add_all_inv [OF a0(2) assms(3)] by auto
  show ?thesis by (rule that [of a]) (use a0 a in \<open>simp_all add: aggregate_def\<close>)
qed

lemma finalize_median_eq:
  assumes qs: "qsort_spec qs" and I: "agg_inv FL_AGG_MEDIAN n us a" and us: "us \<noteq> []"
    and nan: "\<forall>u \<in> set us. \<forall>i < unat n. \<not> f_nan (u ! i)" and d: "unat n \<le> length d"
  shows "fl_agg_finalize qs a d
    = Some (map_prefix (unat n) (\<lambda>i _. agg_median qs (map (\<lambda>u. u ! i) us)) d)"
proof -
  let ?f = "\<lambda>i (d, col). do { (v, col) \<leftarrow> median_coord qs a i col; d \<leftarrow> wr d i v; Some (d, col) }"
  let ?g = "\<lambda>i _. agg_median qs (map (\<lambda>u. u ! i) us)"
  have wf: "wf_agg a" "ag_shard_count a \<noteq> 0" "unat n \<le> 4096"
    using I us by (auto simp: agg_inv_def wf_agg_def)
  have col: "agg_column a i = map (\<lambda>u. u ! i) us" if "i < unat n" for i
    using I that by (simp add: agg_inv_def)
  have "m \<le> unat n \<Longrightarrow> \<exists>c. for_lt m ?f (d, replicate 64 0) = Some (map_prefix m ?g d, c) \<and> length c = 64" for m
  proof (induction m)
    case (Suc m)
    then obtain c where c: "for_lt m ?f (d, replicate 64 0) = Some (map_prefix m ?g d, c)" "length c = 64"
      by auto
    have m: "m < unat n" "m < 4096" using Suc.prems wf(3) by simp_all
    have "\<forall>x \<in> set (agg_column a m). \<not> f_nan x" using nan m(1) by (simp add: col [OF m(1)])
    from median_coord_eq [OF qs wf(1,2) m(2) c(2) this] obtain c' where
      c': "median_coord qs a m c = Some (agg_median qs (map (\<lambda>u. u ! m) us), c')" "length c' = 64"
      by (auto simp: col [OF m(1)])
    have "(map_prefix m ?g d)[m := agg_median qs (map (\<lambda>u. u ! m) us)] = map_prefix (Suc m) ?g d"
      using m(1) d by (auto simp: list_eq_iff_nth_eq nth_list_update less_Suc_eq)
    then show ?case using m(1) d by (simp add: for_lt_Suc c(1) c')
  qed simp
  from this [of "unat n"] show ?thesis
    using I wf(2) by (auto simp: fl_agg_finalize_def Let_def agg_inv_def)
qed

text \<open>C9: Byzantine robustness of the median: whatever values fewer than half of the counted shards
  send (short of NaN, which the comparison function cannot order), every coordinate of the
  aggregate stays between any two bounds (below \<open>2^127\<close> in magnitude) that hold for that
  coordinate of all other shards; for an even number of shards this includes the rounding of the
  average of the two middle values.\<close>

theorem median_byzantine:
  assumes "qsort_spec qs" and "wf_agg agg" and "unat n \<le> FL_MODEL_MAX_PARAMS"
    and "\<forall>u \<in> set us. unat n \<le> length u \<and> (\<forall>i < unat n. \<not> f_nan (u ! i))" and "unat n \<le> length d"
    and "H \<subseteq> {..<length (counted us)}" and "length (counted us) < 2 * card H"
  shows "\<exists>r. aggregate qs agg FL_AGG_MEDIAN None n us d = Some r \<and> length r = length d
    \<and> (\<forall>i < unat n. \<forall>l h. \<not> f_nan l \<and> f_mag l < 2 ^ 276 \<and> \<not> f_nan h \<and> f_mag h < 2 ^ 276
         \<and> (\<forall>s \<in> H. f_ord l \<le> f_ord (us ! s ! i) \<and> f_ord (us ! s ! i) \<le> f_ord h)
         \<longrightarrow> f_ord l \<le> f_ord (r ! i) \<and> f_ord (r ! i) \<le> f_ord h)"
proof -
  obtain a where a: "aggregate qs agg FL_AGG_MEDIAN None n us d = fl_agg_finalize qs a d"
    "agg_inv FL_AGG_MEDIAN n (counted us) a"
    by (rule aggregate_start [OF assms(2,3), of us None]) (use assms(4) in auto)
  have ne: "counted us \<noteq> []" using assms(6,7) by auto
  have nan: "\<forall>u \<in> set (counted us). \<forall>i < unat n. \<not> f_nan (u ! i)"
    using assms(4) by (auto dest: in_set_takeD)
  let ?r = "map_prefix (unat n) (\<lambda>i _. agg_median qs (map (\<lambda>u. u ! i) (counted us))) d"
  have r: "aggregate qs agg FL_AGG_MEDIAN None n us d = Some ?r"
    unfolding a(1) by (rule finalize_median_eq [OF assms(1) a(2) ne nan assms(5)])
  have "f_ord l \<le> f_ord (?r ! i) \<and> f_ord (?r ! i) \<le> f_ord h"
    if i: "i < unat n" and lh: "\<not> f_nan l" "f_mag l < 2 ^ 276" "\<not> f_nan h" "f_mag h < 2 ^ 276"
      and H: "\<forall>s \<in> H. f_ord l \<le> f_ord (us ! s ! i) \<and> f_ord (us ! s ! i) \<le> f_ord h" for i l h
  proof -
    let ?xs = "map (\<lambda>u. u ! i) (counted us)"
    have x: "?xs ! s = us ! s ! i" if "s \<in> H" for s using that assms(6) by auto
    have "f_ord l \<le> f_ord (agg_median qs ?xs) \<and> f_ord (agg_median qs ?xs) \<le> f_ord h"
      by (rule agg_median_between [OF assms(1) _ _ _ _ lh, of _ H])
         (use nan i assms(6,7) H x in auto)
    then show ?thesis using i assms(5) by simp
  qed
  with r show ?thesis by auto
qed

text \<open>An aggregator in zero-initialised memory.\<close>

definition agg_blank :: FLAggregator where
  "agg_blank = \<lparr>ag_type = FL_AGG_FEDAVG, ag_accumulator = replicate FL_MODEL_MAX_PARAMS 0,
     ag_global_model = replicate FL_MODEL_MAX_PARAMS 0, ag_shard_count = 0, ag_param_count = 0,
     ag_fedprox_mu = 0,
     ag_median_buf = replicate FL_AGG_MEDIAN_MAX_SHARDS (replicate FL_MODEL_MAX_PARAMS 0),
     ag_median_shard_samples = replicate FL_AGG_MEDIAN_MAX_SHARDS 0\<rparr>"

lemma wf_agg_blank [simp]: "wf_agg agg_blank"
  by (simp add: wf_agg_def agg_blank_def)

lemma median_byzantine_witness:
  "\<exists>r. aggregate cmp_isort agg_blank FL_AGG_MEDIAN None 1 [[1], [1], [- 1]] [0] = Some r
    \<and> f_ord (r ! 0) = 2 ^ 149"
proof -
  have u: "unat (1 :: u16) = 1" by simp
  have "(2 :: nat) ^ 149 < 2 ^ 276" by simp
  then have l: "\<not> f_nan (1 :: f32)" "f_mag 1 < 2 ^ 276" by simp_all
  have "\<exists>r. aggregate cmp_isort agg_blank FL_AGG_MEDIAN None 1 [[1], [1], [- 1]] [0] = Some r
      \<and> length r = length [0 :: f32]
      \<and> (\<forall>i < unat (1 :: u16). \<forall>l h. \<not> f_nan l \<and> f_mag l < 2 ^ 276 \<and> \<not> f_nan h \<and> f_mag h < 2 ^ 276
         \<and> (\<forall>s \<in> {0, 1}. f_ord l \<le> f_ord ([[1], [1], [- 1]] ! s ! i)
              \<and> f_ord ([[1], [1], [- 1]] ! s ! i) \<le> f_ord h)
         \<longrightarrow> f_ord l \<le> f_ord (r ! i) \<and> f_ord (r ! i) \<le> f_ord h)"
    by (rule median_byzantine [OF isort.qsort_spec_axioms wf_agg_blank]) (simp_all add: u)
  then obtain r where r: "aggregate cmp_isort agg_blank FL_AGG_MEDIAN None 1 [[1], [1], [- 1]] [0] = Some r"
    and b: "\<forall>i < unat (1 :: u16). \<forall>l h. \<not> f_nan l \<and> f_mag l < 2 ^ 276 \<and> \<not> f_nan h \<and> f_mag h < 2 ^ 276
         \<and> (\<forall>s \<in> {0, 1}. f_ord l \<le> f_ord ([[1], [1], [- 1]] ! s ! i)
              \<and> f_ord ([[1], [1], [- 1]] ! s ! i) \<le> f_ord h)
         \<longrightarrow> f_ord l \<le> f_ord (r ! i) \<and> f_ord (r ! i) \<le> f_ord h" by blast
  have "f_ord 1 \<le> f_ord (r ! 0) \<and> f_ord (r ! 0) \<le> f_ord 1"
    using b [rule_format, of 0 1 1] l by (simp add: u)
  with r show ?thesis by auto
qed

definition agg_mean :: "f32 list list \<Rightarrow> nat \<Rightarrow> f32" where
  "agg_mean us i = f_div (coord_sum us i) (f_of_int (int (length us)))"

lemma agg_inv_count:
  assumes "agg_inv type n us a" and "us \<noteq> []"
  shows "uint (ag_shard_count a) = int (length us)" and "ag_shard_count a \<noteq> 0"
proof -
  have "uint (ag_shard_count a) = int (unat (ag_shard_count a))" by simp
  then show "uint (ag_shard_count a) = int (length us)" using assms(1) by (simp only: agg_inv_def)
  then show "ag_shard_count a \<noteq> 0" using assms(2) by auto
qed

lemma finalize_fedavg_eq:
  assumes I: "agg_inv FL_AGG_FEDAVG n us a" and us: "us \<noteq> []" and d: "unat n \<le> length d"
  shows "fl_agg_finalize qs a d = Some (map_prefix (unat n) (\<lambda>i _. agg_mean us i) d)"
proof -
  have l: "length (ag_accumulator a) = 4096" "unat n \<le> 4096"
    using I by (auto simp: agg_inv_def wf_agg_def)
  have "fl_agg_finalize qs a d = for_lt (unat n) (\<lambda>i d. do { x \<leftarrow> rd (ag_accumulator a) i;
      wr d i (f_div x (f_of_int (int (length us)))) }) d"
    using I agg_inv_count [OF I us] by (simp add: fl_agg_finalize_def Let_def agg_inv_def)
  also have "\<dots> = Some (map_prefix (unat n) (\<lambda>i _. agg_mean us i) d)"
    by (rule for_lt_map) (use I l d in \<open>simp_all add: agg_inv_def agg_mean_def\<close>)
  finally show ?thesis .
qed

lemma finalize_fedprox_eq:
  assumes I: "agg_inv FL_AGG_FEDPROX n us a" and us: "us \<noteq> []" and d: "unat n \<le> length d"
  shows "fl_agg_finalize qs a d = Some (map_prefix (unat n)
    (\<lambda>i _. agg_mean us i - ag_fedprox_mu a * (agg_mean us i - ag_global_model a ! i)) d)"
proof -
  have l: "length (ag_accumulator a) = 4096" "unat n \<le> 4096" "length (ag_global_model a) = 4096"
    using I by (auto simp: agg_inv_def wf_agg_def)
  have "fl_agg_finalize qs a d = for_lt (unat n) (\<lambda>i d. do { x \<leftarrow> rd (ag_accumulator a) i;
      let avg = f_div x (f_of_int (int (length us)));
      g \<leftarrow> rd (ag_global_model a) i; wr d i (avg - ag_fedprox_mu a * (avg - g)) }) d"
    using I agg_inv_count [OF I us] by (simp add: fl_agg_finalize_def Let_def agg_inv_def)
  also have "\<dots> = Some (map_prefix (unat n)
    (\<lambda>i _. agg_mean us i - ag_fedprox_mu a * (agg_mean us i - ag_global_model a ! i)) d)"
    by (rule for_lt_map) (use I l d in \<open>simp_all add: agg_inv_def agg_mean_def Let_def\<close>)
  finally show ?thesis .
qed

lemma aggregate_fedavg:
  assumes "wf_agg agg" and "unat n \<le> FL_MODEL_MAX_PARAMS" and "us \<noteq> []"
    and "\<forall>u \<in> set us. unat n \<le> length u" and "unat n \<le> length d"
  shows "aggregate qs agg FL_AGG_FEDAVG None n us d
    = Some (map_prefix (unat n) (\<lambda>i _. agg_mean (counted us) i) d)"
proof -
  obtain a where a: "aggregate qs agg FL_AGG_FEDAVG None n us d = fl_agg_finalize qs a d"
    and I: "agg_inv FL_AGG_FEDAVG n (counted us) a"
    by (rule aggregate_start [OF assms(1,2,4), of None]) auto
  show ?thesis
    unfolding a using finalize_fedavg_eq [OF I _ assms(5)] assms(3) by simp
qed

text \<open>Federated averaging: every coordinate of the result is the float sum of the counted updates
  in arrival order, starting from zero, divided by their number; updates after the 64th change
  nothing, and coordinates beyond the parameter count keep their old value.\<close>

theorem fedavg_value:
  assumes "wf_agg agg" and "unat n \<le> FL_MODEL_MAX_PARAMS" and "us \<noteq> []"
    and "\<forall>u \<in> set us. unat n \<le> length u" and "unat n \<le> length d"
  shows "aggregate qs agg FL_AGG_FEDAVG None n us d
    = Some (map_prefix (unat n) (\<lambda>i _. f_div (coord_sum (counted us) i)
        (f_of_int (int (length (counted us))))) d)"
  using aggregate_fedavg [OF assms] by (simp add: agg_mean_def)

lemma rnd_self: "\<not> f_nan x \<Longrightarrow> \<not> f_inf x \<Longrightarrow> rnd (f_ord x) 1 = f_ord x"
proof -
  assume x: "\<not> f_nan x" "\<not> f_inf x"
  obtain q e where qe: "f_mag x = q * 2 ^ e" "q < 2 ^ 24" by (rule f_mag_repr [OF x])
  have "f_mag x < 2 ^ 277" using x f_mag_finite by blast
  then have "q * 2 ^ e < 2 ^ 277" by (simp only: qe)
  moreover have "\<bar>f_ord x\<bar> = int (q * 2 ^ e)" by (simp only: f_ord_abs qe(1))
  ultimately show ?thesis by (intro rnd_exact [OF _ qe(2), of _ e]) simp_all
qed

lemma f_sub_zero_mult:
  assumes "\<not> f_nan x" "\<not> f_inf x" "\<not> f_nan y" "\<not> f_inf y"
  shows "f_ord (x - 0 * y) = f_ord x"
proof -
  obtain s where "0 * y = f_mk s 0" using assms(3,4) by (auto simp: times_f32_def f_mul_def Let_def)
  moreover have "x - z = x + (- z)" for z :: f32
    by (simp add: minus_f32_def plus_f32_def uminus_f32_def f_sub_def)
  moreover have "\<not> f_nan (f_mk s 0)" "\<not> f_inf (f_mk s 0)" by (simp_all add: f_inf_def inf_code_def)
  ultimately show ?thesis using assms f_ord_add(1) [of x "- (f_mk s 0)"] rnd_self [OF assms(1,2)] by simp
qed

lemma f_nan_qnan [simp]: "f_nan f_qnan"
  by (simp add: f32_eval)

lemma f_add_inf: "f_inf x \<Longrightarrow> \<not> f_nan (x - y) \<Longrightarrow> f_inf (x - y)" for x y :: f32
  by (auto simp: minus_f32_def f_sub_def f_add_def Let_def split: if_splits)

text \<open>FedProx with coefficient zero is federated averaging, as the comment on it says: every
  coordinate has the same value (up to the sign of zero), for any reference model from which the
  average differs by a finite float.\<close>

theorem fedprox_mu_0:
  assumes "wf_agg agg" and "unat n \<le> FL_MODEL_MAX_PARAMS" and "us \<noteq> []"
    and "\<forall>u \<in> set us. unat n \<le> length u" and "unat n \<le> length d" and "unat n \<le> length g"
    and "ag_fedprox_mu agg = 0" and "aggregate qs agg FL_AGG_FEDAVG None n us d = Some r"
    and "\<forall>i < unat n. \<not> f_nan (r ! i) \<and> \<not> f_nan (r ! i - g ! i) \<and> \<not> f_inf (r ! i - g ! i)"
  shows "\<exists>r'. aggregate qs agg FL_AGG_FEDPROX (Some g) n us d = Some r'
    \<and> (\<forall>i < unat n. f_ord (r' ! i) = f_ord (r ! i))"
proof -
  have ne: "counted us \<noteq> []" using assms(3) by simp
  obtain b where b: "aggregate qs agg FL_AGG_FEDPROX (Some g) n us d = fl_agg_finalize qs b d"
    "agg_inv FL_AGG_FEDPROX n (counted us) b" "ag_fedprox_mu b = 0"
    "\<And>i. i < unat n \<Longrightarrow> ag_global_model b ! i = g ! i"
    by (rule aggregate_start [OF assms(1,2,4), of "Some g"]) (use assms(6,7) in auto)
  have r: "r ! i = agg_mean (counted us) i" if "i < unat n" for i
    using assms(8) aggregate_fedavg [OF assms(1-5), of qs] that assms(5) by auto
  let ?h = "\<lambda>i _. agg_mean (counted us) i - 0 * (agg_mean (counted us) i - ag_global_model b ! i)"
  have "aggregate qs agg FL_AGG_FEDPROX (Some g) n us d = Some (map_prefix (unat n) ?h d)"
    unfolding b(1) using finalize_fedprox_eq [OF b(2) ne assms(5), of qs] by (simp only: b(3))
  moreover have "f_ord (map_prefix (unat n) ?h d ! i) = f_ord (r ! i)" if i: "i < unat n" for i
  proof -
    have "\<not> f_inf (r ! i)" using assms(9) i f_add_inf by blast
    then have "f_ord (r ! i - 0 * (r ! i - g ! i)) = f_ord (r ! i)"
      using assms(9) i by (intro f_sub_zero_mult) auto
    then show ?thesis using i assms(5) by (simp add: r [OF i] b(4) [OF i])
  qed
  ultimately show ?thesis by blast
qed

end
