(* ===== verification/Herald.thy ===== *)
theory Herald
  imports Posix Round_Scheduler Aggregator Fragment_Pool
begin

text \<open>
  The Herald, \<^verbatim>\<open>herald/src/fl_herald.c\<close>: the serial transport, the start, the frames it sends
  and the body of its event loop. The operating system is the parameter \<open>px\<close>, \<^verbatim>\<open>qsort\<close> is \<open>qs\<close>,
  and \<open>junk\<close> stands for the contents of local variables before they are written. The format
  strings leave out the final newline.
\<close>

section \<open>State\<close>

text \<open>\<^verbatim>\<open>serial_port\<close> is read by \<^verbatim>\<open>fl_herald_init\<close> only; the array behind \<^verbatim>\<open>global_model\<close> is a
  field. A callback acts on the state outside the program.\<close>

record 'w FLHeraldConfig =
  hc_serial_port :: string
  hc_baud_rate :: u32
  hc_model_param_count :: u16
  hc_global_model :: "f32 list"
  hc_round_policy :: FLRoundPolicy
  hc_aggregator :: FLAggregatorType
  hc_on_round_complete :: "(u8 \<Rightarrow> u8 \<Rightarrow> 'w \<Rightarrow> 'w) option"
  hc_on_shard_update :: "(u16 \<Rightarrow> u8 \<Rightarrow> 'w \<Rightarrow> 'w) option"
  hc_on_error :: "(string \<Rightarrow> 'w \<Rightarrow> 'w) option"
  hc_log_level :: int

record 'w FLHerald =
  he_config :: "'w FLHeraldConfig"
  he_scheduler :: FLRoundScheduler
  he_frag_pool :: FLFragmentPool
  he_aggregator :: FLAggregator
  he_current_round :: u8
  he_serial_fd :: int
  he_running :: int

text \<open>The static buffers and the local \<^verbatim>\<open>round_id\<close> of \<^verbatim>\<open>fl_herald_run\<close>, with the Herald and the
  state outside.\<close>

record 'w herald_sys =
  hs_herald :: "'w FLHerald"
  hs_rx_buf :: bytes
  hs_dense_update :: "f32 list"
  hs_agg_delta :: "f32 list"
  hs_round_id :: u8
  hs_world :: 'w

record herald_locals =
  hj_frame :: FLFrame
  hj_payload :: bytes
  hj_wire :: bytes

definition herald_log :: "'w posix \<Rightarrow> 'w FLHerald \<Rightarrow> int \<Rightarrow> string \<Rightarrow> log_arg list \<Rightarrow> 'w \<Rightarrow> 'w" where
  "herald_log px h level fmt args w =
     (if level \<le> hc_log_level (he_config h) then px_stderr px (''[Herald] '' @ fmt) args w else w)"

section \<open>Serial transport\<close>

definition serial_speed :: "u32 \<Rightarrow> speed" where
  "serial_speed baud = (if baud = 9600 then B9600 else if baud = 115200 then B115200 else B115200)"

definition serial_open :: "'w posix \<Rightarrow> ('t, 'w) termios_api \<Rightarrow> string \<Rightarrow> u32 \<Rightarrow> 'w \<Rightarrow> int \<times> 'w" where
  "serial_open px tio port baud w =
     (let (fd, w) = px_open px port w in
      if fd < 0 then (- 1, w)
      else let (r, tty, w) = tio_get tio fd w in
        if r \<noteq> 0 then (- 1, px_close px fd w)
        else
          let sp = serial_speed baud;
              tty = tio_vtime tio 1 (tio_vmin tio 0 (tio_raw tio (tio_ispeed tio sp (tio_ospeed tio sp tty))));
              (r, w) = tio_set tio fd tty w
          in if r \<noteq> 0 then (- 1, px_close px fd w) else (fd, w))"

definition serial_write :: "'w posix \<Rightarrow> int \<Rightarrow> bytes \<Rightarrow> nat \<Rightarrow> 'w \<Rightarrow> (int \<times> 'w) option" where
  "serial_write px fd buf len w =
     do { bs \<leftarrow> rd_slice buf 0 len;
          let (n, w) = px_write px fd bs w;
          Some (if n = int len then 0 else - 1, w) }"

text \<open>The result, the buffer and \<^verbatim>\<open>*read_len\<close>.\<close>

definition serial_read ::
  "'w posix \<Rightarrow> int \<Rightarrow> bytes \<Rightarrow> nat \<Rightarrow> nat \<Rightarrow> 'w \<Rightarrow> (int \<times> bytes \<times> nat \<times> 'w) option" where
  "serial_read px fd buf max_len read_len w =
     (case px_read px fd max_len w of
        (Read_Again, w) \<Rightarrow> Some (0, buf, 0, w)
      | (Read_Error, w) \<Rightarrow> Some (- 1, buf, read_len, w)
      | (Read_Bytes bs, w) \<Rightarrow> do { buf \<leftarrow> memcpy_at buf 0 bs; Some (0, buf, length bs, w) })"

section \<open>Start and stop\<close>

text \<open>The memory is zeroed first, so the old contents of the structure do not matter.\<close>

definition herald_init_common :: "'w FLHeraldConfig \<Rightarrow> 'w FLHerald option" where
  "herald_init_common config =
     do { agg \<leftarrow> fl_agg_init agg_blank (hc_aggregator config) (Some (hc_global_model config))
            (hc_model_param_count config);
          Some \<lparr>he_config = config, he_scheduler = fl_round_init (hc_round_policy config),
            he_frag_pool = fl_pool_init 300, he_aggregator = agg, he_current_round = 0,
            he_serial_fd = 0, he_running = 1\<rparr> }"

definition fl_herald_init ::
  "'w posix \<Rightarrow> ('t, 'w) termios_api \<Rightarrow> 'w FLHerald ptr \<Rightarrow> 'w FLHeraldConfig ptr \<Rightarrow> 'w
    \<Rightarrow> (FLError \<times> 'w FLHerald ptr \<times> 'w) option" where
  "fl_herald_init px tio herald config w =
     (case (herald, config) of
        (Some _, Some c) \<Rightarrow> do {
          h \<leftarrow> herald_init_common c;
          let (fd, w) = serial_open px tio (hc_serial_port c) (hc_baud_rate c) w;
          let h = h\<lparr>he_serial_fd := fd\<rparr>;
          if fd < 0 then
            Some (FL_ERR_TRANSPORT, Some h,
              herald_log px h 1 ''Failed to open serial port %s'' [Log_Str (hc_serial_port c)] w)
          else
            Some (FL_OK, Some h,
              herald_log px h 2 ''Initialized. Serial: %s @ %u baud''
                [Log_Str (hc_serial_port c), Log_Int (uint (hc_baud_rate c))] w) }
      | _ \<Rightarrow> Some (FL_ERR_INVALID_ARG, herald, w))"

definition fl_herald_init_fd ::
  "'w posix \<Rightarrow> 'w FLHerald ptr \<Rightarrow> 'w FLHeraldConfig ptr \<Rightarrow> int \<Rightarrow> 'w
    \<Rightarrow> (FLError \<times> 'w FLHerald ptr \<times> 'w) option" where
  "fl_herald_init_fd px herald config fd w =
     (case (herald, config) of
        (Some _, Some c) \<Rightarrow> do {
          h \<leftarrow> herald_init_common c;
          let h = h\<lparr>he_serial_fd := fd\<rparr>;
          Some (FL_OK, Some h, herald_log px h 2 ''Initialized with fd=%d'' [Log_Int fd] w) }
      | _ \<Rightarrow> Some (FL_ERR_INVALID_ARG, herald, w))"

definition fl_herald_stop :: "'w FLHerald \<Rightarrow> 'w FLHerald" where
  "fl_herald_stop h = h\<lparr>he_running := 0\<rparr>"

definition fl_herald_destroy :: "'w posix \<Rightarrow> 'w FLHerald \<Rightarrow> 'w \<Rightarrow> 'w" where
  "fl_herald_destroy px h w = (if 0 \<le> he_serial_fd h then px_close px (he_serial_fd h) w else w)"

section \<open>Sending\<close>

text \<open>The members of the payload that the initialiser does not name are zero.\<close>

definition herald_beacon :: "'w FLHerald \<Rightarrow> u8 \<Rightarrow> FLBeaconPayload" where
  "herald_beacon h round_id =
     (let p = hc_round_policy (he_config h) in
      \<lparr>bp_round_id = round_id, bp_window_seconds = rp_window_seconds p,
       bp_model_param_count = hc_model_param_count (he_config h), bp_min_shards = rp_min_shards p,
       bp_local_epochs = rp_local_epochs p, bp_learning_rate = rp_learning_rate p, bp_dp_sigma = 0\<rparr>)"

definition fl_herald_send_beacon ::
  "'w posix \<Rightarrow> herald_locals \<Rightarrow> 'w FLHerald \<Rightarrow> u8 \<Rightarrow> 'w \<Rightarrow> (FLError \<times> 'w) option" where
  "fl_herald_send_beacon px junk h round_id w =
     (let bp = beacon_bytes (herald_beacon h round_id) in do {
        (_, frame) \<leftarrow> fl_frame_encode (Some (hj_frame junk)) FL_FRAME_BEACON FL_SHARD_ID_HERALD round_id 0 1
          (Some bp) 17;
        frame \<leftarrow> frame;
        bs \<leftarrow> rd_slice (frame_bytes frame) 0 (FL_HEADER_SIZE + 17);
        wire \<leftarrow> memcpy_at (hj_wire junk) 0 bs;
        let w = herald_log px h 2 ''Sending BEACON round=%d'' [Log_Int (uint round_id)] w;
        (r, w) \<leftarrow> serial_write px (he_serial_fd h) wire (FL_HEADER_SIZE + 17) w;
        Some (if r = 0 then FL_OK else FL_ERR_TRANSPORT, w) })"

text \<open>One fragment of a delta, with the count of errors so far.\<close>

definition send_delta_frag ::
  "'w posix \<Rightarrow> herald_locals \<Rightarrow> 'w FLHerald \<Rightarrow> FLSparseBuffer \<Rightarrow> u8 \<Rightarrow> u8 \<Rightarrow> int \<times> 'w \<Rightarrow> (int \<times> 'w) option" where
  "send_delta_frag px junk h sbuf frags f = (\<lambda>(errors, w). do {
     (_, payload, payload_len) \<leftarrow> fl_sparse_write_fragment (hj_payload junk) 0 sbuf f;
     (_, frame) \<leftarrow> fl_frame_encode (Some (hj_frame junk)) FL_FRAME_DELTA FL_SHARD_ID_HERALD
       (he_current_round h) f frags (Some payload) payload_len;
     frame \<leftarrow> frame;
     (r, w) \<leftarrow> serial_write px (he_serial_fd h) (frame_bytes frame) (FL_HEADER_SIZE + unat payload_len) w;
     Some (if r \<noteq> 0 then errors + 1 else errors, px_nanosleep px 100000000 w) })"

definition fl_herald_send_delta ::
  "'w posix \<Rightarrow> herald_locals \<Rightarrow> 'w FLHerald \<Rightarrow> f32 list \<Rightarrow> u16 \<Rightarrow> 'w \<Rightarrow> (FLError \<times> 'w) option" where
  "fl_herald_send_delta px junk h delta topk w =
     do { (_, _, sbuf) \<leftarrow> fl_sparse_encode delta (hc_model_param_count (he_config h)) topk None sparse_blank;
          let frags = fl_sparse_fragment_count sbuf;
          (errors, w) \<leftarrow> for_lt (unat frags) (\<lambda>f. send_delta_frag px junk h sbuf frags (of_nat f)) (0, w);
          let w = herald_log px h 2 ''Sent DELTA: %d frags, %d entries, %d errors''
            [Log_Int (uint frags), Log_Int (uint (sb_count sbuf)), Log_Int errors] w;
          Some (if errors \<noteq> 0 then FL_ERR_TRANSPORT else FL_OK, w) }"

section \<open>The event loop\<close>

text \<open>An update frame: the acknowledgement and the aggregation once it completes its shard.\<close>

definition herald_complete ::
  "'w posix \<Rightarrow> herald_locals \<Rightarrow> u16 \<Rightarrow> 'w herald_sys \<Rightarrow> 'w herald_sys option" where
  "herald_complete px junk shard_id y =
     (let h = hs_herald y; c = he_config h;
          w = herald_log px h 3 ''Shard %04X update complete'' [Log_Int (uint shard_id)] (hs_world y) in do {
        (_, ack) \<leftarrow> fl_frame_encode (Some (hj_frame junk)) FL_FRAME_ACK FL_SHARD_ID_HERALD (he_current_round h) 0 1 None 0;
        ack \<leftarrow> ack;
        (_, w) \<leftarrow> serial_write px (he_serial_fd h) (frame_bytes ack) FL_HEADER_SIZE w;
        (h, dense) \<leftarrow> (case fl_pool_get_complete (he_frag_pool h) shard_id of
            None \<Rightarrow> Some (h, hs_dense_update y)
          | Some sbuf \<Rightarrow> do {
              dense \<leftarrow> fl_sparse_decode sbuf (hs_dense_update y) (hc_model_param_count c) False;
              agg \<leftarrow> fl_agg_add (he_aggregator h) dense (hc_model_param_count c) 100;
              Some (h\<lparr>he_aggregator := agg, he_frag_pool := fl_pool_release (he_frag_pool h) shard_id,
                he_scheduler := snd (fl_round_shard_complete shard_id (he_scheduler h))\<rparr>, dense) });
        let w = (case hc_on_shard_update c of None \<Rightarrow> w | Some cb \<Rightarrow> cb shard_id (hs_round_id y) w);
        Some (y\<lparr>hs_herald := h, hs_dense_update := dense, hs_world := w\<rparr>) })"

definition herald_update ::
  "'w posix \<Rightarrow> herald_locals \<Rightarrow> FLFrame \<Rightarrow> u8 \<Rightarrow> 'w herald_sys \<Rightarrow> 'w herald_sys option" where
  "herald_update px junk frame payload_len y =
     (let (now, w) = px_time px (hs_world y) in do {
        (complete, pool) \<leftarrow> fl_pool_ingest now (he_frag_pool (hs_herald y)) frame payload_len;
        let y = y\<lparr>hs_herald := (hs_herald y)\<lparr>he_frag_pool := pool\<rparr>, hs_world := w\<rparr>;
        if complete = 1 then herald_complete px junk (fr_shard_id frame) y else Some y })"

definition herald_rx :: "'w posix \<Rightarrow> herald_locals \<Rightarrow> 'w herald_sys \<Rightarrow> 'w herald_sys option" where
  "herald_rx px junk y =
     do { (r, buf, rx_len, w) \<leftarrow> serial_read px (he_serial_fd (hs_herald y)) (hs_rx_buf y) FL_FRAME_MAX_SIZE 0 (hs_world y);
          let y = y\<lparr>hs_rx_buf := buf, hs_world := w\<rparr>;
          if r = 0 \<and> 0 < rx_len then do {
            (err, frame) \<leftarrow> fl_frame_decode (Some buf) rx_len (Some (hj_frame junk));
            frame \<leftarrow> frame;
            if err = FL_OK \<and> fr_type frame = type_code FL_FRAME_UPDATE
            then herald_update px junk frame (of_nat (rx_len - FL_HEADER_SIZE)) y
            else Some y }
          else Some y }"

text \<open>The aggregate is added to the global model and broadcast.\<close>

definition herald_aggregate ::
  "'w posix \<Rightarrow> ((f32 \<Rightarrow> f32 \<Rightarrow> int) \<Rightarrow> f32 list \<Rightarrow> f32 list) \<Rightarrow> herald_locals \<Rightarrow> 'w herald_sys \<Rightarrow> 'w herald_sys option" where
  "herald_aggregate px qs junk y =
     (let h = hs_herald y; n = hc_model_param_count (he_config h) in do {
        delta \<leftarrow> fl_agg_finalize qs (he_aggregator h) (hs_agg_delta y);
        gm \<leftarrow> for_lt (unat n) (\<lambda>i gm. do { g \<leftarrow> rd gm i; d \<leftarrow> rd delta i; wr gm i (g + d) })
          (hc_global_model (he_config h));
        let h = h\<lparr>he_config := (he_config h)\<lparr>hc_global_model := gm\<rparr>\<rparr>;
        let topk = n div 10;
        (_, w) \<leftarrow> fl_herald_send_delta px junk h delta (if topk \<noteq> 0 then topk else 1) (hs_world y);
        Some (y\<lparr>hs_herald := h, hs_agg_delta := delta, hs_world := w\<rparr>) })"

definition herald_next_round ::
  "'w posix \<Rightarrow> herald_locals \<Rightarrow> 'w herald_sys \<Rightarrow> 'w herald_sys option" where
  "herald_next_round px junk y =
     (let h = hs_herald y; delay = rp_inter_round_delay_s (hc_round_policy (he_config h));
          w = px_sleep px delay (hs_world y);
          (now, w) = px_time px w;
          (round_id, s) = fl_round_open now (he_scheduler h);
          h = h\<lparr>he_scheduler := s, he_current_round := round_id\<rparr>
      in do {
        (_, w) \<leftarrow> fl_herald_send_beacon px junk h round_id w;
        Some (y\<lparr>hs_herald := h, hs_round_id := round_id, hs_world := w\<rparr>) })"

definition herald_close ::
  "'w posix \<Rightarrow> ((f32 \<Rightarrow> f32 \<Rightarrow> int) \<Rightarrow> f32 list \<Rightarrow> f32 list) \<Rightarrow> herald_locals \<Rightarrow> 'w herald_sys \<Rightarrow> 'w herald_sys option" where
  "herald_close px qs junk y =
     (let h = hs_herald y;
          w = herald_log px h 2 ''Round %d closing. Shards: %d''
            [Log_Int (uint (rs_round_id (he_scheduler h))), Log_Int (uint (rs_shards_complete (he_scheduler h)))]
            (hs_world y);
          y = y\<lparr>hs_herald := h\<lparr>he_scheduler := fl_round_close (he_scheduler h)\<rparr>, hs_world := w\<rparr>
      in do {
        y \<leftarrow> (if 0 < rs_shards_complete (he_scheduler (hs_herald y)) then herald_aggregate px qs junk y else Some y);
        let h = hs_herald y;
        let c = he_config h;
        let shards = rs_shards_complete (he_scheduler h);
        let rcp = round_close_bytes \<lparr>rcp_round_id = hs_round_id y, rcp_shards_aggregated = shards,
              rcp_next_round_in_sec = rp_inter_round_delay_s (hc_round_policy c)\<rparr>;
        (_, frame) \<leftarrow> fl_frame_encode (Some (hj_frame junk)) FL_FRAME_ROUND_CLOSE FL_SHARD_ID_HERALD (hs_round_id y) 0 1
          (Some rcp) 6;
        frame \<leftarrow> frame;
        (_, w) \<leftarrow> serial_write px (he_serial_fd h) (frame_bytes frame) (FL_HEADER_SIZE + 6) (hs_world y);
        let w = (case hc_on_round_complete c of None \<Rightarrow> w | Some cb \<Rightarrow> cb (hs_round_id y) shards w);
        agg \<leftarrow> fl_agg_reset (he_aggregator h);
        herald_next_round px junk (y\<lparr>hs_herald := h\<lparr>he_aggregator := agg\<rparr>, hs_world := w\<rparr>) })"

definition herald_rounds ::
  "'w posix \<Rightarrow> ((f32 \<Rightarrow> f32 \<Rightarrow> int) \<Rightarrow> f32 list \<Rightarrow> f32 list) \<Rightarrow> herald_locals \<Rightarrow> 'w herald_sys \<Rightarrow> 'w herald_sys option" where
  "herald_rounds px qs junk y =
     (let (now, w) = px_time px (hs_world y);
          h = (hs_herald y)\<lparr>he_frag_pool := snd (fl_pool_expire now (he_frag_pool (hs_herald y)))\<rparr>;
          (now, w) = px_time px w;
          y = y\<lparr>hs_herald := h, hs_world := w\<rparr>
      in if fl_round_should_close now (he_scheduler h) then herald_close px qs junk y else Some y)"

definition herald_iter ::
  "'w posix \<Rightarrow> ((f32 \<Rightarrow> f32 \<Rightarrow> int) \<Rightarrow> f32 list \<Rightarrow> f32 list) \<Rightarrow> herald_locals \<Rightarrow> 'w herald_sys \<Rightarrow> 'w herald_sys option" where
  "herald_iter px qs junk y =
     do { y \<leftarrow> herald_rx px junk y;
          y \<leftarrow> herald_rounds px qs junk y;
          Some (y\<lparr>hs_world := px_nanosleep px 10000000 (hs_world y)\<rparr>) }"

text \<open>The flag \<^verbatim>\<open>running\<close> is volatile: \<open>sig\<close> tells whether a signal handler or a callback has
  called \<^verbatim>\<open>fl_herald_stop\<close> before the loop reads it.\<close>

partial_function (option) herald_loop ::
  "'w posix \<Rightarrow> ('w \<Rightarrow> bool) \<Rightarrow> ((f32 \<Rightarrow> f32 \<Rightarrow> int) \<Rightarrow> f32 list \<Rightarrow> f32 list) \<Rightarrow> herald_locals \<Rightarrow> 'w herald_sys
    \<Rightarrow> 'w herald_sys option" where
  "herald_loop px sig qs junk y =
     (let y = (if sig (hs_world y) then y\<lparr>hs_herald := fl_herald_stop (hs_herald y)\<rparr> else y) in
      if he_running (hs_herald y) = 0 then Some y
      else do { y \<leftarrow> herald_iter px qs junk y; herald_loop px sig qs junk y })"

text \<open>What precedes the loop: the first round is opened and announced.\<close>

definition herald_start :: "'w posix \<Rightarrow> herald_locals \<Rightarrow> 'w herald_sys \<Rightarrow> 'w herald_sys option" where
  "herald_start px junk y =
     (let h = hs_herald y;
          w = herald_log px h 2 ''Event loop started'' [] (hs_world y);
          (now, w) = px_time px w;
          (round_id, s) = fl_round_open now (he_scheduler h);
          h = h\<lparr>he_scheduler := s\<rparr>
      in do {
        (_, w) \<leftarrow> fl_herald_send_beacon px junk h round_id w;
        Some (y\<lparr>hs_herald := h, hs_round_id := round_id, hs_world := w\<rparr>) })"

definition fl_herald_run ::
  "'w posix \<Rightarrow> ('w \<Rightarrow> bool) \<Rightarrow> ((f32 \<Rightarrow> f32 \<Rightarrow> int) \<Rightarrow> f32 list \<Rightarrow> f32 list) \<Rightarrow> herald_locals \<Rightarrow> 'w herald_sys
    \<Rightarrow> (FLError \<times> 'w herald_sys) option" where
  "fl_herald_run px sig qs junk y =
     do { y \<leftarrow> herald_start px junk y;
          y \<leftarrow> herald_loop px sig qs junk y;
          Some (FL_OK, y\<lparr>hs_world := herald_log px (hs_herald y) 2 ''Event loop stopped'' [] (hs_world y)\<rparr>) }"

end
