(* ===== verification/Aggregate_Values.thy ===== *)
theory Aggregate_Values
  imports Aggregator Sparse
begin

text \<open>
  The range of what the Herald aggregates: every value decoded from Q8 entries lies on the grid of
  multiples of 1/128, sums of up to 64 decoded updates stay on it exactly, and so none of the
  three strategies ever produces a NaN from what was received, whatever the shards send.
\<close>

section \<open>The grid of multiples of 1/128\<close>

definition grid :: "int \<Rightarrow> f32 \<Rightarrow> bool" where
  "grid K x \<longleftrightarrow> \<not> f_nan x \<and> \<not> f_inf x \<and> (\<exists>k. f_ord x = k * 2 ^ 142 \<and> \<bar>k\<bar> \<le> K)"

lemma gridD: "grid K x \<Longrightarrow> \<not> f_nan x" "grid K x \<Longrightarrow> \<not> f_inf x" "grid K x \<Longrightarrow> \<bar>f_ord x\<bar> \<le> K * 2 ^ 142"
  by (auto simp: grid_def abs_mult)

lemma grid_mono: "grid K x \<Longrightarrow> K \<le> L \<Longrightarrow> grid L x"
  by (auto simp: grid_def intro: order_trans)

lemma grid_0 [simp]: "0 \<le> K \<Longrightarrow> grid K 0"
  by (auto simp: grid_def intro: exI [of _ 0])

lemma sint_i8_abs: "\<bar>sint (q :: i8)\<bar> \<le> 128"
  using sint_ge [of q] sint_less [of q] by simp

lemma grid_dequant: "grid 128 (fl_dequant_q8 q)"
  using fl_dequant_q8_ord [of q] sint_i8_abs [of q] by (auto simp: grid_def)

lemma grid_rnd:
  assumes "\<bar>k\<bar> < 2 ^ 24"
  shows "rnd (k * 2 ^ 142) 1 = k * 2 ^ 142"
proof (rule rnd_exact)
  show q: "nat \<bar>k\<bar> < 2 ^ 24" using assms by simp
  have "nat \<bar>k\<bar> * 2 ^ 142 < 2 ^ 24 * (2 ^ 142 :: nat)" using q by (simp only: mult_less_cancel2) simp
  also have "\<dots> < 2 ^ 277" by simp
  finally show "nat \<bar>k\<bar> * 2 ^ 142 < 2 ^ 277" .
  show "\<bar>k * 2 ^ 142\<bar> = int (nat \<bar>k\<bar> * 2 ^ 142)" by (simp add: abs_mult)
qed simp_all

lemma grid_add:
  assumes x: "grid A x" and y: "grid B y" and lt: "A + B < 2 ^ 24"
  shows "grid (A + B) (x + y)"
proof -
  obtain k l where k: "f_ord x = k * 2 ^ 142" "\<bar>k\<bar> \<le> A" and l: "f_ord y = l * 2 ^ 142" "\<bar>l\<bar> \<le> B"
    using x y by (auto simp: grid_def)
  note s = f_ord_add [OF gridD(1,2) [OF x] gridD(1,2) [OF y]]
  have b: "\<bar>k + l\<bar> \<le> A + B" using k(2) l(2) by linarith
  have "f_ord x + f_ord y = (k + l) * 2 ^ 142" by (simp only: k l distrib_right)
  then have o: "f_ord (x + y) = (k + l) * 2 ^ 142" using s(1) grid_rnd [of "k + l"] b lt by simp
  have "\<bar>k + l\<bar> * 2 ^ 142 < 2 ^ 24 * (2 ^ 142 :: int)"
    using b lt by (intro mult_strict_right_mono) simp_all
  then have "\<bar>f_ord (x + y)\<bar> < 2 ^ 277" by (simp add: o abs_mult)
  then have "\<not> f_inf (x + y)" using f_mag_finite [OF s(2)] by (simp add: f_ord_abs)
  then show ?thesis unfolding grid_def using s(2) o b by blast
qed

section \<open>Decoded updates\<close>

definition update_ok :: "u16 \<Rightarrow> f32 list \<Rightarrow> bool" where
  "update_ok n u \<longleftrightarrow> unat n \<le> length u \<and> (\<forall>i < unat n. grid 131072 (u ! i))"

lemma sparse_decode_ok:
  assumes buf: "wf_sparse buf" and n: "unat n \<le> length grad"
  shows "\<exists>g. fl_sparse_decode buf grad n False = Some g \<and> length g = length grad \<and> update_ok n g"
proof -
  let ?c = "unat (sb_count buf)"
  let ?P = "\<lambda>j g. length g = length grad \<and> (\<forall>i < unat n. grid (128 * int j) (g ! i))"
  define g0 where "g0 = replicate (unat n) 0 @ drop (unat n) grad"
  have g0: "memcpy_at grad 0 (replicate (unat n) 0) = Some g0" "?P 0 g0"
    using n by (simp_all add: g0_def nth_append)
  have c: "?c \<le> length (sb_entries buf)" "?c \<le> 1024" using buf by (simp_all add: wf_sparse_def)
  have "\<exists>g. for_lt ?c (\<lambda>i grad. do {
            e \<leftarrow> rd (sb_entries buf) i;
            let idx = ge_param_index e;
            if idx < n then do {
              g \<leftarrow> rd grad (unat idx);
              wr grad (unat idx) (g + fl_dequant_q8 (ge_delta_q8 e)) }
            else Some grad }) g0 = Some g \<and> ?P ?c g"
  proof (rule for_lt_inv [where P = ?P])
    fix j g assume j: "j < ?c" and P: "?P j g"
    let ?e = "sb_entries buf ! j"
    have up: "grid (128 * int (Suc j)) x" if "grid (128 * int j) x" for x
      by (rule grid_mono [OF that]) simp
    have add: "grid (128 * int (Suc j)) (x + fl_dequant_q8 q)" if "grid (128 * int j) x" for x q
      using grid_add [OF that grid_dequant [of q]] j c(2) by (simp add: algebra_simps)
    show "\<exists>g'. do {
            e \<leftarrow> rd (sb_entries buf) j;
            let idx = ge_param_index e;
            if idx < n then do {
              x \<leftarrow> rd g (unat idx);
              wr g (unat idx) (x + fl_dequant_q8 (ge_delta_q8 e)) }
            else Some g } = Some g' \<and> ?P (Suc j) g'"
      using P j c(1) n up add by (auto simp: Let_def word_less_nat_alt nth_list_update)
  qed (use g0(2) in simp)
  then obtain g where "fl_sparse_decode buf grad n False = Some g" "?P ?c g"
    by (auto simp: fl_sparse_decode_def g0(1))
  moreover have "grid (128 * int ?c) x \<Longrightarrow> grid 131072 x" for x 
    by (erule grid_mono) (use c(2) in linarith)
  ultimately show ?thesis using n by (auto simp: update_ok_def)
qed

section \<open>Aggregates\<close>

lemma coord_sum_grid:
  "\<forall>u \<in> set us. update_ok n u \<Longrightarrow> length us \<le> 64 \<Longrightarrow> i < unat n \<Longrightarrow> grid (131072 * int (length us)) (coord_sum us i)"
proof (induction us rule: rev_induct)
  case (snoc u us)
  then have "grid (131072 * int (length us) + 131072) (coord_sum us i + u ! i)"
    by (intro grid_add) (auto simp: update_ok_def)
  then show ?case by (simp add: coord_sum_snoc algebra_simps)
qed (simp add: coord_sum_def)

text \<open>A quotient by a positive number is no larger than the dividend.\<close>

lemma f_ord_div:
  assumes "\<not> f_nan x" "\<not> f_inf x" and y: "\<not> f_nan y" "\<not> f_inf y" "\<not> f_sign y" "f_mag y \<noteq> 0"
  shows "f_ord (f_div x y) = rnd (f_ord x * 2 ^ 149) (f_mag y)" and "\<not> f_nan (f_div x y)"
proof -
  have e: "f_div x y = f_mk (f_sign x) (round_bits (f_mag x * 2 ^ 149) (f_mag y))"
    using assms by (simp add: f_div_def Let_def)
  have n: "nat (int (f_mag x) * 2 ^ 149) = f_mag x * 2 ^ 149"
    by (simp add: nat_mult_distrib nat_power_eq)
  show "f_ord (f_div x y) = rnd (f_ord x * 2 ^ 149) (f_mag y)"
  proof (cases "f_sign x \<and> f_mag x \<noteq> 0")
    case True
    then show ?thesis using n by (simp add: e rnd_def f_ord_def mult_less_0_iff)
  next
    case False
    then show ?thesis using n y(4) by (auto simp: e rnd_def f_ord_def mult_less_0_iff)
  qed
  show "\<not> f_nan (f_div x y)" by (simp add: e)
qed

lemma rnd_abs_le:
  assumes d: "0 < d" and v: "q < 2 ^ 24" "q * 2 ^ j < 2 ^ 277" "v = int (q * 2 ^ j)" and s: "\<bar>s\<bar> \<le> v * int d"
  shows "\<bar>rnd s d\<bar> \<le> v"
proof -
  have "rnd (v * int d) d = v" "rnd (- v * int d) d = - v"
    using v by (auto intro!: rnd_exact [OF d v(1,2)])
  moreover have "rnd s d \<le> rnd (v * int d) d" "rnd (- v * int d) d \<le> rnd s d"
    using s by (auto intro!: rnd_mono [OF d])
  ultimately show ?thesis by linarith
qed

lemma f_inf_bound: "\<not> f_nan x \<Longrightarrow> \<bar>f_ord x\<bar> \<le> 2 ^ 276 \<Longrightarrow> \<not> f_inf x"
proof -
  assume "\<not> f_nan x" "\<bar>f_ord x\<bar> \<le> 2 ^ 276"
  moreover have "(2 :: int) ^ 276 < 2 ^ 277" by simp
  ultimately show ?thesis using f_mag_finite [of x] by (simp add: f_ord_abs)
qed

lemma agg_mean_bound:
  assumes us: "\<forall>u \<in> set us. update_ok n u" "length us \<le> 64" "us \<noteq> []" and i: "i < unat n"
  shows "\<not> f_nan (agg_mean us i)" and "\<bar>f_ord (agg_mean us i)\<bar> \<le> 2 ^ 165"
proof -
  let ?s = "coord_sum us i" and ?m = "f_of_int (int (length us))"
  have g: "grid (131072 * int (length us)) ?s" by (rule coord_sum_grid [OF us(1,2) i])
  have "\<bar>int (length us)\<bar> < 2 ^ 24" using us(2) by simp
  note m = f_of_int_exact [OF this]
  have "0 < f_ord ?m" using us(3) by (simp add: m(1))
  then have ms: "\<not> f_sign ?m" "f_mag ?m \<noteq> 0" by (auto simp: f_ord_def split: if_splits)
  have mm: "f_mag ?m = length us * 2 ^ 149"
  proof -
    have "int (f_mag ?m) = int (length us) * 2 ^ 149" using m(1) ms(1) by (simp add: f_ord_def)
    then have "int (f_mag ?m) = int (length us * 2 ^ 149)" by simp
    then show ?thesis by (simp only: of_nat_eq_iff)
  qed
  note d = f_ord_div [OF gridD(1,2) [OF g] m(2,3) ms]
  show "\<not> f_nan (agg_mean us i)" unfolding agg_mean_def by (rule d(2))
  have l: "1 \<le> int (length us)" using us(3) by (cases us) simp_all
  have "\<bar>f_ord ?s\<bar> * 2 ^ 149 \<le> 131072 * int (length us) * 2 ^ 142 * 2 ^ 149"
    using gridD(3) [OF g] by (intro mult_right_mono) simp_all
  also have "\<dots> \<le> 2 ^ 165 * int (f_mag ?m)"
    using l by (simp add: mm)
  finally have "\<bar>f_ord ?s * 2 ^ 149\<bar> \<le> 2 ^ 165 * int (f_mag ?m)" by (simp add: abs_mult)
  moreover have "(1 :: nat) * 2 ^ 165 < 2 ^ 277" by simp
  ultimately have "\<bar>rnd (f_ord ?s * 2 ^ 149) (f_mag ?m)\<bar> \<le> 2 ^ 165"
    using ms(2) by (intro rnd_abs_le [of _ 1 165]) simp_all
  then show "\<bar>f_ord (agg_mean us i)\<bar> \<le> 2 ^ 165" unfolding agg_mean_def by (simp only: d(1))
qed

lemma median_not_nan:
  assumes qs: "qsort_spec qs" and xs: "\<forall>x \<in> set xs. grid 131072 x" "xs \<noteq> []"
  shows "\<not> f_nan (agg_median qs xs)"
proof -
  have c: "comparator_on cmp_float (set xs)" by (rule cmp_float_comparator) (use xs in \<open>auto dest: gridD\<close>)
  have len: "length (qs cmp_float xs) = length xs" by (rule qsort_spec.length_qs [OF qs c])
  have el: "grid 131072 (qs cmp_float xs ! k)" if "k < length xs" for k
    using that xs(1) nth_mem [of k "qs cmp_float xs"] by (simp add: len qsort_spec.set_qs [OF qs c])
  have n: "length xs div 2 < length xs" "length xs div 2 - 1 < length xs" using xs(2) by (simp_all add: less_imp_diff_less)
  have "\<not> f_nan ((a + b) * f_half)" if "grid 131072 a" "grid 131072 b" for a b
  proof -
    note g = grid_add [OF that]
    show ?thesis using gridD(1,2) [OF g] f_half by (simp add: times_f32_def f_mul_def Let_def)
  qed
  then show ?thesis using el [OF n(1)] el [OF n(2)] by (auto simp: agg_median_def Let_def dest: gridD)
qed

text \<open>The reference model of FedProx may hold any float of less than half the largest one.\<close>

definition ref_ok :: "u16 \<Rightarrow> f32 list \<Rightarrow> bool" where
  "ref_ok n g \<longleftrightarrow> (\<forall>i < unat n. \<not> f_nan (g ! i) \<and> \<bar>f_ord (g ! i)\<bar> \<le> 2 ^ 275)"

lemma fedprox_diff:
  assumes a: "\<not> f_nan a" "\<bar>f_ord a\<bar> \<le> 2 ^ 165" and g: "\<not> f_nan g" "\<bar>f_ord g\<bar> \<le> 2 ^ 275"
  shows "\<not> f_nan (a - g)" "\<not> f_inf (a - g)" "\<not> f_inf a"
proof -
  have le: "(2 :: int) ^ 165 \<le> 2 ^ 276" "(2 :: int) ^ 275 \<le> 2 ^ 276" by simp_all
  have fin: "\<not> f_inf a" "\<not> f_inf g"
    by (rule f_inf_bound [OF a(1) order_trans [OF a(2) le(1)]], rule f_inf_bound [OF g(1) order_trans [OF g(2) le(2)]])
  have m: "x - y = x + (- y)" for x y :: f32 by (simp add: minus_f32_def plus_f32_def uminus_f32_def f_sub_def)
  have "\<bar>f_ord a + f_ord (- g)\<bar> \<le> 2 ^ 276"
  proof -
    have "\<bar>f_ord a\<bar> + \<bar>f_ord g\<bar> \<le> 2 ^ 165 + 2 ^ 275" using a(2) g(2) by (rule add_mono)
    also have "\<dots> \<le> (2 :: int) ^ 276" by simp
    finally have "\<bar>f_ord a\<bar> + \<bar>f_ord g\<bar> \<le> 2 ^ 276" .
    then show ?thesis by (simp only: f_neg_simps)
  qed
  moreover have "(1 :: nat) * 2 ^ 276 < 2 ^ 277" by simp
  ultimately have r: "\<bar>rnd (f_ord a + f_ord (- g)) 1\<bar> \<le> 2 ^ 276" by (intro rnd_abs_le [of _ 1 276]) simp_all
  have s: "f_ord (a + - g) = rnd (f_ord a + f_ord (- g)) 1" "\<not> f_nan (a + - g)"
    by (rule f_ord_add; use a(1) g(1) fin in simp)+
  show "\<not> f_nan (a - g)" "\<not> f_inf (a - g)" "\<not> f_inf a"
    unfolding m by (rule s(2), rule f_inf_bound [OF s(2)]) (simp only: s(1) r, rule fin)
qed

lemma fedprox_not_nan:
  assumes a: "\<not> f_nan a" "\<bar>f_ord a\<bar> \<le> 2 ^ 165" and g: "\<not> f_nan g" "\<bar>f_ord g\<bar> \<le> 2 ^ 275"
  shows "\<not> f_nan (a - 0 * (a - g))"
proof -
  note y = fedprox_diff [OF assms]
  have m: "x - y = x + (- y)" for x y :: f32 by (simp add: minus_f32_def plus_f32_def uminus_f32_def f_sub_def)
  obtain t where t: "0 * (a - g) = f_mk t 0" using y by (auto simp: times_f32_def f_mul_def Let_def)
  have "\<not> f_nan (f_mk t 0)" "\<not> f_inf (f_mk t 0)" by (simp_all add: f_inf_def inf_code_def)
  then show ?thesis unfolding t m [of a "f_mk t 0"] using f_ord_add(2) [of a "- f_mk t 0"] a(1) y(3) by simp
qed

lemma fedprox_is_fedavg:
  assumes I: "agg_inv FL_AGG_FEDPROX n us a" and us: "us \<noteq> []" "\<forall>u \<in> set us. update_ok n u"
    and d: "unat n \<le> length d" and mu: "ag_fedprox_mu a = 0" "ref_ok n (ag_global_model a)"
  shows "\<exists>r r'. fl_agg_finalize qs a d = Some r \<and> fl_agg_finalize qs (a\<lparr>ag_type := FL_AGG_FEDAVG\<rparr>) d = Some r'
    \<and> length r = length d \<and> length r' = length d \<and> (\<forall>i < unat n. f_ord (r ! i) = f_ord (r' ! i))"
proof -
  have l: "length us \<le> 64" using I by (simp add: agg_inv_def)
  have I': "agg_inv FL_AGG_FEDAVG n us (a\<lparr>ag_type := FL_AGG_FEDAVG\<rparr>)" using I by (auto simp: agg_inv_def wf_agg_def)
  note mean = agg_mean_bound [OF us(2) l us(1)]
  have "f_ord (agg_mean us i - 0 * (agg_mean us i - ag_global_model a ! i)) = f_ord (agg_mean us i)" if "i < unat n" for i
    using mean [OF that] mu(2) that by (intro f_sub_zero_mult fedprox_diff) (auto simp: ref_ok_def)
  then show ?thesis
    using finalize_fedprox_eq [OF I us(1) d, of qs] finalize_fedavg_eq [OF I' us(1) d, of qs] d mu(1) by simp
qed

lemma finalize_ok:
  assumes qs: "qsort_spec qs" and I: "agg_inv type n us a" and us: "us \<noteq> []" "\<forall>u \<in> set us. update_ok n u"
    and d: "unat n \<le> length d" and mu: "ag_fedprox_mu a = 0" "ref_ok n (ag_global_model a)"
  shows "\<exists>r. fl_agg_finalize qs a d = Some r \<and> length r = length d \<and> (\<forall>i < unat n. \<not> f_nan (r ! i))"
proof -
  have l: "length us \<le> 64" using I by (simp add: agg_inv_def)
  note mean = agg_mean_bound [OF us(2) l us(1)]
  show ?thesis
  proof (cases type)
    case FL_AGG_FEDAVG
    then show ?thesis using finalize_fedavg_eq [OF _ us(1) d] I mean d by simp
  next
    case FL_AGG_FEDPROX
    have "\<not> f_nan (agg_mean us i - 0 * (agg_mean us i - ag_global_model a ! i))" if "i < unat n" for i
      using mean [OF that] mu(2) that by (intro fedprox_not_nan) (simp_all add: ref_ok_def)
    then show ?thesis using finalize_fedprox_eq [OF _ us(1) d] I FL_AGG_FEDPROX d mu(1) by simp
  next
    case FL_AGG_MEDIAN
    have "\<forall>u \<in> set us. \<forall>i < unat n. \<not> f_nan (u ! i)" using us(2) by (auto simp: update_ok_def dest: gridD)
    moreover have "\<not> f_nan (agg_median qs (map (\<lambda>u. u ! i) us))" if "i < unat n" for i
      using us that by (intro median_not_nan [OF qs]) (auto simp: update_ok_def)
    ultimately show ?thesis using finalize_median_eq [OF qs _ us(1) _ d] I FL_AGG_MEDIAN d by simp
  qed
qed

lemma agg_reset_inv:
  assumes "agg_inv type n us a"
  shows "\<exists>b. fl_agg_reset a = Some b \<and> agg_inv type n [] b \<and> ag_fedprox_mu b = ag_fedprox_mu a
    \<and> ag_global_model b = ag_global_model a"
  using assms by (auto simp: fl_agg_reset_def agg_inv_def wf_agg_def agg_column_def coord_sum_def nth_append)

end
