(* ===== verification/Herald_Safe.thy ===== *)
theory Herald_Safe
  imports Herald Aggregate_Values Train_Safe
begin

text \<open>
  The Herald against arbitrary input: an invariant of its whole state that every pass of the event
  loop keeps, for any bytes the gateway delivers, and the return of the loop once it is stopped.
\<close>

section \<open>The frames the Herald sends\<close>

lemma herald_frames [simp]:
  "fl_frame_encode (Some f) t sid rid fi ft (Some (beacon_bytes b)) 17 = Some (FL_OK, Some (encoded_frame t sid rid fi ft (beacon_bytes b)))"
  "fl_frame_encode (Some f) t sid rid fi ft (Some (round_close_bytes r)) 6 = Some (FL_OK, Some (encoded_frame t sid rid fi ft (round_close_bytes r)))"
  by (subst fl_frame_encode_eq; simp add: beacon_bytes_def round_close_bytes_def le16_def le32_def)+

lemma length_payload_bytes [simp]: "length (beacon_bytes b) = 17" "length (round_close_bytes r) = 6"
  by (simp_all add: beacon_bytes_def round_close_bytes_def)

lemma length_encoded_bytes [simp]:
  "length data \<le> 214 \<Longrightarrow> length (frame_bytes (encoded_frame t sid rid fi ft data)) = 224"
  by (simp add: frame_bytes_def frame_head_def)

section \<open>The invariant\<close>

text \<open>\<open>us\<close> is the list of updates of the current round, as decoded: what the aggregator stands for.\<close>

definition herald_inv :: "('w \<Rightarrow> bool) \<Rightarrow> int \<Rightarrow> u16 \<Rightarrow> f32 list list \<Rightarrow> 'w herald_sys \<Rightarrow> bool" where
  "herald_inv ok fd n us y \<longleftrightarrow> (let h = hs_herald y; c = he_config h in
     wf_pool (he_frag_pool h) \<and> agg_inv (hc_aggregator c) n us (he_aggregator h) \<and> (\<forall>u \<in> set us. update_ok n u)
     \<and> ag_fedprox_mu (he_aggregator h) = 0 \<and> ref_ok n (ag_global_model (he_aggregator h))
     \<and> hc_model_param_count c = n \<and> unat n \<le> length (hc_global_model c) \<and> he_serial_fd h = fd
     \<and> length (hs_rx_buf y) = FL_FRAME_MAX_SIZE \<and> length (hs_dense_update y) = FL_MODEL_MAX_PARAMS
     \<and> length (hs_agg_delta y) = FL_MODEL_MAX_PARAMS \<and> ok (hs_world y)
     \<and> (\<forall>cb s r w. hc_on_shard_update c = Some cb \<longrightarrow> ok w \<longrightarrow> ok (cb s r w))
     \<and> (\<forall>cb r k w. hc_on_round_complete c = Some cb \<longrightarrow> ok w \<longrightarrow> ok (cb r k w)))"

definition wf_herald_locals :: "herald_locals \<Rightarrow> bool" where
  "wf_herald_locals junk \<longleftrightarrow> wf_frame (hj_frame junk) \<and> length (hj_payload junk) = FL_PAYLOAD_MAX
     \<and> length (hj_wire junk) = FL_FRAME_MAX_SIZE"

lemma get_complete_wf: "wf_pool p \<Longrightarrow> fl_pool_get_complete p sid = Some b \<Longrightarrow> wf_sparse b"
  using first_slot_Some wf_pool_slot by (fastforce simp: fl_pool_get_complete_def wf_slot_def)

lemma agg_add_inv:
  assumes "agg_inv type n us a" "update_ok n u"
  shows "\<exists>a'. fl_agg_add a u n sz = Some a' \<and> agg_inv type n (counted (us @ [u])) a'
    \<and> ag_fedprox_mu a' = ag_fedprox_mu a \<and> ag_global_model a' = ag_global_model a"
proof (cases "length us < 64")
  case True
  then show ?thesis using agg_add_step [OF assms(1), of u sz] assms(2) by (auto simp: update_ok_def)
next
  case False
  then have "length us = 64" "unat (ag_shard_count a) = 64" using assms(1) by (simp_all add: agg_inv_def)
  then show ?thesis using assms(1) by (auto simp: fl_agg_add_def Let_def word_le_nat_alt)
qed

lemma finalize_any:
  assumes qs: "qsort_spec qs" and I: "agg_inv type n us a" and us: "\<forall>u \<in> set us. update_ok n u"
    and d: "unat n \<le> length d" and mu: "ag_fedprox_mu a = 0" "ref_ok n (ag_global_model a)"
  shows "\<exists>r. fl_agg_finalize qs a d = Some r \<and> length r = length d \<and> (\<forall>i < unat n. \<not> f_nan (r ! i))"
proof (cases us)
  case Nil
  then have "ag_shard_count a = 0" "ag_param_count a = n" using I by (simp_all add: agg_inv_def unat_eq_zero)
  then show ?thesis using d by (simp add: fl_agg_finalize_def nth_append)
qed (use finalize_ok [OF qs I _ us d mu] in simp)

fun herald_iters ::
  "'w posix \<Rightarrow> ((f32 \<Rightarrow> f32 \<Rightarrow> int) \<Rightarrow> f32 list \<Rightarrow> f32 list) \<Rightarrow> herald_locals \<Rightarrow> nat \<Rightarrow> 'w herald_sys
    \<Rightarrow> 'w herald_sys option" where
  "herald_iters px qs junk 0 y = Some y"
| "herald_iters px qs junk (Suc n) y = do { y \<leftarrow> herald_iter px qs junk y; herald_iters px qs junk n y }"

section \<open>The gateway\<close>

text \<open>The known defect of reassembly is kept apart: an update whose fragment index lies outside the
  bitmap is not handled safely.\<close>

definition frag_in_range :: "bytes \<Rightarrow> bool" where
  "frag_in_range bs \<longleftrightarrow> (10 \<le> length bs \<and> bs ! 2 = type_code FL_FRAME_UPDATE \<longrightarrow> unat (bs ! 6) < 8 * FL_FRAG_BITMAP_SIZE)"

locale gateway =
  fixes px :: "'w posix" and ok :: "'w \<Rightarrow> bool" and fd :: int
  assumes px_write_ok: "ok w \<Longrightarrow> ok (snd (px_write px fd bs w))"
    and px_read_ok: "ok w \<Longrightarrow> ok (snd (px_read px fd FL_FRAME_MAX_SIZE w))"
    and px_read_bytes: "ok w \<Longrightarrow> fst (px_read px fd FL_FRAME_MAX_SIZE w) = Read_Bytes bs
      \<Longrightarrow> length bs \<le> FL_FRAME_MAX_SIZE \<and> frag_in_range bs"
    and px_time_ok: "ok w \<Longrightarrow> ok (snd (px_time px w))"
    and px_sleep_ok: "ok w \<Longrightarrow> ok (px_sleep px s w)"
    and px_nanosleep_ok: "ok w \<Longrightarrow> ok (px_nanosleep px ns w)"
    and px_stderr_ok: "ok w \<Longrightarrow> ok (px_stderr px fmt args w)"
begin

lemma log_ok [simp]: "ok w \<Longrightarrow> ok (herald_log px h l fmt args w)"
  by (simp add: herald_log_def px_stderr_ok)

lemma serial_write_ok:
  "ok w \<Longrightarrow> len \<le> length buf \<Longrightarrow> \<exists>r w'. serial_write px fd buf len w = Some (r, w') \<and> ok w'"
  using px_write_ok [of w "take len buf"] by (simp add: serial_write_def split_beta)

lemma serial_read_ok:
  assumes "ok w" "length buf = 224"
  shows "\<exists>r buf' n w'. serial_read px fd buf 224 0 w = Some (r, buf', n, w') \<and> length buf' = 224 \<and> n \<le> 224
    \<and> ok w' \<and> frag_in_range (take n buf')"
proof -
  obtain r w' where r: "px_read px fd 224 w = (r, w')" by (cases "px_read px fd 224 w")
  have w': "ok w'" using px_read_ok [OF assms(1)] r by simp
  show ?thesis
  proof (cases r)
    case (Read_Bytes bs)
    then have "length bs \<le> 224" "frag_in_range bs" using px_read_bytes [OF assms(1), of bs] r by simp_all
    then show ?thesis using assms(2) w' r Read_Bytes by (simp add: serial_read_def)
  qed (use assms w' r in \<open>auto simp: serial_read_def frag_in_range_def\<close>)
qed

lemma send_beacon_ok:
  assumes "ok w" "he_serial_fd h = fd" "length (hj_wire junk) = FL_FRAME_MAX_SIZE"
  shows "\<exists>e w'. fl_herald_send_beacon px junk h r w = Some (e, w') \<and> ok w'"
proof -
  let ?b = "frame_bytes (encoded_frame FL_FRAME_BEACON FL_SHARD_ID_HERALD r 0 1 (beacon_bytes (herald_beacon h r)))"
  have "27 \<le> length (take 27 ?b @ drop 27 (hj_wire junk))" by simp
  from serial_write_ok [OF log_ok [OF assms(1)] this, of h 2 "''Sending BEACON round=%d''" "[Log_Int (uint r)]"]
  show ?thesis using assms(2,3) by (auto simp: fl_herald_send_beacon_def Let_def)
qed

lemma send_delta_ok:
  assumes w: "ok w" and h: "he_serial_fd h = fd" and junk: "length (hj_payload junk) = FL_PAYLOAD_MAX"
    and d: "unat (hc_model_param_count (he_config h)) \<le> FL_MODEL_MAX_PARAMS"
      "unat (hc_model_param_count (he_config h)) \<le> length d"
      "\<forall>i < unat (hc_model_param_count (he_config h)). \<not> f_nan (d ! i)"
  shows "\<exists>e w'. fl_herald_send_delta px junk h d k w = Some (e, w') \<and> ok w'"
proof -
  obtain ks buf where buf: "fl_sparse_encode d (hc_model_param_count (he_config h)) k None sparse_blank
      = Some (of_nat (length (ks :: nat list)), None, buf)" "wf_sparse buf"
    using fl_sparse_encode_spec [of "hc_model_param_count (he_config h)" d None sparse_blank k] d
    by (auto simp: eff_at_def min_def)
  have c: "unat (fl_sparse_fragment_count buf) = frag_total buf" by (rule fl_sparse_fragment_count_eq [OF buf(2)])
  have t: "frag_total buf \<le> 15" by (rule frag_total_bound [OF buf(2)])
  have "\<exists>s. for_lt (frag_total buf) (\<lambda>f. send_delta_frag px junk h buf (fl_sparse_fragment_count buf) (of_nat f)) (0, w)
    = Some s \<and> ok (snd s)"
  proof (rule for_lt_keeps)
    fix j and s :: "int \<times> 'w" assume j: "j < frag_total buf" and s: "ok (snd s)"
    have u: "unat (of_nat j :: u8) = j" by (rule unat_of_nat_u8) (use j t in simp)
    let ?d = "concat (map entry_bytes (frag_entries buf j))"
    obtain rest where wf: "fl_sparse_write_fragment (hj_payload junk) 0 buf (of_nat j)
      = Some (0, ?d @ rest, of_nat (3 * length (frag_entries buf j)))" "length (frag_entries buf j) \<le> 71"
      using fl_sparse_write_fragment_eq [OF buf(2), of "of_nat j" "hj_payload junk" 0] j junk by (auto simp: u)
    have l: "length ?d = 3 * length (frag_entries buf j)"
      by (simp add: length_concat comp_def entry_bytes_def sum_list_triv)
    have n: "unat (of_nat (3 * length (frag_entries buf j)) :: u8) = length ?d"
      unfolding l by (rule unat_of_nat_u8) (use wf(2) in linarith)
    have le: "length ?d \<le> 214" using l wf(2) by linarith
    have "fl_frame_encode (Some (hj_frame junk)) FL_FRAME_DELTA FL_SHARD_ID_HERALD (he_current_round h) (of_nat j)
        (fl_sparse_fragment_count buf) (Some (?d @ rest)) (of_nat (3 * length (frag_entries buf j)))
      = Some (FL_OK, Some (encoded_frame FL_FRAME_DELTA FL_SHARD_ID_HERALD (he_current_round h) (of_nat j)
        (fl_sparse_fragment_count buf) ?d))"
      by (subst fl_frame_encode_eq; simp only: n) (use le in simp_all)
    moreover obtain r w' where "serial_write px fd (frame_bytes (encoded_frame FL_FRAME_DELTA FL_SHARD_ID_HERALD
        (he_current_round h) (of_nat j) (fl_sparse_fragment_count buf) ?d)) (10 + length ?d) (snd s) = Some (r, w')" "ok w'"
      using serial_write_ok [OF s, of "10 + length ?d" "frame_bytes (encoded_frame FL_FRAME_DELTA FL_SHARD_ID_HERALD
        (he_current_round h) (of_nat j) (fl_sparse_fragment_count buf) ?d)"] le length_encoded_bytes [OF le] by auto
    ultimately show "\<exists>s'. send_delta_frag px junk h buf (fl_sparse_fragment_count buf) (of_nat j) s = Some s' \<and> ok (snd s')"
      using wf(1) n h px_nanosleep_ok by (simp add: send_delta_frag_def split_beta del: length_concat)
  qed (use w in simp)
  then show ?thesis using buf(1) c by (auto simp: fl_herald_send_delta_def)
qed

lemma complete_ok:
  assumes I: "herald_inv ok fd n us y"
  shows "\<exists>y' us'. herald_complete px junk sid y = Some y' \<and> herald_inv ok fd n us' y'
    \<and> (\<exists>vs. us' = counted (us @ vs))"
proof -
  let ?h = "hs_herald y" let ?p = "he_frag_pool ?h"
  note inv = I [unfolded herald_inv_def Let_def]
  let ?w = "herald_log px ?h 3 ''Shard %04X update complete'' [Log_Int (uint sid)] (hs_world y)"
  have "ok ?w" using inv by simp
  then obtain r w where w: "serial_write px fd (frame_bytes (encoded_frame FL_FRAME_ACK FL_SHARD_ID_HERALD
      (he_current_round ?h) 0 1 [])) 10 ?w = Some (r, w)" "ok w"
    using serial_write_ok [of ?w 10 "frame_bytes (encoded_frame FL_FRAME_ACK FL_SHARD_ID_HERALD (he_current_round ?h) 0 1 [])"]
    by auto
  have c: "counted us = us" using inv by (simp add: agg_inv_def)
  show ?thesis
  proof (cases "fl_pool_get_complete ?p sid")
    case None
    then show ?thesis using inv w c
      by (intro exI [of _ us] exI conjI [OF _ conjI [OF _ exI [of _ "[]"]]])
        (auto simp: herald_complete_def Let_def fl_frame_encode_empty herald_inv_def split: option.split)
  next
    case (Some b)
    have wf: "wf_sparse b" using get_complete_wf [OF _ Some] inv by simp
    have "unat n \<le> length (hs_dense_update y)" using inv by (auto simp: agg_inv_def wf_agg_def)
    from sparse_decode_ok [OF wf this] obtain u where
      u: "fl_sparse_decode b (hs_dense_update y) n False = Some u" "length u = 4096" "update_ok n u"
      using inv by auto
    obtain a where a: "fl_agg_add (he_aggregator ?h) u n 100 = Some a"
      "agg_inv (hc_aggregator (he_config ?h)) n (counted (us @ [u])) a"
      "ag_fedprox_mu a = 0" "ag_global_model a = ag_global_model (he_aggregator ?h)"
      using agg_add_inv [OF _ u(3)] inv by metis
    have "\<forall>v \<in> set (counted (us @ [u])). update_ok n v" using inv u(3) by (auto dest!: in_set_takeD)
    then show ?thesis using inv w u a Some wf_pool_release [of ?p sid]
      by (intro exI [of _ "counted (us @ [u])"] exI conjI [OF _ conjI [OF _ exI [of _ "[u]"]]])
        (auto simp: herald_complete_def Let_def fl_frame_encode_empty herald_inv_def split: option.split)
  qed
qed

lemma rx_ok:
  assumes I: "herald_inv ok fd n us y" and junk: "wf_herald_locals junk"
  shows "\<exists>y' us'. herald_rx px junk y = Some y' \<and> herald_inv ok fd n us' y' \<and> (\<exists>vs. us' = counted (us @ vs))"
proof -
  note inv = I [unfolded herald_inv_def Let_def]
  have c: "us = counted (us @ [])" using inv by (simp add: agg_inv_def)
  obtain r buf k w where rd: "serial_read px fd (hs_rx_buf y) 224 0 (hs_world y) = Some (r, buf, k, w)"
    "length buf = 224" "k \<le> 224" "ok w" "frag_in_range (take k buf)"
    using serial_read_ok [of "hs_world y" "hs_rx_buf y"] inv by auto
  let ?y = "y\<lparr>hs_rx_buf := buf, hs_world := w\<rparr>"
  have I': "herald_inv ok fd n us ?y" using inv rd by (simp add: herald_inv_def)
  obtain g where g: "fl_frame_decode (Some buf) k (Some (hj_frame junk)) = Some (wire_status (take k buf), Some g)"
    "wf_frame g" "10 \<le> k \<longrightarrow> take k (frame_bytes g) = take k buf"
    using decode_status [OF rd(3), of buf "hj_frame junk"] rd(2,3) junk by (auto simp: wf_herald_locals_def)
  have rx: "herald_rx px junk y = (if (r = 0 \<and> 0 < k) \<and> wire_status (take k buf) = FL_OK \<and> fr_type g = type_code FL_FRAME_UPDATE
      then herald_update px junk g (of_nat (k - 10)) ?y else Some ?y)"
    using rd(1) inv g(1) by (simp add: herald_rx_def Let_def)
  show ?thesis
  proof (cases "(r = 0 \<and> 0 < k) \<and> wire_status (take k buf) = FL_OK \<and> fr_type g = type_code FL_FRAME_UPDATE")
    case False
    show ?thesis unfolding rx if_not_P [OF False] using I' c by blast
  next
    case True
    then have k10: "10 \<le> k" using rd(2,3) by (simp add: wire_status_OK)
    have nth: "take k buf ! i = frame_bytes g ! i" if "i < 10" for i
      using that k10 g(3) by (metis less_le_trans nth_take)
    have "take k buf ! 2 = fr_type g" "take k buf ! 6 = fr_frag_index g"
      using nth [of 2] nth [of 6] by (simp_all add: frame_bytes_def frame_head_def le16_def)
    then have idx: "unat (fr_frag_index g) < 40" using rd(2,3,5) k10 True by (simp add: frag_in_range_def)
    have "unat (of_nat (k - 10) :: u8) = k - 10" by (rule unat_of_nat_u8) (use rd(3) in simp)
    then have len: "unat (of_nat (k - 10) :: u8) \<le> length (fr_payload g)" using g(2) rd(3) by (simp add: wf_frame_def)
    obtain now w2 where t: "px_time px w = (now, w2)" by (cases "px_time px w")
    obtain cpl p where p: "fl_pool_ingest now (he_frag_pool (hs_herald y)) g (of_nat (k - 10)) = Some (cpl, p)" "wf_pool p"
      using pool_ingest_total [OF _ idx len, of "he_frag_pool (hs_herald y)" now] inv by auto
    let ?z = "?y\<lparr>hs_herald := (hs_herald y)\<lparr>he_frag_pool := p\<rparr>, hs_world := w2\<rparr>"
    have Iz: "herald_inv ok fd n us ?z" using inv rd p px_time_ok [OF rd(4)] t by (simp add: herald_inv_def)
    have "herald_update px junk g (of_nat (k - 10)) ?y
      = (if cpl = 1 then herald_complete px junk (fr_shard_id g) ?z else Some ?z)"
      using t p(1) by (simp add: herald_update_def)
    then have "herald_rx px junk y = (if cpl = 1 then herald_complete px junk (fr_shard_id g) ?z else Some ?z)"
      unfolding rx if_P [OF True] .
    then show ?thesis using complete_ok [OF Iz] Iz c by (cases "cpl = 1") auto
  qed
qed

lemma aggregate_ok:
  assumes I: "herald_inv ok fd n us y" and junk: "wf_herald_locals junk" and qs: "qsort_spec qs"
  shows "\<exists>y'. herald_aggregate px qs junk y = Some y' \<and> herald_inv ok fd n us y'"
proof -
  let ?h = "hs_herald y" let ?gm = "hc_global_model (he_config ?h)"
  note inv = I [unfolded herald_inv_def Let_def]
  have n: "unat n \<le> 4096" using inv by (auto simp: agg_inv_def wf_agg_def)
  obtain d where d: "fl_agg_finalize qs (he_aggregator ?h) (hs_agg_delta y) = Some d" "length d = 4096"
    "\<forall>i < unat n. \<not> f_nan (d ! i)"
    using finalize_any [OF qs, of "hc_aggregator (he_config ?h)" n us "he_aggregator ?h" "hs_agg_delta y"] inv n by auto
  let ?g = "map_prefix (unat n) (\<lambda>i g. g + d ! i) ?gm"
  have g: "for_lt (unat n) (\<lambda>i gm. do { g \<leftarrow> rd gm i; x \<leftarrow> rd d i; wr gm i (g + x) }) ?gm = Some ?g"
    by (rule for_lt_map) (use inv n d in auto)
  let ?h' = "?h\<lparr>he_config := (he_config ?h)\<lparr>hc_global_model := ?g\<rparr>\<rparr>"
  let ?k = "if n div 10 \<noteq> 0 then n div 10 else 1"
  obtain e w where "fl_herald_send_delta px junk ?h' d ?k (hs_world y) = Some (e, w)" "ok w"
    using send_delta_ok [of "hs_world y" ?h' junk d ?k] inv junk n d by (auto simp: wf_herald_locals_def)
  then show ?thesis using inv d g
    by (cases "n div 10 = 0") (simp_all add: herald_aggregate_def Let_def herald_inv_def)
qed

lemma next_round_ok:
  assumes I: "herald_inv ok fd n us y" and junk: "wf_herald_locals junk"
  shows "\<exists>y'. herald_next_round px junk y = Some y' \<and> herald_inv ok fd n us y'"
proof -
  let ?h = "hs_herald y"
  note inv = I [unfolded herald_inv_def Let_def]
  let ?w = "px_sleep px (rp_inter_round_delay_s (hc_round_policy (he_config ?h))) (hs_world y)"
  obtain now w where t: "px_time px ?w = (now, w)" by (cases "px_time px ?w")
  have w: "ok w" using inv px_time_ok [OF px_sleep_ok, of "hs_world y"] t by (metis snd_conv)
  obtain r s where o: "fl_round_open now (he_scheduler ?h) = (r, s)" by (cases "fl_round_open now (he_scheduler ?h)")
  let ?h' = "?h\<lparr>he_scheduler := s, he_current_round := r\<rparr>"
  obtain e w' where "fl_herald_send_beacon px junk ?h' r w = Some (e, w')" "ok w'"
    using send_beacon_ok [OF w, of ?h' junk r] inv junk by (auto simp: wf_herald_locals_def)
  then show ?thesis using inv t o by (simp add: herald_next_round_def Let_def herald_inv_def)
qed

lemma close_ok:
  assumes I: "herald_inv ok fd n us y" and junk: "wf_herald_locals junk" and qs: "qsort_spec qs"
  shows "\<exists>y'. herald_close px qs junk y = Some y' \<and> herald_inv ok fd n [] y'"
proof -
  let ?h = "hs_herald y"
  note inv = I [unfolded herald_inv_def Let_def]
  let ?w = "herald_log px ?h 2 ''Round %d closing. Shards: %d''
            [Log_Int (uint (rs_round_id (he_scheduler ?h))), Log_Int (uint (rs_shards_complete (he_scheduler ?h)))] (hs_world y)"
  let ?y = "y\<lparr>hs_herald := ?h\<lparr>he_scheduler := fl_round_close (he_scheduler ?h)\<rparr>, hs_world := ?w\<rparr>"
  have I1: "herald_inv ok fd n us ?y" using inv by (simp add: herald_inv_def)
  have "\<exists>y2. (if b then herald_aggregate px qs junk ?y else Some ?y) = Some y2 \<and> herald_inv ok fd n us y2" for b
    using aggregate_ok [OF I1 junk qs] I1 by (cases b) simp_all
  then obtain y2 where y2: "(if 0 < rs_shards_complete (he_scheduler (hs_herald ?y)) then herald_aggregate px qs junk ?y else Some ?y) = Some y2"
    "herald_inv ok fd n us y2" by blast
  let ?h2 = "hs_herald y2"
  note inv2 = y2(2) [unfolded herald_inv_def Let_def]
  let ?rcp = "\<lparr>rcp_round_id = hs_round_id y2, rcp_shards_aggregated = rs_shards_complete (he_scheduler ?h2),
              rcp_next_round_in_sec = rp_inter_round_delay_s (hc_round_policy (he_config ?h2))\<rparr>"
  let ?f = "encoded_frame FL_FRAME_ROUND_CLOSE FL_SHARD_ID_HERALD (hs_round_id y2) 0 1 (round_close_bytes ?rcp)"
  have "16 \<le> length (frame_bytes ?f)" by (subst length_encoded_bytes) simp_all
  moreover have "ok (hs_world y2)" using inv2 by simp
  ultimately obtain r w where
    w: "serial_write px fd (frame_bytes ?f) 16 (hs_world y2) = Some (r, w)" "ok w" using serial_write_ok by blast
  let ?w2 = "case hc_on_round_complete (he_config ?h2) of None \<Rightarrow> w | Some cb \<Rightarrow> cb (hs_round_id y2) (rs_shards_complete (he_scheduler ?h2)) w"
  have w2: "ok ?w2" using w(2) inv2 by (simp split: option.split)
  obtain a where a: "fl_agg_reset (he_aggregator ?h2) = Some a" "agg_inv (hc_aggregator (he_config ?h2)) n [] a"
    "ag_fedprox_mu a = 0" "ag_global_model a = ag_global_model (he_aggregator ?h2)"
    using agg_reset_inv [of _ n us "he_aggregator ?h2"] inv2 by metis
  have "herald_inv ok fd n [] (y2\<lparr>hs_herald := ?h2\<lparr>he_aggregator := a\<rparr>, hs_world := ?w2\<rparr>)"
    using inv2 a w2 by (simp add: herald_inv_def)
  from next_round_ok [OF this junk] show ?thesis
    using y2(1) w(1) a(1) inv2 by (simp add: herald_close_def Let_def)
qed

lemma rounds_ok:
  assumes I: "herald_inv ok fd n us y" and junk: "wf_herald_locals junk" and qs: "qsort_spec qs"
  shows "\<exists>y' us'. herald_rounds px qs junk y = Some y' \<and> herald_inv ok fd n us' y' \<and> (us' = us \<or> us' = [])"
proof -
  let ?h = "hs_herald y"
  note inv = I [unfolded herald_inv_def Let_def]
  obtain now w where t: "px_time px (hs_world y) = (now, w)" by (cases "px_time px (hs_world y)")
  obtain now2 w2 where t2: "px_time px w = (now2, w2)" by (cases "px_time px w")
  have w2: "ok w2" using px_time_ok [OF px_time_ok, of "hs_world y"] t t2 inv by simp
  let ?y = "y\<lparr>hs_herald := ?h\<lparr>he_frag_pool := snd (fl_pool_expire now (he_frag_pool ?h))\<rparr>, hs_world := w2\<rparr>"
  have "herald_inv ok fd n us ?y" using inv w2 wf_pool_expire by (simp add: herald_inv_def)
  from close_ok [OF this junk qs] this show ?thesis using t t2 by (auto simp: herald_rounds_def Let_def)
qed

lemma iter_ok:
  assumes I: "herald_inv ok fd n us y" and junk: "wf_herald_locals junk" and qs: "qsort_spec qs"
  shows "\<exists>y' us'. herald_iter px qs junk y = Some y' \<and> herald_inv ok fd n us' y'
    \<and> (us' = [] \<or> (\<exists>vs. us' = counted (us @ vs)))"
proof -
  obtain y1 us1 where 1: "herald_rx px junk y = Some y1" "herald_inv ok fd n us1 y1" "\<exists>vs. us1 = counted (us @ vs)"
    using rx_ok [OF I junk] by blast
  obtain y2 us2 where 2: "herald_rounds px qs junk y1 = Some y2" "herald_inv ok fd n us2 y2" "us2 = us1 \<or> us2 = []"
    using rounds_ok [OF 1(2) junk qs] by blast
  have "herald_inv ok fd n us2 (y2\<lparr>hs_world := px_nanosleep px 10000000 (hs_world y2)\<rparr>)"
    using 2(2) px_nanosleep_ok by (simp add: herald_inv_def Let_def)
  then show ?thesis using 1 2 by (auto simp: herald_iter_def)
qed

lemma start_ok:
  assumes I: "herald_inv ok fd n us y" and junk: "wf_herald_locals junk"
  shows "\<exists>y'. herald_start px junk y = Some y' \<and> herald_inv ok fd n us y'"
proof -
  let ?h = "hs_herald y"
  note inv = I [unfolded herald_inv_def Let_def]
  let ?w = "herald_log px ?h 2 ''Event loop started'' [] (hs_world y)"
  obtain now w where t: "px_time px ?w = (now, w)" by (cases "px_time px ?w")
  have w: "ok w" using inv px_time_ok [OF log_ok, of "hs_world y"] t by (metis snd_conv)
  obtain r s where o: "fl_round_open now (he_scheduler ?h) = (r, s)" by (cases "fl_round_open now (he_scheduler ?h)")
  let ?h' = "?h\<lparr>he_scheduler := s\<rparr>"
  obtain e w' where "fl_herald_send_beacon px junk ?h' r w = Some (e, w')" "ok w'"
    using send_beacon_ok [OF w, of ?h' junk r] inv junk by (auto simp: wf_herald_locals_def)
  then show ?thesis using inv t o by (simp add: herald_start_def Let_def herald_inv_def)
qed

lemma loop_ok:
  assumes "herald_inv ok fd n us y" and junk: "wf_herald_locals junk" and qs: "qsort_spec qs"
    and "\<forall>y'. herald_iters px qs junk k y = Some y' \<longrightarrow> sig (hs_world y')"
  shows "\<exists>y' us'. herald_loop px sig qs junk y = Some y' \<and> he_running (hs_herald y') = 0 \<and> herald_inv ok fd n us' y'"
  using assms(1,4)
proof (induction k arbitrary: us y)
  case 0
  then have "herald_inv ok fd n us (y\<lparr>hs_herald := fl_herald_stop (hs_herald y)\<rparr>)"
    by (simp add: herald_inv_def fl_herald_stop_def Let_def)
  then show ?case using 0 by (subst herald_loop.simps) (auto simp: fl_herald_stop_def)
next
  case (Suc k)
  let ?s = "y\<lparr>hs_herald := fl_herald_stop (hs_herald y)\<rparr>"
  have s: "herald_inv ok fd n us ?s" using Suc.prems(1) by (simp add: herald_inv_def fl_herald_stop_def Let_def)
  show ?case
  proof (cases "sig (hs_world y) \<or> he_running (hs_herald y) = 0")
    case True
    then show ?thesis using s Suc.prems(1) by (subst herald_loop.simps) (auto simp: fl_herald_stop_def)
  next
    case False
    obtain y1 us1 where y1: "herald_iter px qs junk y = Some y1" "herald_inv ok fd n us1 y1"
      using iter_ok [OF Suc.prems(1) junk qs] by blast
    have "\<forall>y'. herald_iters px qs junk k y1 = Some y' \<longrightarrow> sig (hs_world y')" using Suc.prems(2) y1(1) by simp
    from Suc.IH [OF y1(2) this] show ?thesis using y1(1) False by (subst herald_loop.simps) simp
  qed
qed

end

section \<open>The start\<close>

lemma herald_init_common_eq:
  assumes "unat (hc_model_param_count c) \<le> length (hc_global_model c)"
  shows "herald_init_common c = None \<longleftrightarrow> FL_MODEL_MAX_PARAMS < unat (hc_model_param_count c)"
    and "herald_init_common c = Some h \<Longrightarrow> agg_inv (hc_aggregator c) (hc_model_param_count c) [] (he_aggregator h)
      \<and> ag_fedprox_mu (he_aggregator h) = 0
      \<and> (\<forall>i < unat (hc_model_param_count c). ag_global_model (he_aggregator h) ! i = hc_global_model c ! i)
      \<and> he_config h = c \<and> he_frag_pool h = fl_pool_init 300 \<and> he_running h = 1
      \<and> he_scheduler h = fl_round_init (hc_round_policy c)"
proof -
  let ?n = "unat (hc_model_param_count c)"
  have none: "fl_agg_init agg_blank (hc_aggregator c) (Some (hc_global_model c)) (hc_model_param_count c) = None"
    if "4096 < ?n" using that by (simp add: fl_agg_init_def agg_blank_def memcpy_at_def)
  have some: "\<exists>a. fl_agg_init agg_blank (hc_aggregator c) (Some (hc_global_model c)) (hc_model_param_count c) = Some a
      \<and> agg_inv (hc_aggregator c) (hc_model_param_count c) [] a \<and> ag_fedprox_mu a = 0
      \<and> (\<forall>i < ?n. ag_global_model a ! i = hc_global_model c ! i)" if "?n \<le> 4096"
    using agg_init_inv [OF wf_agg_blank that, of "Some (hc_global_model c)" "hc_aggregator c"] assms
    by (auto simp: agg_blank_def)
  show "herald_init_common c = None \<longleftrightarrow> FL_MODEL_MAX_PARAMS < ?n"
    using none some by (cases "?n \<le> 4096") (auto simp: herald_init_common_def)
  show "herald_init_common c = Some h \<Longrightarrow> agg_inv (hc_aggregator c) (hc_model_param_count c) [] (he_aggregator h)
      \<and> ag_fedprox_mu (he_aggregator h) = 0 \<and> (\<forall>i < ?n. ag_global_model (he_aggregator h) ! i = hc_global_model c ! i)
      \<and> he_config h = c \<and> he_frag_pool h = fl_pool_init 300 \<and> he_running h = 1
      \<and> he_scheduler h = fl_round_init (hc_round_policy c)"
    using none some by (cases "?n \<le> 4096") (auto simp: herald_init_common_def)
qed

text \<open>The static buffers before the first call.\<close>

definition herald_boot :: "'w FLHerald \<Rightarrow> 'w \<Rightarrow> 'w herald_sys" where
  "herald_boot h w = \<lparr>hs_herald = h, hs_rx_buf = replicate FL_FRAME_MAX_SIZE 0,
     hs_dense_update = replicate FL_MODEL_MAX_PARAMS 0, hs_agg_delta = replicate FL_MODEL_MAX_PARAMS 0,
     hs_round_id = 0, hs_world = w\<rparr>"

definition config_ok :: "('w \<Rightarrow> bool) \<Rightarrow> 'w FLHeraldConfig \<Rightarrow> bool" where
  "config_ok ok c \<longleftrightarrow> unat (hc_model_param_count c) \<le> length (hc_global_model c)
     \<and> ref_ok (hc_model_param_count c) (hc_global_model c)
     \<and> (\<forall>cb s r w. hc_on_shard_update c = Some cb \<longrightarrow> ok w \<longrightarrow> ok (cb s r w))
     \<and> (\<forall>cb r k w. hc_on_round_complete c = Some cb \<longrightarrow> ok w \<longrightarrow> ok (cb r k w))"

lemma herald_boot_inv:
  assumes "config_ok ok c" "herald_init_common c = Some h" "ok w"
  shows "herald_inv ok fd (hc_model_param_count c) [] (herald_boot (h\<lparr>he_serial_fd := fd\<rparr>) w)"
proof -
  have "unat (hc_model_param_count c) \<le> length (hc_global_model c)" using assms(1) by (simp add: config_ok_def)
  from herald_init_common_eq(2) [OF this assms(2)] show ?thesis
    using assms(1,3) by (auto simp: herald_inv_def herald_boot_def config_ok_def ref_ok_def)
qed

end
