(* ===== verification/Herald_Link.thy ===== *)
theory Herald_Link
  imports Shard_Link Herald_Safe
begin

text \<open>
  The Herald behind the byte queues of the demonstration: the queues as its serial port, the return
  of its event loop, and the way of an update from a shard into the aggregate.
\<close>

section \<open>The queues as a serial port\<close>

text \<open>A read takes the next frame, a write appends one; only sleeping takes time.\<close>

record gateway_env =
  gw_link :: demo_env
  gw_clock :: int

definition queue_read :: "nat \<Rightarrow> gateway_env \<Rightarrow> read_result \<times> gateway_env" where
  "queue_read n w =
     (case q_pop (de_s2h (gw_link w)) (replicate n 0) of
        None \<Rightarrow> (Read_Error, w)
      | Some (got, q, b, k) \<Rightarrow>
          if got = 0 then (Read_Again, w)
          else (Read_Bytes (take (unat k) b), w\<lparr>gw_link := (gw_link w)\<lparr>de_s2h := q\<rparr>\<rparr>))"

definition queue_write :: "bytes \<Rightarrow> gateway_env \<Rightarrow> int \<times> gateway_env" where
  "queue_write bs w =
     (case q_push_frame (de_h2s (gw_link w)) bs (of_nat (length bs)) of
        None \<Rightarrow> (- 1, w)
      | Some q \<Rightarrow> (int (length bs), w\<lparr>gw_link := (gw_link w)\<lparr>de_h2s := q\<rparr>\<rparr>))"

definition queue_posix :: "gateway_env posix" where
  "queue_posix =
     \<lparr>px_open = (\<lambda>_ w. (3, w)), px_close = (\<lambda>_ w. w), px_read = (\<lambda>_. queue_read), px_write = (\<lambda>_. queue_write),
      px_time = (\<lambda>w. (gw_clock w, w)), px_clock = (\<lambda>w. ((gw_clock w, 0), w)), px_nanosleep = (\<lambda>_ w. w),
      px_usleep = (\<lambda>_ w. w), px_sleep = (\<lambda>s w. w\<lparr>gw_clock := gw_clock w + uint s\<rparr>), px_stderr = (\<lambda>_ _ w. w)\<rparr>"

lemma queue_posix_simps [simp]:
  "px_read queue_posix fd = queue_read" "px_write queue_posix fd = queue_write"
  "px_time queue_posix w = (gw_clock w, w)" "px_nanosleep queue_posix ns w = w"
  "px_sleep queue_posix s w = w\<lparr>gw_clock := gw_clock w + uint s\<rparr>" "px_stderr queue_posix fmt args w = w"
  by (simp_all add: queue_posix_def)

lemma herald_log_queue [simp]: "herald_log queue_posix h l fmt args w = w"
  by (simp add: herald_log_def)

definition gw_ok :: "gateway_env \<Rightarrow> bool" where
  "gw_ok w \<longleftrightarrow> (\<exists>fs. q_holds (de_s2h (gw_link w)) (enc_frames fs)
       \<and> (\<forall>f \<in> set fs. length f \<le> FL_FRAME_MAX_SIZE \<and> frag_in_range f))
     \<and> length (bq_b (de_h2s (gw_link w))) = Q_SZ"

lemma queue_read_from:
  assumes q: "q_holds q (enc_frames (f # fs))" "length f \<le> 224"
  shows "\<exists>q'. q_holds q' (enc_frames fs)
    \<and> (\<forall>w. de_s2h (gw_link w) = q \<longrightarrow> queue_read 224 w = (Read_Bytes f, w\<lparr>gw_link := (gw_link w)\<lparr>de_s2h := q'\<rparr>\<rparr>))"
proof -
  obtain q' where q': "q_pop q (replicate 224 0) = Some (1, q', f @ drop (length f) (replicate 224 0), of_nat (length f))"
    "q_holds q' (enc_frames fs)" using q_pop_holds [OF q(1), of "replicate 224 0"] q(2) by auto
  have "unat (of_nat (length f) :: u32) = length f" by (rule unat_of_nat_u32) (use q(2) in simp)
  then have "queue_read 224 w = (Read_Bytes f, w\<lparr>gw_link := (gw_link w)\<lparr>de_s2h := q'\<rparr>\<rparr>)" if "de_s2h (gw_link w) = q" for w
    using q' that by (simp add: queue_read_def)
  then show ?thesis using q'(2) by blast
qed

lemma queue_read_ok:
  assumes "gw_ok w"
  shows "gw_ok (snd (queue_read 224 w))"
    and "fst (queue_read 224 w) = Read_Bytes bs \<Longrightarrow> length bs \<le> 224 \<and> frag_in_range bs"
proof -
  obtain fs where fs: "q_holds (de_s2h (gw_link w)) (enc_frames fs)" "length (bq_b (de_h2s (gw_link w))) = Q_SZ"
    "\<forall>f \<in> set fs. length f \<le> 224 \<and> frag_in_range f" using assms by (auto simp: gw_ok_def)
  have "gw_ok (snd (queue_read 224 w)) \<and> (fst (queue_read 224 w) = Read_Bytes bs \<longrightarrow> length bs \<le> 224 \<and> frag_in_range bs)"
  proof (cases fs)
    case Nil
    then show ?thesis using fs(1) assms q_pop_empty [of "de_s2h (gw_link w)" "replicate 224 0"] by (simp add: queue_read_def)
  next
    case (Cons f gs)
    then show ?thesis using queue_read_from [OF fs(1) [unfolded Cons]] fs by (auto simp: gw_ok_def)
  qed
  then show "gw_ok (snd (queue_read 224 w))" "fst (queue_read 224 w) = Read_Bytes bs \<Longrightarrow> length bs \<le> 224 \<and> frag_in_range bs"
    by blast+
qed

lemma q_push_keeps_length:
  assumes "q_push q d n = Some q'" "length (bq_b q) = Q_SZ"
  shows "length (bq_b q') = Q_SZ"
proof -
  have "m \<le> unat n \<Longrightarrow> for_lt m (\<lambda>i q. do {
       x \<leftarrow> rd d i; b \<leftarrow> wr (bq_b q) (unat (bq_t q) mod Q_SZ) x; Some (q\<lparr>bq_b := b, bq_t := bq_t q + 1\<rparr>) }) q = Some r
     \<Longrightarrow> length (bq_b r) = Q_SZ" for m r
    by (induction m arbitrary: r) (use assms(2) in \<open>auto simp: for_lt_Suc wr_def bind_eq_Some_conv split: option.splits if_splits\<close>)
  from this [of "unat n" q'] show ?thesis using assms(1) by (simp only: q_push_def)
qed

lemma queue_write_ok:
  assumes "gw_ok w"
  shows "gw_ok (snd (queue_write bs w))"
proof (cases "q_push_frame (de_h2s (gw_link w)) bs (of_nat (length bs))")
  case (Some q)
  then have "length (bq_b q) = Q_SZ" using assms q_push_keeps_length by (fastforce simp: q_push_frame_def gw_ok_def bind_eq_Some_conv)
  then show ?thesis using assms Some by (auto simp: queue_write_def gw_ok_def)
qed (use assms in \<open>simp add: queue_write_def\<close>)

interpretation queue_gateway: gateway queue_posix gw_ok fd for fd
proof unfold_locales
  fix w bs assume "gw_ok w" "fst (px_read queue_posix fd FL_FRAME_MAX_SIZE w) = Read_Bytes bs"
  then show "length bs \<le> FL_FRAME_MAX_SIZE \<and> frag_in_range bs" using queue_read_ok(2) [of w bs] by simp
qed (use queue_read_ok(1) queue_write_ok in \<open>auto simp: gw_ok_def\<close>)

section \<open>The event loop against any input\<close>

text \<open>A Herald for a hundred parameters that has just opened its first round.\<close>

definition sample_gateway :: "'w FLHeraldConfig" where
  "sample_gateway = \<lparr>hc_serial_port = ''/dev/ttyUSB0'', hc_baud_rate = 115200, hc_model_param_count = 100,
     hc_global_model = replicate 100 0,
     hc_round_policy = \<lparr>rp_window_seconds = 60, rp_inter_round_delay_s = 10, rp_min_shards = 1, rp_max_shards = 5,
       rp_local_epochs = 1, rp_learning_rate = 0\<rparr>,
     hc_aggregator = FL_AGG_FEDAVG, hc_on_round_complete = None, hc_on_shard_update = None, hc_on_error = None,
     hc_log_level = 0\<rparr>"

definition sample_herald :: "'w \<Rightarrow> 'w herald_sys" where
  "sample_herald w = (let h = the (herald_init_common sample_gateway) in
     herald_boot (h\<lparr>he_serial_fd := 3, he_scheduler := snd (fl_round_open 0 (he_scheduler h))\<rparr>) w)"

definition sample_junk :: herald_locals where
  "sample_junk = \<lparr>hj_frame = encoded_frame FL_FRAME_ACK 0 0 0 0 [], hj_payload = replicate FL_PAYLOAD_MAX 0,
     hj_wire = replicate FL_FRAME_MAX_SIZE 0\<rparr>"

definition empty_gateway :: gateway_env where
  "empty_gateway = \<lparr>gw_link = sy_env idle_demo, gw_clock = 0\<rparr>"

lemma sample_junk_wf: "wf_herald_locals sample_junk"
  by (simp add: wf_herald_locals_def sample_junk_def wf_frame_def)

lemma empty_gateway_ok: "gw_ok empty_gateway" "q_holds (de_s2h (gw_link empty_gateway)) []" "q_holds (de_h2s (gw_link empty_gateway)) []"
proof -
  show "q_holds (de_s2h (gw_link empty_gateway)) []" "q_holds (de_h2s (gw_link empty_gateway)) []"
    by (simp_all add: empty_gateway_def idle_demo_def q_holds_def wrapping_queue_def)
  then show "gw_ok empty_gateway" unfolding gw_ok_def by (intro conjI exI [of _ "[]"]) (simp_all add: q_holds_def)
qed

lemma sample_gateway_ok: "config_ok ok sample_gateway"
  by (simp add: config_ok_def sample_gateway_def ref_ok_def)

lemma sample_init:
  "\<exists>h :: 'w FLHerald. herald_init_common sample_gateway = Some h \<and> he_config h = sample_gateway
    \<and> he_frag_pool h = fl_pool_init 300 \<and> he_scheduler h = fl_round_init (hc_round_policy (sample_gateway :: 'w FLHeraldConfig))"
proof -
  have le: "unat (hc_model_param_count (sample_gateway :: 'w FLHeraldConfig)) \<le> length (hc_global_model (sample_gateway :: 'w FLHeraldConfig))"
    by (simp add: sample_gateway_def)
  have "herald_init_common (sample_gateway :: 'w FLHeraldConfig) \<noteq> None"
    unfolding herald_init_common_eq(1) [OF le] by (simp add: sample_gateway_def)
  then show ?thesis using herald_init_common_eq(2) [OF le] by blast
qed

lemma sample_herald_inv:
  assumes "ok (w :: 'w)"
  shows "herald_inv ok 3 100 [] (sample_herald w)"
    and "he_frag_pool (hs_herald (sample_herald w)) = fl_pool_init 300" "hs_world (sample_herald w) = w"
    and "he_config (hs_herald (sample_herald w)) = sample_gateway"
    and "he_scheduler (hs_herald (sample_herald w))
      = snd (fl_round_open 0 (fl_round_init (hc_round_policy (sample_gateway :: 'w FLHeraldConfig))))"
proof -
  obtain h :: "'w FLHerald" where h: "herald_init_common sample_gateway = Some h" "he_config h = sample_gateway"
    "he_frag_pool h = fl_pool_init 300" "he_scheduler h = fl_round_init (hc_round_policy (sample_gateway :: 'w FLHeraldConfig))"
    using sample_init by blast
  have "hc_model_param_count (sample_gateway :: 'w FLHeraldConfig) = 100" by (simp add: sample_gateway_def)
  then have "herald_inv ok 3 100 [] (herald_boot (h\<lparr>he_serial_fd := 3\<rparr>) w)"
    using herald_boot_inv [of ok "sample_gateway :: 'w FLHeraldConfig" h w 3] sample_gateway_ok [of ok] h(1) assms by simp
  then show "herald_inv ok 3 100 [] (sample_herald w)"
    by (simp add: sample_herald_def h(1) herald_inv_def herald_boot_def Let_def)
  show "he_frag_pool (hs_herald (sample_herald w)) = fl_pool_init 300" "hs_world (sample_herald w) = w"
    "he_config (hs_herald (sample_herald w)) = sample_gateway"
    "he_scheduler (hs_herald (sample_herald w)) = snd (fl_round_open 0 (fl_round_init (hc_round_policy (sample_gateway :: 'w FLHeraldConfig))))"
    by (simp_all add: sample_herald_def h herald_boot_def)
qed

text \<open>C5: The Herald survives its input: whatever bytes the gateway delivers (noise, truncated or forged
  frames, updates that claim anything but a fragment index of 40 and more), a pass of the event
  loop makes no access outside its buffers, never quantises a NaN for any of the three
  strategies, and ends in a well-formed state again, whose aggregator stands for the updates of
  the round so far with those the pass completed, or for none after it closed the round.\<close>

theorem herald_survives_input:
  assumes "gateway px ok fd" and "qsort_spec qs" and "wf_herald_locals junk" and "herald_inv ok fd n us y"
  shows "\<exists>y' us'. herald_iter px qs junk y = Some y' \<and> herald_inv ok fd n us' y'
    \<and> (us' = [] \<or> (\<exists>vs. us' = counted (us @ vs)))"
  by (rule gateway.iter_ok [OF assms(1,4,3,2)])

theorem herald_survives_input_witness:
  "\<exists>y' us'. herald_iter queue_posix cmp_isort sample_junk (sample_herald empty_gateway) = Some y'
    \<and> herald_inv gw_ok 3 100 us' y' \<and> (us' = [] \<or> (\<exists>vs. us' = counted ([] @ vs)))"
  by (rule herald_survives_input [OF queue_gateway.gateway_axioms isort.qsort_spec_axioms sample_junk_wf
        sample_herald_inv(1) [of gw_ok, OF empty_gateway_ok(1)]])

text \<open>The Herald starts exactly when the model fits: with an array as long as the configuration says,
  initialisation writes past the end of the aggregator if and only if the parameter count
  exceeds the maximum, which nothing checks, and otherwise answers \<open>FL_OK\<close>.\<close>

theorem herald_init_bound:
  assumes "unat (hc_model_param_count c) \<le> length (hc_global_model c)"
  shows "(fl_herald_init_fd px (Some h0) (Some c) fd w = None \<longleftrightarrow> FL_MODEL_MAX_PARAMS < unat (hc_model_param_count c))
    \<and> (unat (hc_model_param_count c) \<le> FL_MODEL_MAX_PARAMS \<longrightarrow>
        (\<exists>h w'. fl_herald_init_fd px (Some h0) (Some c) fd w = Some (FL_OK, Some h, w') \<and> he_running h = 1 \<and> he_serial_fd h = fd))"
proof (cases "herald_init_common c")
  case None
  then show ?thesis using herald_init_common_eq(1) [OF assms] by (simp add: fl_herald_init_fd_def)
next
  case (Some h)
  then show ?thesis using herald_init_common_eq(1) [OF assms] herald_init_common_eq(2) [OF assms Some]
    by (simp add: fl_herald_init_fd_def Let_def)
qed

text \<open>From the configuration to the first pass.\<close>

lemma started:
  assumes "gateway px ok fd" and "wf_herald_locals junk" and "config_ok ok c" and "ok w"
    and "unat (hc_model_param_count c) \<le> FL_MODEL_MAX_PARAMS"
  shows "\<exists>h w' y. fl_herald_init_fd px (Some h0) (Some c) fd w = Some (FL_OK, Some h, w') \<and> he_config h = c
    \<and> herald_start px junk (herald_boot h w') = Some y \<and> herald_inv ok fd (hc_model_param_count c) [] y"
proof -
  have le: "unat (hc_model_param_count c) \<le> length (hc_global_model c)" using assms(3) by (simp add: config_ok_def)
  obtain h where h: "herald_init_common c = Some h"
    using herald_init_common_eq(1) [OF le] assms(5) by fastforce
  let ?h = "h\<lparr>he_serial_fd := fd\<rparr>" and ?n = "hc_model_param_count c"
  let ?w = "herald_log px ?h 2 ''Initialized with fd=%d'' [Log_Int fd] w"
  have w: "ok ?w" by (rule gateway.log_ok [OF assms(1,4)])
  have "herald_inv ok fd ?n [] (herald_boot ?h ?w)"
    by (rule herald_boot_inv [where ok = ok, OF assms(3) h w])
  from gateway.start_ok [where px = px and ok = ok and fd = fd, OF assms(1) this assms(2)]
  obtain y where "herald_start px junk (herald_boot ?h ?w) = Some y" "herald_inv ok fd ?n [] y" by blast
  then show ?thesis using h herald_init_common_eq(2) [OF le h] by (simp add: fl_herald_init_fd_def Let_def)
qed

text \<open>C18: The Herald runs until it is stopped: started on any descriptor with a model that fits and whose
  values are finite and bounded, it answers \<open>FL_OK\<close> from initialisation, and if the flag is cleared by
  the time the loop has made \<open>k\<close> passes, then, whatever was received meanwhile except an update frame with
  a fragment index of 40 or more (on which the pool leaves its bitmap), \<^verbatim>\<open>fl_herald_run\<close> returns
  \<open>FL_OK\<close>, with the flag cleared and all of its state still well formed.\<close>

theorem herald_runs_until_stopped:
  assumes "gateway px ok fd" and "qsort_spec qs" and "wf_herald_locals junk" and "config_ok ok c" and "ok w"
    and "unat (hc_model_param_count c) \<le> FL_MODEL_MAX_PARAMS"
    and "\<forall>h w' y z. fl_herald_init_fd px (Some h0) (Some c) fd w = Some (FL_OK, Some h, w')
      \<longrightarrow> herald_start px junk (herald_boot h w') = Some y \<longrightarrow> herald_iters px qs junk k y = Some z \<longrightarrow> sig (hs_world z)"
  shows "\<exists>h w' y us. fl_herald_init_fd px (Some h0) (Some c) fd w = Some (FL_OK, Some h, w')
    \<and> fl_herald_run px sig qs junk (herald_boot h w') = Some (FL_OK, y) \<and> he_running (hs_herald y) = 0
    \<and> herald_inv ok fd (hc_model_param_count c) us y"
proof -
  let ?n = "hc_model_param_count c"
  obtain h w' y where init: "fl_herald_init_fd px (Some h0) (Some c) fd w = Some (FL_OK, Some h, w')"
    and y: "herald_start px junk (herald_boot h w') = Some y" "herald_inv ok fd ?n [] y"
    using started [OF assms(1,3-6), of h0] by blast
  have "\<forall>z. herald_iters px qs junk k y = Some z \<longrightarrow> sig (hs_world z)"
    using assms(7) [rule_format, OF init y(1)] by blast
  from gateway.loop_ok [where px = px and ok = ok and fd = fd, OF assms(1) y(2) assms(3,2) this]
  obtain y' us where y': "herald_loop px sig qs junk y = Some y'" "he_running (hs_herald y') = 0" "herald_inv ok fd ?n us y'"
    by blast
  let ?y = "y'\<lparr>hs_world := herald_log px (hs_herald y') 2 ''Event loop stopped'' [] (hs_world y')\<rparr>"
  have "herald_inv ok fd ?n us ?y"
    using y'(3) gateway.log_ok [OF assms(1)] by (simp add: herald_inv_def Let_def)
  moreover have "fl_herald_run px sig qs junk (herald_boot h w') = Some (FL_OK, ?y)"
    using y(1) y'(1) by (simp add: fl_herald_run_def)
  moreover have "he_running (hs_herald ?y) = 0" using y'(2) by simp
  ultimately show ?thesis using init by blast
qed

text \<open>A gateway on which nothing is heard and the stop arrives during the first sleep.\<close>

definition flag_posix :: "bool posix" where
  "flag_posix =
     \<lparr>px_open = (\<lambda>_ w. (3, w)), px_close = (\<lambda>_ w. w), px_read = (\<lambda>_ _ w. (Read_Again, w)),
      px_write = (\<lambda>_ bs w. (int (length bs), w)), px_time = (\<lambda>w. (0, w)), px_clock = (\<lambda>w. ((0, 0), w)),
      px_nanosleep = (\<lambda>_ _. True), px_usleep = (\<lambda>_ w. w), px_sleep = (\<lambda>_ w. w), px_stderr = (\<lambda>_ _ w. w)\<rparr>"

theorem herald_runs_until_stopped_witness:
  "\<forall>h0. \<exists>h w' y us. fl_herald_init_fd flag_posix (Some h0) (Some sample_gateway) 3 False = Some (FL_OK, Some h, w')
    \<and> fl_herald_run flag_posix (\<lambda>w. w) cmp_isort sample_junk (herald_boot h w') = Some (FL_OK, y)
    \<and> he_running (hs_herald y) = 0 \<and> herald_inv (\<lambda>_. True) 3 100 us y"
proof
  fix h0
  have g: "gateway flag_posix (\<lambda>_. True) 3" by unfold_locales (simp_all add: flag_posix_def)
  have n: "hc_model_param_count (sample_gateway :: bool FLHeraldConfig) = 100" by (simp add: sample_gateway_def)
  have flag: "hs_world z" if "herald_iters flag_posix cmp_isort sample_junk 1 y = Some z" for y z
  proof -
    have "px_nanosleep flag_posix ns v" for ns v by (simp add: flag_posix_def)
    then show ?thesis using that by (auto simp: herald_iter_def bind_eq_Some_conv)
  qed
  have "\<forall>h w' y z. fl_herald_init_fd flag_posix (Some h0) (Some sample_gateway) 3 False = Some (FL_OK, Some h, w')
      \<longrightarrow> herald_start flag_posix sample_junk (herald_boot h w') = Some y
      \<longrightarrow> herald_iters flag_posix cmp_isort sample_junk 1 y = Some z \<longrightarrow> hs_world z"
    by (intro allI impI) (rule flag)
  moreover have "unat (hc_model_param_count (sample_gateway :: bool FLHeraldConfig)) \<le> FL_MODEL_MAX_PARAMS" by (simp add: n)
  ultimately show "\<exists>h w' y us. fl_herald_init_fd flag_posix (Some h0) (Some sample_gateway) 3 False = Some (FL_OK, Some h, w')
    \<and> fl_herald_run flag_posix (\<lambda>w. w) cmp_isort sample_junk (herald_boot h w') = Some (FL_OK, y)
    \<and> he_running (hs_herald y) = 0 \<and> herald_inv (\<lambda>_. True) 3 100 us y"
    using herald_runs_until_stopped [OF g isort.qsort_spec_axioms sample_junk_wf sample_gateway_ok TrueI, of h0 False 1 "\<lambda>w. w"]
    unfolding n by blast
qed

text \<open>The strategy is the one of the configuration, in every pass.\<close>

lemma complete_config: "herald_complete px junk sid y = Some y' \<Longrightarrow> he_config (hs_herald y') = he_config (hs_herald y)"
  by (auto simp: herald_complete_def Let_def bind_eq_Some_conv split: option.splits)

lemma update_config: "herald_update px junk f n y = Some y' \<Longrightarrow> he_config (hs_herald y') = he_config (hs_herald y)"
  by (auto simp: herald_update_def split_beta Let_def bind_eq_Some_conv split: if_splits dest!: complete_config)

lemma rx_config: "herald_rx px junk y = Some y' \<Longrightarrow> he_config (hs_herald y') = he_config (hs_herald y)"
  by (auto simp: herald_rx_def Let_def bind_eq_Some_conv split: if_splits dest!: update_config)

abbreviation strategy_of :: "'w herald_sys \<Rightarrow> FLAggregatorType" where
  "strategy_of y \<equiv> hc_aggregator (he_config (hs_herald y))"

lemma aggregate_strategy: "herald_aggregate px qs junk y = Some y' \<Longrightarrow> strategy_of y' = strategy_of y"
  by (auto simp: herald_aggregate_def Let_def bind_eq_Some_conv)

lemma next_round_strategy: "herald_next_round px junk y = Some y' \<Longrightarrow> strategy_of y' = strategy_of y"
  by (auto simp: herald_next_round_def Let_def bind_eq_Some_conv split: prod.splits)

lemma close_strategy: "herald_close px qs junk y = Some y' \<Longrightarrow> strategy_of y' = strategy_of y"
  by (auto simp: herald_close_def Let_def bind_eq_Some_conv split: if_splits dest!: aggregate_strategy next_round_strategy)

lemma rounds_strategy: "herald_rounds px qs junk y = Some y' \<Longrightarrow> strategy_of y' = strategy_of y"
  by (auto simp: herald_rounds_def Let_def split_beta split: if_splits dest!: close_strategy)

lemma iter_strategy: "herald_iter px qs junk y = Some y' \<Longrightarrow> strategy_of y' = strategy_of y"
  by (auto simp: herald_iter_def bind_eq_Some_conv dest!: rounds_strategy rx_config)

lemma start_strategy: "herald_start px junk y = Some y' \<Longrightarrow> strategy_of y' = strategy_of y"
  by (auto simp: herald_start_def Let_def bind_eq_Some_conv split: prod.splits)

lemma iters_ok:
  assumes "gateway px ok fd" "qsort_spec qs" "wf_herald_locals junk" "herald_inv ok fd n us y"
  shows "\<exists>z vs. herald_iters px qs junk k y = Some z \<and> herald_inv ok fd n vs z \<and> strategy_of z = strategy_of y"
  using assms(4)
proof (induction k arbitrary: us y)
  case (Suc k)
  obtain y1 us1 where y1: "herald_iter px qs junk y = Some y1" "herald_inv ok fd n us1 y1"
    using gateway.iter_ok [OF assms(1) Suc.prems assms(3,2)] by blast
  from Suc.IH [OF y1(2)] show ?case using y1(1) iter_strategy [OF y1(1)] by auto
qed auto

text \<open>Both finish a round without updates with zeros.\<close>

lemma fedprox_fedavg_values:
  assumes "herald_inv ok fd n us y" and "strategy_of y = FL_AGG_FEDPROX"
  shows "\<exists>r r'. fl_agg_finalize qs (he_aggregator (hs_herald y)) (hs_agg_delta y) = Some r
    \<and> fl_agg_finalize qs ((he_aggregator (hs_herald y))\<lparr>ag_type := FL_AGG_FEDAVG\<rparr>) (hs_agg_delta y) = Some r'
    \<and> (\<forall>i < unat n. f_ord (r ! i) = f_ord (r' ! i))"
proof -
  note inv = assms(1) [unfolded herald_inv_def Let_def]
  have a: "agg_inv FL_AGG_FEDPROX n us (he_aggregator (hs_herald y))" "unat n \<le> length (hs_agg_delta y)"
    using inv assms(2) by (auto simp: agg_inv_def wf_agg_def)
  show ?thesis
  proof (cases "us = []")
    case True
    then have "ag_shard_count (he_aggregator (hs_herald y)) = 0" "ag_param_count (he_aggregator (hs_herald y)) = n"
      using a(1) by (simp_all add: agg_inv_def unat_eq_zero)
    then show ?thesis using a(2) by (simp add: fl_agg_finalize_def Let_def)
  next
    case False
    from fedprox_is_fedavg [OF a(1) False _ a(2), of qs] show ?thesis using inv by blast
  qed
qed

text \<open>C32: In the Herald FedProx is federated averaging: nothing sets the proximal weight. Configured for
  FedProx, with a bounded model that fits, and started on a port that delivers anything but an
  update with a fragment index of 40 or more, the Herald is after any number of passes of its
  event loop in a state, standing for some updates, in which finishing the round gives,
  coordinate by coordinate, the values FedAvg would give.\<close>

theorem herald_fedprox_is_fedavg:
  assumes "gateway px ok fd" and "qsort_spec qs" and "wf_herald_locals junk" and "config_ok ok c" and "ok w"
    and "unat (hc_model_param_count c) \<le> FL_MODEL_MAX_PARAMS" and "hc_aggregator c = FL_AGG_FEDPROX"
  shows "\<exists>h w' y z us r r'. fl_herald_init_fd px (Some h0) (Some c) fd w = Some (FL_OK, Some h, w')
    \<and> herald_start px junk (herald_boot h w') = Some y \<and> herald_iters px qs junk k y = Some z
    \<and> agg_inv FL_AGG_FEDPROX (hc_model_param_count c) us (he_aggregator (hs_herald z))
    \<and> fl_agg_finalize qs (he_aggregator (hs_herald z)) (hs_agg_delta z) = Some r
    \<and> fl_agg_finalize qs ((he_aggregator (hs_herald z))\<lparr>ag_type := FL_AGG_FEDAVG\<rparr>) (hs_agg_delta z) = Some r'
    \<and> (\<forall>i < unat (hc_model_param_count c). f_ord (r ! i) = f_ord (r' ! i))"
proof -
  let ?n = "hc_model_param_count c"
  obtain h w' y where y: "fl_herald_init_fd px (Some h0) (Some c) fd w = Some (FL_OK, Some h, w')"
    "herald_start px junk (herald_boot h w') = Some y" "herald_inv ok fd ?n [] y" "he_config h = c"
    using started [OF assms(1,3-6), of h0] by blast
  obtain z us where z: "herald_iters px qs junk k y = Some z" "herald_inv ok fd ?n us z" "strategy_of z = strategy_of y"
    using iters_ok [OF assms(1-3) y(3), of k] by blast
  have s: "strategy_of z = FL_AGG_FEDPROX" using z(3) start_strategy [OF y(2)] y(4) assms(7) by (simp add: herald_boot_def)
  moreover from this have "agg_inv FL_AGG_FEDPROX ?n us (he_aggregator (hs_herald z))"
    using z(2) by (simp add: herald_inv_def Let_def)
  ultimately show ?thesis using y(1,2) z(1) fedprox_fedavg_values [OF z(2) s, of qs] by blast
qed

theorem herald_fedprox_is_fedavg_witness:
  "\<forall>h0. \<exists>h w' y z r r'. fl_herald_init_fd queue_posix (Some h0) (Some (sample_gateway\<lparr>hc_aggregator := FL_AGG_FEDPROX\<rparr>)) 3 empty_gateway
      = Some (FL_OK, Some h, w')
    \<and> herald_start queue_posix sample_junk (herald_boot h w') = Some y \<and> herald_iters queue_posix cmp_isort sample_junk 5 y = Some z
    \<and> fl_agg_finalize cmp_isort (he_aggregator (hs_herald z)) (hs_agg_delta z) = Some r
    \<and> fl_agg_finalize cmp_isort ((he_aggregator (hs_herald z))\<lparr>ag_type := FL_AGG_FEDAVG\<rparr>) (hs_agg_delta z) = Some r'
    \<and> (\<forall>i < unat (100 :: u16). f_ord (r ! i) = f_ord (r' ! i))"
proof
  fix h0 :: "gateway_env FLHerald"
  let ?c = "sample_gateway\<lparr>hc_aggregator := FL_AGG_FEDPROX\<rparr> :: gateway_env FLHeraldConfig"
  have c: "config_ok gw_ok ?c" using sample_gateway_ok [of gw_ok] by (simp add: config_ok_def)
  have n: "unat (hc_model_param_count ?c) \<le> FL_MODEL_MAX_PARAMS" "hc_aggregator ?c = FL_AGG_FEDPROX" "hc_model_param_count ?c = 100"
    by (simp_all add: sample_gateway_def)
  show "\<exists>h w' y z r r'. fl_herald_init_fd queue_posix (Some h0) (Some ?c) 3 empty_gateway = Some (FL_OK, Some h, w')
    \<and> herald_start queue_posix sample_junk (herald_boot h w') = Some y \<and> herald_iters queue_posix cmp_isort sample_junk 5 y = Some z
    \<and> fl_agg_finalize cmp_isort (he_aggregator (hs_herald z)) (hs_agg_delta z) = Some r
    \<and> fl_agg_finalize cmp_isort ((he_aggregator (hs_herald z))\<lparr>ag_type := FL_AGG_FEDAVG\<rparr>) (hs_agg_delta z) = Some r'
    \<and> (\<forall>i < unat (100 :: u16). f_ord (r ! i) = f_ord (r' ! i))"
    using herald_fedprox_is_fedavg [OF queue_gateway.gateway_axioms isort.qsort_spec_axioms sample_junk_wf c empty_gateway_ok(1) n(1,2), of h0 3 5]
    unfolding n(3) by blast
qed

section \<open>From the queue into the aggregate\<close>

text \<open>Where nothing is due, round management changes nothing.\<close>

definition active_now :: "int \<Rightarrow> FLFragmentPool \<Rightarrow> bool" where
  "active_now now p \<longleftrightarrow> length (fp_slots p) = FL_POOL_MAX_SHARDS
     \<and> (\<forall>i < FL_POOL_MAX_SHARDS. sl_state (fp_slots p ! i) = FL_FRAG_SLOT_ACTIVE \<longrightarrow> sl_last_frag_at (fp_slots p ! i) = now)"

lemma expire_now: "active_now now p \<Longrightarrow> fl_pool_expire now p = (0, p)"
  unfolding fl_pool_expire_def
  by (rule fold_lt_inv [where P = "\<lambda>_ r. r = (0, p)"]) (auto simp: active_now_def slot_expired_def)

lemma ingest_slot_active:
  assumes "ingest_slot now p k f n = Some (r, p')" "k < FL_POOL_MAX_SHARDS" "length (fp_slots p) = FL_POOL_MAX_SHARDS"
    and "\<forall>i < FL_POOL_MAX_SHARDS. i \<noteq> k \<longrightarrow> sl_state (fp_slots p ! i) = FL_FRAG_SLOT_ACTIVE \<longrightarrow> sl_last_frag_at (fp_slots p ! i) = now"
    and "sl_last_frag_at (fp_slots p ! k) = now \<or> bm_test (sl_frag_bitmap (fp_slots p ! k)) (unat (fr_frag_index f)) = Some False"
  shows "active_now now p'"
proof -
  let ?s = "fp_slots p ! k"
  obtain d where d: "bm_test (sl_frag_bitmap ?s) (unat (fr_frag_index f)) = Some d"
    using assms(1) by (auto simp: ingest_slot_def Let_def bind_eq_Some_conv)
  show ?thesis
  proof (cases d)
    case True
    then show ?thesis using assms d by (auto simp: ingest_slot_def Let_def active_now_def)
  next
    case False
    then obtain t where t: "fp_slots p' = (fp_slots p)[k := t]" "sl_last_frag_at t = now"
      using assms(1) d by (auto simp: ingest_slot_def Let_def bind_eq_Some_conv split: if_splits)
    show ?thesis unfolding active_now_def t(1)
    proof (intro conjI allI impI)
      fix i assume i: "i < FL_POOL_MAX_SHARDS" "sl_state ((fp_slots p)[k := t] ! i) = FL_FRAG_SLOT_ACTIVE"
      show "sl_last_frag_at ((fp_slots p)[k := t] ! i) = now"
        by (cases "i = k") (use i assms(2-4) t(2) in simp_all)
    qed (use assms(3) in simp)
  qed
qed

lemma ingest_active:
  assumes a: "active_now now p" and i: "fl_pool_ingest now p f n = Some (r, p')"
  shows "active_now now p'"
proof (cases "of_nat FL_POOL_MAX_FRAGS < fr_frag_total f \<or> (find_slot p (fr_shard_id f) = None \<and> (fr_frag_index f \<noteq> 0 \<or> alloc_slot p = None))")
  case True
  then show ?thesis using assms by (auto simp: fl_pool_ingest_def Let_def split: if_splits option.splits)
next
  case False
  show ?thesis
  proof (cases "find_slot p (fr_shard_id f)")
    case (Some k)
    then have k: "k < FL_POOL_MAX_SHARDS" "sl_state (fp_slots p ! k) = FL_FRAG_SLOT_ACTIVE"
      using first_slot_Some [OF Some [unfolded find_slot_def]] by simp_all
    have "ingest_slot now p k f n = Some (r, p')" using i Some False by (simp add: fl_pool_ingest_def Let_def)
    from ingest_slot_active [OF this k(1)] show ?thesis using a k by (auto simp: active_now_def)
  next
    case None
    then obtain k where k: "alloc_slot p = Some k" "fr_frag_index f = 0" using False by auto
    have k64: "k < FL_POOL_MAX_SHARDS" using first_slot_Some [OF k(1) [unfolded alloc_slot_def]] by simp
    let ?p = "p\<lparr>fp_slots := (fp_slots p)[k := fresh_slot f]\<rparr>"
    have "ingest_slot now ?p k f n = Some (r, p')"
      using i None k False by (simp add: fl_pool_ingest_def Let_def fresh_slot_def)
    from ingest_slot_active [OF this k64] show ?thesis
      using a k64 k(2) by (auto simp: active_now_def fresh_slot_def zero_slot_def)
  qed
qed

lemma rounds_quiet:
  assumes "active_now (gw_clock (hs_world y)) (he_frag_pool (hs_herald y))"
    and "\<not> fl_round_should_close (gw_clock (hs_world y)) (he_scheduler (hs_herald y))"
  shows "herald_rounds queue_posix qs junk y = Some y"
  using assms by (simp add: herald_rounds_def Let_def expire_now)

text \<open>The Herald on its way through the queue.\<close>

definition gw_state :: "gateway_env herald_sys \<Rightarrow> bytes \<Rightarrow> FLFragmentPool \<Rightarrow> BQ \<Rightarrow> gateway_env herald_sys" where
  "gw_state y rx pool q = y\<lparr>hs_rx_buf := rx, hs_herald := (hs_herald y)\<lparr>he_frag_pool := pool\<rparr>,
     hs_world := (hs_world y)\<lparr>gw_link := (gw_link (hs_world y))\<lparr>de_s2h := q\<rparr>\<rparr>\<rparr>"

lemma rx_wire:
  assumes s: "ready_to_send s" and i: "i < frag_total (sh_update_buf s)" and junk: "wf_frame (hj_frame junk)"
    and q: "q_holds q (enc_frames (update_wire s i # fs))" and rx: "length rx = 224"
  shows "\<exists>g n q' rx'. carries (sh_update_buf s) (sh_shard_id s) i (gw_clock (hs_world y), g, n) \<and> q_holds q' (enc_frames fs)
    \<and> length rx' = 224 \<and> (\<forall>pool. herald_rx queue_posix junk (gw_state y rx pool q) =
      (case fl_pool_ingest (gw_clock (hs_world y)) pool g n of None \<Rightarrow> None
       | Some (c, p) \<Rightarrow> if c = 1 then herald_complete queue_posix junk (sh_shard_id s) (gw_state y rx' p q')
                      else Some (gw_state y rx' p q')))"
proof -
  let ?w = "update_wire s i"
  have le: "length ?w \<le> 224" using length_update_wire_le [of s i] by linarith
  have rx': "length (?w @ drop (length ?w) rx) = 224" "take (length ?w) (?w @ drop (length ?w) rx) = ?w" using rx le by simp_all
  obtain g where g: "fl_frame_decode (Some (?w @ drop (length ?w) rx)) (length ?w) (Some (hj_frame junk)) = Some (FL_OK, Some g)"
    "fr_type g = type_code FL_FRAME_UPDATE"
    "carries (sh_update_buf s) (sh_shard_id s) i (gw_clock (hs_world y), g, of_nat (length ?w - 10))"
    using decode_update [OF s i junk rx'] by blast
  obtain q' where q': "q_holds q' (enc_frames fs)"
    "\<And>w. de_s2h (gw_link w) = q \<Longrightarrow> queue_read 224 w = (Read_Bytes ?w, w\<lparr>gw_link := (gw_link w)\<lparr>de_s2h := q'\<rparr>\<rparr>)"
    using queue_read_from [OF q le] by blast
  have pos: "0 < length ?w" by (simp add: length_update_wire)
  have sid: "fr_shard_id g = sh_shard_id s" using g(3) by (simp add: carries_def)
  have "herald_rx queue_posix junk (gw_state y rx pool q) =
      (case fl_pool_ingest (gw_clock (hs_world y)) pool g (of_nat (length ?w - 10)) of None \<Rightarrow> None
       | Some (c, p) \<Rightarrow> if c = 1 then herald_complete queue_posix junk (sh_shard_id s) (gw_state y (?w @ drop (length ?w) rx) p q')
                      else Some (gw_state y (?w @ drop (length ?w) rx) p q'))" for pool
    using g(1,2) q'(2) rx le pos sid
    by (cases "fl_pool_ingest (gw_clock (hs_world y)) pool g (of_nat (length ?w - 10))")
      (auto simp: herald_rx_def serial_read_def herald_update_def gw_state_def Let_def)
  then show ?thesis using g(3) q'(1) rx'(1) by blast
qed

text \<open>A Herald in the middle of a round: nothing is due, and nothing will be when one more shard
  has completed.\<close>

definition mid_round :: "gateway_env herald_sys \<Rightarrow> bool" where
  "mid_round y \<longleftrightarrow> (let s = he_scheduler (hs_herald y) in
     rs_phase s = FL_ROUND_COLLECTING \<and> gw_clock (hs_world y) < rs_window_close_at s
     \<and> Suc (unat (rs_shards_complete s)) < unat (rp_max_shards (rs_policy s)))"

lemma mid_round_open:
  assumes "mid_round y"
  shows "\<not> fl_round_should_close (gw_clock (hs_world y)) (he_scheduler (hs_herald y))"
    and "\<not> fl_round_should_close (gw_clock (hs_world y)) (snd (fl_round_shard_complete sid (he_scheduler (hs_herald y))))"
proof -
  let ?s = "he_scheduler (hs_herald y)"
  have "Suc (unat (rs_shards_complete ?s)) < unat (rp_max_shards (rs_policy ?s))"
    using assms by (simp add: mid_round_def Let_def)
  then have "Suc (unat (rs_shards_complete ?s)) < 256"
    using unat_u8_less [of "rp_max_shards (rs_policy ?s)"] by linarith
  then have "unat (rs_shards_complete ?s + 1) = Suc (unat (rs_shards_complete ?s))"
    by (simp add: unat_word_ariths)
  then show "\<not> fl_round_should_close (gw_clock (hs_world y)) ?s"
    "\<not> fl_round_should_close (gw_clock (hs_world y)) (snd (fl_round_shard_complete sid ?s))"
    using assms by (auto simp: mid_round_def Let_def fl_round_should_close_def fl_round_shard_complete_def word_le_nat_alt)
qed

lemma mid_round_state [simp]: "mid_round (gw_state y rx p q) = mid_round y"
  "gw_clock (hs_world (gw_state y rx p q)) = gw_clock (hs_world y)"
  "he_frag_pool (hs_herald (gw_state y rx p q)) = p"
  by (simp_all add: gw_state_def mid_round_def Let_def)

lemma iter_quiet:
  assumes "mid_round y" "active_now (gw_clock (hs_world y)) (he_frag_pool (hs_herald y))" "herald_rx queue_posix junk x = Some y"
  shows "herald_iter queue_posix qs junk x = Some y"
  using assms(3) rounds_quiet [OF assms(2) mid_round_open(1) [OF assms(1)]] by (simp add: herald_iter_def)

lemma iters_snoc:
  "herald_iters px qs junk (Suc n) y = do { y \<leftarrow> herald_iters px qs junk n y; herald_iter px qs junk y }"
proof (induction n arbitrary: y)
  case (Suc n)
  then show ?case by (cases "herald_iter px qs junk y") auto
next
  case 0
  show ?case by (cases "herald_iter px qs junk y") simp_all
qed

lemma pool_run_Cons:
  "pool_run p ((t, g, n) # es) = Some (r # rs, p') \<Longrightarrow>
    \<exists>p1. fl_pool_ingest t p g n = Some (r, p1) \<and> pool_run p1 es = Some (rs, p')"
  by (auto simp: bind_eq_Some_conv)

text \<open>The fragments before the last one that is new.\<close>

lemma iters_collect:
  assumes s: "ready_to_send s" and junk: "wf_frame (hj_frame junk)" and mid: "mid_round y"
    and q: "q_holds q (enc_frames (map (update_wire s) is @ fs))" and "is": "\<forall>i \<in> set is. i < frag_total (sh_update_buf s)"
    and rx: "length rx = 224"
  shows "\<exists>es rx' q'. list_all2 (carries (sh_update_buf s) (sh_shard_id s)) is es \<and> length rx' = 224 \<and> q_holds q' (enc_frames fs)
    \<and> (\<forall>e \<in> set es. fst e = gw_clock (hs_world y))
    \<and> (\<forall>pool pool'. active_now (gw_clock (hs_world y)) pool \<longrightarrow> pool_run pool es = Some (replicate (length is) 0, pool') \<longrightarrow>
         active_now (gw_clock (hs_world y)) pool'
         \<and> herald_iters queue_posix qs junk (length is) (gw_state y rx pool q) = Some (gw_state y rx' pool' q'))"
  using q "is" rx
proof (induction "is" arbitrary: q rx)
  case Nil
  then show ?case by (intro exI [of _ "[]"] exI [of _ rx] exI [of _ q]) simp
next
  case (Cons i js)
  let ?T = "gw_clock (hs_world y)"
  have "i < frag_total (sh_update_buf s)" "q_holds q (enc_frames (update_wire s i # map (update_wire s) js @ fs))"
    using Cons.prems by simp_all
  from rx_wire [OF s this(1) junk this(2) Cons.prems(3), of y] obtain g n q1 rx1 where
    g: "carries (sh_update_buf s) (sh_shard_id s) i (?T, g, n)" "q_holds q1 (enc_frames (map (update_wire s) js @ fs))"
    "length rx1 = 224" "\<And>pool. herald_rx queue_posix junk (gw_state y rx pool q) =
      (case fl_pool_ingest ?T pool g n of None \<Rightarrow> None
       | Some (c, p) \<Rightarrow> if c = 1 then herald_complete queue_posix junk (sh_shard_id s) (gw_state y rx1 p q1)
                      else Some (gw_state y rx1 p q1))" by blast
  obtain es rx' q' where es: "list_all2 (carries (sh_update_buf s) (sh_shard_id s)) js es" "length rx' = 224"
    "q_holds q' (enc_frames fs)" "\<forall>e \<in> set es. fst e = ?T"
    "\<And>pool pool'. active_now ?T pool \<Longrightarrow> pool_run pool es = Some (replicate (length js) 0, pool') \<Longrightarrow>
         active_now ?T pool'
         \<and> herald_iters queue_posix qs junk (length js) (gw_state y rx1 pool q1) = Some (gw_state y rx' pool' q')"
    using Cons.IH [OF g(2) _ g(3)] Cons.prems(2) by auto
  have "active_now ?T pool' \<and> herald_iters queue_posix qs junk (Suc (length js)) (gw_state y rx pool q) = Some (gw_state y rx' pool' q')"
    if a: "active_now ?T pool" and r: "pool_run pool ((?T, g, n) # es) = Some (0 # replicate (length js) 0, pool')" for pool pool'
  proof -
    obtain p1 where p1: "fl_pool_ingest ?T pool g n = Some (0, p1)" "pool_run p1 es = Some (replicate (length js) 0, pool')"
      using pool_run_Cons [OF r] by blast
    have a1: "active_now ?T p1" by (rule ingest_active [OF a p1(1)])
    have "herald_rx queue_posix junk (gw_state y rx pool q) = Some (gw_state y rx1 p1 q1)" using g(4) p1(1) by simp
    then have "herald_iter queue_posix qs junk (gw_state y rx pool q) = Some (gw_state y rx1 p1 q1)"
      by (intro iter_quiet) (use mid a1 in simp_all)
    then show ?thesis using es(5) [OF a1 p1(2)] by simp
  qed
  moreover have "list_all2 (carries (sh_update_buf s) (sh_shard_id s)) (i # js) ((?T, g, n) # es)" using g(1) es(1) by simp
  moreover have "\<forall>e \<in> set ((?T, g, n) # es). fst e = ?T" using es(4) by simp
  ultimately show ?case unfolding list.size add_Suc_right add_0_right replicate_Suc using es(2,3) by blast
qed

lemma pool_run_snoc:
  "pool_run p (es @ [(t, g, n)]) = Some (rs, p') \<Longrightarrow>
    \<exists>rs1 r p1. rs = rs1 @ [r] \<and> pool_run p es = Some (rs1, p1) \<and> fl_pool_ingest t p1 g n = Some (r, p')"
proof (induction es arbitrary: p rs)
  case (Cons e es)
  obtain t' g' n' where e: "e = (t', g', n')" by (cases e)
  obtain r p1 rs1 where 1: "fl_pool_ingest t' p g' n' = Some (r, p1)" "pool_run p1 (es @ [(t, g, n)]) = Some (rs1, p')" "rs = r # rs1"
    using Cons.prems by (auto simp: e bind_eq_Some_conv)
  from Cons.IH [OF 1(2)] obtain rs2 r2 p2 where
    "rs1 = rs2 @ [r2]" "pool_run p1 es = Some (rs2, p2)" "fl_pool_ingest t p2 g n = Some (r2, p')" by blast
  then show ?case using 1 by (intro exI [of _ "r # rs2"] exI [of _ r2] exI [of _ p2]) (simp add: e)
qed (auto simp: bind_eq_Some_conv)

lemma release_complete: "fl_pool_get_complete (fl_pool_release p sid) sid = None"
  if "length (fp_slots p) = FL_POOL_MAX_SHARDS"
  using that by (auto simp: fl_pool_get_complete_def fl_pool_release_def first_slot_None zero_slot_def)

lemma release_active: "active_now t p \<Longrightarrow> active_now t (fl_pool_release p sid)"
  by (auto simp: active_now_def fl_pool_release_def zero_slot_def)

text \<open>The values of an update: 0 where it has no entry, otherwise the signed Q8 of the entry.\<close>

definition dense_of :: "u16 \<Rightarrow> FLGradientEntry list \<Rightarrow> f32 list \<Rightarrow> bool" where
  "dense_of n es u \<longleftrightarrow> length u = FL_MODEL_MAX_PARAMS
     \<and> (\<forall>i < unat n. of_nat i \<notin> ge_param_index ` set es \<longrightarrow> u ! i = 0)
     \<and> (\<forall>e \<in> set es. ge_param_index e < n \<longrightarrow> f_ord (u ! unat (ge_param_index e)) = sint (ge_delta_q8 e) * 2 ^ 142)"

definition ack_wire :: "u8 \<Rightarrow> bytes" where
  "ack_wire r = take 10 (frame_bytes (encoded_frame FL_FRAME_ACK FL_SHARD_ID_HERALD r 0 1 []))"

lemma length_ack_wire [simp]: "length (ack_wire r) = 10"
  by (simp add: ack_wire_def)

lemma ack_queued:
  assumes "q_holds (de_h2s (gw_link w)) []"
  shows "\<exists>q. queue_write (ack_wire r) w = (10, w\<lparr>gw_link := (gw_link w)\<lparr>de_h2s := q\<rparr>\<rparr>) \<and> q_holds q (enc_frames [ack_wire r])"
proof -
  have "unat (of_nat (length (ack_wire r)) :: u8) = length (ack_wire r)" by simp
  then obtain q where "q_push_frame (de_h2s (gw_link w)) (ack_wire r) (of_nat (length (ack_wire r))) = Some q"
    "q_holds q (enc_frames [ack_wire r])"
    using q_push_frame_holds [of "de_h2s (gw_link w)" "[]" "of_nat (length (ack_wire r))" "ack_wire r"] assms by auto
  then show ?thesis by (intro exI [of _ q]) (simp add: queue_write_def)
qed

lemma complete_aggregates:
  assumes I: "herald_inv gw_ok fd n us y" and b: "fl_pool_get_complete (he_frag_pool (hs_herald y)) sid = Some b"
    and dist: "distinct (map ge_param_index (sb_list b))" and cb: "hc_on_shard_update (he_config (hs_herald y)) = None"
    and h2s: "q_holds (de_h2s (gw_link (hs_world y))) []"
  shows "\<exists>y' u. herald_complete queue_posix junk sid y = Some y' \<and> herald_inv gw_ok fd n (counted (us @ [u])) y'
    \<and> dense_of n (sb_list b) u
    \<and> he_scheduler (hs_herald y') = snd (fl_round_shard_complete sid (he_scheduler (hs_herald y)))
    \<and> he_config (hs_herald y') = he_config (hs_herald y)
    \<and> he_frag_pool (hs_herald y') = fl_pool_release (he_frag_pool (hs_herald y)) sid
    \<and> gw_clock (hs_world y') = gw_clock (hs_world y) \<and> de_s2h (gw_link (hs_world y')) = de_s2h (gw_link (hs_world y))
    \<and> q_holds (de_h2s (gw_link (hs_world y'))) (enc_frames [ack_wire (he_current_round (hs_herald y))])"
proof -
  let ?h = "hs_herald y" let ?p = "he_frag_pool ?h"
  note inv = I [unfolded herald_inv_def Let_def]
  let ?r = "he_current_round ?h"
  obtain q where q: "queue_write (ack_wire ?r) (hs_world y) = (10, (hs_world y)\<lparr>gw_link := (gw_link (hs_world y))\<lparr>de_h2s := q\<rparr>\<rparr>)"
    "q_holds q (enc_frames [ack_wire ?r])" using ack_queued [OF h2s] by blast
  have ok: "gw_ok ((hs_world y)\<lparr>gw_link := (gw_link (hs_world y))\<lparr>de_h2s := q\<rparr>\<rparr>)"
    using queue_write_ok [of "hs_world y" "ack_wire ?r"] inv q(1) by simp
  have wf: "wf_sparse b" using get_complete_wf [OF _ b] inv by simp
  have l: "unat n \<le> length (hs_dense_update y)" using inv by (auto simp: agg_inv_def wf_agg_def)
  obtain u where u: "fl_sparse_decode b (hs_dense_update y) n False = Some u" "length u = 4096" "dense_of n (sb_list b) u"
    using sparse_decode_distinct [OF wf l dist] inv by (auto simp: dense_of_def)
  have uo: "update_ok n u" using sparse_decode_ok [OF wf l] u(1) by simp
  obtain a where a: "fl_agg_add (he_aggregator ?h) u n 100 = Some a"
    "agg_inv (hc_aggregator (he_config ?h)) n (counted (us @ [u])) a"
    "ag_fedprox_mu a = 0" "ag_global_model a = ag_global_model (he_aggregator ?h)"
    using agg_add_inv [OF _ uo] inv by metis
  have us: "\<forall>v \<in> set (counted (us @ [u])). update_ok n v" using inv uo by (auto dest!: in_set_takeD)
  let ?y = "y\<lparr>hs_herald := ?h\<lparr>he_aggregator := a, he_frag_pool := fl_pool_release ?p sid,
      he_scheduler := snd (fl_round_shard_complete sid (he_scheduler ?h))\<rparr>, hs_dense_update := u,
      hs_world := (hs_world y)\<lparr>gw_link := (gw_link (hs_world y))\<lparr>de_h2s := q\<rparr>\<rparr>\<rparr>"
  have "herald_complete queue_posix junk sid y = Some ?y"
    using inv q(1) u(1) a(1) b cb
    by (simp add: herald_complete_def Let_def fl_frame_encode_empty serial_write_def ack_wire_def)
  moreover have "herald_inv gw_ok fd n (counted (us @ [u])) ?y"
    unfolding herald_inv_def Let_def using inv ok u(2) a(2-4) us wf_pool_release [of ?p sid] by simp
  moreover have "he_scheduler (hs_herald ?y) = snd (fl_round_shard_complete sid (he_scheduler ?h))"
    "he_config (hs_herald ?y) = he_config ?h"
    "he_frag_pool (hs_herald ?y) = fl_pool_release ?p sid" "gw_clock (hs_world ?y) = gw_clock (hs_world y)"
    "de_s2h (gw_link (hs_world ?y)) = de_s2h (gw_link (hs_world y))" "de_h2s (gw_link (hs_world ?y)) = q" by simp_all
  ultimately show ?thesis using u(3) q(2) by metis
qed

lemma gw_state_self:
  "gw_state y (hs_rx_buf y) (he_frag_pool (hs_herald y)) (de_s2h (gw_link (hs_world y))) = y"
  by (simp add: gw_state_def)

lemma dense_of_mset: "mset es = mset es' \<Longrightarrow> dense_of n es u = dense_of n es' u"
  by (simp add: dense_of_def flip: set_mset_mset)

lemma ready_frag_lists:
  assumes "wf_pool pool" and s: "ready_to_send s" and "alloc_slot pool \<noteq> None"
    and "\<forall>i < FL_POOL_MAX_SHARDS. sl_state (fp_slots pool ! i) \<noteq> FL_FRAG_SLOT_EMPTY \<longrightarrow> sl_shard_id (fp_slots pool ! i) \<noteq> sh_shard_id s"
    and "list_all2 (carries (sh_update_buf s) (sh_shard_id s)) (0 # js) es"
    and "set (0 # js) = {..<frag_total (sh_update_buf s)}" "last (0 # js) \<notin> set (butlast (0 # js))"
  shows "\<exists>pool' b. pool_run pool es = Some (replicate (length js) 0 @ [1], pool')
    \<and> fl_pool_get_complete pool' (sh_shard_id s) = Some b \<and> mset (sb_list b) = mset (sb_list (sh_update_buf s))"
proof -
  have wf: "wf_sparse (sh_update_buf s)" "sb_count (sh_update_buf s) \<noteq> 0" using s by (simp_all add: ready_to_send_def)
  show ?thesis
    using pool_reassembles [OF assms(1) wf assms(4,3,5,6,7)] mset_frags_of [OF wf(1) assms(6)] by metis
qed

lemma pool_run_wf:
  "wf_pool p \<Longrightarrow> list_all2 (carries buf sid) is es \<Longrightarrow> wf_sparse buf \<Longrightarrow> \<forall>i \<in> set is. i < frag_total buf
    \<Longrightarrow> pool_run p es = Some (rs, p') \<Longrightarrow> wf_pool p'"
proof (induction es arbitrary: p "is" rs)
  case (Cons e es)
  obtain t g n where e: "e = (t, g, n)" by (cases e)
  obtain i js where i: "is = i # js" "carries buf sid i (t, g, n)" "list_all2 (carries buf sid) js es"
    using Cons.prems(2) by (auto simp: e list_all2_Cons2)
  have t: "frag_total buf \<le> 15" by (rule frag_total_bound [OF Cons.prems(3)])
  have g: "unat (fr_frag_index g) = i" "wf_frame g" "n = of_nat (3 * length (frag_entries buf i))"
    using i(2) by (simp_all add: carries_def)
  have "unat (of_nat (3 * length (frag_entries buf i)) :: u8) = 3 * length (frag_entries buf i)"
    by (rule unat_of_nat_u8) (use length_frag_entries [of buf i] in linarith)
  then have "unat n \<le> length (fr_payload g)" using g(2,3) length_frag_entries [of buf i] by (simp add: wf_frame_def)
  moreover have "unat (fr_frag_index g) < 40" using g(1) i(1) Cons.prems(4) t by fastforce
  ultimately obtain r p1 where p1: "fl_pool_ingest t p g n = Some (r, p1)" "wf_pool p1"
    using pool_ingest_total [OF Cons.prems(1)] by blast
  moreover obtain rs1 where "pool_run p1 es = Some (rs1, p')"
    using Cons.prems(5) p1(1) by (auto simp: e bind_eq_Some_conv)
  ultimately show ?case using Cons.IH [OF p1(2) i(3) Cons.prems(3)] Cons.prems(4) i(1) by simp
qed simp

lemma iters_aggregate:
  assumes s: "ready_to_send s" and junk: "wf_herald_locals junk" and mid: "mid_round y"
    and I: "herald_inv gw_ok fd n us y"
    and fresh: "active_now (gw_clock (hs_world y)) (he_frag_pool (hs_herald y))" "alloc_slot (he_frag_pool (hs_herald y)) \<noteq> None"
      "\<forall>i < FL_POOL_MAX_SHARDS. sl_state (fp_slots (he_frag_pool (hs_herald y)) ! i) \<noteq> FL_FRAG_SLOT_EMPTY
         \<longrightarrow> sl_shard_id (fp_slots (he_frag_pool (hs_herald y)) ! i) \<noteq> sh_shard_id s"
    and dist: "distinct (map ge_param_index (sb_list (sh_update_buf s)))"
    and cb: "hc_on_shard_update (he_config (hs_herald y)) = None"
    and q: "q_holds (de_s2h (gw_link (hs_world y))) (enc_frames (map (update_wire s) (0 # js)))"
      "q_holds (de_h2s (gw_link (hs_world y))) []"
    and js: "set (0 # js) = {..<frag_total (sh_update_buf s)}" "last (0 # js) \<notin> set (butlast (0 # js))"
  shows "\<exists>y' u. herald_iters queue_posix qs junk (Suc (length js)) y = Some y'
    \<and> herald_inv gw_ok fd n (counted (us @ [u])) y' \<and> dense_of n (sb_list (sh_update_buf s)) u
    \<and> he_scheduler (hs_herald y') = snd (fl_round_shard_complete (sh_shard_id s) (he_scheduler (hs_herald y)))
    \<and> he_config (hs_herald y') = he_config (hs_herald y)
    \<and> fl_pool_get_complete (he_frag_pool (hs_herald y')) (sh_shard_id s) = None
    \<and> q_holds (de_s2h (gw_link (hs_world y'))) []
    \<and> q_holds (de_h2s (gw_link (hs_world y'))) (enc_frames [ack_wire (he_current_round (hs_herald y))])"
proof -
  let ?T = "gw_clock (hs_world y)" and ?sid = "sh_shard_id s" and ?b = "sh_update_buf s"
  let ?pre = "butlast (0 # js)" and ?i = "last (0 # js)" and ?pool = "he_frag_pool (hs_herald y)"
  have split: "0 # js = ?pre @ [?i]" by simp
  have lpre: "length ?pre = length js" by simp
  have jf: "wf_frame (hj_frame junk)" using junk by (simp add: wf_herald_locals_def)
  have lt: "\<forall>i \<in> set ?pre. i < frag_total ?b" "?i < frag_total ?b"
  proof -
    have "?i \<in> {..<frag_total ?b}" unfolding js(1) [symmetric] by (rule last_in_set) simp
    moreover have "set ?pre \<subseteq> {..<frag_total ?b}" unfolding js(1) [symmetric] by (rule subsetI) (rule in_set_butlastD)
    ultimately show "\<forall>i \<in> set ?pre. i < frag_total ?b" "?i < frag_total ?b" by blast+
  qed
  have rx: "length (hs_rx_buf y) = 224" and wfp: "wf_pool ?pool" using I by (simp_all add: herald_inv_def Let_def)
  have "map (update_wire s) (0 # js) = map (update_wire s) ?pre @ [update_wire s ?i]"
    by (subst split) (simp only: map_append list.map)
  then have "q_holds (de_s2h (gw_link (hs_world y))) (enc_frames (map (update_wire s) ?pre @ [update_wire s ?i]))"
    using q(1) by simp
  from iters_collect [OF s jf mid this lt(1) rx, of qs] obtain es rx1 q1 where
    es: "list_all2 (carries ?b ?sid) ?pre es" "length rx1 = 224" "q_holds q1 (enc_frames [update_wire s ?i])"
    "\<forall>pool pool'. active_now ?T pool \<longrightarrow> pool_run pool es = Some (replicate (length ?pre) 0, pool') \<longrightarrow> active_now ?T pool'
        \<and> herald_iters queue_posix qs junk (length ?pre) (gw_state y (hs_rx_buf y) pool (de_s2h (gw_link (hs_world y))))
          = Some (gw_state y rx1 pool' q1)"
    by blast
  from rx_wire [OF s lt(2) jf es(3,2), of y] obtain g k q2 rx2 where
    g: "carries ?b ?sid ?i (?T, g, k)" "q_holds q2 (enc_frames [])" "length rx2 = 224"
    "\<And>pool. herald_rx queue_posix junk (gw_state y rx1 pool q1) =
      (case fl_pool_ingest ?T pool g k of None \<Rightarrow> None
       | Some (c, p) \<Rightarrow> if c = 1 then herald_complete queue_posix junk ?sid (gw_state y rx2 p q2)
                      else Some (gw_state y rx2 p q2))" by blast
  have car: "list_all2 (carries ?b ?sid) (0 # js) (es @ [(?T, g, k)])"
    by (subst split) (rule list_all2_appendI [OF es(1)], simp only: list.rel_inject list.rel_intros g(1))
  obtain pool2 b where run: "pool_run ?pool (es @ [(?T, g, k)]) = Some (replicate (length js) 0 @ [1], pool2)"
    "fl_pool_get_complete pool2 ?sid = Some b" "mset (sb_list b) = mset (sb_list ?b)"
    using ready_frag_lists [OF wfp s fresh(2,3) car js] by blast
  from pool_run_snoc [OF run(1)] obtain p1 where
    p1: "pool_run ?pool es = Some (replicate (length ?pre) 0, p1)" "fl_pool_ingest ?T p1 g k = Some (1, pool2)"
    unfolding lpre by auto
  have wfs: "wf_sparse ?b" using s by (simp add: ready_to_send_def)
  have wf2: "wf_pool pool2" by (rule pool_run_wf [OF wfp car wfs _ run(1)]) (use js(1) in blast)
  from es(4) [rule_format, OF fresh(1) p1(1)] have c: "active_now ?T p1"
    "herald_iters queue_posix qs junk (length js) y = Some (gw_state y rx1 p1 q1)"
    unfolding gw_state_self lpre by simp_all
  have a2: "active_now ?T pool2" by (rule ingest_active [OF c(1) p1(2)])
  let ?z = "gw_state y rx2 pool2 q2"
  have okz: "gw_ok (hs_world ?z)"
    unfolding gw_ok_def gw_state_def using g(2) q(2) by (intro conjI exI [of _ "[]"]) (simp_all add: q_holds_def)
  have Iz: "herald_inv gw_ok fd n us ?z" using I wf2 g(3) okz by (simp add: herald_inv_def gw_state_def Let_def)
  have "mset (map ge_param_index (sb_list b)) = mset (map ge_param_index (sb_list ?b))" using run(3) by (simp only: mset_map)
  then have db: "distinct (map ge_param_index (sb_list b))" using dist mset_eq_imp_distinct_iff by blast
  have z: "fl_pool_get_complete (he_frag_pool (hs_herald ?z)) ?sid = Some b" "hc_on_shard_update (he_config (hs_herald ?z)) = None"
    "q_holds (de_h2s (gw_link (hs_world ?z))) []" "he_current_round (hs_herald ?z) = he_current_round (hs_herald y)"
    "he_scheduler (hs_herald ?z) = he_scheduler (hs_herald y)" "he_config (hs_herald ?z) = he_config (hs_herald y)"
    "de_s2h (gw_link (hs_world ?z)) = q2"
    using run(2) cb q(2) by (simp_all add: gw_state_def)
  from complete_aggregates [OF Iz z(1) db z(2,3), of junk] obtain y' u where
    y': "herald_complete queue_posix junk ?sid ?z = Some y'" "herald_inv gw_ok fd n (counted (us @ [u])) y'" "dense_of n (sb_list b) u"
    "he_scheduler (hs_herald y') = snd (fl_round_shard_complete ?sid (he_scheduler (hs_herald y)))"
    "he_config (hs_herald y') = he_config (hs_herald y)"
    "he_frag_pool (hs_herald y') = fl_pool_release pool2 ?sid" "gw_clock (hs_world y') = ?T"
    "de_s2h (gw_link (hs_world y')) = q2"
    "q_holds (de_h2s (gw_link (hs_world y'))) (enc_frames [ack_wire (he_current_round (hs_herald y))])"
    unfolding z(4-7) by auto
  have "herald_rx queue_posix junk (gw_state y rx1 p1 q1) = Some y'" using g(4) p1(2) y'(1) by simp
  moreover have "herald_rounds queue_posix qs junk y' = Some y'"
    by (rule rounds_quiet) (use y'(4,6,7) release_active [OF a2] mid_round_open(2) [OF mid] in simp_all)
  ultimately have "herald_iter queue_posix qs junk (gw_state y rx1 p1 q1) = Some y'" by (simp add: herald_iter_def)
  then have "herald_iters queue_posix qs junk (Suc (length js)) y = Some y'" using c(2) by (simp only: iters_snoc) simp
  moreover have "fl_pool_get_complete (he_frag_pool (hs_herald y')) ?sid = None"
    unfolding y'(6) by (rule release_complete) (use wf2 in \<open>simp add: wf_pool_def\<close>)
  moreover have "dense_of n (sb_list ?b) u" using y'(3) dense_of_mset [OF run(3)] by simp
  moreover have "q_holds (de_s2h (gw_link (hs_world y'))) []" using g(2) y'(8) by simp
  ultimately show ?thesis using y'(2,4,5,9) by blast
qed

section \<open>The whole way and back\<close>

text \<open>The tick in which a waiting shard finds the acknowledgement in its queue.\<close>

lemma ack_tick:
  assumes s: "sh_hal (sy_shard y) = demo_hal clock" "sys_state y = FL_SHARD_STATE_AWAIT_ACK"
    and rx: "length (sh_rx_buf (sy_shard y)) = FL_SHARD_RX_BUFFER_SIZE" and junk: "wf_frame (jk_frame junk)"
    and q: "q_holds (de_h2s (sy_env y)) (enc_frames [ack_wire r])"
  shows "\<exists>q' x. q_holds q' (enc_frames []) \<and> length x = FL_SHARD_RX_BUFFER_SIZE
    \<and> fl_shard_tick lm cb junk y = Some (FL_SHARD_STATE_RECV_DELTA,
      y\<lparr>sy_shard := (sy_shard y)\<lparr>sh_rx_buf := x, sh_rounds_completed := sh_rounds_completed (sy_shard y) + 1,
          sh_state := FL_SHARD_STATE_RECV_DELTA, sh_rx_frag_recv := 0, sh_rx_frag_total := 0, sh_delta_buf := zero_sparse\<rparr>,
        sy_env := (sy_env y)\<lparr>de_h2s := q'\<rparr>\<rparr>)"
proof -
  let ?rx = "sh_rx_buf (sy_shard y)" let ?b = "ack_wire r @ drop 10 ?rx"
  obtain q' where q': "q_pop (de_h2s (sy_env y)) ?rx = Some (1, q', ?b, 10)" "q_holds q' (enc_frames [])"
    using q_pop_holds [OF q, of ?rx] rx by auto
  let ?y = "y\<lparr>sy_shard := (sy_shard y)\<lparr>sh_rx_buf := ?b\<rparr>, sy_env := (sy_env y)\<lparr>de_h2s := q'\<rparr>\<rparr>"
  have "take 10 ?b = wire_of (encoded_frame FL_FRAME_ACK FL_SHARD_ID_HERALD r 0 1 []) 0"
    by (simp add: ack_wire_def wire_of_def)
  then obtain g where g: "fl_frame_decode (Some ?b) 10 (Some (jk_frame junk)) = Some (FL_OK, Some g)"
    "frame_head g = frame_head (encoded_frame FL_FRAME_ACK FL_SHARD_ID_HERALD r 0 1 [])"
    using decode_encoded [of "[]" ?b "jk_frame junk" FL_FRAME_ACK FL_SHARD_ID_HERALD r 0 1, unfolded list.size add_0_right]
      rx junk by (metis append_is_Nil_conv le0 le_add1 length_ack_wire length_append list.size(3))
  then have "frame_type_of (fr_type g) = Some FL_FRAME_ACK" by (simp add: frame_head_def frame_type_of_def)
  then have "recv_and_handle junk FL_SHARD_RECV_TIMEOUT_MS y = Some (on_ack ?y)"
    using q'(1) g(1) by (simp add: recv_and_handle_def fl_shard_on_rx_def s(1) demo_hal_def demo_recv_def)
  moreover have "shard_log (sy_shard y) msg e = e" for msg e by (simp add: shard_log_def hal_print_def s(1) demo_hal_def)
  ultimately show ?thesis using s q'(2) rx
    by (intro exI [of _ q'] exI [of _ ?b]) (simp add: fl_shard_tick_def on_ack_def Let_def shard_log_def hal_print_def demo_hal_def)
qed

text \<open>Frames of an update are fit for the Herald's input.\<close>

lemma wires_gw_ok:
  assumes q: "q_holds (de_s2h (gw_link w)) (enc_frames (map (update_wire s) [0..<n]))" and n: "n \<le> 15"
    and l: "length (bq_b (de_h2s (gw_link w))) = Q_SZ"
  shows "gw_ok w"
proof -
  have "length (update_wire s i) \<le> 224 \<and> frag_in_range (update_wire s i)" if "i < n" for i
  proof -
    have "update_wire s i ! 6 = of_nat i"
      by (simp add: update_wire_def wire_of_def frame_bytes_def frame_head_def update_frame_def le16_def nth_append)
    moreover have "unat (of_nat i :: u8) = i" by (rule unat_of_nat_u8) (use that n in simp)
    ultimately show ?thesis using length_update_wire_le [of s i] that n by (simp add: frag_in_range_def)
  qed
  then have "\<forall>f \<in> set (map (update_wire s) [0..<n]). length f \<le> 224 \<and> frag_in_range f" by simp
  then show ?thesis using q l unfolding gw_ok_def by metis
qed

text \<open>The way of an update, from the first send tick to the acknowledgement in the queue.\<close>

lemma uplink:
  assumes s: "ready_to_send (sy_shard y0)" and hal: "sh_hal (sy_shard y0) = demo_hal clock"
    and st: "sys_state y0 = FL_SHARD_STATE_TX" "sh_tx_frag_sent (sy_shard y0) = 0"
    and q: "q_holds (de_s2h (sy_env y0)) []" "q_holds (de_h2s (sy_env y0)) []"
    and junk: "length (jk_payload junk) = FL_PAYLOAD_MAX" and hjunk: "wf_herald_locals hj"
    and I: "herald_inv gw_ok fd n us z" and mid: "mid_round z"
    and fresh: "active_now (gw_clock (hs_world z)) (he_frag_pool (hs_herald z))" "alloc_slot (he_frag_pool (hs_herald z)) \<noteq> None"
      "\<forall>i < FL_POOL_MAX_SHARDS. sl_state (fp_slots (he_frag_pool (hs_herald z)) ! i) \<noteq> FL_FRAG_SLOT_EMPTY
         \<longrightarrow> sl_shard_id (fp_slots (he_frag_pool (hs_herald z)) ! i) \<noteq> sh_shard_id (sy_shard y0)"
    and dist: "distinct (map ge_param_index (sb_list (sh_update_buf (sy_shard y0))))"
    and cb: "hc_on_shard_update (he_config (hs_herald z)) = None"
  shows "\<exists>y z' u. run_ticks lm ucb junk (unat (sh_tx_frag_total (sy_shard y0))) y0 = Some y
    \<and> sy_shard y = (sy_shard y0)\<lparr>sh_tx_frag_sent := sh_tx_frag_total (sy_shard y0), sh_state := FL_SHARD_STATE_AWAIT_ACK\<rparr>
    \<and> herald_iters queue_posix qs hj (unat (sh_tx_frag_total (sy_shard y0)))
        (z\<lparr>hs_world := (hs_world z)\<lparr>gw_link := sy_env y\<rparr>\<rparr>) = Some z'
    \<and> herald_inv gw_ok fd n (counted (us @ [u])) z' \<and> dense_of n (sb_list (sh_update_buf (sy_shard y0))) u
    \<and> he_scheduler (hs_herald z') = snd (fl_round_shard_complete (sh_shard_id (sy_shard y0)) (he_scheduler (hs_herald z)))
    \<and> he_config (hs_herald z') = he_config (hs_herald z)
    \<and> fl_pool_get_complete (he_frag_pool (hs_herald z')) (sh_shard_id (sy_shard y0)) = None
    \<and> q_holds (de_s2h (gw_link (hs_world z'))) []
    \<and> q_holds (de_h2s (gw_link (hs_world z'))) (enc_frames [ack_wire (he_current_round (hs_herald z))])"
proof -
  let ?s = "sy_shard y0" let ?b = "sh_update_buf ?s" let ?n = "frag_total ?b"
  note f = ready_frags [OF s]
  have "sending y0 0 y0" using st q f(1) by (simp add: sending_def)
  from sending_all [OF s junk hal this, of ?n] obtain y where
    y: "run_ticks lm ucb junk ?n y0 = Some y" "sending y0 ?n y" by blast
  have "sh_tx_frag_total ?s = of_nat ?n" unfolding f(2) [symmetric] by simp
  then have yq: "q_holds (de_s2h (sy_env y)) (enc_frames (map (update_wire ?s) [0..<?n]))" "de_h2s (sy_env y) = de_h2s (sy_env y0)"
    "sy_shard y = ?s\<lparr>sh_tx_frag_sent := sh_tx_frag_total ?s, sh_state := FL_SHARD_STATE_AWAIT_ACK\<rparr>"
    using y(2) by (auto simp: sending_def)
  have n: "[0..<?n] = 0 # [1..<?n]" "length [1..<?n] = ?n - 1" using f(1) by (simp_all add: upt_conv_Cons)
  have js: "set (0 # [1..<?n]) = {..<?n}" by (simp only: n(1) [symmetric] set_upt lessThan_atLeast0)
  have "distinct (butlast [0..<?n] @ [last [0..<?n]])"
    using f(1) by (metis append_butlast_last_id distinct_upt less_irrefl_nat upt_eq_Nil_conv not_less0 not_less)
  then have last: "last (0 # [1..<?n]) \<notin> set (butlast (0 # [1..<?n]))" unfolding n(1) [symmetric] by simp
  let ?z = "z\<lparr>hs_world := (hs_world z)\<lparr>gw_link := sy_env y\<rparr>\<rparr>"
  have "length (bq_b (de_h2s (sy_env y))) = Q_SZ" using yq(2) q(2) by (simp add: q_holds_def)
  then have "gw_ok (hs_world ?z)" using wires_gw_ok [of "hs_world ?z", OF _ f(3)] yq(1) by simp
  then have Iz: "herald_inv gw_ok fd n us ?z" using I by (simp add: herald_inv_def Let_def)
  have z: "mid_round ?z" "active_now (gw_clock (hs_world ?z)) (he_frag_pool (hs_herald ?z))"
    "hs_herald ?z = hs_herald z" "gw_link (hs_world ?z) = sy_env y"
    using mid fresh(1) by (simp_all add: mid_round_def Let_def)
  have "Suc (length [1..<?n]) = ?n" using f(1) n(2) by simp
  then show ?thesis
    using iters_aggregate [OF s hjunk z(1) Iz z(2) _ _ dist _ _ _ js last, of qs] fresh(2,3) cb yq(1,2) q(2) y(1) yq(3)
    unfolding n(1) [symmetric] z(3,4) f(2) by metis
qed

text \<open>An update reaches the aggregate and its shard learns so: in the middle of a round the Herald
  takes the frames a shard hands over, one for each tick, in as many passes of its event loop;
  then its aggregator stands for the updates so far and the one the shard encoded, entry by
  entry, one more shard counts as complete, the shard's slot is free again, and the next tick of
  the shard finds the acknowledgement and awaits the delta.\<close>

theorem update_is_aggregated:
  assumes s: "ready_to_send (sy_shard y0)" and hal: "sh_hal (sy_shard y0) = demo_hal clock"
    and st: "sys_state y0 = FL_SHARD_STATE_TX" "sh_tx_frag_sent (sy_shard y0) = 0"
      "length (sh_rx_buf (sy_shard y0)) = FL_SHARD_RX_BUFFER_SIZE"
    and q: "q_holds (de_s2h (sy_env y0)) []" "q_holds (de_h2s (sy_env y0)) []"
    and junk: "length (jk_payload junk) = FL_PAYLOAD_MAX" "wf_frame (jk_frame junk)" and hjunk: "wf_herald_locals hj"
    and I: "herald_inv gw_ok fd n us z" and mid: "mid_round z"
    and fresh: "active_now (gw_clock (hs_world z)) (he_frag_pool (hs_herald z))" "alloc_slot (he_frag_pool (hs_herald z)) \<noteq> None"
      "\<forall>i < FL_POOL_MAX_SHARDS. sl_state (fp_slots (he_frag_pool (hs_herald z)) ! i) \<noteq> FL_FRAG_SLOT_EMPTY
         \<longrightarrow> sl_shard_id (fp_slots (he_frag_pool (hs_herald z)) ! i) \<noteq> sh_shard_id (sy_shard y0)"
    and dist: "distinct (map ge_param_index (sb_list (sh_update_buf (sy_shard y0))))"
    and cb: "hc_on_shard_update (he_config (hs_herald z)) = None"
  shows "\<exists>y z' u y'. run_ticks lm ucb junk (unat (sh_tx_frag_total (sy_shard y0))) y0 = Some y
    \<and> herald_iters queue_posix qs hj (unat (sh_tx_frag_total (sy_shard y0)))
        (z\<lparr>hs_world := (hs_world z)\<lparr>gw_link := sy_env y\<rparr>\<rparr>) = Some z'
    \<and> herald_inv gw_ok fd n (counted (us @ [u])) z' \<and> dense_of n (sb_list (sh_update_buf (sy_shard y0))) u
    \<and> rs_shards_complete (he_scheduler (hs_herald z')) = rs_shards_complete (he_scheduler (hs_herald z)) + 1
    \<and> fl_pool_get_complete (he_frag_pool (hs_herald z')) (sh_shard_id (sy_shard y0)) = None
    \<and> fl_shard_tick lm ucb junk (y\<lparr>sy_env := gw_link (hs_world z')\<rparr>) = Some (FL_SHARD_STATE_RECV_DELTA, y')"
proof -
  obtain y z' u where y: "run_ticks lm ucb junk (unat (sh_tx_frag_total (sy_shard y0))) y0 = Some y"
    "sy_shard y = (sy_shard y0)\<lparr>sh_tx_frag_sent := sh_tx_frag_total (sy_shard y0), sh_state := FL_SHARD_STATE_AWAIT_ACK\<rparr>"
    and z': "herald_iters queue_posix qs hj (unat (sh_tx_frag_total (sy_shard y0)))
        (z\<lparr>hs_world := (hs_world z)\<lparr>gw_link := sy_env y\<rparr>\<rparr>) = Some z'"
    "herald_inv gw_ok fd n (counted (us @ [u])) z'" "dense_of n (sb_list (sh_update_buf (sy_shard y0))) u"
    "he_scheduler (hs_herald z') = snd (fl_round_shard_complete (sh_shard_id (sy_shard y0)) (he_scheduler (hs_herald z)))"
    "fl_pool_get_complete (he_frag_pool (hs_herald z')) (sh_shard_id (sy_shard y0)) = None"
    "q_holds (de_h2s (gw_link (hs_world z'))) (enc_frames [ack_wire (he_current_round (hs_herald z))])"
    using uplink [OF s hal st(1,2) q junk(1) hjunk I mid fresh dist cb, of lm ucb qs] by blast
  have "rs_shards_complete (he_scheduler (hs_herald z')) = rs_shards_complete (he_scheduler (hs_herald z)) + 1"
    by (simp add: z'(4) fl_round_shard_complete_def Let_def)
  moreover obtain y' where "fl_shard_tick lm ucb junk (y\<lparr>sy_env := gw_link (hs_world z')\<rparr>) = Some (FL_SHARD_STATE_RECV_DELTA, y')"
    using ack_tick [of "y\<lparr>sy_env := gw_link (hs_world z')\<rparr>" clock junk "he_current_round (hs_herald z)" lm ucb]
      y(2) hal st(3) junk(2) z'(6) by auto
  ultimately show ?thesis using y(1) z' by blast
qed

definition sample_sending :: "demo_env sys" where
  "sample_sending = sample_update\<lparr>sy_shard := (sy_shard sample_update)\<lparr>sh_update_buf := zero_sparse\<lparr>sb_count := 80,
     sb_entries := map (\<lambda>i. \<lparr>ge_param_index = of_nat i, ge_delta_q8 = 64\<rparr>) [0..<1024]\<rparr>\<rparr>\<rparr>"

end
