(* ===== verification/Network_Start.thy ===== *)
theory Network_Start
  imports Examples
begin

text \<open>
  The networks of the examples after \<^verbatim>\<open>fl_model_init\<close> and \<^verbatim>\<open>fl_model_init_random\<close>: the
  random initialisation stays inside the parameters and keeps the shape of the network.
\<close>

lemma init_random_total:
  assumes "length (md_params m) = FL_MODEL_MAX_PARAMS" "unat (md_layer_count m) \<le> length (md_layers m)"
    and "\<forall>l < unat (md_layer_count m). ly_off (md_layers m ! l) + unat (ly_param_count (md_layers m ! l)) \<le> FL_MODEL_MAX_PARAMS"
  shows "\<exists>ps. fl_model_init_random lm m seed = Some (m\<lparr>md_params := ps\<rparr>) \<and> length ps = FL_MODEL_MAX_PARAMS"
proof -
  let ?body = "\<lambda>l (n, state). do {
       ld \<leftarrow> rd (md_layers n) l;
       let limit = m_sqrtf lm (f_div (F32 0x40C00000) (f_of_int (int (ly_in ld + ly_out ld))));
       (ps, state) \<leftarrow> for_lt (unat (ly_param_count ld)) (\<lambda>i (ps, state). do {
         let (x, state) = lcg_uniform state (- limit) limit;
         ps \<leftarrow> wr ps (ly_off ld + i) x;
         Some (ps, state) }) (md_params n, state);
       Some (n\<lparr>md_params := ps\<rparr>, state) }"
  let ?P = "\<lambda>s. \<exists>ps. fst s = m\<lparr>md_params := ps\<rparr> \<and> length ps = FL_MODEL_MAX_PARAMS"
  have "\<exists>s. for_lt (unat (md_layer_count m)) ?body (m, seed) = Some s \<and> ?P s"
  proof (rule for_lt_keeps)
    show "?P (m, seed)" using assms(1) by (intro exI [of _ "md_params m"]) simp
    fix l and s :: "FLModel \<times> u32"
    assume l: "l < unat (md_layer_count m)" and "?P s"
    then obtain ps st where s: "s = (m\<lparr>md_params := ps\<rparr>, st)" "length ps = 4096" by (cases s) auto
    let ?ld = "md_layers m ! l"
    let ?lim = "m_sqrtf lm (f_div (F32 0x40C00000) (f_of_int (int (ly_in ?ld + ly_out ?ld))))"
    have "\<exists>r. for_lt (unat (ly_param_count ?ld)) (\<lambda>i (ps, state). do {
         let (x, state) = lcg_uniform state (- ?lim) ?lim;
         ps \<leftarrow> wr ps (ly_off ?ld + i) x;
         Some (ps, state) }) (ps, st) = Some r \<and> length (fst r) = 4096"
      by (rule for_lt_keeps) (use s(2) assms(3) l in \<open>fastforce simp: split_beta\<close>)+
    then show "\<exists>s'. ?body l s = Some s' \<and> ?P s'" using l assms(2) s by (auto simp: Let_def)
  qed
  then show ?thesis by (auto simp: fl_model_init_random_def)
qed

lemma example_net_random:
  assumes "(f, h) = (4, 8) \<or> (f, h) = (8, 16)"
  shows "\<exists>m m'. fl_model_init (Some zero_model) (example_layers f h) 2 = Some (FL_OK, Some m)
    \<and> fl_model_init_random lm m seed = Some m' \<and> net_fits m' \<and> md_total_params m' = of_nat (f * h + h + h * 2 + 2)"
proof -
  have "offsets_ok (example_layers f h) 2"
    unfolding offsets_ok_def all_2 using assms by (auto simp: example_layers_def init_offset_def)
  moreover have "unat (2 :: u8) \<le> FL_MODEL_MAX_LAYERS" "unat (2 :: u8) \<le> length (example_layers f h)"
    by (simp_all add: example_layers_def)
  note fl_model_init_result [OF this, of zero_model]
  ultimately obtain m where m: "fl_model_init (Some zero_model) (example_layers f h) 2 = Some (FL_OK, Some m)"
    "md_layer_count m = 2" "md_layers m = placed_layers (example_layers f h) 2"
    by auto
  obtain m1 where m1: "fl_model_init (Some zero_model) (example_layers f h) 2 = Some (FL_OK, Some m1)" "net_fits m1"
    "md_total_params m1 = of_nat (f * h + h + h * 2 + 2)" using example_net_init [OF assms] by blast
  then have n: "net_fits m" "md_total_params m = of_nat (f * h + h + h * 2 + 2)" using m(1) by simp_all
  have "\<exists>ps. fl_model_init_random lm m seed = Some (m\<lparr>md_params := ps\<rparr>) \<and> length ps = FL_MODEL_MAX_PARAMS"
  proof (rule init_random_total)
    show "length (md_params m) = FL_MODEL_MAX_PARAMS" using n(1) by (simp add: net_fits_def)
    show "unat (md_layer_count m) \<le> length (md_layers m)" by (simp add: m example_layers_placed)
    have "unat (md_layer_count m) = 2" by (simp add: m)
    then show "\<forall>l < unat (md_layer_count m). ly_off (md_layers m ! l) + unat (ly_param_count (md_layers m ! l)) \<le> FL_MODEL_MAX_PARAMS"
      unfolding m(3) example_layers_placed using assms by (auto simp: all_2 example_layers_def)
  qed
  then obtain ps where ps: "fl_model_init_random lm m seed = Some (m\<lparr>md_params := ps\<rparr>)" "length ps = FL_MODEL_MAX_PARAMS" by blast
  have "net_fits (m\<lparr>md_params := ps\<rparr>)" using n(1) ps(2) by (simp add: net_fits_def)
  then show ?thesis using m(1) ps(1) n(2)
    by (intro exI [of _ m] exI [of _ "m\<lparr>md_params := ps\<rparr>"]) simp
qed

end
