(* ===== verification/Demo_Round.thy ===== *)
theory Demo_Round
  imports Herald_Link Network_Start
begin

text \<open>
  The rounds of the demonstration \<^verbatim>\<open>examples/demo/demo.c\<close>: its data, the start of \<^verbatim>\<open>main\<close> and
  one definition for each phase of a round, in the order of the loop body; and the evaluation on the
  held-out samples. The report that \<^verbatim>\<open>main\<close> prints is left out.
\<close>

section \<open>Data\<close>

text \<open>The generator \<^verbatim>\<open>ru\<close>; \<open>0x4B800000\<close> is \<^verbatim>\<open>(float)(1 << 24)\<close>.\<close>

definition ru :: "u32 \<Rightarrow> f32 \<times> u32" where
  "ru g = (let g = g * 1664525 + 1013904223 in (f_div (f_of_int (uint (drop_bit 8 g))) (F32 0x4B800000), g))"

definition rn :: "libm \<Rightarrow> f32 \<Rightarrow> f32 \<Rightarrow> u32 \<Rightarrow> f32 \<times> u32" where
  "rn lm m s g =
     (let (u1, g) = ru g; u1 = u1 + F32 0x33D6BF95; (u2, g) = ru g
      in (m + s * m_sqrtf lm (- F32 0x40000000 * m_logf lm u1) * m_cosf lm (F32 0x40C90FDB * u2), g))"

text \<open>The features of one sample, and the samples one after the other.\<close>

fun rns :: "libm \<Rightarrow> nat \<Rightarrow> f32 \<Rightarrow> u32 \<Rightarrow> f32 list \<times> u32" where
  "rns lm 0 c g = ([], g)"
| "rns lm (Suc n) c g = (let (x, g) = rn lm c (F32 0x3DA3D70A) g; (xs, g) = rns lm n c g in (x # xs, g))"

fun demo_samples :: "libm \<Rightarrow> nat \<Rightarrow> nat \<Rightarrow> u32 \<Rightarrow> demo_sample list" where
  "demo_samples lm 0 i g = []"
| "demo_samples lm (Suc n) i g =
     (let label = int (i mod 2);
          (xs, g) = rns lm 4 (if label \<noteq> 0 then F32 0x3F4CCCCD else F32 0x3E4CCCCD) g
      in \<lparr>ds_x = xs, ds_label = label\<rparr> # demo_samples lm n (Suc i) g)"

definition make_data :: "libm \<Rightarrow> u32 \<Rightarrow> demo_sample list \<times> demo_sample list" where
  "make_data lm g = (let xs = demo_samples lm 120 0 g in (take 80 xs, drop 80 xs))"

section \<open>State\<close>

text \<open>The shard with its radio, and the static variables of the Herald's side. The shard's model is
  \<^verbatim>\<open>g_local\<close>.\<close>

record demo_sys =
  dm_sys :: "demo_env sys"
  dm_global :: FLModel
  dm_pool :: FLFragmentPool
  dm_agg :: FLAggregator
  dm_dense_delta :: "f32 list"  \<comment> \<open>58 floats\<close>
  dm_agg_delta :: "f32 list"  \<comment> \<open>58 floats\<close>

definition demo_cb :: "demo_sample list \<Rightarrow> demo_env data_cb" where
  "demo_cb train e s = (let (b, s, i) = demo_data_cb train (de_sidx e) s in (b, s, e\<lparr>de_sidx := i\<rparr>))"

definition h_push ::
  "FLFrame \<Rightarrow> FLFrameType \<Rightarrow> u8 \<Rightarrow> u8 \<Rightarrow> u8 \<Rightarrow> bytes ptr \<Rightarrow> u8 \<Rightarrow> demo_env \<Rightarrow> demo_env option" where
  "h_push junk t rid fi ft p pl e =
     do { (_, f) \<leftarrow> fl_frame_encode (Some junk) t FL_SHARD_ID_HERALD rid fi ft p pl;
          f \<leftarrow> f;
          q \<leftarrow> q_push_frame (de_h2s e) (frame_bytes f) (of_nat (FL_HEADER_SIZE + unat pl));
          Some (e\<lparr>de_h2s := q\<rparr>) }"

definition zero_BQ :: BQ where
  "zero_BQ = \<lparr>bq_b = replicate Q_SZ 0, bq_h = 0, bq_t = 0\<rparr>"

section \<open>The phases of a round\<close>

definition demo_beacon :: "u8 \<Rightarrow> FLModel \<Rightarrow> FLBeaconPayload" where
  "demo_beacon rid m =
     \<lparr>bp_round_id = rid, bp_window_seconds = 60, bp_model_param_count = md_total_params m, bp_min_shards = 1,
      bp_local_epochs = 3, bp_learning_rate = F32 0x3D4CCCCD, bp_dp_sigma = 0\<rparr>"

definition demo_open ::
  "(demo_env \<Rightarrow> u32 \<times> demo_env) \<Rightarrow> locals \<Rightarrow> u8 \<Rightarrow> demo_sys \<Rightarrow> demo_sys option" where
  "demo_open clock junk rid d =
     (let e = (sy_env (dm_sys d))\<lparr>de_h2s := zero_BQ, de_s2h := zero_BQ\<rparr>; (_, e) = clock e in do {
        e \<leftarrow> h_push (jk_frame junk) FL_FRAME_BEACON rid 0 1 (Some (beacon_bytes (demo_beacon rid (dm_global d)))) 17 e;
        Some (d\<lparr>dm_sys := (dm_sys d)\<lparr>sy_env := e\<rparr>\<rparr>) })"

definition demo_local :: "libm \<Rightarrow> demo_sample list \<Rightarrow> locals \<Rightarrow> demo_sys \<Rightarrow> demo_sys option" where
  "demo_local lm train junk d =
     do { (_, y) \<leftarrow> fl_shard_tick lm (demo_cb train) junk (dm_sys d);
          let y = y\<lparr>sy_env := (sy_env y)\<lparr>de_sidx := 0\<rparr>\<rparr>;
          (_, y) \<leftarrow> fl_shard_tick lm (demo_cb train) junk y;
          Some (d\<lparr>dm_sys := y\<rparr>) }"

partial_function (option) demo_tx_loop :: "libm \<Rightarrow> demo_sample list \<Rightarrow> locals \<Rightarrow> demo_env sys \<Rightarrow> demo_env sys option" where
  "demo_tx_loop lm train junk y =
     (if sh_state (sy_shard y) = FL_SHARD_STATE_TX
      then do { (_, y) \<leftarrow> fl_shard_tick lm (demo_cb train) junk y; demo_tx_loop lm train junk y }
      else Some y)"

definition demo_send_update :: "libm \<Rightarrow> demo_sample list \<Rightarrow> locals \<Rightarrow> demo_sys \<Rightarrow> demo_sys option" where
  "demo_send_update lm train junk d =
     do { (_, y) \<leftarrow> fl_shard_tick lm (demo_cb train) junk (dm_sys d);
          y \<leftarrow> demo_tx_loop lm train junk y;
          Some (d\<lparr>dm_sys := y\<rparr>) }"

text \<open>\<open>rx\<close> is the local buffer before it is written, \<open>now\<close> the time of the \<open>k\<close>-th iteration.\<close>

definition demo_collect :: "locals \<Rightarrow> bytes \<Rightarrow> (nat \<Rightarrow> int) \<Rightarrow> demo_sys \<Rightarrow> demo_sys option" where
  "demo_collect junk rx now d =
     (let y = dm_sys d in do {
        (q, pool) \<leftarrow> demo_drain (jk_frame junk) now 0 (de_s2h (sy_env y)) (fl_pool_init 300) rx;
        Some (d\<lparr>dm_sys := y\<lparr>sy_env := (sy_env y)\<lparr>de_s2h := q\<rparr>\<rparr>, dm_pool := pool\<rparr>) })"

definition demo_aggregate ::
  "((f32 \<Rightarrow> f32 \<Rightarrow> int) \<Rightarrow> f32 list \<Rightarrow> f32 list) \<Rightarrow> demo_sys \<Rightarrow> demo_sys option" where
  "demo_aggregate qs d =
     (let g = dm_global d; n = md_total_params g in do {
        agg \<leftarrow> fl_agg_init (dm_agg d) FL_AGG_FEDAVG (Some (md_params g)) n;
        (agg, dense) \<leftarrow> (case fl_pool_get_complete (dm_pool d) 1 of
            None \<Rightarrow> Some (agg, dm_dense_delta d)
          | Some sb \<Rightarrow> do {
              dense \<leftarrow> fl_sparse_decode sb (dm_dense_delta d) n False;
              agg \<leftarrow> fl_agg_add agg dense n 80;
              Some (agg, dense) });
        delta \<leftarrow> fl_agg_finalize qs agg (dm_agg_delta d);
        g \<leftarrow> fl_model_apply_delta g delta n;
        Some (d\<lparr>dm_agg := agg, dm_dense_delta := dense, dm_agg_delta := delta, dm_global := g\<rparr>) })"

definition demo_ack :: "libm \<Rightarrow> demo_sample list \<Rightarrow> locals \<Rightarrow> u8 \<Rightarrow> demo_sys \<Rightarrow> demo_sys option" where
  "demo_ack lm train junk rid d =
     do { e \<leftarrow> h_push (jk_frame junk) FL_FRAME_ACK rid 0 1 None 0 (sy_env (dm_sys d));
          (_, y) \<leftarrow> fl_shard_tick lm (demo_cb train) junk ((dm_sys d)\<lparr>sy_env := e\<rparr>);
          Some (d\<lparr>dm_sys := y\<rparr>) }"

definition demo_topk :: "FLModel \<Rightarrow> u16" where
  "demo_topk m = (let topk = md_total_params m div 4 in if topk < 1 then 1 else topk)"

definition demo_delta_frag :: "locals \<Rightarrow> u8 \<Rightarrow> FLSparseBuffer \<Rightarrow> u8 \<Rightarrow> u8 \<Rightarrow> demo_env \<Rightarrow> demo_env option" where
  "demo_delta_frag junk rid dsb ft f e =
     do { (pl, pn) \<leftarrow> (if 0 < sb_count dsb then do {
              (_, pl, pn) \<leftarrow> fl_sparse_write_fragment (jk_payload junk) 0 dsb f;
              Some (pl, pn) }
            else Some (jk_payload junk, 0));
          h_push (jk_frame junk) FL_FRAME_DELTA rid f ft (Some pl) pn e }"

definition demo_send_delta :: "locals \<Rightarrow> u8 \<Rightarrow> demo_sys \<Rightarrow> demo_sys option" where
  "demo_send_delta junk rid d =
     (let g = dm_global d in do {
        (_, _, dsb) \<leftarrow> fl_sparse_encode (dm_agg_delta d) (md_total_params g) (demo_topk g) None zero_sparse;
        let ft = fl_sparse_fragment_count dsb;
        let ft = (if ft = 0 then 1 else ft);
        e \<leftarrow> for_lt (unat ft) (\<lambda>f e. demo_delta_frag junk rid dsb ft (of_nat f) e) (sy_env (dm_sys d));
        Some (d\<lparr>dm_sys := (dm_sys d)\<lparr>sy_env := e\<rparr>\<rparr>) })"

text \<open>The loop with its counter \<^verbatim>\<open>safety\<close>, here the iterations left.\<close>

fun demo_rx_loop :: "locals \<Rightarrow> bytes \<Rightarrow> nat \<Rightarrow> demo_env sys \<Rightarrow> demo_env sys option" where
  "demo_rx_loop junk rx 0 y = Some y"
| "demo_rx_loop junk rx (Suc k) y =
     (if sh_state (sy_shard y) = FL_SHARD_STATE_RECV_DELTA then do {
        (got, q, buf, rn) \<leftarrow> q_pop (de_h2s (sy_env y)) rx;
        let y = y\<lparr>sy_env := (sy_env y)\<lparr>de_h2s := q\<rparr>\<rparr>;
        if got = 0 \<or> rn = 0 then Some y
        else do { y \<leftarrow> fl_shard_on_rx junk buf (unat rn) y; demo_rx_loop junk rx k y } }
      else Some y)"

definition demo_recv_delta :: "locals \<Rightarrow> bytes \<Rightarrow> demo_sys \<Rightarrow> demo_sys option" where
  "demo_recv_delta junk rx d = do { y \<leftarrow> demo_rx_loop junk rx 64 (dm_sys d); Some (d\<lparr>dm_sys := y\<rparr>) }"

definition demo_close ::
  "(demo_env \<Rightarrow> u32 \<times> demo_env) \<Rightarrow> locals \<Rightarrow> u8 \<Rightarrow> demo_sys \<Rightarrow> demo_sys option" where
  "demo_close clock junk rid d =
     (let y = dm_sys d in do {
        e \<leftarrow> h_push (jk_frame junk) FL_FRAME_ROUND_CLOSE rid 0 1
          (Some (round_close_bytes \<lparr>rcp_round_id = rid, rcp_shards_aggregated = 1, rcp_next_round_in_sec = 0\<rparr>)) 6 (sy_env y);
        let (_, e) = clock e;
        Some (d\<lparr>dm_sys := y\<lparr>sy_shard := (sy_shard y)\<lparr>sh_state := FL_SHARD_STATE_IDLE\<rparr>, sy_env := e\<rparr>\<rparr>) })"

section \<open>The evaluation\<close>

text \<open>On the held-out samples: how many of the 40 are classified rightly, with the static buffers
  \<^verbatim>\<open>out\<close> and \<^verbatim>\<open>inter\<close>; the accuracy in percent; and the mean cross-entropy with the
  softmax of the two outputs. \<open>0x42C80000\<close> is \<^verbatim>\<open>100.f\<close>.\<close>

definition demo_predict ::
  "libm \<Rightarrow> FLModel \<Rightarrow> demo_sample \<Rightarrow> f32 list \<times> f32 list \<Rightarrow> (f32 \<times> f32 \<times> f32 list \<times> f32 list) option" where
  "demo_predict lm m t = (\<lambda>(out, inter). do {
     (out, inter) \<leftarrow> fl_model_forward lm m (ds_x t) out inter;
     o0 \<leftarrow> rd out 0; o1 \<leftarrow> rd out 1;
     Some (o0, o1, out, inter) })"

definition demo_percent :: "int \<Rightarrow> f32" where
  "demo_percent c = f_div (F32 0x42C80000 * f_of_int c) (f_of_int 40)"

definition demo_acc ::
  "libm \<Rightarrow> demo_sample list \<Rightarrow> FLModel \<Rightarrow> f32 list \<times> f32 list \<Rightarrow> (f32 \<times> f32 list \<times> f32 list) option" where
  "demo_acc lm test m bufs =
     do { (c, bufs) \<leftarrow> for_lt 40 (\<lambda>i (c, bufs). do {
            t \<leftarrow> rd test i;
            (o0, o1, bufs) \<leftarrow> demo_predict lm m t bufs;
            Some (if (if o0 < o1 then 1 else 0) = ds_label t then c + 1 else c, bufs) }) (0, bufs);
          Some (demo_percent c, bufs) }"

definition demo_eval ::
  "libm \<Rightarrow> demo_sample list \<Rightarrow> FLModel \<Rightarrow> f32 list \<times> f32 list \<Rightarrow> (f32 \<times> f32 \<times> f32 list \<times> f32 list) option" where
  "demo_eval lm test m bufs =
     do { (c, loss, bufs) \<leftarrow> for_lt 40 (\<lambda>i (c, loss, bufs). do {
            t \<leftarrow> rd test i;
            (o0, o1, bufs) \<leftarrow> demo_predict lm m t bufs;
            let mx = (if o1 < o0 then o0 else o1);
            let e0 = m_expf lm (o0 - mx); let e1 = m_expf lm (o1 - mx); let s = e0 + e1;
            let p0 = f_div e0 s; let p1 = f_div e1 s;
            let loss = loss + - m_logf lm ((if ds_label t = 0 then p0 else p1) + F32 0x3089705F);
            Some (if (if p0 < p1 then 1 else 0) = ds_label t then c + 1 else c, loss, bufs) }) (0, 0, bufs);
          Some (demo_percent c, f_div loss (f_of_int 40), bufs) }"

section \<open>The program\<close>

record demo_world =
  dw_clock :: "demo_env \<Rightarrow> u32 \<times> demo_env"
  dw_now :: "nat \<Rightarrow> int"
  dw_qsort :: "(f32 \<Rightarrow> f32 \<Rightarrow> int) \<Rightarrow> f32 list \<Rightarrow> f32 list"
  dw_libm :: libm
  dw_train :: "demo_sample list"
  dw_locals :: locals
  dw_rx :: bytes

definition demo_train_phase :: "demo_world \<Rightarrow> u8 \<Rightarrow> demo_sys \<Rightarrow> demo_sys option" where
  "demo_train_phase W rid d =
     do { d \<leftarrow> demo_open (dw_clock W) (dw_locals W) rid d;
          demo_local (dw_libm W) (dw_train W) (dw_locals W) d }"

definition demo_uplink :: "demo_world \<Rightarrow> demo_sys \<Rightarrow> demo_sys option" where
  "demo_uplink W d =
     do { d \<leftarrow> demo_send_update (dw_libm W) (dw_train W) (dw_locals W) d;
          d \<leftarrow> demo_collect (dw_locals W) (dw_rx W) (dw_now W) d;
          demo_aggregate (dw_qsort W) d }"

definition demo_downlink :: "demo_world \<Rightarrow> u8 \<Rightarrow> demo_sys \<Rightarrow> demo_sys option" where
  "demo_downlink W rid d =
     do { d \<leftarrow> demo_ack (dw_libm W) (dw_train W) (dw_locals W) rid d;
          d \<leftarrow> demo_send_delta (dw_locals W) rid d;
          d \<leftarrow> demo_recv_delta (dw_locals W) (dw_rx W) d;
          demo_close (dw_clock W) (dw_locals W) rid d }"

definition demo_round :: "demo_world \<Rightarrow> u8 \<Rightarrow> demo_sys \<Rightarrow> demo_sys option" where
  "demo_round W rid d = do { d \<leftarrow> demo_train_phase W rid d; d \<leftarrow> demo_uplink W d; demo_downlink W rid d }"

text \<open>What precedes the loop, from zeroed static memory; \<open>junk\<close> is the buffer of \<^verbatim>\<open>fl_shard_init\<close>.\<close>

definition demo_start :: "demo_world \<Rightarrow> bytes \<Rightarrow> demo_sys option" where
  "demo_start W junk =
     do { (_, g) \<leftarrow> fl_model_init (Some zero_model) demo_layers 2;
          g \<leftarrow> g;
          g \<leftarrow> fl_model_init_random (dw_libm W) g 0xABCD;
          let e = \<lparr>de_h2s = zero_BQ, de_s2h = zero_BQ, de_sidx = 0\<rparr>;
          (_, s, e) \<leftarrow> fl_shard_init junk (Some (zero_shard (demo_hal (dw_clock W)) 0 zero_model)) (Some (demo_hal (dw_clock W)))
            1 (Some g) e;
          s \<leftarrow> s;
          Some \<lparr>dm_sys = \<lparr>sy_shard = s, sy_train = fresh_training, sy_env = e\<rparr>, dm_global = g,
            dm_pool = fl_pool_init 0, dm_agg = agg_blank, dm_dense_delta = replicate 58 0, dm_agg_delta = replicate 58 0\<rparr> }"

definition demo_rounds :: "demo_world \<Rightarrow> demo_sys \<Rightarrow> demo_sys option" where
  "demo_rounds W d = for_lt 6 (\<lambda>rid d. demo_round W (of_nat rid) d) d"

end
