(* ===== verification/Delta_Link.thy ===== *)
theory Delta_Link
  imports Herald_Link
begin

text \<open>
  The way back over the radio link: the frames of an aggregated delta, what a shard makes of them,
  and what it makes of a delta whose first frame is lost.
\<close>

section \<open>Frames through the queue\<close>

abbreviation herald_wire :: "FLFrameType \<Rightarrow> u8 \<Rightarrow> u8 \<Rightarrow> u8 \<Rightarrow> bytes \<Rightarrow> bytes" where
  "herald_wire t rid fi ft data \<equiv> wire_of (encoded_frame t FL_SHARD_ID_HERALD rid fi ft data) (length data)"

lemma length_herald_wire: "length data \<le> 214 \<Longrightarrow> length (wire_of (encoded_frame t sid rid fi ft data) (length data)) = 10 + length data"
  by (simp add: wire_of_def)

lemma pop_frame:
  assumes q: "q_holds q (enc_frames (wire_of (encoded_frame t sid rid fi ft data) (length data) # fs))"
    and data: "length data \<le> 214" and rx: "length rx = 224" and junk: "wf_frame junk"
  shows "\<exists>q' b g. q_pop q rx = Some (1, q', b, of_nat (10 + length data)) \<and> q_holds q' (enc_frames fs) \<and> length b = 224
    \<and> fl_frame_decode (Some b) (10 + length data) (Some junk) = Some (FL_OK, Some g) \<and> wf_frame g
    \<and> frame_head g = frame_head (encoded_frame t sid rid fi ft data) \<and> take (length data) (fr_payload g) = data"
proof -
  let ?w = "wire_of (encoded_frame t sid rid fi ft data) (length data)"
  have l: "length ?w = 10 + length data" by (rule length_herald_wire [OF data])
  have lt: "length ?w < 256" "length ?w \<le> length rx" using l data rx by linarith+
  obtain q' where q': "q_pop q rx = Some (1, q', ?w @ drop (length ?w) rx, of_nat (length ?w))" "q_holds q' (enc_frames fs)"
    using q_pop_holds [OF q lt] by blast
  let ?b = "?w @ drop (length ?w) rx"
  have b: "length ?b = 224" "take (10 + length data) ?b = ?w" using lt(2) rx l by simp_all
  have "10 + length data \<le> length ?b" using lt(2) rx l b(1) by linarith
  from decode_encoded [OF data this junk b(2)] show ?thesis using q' b(1) unfolding l by blast
qed

lemma unat_ucast_byte: "n < 256 \<Longrightarrow> unat (ucast (of_nat n :: u32) :: u8) = n"
  by (simp add: unsigned_ucast_eq unsigned_of_nat take_bit_nat_eq_self)

lemma recv_frame:
  assumes hal: "sh_hal (sy_shard y) = demo_hal clock" and rx: "length (sh_rx_buf (sy_shard y)) = 224"
    and q: "q_holds (de_h2s (sy_env y)) (enc_frames (wire_of (encoded_frame t sid rid fi ft data) (length data) # fs))"
    and data: "length data \<le> 214" and junk: "wf_frame (jk_frame junk)"
  shows "\<exists>q' b g. q_holds q' (enc_frames fs) \<and> length b = 224
    \<and> fl_frame_decode (Some b) (10 + length data) (Some (jk_frame junk)) = Some (FL_OK, Some g) \<and> wf_frame g
    \<and> frame_head g = frame_head (encoded_frame t sid rid fi ft data) \<and> take (length data) (fr_payload g) = data
    \<and> recv_and_handle junk to y = fl_shard_on_rx junk b (10 + length data)
        (y\<lparr>sy_shard := (sy_shard y)\<lparr>sh_rx_buf := b\<rparr>, sy_env := (sy_env y)\<lparr>de_h2s := q'\<rparr>\<rparr>)"
proof -
  obtain q' b g where p: "q_pop (de_h2s (sy_env y)) (sh_rx_buf (sy_shard y)) = Some (1, q', b, of_nat (10 + length data))"
    "q_holds q' (enc_frames fs)" "length b = 224"
    "fl_frame_decode (Some b) (10 + length data) (Some (jk_frame junk)) = Some (FL_OK, Some g)" "wf_frame g"
    "frame_head g = frame_head (encoded_frame t sid rid fi ft data)" "take (length data) (fr_payload g) = data"
    using pop_frame [OF q data rx junk] by blast
  have u: "unat (ucast (of_nat (10 + length data) :: u32) :: u8) = 10 + length data"
    by (rule unat_ucast_byte) (use data in linarith)
  then have "(ucast (of_nat (10 + length data) :: u32) :: u8) \<noteq> 0" by (metis add_is_0 unat_0 zero_neq_numeral)
  then have "recv_and_handle junk to y = fl_shard_on_rx junk b (10 + length data)
        (y\<lparr>sy_shard := (sy_shard y)\<lparr>sh_rx_buf := b\<rparr>, sy_env := (sy_env y)\<lparr>de_h2s := q'\<rparr>\<rparr>)"
    using p(1) u by (simp add: recv_and_handle_def hal demo_hal_def demo_recv_def word_gt_0)
  then show ?thesis using p by blast
qed

lemma head_fields:
  assumes "frame_head g = frame_head (encoded_frame t sid rid fi ft data)"
  shows "frame_type_of (fr_type g) = Some t" "fr_frag_index g = fi" "fr_frag_total g = ft"
proof -
  have "fr_type g = type_code t" using assms by (simp add: frame_head_def)
  then show "frame_type_of (fr_type g) = Some t" by (simp only: frame_type_of_code)
qed (use assms in \<open>simp_all add: frame_head_def\<close>)

lemma demo_quiet [simp]: "sh_hal s = demo_hal clock \<Longrightarrow> shard_log s msg e = e"
  by (simp add: shard_log_def hal_print_def demo_hal_def)

text \<open>A tick that finds a beacon, and one that finds the close of a round.\<close>

lemma beacon_tick:
  assumes s: "length (sh_rx_buf (sy_shard y)) = 224" "sh_hal (sy_shard y) = demo_hal clock" "sys_state y = FL_SHARD_STATE_IDLE"
      "cc_encrypt_enabled (sh_crypto (sy_shard y)) = 0" and junk: "wf_frame (jk_frame junk)"
    and q: "q_holds (de_h2s (sy_env y)) (enc_frames (herald_wire FL_FRAME_BEACON rid 0 1 (beacon_bytes b) # fs))"
  shows "\<exists>q' x. q_holds q' (enc_frames fs) \<and> length x = 224
    \<and> fl_shard_tick lm cb junk y = Some (FL_SHARD_STATE_TRAINING,
      y\<lparr>sy_shard := (sy_shard y)\<lparr>sh_rx_buf := x, sh_beacon := b, sh_current_round := bp_round_id b, sh_state := FL_SHARD_STATE_TRAINING\<rparr>,
        sy_env := (sy_env y)\<lparr>de_h2s := q'\<rparr>\<rparr>)"
proof -
  have l: "length (beacon_bytes b) \<le> 214" by simp
  obtain q' x g where r: "q_holds q' (enc_frames fs)" "length x = 224"
    "fl_frame_decode (Some x) (10 + length (beacon_bytes b)) (Some (jk_frame junk)) = Some (FL_OK, Some g)"
    "frame_head g = frame_head (encoded_frame FL_FRAME_BEACON FL_SHARD_ID_HERALD rid 0 1 (beacon_bytes b))"
    "take (length (beacon_bytes b)) (fr_payload g) = beacon_bytes b"
    "recv_and_handle junk 500 y = fl_shard_on_rx junk x (10 + length (beacon_bytes b))
        (y\<lparr>sy_shard := (sy_shard y)\<lparr>sh_rx_buf := x\<rparr>, sy_env := (sy_env y)\<lparr>de_h2s := q'\<rparr>\<rparr>)"
    using recv_frame [OF s(2,1) q l junk, of 500] by blast
  have "fr_payload g = beacon_bytes b @ drop (length (beacon_bytes b)) (fr_payload g)" by (metis append_take_drop_id r(5))
  then have "rd_beacon (fr_payload g) = Some b" using rd_beacon_bytes by metis
  then have "recv_and_handle junk 500 y = Some (y\<lparr>sy_shard := (sy_shard y)\<lparr>sh_rx_buf := x, sh_beacon := b, sh_current_round := bp_round_id b, sh_state := FL_SHARD_STATE_TRAINING\<rparr>,
        sy_env := (sy_env y)\<lparr>de_h2s := q'\<rparr>\<rparr>)"
    using r(3,6) head_fields(1) [OF r(4)] s(2) by (simp add: fl_shard_on_rx_def on_beacon_def Let_def)
  then show ?thesis using r(1,2) s(3,4) by (intro exI [of _ q'] exI [of _ x]) (simp add: fl_shard_tick_def tick_idle_def Let_def)
qed

lemma round_close_tick:
  assumes s: "length (sh_rx_buf (sy_shard y)) = 224" "sh_hal (sy_shard y) = demo_hal clock"
      "sys_state y = FL_SHARD_STATE_IDLE \<or> sys_state y = FL_SHARD_STATE_RECV_DELTA"
      "cc_encrypt_enabled (sh_crypto (sy_shard y)) = 0" and junk: "wf_frame (jk_frame junk)"
    and q: "q_holds (de_h2s (sy_env y)) (enc_frames (herald_wire FL_FRAME_ROUND_CLOSE rid 0 1 (round_close_bytes r) # fs))"
  shows "\<exists>q' x. q_holds q' (enc_frames fs) \<and> length x = 224
    \<and> fl_shard_tick lm cb junk y = Some (FL_SHARD_STATE_IDLE,
      y\<lparr>sy_shard := (sy_shard y)\<lparr>sh_rx_buf := x, sh_state := FL_SHARD_STATE_IDLE\<rparr>, sy_env := (sy_env y)\<lparr>de_h2s := q'\<rparr>\<rparr>)"
proof -
  have l: "length (round_close_bytes r) \<le> 214" by simp
  let ?t = "if sys_state y = FL_SHARD_STATE_IDLE then 500 else FL_SHARD_RECV_TIMEOUT_MS"
  obtain q' x g where g: "q_holds q' (enc_frames fs)" "length x = 224"
    "fl_frame_decode (Some x) (10 + length (round_close_bytes r)) (Some (jk_frame junk)) = Some (FL_OK, Some g)"
    "frame_head g = frame_head (encoded_frame FL_FRAME_ROUND_CLOSE FL_SHARD_ID_HERALD rid 0 1 (round_close_bytes r))"
    "take (length (round_close_bytes r)) (fr_payload g) = round_close_bytes r"
    "recv_and_handle junk ?t y = fl_shard_on_rx junk x (10 + length (round_close_bytes r))
        (y\<lparr>sy_shard := (sy_shard y)\<lparr>sh_rx_buf := x\<rparr>, sy_env := (sy_env y)\<lparr>de_h2s := q'\<rparr>\<rparr>)"
    using recv_frame [OF s(2,1) q l junk, of ?t] by blast
  have "fr_payload g = round_close_bytes r @ drop (length (round_close_bytes r)) (fr_payload g)" by (metis append_take_drop_id g(5))
  then have "rd_round_close (fr_payload g) = Some r" using rd_round_close_bytes by metis
  then have "recv_and_handle junk ?t y = Some (y\<lparr>sy_shard := (sy_shard y)\<lparr>sh_rx_buf := x, sh_state := FL_SHARD_STATE_IDLE\<rparr>,
      sy_env := (sy_env y)\<lparr>de_h2s := q'\<rparr>\<rparr>)"
    using g(3,6) head_fields(1) [OF g(4)] s(2) by (simp add: fl_shard_on_rx_def on_round_close_def Let_def)
  then show ?thesis using g(1,2) s(3,4)
    by (intro exI [of _ q'] exI [of _ x]) (auto simp: fl_shard_tick_def tick_idle_def Let_def)
qed

section \<open>The values a receiver gets\<close>

lemma sparse_entries_distinct:
  assumes "distinct ks" "set ks \<subseteq> {..<unat (n :: u16)}"
  shows "distinct (map ge_param_index (map (sparse_entry eff) ks))"
    "i < unat n \<Longrightarrow> of_nat i \<in> ge_param_index ` set (map (sparse_entry eff) ks) \<longleftrightarrow> i \<in> set ks"
proof -
  have ks: "k < unat n" if "k \<in> set ks" for k using that assms(2) by auto
  have k16: "unat (of_nat k :: u16) = k" if "k < unat n" for k
    by (rule unat_of_nat_u16) (use that unat_u16_less [of n] in linarith)
  have "inj_on (of_nat :: nat \<Rightarrow> u16) (set ks)" by (rule inj_onI) (metis ks k16)
  then show "distinct (map ge_param_index (map (sparse_entry eff) ks))"
    using assms by (simp add: sparse_entry_def distinct_map comp_def)
  show "i < unat n \<Longrightarrow> of_nat i \<in> ge_param_index ` set (map (sparse_entry eff) ks) \<longleftrightarrow> i \<in> set ks"
    using k16 ks by (auto simp: sparse_entry_def image_iff) (metis k16)
qed

text \<open>The value a receiver gets for a parameter.\<close>

definition sent_value :: "f32 list \<Rightarrow> nat list \<Rightarrow> nat \<Rightarrow> int" where
  "sent_value eff ks i = (if i \<in> set ks then q8_value (f_ord (eff ! i)) * 2 ^ 142 else 0)"

lemma decode_sent:
  assumes "wf_sparse b" "sb_list b = map (sparse_entry eff) ks" "distinct ks" "set ks \<subseteq> {..<unat n}" "unat n \<le> length dense"
  shows "\<exists>g. fl_sparse_decode b dense n False = Some g \<and> length g = length dense
    \<and> (\<forall>i < unat n. f_ord (g ! i) = sent_value eff ks i)"
proof -
  obtain g where g: "fl_sparse_decode b dense n False = Some g" "length g = length dense"
    "\<forall>i < unat n. of_nat i \<notin> ge_param_index ` set (sb_list b) \<longrightarrow> g ! i = 0"
    "\<forall>e \<in> set (sb_list b). ge_param_index e < n \<longrightarrow> f_ord (g ! unat (ge_param_index e)) = sint (ge_delta_q8 e) * 2 ^ 142"
    using sparse_decode_distinct [OF assms(1,5)] sparse_entries_distinct(1) [OF assms(3,4)] assms(2) by auto
  have "f_ord (g ! i) = sent_value eff ks i" if i: "i < unat n" for i
  proof (cases "i \<in> set ks")
    case True
    have u: "unat (of_nat i :: u16) = i" by (rule unat_of_nat_u16) (use i unat_u16_less [of n] in linarith)
    have "sint (of_int (q8_value (f_ord (eff ! i))) :: i8) = q8_value (f_ord (eff ! i))"
      by (rule sint_of_int_i8) (rule q8_value_range)+
    moreover have "of_nat i < n" using u i by (simp add: word_less_nat_alt)
    moreover have "sparse_entry eff i \<in> set (sb_list b)" using True by (simp add: assms(2))
    ultimately show ?thesis using g(4) u True by (fastforce simp: sparse_entry_def sent_value_def)
  next
    case False
    then have "of_nat i \<notin> ge_param_index ` set (sb_list b)"
      using sparse_entries_distinct(2) [OF assms(3,4) i] by (simp only: assms(2)) simp
    then have "g ! i = 0" using g(3) i by blast
    then show ?thesis using False f_ord_eq_0_iff by (simp add: sent_value_def)
  qed
  then show ?thesis using g(1,2) by blast
qed

lemma model_apply_delta_eq:
  assumes "unat (md_total_params m) \<le> length (md_params m)" "unat (md_total_params m) \<le> length d"
  shows "fl_model_apply_delta m d (md_total_params m)
    = Some (m\<lparr>md_params := map_prefix (unat (md_total_params m)) (\<lambda>i p. p + d ! i) (md_params m)\<rparr>)"
proof -
  have "for_lt (unat (md_total_params m)) (\<lambda>i ps. do { p \<leftarrow> rd ps i; x \<leftarrow> rd d i; wr ps i (p + x) }) (md_params m)
      = Some (map_prefix (unat (md_total_params m)) (\<lambda>i p. p + d ! i) (md_params m))"
    by (rule for_lt_map) (use assms in simp_all)
  then show ?thesis by (simp add: fl_model_apply_delta_def)
qed

lemma apply_delta_value:
  assumes junk: "wf_locals junk" and s: "wf_shard (sy_shard y)" "sh_hal (sy_shard y) = demo_hal clock"
    and b: "sb_list (sh_delta_buf (sy_shard y)) = map (sparse_entry eff) ks" "distinct ks"
      "set ks \<subseteq> {..<unat (md_total_params (sh_model (sy_shard y)))}"
  shows "\<exists>v ps. apply_delta junk y = Some (y\<lparr>sy_shard := (sy_shard y)\<lparr>sh_model := (sh_model (sy_shard y))\<lparr>md_params := ps\<rparr>,
        sh_state := FL_SHARD_STATE_IDLE\<rparr>\<rparr>) \<and> length ps = FL_MODEL_MAX_PARAMS
    \<and> (\<forall>i < unat (md_total_params (sh_model (sy_shard y))).
        f_ord (v ! i) = sent_value eff ks i \<and> ps ! i = md_params (sh_model (sy_shard y)) ! i + v ! i)"
proof -
  let ?m = "sh_model (sy_shard y)"
  let ?n = "md_total_params ?m"
  have m: "length (md_params ?m) = 4096" "unat ?n \<le> 4096" "wf_sparse (sh_delta_buf (sy_shard y))"
    using s(1) by (simp_all add: wf_shard_def)
  have j: "length (jk_floats junk) = 4096" "length (jk_bytes junk) = 16384" using junk by (simp_all add: wf_locals_def)
  obtain v where v: "fl_sparse_decode (sh_delta_buf (sy_shard y)) (jk_floats junk) ?n False = Some v" "length v = 4096"
    "\<forall>i < unat ?n. f_ord (v ! i) = sent_value eff ks i"
    using decode_sent [OF m(3) b, of "jk_floats junk"] j(1) m(2) by auto
  let ?ps = "map_prefix (unat ?n) (\<lambda>i p. p + v ! i) (md_params ?m)"
  have a: "fl_model_apply_delta ?m v ?n = Some (?m\<lparr>md_params := ?ps\<rparr>)"
    using model_apply_delta_eq [of ?m v] m v(2) by simp
  obtain buf where "fl_model_save (?m\<lparr>md_params := ?ps\<rparr>) (jk_bytes junk) (unat ?n * 4) = Some buf"
    using model_save_defined [of "?m\<lparr>md_params := ?ps\<rparr>" "jk_bytes junk"] m j(2) by auto
  then have "apply_delta junk y = Some (y\<lparr>sy_shard := (sy_shard y)\<lparr>sh_model := ?m\<lparr>md_params := ?ps\<rparr>,
        sh_state := FL_SHARD_STATE_IDLE\<rparr>\<rparr>)"
    using v(1) a m s(2) by (simp add: apply_delta_def Let_def) (simp add: demo_hal_def)
  then show ?thesis using v(3) m(1,2) by (intro exI [of _ v] exI [of _ ?ps]) simp
qed

section \<open>The frames of a delta\<close>

definition delta_wire :: "u8 \<Rightarrow> FLSparseBuffer \<Rightarrow> nat \<Rightarrow> bytes" where
  "delta_wire rid buf i = herald_wire FL_FRAME_DELTA rid (of_nat i) (fl_sparse_fragment_count buf)
     (concat (map entry_bytes (frag_entries buf i)))"

lemma length_frag_bytes: "length (concat (map entry_bytes (frag_entries buf i))) \<le> 213"
  using length_frag_entries [of buf i] length_entries [of "frag_entries buf i"] by linarith

lemma length_delta_wire: "length (delta_wire rid buf i) \<le> 223"
  unfolding delta_wire_def
  by (subst length_herald_wire) (use length_frag_bytes [of buf i] in linarith)+

lemma length_delta_wires: "length (enc_frames (map (delta_wire rid buf) [0..<i])) \<le> 224 * i"
proof (induction i)
  case (Suc i)
  then show ?case using length_delta_wire [of rid buf i] by simp
qed simp

text \<open>A frame that the Herald writes to its serial port is appended to the queue.\<close>

lemma queue_serial_frame:
  assumes le: "length data \<le> 214" and q: "q_holds (de_h2s (gw_link w)) (enc_frames fs)" "length (enc_frames fs) \<le> 65000"
  shows "\<exists>q'. q_holds q' (enc_frames (fs @ [herald_wire t rid fi ft data]))
    \<and> (\<forall>b fd. 10 + length data \<le> length b
        \<longrightarrow> take (10 + length data) b = take (10 + length data) (frame_bytes (encoded_frame t FL_SHARD_ID_HERALD rid fi ft data))
        \<longrightarrow> serial_write queue_posix fd b (10 + length data) w = Some (0, w\<lparr>gw_link := (gw_link w)\<lparr>de_h2s := q'\<rparr>\<rparr>))"
proof -
  let ?w = "herald_wire t rid fi ft data"
  have lw: "length ?w = 10 + length data" by (rule length_herald_wire [OF le])
  have u: "unat (of_nat (length ?w) :: u8) = length ?w" by (rule unat_of_nat_u8) (use lw le in linarith)
  obtain q' where q': "q_push_frame (de_h2s (gw_link w)) ?w (of_nat (length ?w)) = Some q'" "q_holds q' (enc_frames (fs @ [?w]))"
    using q_push_frame_holds [OF q(1), of "of_nat (length ?w)" ?w] q(2) lw le unfolding u take_all [OF order_refl] by auto
  have wr: "queue_write ?w w = (int (length ?w), w\<lparr>gw_link := (gw_link w)\<lparr>de_h2s := q'\<rparr>\<rparr>)"
    using q'(1) by (simp only: queue_write_def option.case)
  have tk: "take (10 + length data) (frame_bytes (encoded_frame t FL_SHARD_ID_HERALD rid fi ft data)) = ?w"
    by (simp add: wire_of_def)
  have "serial_write queue_posix fd b (10 + length data) w = Some (0, w\<lparr>gw_link := (gw_link w)\<lparr>de_h2s := q'\<rparr>\<rparr>)"
    if "10 + length data \<le> length b" "take (10 + length data) b = ?w" for b fd
  proof -
    have "rd_slice b 0 (10 + length data) = Some ?w" using that by simp
    then show ?thesis using wr lw by (simp only: serial_write_def queue_posix_simps Option.bind.simps Let_def split_conv refl if_True)
  qed
  then show ?thesis using q'(2) unfolding tk by blast
qed

lemma send_delta_frag_queue:
  assumes wf: "wf_sparse buf" and i: "i < frag_total buf" and junk: "length (hj_payload junk) = FL_PAYLOAD_MAX"
    and q: "q_holds (de_h2s (gw_link w)) (enc_frames fs)" "length (enc_frames fs) \<le> 65000"
  shows "\<exists>q'. send_delta_frag queue_posix junk h buf (fl_sparse_fragment_count buf) (of_nat i) (errors :: int, w)
      = Some (errors, w\<lparr>gw_link := (gw_link w)\<lparr>de_h2s := q'\<rparr>\<rparr>)
    \<and> q_holds q' (enc_frames (fs @ [delta_wire (he_current_round h) buf i]))"
proof -
  let ?es = "frag_entries buf i" and ?ft = "fl_sparse_fragment_count buf"
  let ?d = "concat (map entry_bytes ?es)"
  let ?f = "encoded_frame FL_FRAME_DELTA FL_SHARD_ID_HERALD (he_current_round h) (of_nat i) ?ft ?d"
  have u: "unat (of_nat i :: u8) = i" by (rule unat_of_nat_u8) (use i frag_total_bound [OF wf] in linarith)
  obtain rest where w: "fl_sparse_write_fragment (hj_payload junk) 0 buf (of_nat i)
      = Some (0, ?d @ rest, of_nat (3 * length ?es))" "length ?es \<le> 71"
    using fl_sparse_write_fragment_eq [OF wf, of "of_nat i" "hj_payload junk" 0] i junk by (auto simp: u)
  have l: "length ?d = 3 * length ?es" by (rule length_entries)
  have le: "length ?d \<le> 214" using length_frag_bytes [of buf i] by linarith
  have n: "unat (of_nat (3 * length ?es) :: u8) = length ?d" unfolding l by (rule unat_of_nat_u8) (use w(2) in linarith)
  have enc: "fl_frame_encode (Some (hj_frame junk)) FL_FRAME_DELTA FL_SHARD_ID_HERALD (he_current_round h) (of_nat i)
      ?ft (Some (?d @ rest)) (of_nat (3 * length ?es)) = Some (FL_OK, Some ?f)"
    by (subst fl_frame_encode_eq; simp only: n) (use le in simp_all)
  have fits: "10 + length ?d \<le> length (frame_bytes ?f)" unfolding length_encoded_bytes [OF le] using le by linarith
  obtain q' where q': "q_holds q' (enc_frames (fs @ [delta_wire (he_current_round h) buf i]))"
    and sw: "serial_write queue_posix (he_serial_fd h) (frame_bytes ?f) (10 + length ?d) w
      = Some (0, w\<lparr>gw_link := (gw_link w)\<lparr>de_h2s := q'\<rparr>\<rparr>)"
    using queue_serial_frame [OF le q, of FL_FRAME_DELTA "he_current_round h" "of_nat i" ?ft]
    unfolding delta_wire_def by (metis fits)
  have "send_delta_frag queue_posix junk h buf ?ft (of_nat i) (errors, w) = Some (errors, w\<lparr>gw_link := (gw_link w)\<lparr>de_h2s := q'\<rparr>\<rparr>)"
    using w(1) enc sw n by (simp add: send_delta_frag_def del: length_concat)
  then show ?thesis using q' by blast
qed

lemma send_delta_frames:
  assumes d: "unat n \<le> FL_MODEL_MAX_PARAMS" "unat n \<le> length d" "\<forall>i < unat n. \<not> f_nan (d ! i)"
    and h: "hc_model_param_count (he_config h) = n" and junk: "length (hj_payload junk) = FL_PAYLOAD_MAX"
    and q: "q_holds (de_h2s (gw_link w)) (enc_frames [])"
  shows "\<exists>ks buf q'. fl_herald_send_delta queue_posix junk h d k w = Some (FL_OK, w\<lparr>gw_link := (gw_link w)\<lparr>de_h2s := q'\<rparr>\<rparr>)
    \<and> q_holds q' (enc_frames (map (delta_wire (he_current_round h) buf) [0..<frag_total buf]))
    \<and> wf_sparse buf \<and> sb_list buf = map (sparse_entry d) ks \<and> top_list d (unat n) ks \<and> length ks \<le> sparse_k n k
    \<and> (length ks < sparse_k n k \<longrightarrow> (\<forall>j < unat n. j \<notin> set ks \<longrightarrow> mag_at d j < sparse_tiny))"
proof -
  define eff where "eff = effective d None (unat n)"
  have eff: "eff ! i = d ! i" if "i < unat n" for i using that by (simp add: eff_def effective_def eff_at_def)
  have mn: "min (unat n) FL_MODEL_MAX_PARAMS = unat n" using d(1) by simp
  obtain ks buf where b: "fl_sparse_encode d n k None sparse_blank = Some (of_nat (length ks), None, buf)" "wf_sparse buf"
    "sb_list buf = map (sparse_entry eff) ks" "top_list eff (unat n) ks" "length ks \<le> sparse_k n k"
    "length ks < sparse_k n k \<longrightarrow> (\<forall>j < unat n. j \<notin> set ks \<longrightarrow> mag_at eff j < sparse_tiny)"
    using fl_sparse_encode_spec [of n d None sparse_blank k, unfolded mn, folded eff_def] d(2,3) by (auto simp: eff_at_def)
  have t: "top_list d (unat n) ks" using b(4) top_list_cong [of "unat n" eff d ks, OF eff] by simp
  have sb: "sb_list buf = map (sparse_entry d) ks"
    unfolding b(3) by (rule map_cong [OF refl]) (use t eff in \<open>auto simp: sparse_entry_def top_list_def\<close>)
  have tiny: "length ks < sparse_k n k \<longrightarrow> (\<forall>j < unat n. j \<notin> set ks \<longrightarrow> mag_at d j < sparse_tiny)" using b(6) eff by simp
  have t15: "frag_total buf \<le> 15" by (rule frag_total_bound [OF b(2)])
  let ?P = "\<lambda>i s. \<exists>q'. s = (0 :: int, w\<lparr>gw_link := (gw_link w)\<lparr>de_h2s := q'\<rparr>\<rparr>)
      \<and> q_holds q' (enc_frames (map (delta_wire (he_current_round h) buf) [0..<i]))"
  have "\<exists>s. for_lt (frag_total buf) (\<lambda>f. send_delta_frag queue_posix junk h buf (fl_sparse_fragment_count buf) (of_nat f)) (0, w)
      = Some s \<and> ?P (frag_total buf) s"
  proof (rule for_lt_inv [where P = ?P])
    show "?P 0 (0, w)" using q by (intro exI [of _ "de_h2s (gw_link w)"]) simp
  next
    fix j s assume j: "j < frag_total buf" and "?P j s"
    then obtain q' where s: "s = (0, w\<lparr>gw_link := (gw_link w)\<lparr>de_h2s := q'\<rparr>\<rparr>)"
      "q_holds q' (enc_frames (map (delta_wire (he_current_round h) buf) [0..<j]))" by blast
    have "length (enc_frames (map (delta_wire (he_current_round h) buf) [0..<j])) \<le> 65000"
      using length_delta_wires [of "he_current_round h" buf j] j t15 by linarith
    then show "\<exists>s'. send_delta_frag queue_posix junk h buf (fl_sparse_fragment_count buf) (of_nat j) s = Some s' \<and> ?P (Suc j) s'"
      using send_delta_frag_queue [OF b(2) j junk, of "w\<lparr>gw_link := (gw_link w)\<lparr>de_h2s := q'\<rparr>\<rparr>"
        "map (delta_wire (he_current_round h) buf) [0..<j]" h 0] s by auto
  qed
  then obtain q' where "for_lt (frag_total buf) (\<lambda>f. send_delta_frag queue_posix junk h buf (fl_sparse_fragment_count buf) (of_nat f)) (0, w)
      = Some (0, w\<lparr>gw_link := (gw_link w)\<lparr>de_h2s := q'\<rparr>\<rparr>)"
    "q_holds q' (enc_frames (map (delta_wire (he_current_round h) buf) [0..<frag_total buf]))" by auto
  then show ?thesis using b(1,2,5) t sb tiny fl_sparse_fragment_count_eq [OF b(2)] h
    by (intro exI [of _ ks] exI [of _ buf] exI [of _ q']) (simp add: fl_herald_send_delta_def)
qed

section \<open>The frames at the shard\<close>

lemma sys_update_order: "y\<lparr>sy_env := e, sy_shard := s\<rparr> = y\<lparr>sy_shard := s, sy_env := e\<rparr>"
  by simp

text \<open>What a tick makes of the next frame when it is a fragment of a delta.\<close>

lemma delta_frag_tick:
  fixes y :: "demo_env sys"
  defines "s \<equiv> sy_shard y"
  assumes s: "wf_shard s" "sh_hal s = demo_hal clock" "sh_state s = FL_SHARD_STATE_RECV_DELTA" and junk: "wf_locals junk"
    and q: "q_holds (de_h2s (sy_env y)) (enc_frames (herald_wire FL_FRAME_DELTA rid fi ft (concat (map entry_bytes es)) # fs))"
    and es: "length es \<le> 71" "length (if fi = 0 then [] else sb_list (sh_delta_buf s)) + length es \<le> 1024"
  shows "\<exists>q' x out. q_holds q' (enc_frames fs) \<and> length x = 224 \<and> wf_sparse out
    \<and> sb_list out = (if fi = 0 then [] else sb_list (sh_delta_buf s)) @ es
    \<and> (let total = (if fi = 0 then ft else sh_rx_frag_total s);
           y2 = y\<lparr>sy_shard := s\<lparr>sh_rx_buf := x, sh_rx_frag_total := total, sh_delta_buf := out, sh_rx_frag_recv := sh_rx_frag_recv s + 1\<rparr>,
             sy_env := (sy_env y)\<lparr>de_h2s := q'\<rparr>\<rparr>
       in fl_shard_tick lm cb junk y = map_option (\<lambda>z. (sys_state z, z))
            (if total \<le> sh_rx_frag_recv s + 1 then apply_delta junk y2 else Some y2))"
proof -
  let ?data = "concat (map entry_bytes es)"
  have ld: "length ?data = 3 * length es" by (rule length_entries)
  then have l: "length ?data \<le> 214" using es(1) by linarith
  have c: "sh_hal (sy_shard y) = demo_hal clock" "length (sh_rx_buf (sy_shard y)) = 224" "wf_frame (jk_frame junk)"
    using s junk by (simp_all add: s_def wf_shard_def wf_locals_def)
  obtain q' x g where r: "q_holds q' (enc_frames fs)" "length x = 224"
    "fl_frame_decode (Some x) (10 + length ?data) (Some (jk_frame junk)) = Some (FL_OK, Some g)"
    "frame_head g = frame_head (encoded_frame FL_FRAME_DELTA FL_SHARD_ID_HERALD rid fi ft ?data)" "take (length ?data) (fr_payload g) = ?data"
    "recv_and_handle junk FL_SHARD_RECV_TIMEOUT_MS y = fl_shard_on_rx junk x (10 + length ?data)
        (y\<lparr>sy_shard := (sy_shard y)\<lparr>sh_rx_buf := x\<rparr>, sy_env := (sy_env y)\<lparr>de_h2s := q'\<rparr>\<rparr>)"
    using recv_frame [OF c(1,2) q l c(3), of FL_SHARD_RECV_TIMEOUT_MS] by blast
  have pay: "fr_payload g = ?data @ drop (length ?data) (fr_payload g)" by (metis append_take_drop_id r(5))
  let ?b = "if fi = 0 then zero_sparse else sh_delta_buf s"
  have b: "wf_sparse ?b" "sb_list ?b = (if fi = 0 then [] else sb_list (sh_delta_buf s))"
    using s(1) by (simp_all add: wf_shard_def zero_sparse_def wf_sparse_def sb_list_def)
  have le: "length es \<le> 85" "length (sb_list ?b) + length es \<le> 1024" using es b(2) by simp_all
  obtain out where out: "fl_sparse_read_fragment (fr_payload g) (of_nat (3 * length es)) ?b = Some (int (length es), out)"
    "wf_sparse out" "sb_list out = sb_list ?b @ es"
    using fl_sparse_read_fragment_eq [OF b(1) le, of "drop (length ?data) (fr_payload g)"] pay by auto
  let ?total = "if fi = 0 then ft else sh_rx_frag_total s"
  let ?y2 = "y\<lparr>sy_shard := s\<lparr>sh_rx_buf := x, sh_rx_frag_total := ?total, sh_delta_buf := out, sh_rx_frag_recv := sh_rx_frag_recv s + 1\<rparr>,
             sy_env := (sy_env y)\<lparr>de_h2s := q'\<rparr>\<rparr>"
  have "on_delta junk (10 + length ?data) g (y\<lparr>sy_shard := (sy_shard y)\<lparr>sh_rx_buf := x\<rparr>, sy_env := (sy_env y)\<lparr>de_h2s := q'\<rparr>\<rparr>)
      = (if ?total \<le> sh_rx_frag_recv s + 1 then apply_delta junk ?y2 else Some ?y2)"
    using out(1) head_fields [OF r(4)] ld s(3)
    by (cases "fi = 0") (simp_all add: on_delta_def Let_def mult.commute s_def sys_update_order del: length_concat)
  then have "fl_shard_tick lm cb junk y = map_option (\<lambda>z. (sys_state z, z))
      (if ?total \<le> sh_rx_frag_recv s + 1 then apply_delta junk ?y2 else Some ?y2)"
    using r(3,6) head_fields(1) [OF r(4)] s(3)
    by (simp add: fl_shard_tick_def fl_shard_on_rx_def s_def del: length_concat split: Option.bind_split)
  then show ?thesis using r(1,2) out(2,3) b(2) by (intro exI [of _ q'] exI [of _ x] exI [of _ out]) (simp only: Let_def simp_thms)
qed

text \<open>The shard \<open>y0\<close> after the first \<open>i\<close> fragments of a delta.\<close>

definition taking :: "demo_env sys \<Rightarrow> u8 \<Rightarrow> FLSparseBuffer \<Rightarrow> bytes list \<Rightarrow> nat \<Rightarrow> demo_env sys \<Rightarrow> bool" where
  "taking y0 rid buf fs i y \<longleftrightarrow>
     (\<exists>x t b. sy_shard y = (sy_shard y0)\<lparr>sh_rx_buf := x, sh_rx_frag_total := t, sh_delta_buf := b, sh_rx_frag_recv := of_nat i\<rparr>
        \<and> length x = 224 \<and> wf_sparse b
        \<and> (0 < i \<longrightarrow> sb_list b = concat (map (frag_entries buf) [0..<i]) \<and> t = fl_sparse_fragment_count buf))
     \<and> q_holds (de_h2s (sy_env y)) (enc_frames (map (delta_wire rid buf) [i..<frag_total buf] @ fs))"

lemma taking_step:
  assumes s: "wf_shard (sy_shard y0)" "sh_hal (sy_shard y0) = demo_hal clock" "sys_state y0 = FL_SHARD_STATE_RECV_DELTA"
    and junk: "wf_locals junk" and wf: "wf_sparse buf" and i: "i < frag_total buf" and y: "taking y0 rid buf fs i y"
  shows "\<exists>z. taking y0 rid buf fs (Suc i) z \<and> fl_shard_tick lm cb junk y = map_option (\<lambda>z. (sys_state z, z))
      (if frag_total buf \<le> Suc i then apply_delta junk z else Some z)"
proof -
  let ?es = "frag_entries buf i" and ?c = "fl_sparse_fragment_count buf"
  obtain x t b where sh: "sy_shard y = (sy_shard y0)\<lparr>sh_rx_buf := x, sh_rx_frag_total := t, sh_delta_buf := b, sh_rx_frag_recv := of_nat i\<rparr>"
    "length x = 224" "wf_sparse b" and b: "0 < i \<longrightarrow> sb_list b = concat (map (frag_entries buf) [0..<i]) \<and> t = ?c"
    and q: "q_holds (de_h2s (sy_env y)) (enc_frames (map (delta_wire rid buf) [i..<frag_total buf] @ fs))"
    using y by (auto simp: taking_def)
  have t15: "frag_total buf \<le> 15" by (rule frag_total_bound [OF wf])
  have ui: "unat (of_nat i :: u8) = i" "unat (of_nat (Suc i) :: u8) = Suc i" by (rule unat_of_nat_u8, use i t15 in linarith)+
  have z: "(of_nat i :: u8) = 0 \<longleftrightarrow> i = 0" using ui(1) by (auto simp: word_unat_eq_iff)
  have ws: "wf_shard (sy_shard y)" "sh_hal (sy_shard y) = demo_hal clock" "sh_state (sy_shard y) = FL_SHARD_STATE_RECV_DELTA"
    using s sh by (simp_all add: wf_shard_def)
  have q': "q_holds (de_h2s (sy_env y)) (enc_frames (herald_wire FL_FRAME_DELTA rid (of_nat i) ?c (concat (map entry_bytes ?es))
      # (map (delta_wire rid buf) [Suc i..<frag_total buf] @ fs)))"
    using q i by (simp add: upt_conv_Cons delta_wire_def)
  have old: "(if (of_nat i :: u8) = 0 then [] else sb_list (sh_delta_buf (sy_shard y))) = concat (map (frag_entries buf) [0..<i])"
    using b sh(1) z by simp
  have chunks: "concat (map (frag_entries buf) [0..<i]) @ ?es = concat (map (frag_entries buf) [0..<Suc i])" by simp
  have "concat (map (frag_entries buf) [0..<Suc i]) = take (Suc i * 71) (sb_list buf)"
    using concat_chunks [of 71 "sb_list buf" "Suc i"] by (simp only: frag_entries_def [abs_def])
  then have "length (concat (map (frag_entries buf) [0..<Suc i])) \<le> length (sb_list buf)" by simp
  also have "\<dots> \<le> 1024" using wf by (simp add: length_sb_list wf_sparse_def)
  finally have room: "length (if (of_nat i :: u8) = 0 then [] else sb_list (sh_delta_buf (sy_shard y))) + length ?es \<le> 1024"
    unfolding old chunks [symmetric] by simp
  have tot: "(if (of_nat i :: u8) = 0 then ?c else sh_rx_frag_total (sy_shard y)) = ?c" using b sh(1) z by simp
  have recv: "sh_rx_frag_recv (sy_shard y) + 1 = of_nat (Suc i)" using sh(1) by (simp add: add.commute)
  have le: "?c \<le> of_nat (Suc i) \<longleftrightarrow> frag_total buf \<le> Suc i"
    by (simp only: word_le_nat_alt ui fl_sparse_fragment_count_eq [OF wf])
  obtain q1 x1 out where d: "q_holds q1 (enc_frames (map (delta_wire rid buf) [Suc i..<frag_total buf] @ fs))" "length x1 = 224"
    "wf_sparse out" "sb_list out = concat (map (frag_entries buf) [0..<Suc i])"
    and tk: "fl_shard_tick lm cb junk y = map_option (\<lambda>z. (sys_state z, z))
      (if frag_total buf \<le> Suc i then apply_delta junk (y\<lparr>sy_shard := (sy_shard y)\<lparr>sh_rx_buf := x1, sh_rx_frag_total := ?c, sh_delta_buf := out,
         sh_rx_frag_recv := of_nat (Suc i)\<rparr>, sy_env := (sy_env y)\<lparr>de_h2s := q1\<rparr>\<rparr>)
       else Some (y\<lparr>sy_shard := (sy_shard y)\<lparr>sh_rx_buf := x1, sh_rx_frag_total := ?c, sh_delta_buf := out,
         sh_rx_frag_recv := of_nat (Suc i)\<rparr>, sy_env := (sy_env y)\<lparr>de_h2s := q1\<rparr>\<rparr>))"
    using delta_frag_tick [OF ws junk q' length_frag_entries room, of lm cb] unfolding old tot recv le chunks Let_def by blast
  show ?thesis
    by (intro exI conjI, rule_tac [2] tk)
      (use d sh(1) in \<open>simp add: taking_def del: of_nat_Suc upt_Suc, intro exI [of _ x1] exI [of _ out], simp\<close>)
qed

lemma taking_all:
  assumes s: "wf_shard (sy_shard y0)" "sh_hal (sy_shard y0) = demo_hal clock" "sys_state y0 = FL_SHARD_STATE_RECV_DELTA"
    and junk: "wf_locals junk" and wf: "wf_sparse buf" and n: "n < frag_total buf" and y: "taking y0 rid buf fs 0 y0"
  shows "\<exists>y. run_ticks lm cb junk n y0 = Some y \<and> taking y0 rid buf fs n y"
  using n
proof (induction n)
  case (Suc n)
  then obtain y where y: "run_ticks lm cb junk n y0 = Some y" "taking y0 rid buf fs n y" by auto
  have "n < frag_total buf" "\<not> frag_total buf \<le> Suc n" using Suc.prems by simp_all
  then show ?case using taking_step [OF s junk wf _ y(2), of lm cb] y(1) by auto
qed (use y in simp)

lemma delta_received:
  assumes s: "wf_shard (sy_shard y0)" "sh_hal (sy_shard y0) = demo_hal clock" "sys_state y0 = FL_SHARD_STATE_RECV_DELTA"
      "sh_rx_frag_recv (sy_shard y0) = 0" "md_total_params (sh_model (sy_shard y0)) = n"
    and junk: "wf_locals junk" and wf: "wf_sparse buf" and t: "0 < frag_total buf"
    and q: "q_holds (de_h2s (sy_env y0)) (enc_frames (map (delta_wire rid buf) [0..<frag_total buf] @ fs))"
    and ks: "sb_list buf = map (sparse_entry d) ks" "distinct ks" "set ks \<subseteq> {..<unat n}"
  shows "\<exists>y' v. run_ticks lm cb junk (frag_total buf) y0 = Some y' \<and> sys_state y' = FL_SHARD_STATE_IDLE
    \<and> wf_shard (sy_shard y') \<and> sh_hal (sy_shard y') = demo_hal clock \<and> sh_crypto (sy_shard y') = sh_crypto (sy_shard y0)
    \<and> q_holds (de_h2s (sy_env y')) (enc_frames fs)
    \<and> (\<forall>i < unat n. f_ord (v ! i) = sent_value d ks i
        \<and> md_params (sh_model (sy_shard y')) ! i = md_params (sh_model (sy_shard y0)) ! i + v ! i)"
proof -
  obtain k where k: "frag_total buf = Suc k" using t by (cases "frag_total buf") auto
  have "taking y0 rid buf fs 0 y0"
    using s(1,4) q by (auto simp: taking_def wf_shard_def intro!: exI [of _ "sh_rx_buf (sy_shard y0)"]
        exI [of _ "sh_rx_frag_total (sy_shard y0)"] exI [of _ "sh_delta_buf (sy_shard y0)"])
  then obtain y where y: "run_ticks lm cb junk k y0 = Some y" "taking y0 rid buf fs k y"
    using taking_all [OF s(1-3) junk wf, of k rid fs lm cb] k by auto
  obtain z where z: "taking y0 rid buf fs (Suc k) z" "fl_shard_tick lm cb junk y = map_option (\<lambda>z. (sys_state z, z)) (apply_delta junk z)"
    using taking_step [OF s(1-3) junk wf _ y(2), of lm cb] k by auto
  obtain x t b where zs: "sy_shard z = (sy_shard y0)\<lparr>sh_rx_buf := x, sh_rx_frag_total := t, sh_delta_buf := b, sh_rx_frag_recv := of_nat (Suc k)\<rparr>"
    "length x = 224" "wf_sparse b" "sb_list b = concat (map (frag_entries buf) [0..<Suc k])"
    and zq: "q_holds (de_h2s (sy_env z)) (enc_frames fs)"
    using z(1) k by (auto simp: taking_def simp del: of_nat_Suc upt_Suc)
  have "sb_list b = take (Suc k * 71) (sb_list buf)"
    using concat_chunks [of 71 "sb_list buf" "Suc k"] zs(4)
    by (simp only: frag_entries_def [abs_def])
  then have b: "sb_list b = map (sparse_entry d) ks"
    using frag_total_covers(1) [of buf] ks(1) by (simp only: k take_all)
  have w: "wf_shard (sy_shard z)" "sh_hal (sy_shard z) = demo_hal clock" "sb_list (sh_delta_buf (sy_shard z)) = map (sparse_entry d) ks"
    "set ks \<subseteq> {..<unat (md_total_params (sh_model (sy_shard z)))}"
    using s b zs ks(3) by (simp_all add: wf_shard_def)
  obtain v ps where v: "apply_delta junk z = Some (z\<lparr>sy_shard := (sy_shard z)\<lparr>sh_model := (sh_model (sy_shard z))\<lparr>md_params := ps\<rparr>,
        sh_state := FL_SHARD_STATE_IDLE\<rparr>\<rparr>)" "length ps = FL_MODEL_MAX_PARAMS"
    "\<forall>i < unat n. f_ord (v ! i) = sent_value d ks i \<and> ps ! i = md_params (sh_model (sy_shard z)) ! i + v ! i"
    using apply_delta_value [OF junk w(1-3) ks(2) w(4)] zs(1) s(5) by auto
  show ?thesis
    by (rule exI [of _ "z\<lparr>sy_shard := (sy_shard z)\<lparr>sh_model := (sh_model (sy_shard z))\<lparr>md_params := ps\<rparr>,
        sh_state := FL_SHARD_STATE_IDLE\<rparr>\<rparr>"], rule exI [of _ v]) (use k y(1) z(2) v zs(1) zq w(1,2) in \<open>simp add: wf_shard_def\<close>)
qed

section \<open>The delta arrives\<close>

text \<open>The aggregated delta reaches the shards: the Herald sends the top-k entries of its delta as
  the frames the shard expects, and a shard that waits for a delta handles one of them for each
  tick; after the last one it is idle again and every parameter has been moved by the Q8 value sent
  for it, those that were not sent by zero. A delta with no entry above the smallest magnitude is
  not sent at all, and the shard goes on waiting.\<close>

theorem delta_reaches_shard:
  assumes d: "unat n \<le> FL_MODEL_MAX_PARAMS" "unat n \<le> length d" "\<forall>i < unat n. \<not> f_nan (d ! i)"
    and h: "hc_model_param_count (he_config h) = n" and hj: "length (hj_payload hj) = FL_PAYLOAD_MAX"
    and q: "q_holds (de_h2s (gw_link w)) []"
    and s: "wf_shard (sy_shard y)" "sh_hal (sy_shard y) = demo_hal clock" "sys_state y = FL_SHARD_STATE_RECV_DELTA"
      "sh_rx_frag_recv (sy_shard y) = 0" "md_total_params (sh_model (sy_shard y)) = n"
    and junk: "wf_locals junk"
  shows "\<exists>ks w' y' v. fl_herald_send_delta queue_posix hj h d k w = Some (FL_OK, w')
    \<and> top_list d (unat n) ks \<and> length ks \<le> sparse_k n k
    \<and> (length ks < sparse_k n k \<longrightarrow> (\<forall>j < unat n. j \<notin> set ks \<longrightarrow> mag_at d j < sparse_tiny))
    \<and> run_ticks lm cb junk ((length ks + 70) div 71) (y\<lparr>sy_env := gw_link w'\<rparr>) = Some y'
    \<and> (\<forall>i < unat n. f_ord (v ! i) = sent_value d ks i)
    \<and> (if ks = [] then y' = y\<lparr>sy_env := gw_link w'\<rparr>
       else sys_state y' = FL_SHARD_STATE_IDLE
         \<and> (\<forall>i < unat n. md_params (sh_model (sy_shard y')) ! i = md_params (sh_model (sy_shard y)) ! i + v ! i))"
proof -
  have q0: "q_holds (de_h2s (gw_link w)) (enc_frames [])" using q by simp
  obtain ks buf q' where a: "fl_herald_send_delta queue_posix hj h d k w = Some (FL_OK, w\<lparr>gw_link := (gw_link w)\<lparr>de_h2s := q'\<rparr>\<rparr>)"
    "q_holds q' (enc_frames (map (delta_wire (he_current_round h) buf) [0..<frag_total buf]))" "wf_sparse buf"
    and sb: "sb_list buf = map (sparse_entry d) ks" and t: "top_list d (unat n) ks" and le: "length ks \<le> sparse_k n k"
    and tiny: "length ks < sparse_k n k \<longrightarrow> (\<forall>j < unat n. j \<notin> set ks \<longrightarrow> mag_at d j < sparse_tiny)"
    using send_delta_frames [OF d h hj q0, of k] by blast
  have ks: "distinct ks" "set ks \<subseteq> {..<unat n}" using t by (simp_all add: top_list_def)
  have ft: "frag_total buf = (length ks + 70) div 71" by (simp add: frag_total_def sb)
  let ?w = "w\<lparr>gw_link := (gw_link w)\<lparr>de_h2s := q'\<rparr>\<rparr>" let ?y = "y\<lparr>sy_env := gw_link ?w\<rparr>"
  show ?thesis
  proof (cases ks)
    case Nil
    let ?v = "replicate (unat n) (0 :: f32)"
    have "f_ord (?v ! i) = sent_value d ks i" if "i < unat n" for i using that Nil f_ord_eq_0_iff by (simp add: sent_value_def)
    moreover have "run_ticks lm cb junk ((length ks + 70) div 71) ?y = Some ?y" using Nil by simp
    ultimately show ?thesis using a(1) t le tiny Nil
      by (intro exI [of _ ks] exI [of _ ?w] exI [of _ ?y] exI [of _ ?v]) simp
  next
    case Cons
    have "0 < frag_total buf" using frag_total_covers(2) [of 0 buf] Cons sb by simp
    then obtain y' v where "run_ticks lm cb junk (frag_total buf) ?y = Some y'" "sys_state y' = FL_SHARD_STATE_IDLE"
      "\<forall>i < unat n. f_ord (v ! i) = sent_value d ks i
        \<and> md_params (sh_model (sy_shard y')) ! i = md_params (sh_model (sy_shard ?y)) ! i + v ! i"
      using delta_received [of ?y clock n junk buf "he_current_round h" "[]" d ks lm cb] s junk a(2,3) sb ks by auto
    then show ?thesis using a(1) t le tiny Cons unfolding ft
      by (intro exI [of _ ks] exI [of _ ?w] exI [of _ y'] exI [of _ v]) simp
  qed
qed

definition waiting_shard :: "demo_env sys" where
  "waiting_shard = idle_demo\<lparr>sy_shard := (zero_shard (demo_hal (\<lambda>e. (0, e))) 7 (zero_model\<lparr>md_total_params := 100\<rparr>))
     \<lparr>sh_state := FL_SHARD_STATE_RECV_DELTA\<rparr>\<rparr>"

lemma waiting_shard_ok:
  "wf_shard (sy_shard waiting_shard)" "sh_hal (sy_shard waiting_shard) = demo_hal (\<lambda>e. (0, e))"
  "sys_state waiting_shard = FL_SHARD_STATE_RECV_DELTA" "sh_rx_frag_recv (sy_shard waiting_shard) = 0"
  "sh_rx_frag_total (sy_shard waiting_shard) = 0" "sb_list (sh_delta_buf (sy_shard waiting_shard)) = []"
  "md_total_params (sh_model (sy_shard waiting_shard)) = 100" "wf_locals idle_locals"
  by (simp_all add: waiting_shard_def idle_demo_def idle_locals_def zero_shard_def wf_shard_def wf_locals_def wf_frame_def
      zero_sparse_def wf_sparse_def sb_list_def zero_model_def wf_crypto_def)

section \<open>A delta whose first frame is lost\<close>

text \<open>C22: A shard does not notice that the first fragment of a delta is missing: straight after the
  acknowledgement it takes any other fragment of a delta for the whole of it, adds the values of
  that fragment alone to its parameters and is idle again.\<close>

theorem partial_delta_applied:
  assumes s: "wf_shard (sy_shard y)" "sh_hal (sy_shard y) = demo_hal clock" "sys_state y = FL_SHARD_STATE_RECV_DELTA"
      "sh_rx_frag_recv (sy_shard y) = 0" "sh_rx_frag_total (sy_shard y) = 0" "sb_list (sh_delta_buf (sy_shard y)) = []"
      "md_total_params (sh_model (sy_shard y)) = n"
    and junk: "wf_locals junk" and buf: "wf_sparse buf" "sb_list buf = map (sparse_entry d) ks" "top_list d (unat n) ks"
    and i: "0 < i" "i < frag_total buf"
    and q: "q_holds (de_h2s (sy_env y)) (enc_frames (delta_wire rid buf i # fs))"
  shows "\<exists>y' v. fl_shard_tick lm cb junk y = Some (FL_SHARD_STATE_IDLE, y') \<and> sys_state y' = FL_SHARD_STATE_IDLE
    \<and> (\<forall>j < unat n. f_ord (v ! j) = sent_value d (take 71 (drop (i * 71) ks)) j
        \<and> md_params (sh_model (sy_shard y')) ! j = md_params (sh_model (sy_shard y)) ! j + v ! j)"
proof -
  let ?ks = "take 71 (drop (i * 71) ks)"
  have "unat (of_nat i :: u8) = i" by (rule unat_of_nat_u8) (use i frag_total_bound [OF buf(1)] in linarith)
  then have z: "(of_nat i :: u8) \<noteq> 0" using i(1) by auto
  have ks: "distinct ?ks" "set ?ks \<subseteq> {..<unat n}"
    using buf(3) set_take_subset [of 71 "drop (i * 71) ks"] set_drop_subset [of "i * 71" ks] by (auto simp: top_list_def)
  have es: "frag_entries buf i = map (sparse_entry d) ?ks" by (simp add: frag_entries_def buf(2) take_map drop_map)
  have room: "length (if (of_nat i :: u8) = 0 then [] else sb_list (sh_delta_buf (sy_shard y))) + length (frag_entries buf i) \<le> 1024"
    using z s(6) length_frag_entries [of buf i] by simp
  obtain q' x out where r: "wf_sparse out" "length x = 224" "sb_list out = map (sparse_entry d) ?ks"
    "fl_shard_tick lm cb junk y = map_option (\<lambda>z. (sys_state z, z))
       (apply_delta junk (y\<lparr>sy_shard := (sy_shard y)\<lparr>sh_rx_buf := x, sh_rx_frag_total := 0, sh_delta_buf := out, sh_rx_frag_recv := 1\<rparr>,
             sy_env := (sy_env y)\<lparr>de_h2s := q'\<rparr>\<rparr>))"
    using delta_frag_tick [OF s(1-3) junk q [unfolded delta_wire_def] length_frag_entries room, of lm cb] s(4-6) z es
    by (auto simp: Let_def)
  let ?z = "y\<lparr>sy_shard := (sy_shard y)\<lparr>sh_rx_buf := x, sh_rx_frag_total := 0, sh_delta_buf := out, sh_rx_frag_recv := 1\<rparr>,
             sy_env := (sy_env y)\<lparr>de_h2s := q'\<rparr>\<rparr>"
  have w: "wf_shard (sy_shard ?z)" "sh_hal (sy_shard ?z) = demo_hal clock" "sb_list (sh_delta_buf (sy_shard ?z)) = map (sparse_entry d) ?ks"
    "set ?ks \<subseteq> {..<unat (md_total_params (sh_model (sy_shard ?z)))}"
    using s r(1-3) ks(2) by (simp_all add: wf_shard_def)
  obtain v ps where "apply_delta junk ?z = Some (?z\<lparr>sy_shard := (sy_shard ?z)\<lparr>sh_model := (sh_model (sy_shard ?z))\<lparr>md_params := ps\<rparr>,
        sh_state := FL_SHARD_STATE_IDLE\<rparr>\<rparr>)"
    "\<forall>j < unat n. f_ord (v ! j) = sent_value d ?ks j \<and> ps ! j = md_params (sh_model (sy_shard ?z)) ! j + v ! j"
    using apply_delta_value [OF junk w(1-3) ks(1) w(4)] s(7) by auto
  then show ?thesis using r(4)
    by (intro exI [of _ "?z\<lparr>sy_shard := (sy_shard ?z)\<lparr>sh_model := (sh_model (sy_shard ?z))\<lparr>md_params := ps\<rparr>,
        sh_state := FL_SHARD_STATE_IDLE\<rparr>\<rparr>"] exI [of _ v]) simp
qed

definition sample_delta :: FLSparseBuffer where
  "sample_delta = \<lparr>sb_entries = map (sparse_entry (replicate 100 1)) [0..<80] @ replicate 944 \<lparr>ge_param_index = 0, ge_delta_q8 = 0\<rparr>,
     sb_count = 80\<rparr>"

lemma sample_delta_ok:
  "wf_sparse sample_delta" "sb_list sample_delta = map (sparse_entry (replicate 100 1)) [0..<80]" "frag_total sample_delta = 2"
  "top_list (replicate 100 1) (unat (100 :: u16)) [0..<80]"
proof -
  show "sb_list sample_delta = map (sparse_entry (replicate 100 1)) [0..<80]" by (simp add: sample_delta_def sb_list_def)
  then show "frag_total sample_delta = 2" by (simp add: frag_total_def)
  have "mag_at (replicate 100 1) i = f_ord 1" if "i < 100" for i using that by (simp add: f_ord_def f32_eval)
  moreover have "sparse_tiny \<le> f_ord 1" by (simp add: f_ord_def f32_eval)
  ultimately show "top_list (replicate 100 1) (unat (100 :: u16)) [0..<80]"
    by (auto simp: top_list_def sorted_wrt_iff_nth_less)
qed (simp add: sample_delta_def wf_sparse_def)

theorem partial_delta_applied_witness:
  "\<forall>lm cb. \<exists>e y' v. fl_shard_tick lm cb idle_locals (waiting_shard\<lparr>sy_env := e\<rparr>) = Some (FL_SHARD_STATE_IDLE, y')
    \<and> f_ord (v ! 71) = 127 * 2 ^ 142 \<and> f_ord (v ! 0) = 0
    \<and> (\<forall>j < 100. md_params (sh_model (sy_shard y')) ! j = md_params (sh_model (sy_shard waiting_shard)) ! j + v ! j)"
proof (intro allI)
  fix lm and cb :: "demo_env data_cb"
  let ?w = "delta_wire 0 sample_delta 1"
  have u: "unat (of_nat (length ?w) :: u8) = length ?w"
    by (rule unat_of_nat_u8) (use length_delta_wire [of 0 sample_delta 1] in linarith)
  have "q_holds (de_h2s (gw_link empty_gateway)) (enc_frames [])" using empty_gateway_ok(3) by simp
  from q_push_frame_holds [OF this, of "of_nat (length ?w)" ?w] obtain q where q: "q_holds q (enc_frames [?w])"
    using length_delta_wire [of 0 sample_delta 1] unfolding u take_all [OF order_refl] by auto
  let ?y = "waiting_shard\<lparr>sy_env := (gw_link empty_gateway)\<lparr>de_h2s := q\<rparr>\<rparr>"
  have y: "wf_shard (sy_shard ?y)" "sh_hal (sy_shard ?y) = demo_hal (\<lambda>e. (0, e))"
    "sys_state ?y = FL_SHARD_STATE_RECV_DELTA" "sh_rx_frag_recv (sy_shard ?y) = 0"
    "sh_rx_frag_total (sy_shard ?y) = 0" "sb_list (sh_delta_buf (sy_shard ?y)) = []"
    "md_total_params (sh_model (sy_shard ?y)) = 100" using waiting_shard_ok by simp_all
  have i: "0 < (1 :: nat)" "1 < frag_total sample_delta" by (simp_all add: sample_delta_ok(3))
  have q': "q_holds (de_h2s (sy_env ?y)) (enc_frames (?w # []))" using q by simp
  obtain y' v where r: "fl_shard_tick lm cb idle_locals ?y = Some (FL_SHARD_STATE_IDLE, y')"
    "\<forall>j < unat (100 :: u16). f_ord (v ! j) = sent_value (replicate 100 1) (take 71 (drop (1 * 71) [0..<80])) j
        \<and> md_params (sh_model (sy_shard y')) ! j = md_params (sh_model (sy_shard ?y)) ! j + v ! j"
    using partial_delta_applied [OF y waiting_shard_ok(8) sample_delta_ok(1,2,4) i q', of lm cb] by blast
  have "q8_value (f_ord 1) = 127" by (simp add: f_ord_def f32_eval q8_value_def trunc_div_def)
  then show "\<exists>e y' v. fl_shard_tick lm cb idle_locals (waiting_shard\<lparr>sy_env := e\<rparr>) = Some (FL_SHARD_STATE_IDLE, y')
    \<and> f_ord (v ! 71) = 127 * 2 ^ 142 \<and> f_ord (v ! 0) = 0
    \<and> (\<forall>j < 100. md_params (sh_model (sy_shard y')) ! j = md_params (sh_model (sy_shard waiting_shard)) ! j + v ! j)"
    using r by (intro exI [of _ "(gw_link empty_gateway)\<lparr>de_h2s := q\<rparr>"] exI [of _ y'] exI [of _ v]) (auto simp: sent_value_def)
qed

end
