(* ===== verification/Demo_Correct.thy ===== *)
theory Demo_Correct
  imports Demo_Round Delta_Link
begin

text \<open>
  What a round of the demonstration does to the models of the Herald and of its shard.
\<close>

section \<open>Training and the queues\<close>

text \<open>What the data callback leaves alone, training leaves alone.\<close>

lemma train_loop_env:
  assumes "train_loop lm config no cb e n st = Some r" "\<forall>e s. f (snd (snd (cb e s))) = f e"
  shows "f (snd (snd r)) = f e"
proof -
  have "(\<forall>e s. f (snd (snd (cb e s))) = f e) \<longrightarrow> f (snd (snd r)) = f e"
  proof (rule train_loop.raw_induct [OF _ assms(1), where P = "\<lambda>lm config no cb e n st r. (\<forall>e s. f (snd (snd (cb e s))) = f e) \<longrightarrow> f (snd (snd r)) = f e"])
    fix loop :: "libm \<Rightarrow> FLTrainConfig \<Rightarrow> u8 \<Rightarrow> 'a data_cb \<Rightarrow> 'a \<Rightarrow> u16 \<Rightarrow> FLModel \<times> train_state \<Rightarrow> (u16 \<times> (FLModel \<times> train_state) \<times> 'a) option"
      and lm config no cb e n st r
    assume IH: "\<And>lm config no cb e n st r. loop lm config no cb e n st = Some r
        \<Longrightarrow> (\<forall>e s. f (snd (snd (cb e s))) = f e) \<longrightarrow> f (snd (snd r)) = f e"
      and r: "(let (more, sample, e) = cb e (ts_sample (snd st)); s = (fst st, (snd st)\<lparr>ts_sample := sample\<rparr>)
        in if \<not> more then Some (n, s, e) else do { s \<leftarrow> train_step lm config no s; loop lm config no cb e (n + 1) s }) = Some r"
    show "(\<forall>e s. f (snd (snd (cb e s))) = f e) \<longrightarrow> f (snd (snd r)) = f e"
    proof
      assume cb: "\<forall>e s. f (snd (snd (cb e s))) = f e"
      obtain b s e' where c: "cb e (ts_sample (snd st)) = (b, s, e')" by (cases "cb e (ts_sample (snd st))") auto
      then have e: "f e' = f e" using cb by (metis snd_conv)
      show "f (snd (snd r)) = f e"
      proof (cases b)
        case True
        then obtain st' where "loop lm config no cb e' (n + 1) st' = Some r"
          using r c by (auto simp: Let_def bind_eq_Some_conv)
        then show ?thesis using IH cb e by metis
      next
        case False
        then show ?thesis using r c e by (auto simp: Let_def)
      qed
    qed
  qed
  then show ?thesis using assms(2) by blast
qed

lemma for_lt_holds:
  assumes "for_lt n f s = Some r" "P s" "\<And>j s s'. P s \<Longrightarrow> f j s = Some s' \<Longrightarrow> P s'"
  shows "P r"
proof -
  have "for_from i n f s = Some r \<Longrightarrow> P s \<Longrightarrow> P r" for i
    by (induction n arbitrary: i s) (auto dest: assms(3) split: option.splits)
  then show ?thesis using assms(1,2) by (simp add: for_lt_def)
qed

lemma train_run_env:
  assumes "fl_train_run lm config cb e st = Some r" "\<forall>e s. f (snd (snd (cb e s))) = f e"
  shows "f (snd (snd r)) = f e"
  using assms(1) unfolding fl_train_run_def
proof (rule for_lt_holds)
  fix j and s s' :: "u32 \<times> (FLModel \<times> train_state) \<times> 'a"
  assume "f (snd (snd s)) = f e" and "(\<lambda>(total, s, e). do {
       (n, s, e) \<leftarrow> fl_train_epoch lm config cb e s; Some (total + ucast n, s, e) }) s = Some s'"
  then show "f (snd (snd s')) = f e"
    by (auto simp: fl_train_epoch_def bind_eq_Some_conv split: prod.splits if_splits dest!: train_loop_env [where f = f, OF _ assms(2)])
qed simp

interpretation demo_link: data_source "demo_cb train" "\<lambda>e. 80 - unat (de_sidx e)" 80 for train
proof unfold_locales
  fix e and s :: FLSample
  have c: "demo_cb train e s = (fst (demo_data_cb train (de_sidx e) s), fst (snd (demo_data_cb train (de_sidx e) s)),
      e\<lparr>de_sidx := snd (snd (demo_data_cb train (de_sidx e) s))\<rparr>)"
    by (simp add: demo_cb_def split_beta)
  show "fst (demo_cb train e s) \<longleftrightarrow> 0 < 80 - unat (de_sidx e)" by (simp add: c demo.supplies)
  show "0 < 80 - unat (de_sidx e) \<Longrightarrow> Suc (80 - unat (de_sidx (snd (snd (demo_cb train e s))))) = 80 - unat (de_sidx e)"
    unfolding c using demo.takes [of "de_sidx e" train s] by simp
  show "80 - unat (de_sidx e) = 0 \<Longrightarrow> 80 - unat (de_sidx (snd (snd (demo_cb train e s)))) = 80"
    unfolding c using demo.rewinds [of "de_sidx e" train s] by simp
  show "sample_fits s \<Longrightarrow> sample_fits (fst (snd (demo_cb train e s)))"
    unfolding c using demo.fills [of s train "de_sidx e"] by simp
qed

lemma demo_cb_queues: "de_h2s (snd (snd (demo_cb train e s))) = de_h2s e" "de_s2h (snd (snd (demo_cb train e s))) = de_s2h e"
  by (simp_all add: demo_cb_def split_beta)

section \<open>Frames through the queue\<close>

lemma zero_BQ_holds: "q_holds zero_BQ (enc_frames [])"
  by (simp add: q_holds_def zero_BQ_def)

lemma h_push_frame:
  assumes q: "q_holds (de_h2s e) (enc_frames fs)" and pl: "unat pl \<le> 214" "\<forall>s. p = Some s \<longrightarrow> unat pl \<le> length s" "p = None \<longrightarrow> pl = 0"
    and room: "length (enc_frames fs) \<le> 65000"
  defines "data \<equiv> (case p of None \<Rightarrow> [] | Some s \<Rightarrow> take (unat pl) s)"
  shows "\<exists>q'. h_push junk t rid fi ft p pl e = Some (e\<lparr>de_h2s := q'\<rparr>)
    \<and> q_holds q' (enc_frames (fs @ [herald_wire t rid fi ft data]))"
proof -
  let ?f = "encoded_frame t FL_SHARD_ID_HERALD rid fi ft data"
  have len: "length data = unat pl" using pl(2,3) by (auto simp: data_def split: option.split)
  have enc: "fl_frame_encode (Some junk) t FL_SHARD_ID_HERALD rid fi ft p pl = Some (FL_OK, Some ?f)"
  proof (cases p)
    case None
    then show ?thesis using pl(3) fl_frame_encode_empty by (simp add: data_def)
  next
    case (Some s)
    then show ?thesis using fl_frame_encode_eq [OF pl(1), of s] pl(2) by (simp add: data_def)
  qed
  have u: "unat (of_nat (10 + unat pl) :: u8) = 10 + unat pl" by (rule unat_of_nat_u8) (use pl(1) in linarith)
  have fb: "length (frame_bytes ?f) = 224" using len pl(1) by simp
  have "\<exists>q'. q_push_frame (de_h2s e) (frame_bytes ?f) (of_nat (10 + unat pl)) = Some q'
      \<and> q_holds q' (enc_frames (fs @ [take (unat (of_nat (10 + unat pl) :: u8)) (frame_bytes ?f)]))"
    by (rule q_push_frame_holds [OF q]) (use u fb pl(1) room in linarith)+
  then obtain q' where "q_push_frame (de_h2s e) (frame_bytes ?f) (of_nat (10 + unat pl)) = Some q'"
    "q_holds q' (enc_frames (fs @ [herald_wire t rid fi ft data]))"
    unfolding u by (auto simp: wire_of_def len)
  then show ?thesis using enc by (intro exI [of _ q']) (simp add: h_push_def)
qed

section \<open>The state between rounds\<close>

definition world_ok :: "demo_world \<Rightarrow> bool" where
  "world_ok W \<longleftrightarrow> (\<forall>e. snd (dw_clock W e) = e) \<and> wf_locals (dw_locals W) \<and> length (dw_rx W) = FL_FRAME_MAX_SIZE"

definition demo_shard_ok :: "demo_world \<Rightarrow> demo_env FLShard \<Rightarrow> bool" where
  "demo_shard_ok W s \<longleftrightarrow> wf_shard s \<and> net_fits (sh_model s) \<and> md_total_params (sh_model s) = 58
     \<and> sh_hal s = demo_hal (dw_clock W) \<and> sh_shard_id s = 1
     \<and> cc_encrypt_enabled (sh_crypto s) = 0 \<and> dp_dp_enabled (sh_dp s) = 0"

definition herald_side_ok :: "demo_sys \<Rightarrow> bool" where
  "herald_side_ok d \<longleftrightarrow> length (md_params (dm_global d)) = FL_MODEL_MAX_PARAMS \<and> md_total_params (dm_global d) = 58
     \<and> wf_agg (dm_agg d) \<and> length (dm_dense_delta d) = 58 \<and> length (dm_agg_delta d) = 58"

definition demo_inv :: "demo_world \<Rightarrow> demo_sys \<Rightarrow> bool" where
  "demo_inv W d \<longleftrightarrow> demo_shard_ok W (sy_shard (dm_sys d)) \<and> sys_state (dm_sys d) = FL_SHARD_STATE_IDLE
     \<and> train_fits (sy_train (dm_sys d)) \<and> sample_fits (ts_sample (sy_train (dm_sys d))) \<and> herald_side_ok d"

definition demo_ready :: "demo_world \<Rightarrow> demo_sys \<Rightarrow> bool" where
  "demo_ready W d \<longleftrightarrow> demo_shard_ok W (sy_shard (dm_sys d)) \<and> sys_state (dm_sys d) = FL_SHARD_STATE_ENCODING
     \<and> train_fits (sy_train (dm_sys d)) \<and> sample_fits (ts_sample (sy_train (dm_sys d))) \<and> herald_side_ok d
     \<and> q_holds (de_h2s (sy_env (dm_sys d))) (enc_frames []) \<and> q_holds (de_s2h (sy_env (dm_sys d))) (enc_frames [])"

lemma param_change_eq:
  assumes "length before = unat (md_total_params m)" "length (md_params m) = FL_MODEL_MAX_PARAMS"
    "length (md_grad m) = FL_MODEL_MAX_PARAMS" "unat (md_total_params m) \<le> FL_MODEL_MAX_PARAMS"
  shows "param_change before m = Some (m\<lparr>md_grad := map_prefix (unat (md_total_params m)) (\<lambda>i _. md_params m ! i - before ! i) (md_grad m)\<rparr>)"
proof -
  have "for_lt (unat (md_total_params m)) (\<lambda>i g. do {
            p \<leftarrow> rd (md_params m) i; p0 \<leftarrow> rd before i; wr g i (p - p0) }) (md_grad m)
      = Some (map_prefix (unat (md_total_params m)) (\<lambda>i _. md_params m ! i - before ! i) (md_grad m))"
    by (rule for_lt_map) (use assms in simp_all)
  then show ?thesis by (simp add: param_change_def)
qed

lemma demo_beacon_tick:
  assumes W: "world_ok W" and s: "demo_shard_ok W (sy_shard y)" "sys_state y = FL_SHARD_STATE_IDLE"
    and q: "q_holds (de_h2s (sy_env y)) (enc_frames [herald_wire FL_FRAME_BEACON rid 0 1 (beacon_bytes b)])"
  shows "\<exists>q' x. q_holds q' (enc_frames []) \<and> length x = 224
    \<and> fl_shard_tick lm cb (dw_locals W) y = Some (FL_SHARD_STATE_TRAINING,
      y\<lparr>sy_shard := (sy_shard y)\<lparr>sh_rx_buf := x, sh_beacon := b, sh_current_round := bp_round_id b, sh_state := FL_SHARD_STATE_TRAINING\<rparr>,
        sy_env := (sy_env y)\<lparr>de_h2s := q'\<rparr>\<rparr>)"
proof -
  have c: "sh_hal (sy_shard y) = demo_hal (dw_clock W)" "length (sh_rx_buf (sy_shard y)) = 224" "wf_frame (jk_frame (dw_locals W))"
    "cc_encrypt_enabled (sh_crypto (sy_shard y)) = 0"
    using W s(1) by (simp_all add: world_ok_def demo_shard_ok_def wf_locals_def wf_shard_def)
  show ?thesis using beacon_tick [OF c(2,1) s(2) c(4,3) q] .
qed

lemma demo_training_tick:
  assumes s: "demo_shard_ok W (sy_shard y)" "sys_state y = FL_SHARD_STATE_TRAINING"
    and t: "train_fits (sy_train y)" "sample_fits (ts_sample (sy_train y))" and i: "de_sidx (sy_env y) = 0"
  shows "\<exists>m ts e. fl_shard_tick lm (demo_cb train) junk y = Some (FL_SHARD_STATE_ENCODING,
      \<lparr>sy_shard = (sy_shard y)\<lparr>sh_model := m, sh_state := FL_SHARD_STATE_ENCODING\<rparr>, sy_train = ts, sy_env = e\<rparr>)
    \<and> net_fits m \<and> md_total_params m = 58 \<and> train_fits ts \<and> sample_fits (ts_sample ts)
    \<and> de_h2s e = de_h2s (sy_env y) \<and> de_s2h e = de_s2h (sy_env y)
    \<and> (\<forall>i < 58. md_grad m ! i = md_params m ! i - md_params (sh_model (sy_shard y)) ! i)"
proof -
  let ?m = "sh_model (sy_shard y)" let ?c = "train_config (sh_beacon (sy_shard y))"
  have m: "net_fits ?m" "md_total_params ?m = 58" "sh_hal (sy_shard y) = demo_hal (dw_clock W)"
    using s(1) by (simp_all add: demo_shard_ok_def)
  have left: "80 - unat (de_sidx (sy_env y)) = 80" using i by simp
  obtain total m1 ts e where r: "fl_train_run lm ?c (demo_cb train) (sy_env y) (?m, sy_train y) = Some (total, (m1, ts), e)"
    "net_fits m1" "same_shape ?m m1" "train_fits ts" "sample_fits (ts_sample ts)"
    using demo_link.train_run_returns [OF m(1) t left, of lm ?c train] by auto
  have q: "de_h2s e = de_h2s (sy_env y)" "de_s2h e = de_s2h (sy_env y)"
    using train_run_env [OF r(1), of de_h2s] train_run_env [OF r(1), of de_s2h] by (simp_all add: demo_cb_queues)
  have m1: "length (md_params m1) = 4096" "length (md_grad m1) = 4096" "md_total_params m1 = 58" "length (md_params ?m) = 4096"
    using m(1,2) r(2,3) by (simp_all add: net_fits_def same_shape_def)
  let ?g = "map_prefix 58 (\<lambda>i _. md_params m1 ! i - take 58 (md_params ?m) ! i) (md_grad m1)"
  have "param_change (take 58 (md_params ?m)) m1 = Some (m1\<lparr>md_grad := ?g\<rparr>)"
    using param_change_eq [of "take 58 (md_params ?m)" m1] m1 by simp
  then have "fl_shard_tick lm (demo_cb train) junk y = Some (FL_SHARD_STATE_ENCODING,
      \<lparr>sy_shard = (sy_shard y)\<lparr>sh_model := m1\<lparr>md_grad := ?g\<rparr>, sh_state := FL_SHARD_STATE_ENCODING\<rparr>, sy_train = ts, sy_env = e\<rparr>)"
    using s(2) r(1) m m1 by (simp add: fl_shard_tick_def tick_training_def Let_def)
  moreover have "net_fits (m1\<lparr>md_grad := ?g\<rparr>)" using r(2) m1 by simp
  ultimately show ?thesis using r(4,5) q m1
    by (intro exI [of _ "m1\<lparr>md_grad := ?g\<rparr>"] exI [of _ ts] exI [of _ e]) simp
qed

section \<open>The update on its way\<close>

text \<open>What the shard is about to send: the change of its parameters in this round and what it had kept
  back.\<close>

definition demo_eff :: "demo_env sys \<Rightarrow> f32 list" where
  "demo_eff y = effective (md_grad (sh_model (sy_shard y))) (Some (sh_residual (sy_shard y))) 58"

definition finite_change :: "demo_env sys \<Rightarrow> bool" where
  "finite_change y \<longleftrightarrow> (\<forall>i < 58. \<not> f_nan (eff_at (md_grad (sh_model (sy_shard y))) (Some (sh_residual (sy_shard y))) i))"

lemma k58: "sparse_k 58 5 = 5" "sparse_k 58 14 = 14" "min 58 FL_MODEL_MAX_PARAMS = 58" "unat (58 :: u16) = 58"
  by (simp_all add: sparse_k_def)

text \<open>Fewer than five coordinates are sent only if every other change is negligible.\<close>

abbreviation rest_small :: "f32 list \<Rightarrow> nat list \<Rightarrow> bool" where
  "rest_small eff ks \<equiv> length ks < 5 \<longrightarrow> (\<forall>j < 58. j \<notin> set ks \<longrightarrow> mag_at eff j < sparse_tiny)"

lemma demo_encoding_tick:
  assumes s: "demo_shard_ok W (sy_shard y)" "sys_state y = FL_SHARD_STATE_ENCODING" and fin: "finite_change y"
  shows "\<exists>ks res buf. fl_shard_tick lm cb junk y = Some (FL_SHARD_STATE_TX,
      y\<lparr>sy_shard := (sy_shard y)\<lparr>sh_residual := res, sh_update_buf := buf, sh_tx_frag_sent := 0,
        sh_tx_frag_total := fl_sparse_fragment_count buf, sh_state := FL_SHARD_STATE_TX\<rparr>\<rparr>)
    \<and> length res = FL_MODEL_MAX_PARAMS \<and> wf_sparse buf \<and> unat (sb_count buf) = length ks
    \<and> sb_list buf = map (sparse_entry (demo_eff y)) ks \<and> top_list (demo_eff y) 58 ks \<and> length ks \<le> 5
    \<and> rest_small (demo_eff y) ks"
proof -
  let ?m = "sh_model (sy_shard y)" let ?r = "sh_residual (sy_shard y)"
  have c: "length (md_grad ?m) = 4096" "length ?r = 4096" "wf_sparse (sh_update_buf (sy_shard y))"
    "dp_dp_enabled (sh_dp (sy_shard y)) = 0" "md_total_params ?m = 58" "sh_hal (sy_shard y) = demo_hal (dw_clock W)"
    using s(1) by (simp_all add: demo_shard_ok_def wf_shard_def)
  have k: "shard_topk ?m = 5" by (simp add: shard_topk_def c(5))
  have g: "58 \<le> length (md_grad ?m)" "\<forall>r. Some ?r = Some r \<longrightarrow> 58 \<le> length r" using c(1,2) by simp_all
  from fl_sparse_encode_spec [of 58 "md_grad ?m" "Some ?r" "sh_update_buf (sy_shard y)" 5, unfolded k58,
      OF g c(3) fin [unfolded finite_change_def], folded demo_eff_def]
  obtain ks buf where e: "fl_sparse_encode (md_grad ?m) 58 5 (Some ?r) (sh_update_buf (sy_shard y)) = Some (of_nat (length ks),
        map_option (map_prefix 58 (\<lambda>i _. if i \<in> set ks then 0 else demo_eff y ! i)) (Some ?r), buf)"
    "wf_sparse buf" "unat (sb_count buf) = length ks" "sb_list buf = map (sparse_entry (demo_eff y)) ks"
    "top_list (demo_eff y) 58 ks" "length ks \<le> 5" "rest_small (demo_eff y) ks"
    by auto
  then show ?thesis using s(2) c k
    by (intro exI [of _ ks] exI [of _ "map_prefix 58 (\<lambda>i _. if i \<in> set ks then 0 else demo_eff y ! i) ?r"] exI [of _ buf])
      (simp add: fl_shard_tick_def tick_encoding_def Let_def)
qed

lemma tx_loop_run:
  assumes "run_ticks lm (demo_cb train) junk n y0 = Some y" "sys_state y \<noteq> FL_SHARD_STATE_TX"
    and "\<And>i z. i < n \<Longrightarrow> run_ticks lm (demo_cb train) junk i y0 = Some z \<Longrightarrow> sys_state z = FL_SHARD_STATE_TX"
  shows "demo_tx_loop lm train junk y0 = Some y"
proof -
  have "run_ticks lm (demo_cb train) junk k y0 = Some z \<Longrightarrow> k \<le> n \<Longrightarrow> demo_tx_loop lm train junk y0 = demo_tx_loop lm train junk z" for k z
  proof (induction k arbitrary: z)
    case (Suc k)
    then obtain x st where x: "run_ticks lm (demo_cb train) junk k y0 = Some x" "fl_shard_tick lm (demo_cb train) junk x = Some (st, z)"
      by (auto simp: bind_eq_Some_conv)
    then have "demo_tx_loop lm train junk x = demo_tx_loop lm train junk z"
      using assms(3) [of k x] Suc.prems(2) by (subst demo_tx_loop.simps) simp
    then show ?case using Suc.IH [OF x(1)] Suc.prems(2) by simp
  qed simp
  from this [OF assms(1)] show ?thesis using assms(2) by (simp add: demo_tx_loop.simps [of lm train junk y])
qed

end
