(* ===== verification/Demo_Outcome.thy ===== *)
theory Demo_Outcome
  imports Demo_Correct
begin

text \<open>
  The rounds of the demonstration, end to end: the training phase, the update on its way to the
  aggregate, the delta on its way back, and the six rounds of the program.
\<close>

section \<open>The training phase\<close>

lemma demo_train_phase_ready:
  assumes W: "world_ok W" and d: "demo_inv W d"
  shows "\<exists>d1. demo_train_phase W rid d = Some d1 \<and> demo_ready W d1 \<and> dm_global d1 = dm_global d
    \<and> sh_residual (sy_shard (dm_sys d1)) = sh_residual (sy_shard (dm_sys d))
    \<and> sh_rounds_completed (sy_shard (dm_sys d1)) = sh_rounds_completed (sy_shard (dm_sys d))
    \<and> (\<forall>i < 58. md_grad (sh_model (sy_shard (dm_sys d1))) ! i
          = md_params (sh_model (sy_shard (dm_sys d1))) ! i - md_params (sh_model (sy_shard (dm_sys d))) ! i)"
proof -
  let ?y = "dm_sys d" let ?b = "demo_beacon rid (dm_global d)" let ?B = "beacon_bytes ?b"
  let ?e = "(sy_env ?y)\<lparr>de_h2s := zero_BQ, de_s2h := zero_BQ\<rparr>"
  have I: "demo_shard_ok W (sy_shard ?y)" "sys_state ?y = FL_SHARD_STATE_IDLE" "train_fits (sy_train ?y)"
    "sample_fits (ts_sample (sy_train ?y))" "herald_side_ok d"
    using d by (simp_all add: demo_inv_def)
  have clk: "dw_clock W ?e = (fst (dw_clock W ?e), ?e)" using W by (metis prod.collapse world_ok_def)
  have q0: "q_holds (de_h2s ?e) (enc_frames [])" using zero_BQ_holds by simp
  have lb: "length ?B = 17" by simp
  obtain q where q: "h_push (jk_frame (dw_locals W)) FL_FRAME_BEACON rid 0 1 (Some ?B) 17 ?e = Some (?e\<lparr>de_h2s := q\<rparr>)"
    "q_holds q (enc_frames [herald_wire FL_FRAME_BEACON rid 0 1 ?B])"
    using h_push_frame [OF q0, of 17 "Some ?B" "jk_frame (dw_locals W)" FL_FRAME_BEACON rid 0 1] lb by auto
  let ?y1 = "?y\<lparr>sy_env := ?e\<lparr>de_h2s := q\<rparr>\<rparr>"
  have o: "demo_open (dw_clock W) (dw_locals W) rid d = Some (d\<lparr>dm_sys := ?y1\<rparr>)"
    unfolding demo_open_def Let_def by (subst clk) (simp add: q(1))
  obtain q' x where t: "q_holds q' (enc_frames [])" "length x = 224"
    "fl_shard_tick (dw_libm W) (demo_cb (dw_train W)) (dw_locals W) ?y1 = Some (FL_SHARD_STATE_TRAINING,
      ?y1\<lparr>sy_shard := (sy_shard ?y1)\<lparr>sh_rx_buf := x, sh_beacon := ?b, sh_current_round := bp_round_id ?b, sh_state := FL_SHARD_STATE_TRAINING\<rparr>,
        sy_env := (sy_env ?y1)\<lparr>de_h2s := q'\<rparr>\<rparr>)"
    using demo_beacon_tick [OF W, of ?y1 rid ?b "dw_libm W" "demo_cb (dw_train W)"] I(1,2) q(2) by auto
  let ?s2 = "(sy_shard ?y)\<lparr>sh_rx_buf := x, sh_beacon := ?b, sh_current_round := bp_round_id ?b, sh_state := FL_SHARD_STATE_TRAINING\<rparr>"
  let ?y2 = "?y\<lparr>sy_shard := ?s2, sy_env := ?e\<lparr>de_h2s := q', de_sidx := 0\<rparr>\<rparr>"
  have s2: "demo_shard_ok W (sy_shard ?y2)" using I(1) t(2) by (simp add: demo_shard_ok_def wf_shard_def)
  obtain m ts e where r: "fl_shard_tick (dw_libm W) (demo_cb (dw_train W)) (dw_locals W) ?y2 = Some (FL_SHARD_STATE_ENCODING,
      \<lparr>sy_shard = (sy_shard ?y2)\<lparr>sh_model := m, sh_state := FL_SHARD_STATE_ENCODING\<rparr>, sy_train = ts, sy_env = e\<rparr>)"
    "net_fits m" "md_total_params m = 58" "train_fits ts" "sample_fits (ts_sample ts)"
    "de_h2s e = q'" "de_s2h e = zero_BQ"
    "\<forall>i < 58. md_grad m ! i = md_params m ! i - md_params (sh_model (sy_shard ?y)) ! i"
    using demo_training_tick [OF s2, of "dw_libm W" "dw_train W" "dw_locals W"] I(3,4) by auto
  let ?d1 = "d\<lparr>dm_sys := \<lparr>sy_shard = (sy_shard ?y2)\<lparr>sh_model := m, sh_state := FL_SHARD_STATE_ENCODING\<rparr>, sy_train = ts, sy_env = e\<rparr>\<rparr>"
  have "demo_train_phase W rid d = Some ?d1"
    using o t(3) r(1) by (simp add: demo_train_phase_def demo_local_def Let_def)
  moreover have "demo_ready W ?d1"
    using s2 r(2-7) t(1) I(5) zero_BQ_holds
    by (simp add: demo_ready_def demo_shard_ok_def wf_shard_def net_fits_def herald_side_ok_def)
  ultimately show ?thesis using r(8) by (intro exI [of _ ?d1]) simp
qed

section \<open>The update arrives\<close>

lemma tx_result_train: "sy_train (tx_result r y) = sy_train y"
  by (simp add: tx_result_def Let_def)

lemma tick_tx_train: "tick_tx junk y = Some y' \<Longrightarrow> sy_train y' = sy_train y"
  by (cases "sh_tx_frag_total (sy_shard y) = 0"; cases "sh_tx_frag_sent (sy_shard y) < sh_tx_frag_total (sy_shard y)")
    (auto simp: tick_tx_def Let_def bind_eq_Some_conv tx_result_train)

lemma run_ticks_train:
  assumes "run_ticks lm cb junk n y = Some z"
    and "\<And>i x. i < n \<Longrightarrow> run_ticks lm cb junk i y = Some x \<Longrightarrow> sys_state x = FL_SHARD_STATE_TX"
  shows "sy_train z = sy_train y"
  using assms
proof (induction n arbitrary: z)
  case (Suc n)
  then obtain x where x: "run_ticks lm cb junk n y = Some x" "map_option snd (fl_shard_tick lm cb junk x) = Some z"
    by (auto simp: bind_eq_Some_conv)
  moreover have "sys_state x = FL_SHARD_STATE_TX" using Suc.prems(2) [of n x] x(1) by simp
  ultimately have "tick_tx junk x = Some z" by (auto simp: fl_shard_tick_def bind_eq_Some_conv)
  then show ?case using tick_tx_train Suc.IH [OF x(1)] Suc.prems(2) by (metis less_Suc_eq)
qed simp

lemma demo_update_arrives:
  assumes W: "world_ok W" and d: "demo_ready W d" and fin: "finite_change (dm_sys d)"
  shows "\<exists>ks y q pool. demo_send_update (dw_libm W) (dw_train W) (dw_locals W) d = Some (d\<lparr>dm_sys := y\<rparr>)
    \<and> sys_state y = FL_SHARD_STATE_AWAIT_ACK \<and> demo_shard_ok W (sy_shard y)
    \<and> sh_model (sy_shard y) = sh_model (sy_shard (dm_sys d))
    \<and> sh_rounds_completed (sy_shard y) = sh_rounds_completed (sy_shard (dm_sys d)) \<and> sy_train y = sy_train (dm_sys d)
    \<and> q_holds (de_h2s (sy_env y)) (enc_frames [])
    \<and> demo_drain (jk_frame (dw_locals W)) (dw_now W) 0 (de_s2h (sy_env y)) (fl_pool_init 300) (dw_rx W) = Some (q, pool)
    \<and> top_list (demo_eff (dm_sys d)) 58 ks \<and> length ks \<le> 5 \<and> rest_small (demo_eff (dm_sys d)) ks
    \<and> (case fl_pool_get_complete pool 1 of None \<Rightarrow> ks = []
       | Some b \<Rightarrow> wf_sparse b \<and> sb_list b = map (sparse_entry (demo_eff (dm_sys d))) ks)"
proof -
  let ?y = "dm_sys d" and ?lm = "dw_libm W" and ?cb = "demo_cb (dw_train W)" and ?junk = "dw_locals W"
  have I: "demo_shard_ok W (sy_shard ?y)" "sys_state ?y = FL_SHARD_STATE_ENCODING"
    "q_holds (de_h2s (sy_env ?y)) (enc_frames [])" "q_holds (de_s2h (sy_env ?y)) (enc_frames [])"
    using d by (simp_all add: demo_ready_def)
  have j: "wf_frame (jk_frame ?junk)" "length (jk_payload ?junk) = FL_PAYLOAD_MAX" "length (dw_rx W) = FL_FRAME_MAX_SIZE"
    using W by (simp_all add: world_ok_def wf_locals_def)
  obtain ks res buf where e: "fl_shard_tick ?lm ?cb ?junk ?y = Some (FL_SHARD_STATE_TX,
      ?y\<lparr>sy_shard := (sy_shard ?y)\<lparr>sh_residual := res, sh_update_buf := buf, sh_tx_frag_sent := 0,
        sh_tx_frag_total := fl_sparse_fragment_count buf, sh_state := FL_SHARD_STATE_TX\<rparr>\<rparr>)"
    "length res = FL_MODEL_MAX_PARAMS" "wf_sparse buf" "unat (sb_count buf) = length ks"
    "sb_list buf = map (sparse_entry (demo_eff ?y)) ks" "top_list (demo_eff ?y) 58 ks" "length ks \<le> 5" "rest_small (demo_eff ?y) ks"
    using demo_encoding_tick [OF I(1,2) fin, of ?lm ?cb ?junk] by blast
  define s0 where "s0 = (sy_shard ?y)\<lparr>sh_residual := res, sh_update_buf := buf, sh_tx_frag_sent := 0,
        sh_tx_frag_total := fl_sparse_fragment_count buf, sh_state := FL_SHARD_STATE_TX\<rparr>"
  let ?y0 = "?y\<lparr>sy_shard := s0\<rparr>"
  have ok: "demo_shard_ok W (s0\<lparr>sh_tx_frag_sent := n, sh_state := st\<rparr>)" for n st
    using I(1) e(2,3) by (simp add: s0_def demo_shard_ok_def wf_shard_def)
  have hal: "sh_hal s0 = demo_hal (dw_clock W)" "sh_shard_id s0 = 1" "\<not> crypto_ready (sh_crypto s0)"
    using I(1) by (simp_all add: s0_def demo_shard_ok_def crypto_ready_def)
  show ?thesis
  proof (cases "ks = []")
    case True
    let ?z = "?y\<lparr>sy_shard := s0\<lparr>sh_state := FL_SHARD_STATE_AWAIT_ACK\<rparr>\<rparr>"
    have "fl_sparse_fragment_count buf = 0" using True e(4) by (simp add: fl_sparse_fragment_count_def)
    then have "fl_shard_tick ?lm ?cb ?junk ?y0 = Some (FL_SHARD_STATE_AWAIT_ACK, ?z)"
      using hal(1) by (simp add: fl_shard_tick_def tick_tx_def s0_def Let_def)
    then have "run_ticks ?lm ?cb ?junk 1 ?y0 = Some ?z" by simp
    then have "demo_tx_loop ?lm (dw_train W) ?junk ?y0 = Some ?z"
      by (rule tx_loop_run) (auto simp: s0_def)
    then have "demo_send_update ?lm (dw_train W) ?junk d = Some (d\<lparr>dm_sys := ?z\<rparr>)"
      using e(1) by (simp add: demo_send_update_def s0_def)
    moreover have "demo_drain (jk_frame ?junk) (dw_now W) 0 (de_s2h (sy_env ?z)) (fl_pool_init 300) (dw_rx W)
        = Some (de_s2h (sy_env ?y), fl_pool_init 300)"
      using q_pop_empty [OF I(4)] by (simp add: demo_drain.simps)
    moreover have "fl_pool_get_complete (fl_pool_init 300) 1 = None"
      by (simp add: fl_pool_get_complete_def fl_pool_init_def first_slot_None zero_slot_def)
    moreover have "demo_shard_ok W (sy_shard ?z)" using I(1) e(2,3) by (simp add: s0_def demo_shard_ok_def wf_shard_def)
    ultimately show ?thesis using True e(6,8) I(3)
      by (intro exI [of _ ks] exI [of _ ?z] exI [of _ "de_s2h (sy_env ?y)"] exI [of _ "fl_pool_init 300"]) (simp add: s0_def)
  next
    case False
    have r: "ready_to_send (sy_shard ?y0)" using False e(3,4) hal(3) by (auto simp: ready_to_send_def s0_def)
    have st: "sys_state ?y0 = FL_SHARD_STATE_TX" "sh_tx_frag_sent (sy_shard ?y0) = 0" by (simp_all add: s0_def)
    have h: "sh_hal (sy_shard ?y0) = demo_hal (dw_clock W)" and q: "q_holds (de_s2h (sy_env ?y0)) []" using hal(1) I(4) by simp_all
    let ?n = "frag_total (sh_update_buf (sy_shard ?y0))"
    obtain z q' pool b es rs where z: "run_ticks ?lm ?cb ?junk ?n ?y0 = Some z" "sending ?y0 ?n z"
      "demo_drain (jk_frame ?junk) (dw_now W) 0 (de_s2h (sy_env z)) (fl_pool_init 300) (dw_rx W) = Some (q', pool)"
      "fl_pool_get_complete pool (sh_shard_id (sy_shard ?y0)) = Some b" "sb_list b = sb_list (sh_update_buf (sy_shard ?y0))"
      "list_all2 (carries (sh_update_buf (sy_shard ?y0)) (sh_shard_id (sy_shard ?y0))) [0..<?n] es"
      "pool_run (fl_pool_init 300) es = Some (rs, pool)"
      using update_arrives [OF r h st q j(2,1,3)] by blast
    have zs: "sy_shard z = s0\<lparr>sh_tx_frag_sent := of_nat ?n, sh_state := FL_SHARD_STATE_AWAIT_ACK\<rparr>"
      "de_h2s (sy_env z) = de_h2s (sy_env ?y)"
      using z(2) by (auto simp: sending_def)
    have s0: "sending ?y0 0 ?y0" using st q ready_frags(1) [OF r] by (auto simp: sending_def)
    have tx: "sys_state x = FL_SHARD_STATE_TX" if i: "i < ?n" "run_ticks ?lm ?cb ?junk i ?y0 = Some x" for i x
    proof -
      have "\<exists>x. run_ticks ?lm ?cb ?junk i ?y0 = Some x \<and> sending ?y0 i x"
        by (rule sending_all [OF r j(2) h s0]) (use i(1) in simp)
      then have "sending ?y0 i x" using i(2) by auto
      then show ?thesis using i(1) by (auto simp: sending_def)
    qed
    have "demo_tx_loop ?lm (dw_train W) ?junk ?y0 = Some z"
      by (rule tx_loop_run [OF z(1) _ tx]) (simp add: zs)
    then have "demo_send_update ?lm (dw_train W) ?junk d = Some (d\<lparr>dm_sys := z\<rparr>)"
      using e(1) by (simp add: demo_send_update_def s0_def)
    moreover have "wf_pool pool" by (rule pool_run_wf [OF wf_pool_init z(6) _ _ z(7)]) (simp_all add: s0_def e(3))
    then have "wf_sparse b" using get_complete_wf z(4) by blast
    moreover have "sy_train z = sy_train ?y" using run_ticks_train [OF z(1) tx] by simp
    ultimately show ?thesis using z(3-5) e(5-8) zs ok I(3) hal(2)
      by (intro exI [of _ ks] exI [of _ z] exI [of _ q'] exI [of _ pool]) (simp add: s0_def)
  qed
qed

section \<open>The Herald aggregates\<close>

lemma f_div_1:
  assumes x: "\<not> f_nan x" "\<not> f_inf x"
  shows "f_ord (f_div x (f_of_int 1)) = f_ord x" "\<not> f_nan (f_div x (f_of_int 1))"
proof -
  have "(1 :: int) < 2 ^ 24" by simp
  have y: "f_ord (f_of_int 1) = 1 * 2 ^ 149" "\<not> f_nan (f_of_int 1)" "\<not> f_inf (f_of_int 1)"
    by (rule f_of_int_exact; simp)+
  have s: "\<not> f_sign (f_of_int 1)" "f_mag (f_of_int 1) = 2 ^ 149"
    using y(1) by (auto simp: f_ord_def split: if_splits)
  obtain q e where qe: "f_mag x = q * 2 ^ e" "q < 2 ^ 24" by (rule f_mag_repr [OF x])
  have "f_mag x < 2 ^ 277" using x f_mag_finite by blast
  then have "q * 2 ^ e < 2 ^ 277" by (simp only: qe)
  moreover have "\<bar>f_ord x\<bar> = int (q * 2 ^ e)" by (simp only: f_ord_abs qe(1))
  ultimately have "rnd (f_ord x * 2 ^ 149) (2 ^ 149) = f_ord x" by (intro rnd_exact [OF _ qe(2), of _ e]) simp_all
  then show "f_ord (f_div x (f_of_int 1)) = f_ord x" "\<not> f_nan (f_div x (f_of_int 1))"
    using f_ord_div [OF x y(2,3) s(1)] s(2) by simp_all
qed

lemma agg_mean_one:
  assumes "grid K (u ! i)"
  shows "f_ord (agg_mean [u] i) = f_ord (u ! i)" "\<not> f_nan (agg_mean [u] i)"
proof -
  have u: "\<not> f_nan (u ! i)" "\<not> f_inf (u ! i)" using gridD [OF assms] by simp_all
  have z: "f_ord (0 + u ! i) = f_ord (u ! i)" by (rule f_ord_add_0 [OF u(1)])
  have n: "\<not> f_nan (0 + u ! i)" by (rule f_ord_add(2)) (use u in simp_all)
  have "\<not> f_inf (0 + u ! i)"
    using f_mag_finite [OF n] f_mag_finite [OF u(1)] u(2) z f_ord_abs by (metis of_nat_eq_iff)
  from f_div_1 [OF n this] show "f_ord (agg_mean [u] i) = f_ord (u ! i)" "\<not> f_nan (agg_mean [u] i)"
    using z by (simp_all add: agg_mean_def coord_sum_def)
qed

lemma demo_decode_value:
  assumes "wf_sparse b" "sb_list b = map (sparse_entry eff) ks" "top_list eff 58 ks" "58 \<le> length dense"
  shows "\<exists>u. fl_sparse_decode b dense 58 False = Some u \<and> length u = length dense \<and> update_ok 58 u
    \<and> (\<forall>i < 58. f_ord (u ! i) = sent_value eff ks i)"
  using sparse_decode_ok [of b 58 dense] decode_sent [OF assms(1,2), of 58 dense] assms by (auto simp: top_list_def)

lemma demo_aggregate_spec:
  assumes d: "herald_side_ok d" and t: "top_list eff 58 ks"
    and p: "case fl_pool_get_complete (dm_pool d) 1 of None \<Rightarrow> ks = []
      | Some b \<Rightarrow> wf_sparse b \<and> sb_list b = map (sparse_entry eff) ks"
  shows "\<exists>agg dense delta g.
    demo_aggregate qs d = Some (d\<lparr>dm_agg := agg, dm_dense_delta := dense, dm_agg_delta := delta, dm_global := g\<rparr>)
    \<and> herald_side_ok (d\<lparr>dm_agg := agg, dm_dense_delta := dense, dm_agg_delta := delta, dm_global := g\<rparr>)
    \<and> (\<forall>i < 58. \<not> f_nan (delta ! i) \<and> f_ord (delta ! i) = sent_value eff ks i)
    \<and> (\<forall>i < 58. md_params g ! i = md_params (dm_global d) ! i + delta ! i)"
proof -
  let ?g = "dm_global d"
  have h: "length (md_params ?g) = 4096" "md_total_params ?g = 58" "wf_agg (dm_agg d)" "length (dm_dense_delta d) = 58"
    "length (dm_agg_delta d) = 58" using d by (simp_all add: herald_side_ok_def)
  obtain a where a: "fl_agg_init (dm_agg d) FL_AGG_FEDAVG (Some (md_params ?g)) 58 = Some a" "agg_inv FL_AGG_FEDAVG 58 [] a"
    using agg_init_inv [OF h(3), of 58 "Some (md_params ?g)" FL_AGG_FEDAVG] h(1) by auto
  have app: "fl_model_apply_delta ?g delta 58 = Some (?g\<lparr>md_params := map_prefix 58 (\<lambda>i p. p + delta ! i) (md_params ?g)\<rparr>)"
    if "length delta = 58" for delta
    using model_apply_delta_eq [of ?g delta] h that by simp
  have fin: ?thesis if r: "(case fl_pool_get_complete (dm_pool d) 1 of None \<Rightarrow> Some (a, dm_dense_delta d)
          | Some sb \<Rightarrow> do { dense \<leftarrow> fl_sparse_decode sb (dm_dense_delta d) 58 False; agg \<leftarrow> fl_agg_add a dense 58 80; Some (agg, dense) })
        = Some (agg, dense)" "wf_agg agg" "length dense = 58" "fl_agg_finalize qs agg (dm_agg_delta d) = Some delta" "length delta = 58"
      "\<forall>i < 58. \<not> f_nan (delta ! i) \<and> f_ord (delta ! i) = sent_value eff ks i" for agg dense delta
  proof -
    let ?m = "?g\<lparr>md_params := map_prefix 58 (\<lambda>i p. p + delta ! i) (md_params ?g)\<rparr>"
    have "demo_aggregate qs d = Some (d\<lparr>dm_agg := agg, dm_dense_delta := dense, dm_agg_delta := delta, dm_global := ?m\<rparr>)"
      unfolding demo_aggregate_def Let_def h(2) a(1) using r(1,4) app [OF r(5)] by simp
    moreover have "herald_side_ok (d\<lparr>dm_agg := agg, dm_dense_delta := dense, dm_agg_delta := delta, dm_global := ?m\<rparr>)"
      using h r(2,3,5) by (simp add: herald_side_ok_def)
    ultimately show ?thesis using r(6) h(1)
      by (intro exI [of _ agg] exI [of _ dense] exI [of _ delta] exI [of _ ?m]) simp
  qed
  show ?thesis
  proof (cases "fl_pool_get_complete (dm_pool d) 1")
    case None
    then have "ks = []" using p by simp
    moreover have "ag_shard_count a = 0" "ag_param_count a = 58" "wf_agg a"
      using a(2) by (simp_all add: agg_inv_def unat_eq_zero)
    moreover have "fl_agg_finalize qs a (dm_agg_delta d) = Some (replicate 58 0)"
      using calculation h(5) by (simp add: fl_agg_finalize_def Let_def)
    ultimately show ?thesis using None h(4)
      by (intro fin [of a "dm_dense_delta d" "replicate 58 0"]) (simp_all add: sent_value_def)
  next
    case (Some b)
    obtain u where u: "fl_sparse_decode b (dm_dense_delta d) 58 False = Some u" "length u = 58" "update_ok 58 u"
      "\<forall>i < 58. f_ord (u ! i) = sent_value eff ks i"
      using demo_decode_value [OF _ _ t, of b "dm_dense_delta d"] p Some h(4) by auto
    obtain a2 where a2: "fl_agg_add a u 58 80 = Some a2" "agg_inv FL_AGG_FEDAVG 58 [u] a2"
      using agg_add_step [OF a(2), of u 80] u(2) by auto
    have f: "fl_agg_finalize qs a2 (dm_agg_delta d) = Some (map_prefix 58 (\<lambda>i _. agg_mean [u] i) (dm_agg_delta d))"
      using finalize_fedavg_eq [OF a2(2), of "dm_agg_delta d" qs] h(5) by simp
    have v: "\<not> f_nan (agg_mean [u] i) \<and> f_ord (agg_mean [u] i) = sent_value eff ks i" if "i < 58" for i
      using agg_mean_one [of 131072 u i] u(3,4) that by (simp add: update_ok_def)
    show ?thesis
      by (rule fin [of a2 u "map_prefix 58 (\<lambda>i _. agg_mean [u] i) (dm_agg_delta d)"])
        (use Some u(1,2) a2 f v h(5) in \<open>simp_all add: agg_inv_def\<close>)
  qed
qed

section \<open>The delta returns\<close>

lemma q8_value_scale: "- 128 \<le> q \<Longrightarrow> q \<le> 127 \<Longrightarrow> q8_value (q * 2 ^ 142) = q"
  by (auto simp: q8_value_def trunc_div_def)

lemma tiny_small: "0 < sparse_tiny" "sparse_tiny < 2 ^ 142"
  by (simp_all add: f_ord_def f32_eval)

lemma demo_delta_encoded:
  assumes delta: "length delta = 58" "\<forall>i < 58. \<not> f_nan (delta ! i) \<and> f_ord (delta ! i) = sent_value eff ks i"
    and t: "top_list eff 58 ks" and k: "length ks \<le> 5"
  defines "eff2 \<equiv> effective delta None 58"
  shows "\<exists>ks2 buf. fl_sparse_encode delta 58 14 None zero_sparse = Some (of_nat (length ks2), None, buf)
    \<and> wf_sparse buf \<and> unat (sb_count buf) = length ks2 \<and> sb_list buf = map (sparse_entry eff2) ks2
    \<and> top_list eff2 58 ks2 \<and> length ks2 \<le> 5 \<and> (\<forall>i < 58. sent_value eff2 ks2 i = sent_value eff ks i)"
proof -
  have z: "wf_sparse zero_sparse" by (simp add: zero_sparse_def wf_sparse_def)
  have e: "eff2 ! i = delta ! i" if "i < 58" for i using that by (simp add: eff2_def effective_def eff_at_def)
  have nan: "\<forall>i < 58. \<not> f_nan (eff_at delta None i)" using delta(2) by (simp add: eff_at_def)
  have g: "58 \<le> length delta" "\<forall>r. (None :: f32 list ptr) = Some r \<longrightarrow> 58 \<le> length r" using delta(1) by simp_all
  obtain ks2 buf where b: "fl_sparse_encode delta 58 14 None zero_sparse = Some (of_nat (length ks2), None, buf)"
    "wf_sparse buf" "unat (sb_count buf) = length ks2" "sb_list buf = map (sparse_entry eff2) ks2" "top_list eff2 58 ks2"
    "length ks2 < 14 \<longrightarrow> (\<forall>j < 58. j \<notin> set ks2 \<longrightarrow> mag_at eff2 j < sparse_tiny)"
    using fl_sparse_encode_spec [of 58 delta None zero_sparse 14, unfolded k58, OF g z nan, folded eff2_def] by auto
  have in58: "i < 58" "sparse_tiny \<le> mag_at eff2 i" if "i \<in> set ks2" for i using b(5) that by (auto simp: top_list_def)
  have "set ks2 \<subseteq> set ks"
  proof
    fix i assume i: "i \<in> set ks2"
    then have "f_ord (delta ! i) \<noteq> 0" using in58 [OF i] e tiny_small(1) by auto
    then show "i \<in> set ks" using delta(2) in58(1) [OF i] by (auto simp: sent_value_def split: if_splits)
  qed
  then have "card (set ks2) \<le> card (set ks)" by (intro card_mono) simp_all
  then have l: "length ks2 \<le> 5" using b(5) t k by (simp add: top_list_def distinct_card)
  have "sent_value eff2 ks2 i = sent_value eff ks i" if i: "i < 58" for i
  proof (cases "i \<in> set ks2")
    case True
    then have k: "i \<in> set ks" using \<open>set ks2 \<subseteq> set ks\<close> by blast
    have "f_ord (eff2 ! i) = q8_value (f_ord (eff ! i)) * 2 ^ 142" using delta(2) e i k by (simp add: sent_value_def)
    then show ?thesis using True k q8_value_scale [OF q8_value_range] by (simp add: sent_value_def)
  next
    case False
    then have "\<bar>f_ord (delta ! i)\<bar> < sparse_tiny" using b(6) l i e by simp
    then have s: "\<bar>sent_value eff ks i\<bar> < 2 ^ 142" using delta(2) i tiny_small(2) by simp
    have "sent_value eff ks i = 0"
    proof (rule ccontr)
      assume n: "sent_value eff ks i \<noteq> 0"
      then have "sent_value eff ks i = q8_value (f_ord (eff ! i)) * 2 ^ 142" by (simp add: sent_value_def split: if_splits)
      moreover have "q8_value (f_ord (eff ! i)) \<noteq> 0" using n calculation by auto
      then have "1 \<le> \<bar>q8_value (f_ord (eff ! i))\<bar>" by linarith
      ultimately show False using s by (simp add: abs_mult)
    qed
    then show ?thesis using False by (simp add: sent_value_def)
  qed
  then show ?thesis using b l by blast
qed

lemma demo_topk_58: "md_total_params m = 58 \<Longrightarrow> demo_topk m = 14"
  by (simp add: demo_topk_def)

lemma demo_delta_sent:
  assumes W: "world_ok W" and d: "herald_side_ok d" and q: "q_holds (de_h2s (sy_env (dm_sys d))) (enc_frames [])"
    and enc: "fl_sparse_encode (dm_agg_delta d) 58 14 None zero_sparse = Some (n, None, buf)" "wf_sparse buf" "length (sb_list buf) \<le> 5"
  shows "\<exists>q'. demo_send_delta (dw_locals W) rid d = Some (d\<lparr>dm_sys := (dm_sys d)\<lparr>sy_env := (sy_env (dm_sys d))\<lparr>de_h2s := q'\<rparr>\<rparr>\<rparr>)
    \<and> q_holds q' (enc_frames [herald_wire FL_FRAME_DELTA rid 0 1 (concat (map entry_bytes (sb_list buf)))])"
proof -
  let ?junk = "dw_locals W" and ?e = "sy_env (dm_sys d)" and ?data = "concat (map entry_bytes (sb_list buf))"
  have c: "unat (sb_count buf) = length (sb_list buf)" using length_sb_list [OF enc(2)] by simp
  have ld: "length ?data = 3 * length (sb_list buf)" by (rule length_entries)
  have pl: "length (jk_payload ?junk) = FL_PAYLOAD_MAX" using W by (simp add: world_ok_def wf_locals_def)
  have ft: "(if fl_sparse_fragment_count buf = 0 then 1 else fl_sparse_fragment_count buf) = (1 :: u8)"
  proof (cases "sb_list buf")
    case Cons
    then have "(70 + length (sb_list buf)) div 71 = 1" using enc(3) by simp
    then show ?thesis by (simp add: fl_sparse_fragment_count_def c)
  qed (simp add: fl_sparse_fragment_count_def c)
  have "\<exists>p l. (if 0 < sb_count buf then do { (_, pl, pn) \<leftarrow> fl_sparse_write_fragment (jk_payload ?junk) 0 buf 0; Some (pl, pn) }
      else Some (jk_payload ?junk, 0)) = Some (p, l) \<and> unat l = length ?data \<and> take (length ?data) p = ?data"
  proof (cases "sb_list buf = []")
    case True
    then have "sb_count buf = 0" using c by (simp add: unat_eq_zero)
    then show ?thesis using True by simp
  next
    case False
    then have ne: "0 < sb_count buf" using c by (metis length_greater_0_conv unat_gt_0 word_neq_0_conv)
    have f0: "frag_entries buf 0 = sb_list buf" using enc(3) by (simp add: frag_entries_def)
    have "0 < frag_total buf" using False frag_total_covers(2) [of 0 buf] by simp
    then have i: "unat (0 :: u8) < frag_total buf" by simp
    obtain rest where "fl_sparse_write_fragment (jk_payload ?junk) 0 buf 0 = Some (0, ?data @ rest, of_nat (3 * length (sb_list buf)))"
      using fl_sparse_write_fragment_eq [OF enc(2) i, of "jk_payload ?junk" 0] pl f0 by auto
    moreover have "unat (of_nat (3 * length (sb_list buf)) :: u8) = 3 * length (sb_list buf)"
      by (rule unat_of_nat_u8) (use enc(3) in linarith)
    ultimately show ?thesis using ne ld by (intro exI [of _ "?data @ rest"] exI [of _ "of_nat (3 * length (sb_list buf))"]) simp
  qed
  then obtain p l where w: "(if 0 < sb_count buf then do { (_, pl, pn) \<leftarrow> fl_sparse_write_fragment (jk_payload ?junk) 0 buf 0; Some (pl, pn) }
      else Some (jk_payload ?junk, 0)) = Some (p, l)" "unat l = length ?data" "take (length ?data) p = ?data" by blast
  have le: "unat l \<le> length p" using w(2,3) by (metis nat_le_linear take_all)
  have "length ?data \<le> 15" using ld enc(3) by simp
  then obtain q' where q': "h_push (jk_frame ?junk) FL_FRAME_DELTA rid 0 1 (Some p) l ?e = Some (?e\<lparr>de_h2s := q'\<rparr>)"
    "q_holds q' (enc_frames ([] @ [herald_wire FL_FRAME_DELTA rid 0 1 ?data]))"
    using h_push_frame [OF q, of l "Some p" "jk_frame ?junk" FL_FRAME_DELTA rid 0 1] w(2,3) le by auto
  have "demo_delta_frag ?junk rid buf 1 0 ?e = Some (?e\<lparr>de_h2s := q'\<rparr>)"
    unfolding demo_delta_frag_def w(1) using q'(1) by simp
  moreover have "md_total_params (dm_global d) = 58" using d by (simp add: herald_side_ok_def)
  ultimately have "demo_send_delta ?junk rid d = Some (d\<lparr>dm_sys := (dm_sys d)\<lparr>sy_env := ?e\<lparr>de_h2s := q'\<rparr>\<rparr>\<rparr>)"
    using enc(1) ft by (simp add: demo_send_delta_def Let_def demo_topk_58 for_lt_Suc)
  then show ?thesis using q'(2) by auto
qed

lemma demo_ack_tick:
  assumes W: "world_ok W" and s: "demo_shard_ok W (sy_shard y)" "sys_state y = FL_SHARD_STATE_AWAIT_ACK"
    and q: "q_holds (de_h2s (sy_env y)) (enc_frames [herald_wire FL_FRAME_ACK rid 0 1 []])"
  shows "\<exists>q' x. q_holds q' (enc_frames []) \<and> length x = 224
    \<and> fl_shard_tick lm cb (dw_locals W) y = Some (FL_SHARD_STATE_RECV_DELTA,
      y\<lparr>sy_shard := (sy_shard y)\<lparr>sh_rx_buf := x, sh_rounds_completed := sh_rounds_completed (sy_shard y) + 1,
          sh_state := FL_SHARD_STATE_RECV_DELTA, sh_rx_frag_recv := 0, sh_rx_frag_total := 0, sh_delta_buf := zero_sparse\<rparr>,
        sy_env := (sy_env y)\<lparr>de_h2s := q'\<rparr>\<rparr>)"
proof -
  have c: "sh_hal (sy_shard y) = demo_hal (dw_clock W)" "length (sh_rx_buf (sy_shard y)) = 224" "wf_frame (jk_frame (dw_locals W))"
    using W s(1) by (simp_all add: world_ok_def demo_shard_ok_def wf_locals_def wf_shard_def)
  have "herald_wire FL_FRAME_ACK rid 0 1 [] = ack_wire rid" by (simp add: wire_of_def ack_wire_def)
  then show ?thesis using ack_tick [OF c(1) s(2) c(2,3), of rid lm cb] q by simp
qed

lemma demo_delta_received:
  assumes W: "world_ok W" and s: "demo_shard_ok W (sy_shard y)" "sys_state y = FL_SHARD_STATE_RECV_DELTA" "sh_rx_frag_recv (sy_shard y) = 0"
    and q: "q_holds (de_h2s (sy_env y)) (enc_frames [herald_wire FL_FRAME_DELTA rid 0 1 (concat (map entry_bytes es))])"
    and es: "es = map (sparse_entry eff) ks" "top_list eff 58 ks" "length es \<le> 5"
  shows "\<exists>y' v ps. demo_rx_loop (dw_locals W) (dw_rx W) 64 y = Some y' \<and> sys_state y' = FL_SHARD_STATE_IDLE
    \<and> demo_shard_ok W (sy_shard y') \<and> sh_model (sy_shard y') = (sh_model (sy_shard y))\<lparr>md_params := ps\<rparr>
    \<and> sh_rounds_completed (sy_shard y') = sh_rounds_completed (sy_shard y) \<and> sy_train y' = sy_train y
    \<and> q_holds (de_h2s (sy_env y')) (enc_frames [])
    \<and> (\<forall>i < 58. f_ord (v ! i) = sent_value eff ks i \<and> ps ! i = md_params (sh_model (sy_shard y)) ! i + v ! i)"
proof -
  let ?junk = "dw_locals W" and ?data = "concat (map entry_bytes es)"
  have ld: "length ?data = 3 * length es" by (rule length_entries)
  then have l: "length ?data \<le> 214" using es(3) by linarith
  have c: "wf_frame (jk_frame ?junk)" "length (dw_rx W) = 224" using W by (simp_all add: world_ok_def wf_locals_def)
  obtain q' b g where p: "q_pop (de_h2s (sy_env y)) (dw_rx W) = Some (1, q', b, of_nat (10 + length ?data))"
    "q_holds q' (enc_frames [])" "fl_frame_decode (Some b) (10 + length ?data) (Some (jk_frame ?junk)) = Some (FL_OK, Some g)"
    "frame_head g = frame_head (encoded_frame FL_FRAME_DELTA FL_SHARD_ID_HERALD rid 0 1 ?data)" "take (length ?data) (fr_payload g) = ?data"
    using pop_frame [OF q l c(2,1)] by blast
  have n: "unat (of_nat (10 + length ?data) :: u32) = 10 + length ?data" by (rule unat_of_nat_u32) (use l in simp)
  then have nz: "of_nat (10 + length ?data) \<noteq> (0 :: u32)" by (metis add_is_0 unat_0 zero_neq_numeral)
  have pay: "fr_payload g = ?data @ drop (length ?data) (fr_payload g)" by (metis append_take_drop_id p(5))
  have z: "wf_sparse zero_sparse" "sb_list zero_sparse = []" by (simp_all add: zero_sparse_def wf_sparse_def sb_list_def)
  have le: "length es \<le> 85" "length (sb_list zero_sparse) + length es \<le> 1024" using es(3) z(2) by simp_all
  obtain out where out: "fl_sparse_read_fragment (fr_payload g) (of_nat (3 * length es)) zero_sparse = Some (int (length es), out)"
    "wf_sparse out" "sb_list out = es"
    using fl_sparse_read_fragment_eq [OF z(1) le, of "drop (length ?data) (fr_payload g)"] pay z(2) by auto
  let ?y1 = "y\<lparr>sy_env := (sy_env y)\<lparr>de_h2s := q'\<rparr>\<rparr>"
  let ?y2 = "?y1\<lparr>sy_shard := (sy_shard y)\<lparr>sh_rx_frag_total := 1, sh_delta_buf := out, sh_rx_frag_recv := 1\<rparr>\<rparr>"
  have s2: "demo_shard_ok W (sy_shard ?y2)" using s(1) out(2) by (simp add: demo_shard_ok_def wf_shard_def)
  obtain v ps where v: "apply_delta ?junk ?y2 = Some (?y2\<lparr>sy_shard := (sy_shard ?y2)\<lparr>sh_model := (sh_model (sy_shard ?y2))\<lparr>md_params := ps\<rparr>,
        sh_state := FL_SHARD_STATE_IDLE\<rparr>\<rparr>)" "length ps = FL_MODEL_MAX_PARAMS"
    "\<forall>i < 58. f_ord (v ! i) = sent_value eff ks i \<and> ps ! i = md_params (sh_model (sy_shard ?y2)) ! i + v ! i"
    using apply_delta_value [of ?junk ?y2 "dw_clock W" eff ks] s2 W out(3) es(1,2)
    by (auto simp: demo_shard_ok_def world_ok_def top_list_def)
  let ?y3 = "?y2\<lparr>sy_shard := (sy_shard ?y2)\<lparr>sh_model := (sh_model (sy_shard ?y2))\<lparr>md_params := ps\<rparr>, sh_state := FL_SHARD_STATE_IDLE\<rparr>\<rparr>"
  have "on_delta ?junk (10 + length ?data) g ?y1 = Some ?y3"
    using s(2,3) out(1) v(1) head_fields [OF p(4)] ld
    by (simp add: on_delta_def Let_def mult.commute del: length_concat)
  then have "fl_shard_on_rx ?junk b (10 + length ?data) ?y1 = Some ?y3"
    using p(3) head_fields(1) [OF p(4)] by (simp add: fl_shard_on_rx_def del: length_concat)
  then have "demo_rx_loop ?junk (dw_rx W) (Suc 63) y = Some ?y3"
    using p(1) s(2) nz n by (subst demo_rx_loop.simps(2)) (simp add: numeral_eq_Suc del: length_concat of_nat_add)
  moreover have "demo_shard_ok W (sy_shard ?y3)"
    using s2 v(2) by (simp add: demo_shard_ok_def wf_shard_def net_fits_def)
  ultimately show ?thesis using p(2) v(3) by (intro exI [of _ ?y3] exI [of _ v] exI [of _ ps]) simp
qed

section \<open>A round\<close>

lemma demo_uplink_result:
  assumes W: "world_ok W" and d: "demo_ready W d" and fin: "finite_change (dm_sys d)"
  shows "\<exists>ks d1. demo_uplink W d = Some d1 \<and> top_list (demo_eff (dm_sys d)) 58 ks \<and> length ks \<le> 5
    \<and> rest_small (demo_eff (dm_sys d)) ks
    \<and> herald_side_ok d1 \<and> demo_shard_ok W (sy_shard (dm_sys d1)) \<and> sys_state (dm_sys d1) = FL_SHARD_STATE_AWAIT_ACK
    \<and> sh_model (sy_shard (dm_sys d1)) = sh_model (sy_shard (dm_sys d))
    \<and> sh_rounds_completed (sy_shard (dm_sys d1)) = sh_rounds_completed (sy_shard (dm_sys d))
    \<and> sy_train (dm_sys d1) = sy_train (dm_sys d) \<and> q_holds (de_h2s (sy_env (dm_sys d1))) (enc_frames [])
    \<and> (\<forall>i < 58. \<not> f_nan (dm_agg_delta d1 ! i) \<and> f_ord (dm_agg_delta d1 ! i) = sent_value (demo_eff (dm_sys d)) ks i
        \<and> md_params (dm_global d1) ! i = md_params (dm_global d) ! i + dm_agg_delta d1 ! i)"
proof -
  obtain ks y q pool where u: "demo_send_update (dw_libm W) (dw_train W) (dw_locals W) d = Some (d\<lparr>dm_sys := y\<rparr>)"
    "sys_state y = FL_SHARD_STATE_AWAIT_ACK" "demo_shard_ok W (sy_shard y)"
    "sh_model (sy_shard y) = sh_model (sy_shard (dm_sys d))"
    "sh_rounds_completed (sy_shard y) = sh_rounds_completed (sy_shard (dm_sys d))" "sy_train y = sy_train (dm_sys d)"
    "q_holds (de_h2s (sy_env y)) (enc_frames [])"
    "demo_drain (jk_frame (dw_locals W)) (dw_now W) 0 (de_s2h (sy_env y)) (fl_pool_init 300) (dw_rx W) = Some (q, pool)"
    "top_list (demo_eff (dm_sys d)) 58 ks" "length ks \<le> 5" "rest_small (demo_eff (dm_sys d)) ks"
    "case fl_pool_get_complete pool 1 of None \<Rightarrow> ks = []
       | Some b \<Rightarrow> wf_sparse b \<and> sb_list b = map (sparse_entry (demo_eff (dm_sys d))) ks"
    using demo_update_arrives [OF assms] by blast
  let ?d = "d\<lparr>dm_sys := y\<lparr>sy_env := (sy_env y)\<lparr>de_s2h := q\<rparr>\<rparr>, dm_pool := pool\<rparr>"
  have h: "herald_side_ok ?d" using d by (simp add: demo_ready_def herald_side_ok_def)
  obtain agg dense delta g where a: "demo_aggregate (dw_qsort W) ?d = Some (?d\<lparr>dm_agg := agg, dm_dense_delta := dense, dm_agg_delta := delta, dm_global := g\<rparr>)"
    "herald_side_ok (?d\<lparr>dm_agg := agg, dm_dense_delta := dense, dm_agg_delta := delta, dm_global := g\<rparr>)"
    "\<forall>i < 58. \<not> f_nan (delta ! i) \<and> f_ord (delta ! i) = sent_value (demo_eff (dm_sys d)) ks i"
    "\<forall>i < 58. md_params g ! i = md_params (dm_global d) ! i + delta ! i"
    using demo_aggregate_spec [OF h u(9), of "dw_qsort W"] u(12) by auto
  let ?d1 = "?d\<lparr>dm_agg := agg, dm_dense_delta := dense, dm_agg_delta := delta, dm_global := g\<rparr>"
  have "demo_uplink W d = Some ?d1" using u(1,8) a(1) by (simp add: demo_uplink_def demo_collect_def Let_def)
  then show ?thesis using u(2-7,9-11) a(2-4) by (intro exI [of _ ks] exI [of _ ?d1]) simp
qed

lemma demo_close_result:
  assumes W: "world_ok W" and q: "q_holds (de_h2s (sy_env (dm_sys d))) (enc_frames [])"
  shows "\<exists>e. demo_close (dw_clock W) (dw_locals W) rid d
    = Some (d\<lparr>dm_sys := (dm_sys d)\<lparr>sy_shard := (sy_shard (dm_sys d))\<lparr>sh_state := FL_SHARD_STATE_IDLE\<rparr>, sy_env := e\<rparr>\<rparr>)"
proof -
  let ?r = "\<lparr>rcp_round_id = rid, rcp_shards_aggregated = 1, rcp_next_round_in_sec = 0\<rparr>"
  have "length (round_close_bytes ?r) = 6" by (simp add: round_close_bytes_def)
  then obtain q' where "h_push (jk_frame (dw_locals W)) FL_FRAME_ROUND_CLOSE rid 0 1 (Some (round_close_bytes ?r)) 6 (sy_env (dm_sys d))
      = Some ((sy_env (dm_sys d))\<lparr>de_h2s := q'\<rparr>)"
    using h_push_frame [OF q, of 6 "Some (round_close_bytes ?r)" "jk_frame (dw_locals W)" FL_FRAME_ROUND_CLOSE rid 0 1] by auto
  moreover have "dw_clock W e = (fst (dw_clock W e), e)" for e using W by (metis prod.collapse world_ok_def)
  ultimately show ?thesis by (intro exI [of _ "(sy_env (dm_sys d))\<lparr>de_h2s := q'\<rparr>"])
    (simp add: demo_close_def Let_def split_beta, metis snd_conv)
qed

lemma demo_downlink_result:
  assumes W: "world_ok W" and h: "herald_side_ok d" and s: "demo_shard_ok W (sy_shard (dm_sys d))" "sys_state (dm_sys d) = FL_SHARD_STATE_AWAIT_ACK"
    and t: "train_fits (sy_train (dm_sys d))" "sample_fits (ts_sample (sy_train (dm_sys d)))"
    and q: "q_holds (de_h2s (sy_env (dm_sys d))) (enc_frames [])"
    and delta: "\<forall>i < 58. \<not> f_nan (dm_agg_delta d ! i) \<and> f_ord (dm_agg_delta d ! i) = sent_value eff ks i"
    and ks: "top_list eff 58 ks" "length ks \<le> 5"
  shows "\<exists>d' v. demo_downlink W rid d = Some d' \<and> demo_inv W d' \<and> dm_global d' = dm_global d
    \<and> sh_rounds_completed (sy_shard (dm_sys d')) = sh_rounds_completed (sy_shard (dm_sys d)) + 1
    \<and> (\<forall>i < 58. f_ord (v ! i) = sent_value eff ks i
        \<and> md_params (sh_model (sy_shard (dm_sys d'))) ! i = md_params (sh_model (sy_shard (dm_sys d))) ! i + v ! i)"
proof -
  let ?y = "dm_sys d"
  obtain q1 where q1: "h_push (jk_frame (dw_locals W)) FL_FRAME_ACK rid 0 1 None 0 (sy_env ?y) = Some ((sy_env ?y)\<lparr>de_h2s := q1\<rparr>)"
    "q_holds q1 (enc_frames [herald_wire FL_FRAME_ACK rid 0 1 []])"
    using h_push_frame [OF q, of 0 None "jk_frame (dw_locals W)" FL_FRAME_ACK rid 0 1] by auto
  let ?y1 = "?y\<lparr>sy_env := (sy_env ?y)\<lparr>de_h2s := q1\<rparr>\<rparr>"
  obtain q2 x where a: "q_holds q2 (enc_frames [])" "length x = 224"
    "fl_shard_tick (dw_libm W) (demo_cb (dw_train W)) (dw_locals W) ?y1 = Some (FL_SHARD_STATE_RECV_DELTA,
      ?y1\<lparr>sy_shard := (sy_shard ?y1)\<lparr>sh_rx_buf := x, sh_rounds_completed := sh_rounds_completed (sy_shard ?y1) + 1,
          sh_state := FL_SHARD_STATE_RECV_DELTA, sh_rx_frag_recv := 0, sh_rx_frag_total := 0, sh_delta_buf := zero_sparse\<rparr>,
        sy_env := (sy_env ?y1)\<lparr>de_h2s := q2\<rparr>\<rparr>)"
    using demo_ack_tick [OF W, of ?y1 rid "dw_libm W" "demo_cb (dw_train W)"] s q1(2) by auto
  let ?s2 = "(sy_shard ?y)\<lparr>sh_rx_buf := x, sh_rounds_completed := sh_rounds_completed (sy_shard ?y) + 1,
          sh_state := FL_SHARD_STATE_RECV_DELTA, sh_rx_frag_recv := 0, sh_rx_frag_total := 0, sh_delta_buf := zero_sparse\<rparr>"
  let ?y2 = "?y\<lparr>sy_shard := ?s2, sy_env := (sy_env ?y)\<lparr>de_h2s := q2\<rparr>\<rparr>" let ?d2 = "d\<lparr>dm_sys := ?y2\<rparr>"
  have ack: "demo_ack (dw_libm W) (dw_train W) (dw_locals W) rid d = Some ?d2"
    using q1(1) a(3) by (simp add: demo_ack_def)
  have s2: "demo_shard_ok W (sy_shard ?y2)"
    using s(1) a(2) by (simp add: demo_shard_ok_def wf_shard_def zero_sparse_def wf_sparse_def)
  have h2: "herald_side_ok ?d2" using h by (simp add: herald_side_ok_def)
  have ld: "length (dm_agg_delta d) = 58" using h by (simp add: herald_side_ok_def)
  let ?eff2 = "effective (dm_agg_delta d) None 58"
  obtain ks2 buf where e: "fl_sparse_encode (dm_agg_delta d) 58 14 None zero_sparse = Some (of_nat (length ks2), None, buf)"
    "wf_sparse buf" "sb_list buf = map (sparse_entry ?eff2) ks2" "top_list ?eff2 58 ks2" "length ks2 \<le> 5"
    "\<forall>i < 58. sent_value ?eff2 ks2 i = sent_value eff ks i"
    using demo_delta_encoded [OF ld delta ks] by blast
  obtain q3 where q3: "demo_send_delta (dw_locals W) rid ?d2 = Some (?d2\<lparr>dm_sys := (dm_sys ?d2)\<lparr>sy_env := (sy_env (dm_sys ?d2))\<lparr>de_h2s := q3\<rparr>\<rparr>\<rparr>)"
    "q_holds q3 (enc_frames [herald_wire FL_FRAME_DELTA rid 0 1 (concat (map entry_bytes (sb_list buf)))])"
    using demo_delta_sent [OF W h2, of "of_nat (length ks2)" buf rid] a(1) e by auto
  let ?y3 = "?y2\<lparr>sy_env := (sy_env ?y2)\<lparr>de_h2s := q3\<rparr>\<rparr>"
  have s3: "demo_shard_ok W (sy_shard ?y3)" "sys_state ?y3 = FL_SHARD_STATE_RECV_DELTA" "sh_rx_frag_recv (sy_shard ?y3) = 0"
    "q_holds (de_h2s (sy_env ?y3)) (enc_frames [herald_wire FL_FRAME_DELTA rid 0 1 (concat (map entry_bytes (sb_list buf)))])"
    "length (sb_list buf) \<le> 5"
    using s2 q3(2) e(3,5) by simp_all
  obtain y4 v ps where r: "demo_rx_loop (dw_locals W) (dw_rx W) 64 ?y3 = Some y4" "sys_state y4 = FL_SHARD_STATE_IDLE"
    "demo_shard_ok W (sy_shard y4)" "sh_model (sy_shard y4) = (sh_model (sy_shard ?y3))\<lparr>md_params := ps\<rparr>"
    "sh_rounds_completed (sy_shard y4) = sh_rounds_completed (sy_shard ?y3)" "sy_train y4 = sy_train ?y3"
    "q_holds (de_h2s (sy_env y4)) (enc_frames [])"
    "\<forall>i < 58. f_ord (v ! i) = sent_value ?eff2 ks2 i \<and> ps ! i = md_params (sh_model (sy_shard ?y3)) ! i + v ! i"
    using demo_delta_received [OF W s3(1-4) e(3,4) s3(5)] by blast
  let ?d4 = "d\<lparr>dm_sys := y4\<rparr>"
  have q4: "q_holds (de_h2s (sy_env (dm_sys ?d4))) (enc_frames [])" using r(7) by simp
  obtain e5 where c: "demo_close (dw_clock W) (dw_locals W) rid ?d4
    = Some (?d4\<lparr>dm_sys := (dm_sys ?d4)\<lparr>sy_shard := (sy_shard (dm_sys ?d4))\<lparr>sh_state := FL_SHARD_STATE_IDLE\<rparr>, sy_env := e5\<rparr>\<rparr>)"
    using demo_close_result [OF W q4] by blast
  let ?d5 = "d\<lparr>dm_sys := y4\<lparr>sy_shard := (sy_shard y4)\<lparr>sh_state := FL_SHARD_STATE_IDLE\<rparr>, sy_env := e5\<rparr>\<rparr>"
  have "demo_downlink W rid d = Some ?d5"
    using ack q3(1) r(1) c by (simp add: demo_downlink_def demo_recv_delta_def)
  moreover have "demo_inv W ?d5"
    using r(2,3,6) t h by (simp add: demo_inv_def demo_shard_ok_def wf_shard_def herald_side_ok_def)
  ultimately show ?thesis using r(4,5,8) e(6) by (intro exI [of _ ?d5] exI [of _ v]) simp
qed

lemma demo_round_rest:
  assumes "world_ok W" and "demo_ready W d" and "finite_change (dm_sys d)"
  shows "\<exists>ks d1 d2 u v. demo_uplink W d = Some d1 \<and> demo_downlink W rid d1 = Some d2 \<and> demo_inv W d2
    \<and> sh_rounds_completed (sy_shard (dm_sys d2)) = sh_rounds_completed (sy_shard (dm_sys d)) + 1
    \<and> top_list (demo_eff (dm_sys d)) 58 ks \<and> length ks \<le> 5
    \<and> (length ks < 5 \<longrightarrow> (\<forall>j < 58. j \<notin> set ks \<longrightarrow> mag_at (demo_eff (dm_sys d)) j < sparse_tiny))
    \<and> (\<forall>i < 58. f_ord (u ! i) = sent_value (demo_eff (dm_sys d)) ks i \<and> f_ord (v ! i) = sent_value (demo_eff (dm_sys d)) ks i
        \<and> md_params (dm_global d2) ! i = md_params (dm_global d) ! i + u ! i
        \<and> md_params (sh_model (sy_shard (dm_sys d2))) ! i = md_params (sh_model (sy_shard (dm_sys d))) ! i + v ! i)"
proof -
  obtain ks d1 where u: "demo_uplink W d = Some d1" "top_list (demo_eff (dm_sys d)) 58 ks" "length ks \<le> 5"
    "rest_small (demo_eff (dm_sys d)) ks"
    "herald_side_ok d1" "demo_shard_ok W (sy_shard (dm_sys d1))" "sys_state (dm_sys d1) = FL_SHARD_STATE_AWAIT_ACK"
    "sh_model (sy_shard (dm_sys d1)) = sh_model (sy_shard (dm_sys d))"
    "sh_rounds_completed (sy_shard (dm_sys d1)) = sh_rounds_completed (sy_shard (dm_sys d))"
    "sy_train (dm_sys d1) = sy_train (dm_sys d)" "q_holds (de_h2s (sy_env (dm_sys d1))) (enc_frames [])"
    "\<forall>i < 58. \<not> f_nan (dm_agg_delta d1 ! i) \<and> f_ord (dm_agg_delta d1 ! i) = sent_value (demo_eff (dm_sys d)) ks i
        \<and> md_params (dm_global d1) ! i = md_params (dm_global d) ! i + dm_agg_delta d1 ! i"
    using demo_uplink_result [OF assms] by blast
  have t: "train_fits (sy_train (dm_sys d1))" "sample_fits (ts_sample (sy_train (dm_sys d1)))"
    using assms(2) u(10) by (simp_all add: demo_ready_def)
  have delta: "\<forall>i < 58. \<not> f_nan (dm_agg_delta d1 ! i) \<and> f_ord (dm_agg_delta d1 ! i) = sent_value (demo_eff (dm_sys d)) ks i"
    using u(12) by simp
  from demo_downlink_result [OF assms(1) u(5-7) t u(11) delta u(2,3), of rid] obtain d2 v where
    "demo_downlink W rid d1 = Some d2" "demo_inv W d2" "dm_global d2 = dm_global d1"
    "sh_rounds_completed (sy_shard (dm_sys d2)) = sh_rounds_completed (sy_shard (dm_sys d1)) + 1"
    "\<forall>i < 58. f_ord (v ! i) = sent_value (demo_eff (dm_sys d)) ks i
        \<and> md_params (sh_model (sy_shard (dm_sys d2))) ! i = md_params (sh_model (sy_shard (dm_sys d1))) ! i + v ! i"
    by blast
  then show ?thesis using u by (intro exI [of _ ks] exI [of _ d1] exI [of _ d2] exI [of _ "dm_agg_delta d1"] exI [of _ v]) simp
qed

section \<open>The program\<close>

lemma demo_start_inv:
  assumes W: "world_ok W"
  shows "\<exists>d. demo_start W junk = Some d \<and> demo_inv W d \<and> sh_rounds_completed (sy_shard (dm_sys d)) = 0"
proof -
  obtain m0 m where m: "fl_model_init (Some zero_model) demo_layers 2 = Some (FL_OK, Some m0)"
    "fl_model_init_random (dw_libm W) m0 0xABCD = Some m" "net_fits m" "md_total_params m = 58"
    using example_net_random [of 4 8 "dw_libm W" "0xABCD"] by (auto simp: demo_layers_def)
  let ?h = "demo_hal (dw_clock W)" let ?s = "zero_shard ?h 1 m"
  let ?e = "\<lparr>de_h2s = zero_BQ, de_s2h = zero_BQ, de_sidx = 0\<rparr>"
  have nv: "hal_nvs_read ?h = Some (\<lambda>_ d _ e. Some (- 1, d, e))" by (simp add: demo_hal_def)
  have "sh_hal ?s = ?h" by (simp add: zero_shard_def)
  then have "fl_shard_init junk (Some (zero_shard ?h 0 zero_model)) (Some ?h) 1 (Some m) ?e = Some (FL_OK, Some ?s, ?e)"
    by (simp add: fl_shard_init_def nv)
  moreover have "demo_shard_ok W ?s"
    using m(3,4) by (simp add: demo_shard_ok_def wf_shard_def zero_shard_def net_fits_def zero_sparse_def wf_sparse_def wf_crypto_def)
  moreover have "sh_state ?s = FL_SHARD_STATE_IDLE" "sh_rounds_completed ?s = 0" by (simp_all add: zero_shard_def)
  ultimately show ?thesis using m fresh_training_fits
    by (simp add: demo_start_def demo_inv_def herald_side_ok_def net_fits_def wf_agg_blank)
qed

lemma demo_round_result:
  assumes W: "world_ok W" and d: "demo_inv W d"
  shows "(\<exists>d'. demo_round W rid d = Some d' \<and> demo_inv W d'
      \<and> sh_rounds_completed (sy_shard (dm_sys d')) = sh_rounds_completed (sy_shard (dm_sys d)) + 1)
    \<or> (\<exists>d1. demo_train_phase W rid d = Some d1 \<and> \<not> finite_change (dm_sys d1))"
proof -
  obtain d1 where d1: "demo_train_phase W rid d = Some d1" "demo_ready W d1"
    "sh_rounds_completed (sy_shard (dm_sys d1)) = sh_rounds_completed (sy_shard (dm_sys d))"
    using demo_train_phase_ready [OF assms] by blast
  show ?thesis
  proof (cases "finite_change (dm_sys d1)")
    case True
    obtain d2 d3 where "demo_uplink W d1 = Some d2" "demo_downlink W rid d2 = Some d3" "demo_inv W d3"
      "sh_rounds_completed (sy_shard (dm_sys d3)) = sh_rounds_completed (sy_shard (dm_sys d1)) + 1"
      using demo_round_rest [OF W d1(2) True, of rid] by blast
    then show ?thesis using d1 by (simp add: demo_round_def)
  qed (use d1 in blast)
qed

lemma demo_rounds_result:
  assumes W: "world_ok W" and d: "demo_inv W d"
  shows "(\<exists>d'. for_lt n (\<lambda>rid d. demo_round W (of_nat rid) d) d = Some d' \<and> demo_inv W d'
      \<and> sh_rounds_completed (sy_shard (dm_sys d')) = sh_rounds_completed (sy_shard (dm_sys d)) + of_nat n)
    \<or> (\<exists>rid < n. \<exists>d' d1. for_lt rid (\<lambda>rid d. demo_round W (of_nat rid) d) d = Some d' \<and> demo_inv W d'
        \<and> demo_train_phase W (of_nat rid) d' = Some d1 \<and> \<not> finite_change (dm_sys d1))"
proof (induction n)
  case 0
  then show ?case using d by simp
next
  case (Suc n)
  then consider (run) d' where "for_lt n (\<lambda>rid d. demo_round W (of_nat rid) d) d = Some d'" "demo_inv W d'"
      "sh_rounds_completed (sy_shard (dm_sys d')) = sh_rounds_completed (sy_shard (dm_sys d)) + of_nat n"
    | (stop) "\<exists>rid < n. \<exists>d' d1. for_lt rid (\<lambda>rid d. demo_round W (of_nat rid) d) d = Some d' \<and> demo_inv W d'
        \<and> demo_train_phase W (of_nat rid) d' = Some d1 \<and> \<not> finite_change (dm_sys d1)" by blast
  then show ?case
  proof cases
    case run
    from demo_round_result [OF W run(2), of "of_nat n"] show ?thesis
    proof
      assume "\<exists>d''. demo_round W (of_nat n) d' = Some d'' \<and> demo_inv W d''
        \<and> sh_rounds_completed (sy_shard (dm_sys d'')) = sh_rounds_completed (sy_shard (dm_sys d')) + 1"
      then show ?thesis using run(1,3) by (auto simp: for_lt_Suc algebra_simps)
    next
      assume "\<exists>d1. demo_train_phase W (of_nat n) d' = Some d1 \<and> \<not> finite_change (dm_sys d1)"
      then show ?thesis using run(1,2) by blast
    qed
  next
    case stop
    then show ?thesis using less_SucI by blast
  qed
qed

text \<open>C2: The demonstration runs: whatever the training data and the mathematical functions are, the
  program reaches its rounds, and either all six complete, with the shard idle and six rounds counted,
  or there is a round, reached after complete ones, in which the change of some parameter is not a
  number after training. Nothing else can go wrong: no buffer is left, no frame is lost, no loop is
  without end.\<close>

theorem demo_runs:
  assumes "world_ok W"
  shows "\<exists>d. demo_start W junk = Some d \<and> demo_inv W d
    \<and> ((\<exists>d'. demo_rounds W d = Some d' \<and> demo_inv W d' \<and> sh_rounds_completed (sy_shard (dm_sys d')) = 6)
       \<or> (\<exists>rid < 6. \<exists>d' d1. for_lt rid (\<lambda>rid d. demo_round W (of_nat rid) d) d = Some d'
            \<and> demo_train_phase W (of_nat rid) d' = Some d1 \<and> \<not> finite_change (dm_sys d1)))"
proof -
  obtain d where d: "demo_start W junk = Some d" "demo_inv W d" "sh_rounds_completed (sy_shard (dm_sys d)) = 0"
    using demo_start_inv [OF assms] by blast
  from demo_rounds_result [OF assms d(2), of 6] show ?thesis using d by (fastforce simp: demo_rounds_def)
qed

text \<open>A world whose calls cost no time, and a shard that has just trained: one parameter moved by 1/2.\<close>

definition sample_world :: "libm \<Rightarrow> demo_world" where
  "sample_world lm = \<lparr>dw_clock = (\<lambda>e. (0, e)), dw_now = (\<lambda>_. 0), dw_qsort = cmp_isort, dw_libm = lm, dw_train = fst (make_data lm 42),
     dw_locals = idle_locals, dw_rx = replicate FL_FRAME_MAX_SIZE 0\<rparr>"

lemma sample_world_ok: "world_ok (sample_world lm)"
  by (simp add: world_ok_def sample_world_def wf_locals_def idle_locals_def wf_frame_def)

definition just_trained :: "demo_sys \<Rightarrow> demo_sys" where
  "just_trained d = (let y = dm_sys d; s = sy_shard y in
     d\<lparr>dm_sys := y\<lparr>sy_shard := s\<lparr>sh_state := FL_SHARD_STATE_ENCODING, sh_residual := replicate FL_MODEL_MAX_PARAMS 0,
       sh_model := (sh_model s)\<lparr>md_grad := (replicate FL_MODEL_MAX_PARAMS 0)[3 := F32 0x3F000000]\<rparr>\<rparr>,
       sy_env := (sy_env y)\<lparr>de_h2s := zero_BQ, de_s2h := zero_BQ\<rparr>\<rparr>\<rparr>)"

lemma just_trained_ready:
  assumes "demo_inv W d"
  shows "demo_ready W (just_trained d)" "finite_change (dm_sys (just_trained d))"
proof -
  show "demo_ready W (just_trained d)"
    using assms zero_BQ_holds
    by (simp add: demo_ready_def demo_inv_def just_trained_def Let_def demo_shard_ok_def wf_shard_def net_fits_def herald_side_ok_def)
  have "\<not> f_nan (F32 0x3F000000)" "\<not> f_inf (F32 0x3F000000)" by (simp_all add: f32_eval)
  then have "\<not> f_nan (F32 0x3F000000 + 0)" "\<not> f_nan (0 + 0 :: f32)" by (simp_all add: f_ord_add(2))
  then show "finite_change (dm_sys (just_trained d))"
    by (auto simp: finite_change_def just_trained_def Let_def eff_at_def nth_list_update)
qed

theorem demo_runs_witness:
  "\<forall>lm. \<exists>d. demo_start (sample_world lm) [] = Some d
    \<and> ((\<exists>d'. demo_rounds (sample_world lm) d = Some d' \<and> sys_state (dm_sys d') = FL_SHARD_STATE_IDLE)
       \<or> (\<exists>rid < 6. \<exists>d' d1. for_lt rid (\<lambda>rid d. demo_round (sample_world lm) (of_nat rid) d) d = Some d'
            \<and> demo_train_phase (sample_world lm) (of_nat rid) d' = Some d1 \<and> \<not> finite_change (dm_sys d1)))"
proof
  fix lm
  from demo_runs [OF sample_world_ok, of lm "[]"] show "\<exists>d. demo_start (sample_world lm) [] = Some d
    \<and> ((\<exists>d'. demo_rounds (sample_world lm) d = Some d' \<and> sys_state (dm_sys d') = FL_SHARD_STATE_IDLE)
       \<or> (\<exists>rid < 6. \<exists>d' d1. for_lt rid (\<lambda>rid d. demo_round (sample_world lm) (of_nat rid) d) d = Some d'
            \<and> demo_train_phase (sample_world lm) (of_nat rid) d' = Some d1 \<and> \<not> finite_change (dm_sys d1)))"
    unfolding demo_inv_def by blast
qed

text \<open>C3: In the demonstration the shard counts its training twice. When the shard of \<^verbatim>\<open>main\<close> has
  trained and its change of parameters plus the residual is not NaN in any coordinate, the rest of the round is
  defined and leaves both models ready for the next one; the shard sends the five largest coordinates of that sum, fewer
  only if every other one is below the threshold; the global model gains exactly their Q8 values, and
  the shard, whose parameters already contain its training, adds the same values to them once more.\<close>

theorem demo_round_counts_twice:
  assumes "world_ok W" and "demo_ready W d" and "finite_change (dm_sys d)"
  shows "\<exists>ks d1 d2 u v. demo_uplink W d = Some d1 \<and> demo_downlink W rid d1 = Some d2 \<and> demo_inv W d2
    \<and> sh_rounds_completed (sy_shard (dm_sys d2)) = sh_rounds_completed (sy_shard (dm_sys d)) + 1
    \<and> top_list (demo_eff (dm_sys d)) 58 ks \<and> length ks \<le> 5
    \<and> (length ks < 5 \<longrightarrow> (\<forall>j < 58. j \<notin> set ks \<longrightarrow> mag_at (demo_eff (dm_sys d)) j < sparse_tiny))
    \<and> (\<forall>i < 58. f_ord (u ! i) = sent_value (demo_eff (dm_sys d)) ks i \<and> f_ord (v ! i) = sent_value (demo_eff (dm_sys d)) ks i
        \<and> md_params (dm_global d2) ! i = md_params (dm_global d) ! i + u ! i
        \<and> md_params (sh_model (sy_shard (dm_sys d2))) ! i = md_params (sh_model (sy_shard (dm_sys d))) ! i + v ! i)"
  by (rule demo_round_rest [OF assms])

theorem demo_round_counts_twice_witness:
  "\<forall>lm. \<exists>d d1 d2. demo_uplink (sample_world lm) (just_trained d) = Some d1 \<and> demo_downlink (sample_world lm) 0 d1 = Some d2
    \<and> demo_inv (sample_world lm) d2"
proof
  fix lm
  obtain d where d: "demo_inv (sample_world lm) d" using demo_start_inv [OF sample_world_ok] by blast
  from demo_round_counts_twice [OF sample_world_ok just_trained_ready [OF d], of 0]
  show "\<exists>d d1 d2. demo_uplink (sample_world lm) (just_trained d) = Some d1 \<and> demo_downlink (sample_world lm) 0 d1 = Some d2
    \<and> demo_inv (sample_world lm) d2" by blast
qed

end
