(* ===== verification/Round_Turn.thy ===== *)
theory Round_Turn
  imports Delta_Link
begin

text \<open>
  A round over the radio link: what the Herald sends when it closes a round, how a shard follows it
  into the next one, and the whole way from the first fragment of an update to there.
\<close>

section \<open>The frames of the Herald\<close>

lemma send_beacon_frame:
  assumes q: "q_holds (de_h2s (gw_link w)) (enc_frames fs)" "length (enc_frames fs) \<le> 65000"
    and hj: "length (hj_wire hj) = FL_FRAME_MAX_SIZE"
  shows "\<exists>q'. fl_herald_send_beacon queue_posix hj h r w = Some (FL_OK, w\<lparr>gw_link := (gw_link w)\<lparr>de_h2s := q'\<rparr>\<rparr>)
    \<and> q_holds q' (enc_frames (fs @ [herald_wire FL_FRAME_BEACON r 0 1 (beacon_bytes (herald_beacon h r))]))"
proof -
  let ?B = "beacon_bytes (herald_beacon h r)"
  let ?b = "frame_bytes (encoded_frame FL_FRAME_BEACON FL_SHARD_ID_HERALD r 0 1 ?B)"
  let ?wire = "take 27 ?b @ drop 27 (hj_wire hj)"
  have le: "length ?B \<le> 214" by simp
  have lb: "length ?b = 224" by simp
  obtain q' where q': "q_holds q' (enc_frames (fs @ [herald_wire FL_FRAME_BEACON r 0 1 ?B]))"
    "\<And>b fd. 10 + length ?B \<le> length b \<Longrightarrow> take (10 + length ?B) b = take (10 + length ?B) ?b
      \<Longrightarrow> serial_write queue_posix fd b (10 + length ?B) w = Some (0, w\<lparr>gw_link := (gw_link w)\<lparr>de_h2s := q'\<rparr>\<rparr>)"
    using queue_serial_frame [OF le q, of FL_FRAME_BEACON r 0 1] by blast
  have "serial_write queue_posix (he_serial_fd h) ?wire 27 w = Some (0, w\<lparr>gw_link := (gw_link w)\<lparr>de_h2s := q'\<rparr>\<rparr>)"
    using q'(2) [of ?wire "he_serial_fd h"] lb hj by simp
  then have "fl_herald_send_beacon queue_posix hj h r w = Some (FL_OK, w\<lparr>gw_link := (gw_link w)\<lparr>de_h2s := q'\<rparr>\<rparr>)"
    using hj by (simp add: fl_herald_send_beacon_def Let_def)
  then show ?thesis using q'(1) by blast
qed

abbreviation close_payload :: "'w herald_sys \<Rightarrow> FLRoundClosePayload" where
  "close_payload z \<equiv> \<lparr>rcp_round_id = hs_round_id z, rcp_shards_aggregated = rs_shards_complete (he_scheduler (hs_herald z)),
     rcp_next_round_in_sec = rp_inter_round_delay_s (hc_round_policy (he_config (hs_herald z)))\<rparr>"

text \<open>The aggregate becomes part of the global model and goes out as a delta.\<close>

lemma aggregate_frames:
  assumes qs: "qsort_spec qs" and hj: "length (hj_payload hj) = FL_PAYLOAD_MAX" and I: "herald_inv gw_ok fd n us z"
    and q: "q_holds (de_h2s (gw_link (hs_world z))) (enc_frames [])"
  defines "k \<equiv> (if n div 10 \<noteq> 0 then n div 10 else 1)" and "c \<equiv> he_config (hs_herald z)"
  shows "\<exists>delta ks buf q'. fl_agg_finalize qs (he_aggregator (hs_herald z)) (hs_agg_delta z) = Some delta \<and> length delta = FL_MODEL_MAX_PARAMS
    \<and> wf_sparse buf \<and> sb_list buf = map (sparse_entry delta) ks \<and> top_list delta (unat n) ks \<and> length ks \<le> sparse_k n k
    \<and> (length ks < sparse_k n k \<longrightarrow> (\<forall>j < unat n. j \<notin> set ks \<longrightarrow> mag_at delta j < sparse_tiny))
    \<and> herald_aggregate queue_posix qs hj z = Some (z\<lparr>hs_herald := (hs_herald z)\<lparr>he_config :=
          c\<lparr>hc_global_model := map_prefix (unat n) (\<lambda>i g. g + delta ! i) (hc_global_model c)\<rparr>\<rparr>,
        hs_agg_delta := delta, hs_world := (hs_world z)\<lparr>gw_link := (gw_link (hs_world z))\<lparr>de_h2s := q'\<rparr>\<rparr>\<rparr>)
    \<and> q_holds q' (enc_frames (map (delta_wire (he_current_round (hs_herald z)) buf) [0..<frag_total buf]))"
proof -
  let ?h = "hs_herald z" let ?gm = "hc_global_model c"
  note inv = I [unfolded herald_inv_def Let_def, folded c_def]
  have n: "unat n \<le> 4096" using inv by (auto simp: agg_inv_def wf_agg_def)
  obtain delta where delta: "fl_agg_finalize qs (he_aggregator ?h) (hs_agg_delta z) = Some delta" "length delta = 4096"
    "\<forall>i < unat n. \<not> f_nan (delta ! i)"
    using finalize_any [OF qs, of "hc_aggregator c" n us "he_aggregator ?h" "hs_agg_delta z"] inv n by auto
  let ?g = "map_prefix (unat n) (\<lambda>i g. g + delta ! i) ?gm"
  have g: "for_lt (unat n) (\<lambda>i gm. do { g \<leftarrow> rd gm i; x \<leftarrow> rd delta i; wr gm i (g + x) }) ?gm = Some ?g"
    by (rule for_lt_map) (use inv n delta in auto)
  let ?h1 = "?h\<lparr>he_config := c\<lparr>hc_global_model := ?g\<rparr>\<rparr>"
  have h1: "hc_model_param_count (he_config ?h1) = n" using inv by simp
  have d: "unat n \<le> FL_MODEL_MAX_PARAMS" "unat n \<le> length delta" "\<forall>i < unat n. \<not> f_nan (delta ! i)" using n delta by simp_all
  obtain ks buf q1 where s: "fl_herald_send_delta queue_posix hj ?h1 delta k (hs_world z)
      = Some (FL_OK, (hs_world z)\<lparr>gw_link := (gw_link (hs_world z))\<lparr>de_h2s := q1\<rparr>\<rparr>)"
    "q_holds q1 (enc_frames (map (delta_wire (he_current_round ?h1) buf) [0..<frag_total buf]))"
    "wf_sparse buf" "sb_list buf = map (sparse_entry delta) ks" "top_list delta (unat n) ks" "length ks \<le> sparse_k n k"
    "length ks < sparse_k n k \<longrightarrow> (\<forall>j < unat n. j \<notin> set ks \<longrightarrow> mag_at delta j < sparse_tiny)"
    using send_delta_frames [OF d h1 hj q, of k] by blast
  have "herald_aggregate queue_posix qs hj z = Some (z\<lparr>hs_herald := ?h1, hs_agg_delta := delta,
      hs_world := (hs_world z)\<lparr>gw_link := (gw_link (hs_world z))\<lparr>de_h2s := q1\<rparr>\<rparr>\<rparr>)"
    using delta(1) g s(1) h1 unfolding k_def c_def
    by (cases "n div 10 = 0") (simp_all add: herald_aggregate_def Let_def)
  then show ?thesis using delta(1,2) s(2-7)
    by (intro exI [of _ delta] exI [of _ ks] exI [of _ buf] exI [of _ q1]) simp
qed

abbreviation turn_frames :: "'w herald_sys \<Rightarrow> 'w herald_sys \<Rightarrow> FLSparseBuffer \<Rightarrow> bytes list" where
  "turn_frames z z' buf \<equiv> map (delta_wire (he_current_round (hs_herald z)) buf) [0..<frag_total buf]
     @ [herald_wire FL_FRAME_ROUND_CLOSE (hs_round_id z) 0 1 (round_close_bytes (close_payload z)),
        herald_wire FL_FRAME_BEACON (he_current_round (hs_herald z')) 0 1
          (beacon_bytes (herald_beacon (hs_herald z') (he_current_round (hs_herald z'))))]"

text \<open>What the Herald sends when it closes a round with at least one update: the delta, the close of
  the round and the beacon of the next one.\<close>

lemma close_frames:
  assumes qs: "qsort_spec qs" and hj: "wf_herald_locals hj" and I: "herald_inv gw_ok fd n us z"
    and some: "0 < rs_shards_complete (he_scheduler (hs_herald z))" and cb: "hc_on_round_complete (he_config (hs_herald z)) = None"
    and q: "q_holds (de_h2s (gw_link (hs_world z))) (enc_frames [])"
  defines "k \<equiv> (if n div 10 \<noteq> 0 then n div 10 else 1)"
  shows "\<exists>delta ks buf z'. fl_agg_finalize qs (he_aggregator (hs_herald z)) (hs_agg_delta z) = Some delta
    \<and> wf_sparse buf \<and> sb_list buf = map (sparse_entry delta) ks \<and> top_list delta (unat n) ks \<and> length ks \<le> sparse_k n k
    \<and> (length ks < sparse_k n k \<longrightarrow> (\<forall>j < unat n. j \<notin> set ks \<longrightarrow> mag_at delta j < sparse_tiny))
    \<and> herald_close queue_posix qs hj z = Some z' \<and> herald_inv gw_ok fd n [] z'
    \<and> he_current_round (hs_herald z') = rs_round_id (he_scheduler (hs_herald z)) + 1
    \<and> (\<forall>i < unat n. hc_global_model (he_config (hs_herald z')) ! i = hc_global_model (he_config (hs_herald z)) ! i + delta ! i)
    \<and> q_holds (de_h2s (gw_link (hs_world z'))) (enc_frames (turn_frames z z' buf))"
proof -
  let ?h = "hs_herald z" let ?c = "he_config ?h"
  let ?z0 = "z\<lparr>hs_herald := ?h\<lparr>he_scheduler := fl_round_close (he_scheduler ?h)\<rparr>\<rparr>"
  note inv = I [unfolded herald_inv_def Let_def]
  have hl: "length (hj_payload hj) = FL_PAYLOAD_MAX" "length (hj_wire hj) = FL_FRAME_MAX_SIZE" using hj by (simp_all add: wf_herald_locals_def)
  have I0: "herald_inv gw_ok fd n us ?z0" using inv by (simp add: herald_inv_def)
  have q0: "q_holds (de_h2s (gw_link (hs_world ?z0))) (enc_frames [])" using q by simp
  obtain delta ks buf q1 where s: "fl_agg_finalize qs (he_aggregator ?h) (hs_agg_delta z) = Some delta" "length delta = FL_MODEL_MAX_PARAMS"
    "wf_sparse buf" "sb_list buf = map (sparse_entry delta) ks" "top_list delta (unat n) ks" "length ks \<le> sparse_k n k"
    "length ks < sparse_k n k \<longrightarrow> (\<forall>j < unat n. j \<notin> set ks \<longrightarrow> mag_at delta j < sparse_tiny)"
    and ag: "herald_aggregate queue_posix qs hj ?z0 = Some (z\<lparr>hs_herald := ?h\<lparr>he_scheduler := fl_round_close (he_scheduler ?h),
          he_config := ?c\<lparr>hc_global_model := map_prefix (unat n) (\<lambda>i g. g + delta ! i) (hc_global_model ?c)\<rparr>\<rparr>,
        hs_agg_delta := delta, hs_world := (hs_world z)\<lparr>gw_link := (gw_link (hs_world z))\<lparr>de_h2s := q1\<rparr>\<rparr>\<rparr>)"
    and sq: "q_holds q1 (enc_frames (map (delta_wire (he_current_round ?h) buf) [0..<frag_total buf]))"
    using aggregate_frames [OF qs hl(1) I0 q0] unfolding k_def by auto
  let ?h1 = "?h\<lparr>he_scheduler := fl_round_close (he_scheduler ?h),
      he_config := ?c\<lparr>hc_global_model := map_prefix (unat n) (\<lambda>i g. g + delta ! i) (hc_global_model ?c)\<rparr>\<rparr>"
  let ?fs = "map (delta_wire (he_current_round ?h) buf) [0..<frag_total buf]"
  let ?w1 = "(hs_world z)\<lparr>gw_link := (gw_link (hs_world z))\<lparr>de_h2s := q1\<rparr>\<rparr>"
  have short: "length (enc_frames ?fs) \<le> 3360"
    using length_delta_wires [of "he_current_round ?h" buf "frag_total buf"] frag_total_bound [OF s(3)] by linarith
  let ?R = "round_close_bytes (close_payload z)"
  let ?rw = "herald_wire FL_FRAME_ROUND_CLOSE (hs_round_id z) 0 1 ?R"
  have lR: "length ?R \<le> 214" "length (frame_bytes (encoded_frame FL_FRAME_ROUND_CLOSE FL_SHARD_ID_HERALD (hs_round_id z) 0 1 ?R)) = 224"
    by simp_all
  have room1: "length (enc_frames ?fs) \<le> 65000" using short by linarith
  have q1: "q_holds (de_h2s (gw_link ?w1)) (enc_frames ?fs)" using sq by simp
  obtain q2 where q2: "q_holds q2 (enc_frames (?fs @ [?rw]))"
    "\<And>b fd. 10 + length ?R \<le> length b \<Longrightarrow> take (10 + length ?R) b
        = take (10 + length ?R) (frame_bytes (encoded_frame FL_FRAME_ROUND_CLOSE FL_SHARD_ID_HERALD (hs_round_id z) 0 1 ?R))
      \<Longrightarrow> serial_write queue_posix fd b (10 + length ?R) ?w1 = Some (0, ?w1\<lparr>gw_link := (gw_link ?w1)\<lparr>de_h2s := q2\<rparr>\<rparr>)"
    using queue_serial_frame [OF lR(1) q1 room1, of FL_FRAME_ROUND_CLOSE "hs_round_id z" 0 1] by blast
  have sw: "serial_write queue_posix (he_serial_fd ?h) (frame_bytes (encoded_frame FL_FRAME_ROUND_CLOSE FL_SHARD_ID_HERALD (hs_round_id z) 0 1 ?R)) 16 ?w1
    = Some (0, ?w1\<lparr>gw_link := (gw_link ?w1)\<lparr>de_h2s := q2\<rparr>\<rparr>)" using q2(2) lR(2) by simp
  obtain a where a: "fl_agg_reset (he_aggregator ?h) = Some a"
    using agg_reset_inv [of "hc_aggregator ?c" n us "he_aggregator ?h"] inv by metis
  let ?w2 = "?w1\<lparr>gw_link := (gw_link ?w1)\<lparr>de_h2s := q2\<rparr>\<rparr>"
  let ?delay = "rp_inter_round_delay_s (hc_round_policy ?c)"
  let ?w3 = "?w2\<lparr>gw_clock := gw_clock ?w2 + uint ?delay\<rparr>"
  let ?r = "rs_round_id (he_scheduler ?h) + 1"
  let ?h4 = "?h1\<lparr>he_aggregator := a, he_scheduler := snd (fl_round_open (gw_clock ?w3) (fl_round_close (he_scheduler ?h))), he_current_round := ?r\<rparr>"
  have room2: "length (enc_frames (?fs @ [?rw])) \<le> 65000"
    using short length_herald_wire [OF lR(1), of FL_FRAME_ROUND_CLOSE FL_SHARD_ID_HERALD "hs_round_id z" 0 1] by (simp del: length_concat)
  have q3: "q_holds (de_h2s (gw_link ?w3)) (enc_frames (?fs @ [?rw]))" using q2(1) by simp
  obtain q4 where q4: "fl_herald_send_beacon queue_posix hj ?h4 ?r ?w3 = Some (FL_OK, ?w3\<lparr>gw_link := (gw_link ?w3)\<lparr>de_h2s := q4\<rparr>\<rparr>)"
    "q_holds q4 (enc_frames ((?fs @ [?rw]) @ [herald_wire FL_FRAME_BEACON ?r 0 1 (beacon_bytes (herald_beacon ?h4 ?r))]))"
    using send_beacon_frame [OF q3 room2 hl(2), of ?h4 ?r] by blast
  let ?z' = "z\<lparr>hs_herald := ?h4, hs_agg_delta := delta, hs_round_id := ?r, hs_world := ?w3\<lparr>gw_link := (gw_link ?w3)\<lparr>de_h2s := q4\<rparr>\<rparr>\<rparr>"
  have r: "rs_round_id (fl_round_close (he_scheduler ?h)) = ?r" by (simp add: fl_round_close_def and_0xFF)
  have sc: "rs_shards_complete (fl_round_close (he_scheduler ?h)) = rs_shards_complete (he_scheduler ?h)" by (simp add: fl_round_close_def)
  have cl: "herald_close queue_posix qs hj z = Some ?z'"
    using some ag sw a cb q4(1) r sc by (simp add: herald_close_def Let_def herald_next_round_def fl_round_open_def)
  have "herald_inv gw_ok fd n [] ?z'" using queue_gateway.close_ok [OF I hj qs] cl by auto
  then show ?thesis
    using s cl q4(2) inv by (intro exI [of _ delta] exI [of _ ks] exI [of _ buf] exI [of _ ?z']) (simp del: length_concat)
qed

text \<open>The pass of the event loop that does so, with nothing to receive.\<close>

lemma closing_pass:
  assumes qs: "qsort_spec qs" and hj: "wf_herald_locals hj" and I: "herald_inv gw_ok fd n us z"
    and close: "fl_round_should_close (gw_clock (hs_world z)) (he_scheduler (hs_herald z))"
    and some: "0 < rs_shards_complete (he_scheduler (hs_herald z))" and cb: "hc_on_round_complete (he_config (hs_herald z)) = None"
    and q: "q_holds (de_s2h (gw_link (hs_world z))) []" "q_holds (de_h2s (gw_link (hs_world z))) []"
  shows "\<exists>delta ks buf z'. fl_agg_finalize qs (he_aggregator (hs_herald z)) (hs_agg_delta z) = Some delta
    \<and> wf_sparse buf \<and> sb_list buf = map (sparse_entry delta) ks \<and> top_list delta (unat n) ks \<and> length ks \<le> max 1 (unat n div 10)
    \<and> (length ks < max 1 (unat n div 10) \<longrightarrow> (\<forall>j < unat n. j \<notin> set ks \<longrightarrow> mag_at delta j < sparse_tiny))
    \<and> herald_iter queue_posix qs hj z = Some z' \<and> herald_inv gw_ok fd n [] z'
    \<and> he_current_round (hs_herald z') = rs_round_id (he_scheduler (hs_herald z)) + 1
    \<and> (\<forall>i < unat n. hc_global_model (he_config (hs_herald z')) ! i = hc_global_model (he_config (hs_herald z)) ! i + delta ! i)
    \<and> q_holds (de_h2s (gw_link (hs_world z'))) (enc_frames (turn_frames z z' buf))"
proof -
  let ?k = "if n div 10 \<noteq> 0 then n div 10 else 1"
  let ?z1 = "z\<lparr>hs_herald := (hs_herald z)\<lparr>he_frag_pool := snd (fl_pool_expire (gw_clock (hs_world z)) (he_frag_pool (hs_herald z)))\<rparr>\<rparr>"
  have "queue_read FL_FRAME_MAX_SIZE (hs_world z) = (Read_Again, hs_world z)"
    using q_pop_empty [of "de_s2h (gw_link (hs_world z))"] q(1) by (simp add: queue_read_def)
  then have rx: "herald_rx queue_posix hj z = Some z" by (simp add: herald_rx_def serial_read_def Let_def)
  have I1: "herald_inv gw_ok fd n us ?z1" using I wf_pool_expire by (auto simp: herald_inv_def Let_def)
  have c1: "0 < rs_shards_complete (he_scheduler (hs_herald ?z1))" "hc_on_round_complete (he_config (hs_herald ?z1)) = None"
    "q_holds (de_h2s (gw_link (hs_world ?z1))) (enc_frames [])" using some cb q(2) by simp_all
  have "unat n \<le> 4096" using I by (auto simp: herald_inv_def Let_def agg_inv_def wf_agg_def)
  then have sk: "sparse_k n ?k = min (max 1 (unat n div 10)) (unat n)" by (auto simp: sparse_k_def unat_div word_unat_eq_iff)
  obtain delta ks buf z' where c: "fl_agg_finalize qs (he_aggregator (hs_herald z)) (hs_agg_delta z) = Some delta"
    "wf_sparse buf" "sb_list buf = map (sparse_entry delta) ks" "top_list delta (unat n) ks" "length ks \<le> sparse_k n ?k"
    "length ks < sparse_k n ?k \<longrightarrow> (\<forall>j < unat n. j \<notin> set ks \<longrightarrow> mag_at delta j < sparse_tiny)"
    "herald_close queue_posix qs hj ?z1 = Some z'" "herald_inv gw_ok fd n [] z'"
    "he_current_round (hs_herald z') = rs_round_id (he_scheduler (hs_herald z)) + 1"
    "\<forall>i < unat n. hc_global_model (he_config (hs_herald z')) ! i = hc_global_model (he_config (hs_herald z)) ! i + delta ! i"
    "q_holds (de_h2s (gw_link (hs_world z'))) (enc_frames (turn_frames z z' buf))"
    using close_frames [OF qs hj I1 c1] by auto
  have "herald_iter queue_posix qs hj z = Some z'" using rx close c(7) by (simp add: herald_iter_def herald_rounds_def)
  moreover have "length ks \<le> max 1 (unat n div 10)"
    "length ks < max 1 (unat n div 10) \<longrightarrow> (\<forall>j < unat n. j \<notin> set ks \<longrightarrow> mag_at delta j < sparse_tiny)"
    using c(5,6) unfolding sk by auto
  ultimately show ?thesis using c(1-4,8-11)
    by (intro exI [of _ delta] exI [of _ ks] exI [of _ buf] exI [of _ z']) (simp only: simp_thms)
qed

section \<open>The shard\<close>

text \<open>The shard behind these frames: the delta, the close and the beacon, one for each tick.\<close>

lemma shard_follows:
  assumes s: "wf_shard (sy_shard y0)" "sh_hal (sy_shard y0) = demo_hal clock" "sys_state y0 = FL_SHARD_STATE_RECV_DELTA"
      "sh_rx_frag_recv (sy_shard y0) = 0" "md_total_params (sh_model (sy_shard y0)) = n" "cc_encrypt_enabled (sh_crypto (sy_shard y0)) = 0"
    and junk: "wf_locals junk" and wf: "wf_sparse buf"
    and ks: "sb_list buf = map (sparse_entry d) ks" "distinct ks" "set ks \<subseteq> {..<unat n}"
    and q: "q_holds (de_h2s (sy_env y0)) (enc_frames (map (delta_wire rid buf) [0..<frag_total buf]
        @ [herald_wire FL_FRAME_ROUND_CLOSE rid1 0 1 (round_close_bytes r), herald_wire FL_FRAME_BEACON rid2 0 1 (beacon_bytes b)]))"
  shows "\<exists>y' v. run_ticks lm cb junk ((length ks + 70) div 71 + 2) y0 = Some y' \<and> sys_state y' = FL_SHARD_STATE_TRAINING
    \<and> sh_beacon (sy_shard y') = b \<and> sh_current_round (sy_shard y') = bp_round_id b
    \<and> q_holds (de_h2s (sy_env y')) (enc_frames [])
    \<and> (\<forall>i < unat n. f_ord (v ! i) = sent_value d ks i \<and> md_params (sh_model (sy_shard y')) ! i
        = (if ks = [] then md_params (sh_model (sy_shard y0)) ! i else md_params (sh_model (sy_shard y0)) ! i + v ! i))"
proof -
  let ?fs = "[herald_wire FL_FRAME_ROUND_CLOSE rid1 0 1 (round_close_bytes r), herald_wire FL_FRAME_BEACON rid2 0 1 (beacon_bytes b)]"
  have ft: "(length ks + 70) div 71 = frag_total buf" by (simp add: frag_total_def ks(1))
  have f: "wf_frame (jk_frame junk)" using junk by (simp add: wf_locals_def)
  obtain y1 v where y1: "run_ticks lm cb junk (frag_total buf) y0 = Some y1" "length (sh_rx_buf (sy_shard y1)) = 224"
    "sh_hal (sy_shard y1) = demo_hal clock" "sys_state y1 = FL_SHARD_STATE_IDLE \<or> sys_state y1 = FL_SHARD_STATE_RECV_DELTA"
    "cc_encrypt_enabled (sh_crypto (sy_shard y1)) = 0" "q_holds (de_h2s (sy_env y1)) (enc_frames ?fs)"
    and v: "\<forall>i < unat n. f_ord (v ! i) = sent_value d ks i \<and> md_params (sh_model (sy_shard y1)) ! i
        = (if ks = [] then md_params (sh_model (sy_shard y0)) ! i else md_params (sh_model (sy_shard y0)) ! i + v ! i)"
  proof (cases ks)
    case Nil
    then have z: "frag_total buf = 0" using ft by simp
    have "f_ord (replicate (unat n) (0 :: f32) ! i) = sent_value d ks i" if "i < unat n" for i
      using that Nil f_ord_eq_0_iff by (simp add: sent_value_def)
    then show thesis using that [of y0 "replicate (unat n) 0"] s q z Nil by (simp add: wf_shard_def)
  next
    case Cons
    have t: "0 < frag_total buf" using frag_total_covers(2) [of 0 buf] Cons ks(1) by simp
    obtain y' v where "run_ticks lm cb junk (frag_total buf) y0 = Some y'" "sys_state y' = FL_SHARD_STATE_IDLE"
      "wf_shard (sy_shard y')" "sh_hal (sy_shard y') = demo_hal clock" "sh_crypto (sy_shard y') = sh_crypto (sy_shard y0)"
      "q_holds (de_h2s (sy_env y')) (enc_frames ?fs)" "\<forall>i < unat n. f_ord (v ! i) = sent_value d ks i
        \<and> md_params (sh_model (sy_shard y')) ! i = md_params (sh_model (sy_shard y0)) ! i + v ! i"
      using delta_received [OF s(1-5) junk wf t q ks, of lm cb] by blast
    then show thesis using that [of y' v] s(6) Cons by (simp add: wf_shard_def)
  qed
  obtain q2 x2 where c: "length x2 = 224" "q_holds q2 (enc_frames [herald_wire FL_FRAME_BEACON rid2 0 1 (beacon_bytes b)])"
    "fl_shard_tick lm cb junk y1 = Some (FL_SHARD_STATE_IDLE,
      y1\<lparr>sy_shard := (sy_shard y1)\<lparr>sh_rx_buf := x2, sh_state := FL_SHARD_STATE_IDLE\<rparr>, sy_env := (sy_env y1)\<lparr>de_h2s := q2\<rparr>\<rparr>)"
    using round_close_tick [OF y1(2-5) f y1(6), of lm cb] by blast
  let ?y2 = "y1\<lparr>sy_shard := (sy_shard y1)\<lparr>sh_rx_buf := x2, sh_state := FL_SHARD_STATE_IDLE\<rparr>, sy_env := (sy_env y1)\<lparr>de_h2s := q2\<rparr>\<rparr>"
  have y2: "length (sh_rx_buf (sy_shard ?y2)) = 224" "sh_hal (sy_shard ?y2) = demo_hal clock" "sys_state ?y2 = FL_SHARD_STATE_IDLE"
    "cc_encrypt_enabled (sh_crypto (sy_shard ?y2)) = 0"
    "q_holds (de_h2s (sy_env ?y2)) (enc_frames (herald_wire FL_FRAME_BEACON rid2 0 1 (beacon_bytes b) # []))"
    using y1(3,5) c(1,2) by simp_all
  obtain q3 x3 where t: "q_holds q3 (enc_frames [])" "fl_shard_tick lm cb junk ?y2 = Some (FL_SHARD_STATE_TRAINING,
      ?y2\<lparr>sy_shard := (sy_shard ?y2)\<lparr>sh_rx_buf := x3, sh_beacon := b, sh_current_round := bp_round_id b, sh_state := FL_SHARD_STATE_TRAINING\<rparr>,
        sy_env := (sy_env ?y2)\<lparr>de_h2s := q3\<rparr>\<rparr>)"
    using beacon_tick [OF y2(1-4) f y2(5), of lm cb] by blast
  let ?y3 = "?y2\<lparr>sy_shard := (sy_shard ?y2)\<lparr>sh_rx_buf := x3, sh_beacon := b, sh_current_round := bp_round_id b, sh_state := FL_SHARD_STATE_TRAINING\<rparr>,
        sy_env := (sy_env ?y2)\<lparr>de_h2s := q3\<rparr>\<rparr>"
  have "run_ticks lm cb junk (frag_total buf + 2) y0 = Some ?y3"
    using y1(1) c(3) t(2) by (simp add: numeral_2_eq_2)
  then show ?thesis using t(1) v unfolding ft by (intro exI [of _ ?y3] exI [of _ v]) simp
qed

section \<open>Both\<close>

text \<open>C4: A round turns over: when its window is over and at least one shard has answered, one pass of
  the Herald's event loop adds the aggregate to the global model, sends its top tenth, closes the
  round and opens the next one; a shard that waits for the delta handles one of the Herald's frames
  for each tick and is then training for the next round, each of its parameters moved by the Q8
  value of the aggregate that was sent for it, by zero where none was.\<close>

theorem round_turns_over:
  assumes qs: "qsort_spec qs" and hj: "wf_herald_locals hj" and I: "herald_inv gw_ok fd n us z"
    and close: "fl_round_should_close (gw_clock (hs_world z)) (he_scheduler (hs_herald z))"
    and some: "0 < rs_shards_complete (he_scheduler (hs_herald z))" and cb: "hc_on_round_complete (he_config (hs_herald z)) = None"
    and q: "q_holds (de_s2h (gw_link (hs_world z))) []" "q_holds (de_h2s (gw_link (hs_world z))) []"
    and s: "wf_shard (sy_shard y)" "sh_hal (sy_shard y) = demo_hal clock" "sys_state y = FL_SHARD_STATE_RECV_DELTA"
      "sh_rx_frag_recv (sy_shard y) = 0" "md_total_params (sh_model (sy_shard y)) = n" "cc_encrypt_enabled (sh_crypto (sy_shard y)) = 0"
    and junk: "wf_locals junk"
  shows "\<exists>delta ks z' y' v. fl_agg_finalize qs (he_aggregator (hs_herald z)) (hs_agg_delta z) = Some delta
    \<and> herald_iter queue_posix qs hj z = Some z' \<and> herald_inv gw_ok fd n [] z'
    \<and> (\<forall>i < unat n. hc_global_model (he_config (hs_herald z')) ! i = hc_global_model (he_config (hs_herald z)) ! i + delta ! i)
    \<and> he_current_round (hs_herald z') = rs_round_id (he_scheduler (hs_herald z)) + 1
    \<and> top_list delta (unat n) ks \<and> length ks \<le> max 1 (unat n div 10)
    \<and> (length ks < max 1 (unat n div 10) \<longrightarrow> (\<forall>j < unat n. j \<notin> set ks \<longrightarrow> mag_at delta j < sparse_tiny))
    \<and> run_ticks lm ucb junk ((length ks + 70) div 71 + 2) (y\<lparr>sy_env := gw_link (hs_world z')\<rparr>) = Some y'
    \<and> sys_state y' = FL_SHARD_STATE_TRAINING \<and> sh_current_round (sy_shard y') = he_current_round (hs_herald z')
    \<and> sh_beacon (sy_shard y') = herald_beacon (hs_herald z') (he_current_round (hs_herald z'))
    \<and> (\<forall>i < unat n. f_ord (v ! i) = sent_value delta ks i \<and> md_params (sh_model (sy_shard y')) ! i
        = (if ks = [] then md_params (sh_model (sy_shard y)) ! i else md_params (sh_model (sy_shard y)) ! i + v ! i))"
proof -
  obtain delta ks buf z' where c: "fl_agg_finalize qs (he_aggregator (hs_herald z)) (hs_agg_delta z) = Some delta"
    "wf_sparse buf" "sb_list buf = map (sparse_entry delta) ks" "top_list delta (unat n) ks" "length ks \<le> max 1 (unat n div 10)"
    "length ks < max 1 (unat n div 10) \<longrightarrow> (\<forall>j < unat n. j \<notin> set ks \<longrightarrow> mag_at delta j < sparse_tiny)"
    "herald_iter queue_posix qs hj z = Some z'" "herald_inv gw_ok fd n [] z'"
    "he_current_round (hs_herald z') = rs_round_id (he_scheduler (hs_herald z)) + 1"
    "\<forall>i < unat n. hc_global_model (he_config (hs_herald z')) ! i = hc_global_model (he_config (hs_herald z)) ! i + delta ! i"
    "q_holds (de_h2s (gw_link (hs_world z'))) (enc_frames (turn_frames z z' buf))"
    using closing_pass [OF qs hj I close some cb q] by blast
  have ks: "distinct ks" "set ks \<subseteq> {..<unat n}" using c(4) by (simp_all add: top_list_def)
  let ?y = "y\<lparr>sy_env := gw_link (hs_world z')\<rparr>"
  have y: "wf_shard (sy_shard ?y)" "sh_hal (sy_shard ?y) = demo_hal clock" "sys_state ?y = FL_SHARD_STATE_RECV_DELTA"
    "sh_rx_frag_recv (sy_shard ?y) = 0" "md_total_params (sh_model (sy_shard ?y)) = n" "cc_encrypt_enabled (sh_crypto (sy_shard ?y)) = 0"
    "q_holds (de_h2s (sy_env ?y)) (enc_frames (turn_frames z z' buf))"
    using s c(11) by simp_all
  obtain y' v where r: "run_ticks lm ucb junk ((length ks + 70) div 71 + 2) ?y = Some y'" "sys_state y' = FL_SHARD_STATE_TRAINING"
    "sh_beacon (sy_shard y') = herald_beacon (hs_herald z') (he_current_round (hs_herald z'))"
    "sh_current_round (sy_shard y') = bp_round_id (herald_beacon (hs_herald z') (he_current_round (hs_herald z')))"
    "\<forall>i < unat n. f_ord (v ! i) = sent_value delta ks i \<and> md_params (sh_model (sy_shard y')) ! i
        = (if ks = [] then md_params (sh_model (sy_shard ?y)) ! i else md_params (sh_model (sy_shard ?y)) ! i + v ! i)"
    using shard_follows [OF y(1-6) junk c(2,3) ks y(7), of lm ucb] by blast
  have "sh_current_round (sy_shard y') = he_current_round (hs_herald z')" using r(4) by (simp add: herald_beacon_def Let_def)
  then show ?thesis using c(1,4-10) r(1-3,5)
    by (intro exI [of _ delta] exI [of _ ks] exI [of _ z'] exI [of _ y'] exI [of _ v]) simp
qed

text \<open>A Herald whose window is over, after one update of 1 for each of its hundred parameters.\<close>

definition closing_herald :: "gateway_env herald_sys" where
  "closing_herald = (let z = sample_herald (empty_gateway\<lparr>gw_clock := 60\<rparr>); h = hs_herald z in
     z\<lparr>hs_herald := h\<lparr>he_aggregator := the (fl_agg_add (he_aggregator h) (replicate 4096 1) 100 100),
       he_scheduler := snd (fl_round_shard_complete 7 (he_scheduler h))\<rparr>\<rparr>)"

lemma closing_herald_inv:
  "herald_inv gw_ok 3 100 (counted [replicate 4096 1]) closing_herald" "hs_world closing_herald = empty_gateway\<lparr>gw_clock := 60\<rparr>"
  "he_config (hs_herald closing_herald) = sample_gateway"
  "fl_round_should_close 60 (he_scheduler (hs_herald closing_herald))" "0 < rs_shards_complete (he_scheduler (hs_herald closing_herald))"
  "rs_round_id (he_scheduler (hs_herald closing_herald)) = 0"
proof -
  let ?z = "sample_herald (empty_gateway\<lparr>gw_clock := 60\<rparr>)" and ?u = "replicate 4096 1 :: f32 list"
  have ok: "gw_ok (empty_gateway\<lparr>gw_clock := 60\<rparr>)" using empty_gateway_ok(1) by (simp add: gw_ok_def)
  note z = sample_herald_inv [of gw_ok, OF ok]
  note inv = z(1) [unfolded herald_inv_def Let_def]
  have "grid 131072 (1 :: f32)" unfolding grid_def by (intro conjI exI [of _ 128]) (simp_all add: f_ord_def f32_eval)
  then have u: "update_ok 100 ?u" by (simp add: update_ok_def)
  have I: "agg_inv (hc_aggregator (he_config (hs_herald ?z))) 100 [] (he_aggregator (hs_herald ?z))" using inv by blast
  obtain a where a: "fl_agg_add (he_aggregator (hs_herald ?z)) ?u 100 100 = Some a"
    "agg_inv (hc_aggregator (he_config (hs_herald ?z))) 100 (counted ([] @ [?u])) a"
    "ag_fedprox_mu a = ag_fedprox_mu (he_aggregator (hs_herald ?z))" "ag_global_model a = ag_global_model (he_aggregator (hs_herald ?z))"
    using agg_add_inv [OF I u, of 100] by blast
  have c: "closing_herald = ?z\<lparr>hs_herald := (hs_herald ?z)\<lparr>he_aggregator := a, he_scheduler := snd (fl_round_shard_complete 7 (he_scheduler (hs_herald ?z)))\<rparr>\<rparr>"
    by (simp add: closing_herald_def Let_def a(1))
  have "\<forall>v \<in> set (counted [?u]). update_ok 100 v" using u by (auto dest!: in_set_takeD)
  then show "herald_inv gw_ok 3 100 (counted [?u]) closing_herald" using inv a(2-4) unfolding c by (simp add: herald_inv_def)
  show "hs_world closing_herald = empty_gateway\<lparr>gw_clock := 60\<rparr>" "he_config (hs_herald closing_herald) = sample_gateway"
    using z(3,4) unfolding c by simp_all
  show "fl_round_should_close 60 (he_scheduler (hs_herald closing_herald))" "0 < rs_shards_complete (he_scheduler (hs_herald closing_herald))"
    "rs_round_id (he_scheduler (hs_herald closing_herald)) = 0"
    unfolding c by (simp_all add: z(5) fl_round_shard_complete_def Let_def fl_round_open_def fl_round_init_def fl_round_should_close_def sample_gateway_def)
qed

theorem round_turns_over_witness:
  "\<forall>lm ucb. \<exists>z' y' m. herald_iter queue_posix cmp_isort sample_junk closing_herald = Some z' \<and> he_current_round (hs_herald z') = 1
    \<and> m \<le> 3 \<and> run_ticks lm ucb idle_locals m (waiting_shard\<lparr>sy_env := gw_link (hs_world z')\<rparr>) = Some y'
    \<and> sys_state y' = FL_SHARD_STATE_TRAINING \<and> sh_current_round (sy_shard y') = 1"
proof (intro allI)
  fix lm and ucb :: "demo_env data_cb"
  note z = closing_herald_inv
  have close: "fl_round_should_close (gw_clock (hs_world closing_herald)) (he_scheduler (hs_herald closing_herald))" using z(2,4) by simp
  have cb: "hc_on_round_complete (he_config (hs_herald closing_herald)) = None" by (simp add: z(3) sample_gateway_def)
  have q: "q_holds (de_s2h (gw_link (hs_world closing_herald))) []" "q_holds (de_h2s (gw_link (hs_world closing_herald))) []"
    using empty_gateway_ok(2,3) by (simp_all add: z(2))
  have enc: "cc_encrypt_enabled (sh_crypto (sy_shard waiting_shard)) = 0" by (simp add: waiting_shard_def zero_shard_def)
  obtain ks :: "nat list" and z' y' where r: "herald_iter queue_posix cmp_isort sample_junk closing_herald = Some z'"
    "he_current_round (hs_herald z') = rs_round_id (he_scheduler (hs_herald closing_herald)) + 1"
    "length ks \<le> max 1 (unat (100 :: u16) div 10)"
    "run_ticks lm ucb idle_locals ((length ks + 70) div 71 + 2) (waiting_shard\<lparr>sy_env := gw_link (hs_world z')\<rparr>) = Some y'"
    "sys_state y' = FL_SHARD_STATE_TRAINING" "sh_current_round (sy_shard y') = he_current_round (hs_herald z')"
    using round_turns_over [OF isort.qsort_spec_axioms sample_junk_wf z(1) close z(5) cb q waiting_shard_ok(1-4,7) enc waiting_shard_ok(8), of lm ucb]
    by blast
  have "(length ks + 70) div 71 + 2 \<le> 3" using r(3) by simp
  then show "\<exists>z' y' m. herald_iter queue_posix cmp_isort sample_junk closing_herald = Some z' \<and> he_current_round (hs_herald z') = 1
    \<and> m \<le> 3 \<and> run_ticks lm ucb idle_locals m (waiting_shard\<lparr>sy_env := gw_link (hs_world z')\<rparr>) = Some y'
    \<and> sys_state y' = FL_SHARD_STATE_TRAINING \<and> sh_current_round (sy_shard y') = 1"
    using r(1,2,4-6) z(6)
    by (intro exI [of _ z'] exI [of _ y'] exI [of _ "(length ks + 70) div 71 + 2"]) simp
qed

section \<open>A whole round\<close>

text \<open>The Herald with one more shard complete, after its window.\<close>

lemma round_over:
  assumes I: "herald_inv gw_ok fd n us z1" and mid: "mid_round z"
    and sch: "he_scheduler (hs_herald z1) = snd (fl_round_shard_complete sid (he_scheduler (hs_herald z)))"
    and q: "q_holds (de_s2h e) []" "q_holds (de_h2s e) []" and T: "rs_window_close_at (he_scheduler (hs_herald z)) \<le> T"
  defines "z' \<equiv> z1\<lparr>hs_world := \<lparr>gw_link = e, gw_clock = T\<rparr>\<rparr>"
  shows "herald_inv gw_ok fd n us z'" "fl_round_should_close (gw_clock (hs_world z')) (he_scheduler (hs_herald z'))"
    "0 < rs_shards_complete (he_scheduler (hs_herald z'))"
proof -
  have "gw_ok \<lparr>gw_link = e, gw_clock = T\<rparr>"
    unfolding gw_ok_def using q by (intro conjI exI [of _ "[]"]) (simp_all add: q_holds_def)
  then show "herald_inv gw_ok fd n us z'" using I by (simp add: z'_def herald_inv_def Let_def)
  show "fl_round_should_close (gw_clock (hs_world z')) (he_scheduler (hs_herald z'))"
    using mid T by (simp add: z'_def sch fl_round_shard_complete_def Let_def fl_round_should_close_def mid_round_def)
  let ?k = "rs_shards_complete (he_scheduler (hs_herald z))"
  let ?m = "rp_max_shards (rs_policy (he_scheduler (hs_herald z)))"
  have "Suc (unat ?k) < unat ?m" using mid by (simp add: mid_round_def Let_def)
  then have "Suc (unat ?k) < 256" using unat_u8_less [of ?m] by linarith
  then have "unat (?k + 1) = Suc (unat ?k)" by (simp add: unat_word_ariths(1))
  then have "?k + 1 \<noteq> 0" by (metis Zero_not_Suc unat_0)
  then show "0 < rs_shards_complete (he_scheduler (hs_herald z'))"
    by (simp add: z'_def sch fl_round_shard_complete_def Let_def word_gt_0)
qed

lemma fedavg_delta:
  assumes I: "herald_inv gw_ok fd n us z" and "hc_aggregator (he_config (hs_herald z)) = FL_AGG_FEDAVG" "us \<noteq> []"
    and d: "fl_agg_finalize qs (he_aggregator (hs_herald z)) (hs_agg_delta z) = Some delta"
  shows "\<forall>i < unat n. delta ! i = agg_mean us i"
proof -
  note inv = I [unfolded herald_inv_def Let_def]
  have n: "unat n \<le> length (hs_agg_delta z)" using inv by (auto simp: agg_inv_def wf_agg_def)
  have "agg_inv FL_AGG_FEDAVG n us (he_aggregator (hs_herald z))" using inv assms(2) by simp
  from finalize_fedavg_eq [OF this assms(3) n, of qs] show ?thesis using d n by auto
qed

text \<open>The shard once it has found its acknowledgement.\<close>

lemma uplink_acked:
  assumes s: "ready_to_send (sy_shard y0)" "sh_hal (sy_shard y0) = demo_hal clock" "sys_state y0 = FL_SHARD_STATE_TX"
      "sh_tx_frag_sent (sy_shard y0) = 0" "wf_shard (sy_shard y0)"
      "distinct (map ge_param_index (sb_list (sh_update_buf (sy_shard y0))))"
    and junk: "wf_locals junk" and q: "q_holds (de_s2h (sy_env y0)) []" "q_holds (de_h2s (sy_env y0)) []"
    and hj: "wf_herald_locals hj" and I: "herald_inv gw_ok fd n us z" and mid: "mid_round z"
    and fresh: "active_now (gw_clock (hs_world z)) (he_frag_pool (hs_herald z))" "alloc_slot (he_frag_pool (hs_herald z)) \<noteq> None"
      "\<forall>i < FL_POOL_MAX_SHARDS. sl_state (fp_slots (he_frag_pool (hs_herald z)) ! i) \<noteq> FL_FRAG_SLOT_EMPTY
         \<longrightarrow> sl_shard_id (fp_slots (he_frag_pool (hs_herald z)) ! i) \<noteq> sh_shard_id (sy_shard y0)"
    and cb: "hc_on_shard_update (he_config (hs_herald z)) = None"
  shows "\<exists>y z1 u y1. run_ticks lm ucb junk (unat (sh_tx_frag_total (sy_shard y0))) y0 = Some y
    \<and> herald_iters queue_posix qs hj (unat (sh_tx_frag_total (sy_shard y0))) (z\<lparr>hs_world := (hs_world z)\<lparr>gw_link := sy_env y\<rparr>\<rparr>) = Some z1
    \<and> herald_inv gw_ok fd n (counted (us @ [u])) z1 \<and> dense_of n (sb_list (sh_update_buf (sy_shard y0))) u
    \<and> he_scheduler (hs_herald z1) = snd (fl_round_shard_complete (sh_shard_id (sy_shard y0)) (he_scheduler (hs_herald z)))
    \<and> he_config (hs_herald z1) = he_config (hs_herald z)
    \<and> fl_pool_get_complete (he_frag_pool (hs_herald z1)) (sh_shard_id (sy_shard y0)) = None
    \<and> fl_shard_tick lm ucb junk (y\<lparr>sy_env := gw_link (hs_world z1)\<rparr>) = Some (FL_SHARD_STATE_RECV_DELTA, y1)
    \<and> q_holds (de_s2h (sy_env y1)) [] \<and> q_holds (de_h2s (sy_env y1)) []
    \<and> wf_shard (sy_shard y1) \<and> sh_hal (sy_shard y1) = demo_hal clock \<and> sys_state y1 = FL_SHARD_STATE_RECV_DELTA
    \<and> sh_rx_frag_recv (sy_shard y1) = 0 \<and> sh_model (sy_shard y1) = sh_model (sy_shard y0) \<and> sh_crypto (sy_shard y1) = sh_crypto (sy_shard y0)"
proof -
  have j: "length (jk_payload junk) = FL_PAYLOAD_MAX" "wf_frame (jk_frame junk)" using junk by (simp_all add: wf_locals_def)
  obtain y z1 u where up: "run_ticks lm ucb junk (unat (sh_tx_frag_total (sy_shard y0))) y0 = Some y"
    "herald_iters queue_posix qs hj (unat (sh_tx_frag_total (sy_shard y0))) (z\<lparr>hs_world := (hs_world z)\<lparr>gw_link := sy_env y\<rparr>\<rparr>) = Some z1"
    "dense_of n (sb_list (sh_update_buf (sy_shard y0))) u"
    "fl_pool_get_complete (he_frag_pool (hs_herald z1)) (sh_shard_id (sy_shard y0)) = None"
    and sy: "sy_shard y = (sy_shard y0)\<lparr>sh_tx_frag_sent := sh_tx_frag_total (sy_shard y0), sh_state := FL_SHARD_STATE_AWAIT_ACK\<rparr>"
    and I1: "herald_inv gw_ok fd n (counted (us @ [u])) z1"
    and h1: "he_scheduler (hs_herald z1) = snd (fl_round_shard_complete (sh_shard_id (sy_shard y0)) (he_scheduler (hs_herald z)))"
      "he_config (hs_herald z1) = he_config (hs_herald z)"
    and q1: "q_holds (de_s2h (gw_link (hs_world z1))) []"
      "q_holds (de_h2s (gw_link (hs_world z1))) (enc_frames [ack_wire (he_current_round (hs_herald z))])"
    using uplink [OF s(1-4) q j(1) hj I mid fresh s(6) cb, of lm ucb qs] by blast
  let ?y = "y\<lparr>sy_env := gw_link (hs_world z1)\<rparr>"
  obtain qa x where a: "q_holds qa (enc_frames [])" "length x = FL_SHARD_RX_BUFFER_SIZE"
    "fl_shard_tick lm ucb junk ?y = Some (FL_SHARD_STATE_RECV_DELTA,
      ?y\<lparr>sy_shard := (sy_shard ?y)\<lparr>sh_rx_buf := x, sh_rounds_completed := sh_rounds_completed (sy_shard ?y) + 1,
          sh_state := FL_SHARD_STATE_RECV_DELTA, sh_rx_frag_recv := 0, sh_rx_frag_total := 0, sh_delta_buf := zero_sparse\<rparr>,
        sy_env := (sy_env ?y)\<lparr>de_h2s := qa\<rparr>\<rparr>)"
    using ack_tick [of ?y clock junk "he_current_round (hs_herald z)" lm ucb] sy s(2,5) j(2) q1(2) by (auto simp: wf_shard_def)
  let ?y1 = "?y\<lparr>sy_shard := (sy_shard ?y)\<lparr>sh_rx_buf := x, sh_rounds_completed := sh_rounds_completed (sy_shard ?y) + 1,
          sh_state := FL_SHARD_STATE_RECV_DELTA, sh_rx_frag_recv := 0, sh_rx_frag_total := 0, sh_delta_buf := zero_sparse\<rparr>,
        sy_env := (sy_env ?y)\<lparr>de_h2s := qa\<rparr>\<rparr>"
  have "wf_shard (sy_shard ?y1)" using s(5) sy a(2) by (simp add: wf_shard_def zero_sparse_def wf_sparse_def)
  then show ?thesis using up I1 h1 a(3) q1(1) a(1) sy s(2)
    by (intro exI [of _ y] exI [of _ z1] exI [of _ u] exI [of _ ?y1]) simp
qed

text \<open>C1: A whole round between a shard and the Herald, over queues that lose nothing, without encryption
  or callbacks, with room in the round and in the pool: from the start of its sending phase the shard
  sends its update tick by tick, the Herald takes it in as many passes of its event loop, counts it in
  once, frees its slot and acknowledges it, and the shard waits for the delta. As soon as the window is over, one more
  pass adds the aggregate of the updates so far and this one (with FedAvg their mean) to the global
  model and sends the largest tenth of its coordinates, fewer only if every other one is below the
  threshold of the encoder; the shard adds the Q8 values of the coordinates sent to the parameters it
  has trained, leaves the others, and is in the training phase of the next round, whose number is one more.\<close>

theorem whole_round:
  assumes s: "ready_to_send (sy_shard y0)" "sh_hal (sy_shard y0) = demo_hal clock" "sys_state y0 = FL_SHARD_STATE_TX"
      "sh_tx_frag_sent (sy_shard y0) = 0" "wf_shard (sy_shard y0)" "md_total_params (sh_model (sy_shard y0)) = n"
      "cc_encrypt_enabled (sh_crypto (sy_shard y0)) = 0" "distinct (map ge_param_index (sb_list (sh_update_buf (sy_shard y0))))"
    and junk: "wf_locals junk" and q: "q_holds (de_s2h (sy_env y0)) []" "q_holds (de_h2s (sy_env y0)) []"
    and qs: "qsort_spec qs" and hj: "wf_herald_locals hj" and I: "herald_inv gw_ok fd n us z" and mid: "mid_round z"
    and fresh: "active_now (gw_clock (hs_world z)) (he_frag_pool (hs_herald z))" "alloc_slot (he_frag_pool (hs_herald z)) \<noteq> None"
      "\<forall>i < FL_POOL_MAX_SHARDS. sl_state (fp_slots (he_frag_pool (hs_herald z)) ! i) \<noteq> FL_FRAG_SLOT_EMPTY
         \<longrightarrow> sl_shard_id (fp_slots (he_frag_pool (hs_herald z)) ! i) \<noteq> sh_shard_id (sy_shard y0)"
    and cb: "hc_on_shard_update (he_config (hs_herald z)) = None" "hc_on_round_complete (he_config (hs_herald z)) = None"
    and T: "rs_window_close_at (he_scheduler (hs_herald z)) \<le> T"
  shows "\<exists>y z1 u y1 delta ks z2 y2 v. run_ticks lm ucb junk (unat (sh_tx_frag_total (sy_shard y0))) y0 = Some y
    \<and> herald_iters queue_posix qs hj (unat (sh_tx_frag_total (sy_shard y0)))
        (z\<lparr>hs_world := (hs_world z)\<lparr>gw_link := sy_env y\<rparr>\<rparr>) = Some z1
    \<and> dense_of n (sb_list (sh_update_buf (sy_shard y0))) u \<and> herald_inv gw_ok fd n (counted (us @ [u])) z1
    \<and> rs_shards_complete (he_scheduler (hs_herald z1)) = rs_shards_complete (he_scheduler (hs_herald z)) + 1
    \<and> fl_pool_get_complete (he_frag_pool (hs_herald z1)) (sh_shard_id (sy_shard y0)) = None
    \<and> fl_shard_tick lm ucb junk (y\<lparr>sy_env := gw_link (hs_world z1)\<rparr>) = Some (FL_SHARD_STATE_RECV_DELTA, y1)
    \<and> herald_iter queue_posix qs hj (z1\<lparr>hs_world := \<lparr>gw_link = sy_env y1, gw_clock = T\<rparr>\<rparr>) = Some z2
    \<and> herald_inv gw_ok fd n [] z2 \<and> he_current_round (hs_herald z2) = rs_round_id (he_scheduler (hs_herald z)) + 1
    \<and> fl_agg_finalize qs (he_aggregator (hs_herald z1)) (hs_agg_delta z1) = Some delta
    \<and> (hc_aggregator (he_config (hs_herald z)) = FL_AGG_FEDAVG \<longrightarrow> (\<forall>i < unat n. delta ! i = agg_mean (counted (us @ [u])) i))
    \<and> (\<forall>i < unat n. hc_global_model (he_config (hs_herald z2)) ! i = hc_global_model (he_config (hs_herald z)) ! i + delta ! i)
    \<and> top_list delta (unat n) ks \<and> length ks \<le> max 1 (unat n div 10)
    \<and> (length ks < max 1 (unat n div 10) \<longrightarrow> (\<forall>j < unat n. j \<notin> set ks \<longrightarrow> mag_at delta j < sparse_tiny))
    \<and> run_ticks lm ucb junk ((length ks + 70) div 71 + 2) (y1\<lparr>sy_env := gw_link (hs_world z2)\<rparr>) = Some y2
    \<and> sys_state y2 = FL_SHARD_STATE_TRAINING \<and> sh_current_round (sy_shard y2) = he_current_round (hs_herald z2)
    \<and> (\<forall>i < unat n. f_ord (v ! i) = sent_value delta ks i \<and> md_params (sh_model (sy_shard y2)) ! i
        = (if ks = [] then md_params (sh_model (sy_shard y0)) ! i else md_params (sh_model (sy_shard y0)) ! i + v ! i))"
proof -
  obtain y z1 u y1 where up: "run_ticks lm ucb junk (unat (sh_tx_frag_total (sy_shard y0))) y0 = Some y"
    "herald_iters queue_posix qs hj (unat (sh_tx_frag_total (sy_shard y0))) (z\<lparr>hs_world := (hs_world z)\<lparr>gw_link := sy_env y\<rparr>\<rparr>) = Some z1"
    "dense_of n (sb_list (sh_update_buf (sy_shard y0))) u"
    "fl_pool_get_complete (he_frag_pool (hs_herald z1)) (sh_shard_id (sy_shard y0)) = None"
    "fl_shard_tick lm ucb junk (y\<lparr>sy_env := gw_link (hs_world z1)\<rparr>) = Some (FL_SHARD_STATE_RECV_DELTA, y1)"
    and I1: "herald_inv gw_ok fd n (counted (us @ [u])) z1"
    and h1: "he_scheduler (hs_herald z1) = snd (fl_round_shard_complete (sh_shard_id (sy_shard y0)) (he_scheduler (hs_herald z)))"
      "he_config (hs_herald z1) = he_config (hs_herald z)"
    and qe: "q_holds (de_s2h (sy_env y1)) []" "q_holds (de_h2s (sy_env y1)) []"
    and y1: "wf_shard (sy_shard y1)" "sh_hal (sy_shard y1) = demo_hal clock" "sys_state y1 = FL_SHARD_STATE_RECV_DELTA"
      "sh_rx_frag_recv (sy_shard y1) = 0" "sh_model (sy_shard y1) = sh_model (sy_shard y0)" "sh_crypto (sy_shard y1) = sh_crypto (sy_shard y0)"
    using uplink_acked [OF s(1-5,8) junk q hj I mid fresh cb(1), of lm ucb qs] by blast
  let ?z1 = "z1\<lparr>hs_world := \<lparr>gw_link = sy_env y1, gw_clock = T\<rparr>\<rparr>"
  note r = round_over [OF I1 mid h1(1) qe T]
  have cb2: "hc_on_round_complete (he_config (hs_herald ?z1)) = None"
    "q_holds (de_s2h (gw_link (hs_world ?z1))) []" "q_holds (de_h2s (gw_link (hs_world ?z1))) []" using cb(2) h1(2) qe by simp_all
  obtain delta ks buf z2 where c: "fl_agg_finalize qs (he_aggregator (hs_herald ?z1)) (hs_agg_delta ?z1) = Some delta"
    "wf_sparse buf" "sb_list buf = map (sparse_entry delta) ks" "top_list delta (unat n) ks" "length ks \<le> max 1 (unat n div 10)"
    "length ks < max 1 (unat n div 10) \<longrightarrow> (\<forall>j < unat n. j \<notin> set ks \<longrightarrow> mag_at delta j < sparse_tiny)"
    "he_current_round (hs_herald z2) = rs_round_id (he_scheduler (hs_herald ?z1)) + 1"
    "herald_iter queue_posix qs hj ?z1 = Some z2" "herald_inv gw_ok fd n [] z2"
    "\<forall>i < unat n. hc_global_model (he_config (hs_herald z2)) ! i = hc_global_model (he_config (hs_herald ?z1)) ! i + delta ! i"
    "q_holds (de_h2s (gw_link (hs_world z2))) (enc_frames (turn_frames ?z1 z2 buf))"
    using closing_pass [OF qs hj r cb2] by blast
  have fa: "\<forall>i < unat n. delta ! i = agg_mean (counted (us @ [u])) i" if "hc_aggregator (he_config (hs_herald z)) = FL_AGG_FEDAVG"
    using fedavg_delta [OF r(1) _ _ c(1)] that h1(2) by simp
  have ks: "distinct ks" "set ks \<subseteq> {..<unat n}" using c(4) by (simp_all add: top_list_def)
  let ?y2 = "y1\<lparr>sy_env := gw_link (hs_world z2)\<rparr>"
  have y2: "wf_shard (sy_shard ?y2)" "sh_hal (sy_shard ?y2) = demo_hal clock" "sys_state ?y2 = FL_SHARD_STATE_RECV_DELTA"
    "sh_rx_frag_recv (sy_shard ?y2) = 0" "md_total_params (sh_model (sy_shard ?y2)) = n" "cc_encrypt_enabled (sh_crypto (sy_shard ?y2)) = 0"
    "q_holds (de_h2s (sy_env ?y2)) (enc_frames (turn_frames ?z1 z2 buf))"
    using s(6,7) y1 c(11) by simp_all
  obtain y' v where f: "run_ticks lm ucb junk ((length ks + 70) div 71 + 2) ?y2 = Some y'" "sys_state y' = FL_SHARD_STATE_TRAINING"
    "sh_current_round (sy_shard y') = bp_round_id (herald_beacon (hs_herald z2) (he_current_round (hs_herald z2)))"
    "\<forall>i < unat n. f_ord (v ! i) = sent_value delta ks i \<and> md_params (sh_model (sy_shard y')) ! i
        = (if ks = [] then md_params (sh_model (sy_shard ?y2)) ! i else md_params (sh_model (sy_shard ?y2)) ! i + v ! i)"
    using shard_follows [OF y2(1-6) junk c(2,3) ks y2(7), of lm ucb] by blast
  have "sh_current_round (sy_shard y') = he_current_round (hs_herald z2)" using f(3) by (simp add: herald_beacon_def Let_def)
  moreover have "rs_shards_complete (he_scheduler (hs_herald z1)) = rs_shards_complete (he_scheduler (hs_herald z)) + 1"
    "rs_round_id (he_scheduler (hs_herald z1)) = rs_round_id (he_scheduler (hs_herald z))"
    by (simp_all add: h1(1) fl_round_shard_complete_def Let_def)
  ultimately show ?thesis using up I1 c(1,4-10) fa f(1,2,4) h1(2) y1(5)
    by (intro exI [of _ y] exI [of _ z1] exI [of _ u] exI [of _ y1] exI [of _ delta] exI [of _ ks] exI [of _ z2] exI [of _ y'] exI [of _ v]) simp
qed

definition round_shard :: "demo_env sys" where
  "round_shard = sample_sending\<lparr>sy_shard := (sy_shard sample_sending)\<lparr>sh_model := zero_model\<lparr>md_total_params := 100\<rparr>\<rparr>\<rparr>"

theorem whole_round_witness:
  "\<forall>lm ucb. \<exists>y z1 y1 z2 y2 m. run_ticks lm ucb idle_locals 2 round_shard = Some y
    \<and> herald_iters queue_posix cmp_isort sample_junk 2 ((sample_herald empty_gateway)\<lparr>hs_world := empty_gateway\<lparr>gw_link := sy_env y\<rparr>\<rparr>) = Some z1
    \<and> fl_shard_tick lm ucb idle_locals (y\<lparr>sy_env := gw_link (hs_world z1)\<rparr>) = Some (FL_SHARD_STATE_RECV_DELTA, y1)
    \<and> herald_iter queue_posix cmp_isort sample_junk (z1\<lparr>hs_world := \<lparr>gw_link = sy_env y1, gw_clock = 60\<rparr>\<rparr>) = Some z2
    \<and> run_ticks lm ucb idle_locals m (y1\<lparr>sy_env := gw_link (hs_world z2)\<rparr>) = Some y2 \<and> sys_state y2 = FL_SHARD_STATE_TRAINING"
proof (intro allI)
  fix lm and ucb :: "demo_env data_cb"
  let ?z = "sample_herald empty_gateway" and ?es = "map (\<lambda>i. \<lparr>ge_param_index = of_nat i, ge_delta_q8 = 64\<rparr>) [0..<80]"
  note z = sample_herald_inv [of gw_ok, OF empty_gateway_ok(1)]
  note defs = round_shard_def sample_sending_def sample_update_def zero_shard_def zero_sparse_def
  have s: "ready_to_send (sy_shard round_shard)" "sh_hal (sy_shard round_shard) = demo_hal (\<lambda>e. (0, e))"
    "sys_state round_shard = FL_SHARD_STATE_TX" "sh_tx_frag_sent (sy_shard round_shard) = 0" "wf_shard (sy_shard round_shard)"
    "md_total_params (sh_model (sy_shard round_shard)) = 100" "cc_encrypt_enabled (sh_crypto (sy_shard round_shard)) = 0"
    by (simp_all add: defs ready_to_send_def wf_sparse_def fl_sparse_fragment_count_def crypto_ready_def wf_shard_def zero_model_def wf_crypto_def)
  have q: "q_holds (de_s2h (sy_env round_shard)) []" "q_holds (de_h2s (sy_env round_shard)) []"
    by (simp_all add: defs idle_demo_def q_holds_def wrapping_queue_def)
  have es: "sb_list (sh_update_buf (sy_shard round_shard)) = ?es" by (simp add: defs sb_list_def take_map)
  have "inj_on (of_nat :: nat \<Rightarrow> u16) {0..<80}" by (rule inj_on_inverseI [where g = unat]) (simp add: unat_of_nat_u16)
  then have d: "distinct (map ge_param_index (sb_list (sh_update_buf (sy_shard round_shard))))"
    unfolding es by (simp add: comp_def distinct_map)
  have m: "mid_round ?z" using z(3,5) by (simp add: mid_round_def Let_def sample_gateway_def fl_round_open_def fl_round_init_def empty_gateway_def)
  have f: "active_now (gw_clock (hs_world ?z)) (he_frag_pool (hs_herald ?z))" "alloc_slot (he_frag_pool (hs_herald ?z)) \<noteq> None"
    "\<forall>i < FL_POOL_MAX_SHARDS. sl_state (fp_slots (he_frag_pool (hs_herald ?z)) ! i) \<noteq> FL_FRAG_SLOT_EMPTY
         \<longrightarrow> sl_shard_id (fp_slots (he_frag_pool (hs_herald ?z)) ! i) \<noteq> sh_shard_id (sy_shard round_shard)"
    by (simp_all add: z(2) active_now_def alloc_slot_def first_slot_None fl_pool_init_def zero_slot_def) (rule exI [of _ 0], simp)
  have cb: "hc_on_shard_update (he_config (hs_herald ?z)) = None" "hc_on_round_complete (he_config (hs_herald ?z)) = None"
    by (simp_all add: z(4) sample_gateway_def)
  have T: "rs_window_close_at (he_scheduler (hs_herald ?z)) \<le> 60"
    by (simp add: z(5) fl_round_open_def fl_round_init_def sample_gateway_def)
  have n: "unat (sh_tx_frag_total (sy_shard round_shard)) = 2" by (simp add: defs)
  show "\<exists>y z1 y1 z2 y2 m. run_ticks lm ucb idle_locals 2 round_shard = Some y
    \<and> herald_iters queue_posix cmp_isort sample_junk 2 (?z\<lparr>hs_world := empty_gateway\<lparr>gw_link := sy_env y\<rparr>\<rparr>) = Some z1
    \<and> fl_shard_tick lm ucb idle_locals (y\<lparr>sy_env := gw_link (hs_world z1)\<rparr>) = Some (FL_SHARD_STATE_RECV_DELTA, y1)
    \<and> herald_iter queue_posix cmp_isort sample_junk (z1\<lparr>hs_world := \<lparr>gw_link = sy_env y1, gw_clock = 60\<rparr>\<rparr>) = Some z2
    \<and> run_ticks lm ucb idle_locals m (y1\<lparr>sy_env := gw_link (hs_world z2)\<rparr>) = Some y2 \<and> sys_state y2 = FL_SHARD_STATE_TRAINING"
    using whole_round [OF s d waiting_shard_ok(8) q isort.qsort_spec_axioms sample_junk_wf z(1) m f cb T, of lm ucb]
    unfolding n z(3) by blast
qed

end
