(* ===== verification/Sx1276.thy ===== *)
theory Sx1276
  imports Hal
begin

text \<open>
  The driver of the SX1276 LoRa modem, \<^verbatim>\<open>shard/hal/stm32/hal_lora.c\<close>. The pins, the SPI
  transfer and the delay are the platform's (the file holds stubs for them, \<open>stub_bus\<close>): they are a
  parameter over the state \<open>'w\<close> of everything outside the program, the chip included.
\<close>

section \<open>The bus and the registers\<close>

record 'w spi_bus =
  spi_nss_low :: "'w \<Rightarrow> 'w"
  spi_nss_high :: "'w \<Rightarrow> 'w"
  spi_transfer :: "u8 \<Rightarrow> 'w \<Rightarrow> u8 \<times> 'w"
  spi_delay_ms :: "u32 \<Rightarrow> 'w \<Rightarrow> 'w"

definition stub_bus :: "'w spi_bus" where
  "stub_bus = \<lparr>spi_nss_low = (\<lambda>w. w), spi_nss_high = (\<lambda>w. w), spi_transfer = (\<lambda>_ w. (0, w)), spi_delay_ms = (\<lambda>_ w. w)\<rparr>"

datatype sx_reg =
    REG_FIFO | REG_OP_MODE | REG_FRF_MSB | REG_FRF_MID | REG_FRF_LSB | REG_PA_CONFIG | REG_LNA | REG_FIFO_ADDR_PTR
  | REG_FIFO_TX_BASE_ADDR | REG_FIFO_RX_BASE_ADDR | REG_FIFO_RX_CURRENT_ADDR | REG_IRQ_FLAGS | REG_RX_NB_BYTES
  | REG_MODEM_CONFIG_1 | REG_MODEM_CONFIG_2 | REG_PREAMBLE_MSB | REG_PREAMBLE_LSB | REG_PAYLOAD_LENGTH
  | REG_MODEM_CONFIG_3 | REG_FREQ_ERROR_MSB | REG_DETECTION_OPTIMIZE | REG_DETECTION_THRESHOLD | REG_SYNC_WORD
  | REG_DIO_MAPPING_1 | REG_VERSION

fun reg_addr :: "sx_reg \<Rightarrow> u8" where
  "reg_addr REG_FIFO = 0x00" | "reg_addr REG_OP_MODE = 0x01" | "reg_addr REG_FRF_MSB = 0x06"
| "reg_addr REG_FRF_MID = 0x07" | "reg_addr REG_FRF_LSB = 0x08" | "reg_addr REG_PA_CONFIG = 0x09"
| "reg_addr REG_LNA = 0x0C" | "reg_addr REG_FIFO_ADDR_PTR = 0x0D" | "reg_addr REG_FIFO_TX_BASE_ADDR = 0x0E"
| "reg_addr REG_FIFO_RX_BASE_ADDR = 0x0F" | "reg_addr REG_FIFO_RX_CURRENT_ADDR = 0x10" | "reg_addr REG_IRQ_FLAGS = 0x12"
| "reg_addr REG_RX_NB_BYTES = 0x13" | "reg_addr REG_MODEM_CONFIG_1 = 0x1D" | "reg_addr REG_MODEM_CONFIG_2 = 0x1E"
| "reg_addr REG_PREAMBLE_MSB = 0x20" | "reg_addr REG_PREAMBLE_LSB = 0x21" | "reg_addr REG_PAYLOAD_LENGTH = 0x22"
| "reg_addr REG_MODEM_CONFIG_3 = 0x26" | "reg_addr REG_FREQ_ERROR_MSB = 0x28" | "reg_addr REG_DETECTION_OPTIMIZE = 0x31"
| "reg_addr REG_DETECTION_THRESHOLD = 0x37" | "reg_addr REG_SYNC_WORD = 0x39" | "reg_addr REG_DIO_MAPPING_1 = 0x40"
| "reg_addr REG_VERSION = 0x42"

datatype sx_mode = MODE_SLEEP | MODE_STDBY | MODE_TX | MODE_RX_CONTINUOUS | MODE_RX_SINGLE

text \<open>The mode byte as it is always written, with \<^verbatim>\<open>MODE_LONG_RANGE_MODE\<close>.\<close>

fun mode_code :: "sx_mode \<Rightarrow> u8" where
  "mode_code MODE_SLEEP = 0x00" | "mode_code MODE_STDBY = 0x01" | "mode_code MODE_TX = 0x03"
| "mode_code MODE_RX_CONTINUOUS = 0x05" | "mode_code MODE_RX_SINGLE = 0x06"

definition long_range :: "sx_mode \<Rightarrow> u8" where
  "long_range m = 0x80 OR mode_code m"

abbreviation IRQ_TX_DONE :: u8 where "IRQ_TX_DONE \<equiv> 0x08"
abbreviation IRQ_RX_DONE :: u8 where "IRQ_RX_DONE \<equiv> 0x40"
abbreviation IRQ_PAYLOAD_CRC_ERROR :: u8 where "IRQ_PAYLOAD_CRC_ERROR \<equiv> 0x20"

definition sx1276_read :: "'w spi_bus \<Rightarrow> sx_reg \<Rightarrow> 'w \<Rightarrow> u8 \<times> 'w" where
  "sx1276_read bus reg w =
     (let w = spi_nss_low bus w;
          (_, w) = spi_transfer bus (reg_addr reg AND 0x7F) w;
          (val, w) = spi_transfer bus 0 w
      in (val, spi_nss_high bus w))"

definition sx1276_write :: "'w spi_bus \<Rightarrow> sx_reg \<Rightarrow> u8 \<Rightarrow> 'w \<Rightarrow> 'w" where
  "sx1276_write bus reg val w =
     (let w = spi_nss_low bus w;
          (_, w) = spi_transfer bus (reg_addr reg OR 0x80) w;
          (_, w) = spi_transfer bus val w
      in spi_nss_high bus w)"

definition sx1276_write_fifo :: "'w spi_bus \<Rightarrow> bytes \<Rightarrow> u8 \<Rightarrow> 'w \<Rightarrow> 'w option" where
  "sx1276_write_fifo bus buf len w =
     (let w = spi_nss_low bus w;
          (_, w) = spi_transfer bus (reg_addr REG_FIFO OR 0x80) w
      in do {
        w \<leftarrow> for_lt (unat len) (\<lambda>i w. do { b \<leftarrow> rd buf i; Some (snd (spi_transfer bus b w)) }) w;
        Some (spi_nss_high bus w) })"

definition sx1276_read_fifo :: "'w spi_bus \<Rightarrow> bytes \<Rightarrow> u8 \<Rightarrow> 'w \<Rightarrow> (bytes \<times> 'w) option" where
  "sx1276_read_fifo bus buf len w =
     (let w = spi_nss_low bus w;
          (_, w) = spi_transfer bus (reg_addr REG_FIFO AND 0x7F) w
      in do {
        (buf, w) \<leftarrow> for_lt (unat len) (\<lambda>i (buf, w). do {
          let (b, w) = spi_transfer bus 0 w;
          buf \<leftarrow> wr buf i b;
          Some (buf, w) }) (buf, w);
        Some (buf, spi_nss_high bus w) })"

section \<open>Start\<close>

definition frf_code :: "u32 \<Rightarrow> u64" where
  "frf_code freq_hz = push_bit 19 (ucast freq_hz) div 32000000"

definition sx1276_set_frequency :: "'w spi_bus \<Rightarrow> u32 \<Rightarrow> 'w \<Rightarrow> 'w" where
  "sx1276_set_frequency bus freq_hz w =
     (let frf = frf_code freq_hz;
          w = sx1276_write bus REG_FRF_MSB (ucast (drop_bit 16 frf)) w;
          w = sx1276_write bus REG_FRF_MID (ucast (drop_bit 8 frf)) w
      in sx1276_write bus REG_FRF_LSB (ucast frf) w)"

text \<open>The register writes of the initialisation, in order; the sums are of \<^verbatim>\<open>int\<close> and cut to a byte.\<close>

definition init_writes :: "u8 \<Rightarrow> u8 \<Rightarrow> (sx_reg \<times> u8) list" where
  "init_writes sf tx_power_dbm =
     (let tx_power_dbm = (if 17 < tx_power_dbm then 17 else tx_power_dbm) in
      [(REG_FIFO_TX_BASE_ADDR, 0), (REG_FIFO_RX_BASE_ADDR, 0), (REG_LNA, 0x23), (REG_MODEM_CONFIG_3, 0x04),
       (REG_MODEM_CONFIG_1, 0x72), (REG_MODEM_CONFIG_2, push_bit 4 sf OR 0x04), (REG_SYNC_WORD, 0x12),
       (REG_PREAMBLE_MSB, 0), (REG_PREAMBLE_LSB, 8), (REG_PA_CONFIG, 0x80 OR (tx_power_dbm - 2))])"

definition lora_init :: "'w spi_bus \<Rightarrow> u32 \<Rightarrow> u8 \<Rightarrow> u8 \<Rightarrow> 'w \<Rightarrow> 'w" where
  "lora_init bus freq_hz sf tx_power_dbm w =
     (let w = spi_delay_ms bus 10 w;
          w = spi_delay_ms bus 10 w;
          w = sx1276_write bus REG_OP_MODE (long_range MODE_SLEEP) w;
          w = spi_delay_ms bus 10 w;
          w = fold (\<lambda>(r, v). sx1276_write bus r v) (init_writes sf tx_power_dbm) w;
          w = sx1276_set_frequency bus freq_hz w
      in sx1276_write bus REG_OP_MODE (long_range MODE_STDBY) w)"

section \<open>Sending and receiving\<close>

text \<open>\<^verbatim>\<open>while (timeout--)\<close> leaves the counter wrapped when it runs out.\<close>

function tx_poll :: "'w spi_bus \<Rightarrow> u32 \<Rightarrow> 'w \<Rightarrow> u32 \<times> 'w" where
  "tx_poll bus timeout w =
     (if timeout = 0 then (timeout - 1, w)
      else
        let timeout = timeout - 1;
            w = spi_delay_ms bus 1 w;
            (flags, w) = sx1276_read bus REG_IRQ_FLAGS w
        in if flags AND IRQ_TX_DONE \<noteq> 0 then (timeout, w) else tx_poll bus timeout w)"
  by pat_completeness auto

lemma unat_dec: "(t :: u32) \<noteq> 0 \<Longrightarrow> unat (t - 1) = unat t - 1"
  by (metis unat_minus_one)

lemma unat_pos: "(t :: u32) \<noteq> 0 \<Longrightarrow> 0 < unat t"
  by (simp add: unat_gt_0)

termination tx_poll
  by (relation "measure (\<lambda>(_, t, _). unat t)") (auto simp: unat_dec unat_pos)

declare tx_poll.simps [simp del]

definition send_setup :: "'w spi_bus \<Rightarrow> bytes \<Rightarrow> u8 \<Rightarrow> 'w \<Rightarrow> 'w option" where
  "send_setup bus buf len w =
     (let w = sx1276_write bus REG_OP_MODE (long_range MODE_STDBY) w;
          w = sx1276_write bus REG_FIFO_ADDR_PTR 0 w
      in do {
        w \<leftarrow> sx1276_write_fifo bus buf len w;
        let w = sx1276_write bus REG_PAYLOAD_LENGTH len w;
        let w = sx1276_write bus REG_DIO_MAPPING_1 0x40 w;
        Some (sx1276_write bus REG_OP_MODE (long_range MODE_TX) w) })"

definition lora_send :: "'w spi_bus \<Rightarrow> bytes \<Rightarrow> u8 \<Rightarrow> 'w \<Rightarrow> (int \<times> 'w) option" where
  "lora_send bus buf len w =
     do { w \<leftarrow> send_setup bus buf len w;
          let (timeout, w) = tx_poll bus 5000 w;
          let w = sx1276_write bus REG_IRQ_FLAGS IRQ_TX_DONE w;
          Some (if 0 < timeout then 0 else - 1, w) }"

function rx_poll :: "'w spi_bus \<Rightarrow> bytes \<Rightarrow> u8 \<Rightarrow> u32 \<Rightarrow> 'w \<Rightarrow> (int \<times> bytes \<times> u8 \<times> 'w) option" where
  "rx_poll bus buf len_out timeout_ms w =
     (if timeout_ms = 0 then Some (1, buf, len_out, w)
      else
        let timeout_ms = timeout_ms - 1;
            w = spi_delay_ms bus 1 w;
            (flags, w) = sx1276_read bus REG_IRQ_FLAGS w
        in if flags AND IRQ_RX_DONE \<noteq> 0 then
             if flags AND IRQ_PAYLOAD_CRC_ERROR \<noteq> 0 then
               Some (- 1, buf, len_out, sx1276_write bus REG_IRQ_FLAGS 0xFF w)
             else
               let (len_out, w) = sx1276_read bus REG_RX_NB_BYTES w;
                   (cur, w) = sx1276_read bus REG_FIFO_RX_CURRENT_ADDR w;
                   w = sx1276_write bus REG_FIFO_ADDR_PTR cur w
               in do {
                 (buf, w) \<leftarrow> sx1276_read_fifo bus buf len_out w;
                 Some (0, buf, len_out, sx1276_write bus REG_IRQ_FLAGS 0xFF w) }
           else rx_poll bus buf len_out timeout_ms w)"
  by pat_completeness auto
termination rx_poll
  by (relation "measure (\<lambda>(_, _, _, t, _). unat t)") (auto simp: unat_dec unat_pos)

declare rx_poll.simps [simp del]

definition recv_setup :: "'w spi_bus \<Rightarrow> 'w \<Rightarrow> 'w" where
  "recv_setup bus w =
     (let (base, w) = sx1276_read bus REG_FIFO_RX_BASE_ADDR w;
          w = sx1276_write bus REG_FIFO_ADDR_PTR base w
      in sx1276_write bus REG_OP_MODE (long_range MODE_RX_SINGLE) w)"

definition lora_recv :: "'w spi_bus \<Rightarrow> bytes \<Rightarrow> u8 \<Rightarrow> u32 \<Rightarrow> 'w \<Rightarrow> (int \<times> bytes \<times> u8 \<times> 'w) option" where
  "lora_recv bus buf len_out timeout_ms w =
     rx_poll bus buf len_out timeout_ms (recv_setup bus w)"

definition lora_set_sf :: "'w spi_bus \<Rightarrow> u8 \<Rightarrow> 'w \<Rightarrow> int \<times> 'w" where
  "lora_set_sf bus sf w =
     (if sf < 7 \<or> 12 < sf then (- 1, w)
      else let (cfg2, w) = sx1276_read bus REG_MODEM_CONFIG_2 w
           in (0, sx1276_write bus REG_MODEM_CONFIG_2 ((cfg2 AND 0x0F) OR push_bit 4 sf) w))"

section \<open>Polling\<close>

text \<open>The state after a number of polls, and the flags that the \<open>k\<close>-th poll reads.\<close>

fun polls :: "'w spi_bus \<Rightarrow> nat \<Rightarrow> 'w \<Rightarrow> 'w" where
  "polls bus 0 w = w"
| "polls bus (Suc k) w = polls bus k (snd (sx1276_read bus REG_IRQ_FLAGS (spi_delay_ms bus 1 w)))"

definition poll_flags :: "'w spi_bus \<Rightarrow> 'w \<Rightarrow> nat \<Rightarrow> u8" where
  "poll_flags bus w k = fst (sx1276_read bus REG_IRQ_FLAGS (spi_delay_ms bus 1 (polls bus k w)))"

lemma poll_flags_Suc:
  "poll_flags bus w (Suc k) = poll_flags bus (snd (sx1276_read bus REG_IRQ_FLAGS (spi_delay_ms bus 1 w))) k"
  by (simp add: poll_flags_def)

text \<open>The first of \<open>n\<close> polls that satisfies a test.\<close>

definition first_poll :: "(nat \<Rightarrow> bool) \<Rightarrow> nat \<Rightarrow> nat option" where
  "first_poll P n = find P [0..<n]"

lemma first_poll_0 [simp]: "first_poll P 0 = None"
  by (simp add: first_poll_def)

lemma first_poll_Suc:
  "first_poll P (Suc n) = (if P 0 then Some 0 else map_option Suc (first_poll (\<lambda>k. P (Suc k)) n))"
proof -
  have "find P (map Suc xs) = map_option Suc (find (\<lambda>k. P (Suc k)) xs)" for xs by (induction xs) auto
  then show ?thesis by (simp add: first_poll_def upt_conv_Cons del: upt_Suc flip: map_Suc_upt)
qed

lemma first_poll_Some: "first_poll P n = Some k \<longleftrightarrow> k < n \<and> P k \<and> (\<forall>j < k. \<not> P j)"
  by (auto simp: first_poll_def find_Some_iff intro!: exI [of _ k])

lemma first_poll_None: "first_poll P n = None \<longleftrightarrow> (\<forall>k < n. \<not> P k)"
  by (auto simp: first_poll_def find_None_iff)

lemma of_nat_u32_Suc: "Suc n < 2 ^ 32 \<Longrightarrow> of_nat (Suc n) \<noteq> (0 :: u32) \<and> of_nat (Suc n) - 1 = (of_nat n :: u32)"
proof -
  assume "Suc n < 2 ^ 32"
  then have "unat (of_nat (Suc n) :: u32) = Suc n" by (intro unat_of_nat_u32) simp
  then show "of_nat (Suc n) \<noteq> (0 :: u32) \<and> of_nat (Suc n) - 1 = (of_nat n :: u32)"
    by (metis add_diff_cancel_left' of_nat_Suc unat_0 nat.distinct(1))
qed

lemma tx_poll_eq:
  "n < 2 ^ 32 \<Longrightarrow> tx_poll bus (of_nat n) w =
    (case first_poll (\<lambda>k. poll_flags bus w k AND IRQ_TX_DONE \<noteq> 0) n of
       None \<Rightarrow> (- 1, polls bus n w)
     | Some k \<Rightarrow> (of_nat (n - Suc k), polls bus (Suc k) w))"
proof (induction n arbitrary: w)
  case 0
  show ?case by (subst tx_poll.simps) simp
next
  case (Suc n)
  obtain f w1 where r: "sx1276_read bus REG_IRQ_FLAGS (spi_delay_ms bus 1 w) = (f, w1)" by (cases "sx1276_read bus REG_IRQ_FLAGS (spi_delay_ms bus 1 w)")
  have f: "poll_flags bus w 0 = f" "poll_flags bus w (Suc k) = poll_flags bus w1 k" "polls bus (Suc k) w = polls bus k w1" for k
    by (simp_all add: poll_flags_def r)
  have n: "of_nat (Suc n) \<noteq> (0 :: u32)" "of_nat (Suc n) - 1 = (of_nat n :: u32)" using of_nat_u32_Suc Suc.prems by blast+
  have "tx_poll bus (of_nat (Suc n)) w = (if f AND IRQ_TX_DONE \<noteq> 0 then (of_nat n, w1) else tx_poll bus (of_nat n) w1)"
    by (subst tx_poll.simps) (simp only: n if_False Let_def r prod.case)
  then show ?case using Suc.IH [of w1] Suc.prems
    by (simp add: first_poll_Suc f del: of_nat_Suc polls.simps(2) split: option.splits)
qed

lemma rx_poll_eq:
  "n < 2 ^ 32 \<Longrightarrow> rx_poll bus buf len_out (of_nat n) w =
    (case first_poll (\<lambda>k. poll_flags bus w k AND IRQ_RX_DONE \<noteq> 0) n of
       None \<Rightarrow> Some (1, buf, len_out, polls bus n w)
     | Some k \<Rightarrow> rx_poll bus buf len_out 1 (polls bus k w))"
proof (induction n arbitrary: w)
  case 0
  show ?case by (subst rx_poll.simps) simp
next
  case (Suc n)
  obtain f w1 where r: "sx1276_read bus REG_IRQ_FLAGS (spi_delay_ms bus 1 w) = (f, w1)" by (cases "sx1276_read bus REG_IRQ_FLAGS (spi_delay_ms bus 1 w)")
  have f: "poll_flags bus w 0 = f" "poll_flags bus w (Suc k) = poll_flags bus w1 k" "polls bus (Suc k) w = polls bus k w1" for k
    by (simp_all add: poll_flags_def r)
  have n: "of_nat (Suc n) \<noteq> (0 :: u32)" "of_nat (Suc n) - 1 = (of_nat n :: u32)" using of_nat_u32_Suc Suc.prems by blast+
  have s: "rx_poll bus buf len_out (of_nat (Suc n)) w = rx_poll bus buf len_out (of_nat n) w1" if "f AND IRQ_RX_DONE = 0"
    by (subst rx_poll.simps) (simp only: n if_False Let_def r prod.case that simp_thms)
  have "rx_poll bus buf len_out (of_nat (Suc n)) w = rx_poll bus buf len_out 1 w" if "f AND IRQ_RX_DONE \<noteq> 0"
    by (subst (1 2) rx_poll.simps) (simp only: n if_False if_True Let_def r prod.case that simp_thms one_neq_zero)
  then show ?case using Suc.IH [of w1] Suc.prems s
    by (simp add: first_poll_Suc f del: of_nat_Suc polls.simps(2) split: option.splits)
qed

lemma for_lt_None_inv:
  assumes "j < n" and "P s" and "\<And>i s s'. i < j \<Longrightarrow> P s \<Longrightarrow> f i s = Some s' \<Longrightarrow> P s'" and "\<And>s. P s \<Longrightarrow> f j s = None"
  shows "for_lt n f s = None"
proof -
  have I: "m \<le> j \<Longrightarrow> for_lt m f s = Some s' \<Longrightarrow> P s'" for m s'
  proof (induction m arbitrary: s')
    case (Suc m)
    then obtain x where "for_lt m f s = Some x" "f m x = Some s'" by (auto simp: for_lt_Suc split: option.splits)
    then show ?case using Suc assms(3) [of m x s'] by simp
  qed (use assms(2) in simp)
  have "for_lt (Suc j) f s = None" using I [of j] assms(4) by (cases "for_lt j f s") (simp_all add: for_lt_Suc)
  moreover have "Suc j \<le> m \<Longrightarrow> for_lt (Suc j) f s = None \<Longrightarrow> for_lt m f s = None" for m
    by (induction m rule: dec_induct) (simp_all add: for_lt_Suc [of _ f])
  ultimately show ?thesis using assms(1) by (simp add: Suc_le_eq)
qed

lemma bind_total_None:
  "do { x \<leftarrow> m; Some (g x) } = None \<longleftrightarrow> m = None"
  "do { (x, y) \<leftarrow> m'; Some (h x y) } = None \<longleftrightarrow> m' = None"
  by (cases m; simp) (cases m'; auto)

lemma write_fifo_defined: "sx1276_write_fifo bus buf len w = None \<longleftrightarrow> length buf < unat len"
proof (cases "unat len \<le> length buf")
  case True
  have "\<exists>v'. for_lt (unat len) (\<lambda>i w. do { b \<leftarrow> rd buf i; Some (snd (spi_transfer bus b w)) }) v = Some v'" for v
    using for_lt_total [of "unat len" "\<lambda>i w. do { b \<leftarrow> rd buf i; Some (snd (spi_transfer bus b w)) }"
        "\<lambda>i w. snd (spi_transfer bus (buf ! i) w)" v] True by simp
  then obtain v' where "for_lt (unat len) (\<lambda>i w. do { b \<leftarrow> rd buf i; Some (snd (spi_transfer bus b w)) })
      (snd (spi_transfer bus (reg_addr REG_FIFO OR 0x80) (spi_nss_low bus w))) = Some v'" by blast
  then show ?thesis using True by (simp add: sx1276_write_fifo_def Let_def split_beta)
next
  case False
  then have "for_lt (unat len) (\<lambda>i w. do { b \<leftarrow> rd buf i; Some (snd (spi_transfer bus b w)) }) v = None" for v
    by (intro for_lt_None [of "length buf"]) simp_all
  then show ?thesis using False by (simp add: sx1276_write_fifo_def Let_def split_beta)
qed

lemma read_fifo_defined: "sx1276_read_fifo bus buf len w = None \<longleftrightarrow> length buf < unat len"
proof -
  let ?f = "\<lambda>i (buf, w). do { let (b, w) = spi_transfer bus 0 w; buf \<leftarrow> wr buf i b; Some (buf, w) }"
  have step: "?f i (b, v) = (if i < length b then Some (b[i := fst (spi_transfer bus 0 v)], snd (spi_transfer bus 0 v)) else None)" for i b v
    by (simp add: split_beta)
  have "\<exists>s. for_lt (unat len) ?f (buf, v) = Some s \<and> length (fst s) = length buf" if "unat len \<le> length buf" for v
    by (rule for_lt_inv [where P = "\<lambda>_ s. length (fst s) = length buf"]) (use that step in \<open>auto simp: split_beta\<close>)
  then have some: "\<exists>s. for_lt (unat len) ?f (buf, v) = Some s" if "unat len \<le> length buf" for v using that by blast
  have none: "for_lt (unat len) ?f (buf, v) = None" if n: "length buf < unat len" for v
    by (rule for_lt_None_inv [OF n, where P = "\<lambda>s. length (fst s) = length buf"]) (auto simp: split_beta wr_def split: if_splits)
  let ?v = "snd (spi_transfer bus (reg_addr REG_FIFO AND 0x7F) (spi_nss_low bus w))"
  have "sx1276_read_fifo bus buf len w = do { (buf, w) \<leftarrow> for_lt (unat len) ?f (buf, ?v); Some (buf, spi_nss_high bus w) }"
    by (simp add: sx1276_read_fifo_def Let_def split_beta)
  then show ?thesis using some [of ?v] none [of ?v] by (cases "unat len \<le> length buf") auto
qed

lemma send_setup_defined: "send_setup bus buf len w = None \<longleftrightarrow> length buf < unat len"
proof -
  have "send_setup bus buf len w = None \<longleftrightarrow> sx1276_write_fifo bus buf len
      (sx1276_write bus REG_FIFO_ADDR_PTR 0 (sx1276_write bus REG_OP_MODE (long_range MODE_STDBY) w)) = None"
    by (simp add: send_setup_def Let_def bind_total_None)
  then show ?thesis by (simp only: write_fifo_defined)
qed

section \<open>What sending and receiving answer\<close>

text \<open>C31: The result of a send says the opposite of what happened: it is the failure code exactly when
  the modem reports the end of the transmission at the very last of the 5000 polls; when it never
  reports it the counter has wrapped and the answer is success.\<close>

theorem lora_send_result:
  assumes "unat len \<le> length buf"
  shows "\<exists>w0 r w'. send_setup bus buf len w = Some w0 \<and> lora_send bus buf len w = Some (r, w') \<and> r \<in> {0, - 1}
    \<and> (r = - 1 \<longleftrightarrow> (\<forall>k < 4999. poll_flags bus w0 k AND IRQ_TX_DONE = 0) \<and> poll_flags bus w0 4999 AND IRQ_TX_DONE \<noteq> 0)"
proof -
  obtain w0 where w0: "send_setup bus buf len w = Some w0"
    using send_setup_defined [of bus buf len w] assms by (cases "send_setup bus buf len w") auto
  let ?f = "first_poll (\<lambda>k. poll_flags bus w0 k AND IRQ_TX_DONE \<noteq> 0) 5000"
  note p = tx_poll_eq [of 5000 bus w0, simplified]
  show ?thesis
  proof (cases ?f)
    case None
    then have "tx_poll bus 5000 w0 = (- 1, polls bus 5000 w0)" using p by simp
    moreover have "\<forall>k < 5000. poll_flags bus w0 k AND IRQ_TX_DONE = 0" using None by (simp add: first_poll_None)
    moreover have "(0 :: u32) < - 1" by (simp flip: word_neq_0_conv)
    ultimately show ?thesis using w0 by (simp add: lora_send_def)
  next
    case (Some k)
    then have p': "tx_poll bus 5000 w0 = (of_nat (5000 - Suc k), polls bus (Suc k) w0)" using p by simp
    have k: "k < 5000" "poll_flags bus w0 k AND IRQ_TX_DONE \<noteq> 0" "\<forall>j < k. poll_flags bus w0 j AND IRQ_TX_DONE = 0"
      using Some by (auto simp: first_poll_Some)
    have "unat (of_nat (5000 - Suc k) :: u32) = 5000 - Suc k" by (rule unat_of_nat_u32) simp
    then have z: "(0 :: u32) < of_nat (5000 - Suc k) \<longleftrightarrow> k < 4999"
      using k(1) by (simp only: word_less_nat_alt unat_0) linarith
    have "k = 4999 \<longleftrightarrow> (\<forall>j < 4999. poll_flags bus w0 j AND IRQ_TX_DONE = 0) \<and> poll_flags bus w0 4999 AND IRQ_TX_DONE \<noteq> 0"
    proof (cases "k = 4999")
      case False
      then have "k < 4999" using k(1) by simp
      then show ?thesis using k(2) False by blast
    qed (use k in simp)
    then show ?thesis using w0 p' z k(1) by (auto simp: lora_send_def)
  qed
qed

theorem lora_send_result_witness:
  "\<exists>w'. lora_send (stub_bus :: unit spi_bus) [1, 2, 3] 3 () = Some (0, w')"
proof -
  have "unat (3 :: u8) \<le> length [1, 2, 3 :: u8]" by simp
  from lora_send_result [OF this, of "stub_bus :: unit spi_bus" "()"]
  show ?thesis by (auto simp: poll_flags_def sx1276_read_def stub_bus_def)
qed

section \<open>The registers\<close>

text \<open>What the data sheet promises of the registers: a read gives the contents, a write of a register
  without side effects changes it alone, and time does not change the configuration.\<close>

definition volatile_regs :: "sx_reg set" where
  "volatile_regs = {REG_FIFO, REG_OP_MODE, REG_FIFO_ADDR_PTR, REG_FIFO_RX_CURRENT_ADDR, REG_IRQ_FLAGS, REG_RX_NB_BYTES}"

locale sx_registers =
  fixes bus :: "'w spi_bus" and reg :: "'w \<Rightarrow> sx_reg \<Rightarrow> u8"
  assumes read_val: "r \<noteq> REG_FIFO \<Longrightarrow> fst (sx1276_read bus r w) = reg w r"
    and read_keeps: "r \<noteq> REG_FIFO \<Longrightarrow> q \<notin> volatile_regs \<Longrightarrow> reg (snd (sx1276_read bus r w)) q = reg w q"
    and write_val: "q \<notin> volatile_regs \<Longrightarrow> reg (sx1276_write bus r v w) q = (if q = r then v else reg w q)"
    and delay_keeps: "q \<notin> volatile_regs \<Longrightarrow> reg (spi_delay_ms bus n w) q = reg w q"
begin

lemma fold_writes:
  "q \<notin> volatile_regs \<Longrightarrow> reg (fold (\<lambda>(r, v). sx1276_write bus r v) ws w) q
    = (case find (\<lambda>(r, v). r = q) (rev ws) of None \<Rightarrow> reg w q | Some (_, v) \<Rightarrow> v)"
proof (induction ws rule: rev_induct)
  case (snoc x xs)
  then show ?case by (cases x) (simp add: write_val)
qed simp

lemma init_regs:
  assumes "q \<notin> volatile_regs"
  shows "reg (lora_init bus freq sf pow w) q =
    (case find (\<lambda>(r, v). r = q) (rev (init_writes sf pow @
       [(REG_FRF_MSB, ucast (drop_bit 16 (frf_code freq))), (REG_FRF_MID, ucast (drop_bit 8 (frf_code freq))),
        (REG_FRF_LSB, ucast (frf_code freq))])) of None \<Rightarrow> reg w q | Some (_, v) \<Rightarrow> v)"
proof -
  have op: "q \<noteq> REG_OP_MODE" using assms by (auto simp: volatile_regs_def)
  have "reg (lora_init bus freq sf pow w) q = reg (fold (\<lambda>(r, v). sx1276_write bus r v) (init_writes sf pow @
       [(REG_FRF_MSB, ucast (drop_bit 16 (frf_code freq))), (REG_FRF_MID, ucast (drop_bit 8 (frf_code freq))),
        (REG_FRF_LSB, ucast (frf_code freq))])
      (spi_delay_ms bus 10 (sx1276_write bus REG_OP_MODE (long_range MODE_SLEEP) (spi_delay_ms bus 10 (spi_delay_ms bus 10 w))))) q"
    using assms op by (simp add: lora_init_def Let_def sx1276_set_frequency_def write_val)
  moreover have "reg (spi_delay_ms bus 10 (sx1276_write bus REG_OP_MODE (long_range MODE_SLEEP)
      (spi_delay_ms bus 10 (spi_delay_ms bus 10 w)))) q = reg w q"
    using assms op by (simp add: write_val delay_keeps)
  ultimately show ?thesis by (simp only: fold_writes [OF assms])
qed

lemma set_sf_regs:
  assumes "7 \<le> sf" "sf \<le> 12" "q \<notin> volatile_regs"
  shows "reg (snd (lora_set_sf bus sf w)) q
    = (if q = REG_MODEM_CONFIG_2 then (reg w REG_MODEM_CONFIG_2 AND 0x0F) OR push_bit 4 sf else reg w q)"
proof -
  have "\<not> (sf < 7 \<or> 12 < sf)" using assms(1,2) by (simp add: not_less)
  moreover have "REG_MODEM_CONFIG_2 \<noteq> REG_FIFO" by simp
  ultimately show ?thesis using read_val [of REG_MODEM_CONFIG_2 w] read_keeps [of REG_MODEM_CONFIG_2 q w] assms(3)
    by (simp add: lora_set_sf_def split_beta write_val)
qed

end

lemma reg_addr_inject [simp]: "reg_addr r = reg_addr q \<longleftrightarrow> r = q"
proof
  assume "reg_addr r = reg_addr q"
  then show "r = q" by (cases r; cases q) simp_all
qed simp

text \<open>A chip of plain registers behind the SPI protocol: the first byte after selection is the
  address, with bit 7 for a write.\<close>

record sx_chip =
  ch_regs :: "u8 \<Rightarrow> u8"
  ch_sel :: "u8 option"

definition chip_bus :: "sx_chip spi_bus" where
  "chip_bus =
     \<lparr>spi_nss_low = (\<lambda>c. c\<lparr>ch_sel := None\<rparr>), spi_nss_high = (\<lambda>c. c\<lparr>ch_sel := None\<rparr>),
      spi_transfer = (\<lambda>b c. case ch_sel c of
          None \<Rightarrow> (0, c\<lparr>ch_sel := Some b\<rparr>)
        | Some a \<Rightarrow> if a AND 0x80 \<noteq> 0 then (0, c\<lparr>ch_regs := (ch_regs c)(a AND 0x7F := b)\<rparr>)
                   else (ch_regs c (a AND 0x7F), c)),
      spi_delay_ms = (\<lambda>_ c. c)\<rparr>"

lemma reg_addr_bits [simp]:
  "reg_addr r AND 0x7F = reg_addr r" "reg_addr r AND 0x80 = 0" "(reg_addr r OR 0x80) AND 0x7F = reg_addr r"
  "(reg_addr r OR 0x80) AND 0x80 \<noteq> 0"
  by (cases r; simp)+

lemma chip_read: "sx1276_read chip_bus r c = (ch_regs c (reg_addr r), c\<lparr>ch_sel := None\<rparr>)"
  by (simp add: sx1276_read_def chip_bus_def)

lemma chip_write: "sx1276_write chip_bus r v c = c\<lparr>ch_regs := (ch_regs c)(reg_addr r := v), ch_sel := None\<rparr>"
  by (simp add: sx1276_write_def chip_bus_def)

lemma chip_delay: "spi_delay_ms chip_bus n c = c"
  by (simp add: chip_bus_def)

interpretation chip: sx_registers chip_bus "\<lambda>c r. ch_regs c (reg_addr r)"
  by unfold_locales (auto simp: chip_read chip_write chip_delay)

section \<open>The configuration\<close>

lemma unat_frf_code: "unat (frf_code freq) = unat freq * 2 ^ 19 div 32000000"
proof -
  have f: "unat (ucast freq :: u64) = unat freq"
    by (simp add: unsigned_ucast_eq take_bit_nat_eq_self_iff, rule less_trans [OF unat_u32_less]) simp
  have "unat freq < 2 ^ 45" by (rule less_trans [OF unat_u32_less]) simp
  then have "unat freq * 2 ^ 19 < 2 ^ 64" by simp
  then have "unat (push_bit 19 (ucast freq :: u64)) = unat freq * 2 ^ 19"
    using f by (simp add: push_bit_eq_mult unat_word_ariths)
  then show ?thesis by (simp only: frf_code_def unat_div) simp
qed

lemma three_bytes:
  assumes "unat (f :: u64) < 2 ^ 24"
  shows "unat (ucast (drop_bit 16 f) :: u8) * 65536 + unat (ucast (drop_bit 8 f) :: u8) * 256 + unat (ucast f :: u8) = unat f"
proof -
  have "unat (ucast (drop_bit 16 f) :: u8) = unat f div 65536 mod 256" "unat (ucast (drop_bit 8 f) :: u8) = unat f div 256 mod 256"
    "unat (ucast f :: u8) = unat f mod 256"
    by (simp_all add: unsigned_ucast_eq take_bit_eq_mod unat_drop_bit)
  moreover have "unat f div 65536 < 256" using assms by (simp add: div_less_iff_less_mult)
  then have "unat f div 65536 mod 256 = unat f div 256 div 256" by (simp add: div_mult2_eq [symmetric])
  ultimately show ?thesis
    using div_mult_mod_eq [of "unat f div 256" 256] div_mult_mod_eq [of "unat f" 256] by linarith
qed

text \<open>The modem is configured as asked: after initialisation the three frequency registers hold
  the requested frequency in units of 32 MHz / 2^19, rounded down, for every frequency below 1.024
  GHz, the modem runs at 125 kHz and 4/5 with the spreading factor and the packet checksum, and a
  later change to a valid spreading factor changes that nibble and no other register.\<close>

theorem lora_configuration:
  fixes bus reg freq sf pow w
  defines "w1 \<equiv> lora_init bus freq sf pow w"
  assumes "sx_registers bus reg" and "unat freq < 1024000000" and "7 \<le> sf'" and "sf' \<le> 12"
  shows "unat (reg w1 REG_FRF_MSB) * 65536 + unat (reg w1 REG_FRF_MID) * 256 + unat (reg w1 REG_FRF_LSB)
      = unat freq * 2 ^ 19 div 32000000
    \<and> reg w1 REG_MODEM_CONFIG_1 = 0x72 \<and> reg w1 REG_MODEM_CONFIG_2 = push_bit 4 sf OR 0x04
    \<and> fst (lora_set_sf bus sf' w1) = 0
    \<and> reg (snd (lora_set_sf bus sf' w1)) REG_MODEM_CONFIG_2 = push_bit 4 sf' OR 0x04
    \<and> (\<forall>q. q \<notin> volatile_regs \<and> q \<noteq> REG_MODEM_CONFIG_2 \<longrightarrow> reg (snd (lora_set_sf bus sf' w1)) q = reg w1 q)"
proof -
  note i = sx_registers.init_regs [OF assms(2), of _ freq sf pow w, folded w1_def]
  note s = sx_registers.set_sf_regs [OF assms(2,4,5), of _ w1]
  have frf: "reg w1 REG_FRF_MSB = ucast (drop_bit 16 (frf_code freq))" "reg w1 REG_FRF_MID = ucast (drop_bit 8 (frf_code freq))"
    "reg w1 REG_FRF_LSB = ucast (frf_code freq)"
    by (simp_all add: i volatile_regs_def)
  have cfg: "reg w1 REG_MODEM_CONFIG_1 = 0x72" "reg w1 REG_MODEM_CONFIG_2 = push_bit 4 sf OR 0x04"
    by (simp_all add: i volatile_regs_def init_writes_def Let_def)
  have "unat (frf_code freq) < 2 ^ 24" unfolding unat_frf_code using assms(3) by (simp add: div_less_iff_less_mult)
  from three_bytes [OF this] have "unat (reg w1 REG_FRF_MSB) * 65536 + unat (reg w1 REG_FRF_MID) * 256 + unat (reg w1 REG_FRF_LSB)
      = unat freq * 2 ^ 19 div 32000000" by (simp only: frf unat_frf_code)
  moreover have "(push_bit 4 sf OR 0x04) AND 0x0F = (0x04 :: u8)"
  proof -
    have "(x :: u8) AND 0x0F = take_bit 4 x" for x by (simp add: take_bit_eq_mask mask_eq_exp_minus_1)
    then show ?thesis by (simp only: take_bit_or take_bit_push_bit) simp
  qed
  then have "reg (snd (lora_set_sf bus sf' w1)) REG_MODEM_CONFIG_2 = push_bit 4 sf' OR 0x04"
    using s [of REG_MODEM_CONFIG_2] cfg(2) by (simp add: volatile_regs_def or.commute)
  moreover have "fst (lora_set_sf bus sf' w1) = 0"
    using assms(4,5) by (simp add: lora_set_sf_def not_less split_beta)
  ultimately show ?thesis using cfg s by auto
qed

text \<open>Receiving trusts the length the modem reports: it writes outside the buffer exactly when the
  first poll that sees a packet sees no checksum error and the packet is longer than the buffer.\<close>

theorem lora_recv_undefined_iff:
  "lora_recv bus buf len_out timeout w = None \<longleftrightarrow>
    (\<exists>k < unat timeout. (\<forall>j < k. poll_flags bus (recv_setup bus w) j AND IRQ_RX_DONE = 0)
       \<and> poll_flags bus (recv_setup bus w) k AND IRQ_RX_DONE \<noteq> 0 \<and> poll_flags bus (recv_setup bus w) k AND IRQ_PAYLOAD_CRC_ERROR = 0
       \<and> length buf < unat (fst (sx1276_read bus REG_RX_NB_BYTES (polls bus (Suc k) (recv_setup bus w)))))"
proof -
  let ?w = "recv_setup bus w"
  let ?P = "\<lambda>k. poll_flags bus ?w k AND IRQ_RX_DONE \<noteq> 0"
  have one: "rx_poll bus buf len_out 1 (polls bus k ?w) = None \<longleftrightarrow> poll_flags bus ?w k AND IRQ_PAYLOAD_CRC_ERROR = 0
      \<and> length buf < unat (fst (sx1276_read bus REG_RX_NB_BYTES (polls bus (Suc k) ?w)))" if "?P k" for k
  proof -
    obtain f v where r: "sx1276_read bus REG_IRQ_FLAGS (spi_delay_ms bus 1 (polls bus k ?w)) = (f, v)" by fastforce
    have v: "polls bus (Suc k) u = snd (sx1276_read bus REG_IRQ_FLAGS (spi_delay_ms bus 1 (polls bus k u)))" for u
      by (induction k arbitrary: u) simp_all
    have f: "poll_flags bus ?w k = f" "polls bus (Suc k) ?w = v" by (simp_all only: poll_flags_def v r fst_conv snd_conv)
    show ?thesis using that unfolding f
      by (subst rx_poll.simps) (simp add: r Let_def split_beta read_fifo_defined bind_total_None)
  qed
  note p = rx_poll_eq [of "unat timeout" bus buf len_out ?w, simplified]
  show ?thesis
  proof (cases "first_poll ?P (unat timeout)")
    case None
    then have "rx_poll bus buf len_out timeout ?w \<noteq> None" using p by simp
    moreover have "\<forall>k < unat timeout. \<not> ?P k" using None by (simp add: first_poll_None)
    ultimately show ?thesis unfolding lora_recv_def by blast
  next
    case (Some k)
    then have k: "k < unat timeout" "?P k" "\<forall>j < k. \<not> ?P j" by (auto simp: first_poll_Some)
    have uniq: "m = k" if "\<forall>j < m. \<not> ?P j" "?P m" for m using that k by (metis linorder_neqE_nat)
    have "lora_recv bus buf len_out timeout w = None \<longleftrightarrow> rx_poll bus buf len_out 1 (polls bus k ?w) = None"
      using p Some by (simp add: lora_recv_def)
    then show ?thesis unfolding one [OF k(2)] using k uniq by blast
  qed
qed

end
