(* ===== verification/Stm32_Board.thy ===== *)
theory Stm32_Board
  imports Sx1276 Network_Start Demo
begin

text \<open>
  The STM32 port: flash storage, real-time clock and power (\<^verbatim>\<open>hal_nvs.c\<close>, \<^verbatim>\<open>hal_rtc.c\<close>,
  \<^verbatim>\<open>hal_power.c\<close> of \<^verbatim>\<open>shard/hal/stm32\<close>), the second, unfinished port \<^verbatim>\<open>hal_stm32.c\<close>, and the
  firmware \<^verbatim>\<open>examples/shard_stm32f4/main.c\<close> over the modem driver. \<^verbatim>\<open>size_t\<close> has 32 bits on this
  target; \<open>flash\<close> is the contents of the flash sector behind \<^verbatim>\<open>NVS_BASE_ADDR\<close>, the last one of the
  chip, so that a read beyond it is a read of no memory.
\<close>

section \<open>Storage, clock and power\<close>

abbreviation NVS_MAX_SIZE :: nat where "NVS_MAX_SIZE \<equiv> 131072"

definition nvs_write :: "u32 \<Rightarrow> bytes \<Rightarrow> nat \<Rightarrow> 'w \<Rightarrow> (int \<times> 'w) option" where
  "nvs_write offset data len w = (if of_nat NVS_MAX_SIZE < offset + of_nat len then Some (- 1, w) else Some (0, w))"

definition nvs_read :: "bytes \<Rightarrow> u32 \<Rightarrow> bytes \<Rightarrow> nat \<Rightarrow> 'w \<Rightarrow> (int \<times> bytes \<times> 'w) option" where
  "nvs_read flash offset data len w =
     (if of_nat NVS_MAX_SIZE < offset + of_nat len then Some (- 1, data, w)
      else do {
        bs \<leftarrow> rd_slice flash (unat offset) len;
        data \<leftarrow> memcpy_at data 0 bs;
        Some (0, data, w) })"

definition rtc_init :: "'w \<Rightarrow> 'w" where "rtc_init w = w"
definition rtc_deep_sleep :: "u32 \<Rightarrow> 'w \<Rightarrow> 'w" where "rtc_deep_sleep seconds w = w"
definition rtc_get_tick_ms :: "'w \<Rightarrow> u32 \<times> 'w" where "rtc_get_tick_ms w = (0, w)"
definition rtc_sleep_ms :: "u32 \<Rightarrow> 'w \<Rightarrow> 'w" where "rtc_sleep_ms ms w = w"
definition power_init :: "'w \<Rightarrow> 'w" where "power_init w = w"
definition power_enter_stop :: "'w \<Rightarrow> 'w" where "power_enter_stop w = w"

lemma unat_offset_len:
  assumes "len < 2 ^ 32"
  shows "unat (offset + of_nat len :: u32) = (if unat offset + len < 2 ^ 32 then unat offset + len else unat offset + len - 2 ^ 32)"
proof -
  have "unat (offset + of_nat len :: u32) = (unat offset + len) mod 2 ^ 32"
    using assms by (simp add: unat_word_ariths unat_of_nat_u32)
  moreover have "unat offset < 4294967296" "len < 4294967296" using assms by simp_all
  then have "unat offset + len < 8589934592" by linarith
  ultimately show ?thesis by (auto simp: mod_if)
qed

text \<open>The bound of the flash storage can be passed by wrapping: with a buffer that is long enough, a
  read leaves the sector exactly when offset and length together reach the 32-bit range and the
  wrapped sum is at most the size of the sector; every other request answers -1 and leaves the
  buffer alone when it exceeds the sector, and the bytes asked for when it does not.\<close>

theorem nvs_read_result:
  assumes "length flash = NVS_MAX_SIZE" and "len \<le> length data" and "len < 2 ^ 32"
  shows "nvs_read flash offset data len w =
    (if unat offset + len \<le> NVS_MAX_SIZE then Some (0, take len (drop (unat offset) flash) @ drop len data, w)
     else if 2 ^ 32 \<le> unat offset + len \<and> unat offset + len \<le> 2 ^ 32 + NVS_MAX_SIZE then None
     else Some (- 1, data, w))"
proof -
  have m: "unat (of_nat NVS_MAX_SIZE :: u32) = NVS_MAX_SIZE" by (rule unat_of_nat_u32) simp
  have g: "of_nat NVS_MAX_SIZE < offset + of_nat len \<longleftrightarrow>
      NVS_MAX_SIZE < (if unat offset + len < 2 ^ 32 then unat offset + len else unat offset + len - 2 ^ 32)"
    by (simp only: word_less_nat_alt m unat_offset_len [OF assms(3)])
  have "length (take len (drop (unat offset) flash)) = len" if "unat offset + len \<le> NVS_MAX_SIZE"
    using that assms(1) by simp
  then show ?thesis unfolding nvs_read_def g using assms(1,2)
    by (auto simp: rd_slice_def memcpy_at_def)
qed

section \<open>The second port\<close>

text \<open>\<^verbatim>\<open>hal_stm32.c\<close> is not in the build. Its radio functions are stubs that only keep the duty
  cycle; \<^verbatim>\<open>HAL_GetTick\<close> and \<^verbatim>\<open>HAL_Delay\<close> are the vendor's. The sector it uses has 8 kB.\<close>

record 'w cube_hal =
  cb_get_tick :: "'w \<Rightarrow> u32 \<times> 'w"
  cb_delay :: "u32 \<Rightarrow> 'w \<Rightarrow> 'w"

record duty_state =
  s_last_tx_time_ms :: u32
  s_duty_cycle_gap_ms :: u32

definition duty_start :: duty_state where
  "duty_start = \<lparr>s_last_tx_time_ms = 0, s_duty_cycle_gap_ms = 10000\<rparr>"

definition stm32_lora_send :: "'w cube_hal \<Rightarrow> bytes \<Rightarrow> u8 \<Rightarrow> duty_state \<times> 'w \<Rightarrow> int \<times> duty_state \<times> 'w" where
  "stm32_lora_send cb buf len = (\<lambda>(d, w).
     let (now, w) = cb_get_tick cb w;
         since_last = now - s_last_tx_time_ms d;
         w = (if since_last < s_duty_cycle_gap_ms d then cb_delay cb (s_duty_cycle_gap_ms d - since_last) w else w);
         (now, w) = cb_get_tick cb w
     in (0, d\<lparr>s_last_tx_time_ms := now\<rparr>, w))"

definition stm32_lora_recv :: "'w cube_hal \<Rightarrow> bytes \<Rightarrow> u8 \<Rightarrow> u32 \<Rightarrow> 'w \<Rightarrow> int \<times> bytes \<times> u8 \<times> 'w" where
  "stm32_lora_recv cb buf len timeout_ms w =
     (1, buf, len, cb_delay cb (if 1000 < timeout_ms then 1000 else timeout_ms) w)"

definition stm32_sleep_ms :: "'w cube_hal \<Rightarrow> u32 \<Rightarrow> 'w \<Rightarrow> 'w" where
  "stm32_sleep_ms cb ms w = cb_delay cb ms w"

definition stm32_deep_sleep_until_rtc :: "'w cube_hal \<Rightarrow> u32 \<Rightarrow> 'w \<Rightarrow> 'w" where
  "stm32_deep_sleep_until_rtc cb seconds w = cb_delay cb 1000 w"

definition stm32_get_tick_ms :: "'w cube_hal \<Rightarrow> 'w \<Rightarrow> u32 \<times> 'w" where
  "stm32_get_tick_ms cb w = cb_get_tick cb w"

definition stm32_nvs_write :: "u32 \<Rightarrow> bytes \<Rightarrow> nat \<Rightarrow> int" where
  "stm32_nvs_write offset data len = (if 8192 < offset + of_nat len then - 1 else 0)"

definition stm32_nvs_read :: "bytes \<Rightarrow> u32 \<Rightarrow> bytes \<Rightarrow> nat \<Rightarrow> (int \<times> bytes) option" where
  "stm32_nvs_read flash offset data len =
     (if 8192 < offset + of_nat len then Some (- 1, data)
      else do {
        bs \<leftarrow> rd_slice flash (unat offset) len;
        data \<leftarrow> memcpy_at data 0 bs;
        Some (0, data) })"

definition fl_hal_stm32_set_duty_gap_ms :: "u32 \<Rightarrow> duty_state \<Rightarrow> duty_state" where
  "fl_hal_stm32_set_duty_gap_ms gap_ms d = d\<lparr>s_duty_cycle_gap_ms := gap_ms\<rparr>"

text \<open>Of the vendor's clock the duty cycle needs: it counts milliseconds modulo 2^32, and a delay lasts
  at least as long as it was asked to.\<close>

locale ms_clock =
  fixes cb :: "'w cube_hal" and ms :: "'w \<Rightarrow> int"
  assumes tick: "cb_get_tick cb w = (of_int (ms w), w)"
    and delay: "ms w + uint n \<le> ms (cb_delay cb n w)"
begin

lemma send_gap:
  assumes "s_last_tx_time_ms d = of_int t" "t \<le> ms w" "stm32_lora_send cb buf len (d, w) = (r, d', w')"
  shows "t + uint (s_duty_cycle_gap_ms d) \<le> ms w'" "s_last_tx_time_ms d' = of_int (ms w')"
    "s_duty_cycle_gap_ms d' = s_duty_cycle_gap_ms d"
proof -
  let ?g = "s_duty_cycle_gap_ms d" and ?s = "of_int (ms w) - of_int t :: u32"
  have s: "uint ?s = (ms w - t) mod 2 ^ 32" by (simp add: uint_word_of_int flip: of_int_diff)
  have le: "uint ?s \<le> ms w - t" unfolding s using assms(2) by (intro zmod_le_nonneg_dividend) simp
  have "t + uint ?g \<le> ms (if ?s < ?g then cb_delay cb (?g - ?s) w else w)"
  proof (cases "?s < ?g")
    case True
    then have "uint (?g - ?s) = uint ?g - uint ?s" by (intro iffD1 [OF uint_minus_simple_alt]) simp
    then show ?thesis using True delay [of w "?g - ?s"] le by simp
  next
    case False
    then show ?thesis using le by (simp add: word_less_def)
  qed
  then show "t + uint ?g \<le> ms w'" "s_last_tx_time_ms d' = of_int (ms w')" "s_duty_cycle_gap_ms d' = ?g"
    using assms(1,3) by (auto simp: stm32_lora_send_def Let_def tick split: if_splits)
qed

end

definition int_clock :: "int cube_hal" where
  "int_clock = \<lparr>cb_get_tick = (\<lambda>w. (of_int w, w)), cb_delay = (\<lambda>n w. w + uint n)\<rparr>"

interpretation int_clock: ms_clock int_clock "\<lambda>w. w"
  by unfold_locales (simp_all add: int_clock_def)

text \<open>C40: The duty cycle is kept: over any clock that counts milliseconds modulo 2^32 and delays long
  enough, between the ends of two sends of \<^verbatim>\<open>hal_stm32.c\<close> at least the configured gap passes, also
  where the counter wraps in between.\<close>

theorem duty_cycle_kept:
  assumes "ms_clock cb ms" and "stm32_lora_send cb buf len (d, w) = (r, d1, w1)" and "ms w1 \<le> ms w2"
    and "stm32_lora_send cb buf' len' (d1, w2) = (r', d2, w3)" and "s_last_tx_time_ms d = of_int t" and "t \<le> ms w"
  shows "ms w1 + uint (s_duty_cycle_gap_ms d) \<le> ms w3"
proof -
  note 1 = ms_clock.send_gap [OF assms(1,5,6,2)]
  from ms_clock.send_gap(1) [OF assms(1) 1(2) assms(3,4)] show ?thesis by (simp only: 1(3))
qed

theorem duty_cycle_kept_witness:
  "\<exists>r d w r' d' w'. stm32_lora_send int_clock [] 0 (duty_start, 4294967290) = (r, d, w)
    \<and> stm32_lora_send int_clock [] 0 (d, w) = (r', d', w') \<and> w + 10000 \<le> w'"
proof -
  obtain r d w where 1: "stm32_lora_send int_clock [] 0 (duty_start, 4294967290) = (r, d, w)"
    by (cases "stm32_lora_send int_clock [] 0 (duty_start, 4294967290)") auto
  obtain r' d' w' where 2: "stm32_lora_send int_clock [] 0 (d, w) = (r', d', w')"
    by (cases "stm32_lora_send int_clock [] 0 (d, w)") auto
  have "w + uint (s_duty_cycle_gap_ms duty_start) \<le> w'"
    by (rule duty_cycle_kept [OF int_clock.ms_clock_axioms 1 order_refl 2, of 0]) (simp_all add: duty_start_def)
  then show ?thesis using 1 2 by (auto simp: duty_start_def)
qed

section \<open>The firmware\<close>

definition stm32_hal :: "'w spi_bus \<Rightarrow> bytes \<Rightarrow> 'w FLHal" where
  "stm32_hal bus flash =
     \<lparr>hal_lora_send = lora_send bus, hal_lora_recv = lora_recv bus, hal_lora_set_sf = None,
      hal_sleep_ms = rtc_sleep_ms, hal_deep_sleep_rtc = Some rtc_deep_sleep, hal_get_tick_ms = rtc_get_tick_ms,
      hal_nvs_write = Some nvs_write, hal_nvs_read = Some (nvs_read flash), hal_log = None\<rparr>"

text \<open>Start-up; \<open>junk\<close> is the buffer of \<^verbatim>\<open>fl_shard_init\<close> before the flash is read.\<close>

definition firmware_boot :: "libm \<Rightarrow> 'w spi_bus \<Rightarrow> bytes \<Rightarrow> bytes \<Rightarrow> 'w \<Rightarrow> 'w sys option" where
  "firmware_boot lm bus flash junk w =
     (let w = lora_init bus 868000000 7 17 (power_init (rtc_init w));
          hal = stm32_hal bus flash
      in do {
        (_, m) \<leftarrow> fl_model_init (Some zero_model) stm32_layers 2;
        m \<leftarrow> m;
        m \<leftarrow> fl_model_init_random lm m 1;
        (_, s, w) \<leftarrow> fl_shard_init junk (Some (zero_shard hal 0 zero_model)) (Some hal) 1 (Some m) w;
        s \<leftarrow> s;
        Some \<lparr>sy_shard = s, sy_train = fresh_training, sy_env = w\<rparr> })"

text \<open>The passes of its endless loop.\<close>

fun firmware_passes :: "libm \<Rightarrow> 'w data_cb \<Rightarrow> locals \<Rightarrow> nat \<Rightarrow> 'w sys \<Rightarrow> 'w sys option" where
  "firmware_passes lm cb junk 0 y = Some y"
| "firmware_passes lm cb junk (Suc n) y =
     do { (_, y) \<leftarrow> fl_shard_tick lm cb junk y; firmware_passes lm cb junk n (fl_shard_sleep y) }"

lemma nvs_read_start:
  assumes "length flash = NVS_MAX_SIZE" "len \<le> NVS_MAX_SIZE" "len \<le> length data"
  shows "nvs_read flash 0 data len w = Some (0, take len flash @ drop len data, w)"
proof -
  have "unat (0 :: u32) + len \<le> NVS_MAX_SIZE" "len < 2 ^ 32" using assms(2) by simp_all
  then have "\<not> of_nat NVS_MAX_SIZE < (0 :: u32) + of_nat len"
    using unat_offset_len [of len 0] by (simp add: word_less_nat_alt unat_of_nat_u32)
  then show ?thesis using assms by (simp add: nvs_read_def rd_slice_def memcpy_at_def)
qed

lemma length_floats_of_bytes: "length (floats_of_bytes bs) = length bs div 4"
  by (induction bs rule: floats_of_bytes.induct) simp_all

lemma firmware_boot_eq:
  assumes "length flash = NVS_MAX_SIZE" "length junk = 4 * FL_MODEL_MAX_PARAMS"
  shows "\<exists>m. firmware_boot lm bus flash junk w = Some \<lparr>sy_shard = zero_shard (stm32_hal bus flash) 1
      (m\<lparr>md_params := floats_of_bytes (take 712 flash) @ drop 178 (md_params m)\<rparr>), sy_train = fresh_training,
      sy_env = lora_init bus 868000000 7 17 w\<rparr>
    \<and> net_fits m \<and> md_total_params m = 178"
proof -
  obtain m0 m where m: "fl_model_init (Some zero_model) stm32_layers 2 = Some (FL_OK, Some m0)"
    "fl_model_init_random lm m0 1 = Some m" "net_fits m" "md_total_params m = 178"
    using example_net_random [of 8 16 lm 1] by (auto simp: stm32_layers_def)
  have len: "length (floats_of_bytes (take 712 flash)) = 178"
    using assms(1) by (simp add: length_floats_of_bytes)
  have "nvs_read flash 0 junk 712 v = Some (0, take 712 flash @ drop 712 junk, v)" for v :: 'a
    by (rule nvs_read_start) (use assms in simp_all)
  then show ?thesis using m len assms
    by (intro exI [of _ m]) (auto simp: firmware_boot_def Let_def fl_shard_init_def stm32_hal_def fl_model_load_def
        net_fits_def shard_log_def hal_print_def zero_shard_def rtc_init_def power_init_def)
qed

lemma floats_erased: "floats_of_bytes (replicate (4 * n) 0xFF) = replicate n (F32 0xFFFFFFFF)"
proof (induction n)
  case (Suc n)
  have "replicate (4 * Suc n) (0xFF :: u8) = 0xFF # 0xFF # 0xFF # 0xFF # replicate (4 * n) 0xFF"
    by (simp add: numeral_eq_Suc)
  moreover have "of_le32 0xFF 0xFF 0xFF 0xFF = 0xFFFFFFFF" by (simp add: of_le32_def)
  ultimately show ?case using Suc by (simp only: floats_of_bytes.simps replicate_Suc)
qed simp

text \<open>C29: On a new chip the model is not a number: reading the flash always succeeds, so the start of the
  firmware replaces the random weights by whatever the flash holds, and from erased flash every one
  of the 178 parameters is a NaN.\<close>

theorem firmware_boots_with_nan:
  assumes "flash = replicate NVS_MAX_SIZE 0xFF" and "length junk = 4 * FL_MODEL_MAX_PARAMS"
  shows "\<exists>y. firmware_boot lm bus flash junk w = Some y \<and> sys_state y = FL_SHARD_STATE_IDLE
    \<and> md_total_params (sh_model (sy_shard y)) = 178
    \<and> (\<forall>i < 178. f_nan (md_params (sh_model (sy_shard y)) ! i))"
proof -
  have "length flash = NVS_MAX_SIZE" by (simp add: assms(1))
  from firmware_boot_eq [OF this assms(2), of lm bus w] obtain m where
    m: "firmware_boot lm bus flash junk w = Some \<lparr>sy_shard = zero_shard (stm32_hal bus flash) 1
      (m\<lparr>md_params := floats_of_bytes (take 712 flash) @ drop 178 (md_params m)\<rparr>), sy_train = fresh_training,
      sy_env = lora_init bus 868000000 7 17 w\<rparr>"
    "md_total_params m = 178" by blast
  have "take 712 flash = replicate (4 * 178) 0xFF" by (simp add: assms(1))
  then have "floats_of_bytes (take 712 flash) = replicate 178 (F32 0xFFFFFFFF)" by (simp only: floats_erased)
  moreover have "f_nan (F32 0xFFFFFFFF)" by (simp add: f_nan_def inf_code_def f_code_def)
  ultimately show ?thesis using m by (simp add: zero_shard_def nth_append)
qed

theorem firmware_boots_with_nan_witness:
  "\<forall>lm. \<exists>y. firmware_boot lm (stub_bus :: unit spi_bus) (replicate NVS_MAX_SIZE 0xFF) (replicate (4 * FL_MODEL_MAX_PARAMS) 0) () = Some y
    \<and> f_nan (md_params (sh_model (sy_shard y)) ! 0)"
proof
  fix lm
  have "length (replicate (4 * FL_MODEL_MAX_PARAMS) (0 :: u8)) = 4 * FL_MODEL_MAX_PARAMS" by simp
  from firmware_boots_with_nan [OF refl this, of lm "stub_bus :: unit spi_bus" "()"]
  show "\<exists>y. firmware_boot lm (stub_bus :: unit spi_bus) (replicate NVS_MAX_SIZE 0xFF) (replicate (4 * FL_MODEL_MAX_PARAMS) 0) () = Some y
    \<and> f_nan (md_params (sh_model (sy_shard y)) ! 0)" by auto
qed

section \<open>Listening with the modem\<close>

text \<open>What is asked of the modem: it never reports a packet longer than a frame. \<open>ok\<close> is kept by
  every access to it.\<close>

locale stm32_modem =
  fixes bus :: "'w spi_bus" and ok :: "'w \<Rightarrow> bool"
  assumes nss_ok: "ok w \<Longrightarrow> ok (spi_nss_low bus w)" "ok w \<Longrightarrow> ok (spi_nss_high bus w)"
    and transfer_ok: "ok w \<Longrightarrow> ok (snd (spi_transfer bus b w))"
    and delay_ok: "ok w \<Longrightarrow> ok (spi_delay_ms bus n w)"
    and packet_fits: "ok w \<Longrightarrow> unat (fst (sx1276_read bus REG_RX_NB_BYTES w)) \<le> FL_FRAME_MAX_SIZE"
begin

lemma read_ok: "ok w \<Longrightarrow> ok (snd (sx1276_read bus r w))"
  by (simp add: sx1276_read_def Let_def split_beta nss_ok transfer_ok)

lemma write_ok: "ok w \<Longrightarrow> ok (sx1276_write bus r v w)"
  by (simp add: sx1276_write_def Let_def split_beta nss_ok transfer_ok)

lemma write_fifo_ok:
  assumes "ok w" "unat len \<le> length buf"
  shows "\<exists>w'. sx1276_write_fifo bus buf len w = Some w' \<and> ok w'"
proof -
  have "\<exists>v. for_lt (unat len) (\<lambda>i w. do { b \<leftarrow> rd buf i; Some (snd (spi_transfer bus b w)) })
      (snd (spi_transfer bus (reg_addr REG_FIFO OR 0x80) (spi_nss_low bus w))) = Some v \<and> ok v"
    by (rule for_lt_keeps) (use assms in \<open>simp_all add: nss_ok transfer_ok\<close>)
  then show ?thesis by (auto simp: sx1276_write_fifo_def Let_def split_beta nss_ok)
qed

lemma read_fifo_ok:
  assumes "ok w" "unat len \<le> length buf"
  shows "\<exists>buf' w'. sx1276_read_fifo bus buf len w = Some (buf', w') \<and> length buf' = length buf \<and> ok w'"
proof -
  have "\<exists>s. for_lt (unat len) (\<lambda>i (buf, w). do {
          let (b, w) = spi_transfer bus 0 w;
          buf \<leftarrow> wr buf i b;
          Some (buf, w) }) (buf, snd (spi_transfer bus (reg_addr REG_FIFO AND 0x7F) (spi_nss_low bus w))) = Some s
      \<and> length (fst s) = length buf \<and> ok (snd s)"
    by (rule for_lt_keeps) (use assms in \<open>auto simp: nss_ok transfer_ok split_beta\<close>)
  then show ?thesis by (auto simp: sx1276_read_fifo_def Let_def split_beta nss_ok)
qed

lemma polls_ok: "ok w \<Longrightarrow> ok (polls bus k w)"
  by (induction k arbitrary: w) (simp_all add: read_ok delay_ok)

lemma tx_poll_ok: "ok w \<Longrightarrow> ok (snd (tx_poll bus t w))"
  using tx_poll_eq [of "unat t" bus w] polls_ok [of w] by (simp split: option.splits del: polls.simps)

lemma lora_send_ok:
  assumes "ok w" "unat len \<le> length buf"
  shows "\<exists>r w'. lora_send bus buf len w = Some (r, w') \<and> ok w'"
proof -
  let ?w = "sx1276_write bus REG_FIFO_ADDR_PTR 0 (sx1276_write bus REG_OP_MODE (long_range MODE_STDBY) w)"
  obtain v where v: "sx1276_write_fifo bus buf len ?w = Some v" "ok v"
    using write_fifo_ok [of ?w len buf] assms by (auto simp: write_ok)
  let ?v = "sx1276_write bus REG_OP_MODE (long_range MODE_TX) (sx1276_write bus REG_DIO_MAPPING_1 0x40
      (sx1276_write bus REG_PAYLOAD_LENGTH len v))"
  have "ok ?v" using v(2) by (simp add: write_ok)
  then have "ok (sx1276_write bus REG_IRQ_FLAGS IRQ_TX_DONE (snd (tx_poll bus 5000 ?v)))" by (simp add: write_ok tx_poll_ok)
  then show ?thesis using v(1) by (simp add: lora_send_def send_setup_def Let_def split_beta)
qed

lemma rx_once_ok:
  assumes "ok w" "length buf = FL_FRAME_MAX_SIZE" "unat len \<le> FL_FRAME_MAX_SIZE"
    and "poll_flags bus w 0 AND IRQ_RX_DONE \<noteq> 0"
  shows "\<exists>r buf' len' w'. rx_poll bus buf len 1 w = Some (r, buf', len', w') \<and> length buf' = FL_FRAME_MAX_SIZE
    \<and> unat len' \<le> FL_FRAME_MAX_SIZE \<and> ok w'"
proof -
  obtain f v where r: "sx1276_read bus REG_IRQ_FLAGS (spi_delay_ms bus 1 w) = (f, v)" by fastforce
  have v: "ok v" using read_ok [OF delay_ok [OF assms(1)], of REG_IRQ_FLAGS 1] r by simp
  have f: "f AND IRQ_RX_DONE \<noteq> 0" using assms(4) by (simp add: poll_flags_def r)
  show ?thesis
  proof (cases "f AND IRQ_PAYLOAD_CRC_ERROR = 0")
    case False
    then show ?thesis using assms(2,3) v f by (subst rx_poll.simps) (simp add: r Let_def write_ok)
  next
    case True
    obtain n w1 where n: "sx1276_read bus REG_RX_NB_BYTES v = (n, w1)" by fastforce
    obtain c w2 where c: "sx1276_read bus REG_FIFO_RX_CURRENT_ADDR w1 = (c, w2)" by fastforce
    have n224: "unat n \<le> 224" "ok w2"
      using packet_fits [OF v] read_ok [OF v, of REG_RX_NB_BYTES] read_ok [of w1 REG_FIFO_RX_CURRENT_ADDR] n c by simp_all
    obtain b w3 where "sx1276_read_fifo bus buf n (sx1276_write bus REG_FIFO_ADDR_PTR c w2) = Some (b, w3)" "length b = 224" "ok w3"
      using read_fifo_ok [of "sx1276_write bus REG_FIFO_ADDR_PTR c w2" n buf] n224 assms(2) by (auto simp: write_ok)
    then show ?thesis using True f n224 by (subst rx_poll.simps) (simp add: r n c Let_def write_ok)
  qed
qed

lemma lora_recv_ok:
  assumes "ok w" "length buf = FL_FRAME_MAX_SIZE" "unat len \<le> FL_FRAME_MAX_SIZE"
  shows "\<exists>r buf' len' w'. lora_recv bus buf len t w = Some (r, buf', len', w') \<and> length buf' = FL_FRAME_MAX_SIZE
    \<and> unat len' \<le> FL_FRAME_MAX_SIZE \<and> ok w'"
proof -
  let ?w = "recv_setup bus w"
  have w: "ok ?w" using assms(1) by (simp add: recv_setup_def Let_def split_beta write_ok read_ok)
  note p = rx_poll_eq [of "unat t" bus buf len ?w, simplified]
  show ?thesis
  proof (cases "first_poll (\<lambda>k. poll_flags bus ?w k AND IRQ_RX_DONE \<noteq> 0) (unat t)")
    case None
    then show ?thesis using p assms(2,3) polls_ok [OF w] by (simp add: lora_recv_def del: polls.simps)
  next
    case (Some k)
    then have "poll_flags bus (polls bus k ?w) 0 AND IRQ_RX_DONE \<noteq> 0"
      by (auto simp: first_poll_Some poll_flags_def)
    from rx_once_ok [OF polls_ok [OF w] assms(2,3) this] show ?thesis using p Some by (simp add: lora_recv_def)
  qed
qed

lemma lora_init_ok: "ok w \<Longrightarrow> ok (lora_init bus freq sf pow w)"
  by (simp add: lora_init_def init_writes_def sx1276_set_frequency_def Let_def write_ok delay_ok)

end

sublocale stm32_modem \<subseteq> board: hal_contract "stm32_hal bus flash" ok for flash
proof unfold_locales
  fix e and n :: u8 and b :: bytes
  show "\<lbrakk>ok e; unat n \<le> length b\<rbrakk> \<Longrightarrow> \<exists>r e'. hal_lora_send (stm32_hal bus flash) b n e = Some (r, e') \<and> ok e'"
    using lora_send_ok by (simp add: stm32_hal_def)
qed (use lora_recv_ok in \<open>auto simp: stm32_hal_def nvs_write_def\<close>)

interpretation stub: stm32_modem stub_bus "\<lambda>_. True"
  by unfold_locales (simp_all add: stub_bus_def sx1276_read_def)

lemma wf_boot_shard:
  assumes "net_fits m" "length ps = 178"
  shows "wf_shard (zero_shard hal 1 (m\<lparr>md_params := ps @ drop 178 (md_params m)\<rparr>))"
  using assms by (simp add: wf_shard_def zero_shard_def net_fits_def zero_sparse_def wf_sparse_def wf_crypto_def)

lemma sleep_shard [simp]: "sy_shard (fl_shard_sleep y) = sy_shard y"
  by (simp add: fl_shard_sleep_def Let_def split: option.split)

context stm32_modem
begin

lemma first_pass_good:
  assumes "wf_shard s" "sh_hal s = stm32_hal bus flash" "sh_state s = FL_SHARD_STATE_IDLE" "ok w" "wf_locals locs"
  shows "\<exists>y'. firmware_passes lm cb locs 1 \<lparr>sy_shard = s, sy_train = ts, sy_env = w\<rparr> = Some y' \<and> wf_shard (sy_shard y')"
proof -
  have "board.good flash \<lparr>sy_shard = s, sy_train = ts, sy_env = w\<rparr>" using assms by (simp add: board.good_def)
  from board.listen_tick_good [OF this assms(5), of lm cb] assms(3) show ?thesis by (auto simp: board.good_def)
qed

end

text \<open>C28: The firmware starts and listens safely: with flash of its size and a modem that never reports a
  packet longer than a frame, start-up is defined and ends with a well-formed idle shard, and the
  first pass of the loop is defined and leaves the shard well formed, whatever the modem receives.\<close>

theorem firmware_starts_safely:
  assumes "stm32_modem bus ok" and "ok w" and "length flash = NVS_MAX_SIZE" and "length junk = 4 * FL_MODEL_MAX_PARAMS"
    and "wf_locals locs"
  shows "\<exists>y y'. firmware_boot lm bus flash junk w = Some y \<and> wf_shard (sy_shard y) \<and> sys_state y = FL_SHARD_STATE_IDLE
    \<and> firmware_passes lm cb locs 1 y = Some y' \<and> wf_shard (sy_shard y')"
proof -
  obtain m where m: "firmware_boot lm bus flash junk w = Some \<lparr>sy_shard = zero_shard (stm32_hal bus flash) 1
      (m\<lparr>md_params := floats_of_bytes (take 712 flash) @ drop 178 (md_params m)\<rparr>), sy_train = fresh_training,
      sy_env = lora_init bus 868000000 7 17 w\<rparr>" "net_fits m"
    using firmware_boot_eq [OF assms(3,4), of lm bus w] by blast
  let ?s = "zero_shard (stm32_hal bus flash) 1 (m\<lparr>md_params := floats_of_bytes (take 712 flash) @ drop 178 (md_params m)\<rparr>)"
  have wf: "wf_shard ?s" by (rule wf_boot_shard [OF m(2)]) (use assms(3) in \<open>simp add: length_floats_of_bytes\<close>)
  have z: "sh_hal ?s = stm32_hal bus flash" "sh_state ?s = FL_SHARD_STATE_IDLE" by (simp_all add: zero_shard_def)
  have "ok (lora_init bus 868000000 7 17 w)" by (rule stm32_modem.lora_init_ok [OF assms(1,2)])
  from stm32_modem.first_pass_good [OF assms(1) wf z this assms(5)]
  show ?thesis using m(1) wf z(2) by fastforce
qed

theorem firmware_starts_safely_witness:
  "\<forall>lm (cb :: unit data_cb). \<exists>y y'.
    firmware_boot lm stub_bus (replicate NVS_MAX_SIZE 0) (replicate (4 * FL_MODEL_MAX_PARAMS) 0) () = Some y
    \<and> firmware_passes lm cb idle_locals 1 y = Some y' \<and> wf_shard (sy_shard y')"
proof (intro allI)
  fix lm and cb :: "unit data_cb"
  have l: "length (replicate NVS_MAX_SIZE (0 :: u8)) = NVS_MAX_SIZE" "length (replicate (4 * FL_MODEL_MAX_PARAMS) (0 :: u8)) = 4 * FL_MODEL_MAX_PARAMS"
    by simp_all
  have "wf_locals idle_locals" by (simp add: idle_locals_def wf_locals_def wf_frame_def)
  from firmware_starts_safely [OF stub.stm32_modem_axioms TrueI l this, of lm "()" cb]
  show "\<exists>y y'. firmware_boot lm stub_bus (replicate NVS_MAX_SIZE 0) (replicate (4 * FL_MODEL_MAX_PARAMS) 0) () = Some y
    \<and> firmware_passes lm cb idle_locals 1 y = Some y' \<and> wf_shard (sy_shard y')" by blast
qed

end
