(* ===== verification/Hal_Host.thy ===== *)
theory Hal_Host
  imports Herald Demo "HOL-Library.Signed_Division"
begin

text \<open>
  The hardware abstraction of the host programs, \<^verbatim>\<open>shard/hal/host/hal_host.c\<close>, and the gateway
  shim \<^verbatim>\<open>herald/transport/lora_serial.c\<close>, over the system calls; and what happens when the
  former talks to the Herald.
\<close>

section \<open>The system underneath\<close>

text \<open>The calls the host code needs besides those of the Herald: \<^verbatim>\<open>pipe\<close>, and files with their
  contents. \<open>os_writable\<close> tells whether a path can be opened for writing, as it is or anew.\<close>

record 'w host_os = "'w posix" +
  os_pipe :: "'w \<Rightarrow> (int \<times> int) option \<times> 'w"
  os_file :: "string \<Rightarrow> 'w \<Rightarrow> bytes option"
  os_writable :: "string \<Rightarrow> 'w \<Rightarrow> bool"
  os_store :: "string \<Rightarrow> bytes \<Rightarrow> 'w \<Rightarrow> 'w"

text \<open>The static variables.\<close>

record 'w host_env =
  hv_tx_pipe :: "int \<times> int"
  hv_rx_pipe :: "int \<times> int"
  hv_shard_tx_fd :: int
  hv_shard_rx_fd :: int
  hv_world :: 'w

definition host_start :: "'w \<Rightarrow> 'w host_env" where
  "host_start w = \<lparr>hv_tx_pipe = (- 1, - 1), hv_rx_pipe = (- 1, - 1), hv_shard_tx_fd = - 1, hv_shard_rx_fd = - 1, hv_world = w\<rparr>"

text \<open>The four descriptors handed out: the shard's two and the Herald's two.\<close>

definition hal_host_init_pipes :: "'w host_os \<Rightarrow> 'w host_env \<Rightarrow> (int \<times> int \<times> int \<times> int) \<times> 'w host_env" where
  "hal_host_init_pipes os e =
     (let (p, w) = os_pipe os (hv_world e);
          e = e\<lparr>hv_tx_pipe := (case p of None \<Rightarrow> hv_tx_pipe e | Some p \<Rightarrow> p), hv_world := w\<rparr>;
          (p, w) = os_pipe os (hv_world e);
          e = e\<lparr>hv_rx_pipe := (case p of None \<Rightarrow> hv_rx_pipe e | Some p \<Rightarrow> p), hv_world := w\<rparr>
      in ((snd (hv_tx_pipe e), fst (hv_rx_pipe e), fst (hv_tx_pipe e), snd (hv_rx_pipe e)), e))"

definition hal_host_set_fds :: "int \<Rightarrow> int \<Rightarrow> 'w host_env \<Rightarrow> 'w host_env" where
  "hal_host_set_fds tx_fd rx_fd e = e\<lparr>hv_shard_tx_fd := tx_fd, hv_shard_rx_fd := rx_fd\<rparr>"

section \<open>The radio\<close>

text \<open>A packet is its length in one byte and then its bytes.\<close>

definition host_lora_send :: "'w host_os \<Rightarrow> bytes \<Rightarrow> u8 \<Rightarrow> 'w host_env \<Rightarrow> (int \<times> 'w host_env) option" where
  "host_lora_send os buf len e =
     (let (n, w) = px_write (posix.truncate os) (hv_shard_tx_fd e) [len] (hv_world e);
          e = e\<lparr>hv_world := w\<rparr>
      in if n \<noteq> 1 then Some (- 1, e)
      else do {
        bs \<leftarrow> rd_slice buf 0 (unat len);
        let (n, w) = px_write (posix.truncate os) (hv_shard_tx_fd e) bs (hv_world e);
        Some (if n \<noteq> uint len then - 1 else 0, e\<lparr>hv_world := w\<rparr>) })"

definition elapsed_ms :: "int \<times> int \<Rightarrow> int \<times> int \<Rightarrow> u64" where
  "elapsed_ms start now = word_of_int (fst now - fst start) * 1000 + word_of_int ((snd now - snd start) sdiv 1000000)"

text \<open>The loop of \<^verbatim>\<open>host_lora_recv\<close>; the result, the buffer, the length and the state.\<close>

partial_function (option) host_recv_loop ::
  "'w posix \<Rightarrow> int \<Rightarrow> int \<times> int \<Rightarrow> u32 \<Rightarrow> bytes \<Rightarrow> u8 \<Rightarrow> 'w \<Rightarrow> (int \<times> bytes \<times> u8 \<times> 'w) option" where
  "host_recv_loop px fd start timeout_ms buf len_out w =
     (case px_read px fd 1 w of
        (Read_Bytes [hdr], w) \<Rightarrow>
          (case px_read px fd (unat hdr) w of
             (Read_Bytes bs, w) \<Rightarrow> do { buf \<leftarrow> memcpy_at buf 0 bs; Some (0, buf, of_nat (length bs), w) }
           | (_, w) \<Rightarrow> Some (0, buf, 0, w))
      | (_, w) \<Rightarrow>
          let (now, w) = px_clock px w in
          if ucast timeout_ms \<le> elapsed_ms start now then Some (1, buf, len_out, w)
          else host_recv_loop px fd start timeout_ms buf len_out (px_usleep px 1000 w))"

definition host_lora_recv :: "'w host_os \<Rightarrow> bytes \<Rightarrow> u8 \<Rightarrow> u32 \<Rightarrow> 'w host_env \<Rightarrow> (int \<times> bytes \<times> u8 \<times> 'w host_env) option" where
  "host_lora_recv os buf len_out timeout_ms e =
     (let (start, w) = px_clock (posix.truncate os) (hv_world e) in do {
        (r, buf, n, w) \<leftarrow> host_recv_loop (posix.truncate os) (hv_shard_rx_fd e) start timeout_ms buf len_out w;
        Some (r, buf, n, e\<lparr>hv_world := w\<rparr>) })"

section \<open>Time, storage and log\<close>

definition host_sleep_ms :: "'w host_os \<Rightarrow> u32 \<Rightarrow> 'w host_env \<Rightarrow> 'w host_env" where
  "host_sleep_ms os ms e = e\<lparr>hv_world := px_usleep (posix.truncate os) (ms * 1000) (hv_world e)\<rparr>"

definition host_deep_sleep_rtc :: "'w host_os \<Rightarrow> u32 \<Rightarrow> 'w host_env \<Rightarrow> 'w host_env" where
  "host_deep_sleep_rtc os s e = e\<lparr>hv_world := px_sleep (posix.truncate os) s (hv_world e)\<rparr>"

definition host_get_tick_ms :: "'w host_os \<Rightarrow> 'w host_env \<Rightarrow> u32 \<times> 'w host_env" where
  "host_get_tick_ms os e =
     (let ((s, ns), w) = px_clock (posix.truncate os) (hv_world e)
      in (word_of_int (s * 1000 + ns sdiv 1000000), e\<lparr>hv_world := w\<rparr>))"

text \<open>Writing at an offset; a gap before it is filled with zeros.\<close>

definition file_write :: "nat \<Rightarrow> bytes \<Rightarrow> bytes \<Rightarrow> bytes" where
  "file_write off bs old = take off (old @ replicate (off - length old) 0) @ bs @ drop (off + length bs) old"

abbreviation nvs_path :: string where "nvs_path \<equiv> ''/tmp/filum_shard.nvs''"

definition host_nvs_write :: "'w host_os \<Rightarrow> u32 \<Rightarrow> bytes \<Rightarrow> nat \<Rightarrow> 'w host_env \<Rightarrow> (int \<times> 'w host_env) option" where
  "host_nvs_write os offset data len e =
     (if \<not> os_writable os nvs_path (hv_world e) then Some (- 1, e)
      else do {
        bs \<leftarrow> rd_slice data 0 len;
        let old = (case os_file os nvs_path (hv_world e) of None \<Rightarrow> [] | Some b \<Rightarrow> b);
        Some (0, e\<lparr>hv_world := os_store os nvs_path (file_write (unat offset) bs old) (hv_world e)\<rparr>) })"

definition host_nvs_read :: "'w host_os \<Rightarrow> u32 \<Rightarrow> bytes \<Rightarrow> nat \<Rightarrow> 'w host_env \<Rightarrow> (int \<times> bytes \<times> 'w host_env) option" where
  "host_nvs_read os offset data len e =
     (case os_file os nvs_path (hv_world e) of
        None \<Rightarrow> Some (- 1, data, e)
      | Some b \<Rightarrow> do {
          let bs = take len (drop (unat offset) b);
          data \<leftarrow> memcpy_at data 0 bs;
          Some (if length bs = len then 0 else - 1, data, e) })"

definition host_log :: "'w host_os \<Rightarrow> string \<Rightarrow> log_arg list \<Rightarrow> 'w host_env \<Rightarrow> 'w host_env" where
  "host_log os fmt args e = e\<lparr>hv_world := px_stderr (posix.truncate os) fmt args (hv_world e)\<rparr>"

definition g_host_hal :: "'w host_os \<Rightarrow> 'w host_env FLHal" where
  "g_host_hal os =
     \<lparr>hal_lora_send = host_lora_send os, hal_lora_recv = host_lora_recv os, hal_lora_set_sf = None,
      hal_sleep_ms = host_sleep_ms os, hal_deep_sleep_rtc = Some (host_deep_sleep_rtc os),
      hal_get_tick_ms = host_get_tick_ms os, hal_nvs_write = Some (host_nvs_write os),
      hal_nvs_read = Some (host_nvs_read os), hal_log = Some (host_log os)\<rparr>"

section \<open>The gateway shim\<close>

definition hex_digits :: bytes where
  "hex_digits = map of_char ''0123456789ABCDEF''"

definition bytes_to_hex :: "bytes \<Rightarrow> nat \<Rightarrow> bytes \<Rightarrow> bytes option" where
  "bytes_to_hex input len out =
     do { out \<leftarrow> for_lt len (\<lambda>i out. do {
            b \<leftarrow> rd input i;
            hi \<leftarrow> rd hex_digits (unat (drop_bit 4 b));
            out \<leftarrow> wr out (i * 2) hi;
            lo \<leftarrow> rd hex_digits (unat (b AND 0x0F));
            wr out (i * 2 + 1) lo }) out;
          wr out (len * 2) 0 }"

text \<open>\<^verbatim>\<open>%d\<close> of a number that is not negative, and \<^verbatim>\<open>%s\<close>, which stops at the first zero.\<close>

fun dec_digits :: "nat \<Rightarrow> bytes" where
  "dec_digits n = (if n < 10 then [of_nat (48 + n)] else dec_digits (n div 10) @ [of_nat (48 + n mod 10)])"

declare dec_digits.simps [simp del]

definition c_string :: "bytes \<Rightarrow> bytes" where
  "c_string out = takeWhile (\<lambda>b. b \<noteq> 0) out"

definition at_command :: "u8 \<Rightarrow> bytes \<Rightarrow> bytes" where
  "at_command frame_len hex =
     map of_char ''AT+SEND=1,'' @ dec_digits (unat frame_len) @ map of_char '','' @ c_string hex @ [13, 10]"

text \<open>\<^verbatim>\<open>snprintf\<close> returns the length it would need and cuts what it stores; \<open>junk\<close> is the rest of the
  buffer \<^verbatim>\<open>hex\<close>.\<close>

definition lora_serial_send :: "'w posix \<Rightarrow> bool \<Rightarrow> bytes \<Rightarrow> int \<Rightarrow> bytes \<Rightarrow> u8 \<Rightarrow> 'w \<Rightarrow> (int \<times> 'w) option" where
  "lora_serial_send px at_mode junk fd frame frame_len w =
     (if at_mode then do {
        hex \<leftarrow> bytes_to_hex frame (unat frame_len) junk;
        let cmd = at_command frame_len hex;
        bs \<leftarrow> rd_slice (take 599 cmd @ [0]) 0 (length cmd);
        let (n, w) = px_write px fd bs w;
        Some (if n = int (length cmd) then 0 else - 1, w) }
      else
        let (n, w) = px_write px fd [frame_len] w in
        if n \<noteq> 1 then Some (- 1, w)
        else do {
          bs \<leftarrow> rd_slice frame 0 (unat frame_len);
          let (n, w) = px_write px fd bs w;
          Some (if n \<noteq> uint frame_len then - 1 else 0, w) })"

section \<open>Receiving\<close>

lemma px_host [simp]:
  "px_read (posix.truncate os) = px_read os" "px_write (posix.truncate os) = px_write os"
  "px_clock (posix.truncate os) = px_clock os" "px_usleep (posix.truncate os) = px_usleep os"
  "px_stderr (posix.truncate os) = px_stderr os" "px_time (posix.truncate os) = px_time os"
  by (simp_all add: posix.defs)

lemma thousandth:
  fixes d :: int
  defines "t \<equiv> (d * 1000) sdiv 1000000"
  shows "d \<le> t * 1000 + 999" "t * 1000 \<le> d + 999" "0 \<le> d \<Longrightarrow> 0 \<le> t" "- 1000000 < d \<Longrightarrow> - 999 \<le> t"
proof -
  have k: "(x * 1000) div 1000000 = x div 1000" for x :: int
    using div_mult_mult2 [of 1000 x 1000] by simp
  have t: "t = (if 0 \<le> d then d div 1000 else - ((- d) div 1000))"
    using k [of d] k [of "- d"] by (auto simp: t_def signed_divide_int_def sgn_if abs_if)
  have b: "x - 999 \<le> x div 1000 * 1000" "x div 1000 * 1000 \<le> x" for x :: int
    using div_mult_mod_eq [of x 1000] pos_mod_bound [of 1000 x] pos_mod_sign [of 1000 x] by linarith+
  show "d \<le> t * 1000 + 999" "t * 1000 \<le> d + 999" "0 \<le> d \<Longrightarrow> 0 \<le> t" "- 1000000 < d \<Longrightarrow> - 999 \<le> t"
    using b [of d] b [of "- d"] unfolding t by (auto split: if_splits)
qed

text \<open>What is asked of the system so that receiving ends: the clock counts microseconds, and a call
  takes less than 73000 years.\<close>

abbreviation long_call :: int where "long_call \<equiv> 2 ^ 61"

text \<open>The time before the first packet: reads that give nothing, each followed by a millisecond of sleep.\<close>

fun host_waits :: "'w host_os \<Rightarrow> int \<Rightarrow> nat \<Rightarrow> 'w \<Rightarrow> 'w option" where
  "host_waits os fd 0 w = Some w"
| "host_waits os fd (Suc k) w =
     (case px_read os fd 1 w of
        (Read_Bytes [h], _) \<Rightarrow> None
      | (_, w) \<Rightarrow> host_waits os fd k (px_usleep os 1000 w))"

text \<open>The packet behind a length byte: it is copied if the buffer can take what the system hands over.\<close>

definition host_packet :: "'w host_os \<Rightarrow> int \<Rightarrow> u8 \<Rightarrow> bytes \<Rightarrow> 'w \<Rightarrow> (int \<times> bytes \<times> u8 \<times> 'w) option" where
  "host_packet os fd h buf w =
     (case px_read os fd (unat h) w of
        (Read_Bytes bs, w) \<Rightarrow>
          if length bs \<le> length buf then Some (0, bs @ drop (length bs) buf, of_nat (length bs), w) else None
      | (_, w) \<Rightarrow> Some (0, buf, 0, w))"

locale host_clock =
  fixes os :: "'w host_os" and us :: "'w \<Rightarrow> int"
  assumes clock: "px_clock os w = ((us w div 1000000, us w mod 1000000 * 1000), w)"
    and usleep: "us w + uint n \<le> us (px_usleep os n w)" "us (px_usleep os n w) \<le> us w + long_call"
    and read_time: "px_read os fd k w = (r, w1) \<Longrightarrow> us w \<le> us w1 \<and> us w1 \<le> us w + long_call"
begin

lemma elapsed_bounds:
  assumes "us a \<le> us w" "us w - us a < 2 ^ 63"
  defines "v \<equiv> uint (elapsed_ms (fst (px_clock os a)) (fst (px_clock os w)))"
  shows "us w - us a \<le> v * 1000 + 999" "v * 1000 \<le> us w - us a + 999"
proof -
  let ?q = "us w div 1000000 - us a div 1000000" and ?d = "us w mod 1000000 - us a mod 1000000"
  let ?t = "(?d * 1000) sdiv 1000000"
  have split: "us w - us a = ?q * 1000000 + ?d" by (simp add: algebra_simps)
  have d: "- 1000000 < ?d" "?d < 1000000"
    using pos_mod_bound [of 1000000 "us w"] pos_mod_bound [of 1000000 "us a"]
      pos_mod_sign [of 1000000 "us w"] pos_mod_sign [of 1000000 "us a"] by linarith+
  have q0: "0 \<le> ?q" using assms(1) by (simp add: zdiv_mono1)
  note t = thousandth [of ?d]
  have nonneg: "0 \<le> ?q * 1000 + ?t"
  proof (cases "?q = 0")
    case True
    then have "0 \<le> ?d" using split assms(1) by simp
    then show ?thesis using True t(3) by simp
  next
    case False
    moreover have "0 \<le> q \<Longrightarrow> - 999 \<le> t \<Longrightarrow> q \<noteq> 0 \<Longrightarrow> 0 \<le> q * 1000 + t" for q t :: int by linarith
    ultimately show ?thesis using q0 t(4) [OF d(1)] by blast
  qed
  have lt: "?q * 1000 + ?t < 2 ^ 64" using split t(2) assms(2) by simp
  have "elapsed_ms (fst (px_clock os a)) (fst (px_clock os w)) = word_of_int (?q * 1000 + ?t)"
    by (simp add: elapsed_ms_def clock left_diff_distrib)
  then have "v = (?q * 1000 + ?t) mod 2 ^ 64" unfolding v_def by (simp only: uint_word_of_int) simp
  then have "v = ?q * 1000 + ?t" using nonneg lt by simp
  then show "us w - us a \<le> v * 1000 + 999" "v * 1000 \<le> us w - us a + 999" using split t(1,2) by simp_all
qed

lemma recv_loop_cases:
  assumes "us a \<le> us w" "us w - us a \<le> 2 ^ 43 + 2 ^ 61"
  shows "\<exists>k w0 r w1. host_waits os fd k w = Some w0 \<and> px_read os fd 1 w0 = (r, w1)
    \<and> (case r of
         Read_Bytes [h] \<Rightarrow> host_recv_loop (posix.truncate os) fd (fst (px_clock os a)) t buf n w = host_packet os fd h buf w1
       | _ \<Rightarrow> uint t * 1000 \<le> us w1 - us a + 999
           \<and> host_recv_loop (posix.truncate os) fd (fst (px_clock os a)) t buf n w = Some (1, buf, n, w1))"
  using assms
proof (induction "nat (uint t * 1000 + 2000 - (us w - us a))" arbitrary: w rule: less_induct)
  case less
  let ?loop = "host_recv_loop (posix.truncate os) fd (fst (px_clock os a)) t buf n"
  obtain r w1 where rd: "px_read os fd 1 w = (r, w1)" by fastforce
  show ?case
  proof (cases "\<exists>h. r = Read_Bytes [h]")
    case True
    then obtain h where h: "r = Read_Bytes [h]" by blast
    then have "?loop w = host_packet os fd h buf w1"
      using rd by (subst host_recv_loop.simps) (auto simp: host_packet_def memcpy_at_def split: read_result.split prod.split)
    then show ?thesis using rd h by (intro exI [of _ 0] exI [of _ w] exI [of _ r] exI [of _ w1]) simp
  next
    case no: False
    note tm = read_time [OF rd]
    have lt: "us a \<le> us w1" "us w1 - us a < 2 ^ 63" using tm less.prems by simp_all
    let ?v = "elapsed_ms (fst (px_clock os a)) (fst (px_clock os w1))"
    note el = elapsed_bounds [OF lt]
    have eq: "?loop w = (if ucast t \<le> ?v then Some (1, buf, n, w1) else ?loop (px_usleep os 1000 w1))"
      using rd no by (subst host_recv_loop.simps) (auto simp: clock Let_def split: read_result.split list.split)
    have ge: "ucast t \<le> ?v \<longleftrightarrow> uint t \<le> uint ?v" by (simp add: word_le_def uint_up_ucast is_up)
    show ?thesis
    proof (cases "ucast t \<le> ?v")
      case True
      then have "uint t * 1000 \<le> us w1 - us a + 999" using ge el(2) by linarith
      then show ?thesis using eq True rd no
        by (intro exI [of _ 0] exI [of _ w] exI [of _ r] exI [of _ w1]) (simp split: read_result.split list.split)
    next
      case F: False
      let ?w = "px_usleep os 1000 w1"
      have "uint ?v \<le> uint t - 1" using F ge by linarith
      then have small: "us w1 - us a < uint t * 1000" using el(1) by linarith
      have t32: "uint t < 2 ^ 32" using uint_lt2p [of t] by simp
      have up: "us w1 + 1000 \<le> us ?w" "us ?w \<le> us w1 + 2 ^ 61" using usleep [where w = w1 and n = 1000] by simp_all
      have "nat (uint t * 1000 + 2000 - (us ?w - us a)) < nat (uint t * 1000 + 2000 - (us w - us a))"
        using small up(1) tm by linarith
      from less.hyps [OF this] obtain k w0 r0 w2 where k: "host_waits os fd k ?w = Some w0" "px_read os fd 1 w0 = (r0, w2)"
        "case r0 of Read_Bytes [h] \<Rightarrow> ?loop ?w = host_packet os fd h buf w2
          | _ \<Rightarrow> uint t * 1000 \<le> us w2 - us a + 999 \<and> ?loop ?w = Some (1, buf, n, w2)"
        using lt(1) small t32 up by auto
      have "host_waits os fd (Suc k) w = Some w0" using rd no k(1) by (auto split: read_result.split list.split)
      then show ?thesis using k(2,3) F unfolding eq by (intro exI [of _ "Suc k"] exI [of _ w0] exI [of _ r0] exI [of _ w2]) simp
    qed
  qed
qed

lemma recv_cases:
  defines "fd e \<equiv> hv_shard_rx_fd e"
  shows "\<exists>k w0 r w1. host_waits os (fd e) k (hv_world e) = Some w0 \<and> px_read os (fd e) 1 w0 = (r, w1)
    \<and> (case r of
         Read_Bytes [h] \<Rightarrow> host_lora_recv os buf n t e
           = map_option (\<lambda>(r, b, m, w). (r, b, m, e\<lparr>hv_world := w\<rparr>)) (host_packet os (fd e) h buf w1)
       | _ \<Rightarrow> uint t * 1000 \<le> us w1 - us (hv_world e) + 999
           \<and> host_lora_recv os buf n t e = Some (1, buf, n, e\<lparr>hv_world := w1\<rparr>))"
proof -
  obtain k w0 r w1 where k: "host_waits os (fd e) k (hv_world e) = Some w0" "px_read os (fd e) 1 w0 = (r, w1)"
    "case r of
       Read_Bytes [h] \<Rightarrow> host_recv_loop (posix.truncate os) (fd e) (fst (px_clock os (hv_world e))) t buf n (hv_world e)
         = host_packet os (fd e) h buf w1
     | _ \<Rightarrow> uint t * 1000 \<le> us w1 - us (hv_world e) + 999
         \<and> host_recv_loop (posix.truncate os) (fd e) (fst (px_clock os (hv_world e))) t buf n (hv_world e) = Some (1, buf, n, w1)"
    using recv_loop_cases [of "hv_world e" "hv_world e" "fd e" t buf n] by auto
  moreover have "host_lora_recv os buf n t e = map_option (\<lambda>(r, b, m, w). (r, b, m, e\<lparr>hv_world := w\<rparr>))
      (host_recv_loop (posix.truncate os) (fd e) (fst (px_clock os (hv_world e))) t buf n (hv_world e))"
    by (simp add: host_lora_recv_def clock fd_def map_conv_bind_option comp_def case_prod_unfold)
  ultimately show ?thesis
    by (intro exI [of _ k] exI [of _ w0] exI [of _ r] exI [of _ w1]) (simp split: read_result.splits list.splits)
qed

end

text \<open>A link with frames on it: no packet is longer than a frame.\<close>

locale host_link = host_clock os us for os :: "'w host_os" and us :: "'w \<Rightarrow> int" +
  fixes ok :: "'w \<Rightarrow> bool" and rx_fd tx_fd :: int
  assumes usleep_ok: "ok w \<Longrightarrow> ok (px_usleep os n w)"
    and read_ok: "\<lbrakk>ok w; px_read os rx_fd 1 w = (r, w1); \<forall>h. r \<noteq> Read_Bytes [h]\<rbrakk> \<Longrightarrow> ok w1"
    and packet: "\<lbrakk>ok w; px_read os rx_fd 1 w = (Read_Bytes [h], w1); px_read os rx_fd (unat h) w1 = (r, w2)\<rbrakk>
      \<Longrightarrow> unat h \<le> FL_FRAME_MAX_SIZE \<and> ok w2 \<and> (\<forall>bs. r = Read_Bytes bs \<longrightarrow> length bs \<le> unat h)"
    and write_ok: "\<lbrakk>ok w; px_write os tx_fd bs w = (m, w1)\<rbrakk> \<Longrightarrow> ok w1"
    and store_ok: "ok w \<Longrightarrow> ok (os_store os p b w)"
    and stderr_ok: "ok w \<Longrightarrow> ok (px_stderr os fmt args w)"
begin

lemma waits_ok: "host_waits os rx_fd k w = Some w0 \<Longrightarrow> ok w \<Longrightarrow> ok w0"
proof (induction k arbitrary: w)
  case (Suc k)
  obtain r w1 where rd: "px_read os rx_fd 1 w = (r, w1)" by fastforce
  then have no: "\<forall>h. r \<noteq> Read_Bytes [h]" using Suc.prems(1) by auto
  then have "host_waits os rx_fd k (px_usleep os 1000 w1) = Some w0"
    using Suc.prems(1) rd by (auto split: read_result.splits list.splits)
  moreover have "ok (px_usleep os 1000 w1)" by (rule usleep_ok, rule read_ok [OF Suc.prems(2) rd no])
  ultimately show ?case by (rule Suc.IH)
qed simp

lemma recv_ok:
  assumes "ok (hv_world e)" "hv_shard_rx_fd e = rx_fd" "length buf = FL_FRAME_MAX_SIZE" "unat n \<le> FL_FRAME_MAX_SIZE"
  shows "\<exists>r buf' n' w'. host_lora_recv os buf n t e = Some (r, buf', n', e\<lparr>hv_world := w'\<rparr>)
    \<and> length buf' = FL_FRAME_MAX_SIZE \<and> unat n' \<le> FL_FRAME_MAX_SIZE \<and> ok w'"
proof -
  obtain k w0 r w1 where k: "host_waits os rx_fd k (hv_world e) = Some w0" "px_read os rx_fd 1 w0 = (r, w1)"
    "case r of
         Read_Bytes [h] \<Rightarrow> host_lora_recv os buf n t e
           = map_option (\<lambda>(r, b, m, w). (r, b, m, e\<lparr>hv_world := w\<rparr>)) (host_packet os rx_fd h buf w1)
       | _ \<Rightarrow> uint t * 1000 \<le> us w1 - us (hv_world e) + 999
           \<and> host_lora_recv os buf n t e = Some (1, buf, n, e\<lparr>hv_world := w1\<rparr>)"
    using recv_cases [where e = e and buf = buf and n = n and t = t] unfolding assms(2) by blast
  have ok0: "ok w0" by (rule waits_ok [OF k(1) assms(1)])
  show ?thesis
  proof (cases "\<exists>h. r = Read_Bytes [h]")
    case True
    then obtain h where h: "r = Read_Bytes [h]" by blast
    obtain r2 w2 where rd2: "px_read os rx_fd (unat h) w1 = (r2, w2)" by fastforce
    note p = packet [OF ok0 k(2) [unfolded h] rd2]
    have "unat (of_nat (length bs) :: u8) \<le> 224" if "r2 = Read_Bytes bs" for bs
      using p that unat_of_nat_u8 [of "length bs"] by auto
    then show ?thesis using k(3) h rd2 p assms(3) by (auto simp: host_packet_def split: read_result.split)
  next
    case False
    then have "ok w1" using read_ok [OF ok0 k(2)] by blast
    moreover have "host_lora_recv os buf n t e = Some (1, buf, n, e\<lparr>hv_world := w1\<rparr>)"
      using k(3) False by (auto split: read_result.splits list.splits)
    ultimately show ?thesis using assms(3,4)
      by (intro exI [of _ 1] exI [of _ buf] exI [of _ n] exI [of _ w1]) simp
  qed
qed

lemma send_ok:
  assumes "ok (hv_world e)" "hv_shard_tx_fd e = tx_fd" "unat n \<le> length buf"
  shows "\<exists>r w'. host_lora_send os buf n e = Some (r, e\<lparr>hv_world := w'\<rparr>) \<and> ok w'"
proof -
  obtain k w where k: "px_write os tx_fd [n] (hv_world e) = (k, w)" by fastforce
  obtain j v where "px_write os tx_fd (take (unat n) buf) w = (j, v)" by fastforce
  moreover have "ok w" by (rule write_ok [OF assms(1) k])
  moreover from this have "ok v" by (rule write_ok) (rule calculation(1))
  ultimately show ?thesis using assms k
    by (intro exI [of _ "if k = 1 then if j = uint n then 0 else - 1 else - 1"] exI [of _ "if k = 1 then v else w"])
      (simp add: host_lora_send_def Let_def)
qed

end

sublocale host_link \<subseteq> host: hal_contract "g_host_hal os"
  "\<lambda>e. ok (hv_world e) \<and> hv_shard_rx_fd e = rx_fd \<and> hv_shard_tx_fd e = tx_fd"
proof unfold_locales
  fix e :: "'w host_env" and n :: u8 and b :: bytes
  show "\<lbrakk>ok (hv_world e) \<and> hv_shard_rx_fd e = rx_fd \<and> hv_shard_tx_fd e = tx_fd; unat n \<le> length b\<rbrakk>
    \<Longrightarrow> \<exists>r e'. hal_lora_send (g_host_hal os) b n e = Some (r, e')
      \<and> ok (hv_world e') \<and> hv_shard_rx_fd e' = rx_fd \<and> hv_shard_tx_fd e' = tx_fd"
    using send_ok [of e n b] by (fastforce simp: g_host_hal_def)
next
  fix e :: "'w host_env" and n :: u8 and b :: bytes and t
  assume a: "ok (hv_world e) \<and> hv_shard_rx_fd e = rx_fd \<and> hv_shard_tx_fd e = tx_fd" "length b = 224" "unat n \<le> 224"
  then show "\<exists>r b' n' e'. hal_lora_recv (g_host_hal os) b n t e = Some (r, b', n', e') \<and> length b' = 224 \<and> unat n' \<le> 224
      \<and> ok (hv_world e') \<and> hv_shard_rx_fd e' = rx_fd \<and> hv_shard_tx_fd e' = tx_fd"
    using recv_ok [of e b n t] by (fastforce simp: g_host_hal_def)
qed (auto simp: g_host_hal_def host_nvs_write_def host_log_def Let_def store_ok stderr_ok)

section \<open>A system in memory\<close>

text \<open>Files, pipes whose read end is an even number and whose write end is the next, and a clock.\<close>

record mem_world =
  mw_files :: "string \<Rightarrow> bytes option"
  mw_pipe :: "int \<Rightarrow> bytes"
  mw_next :: int
  mw_us :: int

definition mem_read :: "int \<Rightarrow> nat \<Rightarrow> mem_world \<Rightarrow> read_result \<times> mem_world" where
  "mem_read fd n w =
     (let q = mw_pipe w fd in
      if q = [] then (Read_Again, w) else (Read_Bytes (take n q), w\<lparr>mw_pipe := (mw_pipe w)(fd := drop n q)\<rparr>))"

definition mem_write :: "int \<Rightarrow> bytes \<Rightarrow> mem_world \<Rightarrow> int \<times> mem_world" where
  "mem_write fd bs w = (int (length bs), w\<lparr>mw_pipe := (mw_pipe w)(fd - 1 := mw_pipe w (fd - 1) @ bs)\<rparr>)"

definition mem_pass :: "int \<Rightarrow> mem_world \<Rightarrow> mem_world" where
  "mem_pass us w = w\<lparr>mw_us := mw_us w + us\<rparr>"

definition mem_os :: "mem_world host_os" where
  "mem_os =
     \<lparr>px_open = (\<lambda>_ w. (- 1, w)), px_close = (\<lambda>_ w. w), px_read = mem_read, px_write = mem_write,
      px_time = (\<lambda>w. (mw_us w div 1000000, w)),
      px_clock = (\<lambda>w. ((mw_us w div 1000000, mw_us w mod 1000000 * 1000), w)),
      px_nanosleep = (\<lambda>n. mem_pass (int (n div 1000))), px_usleep = (\<lambda>n. mem_pass (uint n)),
      px_sleep = (\<lambda>n. mem_pass (uint n * 1000000)), px_stderr = (\<lambda>_ _ w. w),
      os_pipe = (\<lambda>w. (Some (mw_next w, mw_next w + 1), w\<lparr>mw_next := mw_next w + 2\<rparr>)),
      os_file = (\<lambda>p w. mw_files w p), os_writable = (\<lambda>_ _. True),
      os_store = (\<lambda>p b w. w\<lparr>mw_files := (mw_files w)(p \<mapsto> b)\<rparr>)\<rparr>"

definition mem_start :: mem_world where
  "mem_start = \<lparr>mw_files = Map.empty, mw_pipe = (\<lambda>_. []), mw_next = 0, mw_us = 0\<rparr>"

definition framed :: "mem_world \<Rightarrow> bool" where
  "framed w \<longleftrightarrow> (\<exists>fs. mw_pipe w 0 = enc_frames fs \<and> (\<forall>f \<in> set fs. length f \<le> FL_FRAME_MAX_SIZE))"

lemma mem_packet:
  assumes "framed w" "mem_read 0 1 w = (Read_Bytes [h], w1)" "mem_read 0 (unat h) w1 = (r, w2)"
  shows "unat h \<le> 224 \<and> framed w2 \<and> (\<forall>bs. r = Read_Bytes bs \<longrightarrow> length bs \<le> unat h)"
proof -
  obtain fs where fs: "mw_pipe w 0 = enc_frames fs" "\<forall>f \<in> set fs. length f \<le> 224" using assms(1) by (auto simp: framed_def)
  obtain f gs where f: "fs = f # gs" using fs(1) assms(2) by (cases fs) (auto simp: mem_read_def)
  have l: "length f \<le> 224" using fs(2) f by simp
  have h: "h = of_nat (length f)" and w1: "mw_pipe w1 0 = f @ enc_frames gs"
    using assms(2) fs(1) f by (auto simp: mem_read_def Let_def)
  have n: "unat h = length f" unfolding h by (rule unat_of_nat_u8) (use l in simp)
  have "mw_pipe w2 0 = enc_frames gs \<and> (\<forall>bs. r = Read_Bytes bs \<longrightarrow> length bs \<le> unat h)"
    using assms(3) w1 n by (auto simp: mem_read_def Let_def split: if_splits)
  then show ?thesis using n l fs(2) f by (auto simp: framed_def)
qed

lemma framed_keeps [simp]:
  "framed (w\<lparr>mw_us := t\<rparr>) = framed w" "framed (w\<lparr>mw_files := f\<rparr>) = framed w"
  by (simp_all add: framed_def)

interpretation mem: host_link mem_os mw_us framed 0 3
proof unfold_locales
  fix w w1 r
  assume "framed w" "px_read mem_os 0 1 w = (r, w1)" "\<forall>h. r \<noteq> Read_Bytes [h]"
  then show "framed w1" by (auto simp: mem_os_def mem_read_def Let_def take_Suc split: if_splits list.splits)
next
  fix w fd k r w1
  assume "px_read mem_os fd k w = (r, w1)"
  then show "mw_us w \<le> mw_us w1 \<and> mw_us w1 \<le> mw_us w + 2 ^ 61"
    by (auto simp: mem_os_def mem_read_def Let_def split: if_splits)
next
  fix w and n :: u32
  have "uint n < 2 ^ 32" using uint_lt2p [of n] by simp
  then show "mw_us (px_usleep mem_os n w) \<le> mw_us w + 2 ^ 61" by (simp add: mem_os_def mem_pass_def)
next
  fix w h w1 r w2
  assume "framed w" "px_read mem_os 0 1 w = (Read_Bytes [h], w1)" "px_read mem_os 0 (unat h) w1 = (r, w2)"
  then show "unat h \<le> 224 \<and> framed w2 \<and> (\<forall>bs. r = Read_Bytes bs \<longrightarrow> length bs \<le> unat h)"
    by (intro mem_packet) (simp_all add: mem_os_def)
qed (auto simp: mem_os_def mem_pass_def mem_write_def framed_def)

interpretation mem_clock: host_clock mem_os mw_us
  by (rule mem.host_clock_axioms)

text \<open>C30: Receiving on the host ends: over any system whose calls return and whose clock runs,
  \<^verbatim>\<open>host_lora_recv\<close> waits a finite number of times and then ends with the first packet, which it copies, and whose
  length it gives, if what the system hands over fits the buffer, and which overruns the buffer
  if not (a header of 225 to 255 is not refused); or, with buffer and length as they were, with 1 once
  the time-out has passed (to the millisecond). A read that blocks, as on the pipes of
  \<^verbatim>\<open>hal_host_init_pipes\<close>, is outside of this.\<close>

theorem host_recv_returns:
  assumes "host_clock os us"
  shows "\<exists>k w0 got w1. host_waits os (hv_shard_rx_fd e) k (hv_world e) = Some w0
    \<and> px_read os (hv_shard_rx_fd e) 1 w0 = (got, w1)
    \<and> (case got of
         Read_Bytes [h] \<Rightarrow> host_lora_recv os buf n t e
           = map_option (\<lambda>(r, b, m, w). (r, b, m, e\<lparr>hv_world := w\<rparr>)) (host_packet os (hv_shard_rx_fd e) h buf w1)
       | _ \<Rightarrow> uint t * 1000 \<le> us w1 - us (hv_world e) + 999
           \<and> host_lora_recv os buf n t e = Some (1, buf, n, e\<lparr>hv_world := w1\<rparr>))"
  by (rule host_clock.recv_cases [OF assms])

text \<open>A header of 255 with as many bytes behind it.\<close>

definition long_packet :: "mem_world host_env" where
  "long_packet = (host_start (mem_start\<lparr>mw_pipe := (\<lambda>_. replicate 256 255)\<rparr>))\<lparr>hv_shard_rx_fd := 0\<rparr>"

theorem host_recv_returns_witness:
  "host_lora_recv mem_os (replicate 224 0) 0 1000 long_packet = None"
proof -
  let ?w = "hv_world long_packet"
  have fd: "hv_shard_rx_fd long_packet = 0" and p: "mw_pipe ?w = (\<lambda>_. 255 # replicate 255 255)"
    by (simp_all add: long_packet_def host_start_def mem_start_def eval_nat_numeral del: replicate.simps) simp
  have rd: "px_read mem_os 0 1 ?w = (Read_Bytes [255], ?w\<lparr>mw_pipe := (mw_pipe ?w)(0 := replicate 255 255)\<rparr>)"
    by (simp add: mem_os_def mem_read_def p)
  from host_recv_returns [OF mem.host_clock_axioms, where e = long_packet and buf = "replicate 224 0" and n = 0 and t = 1000]
  obtain k w0 got w1 where k: "host_waits mem_os 0 k ?w = Some w0" "px_read mem_os 0 1 w0 = (got, w1)"
    and c: "case got of
         Read_Bytes [h] \<Rightarrow> host_lora_recv mem_os (replicate 224 0) 0 1000 long_packet
           = map_option (\<lambda>(r, b, m, w). (r, b, m, long_packet\<lparr>hv_world := w\<rparr>)) (host_packet mem_os 0 h (replicate 224 0) w1)
       | _ \<Rightarrow> uint (1000 :: u32) * 1000 \<le> mw_us w1 - mw_us ?w + 999
           \<and> host_lora_recv mem_os (replicate 224 0) 0 1000 long_packet = Some (1, replicate 224 0, 0, long_packet\<lparr>hv_world := w1\<rparr>)"
    unfolding fd by blast
  have "k = 0" using k(1) rd by (cases k) simp_all
  then have "got = Read_Bytes [255]" "w1 = ?w\<lparr>mw_pipe := (mw_pipe ?w)(0 := replicate 255 255)\<rparr>" using k rd by simp_all
  moreover from this have "host_packet mem_os 0 255 (replicate 224 0) w1 = None"
    by (simp add: host_packet_def mem_os_def mem_read_def)
  ultimately show ?thesis using c by simp
qed

section \<open>Storage\<close>

text \<open>A file holds what was stored last, and messages do not touch files.\<close>

locale host_files =
  fixes os :: "'w host_os"
  assumes stored: "os_file os p (os_store os p b w) = Some b"
    and quiet: "os_file os p (px_stderr os fmt args w) = os_file os p w"
      "os_writable os p (px_stderr os fmt args w) = os_writable os p w"
begin

lemma nvs_write_eq:
  assumes "os_writable os nvs_path (hv_world e)" "len \<le> length data"
  shows "\<exists>rest. host_nvs_write os 0 data len e
    = Some (0, e\<lparr>hv_world := os_store os nvs_path (take len data @ rest) (hv_world e)\<rparr>)"
  using assms by (auto simp: host_nvs_write_def file_write_def)

lemma nvs_read_eq:
  assumes "len \<le> length data" "len \<le> length bs"
  shows "host_nvs_read os 0 data len (e\<lparr>hv_world := os_store os nvs_path (bs @ rest) w\<rparr>)
    = Some (0, take len bs @ drop len data, e\<lparr>hv_world := os_store os nvs_path (bs @ rest) w\<rparr>)"
  using assms by (simp add: host_nvs_read_def stored memcpy_at_def Let_def)

lemma saved_model_loads:
  assumes "unat (md_total_params m) = t" "t \<le> length (md_params m)"
    and "unat (md_total_params m2) = t" "t \<le> length (md_params m2)" "t * 4 \<le> length junk" "t * 4 \<le> length buf"
    and "os_writable os nvs_path (hv_world e)"
  shows "\<exists>b e'. fl_model_save m buf (t * 4) = Some b \<and> host_nvs_write os 0 b (t * 4) e = Some (0, e')
    \<and> (\<exists>b2. host_nvs_read os 0 junk (t * 4) e' = Some (0, b2, e')
      \<and> fl_model_load (Some m2) (Some b2) (t * 4)
        = Some (FL_OK, Some (m2\<lparr>md_params := take t (md_params m) @ drop t (md_params m2)\<rparr>)))"
proof -
  obtain b where b: "fl_model_save m buf (t * 4) = Some b" "length b = length buf"
    "\<And>b2. take (t * 4) b2 = take (t * 4) b \<Longrightarrow> t * 4 \<le> length b2 \<Longrightarrow> fl_model_load (Some m2) (Some b2) (t * 4)
        = Some (FL_OK, Some (m2\<lparr>md_params := take t (md_params m) @ drop t (md_params m2)\<rparr>))"
    using assms by (simp add: fl_model_save_def fl_model_load_def Let_def mult.commute min_def)
  have l: "t * 4 \<le> length b" using b(2) assms(6) by simp
  obtain rest where "host_nvs_write os 0 b (t * 4) e
      = Some (0, e\<lparr>hv_world := os_store os nvs_path (take (t * 4) b @ rest) (hv_world e)\<rparr>)"
    using nvs_write_eq [OF assms(7) l] by blast
  moreover have "host_nvs_read os 0 junk (t * 4) (e\<lparr>hv_world := os_store os nvs_path (take (t * 4) b @ rest) (hv_world e)\<rparr>)
      = Some (0, take (t * 4) (take (t * 4) b) @ drop (t * 4) junk, e\<lparr>hv_world := os_store os nvs_path (take (t * 4) b @ rest) (hv_world e)\<rparr>)"
    by (rule nvs_read_eq) (use assms(5) l in simp_all)
  moreover have "fl_model_load (Some m2) (Some (take (t * 4) (take (t * 4) b) @ drop (t * 4) junk)) (t * 4)
      = Some (FL_OK, Some (m2\<lparr>md_params := take t (md_params m) @ drop t (md_params m2)\<rparr>))"
    by (rule b(3)) (use l assms(5) in simp_all)
  ultimately show ?thesis using b(1) by blast
qed

end

interpretation mem: host_files mem_os
  by unfold_locales (simp_all add: mem_os_def)

text \<open>C20: A host shard that restarts resumes: when a delta has been applied and the file can be written, a
  new shard with a model of the same size starts with exactly the parameters the old one had.\<close>

theorem host_restart_resumes:
  assumes "host_files os" and "sh_hal (sy_shard y) = g_host_hal os" and "os_writable os nvs_path (hv_world (sy_env y))"
    and "wf_shard (sy_shard y)" and "wf_locals junk" and "length junk2 = 4 * FL_MODEL_MAX_PARAMS"
    and "md_total_params m2 = md_total_params (sh_model (sy_shard y))" and "length (md_params m2) = FL_MODEL_MAX_PARAMS"
  shows "\<exists>y' s' e'. apply_delta junk y = Some y'
    \<and> fl_shard_init junk2 (Some s0) (Some (g_host_hal os)) sid (Some m2) (sy_env y') = Some (FL_OK, Some s', e')
    \<and> (\<forall>i < unat (md_total_params m2). md_params (sh_model s') ! i = md_params (sh_model (sy_shard y')) ! i)"
proof -
  let ?s = "sy_shard y" let ?n = "md_total_params (sh_model ?s)"
  have w: "wf_sparse (sh_delta_buf ?s)" "length (md_params (sh_model ?s)) = 4096" "unat ?n \<le> 4096"
    and j: "length (jk_floats junk) = 4096" "length (jk_bytes junk) = 16384"
    using assms(4,5) by (simp_all add: wf_shard_def wf_locals_def)
  obtain d where d: "fl_sparse_decode (sh_delta_buf ?s) (jk_floats junk) ?n False = Some d" "length d = 4096"
    using sparse_decode_defined [OF w(1) j(1) w(3)] by blast
  obtain ps where ps: "fl_model_apply_delta (sh_model ?s) d ?n = Some (sh_model ?s\<lparr>md_params := ps\<rparr>)" "length ps = 4096"
    using model_apply_delta_defined [OF w(2) d(2) w(3)] by blast
  let ?m = "sh_model ?s\<lparr>md_params := ps\<rparr>"
  let ?e = "shard_log (?s\<lparr>sh_model := ?m\<rparr>) ''delta applied -> IDLE'' (sy_env y)"
  have q: "os_writable os nvs_path (hv_world ?e)"
    using assms(2,3) by (simp add: shard_log_def hal_print_def g_host_hal_def host_log_def host_files.quiet [OF assms(1)])
  obtain b e' b2 where s: "fl_model_save ?m (jk_bytes junk) (unat ?n * 4) = Some b"
    "host_nvs_write os 0 b (unat ?n * 4) ?e = Some (0, e')" "host_nvs_read os 0 junk2 (unat ?n * 4) e' = Some (0, b2, e')"
    "fl_model_load (Some m2) (Some b2) (unat ?n * 4) = Some (FL_OK, Some (m2\<lparr>md_params := take (unat ?n) ps @ drop (unat ?n) (md_params m2)\<rparr>))"
    using host_files.saved_model_loads [OF assms(1), of ?m "unat ?n" m2 junk2 "jk_bytes junk" ?e] assms(6-8) ps(2) w(3) j(2) q by auto
  let ?y = "y\<lparr>sy_shard := ?s\<lparr>sh_model := ?m, sh_state := FL_SHARD_STATE_IDLE\<rparr>, sy_env := e'\<rparr>"
  have "apply_delta junk y = Some ?y"
    using d(1) ps(1) s(1,2) assms(2) by (simp add: apply_delta_def Let_def g_host_hal_def)
  moreover have "\<exists>e2. fl_shard_init junk2 (Some s0) (Some (g_host_hal os)) sid (Some m2) e'
      = Some (FL_OK, Some (zero_shard (g_host_hal os) sid (m2\<lparr>md_params := take (unat ?n) ps @ drop (unat ?n) (md_params m2)\<rparr>)), e2)"
    using s(3,4) assms(7) by (simp add: fl_shard_init_def g_host_hal_def Let_def)
  ultimately show ?thesis using ps(2) w(3) assms(7)
    by (intro exI [of _ ?y]) (auto simp: zero_shard_def nth_append)
qed

definition host_shard :: "mem_world host_env sys" where
  "host_shard = \<lparr>sy_shard = zero_shard (g_host_hal mem_os) 1 (zero_model\<lparr>md_total_params := 2\<rparr>), sy_train = fresh_training,
     sy_env = host_start mem_start\<rparr>"

theorem host_restart_resumes_witness:
  "\<exists>y' s' e'. apply_delta idle_locals host_shard = Some y'
    \<and> fl_shard_init (replicate 16384 0) (Some (sy_shard host_shard)) (Some (g_host_hal mem_os)) 1 (Some (sh_model (sy_shard host_shard))) (sy_env y')
      = Some (FL_OK, Some s', e')
    \<and> md_params (sh_model s') ! 1 = md_params (sh_model (sy_shard y')) ! 1"
proof -
  have h: "sh_hal (sy_shard host_shard) = g_host_hal mem_os" "os_writable mem_os nvs_path (hv_world (sy_env host_shard))"
    "wf_shard (sy_shard host_shard)" "length (md_params (sh_model (sy_shard host_shard))) = 4096"
    "unat (md_total_params (sh_model (sy_shard host_shard))) = 2"
    by (simp_all add: host_shard_def mem_os_def wf_shard_def zero_shard_def zero_sparse_def wf_sparse_def zero_model_def wf_crypto_def)
  have l: "wf_locals idle_locals" by (simp add: idle_locals_def wf_locals_def wf_frame_def)
  have j: "length (replicate 16384 (0 :: u8)) = 4 * 4096" by simp
  from host_restart_resumes [OF mem.host_files_axioms h(1-3) l j refl h(4), of "sy_shard host_shard" 1] h(5)
  show ?thesis by fastforce
qed

section \<open>The host abstraction and the Herald\<close>

text \<open>A pipe holds bytes: writing appends, as long as there is room, and reading takes what is there,
  up to the count.\<close>

locale byte_pipe =
  fixes os :: "'w host_os" and held :: "'w \<Rightarrow> bytes" and rfd wfd :: int
  assumes appends: "length (held w) + length bs \<le> 4096 \<Longrightarrow> \<exists>w'. px_write os wfd bs w = (int (length bs), w') \<and> held w' = held w @ bs"
    and delivers: "held w \<noteq> [] \<Longrightarrow> 0 < n \<Longrightarrow> \<exists>w'. px_read os rfd n w = (Read_Bytes (take n (held w)), w') \<and> held w' = drop n (held w)"
    and clock_keeps: "held (snd (px_clock os w)) = held w"
begin

lemma host_sends:
  assumes "length f \<le> 224" "held (hv_world e) = []" "hv_shard_tx_fd e = wfd"
  shows "\<exists>w. host_lora_send os f (of_nat (length f)) e = Some (0, e\<lparr>hv_world := w\<rparr>) \<and> held w = of_nat (length f) # f"
proof -
  let ?n = "of_nat (length f) :: u8"
  have n: "unat ?n = length f" by (rule unat_of_nat_u8) (use assms(1) in simp)
  obtain w1 where w1: "px_write os wfd [?n] (hv_world e) = (1, w1)" "held w1 = [?n]"
    using appends [of "hv_world e" "[?n]"] assms(2) by auto
  obtain w2 where "px_write os wfd f w1 = (int (length f), w2)" "held w2 = [?n] @ f"
    using appends [of w1 f] w1(2) assms(1) by auto
  moreover have "uint ?n = int (length f)" using n by (simp only: uint_nat)
  ultimately show ?thesis using w1 assms(3) n
    by (intro exI [of _ w2]) (simp add: host_lora_send_def Let_def)
qed

lemma herald_drops:
  assumes "held (hs_world y) = of_nat (length f) # f" "wire_status f = FL_OK" "length f \<le> 224"
    and "he_serial_fd (hs_herald y) = rfd" "length (hs_rx_buf y) = 224" "wf_frame (hj_frame junk)"
  shows "\<exists>y'. herald_rx (posix.truncate os) junk y = Some y' \<and> hs_herald y' = hs_herald y"
proof -
  let ?p = "take 224 (of_nat (length f) # f)"
  obtain w where w: "px_read os rfd 224 (hs_world y) = (Read_Bytes ?p, w)"
    using delivers [of "hs_world y" 224] assms(1) by auto
  have f: "10 \<le> length f" "f ! 0 = 0x4C"
  proof -
    show "10 \<le> length f" using assms(2) by (simp add: wire_status_OK)
    have "of_le16 (f ! 0) (f ! 1) = of_le16 0x4C 0x46" using assms(2) by (simp add: wire_status_OK of_le16_def)
    then show "f ! 0 = 0x4C" by (simp only: of_le16_inject)
  qed
  have "of_le16 (?p ! 0) (?p ! 1) \<noteq> FL_MAGIC"
  proof -
    have "FL_MAGIC = of_le16 0x4C 0x46" by (simp add: of_le16_def)
    moreover have "?p ! 0 = of_nat (length f)" "?p ! 1 = 0x4C" using f by simp_all
    ultimately show ?thesis by (simp only: of_le16_inject) simp
  qed
  then have bad: "wire_status ?p \<noteq> FL_OK" by (simp add: wire_status_OK)
  let ?buf = "?p @ drop (length ?p) (hs_rx_buf y)"
  have len: "length ?p \<le> 224" "length ?buf = 224" using assms(5) by auto
  then obtain g where "fl_frame_decode (Some ?buf) (length ?p) (Some (hj_frame junk)) = Some (wire_status (take (length ?p) ?buf), Some g)"
    using decode_status [of "length ?p" ?buf "hj_frame junk"] assms(6) by auto
  moreover have "take (length ?p) ?buf = ?p" by (simp only: take_append take_all diff_self_eq_0 take_0 append_Nil2 order_refl)
  moreover have "serial_read (posix.truncate os) rfd (hs_rx_buf y) 224 0 (hs_world y) = Some (0, ?buf, length ?p, w)"
    using w assms(5) by (simp add: serial_read_def)
  moreover have "0 < length ?p" by simp
  ultimately show ?thesis using bad assms(4) by (simp add: herald_rx_def Let_def del: length_take take_Suc_Cons)
qed

lemma herald_sends:
  assumes "length f \<le> 224" "held w = []"
  shows "\<exists>w'. serial_write (posix.truncate os) wfd f (length f) w = Some (0, w') \<and> held w' = f"
  using appends [of w f] assms by (auto simp: serial_write_def)

lemma host_misreads:
  assumes "held (hv_world e) = f" "wire_status f = FL_OK" "length f \<le> 224" "hv_shard_rx_fd e = rfd" "length buf = 224"
  shows "\<exists>buf' n' e'. host_lora_recv os buf n t e = Some (0, buf', n', e') \<and> wire_status (take (unat n') buf') \<noteq> FL_OK"
proof -
  obtain a where a: "px_clock os (hv_world e) = (a, snd (px_clock os (hv_world e)))" by (cases "px_clock os (hv_world e)") simp
  let ?w = "snd (px_clock os (hv_world e))"
  have q: "held ?w = f" using clock_keeps assms(1) by simp
  have f10: "10 \<le> length f" using assms(2) by (simp add: wire_status_OK)
  have fl: "f ! 0 = 0x4C" "f ! 1 = 0x46"
  proof -
    have "of_le16 (f ! 0) (f ! 1) = of_le16 0x4C 0x46" using assms(2) by (simp add: wire_status_OK of_le16_def)
    then show "f ! 0 = 0x4C" "f ! 1 = 0x46" by (simp_all only: of_le16_inject)
  qed
  obtain x y r where c: "f = x # y # r" using f10 by (cases f rule: remdups_adj.cases) auto
  have xy: "x = 0x4C" "y = 0x46" using fl c by simp_all
  obtain w1 where w1: "px_read os rfd 1 ?w = (Read_Bytes [0x4C], w1)" "held w1 = 0x46 # r"
    using delivers [of ?w 1] q c xy by auto
  obtain w2 where w2: "px_read os rfd 76 w1 = (Read_Bytes (0x46 # take 75 r), w2)"
    using delivers [of w1 76] w1(2) by (auto simp: numeral_eq_Suc)
  let ?bs = "0x46 # take 75 r"
  have len: "length ?bs \<le> 224" by simp
  have n: "unat (of_nat (length ?bs) :: u8) = length ?bs" by (rule unat_of_nat_u8) (use len in auto)
  have "host_recv_loop (posix.truncate os) rfd a t buf n ?w = Some (0, ?bs @ drop (length ?bs) buf, of_nat (length ?bs), w2)"
    using w1(1) w2 assms(5) by (subst host_recv_loop.simps) (simp add: memcpy_at_def)
  then have "host_lora_recv os buf n t e = Some (0, ?bs @ drop (length ?bs) buf, of_nat (length ?bs), e\<lparr>hv_world := w2\<rparr>)"
    using a assms(4) by (cases "px_clock os (hv_world e)") (simp add: host_lora_recv_def)
  moreover have "take (length ?bs) (?bs @ drop (length ?bs) buf) = ?bs"
    by (simp only: take_append take_all diff_self_eq_0 take_0 append_Nil2 order_refl)
  moreover have "wire_status ?bs \<noteq> FL_OK"
  proof -
    have "FL_MAGIC = of_le16 0x4C 0x46" by (simp add: of_le16_def)
    then have "of_le16 0x46 (r ! 0) \<noteq> FL_MAGIC" by (simp only: of_le16_inject) simp
    then show ?thesis using f10 c by (simp add: wire_status_OK nth_Cons' min_def)
  qed
  ultimately show ?thesis using n by metis
qed

end

interpretation mem_pipe: byte_pipe mem_os "\<lambda>w. mw_pipe w 0" 0 1
  by unfold_locales (simp_all add: mem_os_def mem_read_def mem_write_def Let_def)

text \<open>C21: The Herald and the host abstraction do not understand each other. The abstraction puts a length
  byte before a frame, the Herald does not: a valid frame that the shard sends through a pipe is
  dropped by the Herald, and what the shard receives of a valid frame that the Herald sends is never
  valid. The simulator \<^verbatim>\<open>shard_sim.c\<close>, which joins the two by pipes, never completes a round.\<close>

theorem host_framing_mismatch:
  assumes "byte_pipe os held rfd wfd" and "wire_status f = FL_OK" and "length f \<le> FL_FRAME_MAX_SIZE"
  shows "(held (hv_world e) = [] \<and> hv_shard_tx_fd e = wfd \<longrightarrow>
      (\<exists>e'. host_lora_send os f (of_nat (length f)) e = Some (0, e')
        \<and> (\<forall>y junk. hs_world y = hv_world e' \<and> he_serial_fd (hs_herald y) = rfd \<and> length (hs_rx_buf y) = FL_FRAME_MAX_SIZE
            \<and> wf_frame (hj_frame junk)
          \<longrightarrow> (\<exists>y'. herald_rx (posix.truncate os) junk y = Some y' \<and> hs_herald y' = hs_herald y))))
    \<and> (held w = [] \<longrightarrow>
      (\<exists>w'. serial_write (posix.truncate os) wfd f (length f) w = Some (0, w')
        \<and> (\<forall>e buf n t. hv_world e = w' \<and> hv_shard_rx_fd e = rfd \<and> length buf = FL_FRAME_MAX_SIZE
          \<longrightarrow> (\<exists>buf' n' e'. host_lora_recv os buf n t e = Some (0, buf', n', e') \<and> wire_status (take (unat n') buf') \<noteq> FL_OK))))"
    (is "(?P \<longrightarrow> ?A) \<and> (?Q \<longrightarrow> ?B)")
proof (intro conjI impI)
  assume ?P
  then show ?A
    using byte_pipe.host_sends [OF assms(1,3), of e] byte_pipe.herald_drops [OF assms(1) _ assms(2,3)] by fastforce
next
  assume ?Q
  then show ?B
    using byte_pipe.herald_sends [OF assms(1,3), of w] byte_pipe.host_misreads [OF assms(1) _ assms(2,3)] by blast
qed

definition sample_ack :: bytes where
  "sample_ack = wire_of (encoded_frame FL_FRAME_ACK FL_SHARD_ID_HERALD 1 0 1 []) 0"

theorem host_framing_mismatch_witness:
  "\<exists>w'. serial_write (posix.truncate mem_os) 1 sample_ack 10 mem_start = Some (0, w')
    \<and> (\<exists>buf' n' e'. host_lora_recv mem_os (replicate 224 0) 0 1000 ((host_start w')\<lparr>hv_shard_rx_fd := 0\<rparr>) = Some (0, buf', n', e')
      \<and> wire_status (take (unat n') buf') \<noteq> FL_OK)"
proof -
  have ok: "wire_status sample_ack = FL_OK"
    using wire_status_encoded [of FL_FRAME_ACK FL_SHARD_ID_HERALD 1 0 1 "[]"] by (simp add: sample_ack_def)
  have len: "length sample_ack = 10" by (simp add: sample_ack_def wire_of_def)
  then have le: "length sample_ack \<le> 224" by simp
  have e: "mw_pipe mem_start 0 = []" by (simp add: mem_start_def)
  obtain w' where "serial_write (posix.truncate mem_os) 1 sample_ack 10 mem_start = Some (0, w')"
    "\<forall>e buf n t. hv_world e = w' \<and> hv_shard_rx_fd e = 0 \<and> length buf = 224
      \<longrightarrow> (\<exists>buf' n' e'. host_lora_recv mem_os buf n t e = Some (0, buf', n', e') \<and> wire_status (take (unat n') buf') \<noteq> FL_OK)"
    using host_framing_mismatch [OF mem_pipe.byte_pipe_axioms ok le, of "host_start mem_start" mem_start, THEN conjunct2, rule_format, OF e]
    unfolding len by blast
  then show ?thesis by (auto simp: host_start_def)
qed

section \<open>The command of the gateway\<close>

definition hex_pair :: "u8 \<Rightarrow> bytes" where
  "hex_pair b = [hex_digits ! (unat b div 16), hex_digits ! (unat b mod 16)]"

definition hex_of :: "bytes \<Rightarrow> bytes" where
  "hex_of bs = concat (map hex_pair bs)"

lemma length_hex_of [simp]: "length (hex_of bs) = 2 * length bs"
  by (induction bs) (simp_all add: hex_of_def hex_pair_def)

lemma length_hex_digits [simp]: "length hex_digits = 16"
  by (simp add: hex_digits_def)

lemma hex_of_snoc: "hex_of (bs @ [b]) = hex_of bs @ hex_pair b"
  by (simp add: hex_of_def)

lemma hex_digits_nonzero: "0 \<notin> set hex_digits"
  by (simp add: hex_digits_def of_char_def)

lemma hex_of_nonzero: "0 \<notin> set (hex_of bs)"
proof -
  have "hex_digits ! k \<noteq> 0" if "k < 16" for k
    using hex_digits_nonzero nth_mem [of k hex_digits] that by force
  then show ?thesis by (auto simp: hex_of_def hex_pair_def unat_u8_less less_mult_imp_div_less)
qed

lemma nibbles: "unat (drop_bit 4 b) = unat b div 16" "unat (b AND 0x0F) = unat b mod 16" for b :: u8
proof -
  show "unat (drop_bit 4 b) = unat b div 16" by (simp add: unat_drop_bit)
  have "b AND 0x0F = take_bit 4 b" by (simp add: take_bit_eq_mask mask_eq_exp_minus_1)
  then have "unat (b AND 0x0F) = take_bit 4 (unat b)" by (simp only: unsigned_take_bit_eq)
  then show "unat (b AND 0x0F) = unat b mod 16" by (simp add: take_bit_eq_mod)
qed

lemma bytes_to_hex_eq:
  assumes "len \<le> length input" "2 * len < length out"
  shows "bytes_to_hex input len out = Some (hex_of (take len input) @ 0 # drop (Suc (2 * len)) out)"
proof -
  let ?P = "\<lambda>i o'. o' = hex_of (take i input) @ drop (2 * i) out"
  have "\<exists>s. for_lt len (\<lambda>i out. do {
            b \<leftarrow> rd input i;
            hi \<leftarrow> rd hex_digits (unat (drop_bit 4 b));
            out \<leftarrow> wr out (i * 2) hi;
            lo \<leftarrow> rd hex_digits (unat (b AND 0x0F));
            wr out (i * 2 + 1) lo }) out = Some s \<and> ?P len s"
  proof (rule for_lt_inv [where P = ?P])
    fix i s assume i: "i < len" and s: "?P i s"
    have "unat (input ! i) div 16 < 16" using unat_u8_less [of "input ! i"] by linarith
    moreover obtain x y r where d: "drop (2 * i) out = x # y # r" "drop (2 * Suc i) out = r"
    proof -
      have "Suc (2 * i) < length out" using i assms(2) by linarith
      then have "drop (2 * i) out = out ! (2 * i) # out ! Suc (2 * i) # drop (2 * Suc i) out"
        by (simp add: Cons_nth_drop_Suc)
      then show ?thesis using that by blast
    qed
    moreover have "take (Suc i) input = take i input @ [input ! i]" using i assms(1) by (simp add: take_Suc_conv_app_nth)
    ultimately show "\<exists>s'. (do {
            b \<leftarrow> rd input i;
            hi \<leftarrow> rd hex_digits (unat (drop_bit 4 b));
            out \<leftarrow> wr s (i * 2) hi;
            lo \<leftarrow> rd hex_digits (unat (b AND 0x0F));
            wr out (i * 2 + 1) lo }) = Some s' \<and> ?P (Suc i) s'"
      using s i assms(1) length_hex_of [of "take i input"]
      by (simp add: nibbles list_update_append hex_of_snoc hex_pair_def mult.commute)
  qed (simp add: hex_of_def)
  then show ?thesis using assms
    by (auto simp: bytes_to_hex_def list_update_append mult.commute simp flip: Cons_nth_drop_Suc)
qed

lemma length_dec_digits: "n < 256 \<Longrightarrow> length (dec_digits n) \<le> 3"
  by (subst dec_digits.simps, auto simp: dec_digits.simps [of "n div 10"] dec_digits.simps [of "n div 10 div 10"])

lemma c_string_append: "0 \<notin> set xs \<Longrightarrow> c_string (xs @ 0 # ys) = xs"
  by (induction xs) (auto simp: c_string_def)

text \<open>The AT command fits in its buffers for every frame, and is the frame in upper-case hexadecimal.\<close>

lemma at_mode_sends:
  assumes "unat n \<le> length frame" "length junk = 512"
  defines "cmd \<equiv> map of_char ''AT+SEND=1,'' @ dec_digits (unat n) @ map of_char '','' @ hex_of (take (unat n) frame) @ [13, 10]"
  shows "length cmd < 600"
    and "lora_serial_send px True junk fd frame n w
      = (let (k, w) = px_write px fd cmd w in Some (if k = int (length cmd) then 0 else - 1, w))"
proof -
  have n: "unat n < 256" by (rule unat_u8_less)
  have "length cmd = 13 + length (dec_digits (unat n)) + 2 * unat n" using assms(1) by (simp add: cmd_def)
  then show l: "length cmd < 600" using length_dec_digits [OF n] n by linarith
  have h: "bytes_to_hex frame (unat n) junk = Some (hex_of (take (unat n) frame) @ 0 # drop (Suc (2 * unat n)) junk)"
    by (rule bytes_to_hex_eq) (use assms n in linarith)+
  have c: "at_command n (hex_of (take (unat n) frame) @ 0 # drop (Suc (2 * unat n)) junk) = cmd"
    by (simp add: at_command_def c_string_append hex_of_nonzero cmd_def)
  have "rd_slice (take 599 cmd @ [0]) 0 (length cmd) = Some cmd" using l by simp
  then show "lora_serial_send px True junk fd frame n w
      = (let (k, w) = px_write px fd cmd w in Some (if k = int (length cmd) then 0 else - 1, w))"
    by (simp add: lora_serial_send_def h c Let_def split_beta)
qed

end
