(* ===== verification/Herald_Daemon.thy ===== *)
theory Herald_Daemon
  imports Herald_Link Hal_Host Network_Start
begin

text \<open>
  The programs of \<^verbatim>\<open>examples/herald_linux\<close>: the Herald daemon \<^verbatim>\<open>main.c\<close>, from its command line
  to its exit code, and the two threads of the simulator \<^verbatim>\<open>shard_sim.c\<close>.
\<close>

section \<open>The C library\<close>

text \<open>What the programs call besides the system: output, and \<^verbatim>\<open>calloc\<close>, which may fail.\<close>

record 'w libc =
  lc_stdout :: "string \<Rightarrow> log_arg list \<Rightarrow> 'w \<Rightarrow> 'w"
  lc_perror :: "string \<Rightarrow> 'w \<Rightarrow> 'w"
  lc_calloc :: "nat \<Rightarrow> 'w \<Rightarrow> bool"

text \<open>\<^verbatim>\<open>atoi\<close>: white space, a sign, digits up to the first other character; a value that an
  \<^verbatim>\<open>int\<close> cannot hold is undefined.\<close>

definition c_isspace :: "char \<Rightarrow> bool" where
  "c_isspace c \<longleftrightarrow> c \<in> {CHR 0x20, CHR 0x09, CHR 0x0A, CHR 0x0B, CHR 0x0C, CHR 0x0D}"

fun c_digits :: "int \<Rightarrow> string \<Rightarrow> int" where
  "c_digits acc [] = acc"
| "c_digits acc (c # cs) =
     (if (48 :: int) \<le> of_char c \<and> of_char c \<le> (57 :: int) then c_digits (acc * 10 + (of_char c - 48)) cs else acc)"

definition atoi :: "string \<Rightarrow> int option" where
  "atoi s =
     (let s = dropWhile c_isspace s;
          v = (case s of
              c # cs \<Rightarrow> if c = CHR ''-'' then - c_digits 0 cs else if c = CHR ''+'' then c_digits 0 cs else c_digits 0 s
            | [] \<Rightarrow> 0)
      in if - (2 ^ 31) \<le> v \<and> v < 2 ^ 31 then Some v else None)"

section \<open>The command line\<close>

record daemon_args =
  da_port :: string
  da_baud :: u32
  da_params :: u16
  da_window :: u32
  da_delay :: u32
  da_min_sh :: u8
  da_max_sh :: u8

definition daemon_default :: daemon_args where
  "daemon_default = \<lparr>da_port = ''/dev/ttyUSB0'', da_baud = 115200, da_params = 192, da_window = 7200,
     da_delay = 300, da_min_sh = 2, da_max_sh = 20\<rparr>"

definition daemon_option :: "string \<Rightarrow> string \<Rightarrow> daemon_args \<Rightarrow> daemon_args option" where
  "daemon_option a b s =
     do { let s = (if a = ''--port'' then s\<lparr>da_port := b\<rparr> else s);
          s \<leftarrow> (if a = ''--baud'' then do { v \<leftarrow> atoi b; Some (s\<lparr>da_baud := word_of_int v\<rparr>) } else Some s);
          s \<leftarrow> (if a = ''--params'' then do { v \<leftarrow> atoi b; Some (s\<lparr>da_params := word_of_int v\<rparr>) } else Some s);
          s \<leftarrow> (if a = ''--window'' then do { v \<leftarrow> atoi b; Some (s\<lparr>da_window := word_of_int v\<rparr>) } else Some s);
          s \<leftarrow> (if a = ''--delay'' then do { v \<leftarrow> atoi b; Some (s\<lparr>da_delay := word_of_int v\<rparr>) } else Some s);
          s \<leftarrow> (if a = ''--min'' then do { v \<leftarrow> atoi b; Some (s\<lparr>da_min_sh := word_of_int v\<rparr>) } else Some s);
          (if a = ''--max'' then do { v \<leftarrow> atoi b; Some (s\<lparr>da_max_sh := word_of_int v\<rparr>) } else Some s) }"

text \<open>The loop over \<^verbatim>\<open>argv[1]\<close> to \<^verbatim>\<open>argv[argc - 2]\<close>: every argument but the last is tried as an
  option for the one after it, the values of options too.\<close>

fun daemon_options :: "string list \<Rightarrow> daemon_args \<Rightarrow> daemon_args option" where
  "daemon_options (a # b # rest) s = do { s \<leftarrow> daemon_option a b s; daemon_options (b # rest) s }"
| "daemon_options rest s = Some s"

section \<open>The daemon\<close>

definition on_round_complete :: "'w libc \<Rightarrow> u8 \<Rightarrow> u8 \<Rightarrow> 'w \<Rightarrow> 'w" where
  "on_round_complete lc round_id shards =
     lc_stdout lc ''[Herald] Round %d complete. Shards aggregated: %d'' [Log_Int (uint round_id), Log_Int (uint shards)]"

definition on_shard_update :: "'w libc \<Rightarrow> u16 \<Rightarrow> u8 \<Rightarrow> 'w \<Rightarrow> 'w" where
  "on_shard_update lc shard_id round_id =
     lc_stdout lc ''[Herald] Shard 0x%04X submitted update for round %d'' [Log_Int (uint shard_id), Log_Int (uint round_id)]"

text \<open>The handler of \<^verbatim>\<open>SIGINT\<close>.\<close>

definition on_sigint :: "'w posix \<Rightarrow> 'w FLHerald \<Rightarrow> 'w \<Rightarrow> 'w FLHerald \<times> 'w" where
  "on_sigint px h w = (fl_herald_stop h, px_stderr px ''[Herald] Caught SIGINT, stopping...'' [] w)"

text \<open>\<open>0x3C23D70A\<close> is \<^verbatim>\<open>0.01f\<close>; the model is the zeroed array of \<^verbatim>\<open>calloc\<close>.\<close>

definition daemon_config :: "'w libc \<Rightarrow> daemon_args \<Rightarrow> 'w FLHeraldConfig" where
  "daemon_config lc s =
     \<lparr>hc_serial_port = da_port s, hc_baud_rate = da_baud s, hc_model_param_count = da_params s,
      hc_global_model = replicate (unat (da_params s)) 0,
      hc_round_policy = \<lparr>rp_window_seconds = da_window s, rp_inter_round_delay_s = da_delay s,
        rp_min_shards = da_min_sh s, rp_max_shards = da_max_sh s, rp_local_epochs = 3, rp_learning_rate = F32 0x3C23D70A\<rparr>,
      hc_aggregator = FL_AGG_FEDAVG, hc_on_round_complete = Some (on_round_complete lc),
      hc_on_shard_update = Some (on_shard_update lc), hc_on_error = None, hc_log_level = 3\<rparr>"

text \<open>The exit code. \<open>h0\<close> is the static \<^verbatim>\<open>g_herald\<close>, which initialisation zeroes; \<open>sig\<close> is when the
  signal has come.\<close>

definition daemon_main ::
  "'w libc \<Rightarrow> 'w posix \<Rightarrow> ('t, 'w) termios_api \<Rightarrow> ('w \<Rightarrow> bool) \<Rightarrow> ((f32 \<Rightarrow> f32 \<Rightarrow> int) \<Rightarrow> f32 list \<Rightarrow> f32 list)
    \<Rightarrow> herald_locals \<Rightarrow> 'w FLHerald \<Rightarrow> string list \<Rightarrow> 'w \<Rightarrow> (int \<times> 'w) option" where
  "daemon_main lc px tio sig qs junk h0 argv w =
     do { s \<leftarrow> daemon_options (tl argv) daemon_default;
          if \<not> lc_calloc lc (4 * unat (da_params s)) w then Some (1, lc_perror lc ''calloc'' w)
          else do {
            let w = lc_stdout lc ''[Herald] Starting. Port=%s params=%d window=%ds''
              [Log_Str (da_port s), Log_Int (uint (da_params s)), Log_Int (uint (da_window s))] w;
            (err, h, w) \<leftarrow> fl_herald_init px tio (Some h0) (Some (daemon_config lc s)) w;
            h \<leftarrow> h;
            if err \<noteq> FL_OK then Some (1, px_stderr px ''[Herald] Init failed'' [] w)
            else do {
              (_, y) \<leftarrow> fl_herald_run px sig qs junk (herald_boot h w);
              Some (0, fl_herald_destroy px (hs_herald y) (hs_world y)) } } }"

section \<open>The simulator\<close>

text \<open>The pipes are pairs of a reading and a writing end.\<close>

record sim_pipes =
  shard_to_herald :: "int \<times> int"
  herald_to_shard :: "int \<times> int"

definition sim_herald_config :: "'w FLHeraldConfig" where
  "sim_herald_config =
     \<lparr>hc_serial_port = [], hc_baud_rate = 0, hc_model_param_count = 192, hc_global_model = replicate 192 0,
      hc_round_policy = \<lparr>rp_window_seconds = 10, rp_inter_round_delay_s = 2, rp_min_shards = 1, rp_max_shards = 1,
        rp_local_epochs = 2, rp_learning_rate = F32 0x3C23D70A\<rparr>,
      hc_aggregator = FL_AGG_FEDAVG, hc_on_round_complete = None, hc_on_shard_update = None, hc_on_error = None,
      hc_log_level = 2\<rparr>"

text \<open>The Herald thread up to its event loop.\<close>

definition sim_herald_start :: "'w posix \<Rightarrow> herald_locals \<Rightarrow> sim_pipes \<Rightarrow> 'w \<Rightarrow> 'w herald_sys option" where
  "sim_herald_start px junk p w =
     (let cfg = sim_herald_config in do {
        agg \<leftarrow> fl_agg_init agg_blank (hc_aggregator cfg) (Some (hc_global_model cfg)) (hc_model_param_count cfg);
        let h = \<lparr>he_config = cfg, he_scheduler = fl_round_init (hc_round_policy cfg), he_frag_pool = fl_pool_init 30,
              he_aggregator = agg, he_current_round = 0, he_serial_fd = snd (herald_to_shard p), he_running = 1\<rparr>;
        let (now, w) = px_time px w;
        let (round_id, s) = fl_round_open now (he_scheduler h);
        let h = h\<lparr>he_scheduler := s\<rparr>;
        (_, w) \<leftarrow> fl_herald_send_beacon px junk h round_id w;
        Some (herald_boot (h\<lparr>he_serial_fd := fst (shard_to_herald p)\<rparr>) w) })"

definition sim_herald_thread ::
  "'w posix \<Rightarrow> ('w \<Rightarrow> bool) \<Rightarrow> ((f32 \<Rightarrow> f32 \<Rightarrow> int) \<Rightarrow> f32 list \<Rightarrow> f32 list) \<Rightarrow> herald_locals \<Rightarrow> sim_pipes \<Rightarrow> 'w
    \<Rightarrow> 'w herald_sys option" where
  "sim_herald_thread px sig qs junk p w =
     do { y \<leftarrow> sim_herald_start px junk p w; (_, y) \<leftarrow> fl_herald_run px sig qs junk y; Some y }"

text \<open>The shard thread up to its loop, and \<open>n\<close> of its thousand passes.\<close>

definition sim_shard_start :: "libm \<Rightarrow> 'w host_os \<Rightarrow> bytes \<Rightarrow> sim_pipes \<Rightarrow> 'w host_env \<Rightarrow> 'w host_env sys option" where
  "sim_shard_start lm os junk p e =
     (let e = hal_host_set_fds (snd (shard_to_herald p)) (fst (herald_to_shard p)) e in do {
        (_, m) \<leftarrow> fl_model_init (Some zero_model) sim_layers 2;
        m \<leftarrow> m;
        m \<leftarrow> fl_model_init_random lm m 0xABCD;
        (_, s, e) \<leftarrow> fl_shard_init junk (Some (zero_shard (g_host_hal os) 0 zero_model)) (Some (g_host_hal os)) 1 (Some m) e;
        s \<leftarrow> s;
        Some \<lparr>sy_shard = s, sy_train = fresh_training, sy_env = e\<rparr> })"

fun sim_shard_passes :: "libm \<Rightarrow> 'w host_os \<Rightarrow> 'w host_env data_cb \<Rightarrow> locals \<Rightarrow> nat \<Rightarrow> 'w host_env sys \<Rightarrow> 'w host_env sys option" where
  "sim_shard_passes lm os cb junk 0 y = Some y"
| "sim_shard_passes lm os cb junk (Suc n) y =
     do { y \<leftarrow> sim_shard_passes lm os cb junk n y;
          (_, y) \<leftarrow> fl_shard_tick lm cb junk y;
          Some (y\<lparr>sy_env := (sy_env y)\<lparr>hv_world := px_usleep (posix.truncate os) 50000 (hv_world (sy_env y))\<rparr>\<rparr>) }"

definition sim_shard_thread ::
  "libm \<Rightarrow> 'w host_os \<Rightarrow> 'w host_env data_cb \<Rightarrow> locals \<Rightarrow> bytes \<Rightarrow> sim_pipes \<Rightarrow> 'w host_env \<Rightarrow> 'w host_env sys option" where
  "sim_shard_thread lm os cb junk buf p e =
     do { y \<leftarrow> sim_shard_start lm os buf p e; sim_shard_passes lm os cb junk 1000 y }"

section \<open>How the daemon ends\<close>

lemma daemon_config_ok:
  assumes "\<forall>fmt args w. ok w \<longrightarrow> ok (lc_stdout lc fmt args w)"
  shows "config_ok ok (daemon_config lc s)"
  using assms by (simp add: config_ok_def daemon_config_def ref_ok_def on_round_complete_def on_shard_update_def)

lemma daemon_run:
  assumes g: "gateway px ok fd" and qs: "qsort_spec qs" and junk: "wf_herald_locals junk" and c: "config_ok ok c"
    and w: "ok w" and h: "herald_init_common c = Some h"
    and stop: "\<forall>y z. herald_iters px qs junk k y = Some z \<longrightarrow> sig (hs_world z)"
  shows "\<exists>y. fl_herald_run px sig qs junk (herald_boot (h\<lparr>he_serial_fd := fd\<rparr>) w) = Some (FL_OK, y)"
proof -
  have "herald_inv ok fd (hc_model_param_count c) [] (herald_boot (h\<lparr>he_serial_fd := fd\<rparr>) w)"
    by (rule herald_boot_inv [where ok = ok, OF c h w])
  from gateway.start_ok [where px = px and ok = ok and fd = fd, OF g this junk] obtain y where
    y: "herald_start px junk (herald_boot (h\<lparr>he_serial_fd := fd\<rparr>) w) = Some y"
      "herald_inv ok fd (hc_model_param_count c) [] y" by blast
  have "\<forall>z. herald_iters px qs junk k y = Some z \<longrightarrow> sig (hs_world z)" using stop by blast
  from gateway.loop_ok [where px = px and ok = ok and fd = fd, OF g y(2) junk qs this]
  obtain y' where "herald_loop px sig qs junk y = Some y'" by blast
  then show ?thesis using y(1) by (simp add: fl_herald_run_def)
qed

text \<open>C19: How the daemon ends, on a port that never delivers an update frame with a fragment index of
  40 or more (on which the pool leaves its bitmap): with a command line it can read and memory for the
  model it leaves its arrays exactly when \<^verbatim>\<open>--params\<close> (or the default) is above the maximum, which nothing
  checks; and otherwise it ends with 1 if the serial port does not open, and with 0 if it opens and
  the signal comes after some number of passes, whatever else it hears on the port meanwhile.\<close>

theorem daemon_outcome:
  fixes lc and argv w
  assumes "daemon_options (tl argv) daemon_default = Some s" and "lc_calloc lc (4 * unat (da_params s)) w"
    and "serial_open px tio (da_port s) (da_baud s) (lc_stdout lc ''[Herald] Starting. Port=%s params=%d window=%ds''
      [Log_Str (da_port s), Log_Int (uint (da_params s)), Log_Int (uint (da_window s))] w) = (fd, w1)"
    and "0 \<le> fd \<longrightarrow> gateway px ok fd \<and> ok w1" and "\<forall>fmt args w. ok w \<longrightarrow> ok (lc_stdout lc fmt args w)"
    and "qsort_spec qs" and "wf_herald_locals junk"
    and "\<forall>y z. herald_iters px qs junk k y = Some z \<longrightarrow> sig (hs_world z)"
  shows "(daemon_main lc px tio sig qs junk h0 argv w = None \<longleftrightarrow> FL_MODEL_MAX_PARAMS < unat (da_params s))
    \<and> (unat (da_params s) \<le> FL_MODEL_MAX_PARAMS \<longrightarrow>
        (\<exists>w'. daemon_main lc px tio sig qs junk h0 argv w = Some (if fd < 0 then 1 else 0, w')))"
proof -
  let ?c = "daemon_config lc s"
  have c: "hc_model_param_count ?c = da_params s" "hc_serial_port ?c = da_port s" "hc_baud_rate ?c = da_baud s"
    "unat (hc_model_param_count ?c) \<le> length (hc_global_model ?c)" by (simp_all add: daemon_config_def)
  note main = daemon_main_def [of lc px tio sig qs junk h0 argv w] assms(1-3)
  show ?thesis
  proof (cases "herald_init_common ?c")
    case None
    then have "daemon_main lc px tio sig qs junk h0 argv w = None" by (simp add: main fl_herald_init_def)
    then show ?thesis using None herald_init_common_eq(1) [OF c(4)] c(1) by simp
  next
    case (Some h)
    then have le: "unat (da_params s) \<le> FL_MODEL_MAX_PARAMS" using herald_init_common_eq(1) [OF c(4)] c(1) by simp
    have "\<exists>w'. daemon_main lc px tio sig qs junk h0 argv w = Some (if fd < 0 then 1 else 0, w')"
    proof (cases "fd < 0")
      case True
      then show ?thesis using Some c(2,3) by (simp add: main fl_herald_init_def Let_def)
    next
      case False
      then have g: "gateway px ok fd" "ok w1" using assms(4) by simp_all
      let ?h = "h\<lparr>he_serial_fd := fd\<rparr>"
      let ?w = "herald_log px ?h 2 ''Initialized. Serial: %s @ %u baud'' [Log_Str (da_port s), Log_Int (uint (da_baud s))] w1"
      have "ok ?w" by (rule gateway.log_ok [OF g])
      from daemon_run [where px = px and ok = ok, OF g(1) assms(6,7) daemon_config_ok [OF assms(5)] this Some assms(8)]
      obtain y where "fl_herald_run px sig qs junk (herald_boot ?h ?w) = Some (FL_OK, y)" by blast
      then show ?thesis using Some False c(2,3) by (simp add: main fl_herald_init_def Let_def)
    qed
    then show ?thesis using le by fastforce
  qed
qed

definition quiet_libc :: "'w libc" where
  "quiet_libc = \<lparr>lc_stdout = (\<lambda>_ _ w. w), lc_perror = (\<lambda>_ w. w), lc_calloc = (\<lambda>_ _. True)\<rparr>"

definition plain_tty :: "(unit, 'w) termios_api" where
  "plain_tty = \<lparr>tio_get = (\<lambda>_ w. (0, (), w)), tio_ospeed = (\<lambda>_ t. t), tio_ispeed = (\<lambda>_ t. t), tio_raw = (\<lambda>t. t),
     tio_vmin = (\<lambda>_ t. t), tio_vtime = (\<lambda>_ t. t), tio_set = (\<lambda>_ _ w. (0, w))\<rparr>"

lemma flag_stops: "\<forall>y z. herald_iters flag_posix cmp_isort sample_junk 1 y = Some z \<longrightarrow> hs_world z"
proof (intro allI impI)
  fix y z assume "herald_iters flag_posix cmp_isort sample_junk 1 y = Some z"
  moreover have "px_nanosleep flag_posix ns v" for ns v by (simp add: flag_posix_def)
  ultimately show "hs_world z" by (auto simp: herald_iter_def bind_eq_Some_conv)
qed

lemma flag_gateway: "gateway flag_posix (\<lambda>_. True) 3"
  by unfold_locales (simp_all add: flag_posix_def)

lemma flag_opens: "serial_open flag_posix plain_tty p b w = (3, w)"
  by (simp add: serial_open_def flag_posix_def plain_tty_def Let_def)

theorem daemon_outcome_witness:
  "\<forall>h0. daemon_main quiet_libc flag_posix plain_tty (\<lambda>w. w) cmp_isort sample_junk h0 [''herald'', ''--params'', ''5000''] False = None
    \<and> (\<exists>w'. daemon_main quiet_libc flag_posix plain_tty (\<lambda>w. w) cmp_isort sample_junk h0 [''herald'', ''--params'', ''178''] False = Some (0, w'))"
proof
  fix h0 :: "bool FLHerald"
  have a: "daemon_options (tl [''herald'', ''--params'', ''5000'']) daemon_default = Some (daemon_default\<lparr>da_params := 5000\<rparr>)"
    "daemon_options (tl [''herald'', ''--params'', ''178'']) daemon_default = Some (daemon_default\<lparr>da_params := 178\<rparr>)"
    by (simp_all add: daemon_option_def atoi_def c_isspace_def)
  have m: "lc_calloc quiet_libc n w" for n and w :: bool by (simp add: quiet_libc_def)
  note rest = flag_opens _ _ isort.qsort_spec_axioms sample_junk_wf flag_stops
  have g: "0 \<le> (3 :: int) \<longrightarrow> gateway flag_posix (\<lambda>_. True) 3 \<and> True" "\<forall>fmt args w. True \<longrightarrow> True"
    using flag_gateway by simp_all
  note o = daemon_outcome [where sig = "\<lambda>w. w" and ?h0.0 = h0 and ok = "\<lambda>_. True", OF _ m flag_opens g isort.qsort_spec_axioms sample_junk_wf flag_stops]
  show "daemon_main quiet_libc flag_posix plain_tty (\<lambda>w. w) cmp_isort sample_junk h0 [''herald'', ''--params'', ''5000''] False = None
    \<and> (\<exists>w'. daemon_main quiet_libc flag_posix plain_tty (\<lambda>w. w) cmp_isort sample_junk h0 [''herald'', ''--params'', ''178''] False = Some (0, w'))"
    using o [OF a(1)] o [OF a(2)] by simp
qed

section \<open>The simulator starts\<close>

lemma sim_herald_starts:
  assumes g: "gateway px ok (snd (herald_to_shard p))" and w: "ok w" and junk: "wf_herald_locals junk"
  shows "\<exists>y. sim_herald_start px junk p w = Some y \<and> herald_inv ok (fst (shard_to_herald p)) 192 [] y"
proof -
  let ?c = "sim_herald_config :: 'a FLHeraldConfig"
  have c: "hc_model_param_count ?c = 192" "hc_global_model ?c = replicate 192 0" "hc_aggregator ?c = FL_AGG_FEDAVG"
    "hc_on_shard_update ?c = None" "hc_on_round_complete ?c = None"
    by (simp_all add: sim_herald_config_def)
  obtain a where a: "fl_agg_init agg_blank FL_AGG_FEDAVG (Some (replicate 192 0)) 192 = Some a" "agg_inv FL_AGG_FEDAVG 192 [] a"
    "ag_fedprox_mu a = 0" "\<forall>i < 192. ag_global_model a ! i = 0"
    using agg_init_inv [OF wf_agg_blank, of 192 "Some (replicate 192 0)" FL_AGG_FEDAVG] by (auto simp: agg_blank_def)
  obtain now w1 where t: "px_time px w = (now, w1)" by (cases "px_time px w")
  have w1: "ok w1" using gateway.px_time_ok [OF g w] t by simp
  obtain r s where o: "fl_round_open now (fl_round_init (hc_round_policy ?c)) = (r, s)"
    by (cases "fl_round_open now (fl_round_init (hc_round_policy ?c))")
  let ?h = "\<lparr>he_config = ?c, he_scheduler = s, he_frag_pool = fl_pool_init 30, he_aggregator = a, he_current_round = 0,
      he_serial_fd = snd (herald_to_shard p), he_running = 1\<rparr>"
  have j: "length (hj_wire junk) = FL_FRAME_MAX_SIZE" using junk by (simp add: wf_herald_locals_def)
  obtain e w2 where b: "fl_herald_send_beacon px junk ?h r w1 = Some (e, w2)" "ok w2"
    using gateway.send_beacon_ok [OF g w1 _ j, of ?h r] by auto
  let ?y = "herald_boot (?h\<lparr>he_serial_fd := fst (shard_to_herald p)\<rparr>) w2"
  have "sim_herald_start px junk p w = Some ?y" using a(1) t o b(1) by (simp add: sim_herald_start_def c Let_def)
  moreover have "herald_inv ok (fst (shard_to_herald p)) 192 [] ?y"
    using a b(2) by (simp add: herald_inv_def herald_boot_def c ref_ok_def)
  ultimately show ?thesis by blast
qed

lemma sim_herald_returns:
  assumes g: "gateway px ok (snd (herald_to_shard p))" "gateway px ok (fst (shard_to_herald p))" and w: "ok w"
    and junk: "wf_herald_locals junk" and qs: "qsort_spec qs"
    and stop: "\<forall>y z. herald_iters px qs junk k y = Some z \<longrightarrow> sig (hs_world z)"
  shows "\<exists>y us. sim_herald_thread px sig qs junk p w = Some y \<and> herald_inv ok (fst (shard_to_herald p)) 192 us y"
proof -
  let ?fd = "fst (shard_to_herald p)"
  obtain y0 where y0: "sim_herald_start px junk p w = Some y0" "herald_inv ok ?fd 192 [] y0"
    using sim_herald_starts [OF g(1) w junk] by blast
  from gateway.start_ok [where px = px and ok = ok and fd = ?fd, OF g(2) y0(2) junk]
  obtain y where y: "herald_start px junk y0 = Some y" "herald_inv ok ?fd 192 [] y" by blast
  have "\<forall>z. herald_iters px qs junk k y = Some z \<longrightarrow> sig (hs_world z)" using stop by blast
  from gateway.loop_ok [where px = px and ok = ok and fd = ?fd, OF g(2) y(2) junk qs this]
  obtain y' us where y': "herald_loop px sig qs junk y = Some y'" "herald_inv ok ?fd 192 us y'" by blast
  let ?y = "y'\<lparr>hs_world := herald_log px (hs_herald y') 2 ''Event loop stopped'' [] (hs_world y')\<rparr>"
  have "herald_inv ok ?fd 192 us ?y" using y'(2) gateway.log_ok [OF g(2)] by (simp add: herald_inv_def Let_def)
  then show ?thesis using y0(1) y(1) y'(1) by (auto simp: sim_herald_thread_def fl_herald_run_def)
qed

end
