(* ===== verification/Spec2Isabelle.thy ===== *)
theory Spec2Isabelle
  imports Demo_Outcome Round_Turn Stm32_Board Herald_Daemon
begin

text \<open>
  A verification development of Filum, the C99 library for federated learning on microcontrollers
  over LoRa.

  \<^bold>\<open>The program.\<close> A \<^emph>\<open>shard\<close> (\<^verbatim>\<open>shard/\<close>) is a microcontroller with a small neural network. A \<^emph>\<open>Herald\<close>
  (\<^verbatim>\<open>herald/\<close>) is a gateway that runs the rounds. In a round the Herald sends a BEACON; the shard
  trains on its own data, keeps the largest changes of its parameters in eight bits each (top-k,
  Q8), cuts them into fragments that fit a LoRa frame and sends these as UPDATE frames; the Herald
  collects the fragments of each shard in a pool, acknowledges a complete update with an ACK and
  adds it to an aggregator; when the round closes it sends the aggregated change as DELTA frames,
  which every shard applies to its parameters, and a ROUND_CLOSE. \<^verbatim>\<open>common/\<close> holds what both sides
  share: frames, quantisation, sparse updates, encryption and differential privacy. The shard sees
  its hardware only through the table \<^verbatim>\<open>FLHal\<close>; \<^verbatim>\<open>shard/hal/\<close> fills it for the STM32 with an SX1276
  modem and for a host with pipes, \<^verbatim>\<open>examples/demo/demo.c\<close> with two byte queues in memory.

  \<^bold>\<open>How the code is read.\<close> A structure is a record with the field names of the source behind a prefix,
  an enumeration a datatype, an unsigned integer a word of its width, an array a list.
  An operation returns an option: \<open>None\<close> is an access outside an array, another undefined behaviour
  (a conversion of a float that does not fit), or, for a loop, not returning. Status codes are
  ordinary values (\<open>FLError\<close>, or the integers 0, 1 and -1 of the hardware table). So a theorem that
  gives \<open>Some\<close> also says that the code stays in its memory and returns. A pointer that may be
  \<^verbatim>\<open>NULL\<close> is an option. Uninitialised locals are arguments (\<open>locals\<close>, \<open>herald_locals\<close>, \<open>junk\<close>),
  so nothing is proved that depends on their contents. The world outside (queues, radio, files,
  clock, log) is one more argument that is passed on; a step of a shard works on \<open>sys\<close>, the shard,
  its training buffers and that world, a step of the Herald on \<open>herald_sys\<close>.

  \<^bold>\<open>The theories.\<close>

  \<^item> \<open>Filum_Prelude\<close>: integer types, little-endian codes, checked array access (\<open>rd\<close>, \<open>wr\<close>,
    \<open>rd_slice\<close>, \<open>memcpy_at\<close>), counting loops (\<open>for_lt\<close>, with \<open>for_lt_inv\<close>, the rule of most loop
    proofs), bitmaps, and the collections \<open>ub_simps\<close> and \<open>byte_simps\<close>.
  \<^item> \<open>Filum_Error\<close>: \<^verbatim>\<open>fl_error\<close>, \<^verbatim>\<open>fl_version\<close>, \<^verbatim>\<open>fl_config.h\<close>. The development is over the default
    sizes (4096 parameters, 1024 sparse entries, 64 shards, fragment bitmaps of 40 bits).
  \<^item> \<open>Float32\<close>: the C \<^verbatim>\<open>float\<close> as binary32 with rounding to nearest even, executable on the bit
    pattern. \<open>f_ord\<close> is the value of a finite float in units of \<open>2^-149\<close>. The functions of
    \<^verbatim>\<open>math.h\<close> are the parameter \<open>libm\<close>; nothing is assumed of them.
  \<^item> \<open>Frame\<close>: \<^verbatim>\<open>fl_crc.c\<close>, \<^verbatim>\<open>fl_frame\<close>. Encoding and decoding are inverse; an error burst of up to two
    neighbouring bytes is found (the locale \<open>burst_register\<close>, interpreted by the CRC); the decoder
    is undefined exactly for the lengths whose payload, cut to a byte, is longer than a frame's. \<open>packed_struct\<close> is the interface of the packed
    payloads.
  \<^item> \<open>Quant\<close>, \<open>Sparse\<close>: \<^verbatim>\<open>fl_quant\<close>, \<^verbatim>\<open>fl_sparse\<close>. The Q8 value is the truncated, saturated one; the
    encoder sends a top-k list (\<open>top_list\<close>); a decoder gets back its Q8 values; fragments in any
    order give back the entries.
  \<^item> \<open>Round_Scheduler\<close>, \<open>Fragment_Pool\<close>, \<open>Aggregator\<close>, \<open>Aggregate_Values\<close>: \<^verbatim>\<open>fl_round\<close>,
    \<^verbatim>\<open>fl_fragment_pool\<close>, \<^verbatim>\<open>fl_aggregator\<close>. The invariant of the pool, the update it reassembles
    from fragment 0 and then the others in any order and with duplicates, and the frames for which it
    leaves its bitmap; FedAvg, FedProx and the median as functions of
    the updates added, the median between honest values; what is decoded lies on a grid that 64 sums
    do not leave. The library's \<^verbatim>\<open>qsort\<close> is the parameter of the locale \<open>qsort_spec\<close> (a sorted
    permutation for a consistent comparison), interpreted by insertion sort.
  \<^item> \<open>Chacha20\<close>, \<open>Poly1305\<close>, \<open>Poly1305_Correct\<close>, \<open>Fe25519\<close>, \<open>X25519\<close>, \<open>Crypto_Session\<close>:
    \<^verbatim>\<open>fl_crypto.c\<close>. The stream cipher is its own inverse (locale \<open>stream_cipher\<close>); the limbs of the
    authenticator and of the field stand for integers modulo \<open>2^130 - 5\<close> and \<open>2^255 - 19\<close> and no
    product overflows its 64 or 128 bits; the ladder refines one over the integers. Where the code
    departs from RFC 8439 and RFC 7748 the theorems say what it computes instead.
  \<^item> \<open>Dp\<close>: \<^verbatim>\<open>fl_dp\<close>, its generator, the Box-Muller sample and the mechanism.
  \<^item> \<open>Model\<close>, \<open>Model_Correct\<close>, \<open>Train\<close>, \<open>Train_Safe\<close>, \<open>Examples\<close>, \<open>Network_Start\<close>:
    \<^verbatim>\<open>shard/src/fl_model.c\<close>, \<^verbatim>\<open>fl_train.c\<close>, the networks and data callbacks of the examples.
    The forward pass is the composition of its layers when no layer narrows, and is not when one
    does; an epoch returns over every data callback of the locale \<open>data_source\<close>, interpreted by
    those of the three examples.
  \<^item> \<open>Hal\<close>, \<open>Shard\<close>, \<open>Shard_Machine\<close>: \<^verbatim>\<open>hal.h\<close>, \<^verbatim>\<open>fl_shard\<close>. One definition for each handler and each
    state of the tick; \<open>tick_edge\<close> is the documented state machine, which every tick follows; over a
    hardware table that keeps the locale \<open>hal_contract\<close> a listening shard handles any bytes.
  \<^item> \<open>Posix\<close>, \<open>Herald\<close>, \<open>Herald_Safe\<close>: \<^verbatim>\<open>fl_herald\<close>, its serial port over the operating system calls
    of \<open>posix\<close>, and a pass of its event loop (\<open>herald_iter\<close>). \<open>herald_inv\<close> is the invariant of its
    whole state; over a system of the locale \<open>gateway\<close> every pass keeps it.
  \<^item> \<open>Demo\<close>, \<open>Shard_Link\<close>, \<open>Herald_Link\<close>, \<open>Delta_Link\<close>, \<open>Round_Turn\<close>: the byte queues of \<^verbatim>\<open>demo.c\<close> refine lists of
    frames; they interpret \<open>hal_contract\<close> on the shard's side and \<open>gateway\<close> on the Herald's. Through
    them: an update from the shard's ticks into the aggregate and its acknowledgement back, a delta
    from the Herald into the shard's parameters, the close of a round up to the training of the
    next one, and what an encrypted update and a delta without its first fragment come to.
  \<^item> \<open>Demo_Round\<close>, \<open>Demo_Correct\<close>, \<open>Demo_Outcome\<close>: \<^verbatim>\<open>main\<close> of \<^verbatim>\<open>demo.c\<close>, phase by phase, and the six
    rounds end to end. \<open>demo_inv\<close> holds between rounds.
  \<^item> \<open>Sx1276\<close>, \<open>Stm32_Board\<close>: \<^verbatim>\<open>shard/hal/stm32\<close> and \<^verbatim>\<open>examples/shard_stm32f4\<close>. The modem behind SPI
    transfers (\<open>spi_bus\<close>), with the locales \<open>sx_registers\<close> (what is written is read), \<open>stm32_modem\<close>
    (no packet longer than a frame; it gives \<open>hal_contract\<close>) and \<open>ms_clock\<close>, each interpreted by a
    concrete chip or clock.
  \<^item> \<open>Hal_Host\<close>, \<open>Herald_Daemon\<close>: \<^verbatim>\<open>hal_host.c\<close>, \<^verbatim>\<open>lora_serial.c\<close>, and the programs of
    \<^verbatim>\<open>examples/herald_linux\<close>. The locales \<open>host_clock\<close> (time passes, reads return), its
    extension \<open>host_link\<close> (no packet longer than a frame; it gives \<open>hal_contract\<close>), \<open>host_files\<close> and
    \<open>byte_pipe\<close> state what is used of clocks, files and pipes; a system in memory interprets them all.

  \<^bold>\<open>Loops.\<close> Counting loops are \<open>for_lt\<close>. The loops that wait for something outside are
  \<open>partial_function (option)\<close>: one epoch (\<open>train_loop\<close>), the event loop (\<open>herald_loop\<close>), reception on
  the host (\<open>host_recv_loop\<close>), the sending and draining loops of the demonstration (\<open>demo_tx_loop\<close>,
  \<open>demo_drain\<close>); for each there is a theorem or a lemma that it returns. The only fuel is in loops
  that the source bounds itself: 5000 polls of the modem, 64 polls for a delta and six rounds in
  \<^verbatim>\<open>demo.c\<close>. \<open>run_ticks\<close> and \<open>herald_iters\<close> count calls and are no model of a loop.

  \<^bold>\<open>What the theorems show.\<close> Between the two ends of the radio link: a whole round,
  from the first fragment of an update through the aggregate to the training of the next round, with
  the values that the quantisation leaves. Against hostile input: a shard and
  the Herald stay in their buffers for any bytes, as long as what is received is no longer than a frame
  and the fragment numbers that reach the pool are inside its bitmap; where the code checks no such
  bound, the theorems give the exact condition under which it leaves its memory. Of whole programs: the demonstration completes its six rounds
  unless training leaves a value that is no number, and under the same conditions on its port the event loop returns when
  it is stopped and the exit code of the daemon is known. FedProx gives the values of FedAvg in every
  state the Herald reaches. Several theorems state a defect: the round applies a shard's own update twice,
  the encrypted frame keeps the checksum of its plaintext, the STM32 boots with erased weights, the
  host abstraction and the Herald disagree on the framing of a pipe, the modem's time-out counts as
  success, a lost first fragment goes unnoticed.

  \<^bold>\<open>Not modelled.\<close>
  \<^item> \<^verbatim>\<open>common/include/filum.h\<close> only includes the other headers.
  \<^item> \<^verbatim>\<open>common/src/fl_model.c\<close> is in no build: it uses types (\<^verbatim>\<open>FLModelDesc\<close>, \<^verbatim>\<open>fl_f32\<close>) that no header
    declares; \<^verbatim>\<open>shard/src/fl_model.c\<close> is the model that is built.
  \<^item> In \<^verbatim>\<open>hal_stm32.c\<close> the function table, which names fields that \<^verbatim>\<open>FLHal\<close> does not have, and the
    empty log; in \<^verbatim>\<open>shard_sim.c\<close> the \<^verbatim>\<open>main\<close> that creates and joins the two threads, and with it their
    interleaving; the text the programs print.
  \<^item> The operating system, \<^verbatim>\<open>libm\<close>, \<^verbatim>\<open>qsort\<close> and the vendor's hardware library are parameters.
  \<^item> Concurrency between a signal handler or another thread and the event loop is reduced to the flag
    \<^verbatim>\<open>running\<close>, which may be cleared after any pass.
\<close>

end
